(* ===== verification/Spotter_Prelude.thy ===== *)
theory Spotter_Prelude
  imports Main "HOL-Library.AList" "HOL-Library.List_Lexorder" "HOL-Library.Char_ord"
begin

text \<open>
  The vocabulary the component theories share: the exceptions the modelled code raises and
  the result type that carries them, Python's insertion-ordered dictionaries (with the
  interface locale \<open>ordered_dict\<close> that their clients rest on), order-preserving
  deduplication (\<open>tuple(dict.fromkeys(xs))\<close>), slices \<open>xs[-n:]\<close>, and
  \<open>sorted(set(xs))\<close>.
\<close>

section \<open>Exceptions and results\<close>

text \<open>One constructor per exception class the modelled functions raise; the message is kept.\<close>

datatype exc =
    ThreadStateError string
  | ReviewSchedulingError string
  | MissingRuntimeIdentity string
  | UnknownRuntimeIdentity string
  | ConflictingRuntimeIdentity string
  | LedgerCorrupt string
  | EffectResolutionError string
  | SnapshotError string
  | SnapshotPinError string
  | FeedbackError string
  | OpportunityError string
  | LabelError string
  | SignalSampleError string
  | IngestionError string
  | ReplayError string
  | UnicodeDecodeError
  | ValueError string
  | OverflowError
  | KeyError
  | TypeError

type_synonym 'a result = "exc + 'a"

fun rbind :: "'a result \<Rightarrow> ('a \<Rightarrow> 'b result) \<Rightarrow> 'b result" where
  "rbind (Inl e) f = Inl e"
| "rbind (Inr x) f = f x"

lemma rbind_Inr [simp]: "rbind r f = Inr y \<longleftrightarrow> (\<exists>x. r = Inr x \<and> f x = Inr y)"
  by (cases r) auto

lemma rbind_split: "P (rbind r f) \<longleftrightarrow> (\<forall>e. r = Inl e \<longrightarrow> P (Inl e)) \<and> (\<forall>x. r = Inr x \<longrightarrow> P (f x))"
  by (cases r) auto

lemma rbind_cong [fundef_cong]:
  "r = r' \<Longrightarrow> (\<And>x. r' = Inr x \<Longrightarrow> f x = f' x) \<Longrightarrow> rbind r f = rbind r' f'"
  by (cases r) auto

section \<open>State that survives an exception\<close>

type_synonym ('s, 'a) attempt = "'s \<times> 'a result"

definition attempt_bind :: "('s, 'a) attempt \<Rightarrow> ('s \<Rightarrow> 'a \<Rightarrow> ('s, 'b) attempt) \<Rightarrow> ('s, 'b) attempt" where
  "attempt_bind m f = (case m of (s, Inl e) \<Rightarrow> (s, Inl e) | (s, Inr x) \<Rightarrow> f s x)"

text \<open>An operation on a state that changes nothing when it raises.\<close>

definition attempt_on :: "'s \<Rightarrow> ('s \<times> 'a) result \<Rightarrow> ('s, 'a) attempt" where
  "attempt_on s r = (case r of Inl e \<Rightarrow> (s, Inl e) | Inr (s', x) \<Rightarrow> (s', Inr x))"

section \<open>Insertion-ordered dictionaries\<close>

text \<open>
  A Python \<open>dict\<close> is an association list in insertion order: assignment to a present
  key keeps its position, a new key goes last (\<open>AList.update\<close>), \<open>pop\<close> removes it
  (\<open>AList.delete\<close>).
\<close>

type_synonym ('k, 'v) dict = "('k \<times> 'v) list"

definition dget :: "('k, 'v) dict \<Rightarrow> 'k \<Rightarrow> 'v option" where
  "dget d k = map_of d k"

definition dset :: "'k \<Rightarrow> 'v \<Rightarrow> ('k, 'v) dict \<Rightarrow> ('k, 'v) dict" where
  "dset k v d = AList.update k v d"

definition dpop :: "'k \<Rightarrow> ('k, 'v) dict \<Rightarrow> ('k, 'v) dict" where
  "dpop k d = AList.delete k d"

definition dkeys :: "('k, 'v) dict \<Rightarrow> 'k list" where
  "dkeys d = map fst d"

definition dvalues :: "('k, 'v) dict \<Rightarrow> 'v list" where
  "dvalues d = map snd d"

definition dict_ok :: "('k, 'v) dict \<Rightarrow> bool" where
  "dict_ok d \<longleftrightarrow> distinct (map fst d)"

named_theorems dict_eval \<open>equations that evaluate dictionary operations on concrete dictionaries\<close>

lemma dset_eval [dict_eval]:
  "dset k v [] = [(k, v)]"
  "dset k v ((k', v') # d) = (if k' = k then (k, v) # d else (k', v') # dset k v d)"
  by (simp_all add: dset_def)

lemma dpop_eval [dict_eval]:
  "dpop k [] = []"
  "dpop k ((k', v') # d) = (if k' = k then dpop k d else (k', v') # dpop k d)"
  by (simp_all add: dpop_def AList.delete_eq)

lemma dget_eval [dict_eval]:
  "dget [] k = None"
  "dget ((k', v') # d) k = (if k' = k then Some v' else dget d k)"
  by (auto simp: dget_def)

lemma dkeys_eval [dict_eval]: "dkeys [] = []" "dkeys ((k, v) # d) = k # dkeys d"
  by (simp_all add: dkeys_def)

lemma dvalues_eval [dict_eval]: "dvalues [] = []" "dvalues ((k, v) # d) = v # dvalues d"
  by (simp_all add: dvalues_def)

text \<open>
  The interface every component that keeps a dictionary relies on: what a lookup returns
  after an assignment or a removal, which keys are listed, and that the listing never
  repeats a key.
\<close>

locale ordered_dict =
  fixes empty :: "'d"
    and get :: "'d \<Rightarrow> 'k \<Rightarrow> 'v option"
    and put :: "'k \<Rightarrow> 'v \<Rightarrow> 'd \<Rightarrow> 'd"
    and pop :: "'k \<Rightarrow> 'd \<Rightarrow> 'd"
    and keys :: "'d \<Rightarrow> 'k list"
    and ok :: "'d \<Rightarrow> bool"
  assumes get_empty: "get empty k = None"
    and get_put: "get (put k v d) j = (if j = k then Some v else get d j)"
    and get_pop: "get (pop k d) j = (if j = k then None else get d j)"
    and set_keys: "set (keys d) = {k. get d k \<noteq> None}"
    and ok_empty: "ok empty"
    and ok_put: "ok d \<Longrightarrow> ok (put k v d)"
    and ok_pop: "ok d \<Longrightarrow> ok (pop k d)"
    and keys_distinct: "ok d \<Longrightarrow> distinct (keys d)"
    and keys_put_old: "get d k \<noteq> None \<Longrightarrow> keys (put k v d) = keys d"
    and keys_put_new: "get d k = None \<Longrightarrow> keys (put k v d) = keys d @ [k]"
    and keys_pop: "keys (pop k d) = filter (\<lambda>j. j \<noteq> k) (keys d)"
begin

lemma get_put_same: "get (put k v d) k = Some v"
  by (simp add: get_put)

lemma get_put_other: "j \<noteq> k \<Longrightarrow> get (put k v d) j = get d j"
  by (simp add: get_put)

lemma all_put: "(\<And>j w. get d j = Some w \<Longrightarrow> P j w) \<Longrightarrow> P k v \<Longrightarrow>
    get (put k v d) j = Some w \<Longrightarrow> P j w"
  by (auto simp: get_put split: if_splits)

lemma all_pop: "(\<And>j w. get d j = Some w \<Longrightarrow> P j w) \<Longrightarrow> get (pop k d) j = Some w \<Longrightarrow> P j w"
  by (auto simp: get_pop split: if_splits)

lemma keys_put_length:
  "length (keys (put k v d)) = (if get d k = None then Suc (length (keys d)) else length (keys d))"
  by (simp add: keys_put_old keys_put_new)

end

lemma map_fst_update: "k \<in> fst ` set d \<Longrightarrow> map fst (AList.update k v d) = map fst d"
  by (induction d) auto

lemma map_fst_update_new: "k \<notin> fst ` set d \<Longrightarrow> map fst (AList.update k v d) = map fst d @ [k]"
  by (induction d) auto

lemma map_fst_delete: "map fst (AList.delete k d) = filter (\<lambda>j. j \<noteq> k) (map fst d)"
  by (induction d) (auto simp: AList.delete_eq)

interpretation dict: ordered_dict "[]" dget dset dpop dkeys dict_ok
proof unfold_locales
  fix d :: "('k, 'v) dict" and k v
  show "set (dkeys d) = {k. dget d k \<noteq> None}"
    by (auto simp: dkeys_def dget_def map_of_eq_None_iff)
  show "dget d k \<noteq> None \<Longrightarrow> dkeys (dset k v d) = dkeys d"
    by (simp add: dkeys_def dget_def dset_def map_of_eq_None_iff map_fst_update)
  show "dget d k = None \<Longrightarrow> dkeys (dset k v d) = dkeys d @ [k]"
    by (simp add: dkeys_def dget_def dset_def map_of_eq_None_iff map_fst_update_new)
qed (auto simp: dget_def dset_def dpop_def dict_ok_def dkeys_def update_conv delete_conv
    distinct_update distinct_delete map_fst_delete)

lemmas dict_laws [simp] = dict.get_empty dict.get_put dict.get_pop dict.ok_empty dict.ok_put
  dict.ok_pop

lemma dpop_absent: "dget d k = None \<Longrightarrow> dpop k d = d"
  by (simp add: dget_def dpop_def map_of_eq_None_iff delete_idem)

lemma dset_new: "dget d k = None \<Longrightarrow> dset k v d = d @ [(k, v)]"
  by (induction d) (auto simp: dict_eval split: if_splits)

lemma dset_same: "dict_ok d \<Longrightarrow> dget d k = Some v \<Longrightarrow> dset k v d = d"
  by (induction d) (auto simp: dict_ok_def dget_def dset_def split: if_splits)

lemma dget_in_values: "dget d k = Some v \<Longrightarrow> v \<in> set (dvalues d)"
  by (auto simp: dget_def dvalues_def dest: map_of_SomeD intro: rev_image_eqI)

lemma in_dvalues: "dict_ok d \<Longrightarrow> v \<in> set (dvalues d) \<longleftrightarrow> (\<exists>k. dget d k = Some v)"
  by (force simp: dget_def dvalues_def dict_ok_def dest: map_of_SomeD)

section \<open>Lists\<close>

text \<open>\<open>tuple(dict.fromkeys(xs))\<close>: each value once, at its first position.\<close>

fun dedup :: "'a list \<Rightarrow> 'a list" where
  "dedup [] = []"
| "dedup (x # xs) = x # filter (\<lambda>y. y \<noteq> x) (dedup xs)"

lemma set_dedup [simp]: "set (dedup xs) = set xs"
  by (induction xs) auto

lemma distinct_dedup [simp]: "distinct (dedup xs)"
  by (induction xs) auto

lemma dedup_distinct: "distinct xs \<Longrightarrow> dedup xs = xs"
proof (induction xs)
  case (Cons x xs)
  then show ?case by (auto intro!: filter_True)
qed simp

lemma length_dedup: "length (dedup xs) \<le> length xs"
  by (induction xs) (auto intro: le_trans [OF length_filter_le])

text \<open>\<open>xs[-n:]\<close> for a positive \<open>n\<close>: the last \<open>n\<close> elements.\<close>

definition take_last :: "nat \<Rightarrow> 'a list \<Rightarrow> 'a list" where
  "take_last n xs = drop (length xs - n) xs"

lemma length_take_last [simp]: "length (take_last n xs) = min n (length xs)"
  by (simp add: take_last_def)

lemma take_last_short: "length xs \<le> n \<Longrightarrow> take_last n xs = xs"
  by (simp add: take_last_def)

lemma set_take_last: "set (take_last n xs) \<subseteq> set xs"
  by (simp add: take_last_def set_drop_subset)

lemma take_last_snoc: "0 < n \<Longrightarrow> take_last n (xs @ [x]) = take_last (n - 1) xs @ [x]"
  by (cases n) (auto simp: take_last_def Suc_diff_le)

text \<open>\<open>sorted(set(xs))\<close> and \<open>tuple(sorted({...}))\<close>.\<close>

definition sorted_set :: "'a::linorder list \<Rightarrow> 'a list" where
  "sorted_set xs = sort (remdups xs)"

lemma set_sorted_set [simp]: "set (sorted_set xs) = set xs"
  by (simp add: sorted_set_def)

lemma sorted_sorted_set [simp]: "sorted (sorted_set xs)" "distinct (sorted_set xs)"
  by (simp_all add: sorted_set_def)

lemma sorted_set_Nil [simp]: "sorted_set xs = [] \<longleftrightarrow> xs = []"
  by (metis set_empty set_sorted_set)

lemma sorted_set_cong: "set xs = set ys \<Longrightarrow> sorted_set xs = sorted_set ys"
  by (metis sorted_sorted_set set_sorted_set sorted_distinct_set_unique)

end
