(* ===== verification/Py_Text.thy ===== *)
theory Py_Text
  imports Spotter_Prelude
begin

text \<open>
  The string methods the sources use, on \<open>string\<close> (a list of characters). A \<open>char\<close> is a
  code point below 256, so the model is exact on that range of Python's \<open>str\<close>: the
  whitespace of \<open>str.strip\<close> and of the regular expression class \<open>\s\<close>, case folding by
  \<open>lower\<close>, and the UTF-8 bytes of \<open>str.encode\<close>.
\<close>

section \<open>Characters\<close>

definition code :: "char \<Rightarrow> int" where
  "code c = of_char c"

definition is_space :: "char \<Rightarrow> bool" where
  "is_space c = (let n = code c in
     9 \<le> n \<and> n \<le> 13 \<or> 28 \<le> n \<and> n \<le> 32 \<or> n = 133 \<or> n = 160)"

definition is_digit :: "char \<Rightarrow> bool" where
  "is_digit c = (48 \<le> code c \<and> code c \<le> 57)"

definition is_alnum :: "char \<Rightarrow> bool" where
  "is_alnum c = (is_digit c \<or> 65 \<le> code c \<and> code c \<le> 90 \<or> 97 \<le> code c \<and> code c \<le> 122)"

definition lower_char :: "char \<Rightarrow> char" where
  "lower_char c = (let n = code c in
     if 65 \<le> n \<and> n \<le> 90 \<or> 192 \<le> n \<and> n \<le> 222 \<and> n \<noteq> 215 then char_of (n + 32) else c)"

definition lower :: "string \<Rightarrow> string" where
  "lower s = map lower_char s"

section \<open>Prefixes, substrings, stripping\<close>

definition startswith :: "string \<Rightarrow> string \<Rightarrow> bool" where
  "startswith s p = (take (length p) s = p)"

definition removeprefix :: "string \<Rightarrow> string \<Rightarrow> string" where
  "removeprefix s p = (if startswith s p then drop (length p) s else s)"

definition rstrip_when :: "(char \<Rightarrow> bool) \<Rightarrow> string \<Rightarrow> string" where
  "rstrip_when P s = rev (dropWhile P (rev s))"

definition strip_when :: "(char \<Rightarrow> bool) \<Rightarrow> string \<Rightarrow> string" where
  "strip_when P s = rstrip_when P (dropWhile P s)"

definition strip :: "string \<Rightarrow> string" where
  "strip s = strip_when is_space s"

fun contains :: "string \<Rightarrow> string \<Rightarrow> bool" where
  "contains sub [] = (sub = [])"
| "contains sub (c # cs) = (startswith (c # cs) sub \<or> contains sub cs)"

text \<open>\<open>s.rsplit(sep, 1)[-1]\<close>: what follows the last occurrence of \<open>sep\<close>, or all of \<open>s\<close>.\<close>

fun after_last :: "string \<Rightarrow> string \<Rightarrow> string" where
  "after_last sep [] = []"
| "after_last sep (c # cs) =
     (if contains sep cs then after_last sep cs
      else if startswith (c # cs) sep then drop (length sep) (c # cs)
      else c # cs)"

text \<open>\<open>s.split(sep)\<close> for a one-character separator: never empty.\<close>

fun split_on :: "char \<Rightarrow> string \<Rightarrow> string list" where
  "split_on sep [] = [[]]"
| "split_on sep (c # cs) =
     (if c = sep then [] # split_on sep cs
      else case split_on sep cs of [] \<Rightarrow> [[c]] | w # ws \<Rightarrow> (c # w) # ws)"

text \<open>\<open>s.split()\<close>: the maximal runs of non-whitespace.\<close>

fun split_ws_acc :: "string \<Rightarrow> string \<Rightarrow> string list" where
  "split_ws_acc acc [] = (if acc = [] then [] else [rev acc])"
| "split_ws_acc acc (c # cs) =
     (if is_space c then (if acc = [] then split_ws_acc [] cs else rev acc # split_ws_acc [] cs)
      else split_ws_acc (c # acc) cs)"

definition split_ws :: "string \<Rightarrow> string list" where
  "split_ws s = split_ws_acc [] s"

fun join :: "string \<Rightarrow> string list \<Rightarrow> string" where
  "join sep [] = []"
| "join sep [w] = w"
| "join sep (w # v # ws) = w @ sep @ join sep (v # ws)"

lemma split_on_not_Nil [simp]: "split_on sep s \<noteq> []"
  by (induction s) (auto split: list.splits)

lemma join_Cons: "ws \<noteq> [] \<Longrightarrow> join sep (w # ws) = w @ sep @ join sep ws"
  by (cases ws) auto

lemma join_split_on: "join [sep] (split_on sep s) = s"
proof (induction s)
  case (Cons c cs)
  obtain w ws where *: "split_on sep cs = w # ws"
    by (metis list.exhaust split_on_not_Nil)
  with Cons show ?case by (cases ws) auto
qed simp

lemma split_on_no_sep: "w \<in> set (split_on sep s) \<Longrightarrow> sep \<notin> set w"
proof (induction s arbitrary: w)
  case (Cons c cs)
  obtain v vs where *: "split_on sep cs = v # vs"
    by (metis list.exhaust split_on_not_Nil)
  with Cons show ?case by (auto split: if_splits)
qed simp

lemma startswith_Nil [simp]: "startswith s []"
  by (simp add: startswith_def)

lemma startswith_append [simp]: "startswith (p @ s) p"
  by (simp add: startswith_def)

lemma startswith_iff: "startswith s p \<longleftrightarrow> (\<exists>t. s = p @ t)"
  by (metis append_take_drop_id startswith_append startswith_def)

lemma rstrip_when_last: "rstrip_when P s \<noteq> [] \<Longrightarrow> \<not> P (last (rstrip_when P s))"
  by (simp add: rstrip_when_def last_rev hd_dropWhile)

lemma set_rstrip_when: "set (rstrip_when P s) \<subseteq> set s"
  by (auto simp: rstrip_when_def dest: set_dropWhileD)

lemma set_strip: "set (strip s) \<subseteq> set s"
  unfolding strip_def strip_when_def using set_rstrip_when
  by (metis set_dropWhileD subset_code(1))

section \<open>Numbers as text\<close>

definition digit_char :: "int \<Rightarrow> char" where
  "digit_char d = char_of (48 + d)"

text \<open>The decimal digits of a non-negative integer.\<close>

function dec_pos :: "int \<Rightarrow> string" where
  "dec_pos n = (if n < 10 then [digit_char n] else dec_pos (n div 10) @ [digit_char (n mod 10)])"
  by pat_completeness auto
termination
  by (relation "measure nat") auto

declare dec_pos.simps [simp del]

definition dec_int :: "int \<Rightarrow> string" where
  "dec_int i = (if i < 0 then CHR ''-'' # dec_pos (- i) else dec_pos i)"

definition dec_nat :: "nat \<Rightarrow> string" where
  "dec_nat n = dec_pos (int n)"

text \<open>\<open>int(text)\<close> of a run of decimal digits.\<close>

definition int_of_dec :: "string \<Rightarrow> int" where
  "int_of_dec s = foldl (\<lambda>n c. 10 * n + (code c - 48)) 0 s"

lemma code_digit_char: "0 \<le> d \<Longrightarrow> d < 10 \<Longrightarrow> code (digit_char d) = 48 + d"
  by (simp add: code_def digit_char_def of_char_of)

lemma int_of_dec_dec_pos: "0 \<le> n \<Longrightarrow> int_of_dec (dec_pos n) = n"
proof (induction n rule: dec_pos.induct)
  case (1 n)
  show ?case
  proof (cases "n < 10")
    case True
    with 1 show ?thesis by (subst dec_pos.simps) (simp add: int_of_dec_def code_digit_char)
  next
    case False
    have "int_of_dec (dec_pos n) = 10 * int_of_dec (dec_pos (n div 10)) + n mod 10"
      by (subst dec_pos.simps) (simp add: int_of_dec_def code_digit_char False)
    with 1 False show ?thesis by simp
  qed
qed

lemma dec_pos_digits: "0 \<le> n \<Longrightarrow> c \<in> set (dec_pos n) \<Longrightarrow> is_digit c"
proof (induction n arbitrary: c rule: dec_pos.induct)
  case (1 n)
  show ?case
  proof (cases "n < 10")
    case True
    with 1 show ?thesis by (subst (asm) (2) dec_pos.simps) (simp add: is_digit_def code_digit_char)
  next
    case False
    with "1.prems" have "c \<in> set (dec_pos (n div 10)) \<or> c = digit_char (n mod 10)"
      by (subst (asm) dec_pos.simps) auto
    with "1.IH" "1.prems" False show ?thesis by (auto simp: is_digit_def code_digit_char)
  qed
qed

lemma dec_pos_not_Nil [simp]: "dec_pos n \<noteq> []"
  by (subst dec_pos.simps) simp

lemma dec_pos_no_minus: "0 \<le> n \<Longrightarrow> CHR ''-'' \<notin> set (dec_pos n)"
  using dec_pos_digits [of n "CHR ''-''"] by (auto simp: is_digit_def code_def)

lemma dec_int_inject [simp]: "dec_int i = dec_int j \<longleftrightarrow> i = j"
proof
  assume eq: "dec_int i = dec_int j"
  have neg: "CHR ''-'' \<in> set (dec_int k) \<longleftrightarrow> k < 0" for k
    by (simp add: dec_int_def dec_pos_no_minus)
  have "i < 0 \<longleftrightarrow> j < 0"
    using eq neg by metis
  with eq have "dec_pos \<bar>i\<bar> = dec_pos \<bar>j\<bar>" and same: "i < 0 \<longleftrightarrow> j < 0"
    by (auto simp: dec_int_def split: if_splits)
  then have "\<bar>i\<bar> = \<bar>j\<bar>"
    by (metis abs_ge_zero int_of_dec_dec_pos)
  with same show "i = j" by linarith
qed simp

lemma dec_nat_inject [simp]: "dec_nat m = dec_nat n \<longleftrightarrow> m = n"
  by (metis dec_nat_def int_of_dec_dec_pos of_nat_0_le_iff of_nat_eq_iff)

section \<open>UTF-8\<close>

definition utf8_char :: "char \<Rightarrow> int list" where
  "utf8_char c = (let n = code c in if n < 128 then [n] else [192 + n div 64, 128 + n mod 64])"

definition utf8 :: "string \<Rightarrow> int list" where
  "utf8 s = concat (map utf8_char s)"

text \<open>The character class \<open>[A-Za-z0-9_./-]\<close> of \<open>_PATH_CHARS\<close>, and \<open>fullmatch\<close> of a run of it.\<close>

definition path_char :: "char \<Rightarrow> bool" where
  "path_char c = (is_alnum c \<or> c = CHR ''_'' \<or> c = CHR ''.'' \<or> c = CHR ''/'' \<or> c = CHR ''-'')"

definition path_chars_fullmatch :: "string \<Rightarrow> bool" where
  "path_chars_fullmatch s = (s \<noteq> [] \<and> list_all path_char s)"

end
