(* ===== verification/Py_Value.thy ===== *)
theory Py_Value
  imports Complex_Main Py_Text "HOL-Library.Log_Nat"
begin

text \<open>
  The dynamically typed values a \<open>TraceEvent\<close> payload holds (what \<open>json.loads\<close> returns),
  IEEE double arithmetic as the code uses it, and \<open>json.dumps\<close> in the one configuration the
  sources call (\<open>sort_keys\<close>, compact separators, \<open>ensure_ascii=False\<close>, \<open>allow_nan=False\<close>).
\<close>

section \<open>Doubles\<close>

text \<open>
  A double is a rational, an infinity or NaN; the sign of zero is not kept. Every operation
  computes the exact rational and rounds it (\<open>fl_round\<close>): 53 bits, ties to even,
  subnormals down to \<open>2^-1074\<close>, overflow at \<open>2^1024\<close>.
\<close>

datatype float64 = Fin rat | PosInf | NegInf | NaN

definition round_half_even :: "rat \<Rightarrow> int" where
  "round_half_even x = (let f = \<lfloor>x\<rfloor>; r = x - of_int f in
     if r < 1/2 then f else if r > 1/2 then f + 1 else if even f then f else f + 1)"

definition flog2 :: "rat \<Rightarrow> int" where
  "flog2 a = (case quotient_of a of (n, d) \<Rightarrow>
     let e = bitlen n - bitlen d in if a < 2 powi e then e - 1 else e)"

definition fl_round :: "rat \<Rightarrow> float64" where
  "fl_round x =
     (if x = 0 then Fin 0
      else let k = max (flog2 \<bar>x\<bar> - 52) (- 1074);
               v = of_int (round_half_even (\<bar>x\<bar> / 2 powi k)) * 2 powi k
           in if v \<ge> 2 ^ 1024 then (if x > 0 then PosInf else NegInf) else Fin (sgn x * v))"

fun fl_add :: "float64 \<Rightarrow> float64 \<Rightarrow> float64" where
  "fl_add (Fin a) (Fin b) = fl_round (a + b)"
| "fl_add NaN _ = NaN"
| "fl_add _ NaN = NaN"
| "fl_add PosInf NegInf = NaN"
| "fl_add NegInf PosInf = NaN"
| "fl_add PosInf _ = PosInf"
| "fl_add _ PosInf = PosInf"
| "fl_add NegInf _ = NegInf"
| "fl_add _ NegInf = NegInf"

definition fl_sign :: "float64 \<Rightarrow> rat" where
  "fl_sign x = (case x of Fin a \<Rightarrow> sgn a | PosInf \<Rightarrow> 1 | NegInf \<Rightarrow> -1 | NaN \<Rightarrow> 0)"

definition fl_inf :: "rat \<Rightarrow> float64" where
  "fl_inf s = (if s > 0 then PosInf else if s < 0 then NegInf else NaN)"

fun fl_mul :: "float64 \<Rightarrow> float64 \<Rightarrow> float64" where
  "fl_mul (Fin a) (Fin b) = fl_round (a * b)"
| "fl_mul NaN _ = NaN"
| "fl_mul _ NaN = NaN"
| "fl_mul x y = fl_inf (fl_sign x * fl_sign y)"

text \<open>Division by a divisor the caller has checked to be non-zero.\<close>

fun fl_div :: "float64 \<Rightarrow> float64 \<Rightarrow> float64" where
  "fl_div (Fin a) (Fin b) = fl_round (a / b)"
| "fl_div NaN _ = NaN"
| "fl_div _ NaN = NaN"
| "fl_div (Fin a) _ = Fin 0"
| "fl_div x (Fin b) = fl_inf (fl_sign x * (if b < 0 then -1 else 1))"
| "fl_div _ _ = NaN"

text \<open>Comparisons: every comparison with NaN is false.\<close>

fun fl_le :: "float64 \<Rightarrow> float64 \<Rightarrow> bool" where
  "fl_le (Fin a) (Fin b) = (a \<le> b)"
| "fl_le NaN _ = False"
| "fl_le _ NaN = False"
| "fl_le NegInf _ = True"
| "fl_le _ PosInf = True"
| "fl_le _ _ = False"

definition is_finite :: "float64 \<Rightarrow> bool" where
  "is_finite x = (case x of Fin _ \<Rightarrow> True | _ \<Rightarrow> False)"

text \<open>\<open>float(i)\<close> and \<open>int(x)\<close>: conversion overflows raise \<open>OverflowError\<close>, NaN raises \<open>ValueError\<close>.\<close>

definition float_of_int :: "int \<Rightarrow> float64 result" where
  "float_of_int i = (case fl_round (of_int i) of Fin a \<Rightarrow> Inr (Fin a) | _ \<Rightarrow> Inl OverflowError)"

definition trunc_rat :: "rat \<Rightarrow> int" where
  "trunc_rat a = (if a < 0 then \<lceil>a\<rceil> else \<lfloor>a\<rfloor>)"

definition int_of_float :: "float64 \<Rightarrow> int result" where
  "int_of_float x = (case x of
     Fin a \<Rightarrow> Inr (trunc_rat a)
   | NaN \<Rightarrow> Inl (ValueError ''cannot convert float NaN to integer'')
   | _ \<Rightarrow> Inl OverflowError)"

definition round_of_float :: "float64 \<Rightarrow> int result" where
  "round_of_float x = (case x of
     Fin a \<Rightarrow> Inr (round_half_even a)
   | NaN \<Rightarrow> Inl (ValueError ''cannot convert float NaN to integer'')
   | _ \<Rightarrow> Inl OverflowError)"

subsection \<open>Shortest decimal representation\<close>

text \<open>
  \<open>float.__repr__\<close>: the shortest decimal digits that read back as the same double, and among
  those of that length the closest one.
\<close>

definition flog10 :: "rat \<Rightarrow> int" where
  "flog10 x = (if x \<ge> 1 then int (length (dec_pos \<lfloor>x\<rfloor>)) - 1
     else (case find (\<lambda>k. x * 10 powi k \<ge> 1) [1..329] of None \<Rightarrow> -330 | Some k \<Rightarrow> - k))"

definition repr_candidate :: "rat \<Rightarrow> int \<Rightarrow> int \<Rightarrow> int option" where
  "repr_candidate x e p =
     (let s = 10 powi (p - 1 - e); y = x * s; lo = \<lfloor>y\<rfloor>;
          good = (\<lambda>m. fl_round (of_int m / s) = Fin x)
      in if good lo \<and> (\<not> good (lo + 1) \<or> y - of_int lo \<le> of_int (lo + 1) - y) then Some lo
         else if good (lo + 1) then Some (lo + 1) else None)"

fun repr_digits :: "rat \<Rightarrow> int \<Rightarrow> int list \<Rightarrow> int \<times> int" where
  "repr_digits x e [] = (17, \<lfloor>x * 10 powi (16 - e)\<rfloor>)"
| "repr_digits x e (p # ps) =
     (case repr_candidate x e p of Some m \<Rightarrow> (p, m) | None \<Rightarrow> repr_digits x e ps)"

definition repr_pos :: "rat \<Rightarrow> string" where
  "repr_pos x =
     (let e = flog10 x; (p, m) = repr_digits x e [1..17];
          ds = rstrip_when (\<lambda>c. c = CHR ''0'') (dec_pos m);
          n = int (length ds);
          decpt = e + 1 + (if m = 10 powi p then 1 else 0);
          zeros = (\<lambda>k. replicate (nat k) (CHR ''0''))
      in if - 4 \<le> decpt - 1 \<and> decpt - 1 < 16 then
           (if decpt \<le> 0 then ''0.'' @ zeros (- decpt) @ ds
            else if n \<le> decpt then ds @ zeros (decpt - n) @ ''.0''
            else take (nat decpt) ds @ ''.'' @ drop (nat decpt) ds)
         else let x10 = decpt - 1; a = dec_pos \<bar>x10\<bar> in
           take 1 ds @ (if n = 1 then [] else ''.'' @ drop 1 ds) @ ''e''
             @ (if x10 < 0 then ''-'' else ''+'') @ (if length a < 2 then ''0'' else []) @ a)"

definition float_repr :: "rat \<Rightarrow> string" where
  "float_repr x = (if x = 0 then ''0.0'' else if x < 0 then CHR ''-'' # repr_pos (- x) else repr_pos x)"

section \<open>Values\<close>

datatype pyval =
    PNone
  | PBool bool
  | PInt int
  | PFloat float64
  | PStr string
  | PList "pyval list"
  | PDict "(string \<times> pyval) list"

type_synonym payload = "(string, pyval) dict"

text \<open>\<open>payload.get(key)\<close>: a missing key reads as \<open>None\<close>.\<close>

definition get :: "payload \<Rightarrow> string \<Rightarrow> pyval" where
  "get p k = (case dget p k of None \<Rightarrow> PNone | Some v \<Rightarrow> v)"

definition truthy :: "pyval \<Rightarrow> bool" where
  "truthy v = (case v of
     PNone \<Rightarrow> False | PBool b \<Rightarrow> b | PInt i \<Rightarrow> i \<noteq> 0 | PFloat x \<Rightarrow> x \<noteq> Fin 0
   | PStr s \<Rightarrow> s \<noteq> [] | PList xs \<Rightarrow> xs \<noteq> [] | PDict d \<Rightarrow> d \<noteq> [])"

text \<open>\<open>a or b\<close>.\<close>

definition py_or :: "pyval \<Rightarrow> pyval \<Rightarrow> pyval" where
  "py_or a b = (if truthy a then a else b)"

text \<open>\<open>isinstance\<close> views: \<open>isinstance(v, int) and not isinstance(v, bool)\<close> and its kin.\<close>

definition as_str :: "pyval \<Rightarrow> string option" where
  "as_str v = (case v of PStr s \<Rightarrow> Some s | _ \<Rightarrow> None)"

definition as_int :: "pyval \<Rightarrow> int option" where
  "as_int v = (case v of PInt i \<Rightarrow> Some i | _ \<Rightarrow> None)"

definition as_list :: "pyval \<Rightarrow> pyval list option" where
  "as_list v = (case v of PList xs \<Rightarrow> Some xs | _ \<Rightarrow> None)"

definition as_dict :: "pyval \<Rightarrow> payload option" where
  "as_dict v = (case v of PDict d \<Rightarrow> Some d | _ \<Rightarrow> None)"

lemma as_view_simps [simp]:
  "as_str v = Some s \<longleftrightarrow> v = PStr s" "as_int v = Some i \<longleftrightarrow> v = PInt i"
  "as_list v = Some xs \<longleftrightarrow> v = PList xs" "as_dict v = Some d \<longleftrightarrow> v = PDict d"
  by (auto simp: as_str_def as_int_def as_list_def as_dict_def split: pyval.splits)

lemma as_view_eval [simp]:
  "as_str (PStr s) = Some s" "as_int (PInt i) = Some i"
  "as_list (PList xs) = Some xs" "as_dict (PDict d) = Some d"
  by simp_all

text \<open>\<open>[item for item in value if isinstance(item, str)]\<close>.\<close>

definition strings_of :: "pyval list \<Rightarrow> string list" where
  "strings_of xs = List.map_filter as_str xs"

lemma strings_of_simps [simp]:
  "strings_of [] = []"
  "strings_of (v # vs) = (case as_str v of None \<Rightarrow> strings_of vs | Some s \<Rightarrow> s # strings_of vs)"
  by (auto simp: strings_of_def List.map_filter_simps split: option.splits)

text \<open>\<open>v == i\<close> for an integer \<open>i\<close>: Python compares numbers of every type by value.\<close>

definition num_eq :: "pyval \<Rightarrow> int \<Rightarrow> bool" where
  "num_eq v i = (case v of
     PBool b \<Rightarrow> (if b then 1 else 0) = i | PInt j \<Rightarrow> j = i | PFloat x \<Rightarrow> x = Fin (of_int i)
   | _ \<Rightarrow> False)"

section \<open>json.dumps\<close>

definition hex_digit :: "int \<Rightarrow> char" where
  "hex_digit d = (if d < 10 then char_of (48 + d) else char_of (87 + d))"

definition json_escape :: "char \<Rightarrow> string" where
  "json_escape c =
     (let n = code c; bs = char_of (92::int) in
      if n = 34 then [bs, c] else if n = 92 then [bs, c]
      else if n = 8 then [bs, CHR ''b''] else if n = 12 then [bs, CHR ''f'']
      else if n = 10 then [bs, CHR ''n''] else if n = 13 then [bs, CHR ''r'']
      else if n = 9 then [bs, CHR ''t'']
      else if n < 32 then bs # ''u00'' @ [hex_digit (n div 16), hex_digit (n mod 16)]
      else [c])"

definition json_string :: "string \<Rightarrow> string" where
  "json_string s = (let q = char_of (34::int) in q # concat (map json_escape s) @ [q])"

text \<open>Recursion into lists and dictionaries ends.\<close>

lemma size_item: "x \<in> set xs \<Longrightarrow> size x < Suc (size_list size xs)" for x :: pyval
  using size_list_estimation' [of x xs "size x" size] by simp

lemma size_entry: "kv \<in> set d \<Longrightarrow> size (snd kv) < Suc (size_list (size_prod (\<lambda>_. 0) size) d)"
    for kv :: "string \<times> pyval"
  using size_list_estimation [of kv d "size (snd kv)" "size_prod (\<lambda>_. 0) size"] by (cases kv) simp

text \<open>\<open>None\<close> stands for the \<open>ValueError\<close> of \<open>allow_nan=False\<close>.\<close>

function json_dumps :: "pyval \<Rightarrow> string option" where
  "json_dumps PNone = Some ''null''"
| "json_dumps (PBool b) = Some (if b then ''true'' else ''false'')"
| "json_dumps (PInt i) = Some (dec_int i)"
| "json_dumps (PFloat x) = (case x of Fin a \<Rightarrow> Some (float_repr a) | _ \<Rightarrow> None)"
| "json_dumps (PStr s) = Some (json_string s)"
| "json_dumps (PList xs) =
     map_option (\<lambda>ws. ''['' @ join '','' ws @ '']'') (those (map json_dumps xs))"
| "json_dumps (PDict d) =
     map_option (\<lambda>ws. ''{'' @ join '','' ws @ ''}'')
       (those (map snd (sort_key fst
          (map (\<lambda>kv. (fst kv, map_option (\<lambda>w. json_string (fst kv) @ '':'' @ w)
             (json_dumps (snd kv)))) d))))"
  by pat_completeness auto
termination
  by (relation "measure size") (simp_all add: size_item size_entry)

section \<open>repr\<close>

text \<open>\<open>repr\<close> and \<open>str\<close> of a value, as messages show it.\<close>

definition repr_char :: "char \<Rightarrow> char \<Rightarrow> string" where
  "repr_char q c =
     (let n = code c; bs = char_of (92::int) in
      if c = q \<or> n = 92 then [bs, c]
      else if n = 9 then [bs, CHR ''t''] else if n = 10 then [bs, CHR ''n'']
      else if n = 13 then [bs, CHR ''r'']
      else if n < 32 \<or> (127 \<le> n \<and> n \<le> 160) \<or> n = 173
      then bs # CHR ''x'' # [hex_digit (n div 16), hex_digit (n mod 16)]
      else [c])"

definition repr_str :: "string \<Rightarrow> string" where
  "repr_str s =
     (let sq = char_of (39::int); dq = char_of (34::int);
          q = (if sq \<in> set s \<and> dq \<notin> set s then dq else sq)
      in q # concat (map (repr_char q) s) @ [q])"

function py_repr :: "pyval \<Rightarrow> string" where
  "py_repr PNone = ''None''"
| "py_repr (PBool b) = (if b then ''True'' else ''False'')"
| "py_repr (PInt i) = dec_int i"
| "py_repr (PFloat x) = (case x of Fin a \<Rightarrow> float_repr a | PosInf \<Rightarrow> ''inf'' | NegInf \<Rightarrow> ''-inf'' | NaN \<Rightarrow> ''nan'')"
| "py_repr (PStr s) = repr_str s"
| "py_repr (PList xs) = ''['' @ join '', '' (map py_repr xs) @ '']''"
| "py_repr (PDict d) = ''{'' @ join '', '' (map (\<lambda>kv. repr_str (fst kv) @ '': '' @ py_repr (snd kv)) d) @ ''}''"
  by pat_completeness auto
termination
  by (relation "measure size") (simp_all add: size_item size_entry)

definition py_str :: "pyval \<Rightarrow> string" where
  "py_str v = (case v of PStr s \<Rightarrow> s | _ \<Rightarrow> py_repr v)"

end
