(* ===== verification/Py_Hash.thy ===== *)
theory Py_Hash
  imports Py_Value "HOL-Library.Word"
begin

text \<open>
  The two digests of the standard library the sources call: \<open>hashlib.sha256(...).hexdigest()\<close>
  (signal, job and observation identifiers) and \<open>uuid.uuid5(...).hex\<close>, which is SHA-1
  truncated to 128 bits with the version and variant bits set (runtime identifiers).
  Both are executable on 32-bit words.
\<close>

unbundle bit_operations_syntax

type_synonym w32 = "32 word"

section \<open>Message blocks\<close>

definition be_bytes :: "nat \<Rightarrow> int \<Rightarrow> int list" where
  "be_bytes k n = map (\<lambda>i. (n div 256 ^ i) mod 256) (rev [0..<k])"

definition pad :: "int list \<Rightarrow> int list" where
  "pad m = m @ [128] @ replicate (nat ((55 - int (length m)) mod 64)) 0
     @ be_bytes 8 (8 * int (length m))"

fun words_of :: "int list \<Rightarrow> w32 list" where
  "words_of (a # b # c # d # r) =
     word_of_int (((a * 256 + b) * 256 + c) * 256 + d) # words_of r"
| "words_of _ = []"

function chunks16 :: "w32 list \<Rightarrow> w32 list list" where
  "chunks16 ws = (if ws = [] then [] else take 16 ws # chunks16 (drop 16 ws))"
  by pat_completeness auto
termination
  by (relation "measure length") (auto simp: neq_Nil_conv)

declare chunks16.simps [simp del]

definition hex_of_words :: "w32 list \<Rightarrow> string" where
  "hex_of_words ws = concat (map (\<lambda>w.
     map (\<lambda>i. hex_digit ((uint w div 16 ^ i) mod 16)) [7, 6, 5, 4, 3, 2, 1, 0]) ws)"

section \<open>SHA-256\<close>

text \<open>The round constants, in decimal.\<close>

definition sha256_k :: "w32 list" where
  "sha256_k = [
   1116352408, 1899447441, 3049323471, 3921009573, 961987163, 1508970993,
   2453635748, 2870763221, 3624381080, 310598401, 607225278, 1426881987,
   1925078388, 2162078206, 2614888103, 3248222580, 3835390401, 4022224774,
   264347078, 604807628, 770255983, 1249150122, 1555081692, 1996064986,
   2554220882, 2821834349, 2952996808, 3210313671, 3336571891, 3584528711,
   113926993, 338241895, 666307205, 773529912, 1294757372, 1396182291,
   1695183700, 1986661051, 2177026350, 2456956037, 2730485921, 2820302411,
   3259730800, 3345764771, 3516065817, 3600352804, 4094571909, 275423344,
   430227734, 506948616, 659060556, 883997877, 958139571, 1322822218,
   1537002063, 1747873779, 1955562222, 2024104815, 2227730452, 2361852424,
   2428436474, 2756734187, 3204031479, 3329325298]"

text \<open>The schedule is extended newest first: \<open>w\<close> holds \<open>W[t-1], W[t-2], ...\<close>\<close>

definition sha256_next_w :: "w32 list \<Rightarrow> w32" where
  "sha256_next_w w =
     (let a = w ! 14; b = w ! 1;
          s0 = word_rotr 7 a XOR word_rotr 18 a XOR drop_bit 3 a;
          s1 = word_rotr 17 b XOR word_rotr 19 b XOR drop_bit 10 b
      in w ! 15 + s0 + w ! 6 + s1)"

fun sha256_extend :: "nat \<Rightarrow> w32 list \<Rightarrow> w32 list" where
  "sha256_extend 0 w = w"
| "sha256_extend (Suc n) w = sha256_extend n (sha256_next_w w # w)"

type_synonym sha256_state = "w32 \<times> w32 \<times> w32 \<times> w32 \<times> w32 \<times> w32 \<times> w32 \<times> w32"

fun sha256_round :: "sha256_state \<Rightarrow> w32 \<times> w32 \<Rightarrow> sha256_state" where
  "sha256_round (a, b, c, d, e, f, g, h) (k, w) =
     (let t1 = h + (word_rotr 6 e XOR word_rotr 11 e XOR word_rotr 25 e)
                 + ((e AND f) XOR (NOT e AND g)) + k + w;
          t2 = (word_rotr 2 a XOR word_rotr 13 a XOR word_rotr 22 a)
                 + ((a AND b) XOR (a AND c) XOR (b AND c))
      in (t1 + t2, a, b, c, d + t1, e, f, g))"

fun sha256_block :: "sha256_state \<Rightarrow> w32 list \<Rightarrow> sha256_state" where
  "sha256_block (a, b, c, d, e, f, g, h) chunk =
     (case foldl sha256_round (a, b, c, d, e, f, g, h)
             (zip sha256_k (rev (sha256_extend 48 (rev chunk)))) of
        (a', b', c', d', e', f', g', h') \<Rightarrow>
          (a + a', b + b', c + c', d + d', e + e', f + f', g + g', h + h'))"

definition sha256 :: "int list \<Rightarrow> w32 list" where
  "sha256 m =
     (case foldl sha256_block
        (0x6a09e667, 0xbb67ae85, 0x3c6ef372, 0xa54ff53a, 0x510e527f, 0x9b05688c, 0x1f83d9ab, 0x5be0cd19)
        (chunks16 (words_of (pad m))) of
      (a, b, c, d, e, f, g, h) \<Rightarrow> [a, b, c, d, e, f, g, h])"

definition sha256_hex :: "string \<Rightarrow> string" where
  "sha256_hex s = hex_of_words (sha256 (utf8 s))"

section \<open>SHA-1 and version 5 UUIDs\<close>

fun sha1_extend :: "nat \<Rightarrow> w32 list \<Rightarrow> w32 list" where
  "sha1_extend 0 w = w"
| "sha1_extend (Suc n) w =
     sha1_extend n (word_rotl 1 (w ! 2 XOR w ! 7 XOR w ! 13 XOR w ! 15) # w)"

type_synonym sha1_state = "w32 \<times> w32 \<times> w32 \<times> w32 \<times> w32"

fun sha1_round :: "sha1_state \<Rightarrow> nat \<times> w32 \<Rightarrow> sha1_state" where
  "sha1_round (a, b, c, d, e) (t, w) =
     (let (f, k) = (if t < 20 then ((b AND c) OR (NOT b AND d), 0x5a827999)
                    else if t < 40 then (b XOR c XOR d, 0x6ed9eba1)
                    else if t < 60 then ((b AND c) OR (b AND d) OR (c AND d), 0x8f1bbcdc)
                    else (b XOR c XOR d, 0xca62c1d6))
      in (word_rotl 5 a + f + e + k + w, a, word_rotl 30 b, c, d))"

fun sha1_block :: "sha1_state \<Rightarrow> w32 list \<Rightarrow> sha1_state" where
  "sha1_block (a, b, c, d, e) chunk =
     (case foldl sha1_round (a, b, c, d, e) (zip [0..<80] (rev (sha1_extend 64 (rev chunk)))) of
        (a', b', c', d', e') \<Rightarrow> (a + a', b + b', c + c', d + d', e + e'))"

definition sha1 :: "int list \<Rightarrow> w32 list" where
  "sha1 m =
     (case foldl sha1_block (0x67452301, 0xefcdab89, 0x98badcfe, 0x10325476, 0xc3d2e1f0)
        (chunks16 (words_of (pad m))) of
      (a, b, c, d, e) \<Rightarrow> [a, b, c, d, e])"

text \<open>
  \<open>uuid5(namespace, name).hex\<close>: the first 128 bits of the digest, with the version nibble 5
  in the high half of byte 6 and the variant bits 10 at the top of byte 8.
\<close>

definition uuid5_hex :: "int list \<Rightarrow> string \<Rightarrow> string" where
  "uuid5_hex namespace name =
     (let ws = sha1 (namespace @ utf8 name) in
      hex_of_words [ws ! 0, (ws ! 1 AND 0xffff0fff) OR 0x5000,
                    (ws ! 2 AND 0x3fffffff) OR 0x80000000, ws ! 3])"

lemma length_hex_of_words: "length (hex_of_words ws) = 8 * length ws"
  by (induction ws) (simp_all add: hex_of_words_def)

lemma length_sha256: "length (sha256 m) = 8"
  by (simp add: sha256_def split: prod.split)

lemma length_sha256_hex: "length (sha256_hex s) = 64"
  by (simp add: sha256_hex_def length_hex_of_words length_sha256)

lemma length_uuid5_hex: "length (uuid5_hex ns name) = 32"
  by (simp add: uuid5_hex_def length_hex_of_words Let_def)

end
