(* ===== verification/Runtime_Identity.thy ===== *)
theory Runtime_Identity
  imports Py_Hash
begin

text \<open>
  Model of \<open>src/spotter/identity.py\<close>: thread, turn and attachment identities and the registry
  that reconciles duplicate and out-of-order lifecycle events. The identifiers are the
  version 5 UUIDs of \<open>Py_Hash\<close>; the random \<open>uuid4().hex\<close> of an anonymous attachment is an
  argument. Every operation either returns the new registry and its result or raises
  before it writes, so an error leaves the registry as it was.
\<close>

section \<open>Identifiers and records\<close>

datatype thread_id = ThreadId (thread_value: string)
datatype turn_id = TurnId (turn_value: string)
datatype attachment_id = AttachmentId (attachment_value: string)

text \<open>The dataclasses are declared with \<open>order=True\<close>: compared by their value.\<close>

instantiation thread_id :: linorder
begin
definition less_eq_thread_id :: "thread_id \<Rightarrow> thread_id \<Rightarrow> bool" where
  "less_eq_thread_id a b = (thread_value a \<le> thread_value b)"
definition less_thread_id :: "thread_id \<Rightarrow> thread_id \<Rightarrow> bool" where
  "less_thread_id a b = (thread_value a < thread_value b)"
instance
  by standard (auto simp: less_eq_thread_id_def less_thread_id_def thread_id.expand)
end

instantiation turn_id :: linorder
begin
definition less_eq_turn_id :: "turn_id \<Rightarrow> turn_id \<Rightarrow> bool" where
  "less_eq_turn_id a b = (turn_value a \<le> turn_value b)"
definition less_turn_id :: "turn_id \<Rightarrow> turn_id \<Rightarrow> bool" where
  "less_turn_id a b = (turn_value a < turn_value b)"
instance
  by standard (auto simp: less_eq_turn_id_def less_turn_id_def turn_id.expand)
end

instantiation attachment_id :: linorder
begin
definition less_eq_attachment_id :: "attachment_id \<Rightarrow> attachment_id \<Rightarrow> bool" where
  "less_eq_attachment_id a b = (attachment_value a \<le> attachment_value b)"
definition less_attachment_id :: "attachment_id \<Rightarrow> attachment_id \<Rightarrow> bool" where
  "less_attachment_id a b = (attachment_value a < attachment_value b)"
instance
  by standard (auto simp: less_eq_attachment_id_def less_attachment_id_def attachment_id.expand)
end

datatype thread_status = ThreadActive | ThreadDormant
datatype turn_status = TurnActive | TurnCompleted | TurnInterrupted
datatype attachment_status = AttachmentActive | AttachmentClosed

fun turn_status_str :: "turn_status \<Rightarrow> string" where
  "turn_status_str TurnActive = ''active''"
| "turn_status_str TurnCompleted = ''completed''"
| "turn_status_str TurnInterrupted = ''interrupted''"

record identity_provenance =
  prov_agent :: string
  prov_thread :: "string option"
  prov_turn :: "string option"
  prov_attachment :: "string option"
  prov_legacy_session :: "string option"

record runtime_identity =
  ri_thread :: "thread_id option"
  ri_turn :: "turn_id option"
  ri_attachment :: "attachment_id option"
  ri_provenance :: identity_provenance

definition legacy_hook :: "string \<Rightarrow> string option \<Rightarrow> runtime_identity" where
  "legacy_hook agent session =
     \<lparr>ri_thread = None, ri_turn = None, ri_attachment = None,
      ri_provenance = \<lparr>prov_agent = agent, prov_thread = None, prov_turn = None,
        prov_attachment = None, prov_legacy_session = session\<rparr>\<rparr>"

record agent_thread =
  at_id :: thread_id
  at_status :: thread_status
  at_provenance :: identity_provenance

record turn =
  tn_id :: turn_id
  tn_thread :: thread_id
  tn_attachment :: "attachment_id option"
  tn_status :: turn_status
  tn_observed_start :: bool
  tn_provenance :: identity_provenance

record attachment =
  att_id :: attachment_id
  att_thread :: thread_id
  att_status :: attachment_status
  att_provenance :: identity_provenance

record registry =
  r_threads :: "(thread_id, identity_provenance) dict"
  r_threads_by_agent :: "(string \<times> string, thread_id) dict"
  r_turns :: "(turn_id, turn) dict"
  r_turns_by_agent :: "(thread_id \<times> string, turn_id) dict"
  r_attachments :: "(attachment_id, attachment) dict"
  r_attachments_by_agent :: "(thread_id \<times> string, attachment_id) dict"

definition empty_registry :: registry where
  "empty_registry = \<lparr>r_threads = [], r_threads_by_agent = [], r_turns = [],
     r_turns_by_agent = [], r_attachments = [], r_attachments_by_agent = []\<rparr>"

section \<open>Operations\<close>

definition nul :: char where
  "nul = CHR 0x00"

definition identity_namespace :: "int list" where
  "identity_namespace = [64, 147, 48, 196, 237, 195, 79, 49, 135, 147, 83, 9, 20, 201, 204, 55]"

definition stable_id :: "string \<Rightarrow> string list \<Rightarrow> string" where
  "stable_id kind parts = uuid5_hex identity_namespace (join [nul] (kind # parts))"

definition required :: "string \<Rightarrow> string \<Rightarrow> string result" where
  "required value name =
     (if strip value = [] \<or> nul \<in> set value
      then Inl (MissingRuntimeIdentity (''missing or invalid '' @ name)) else Inr value)"

definition thread_of :: "registry \<Rightarrow> thread_id \<Rightarrow> agent_thread result" where
  "thread_of r tid =
     (case dget (r_threads r) tid of
        None \<Rightarrow> Inl (UnknownRuntimeIdentity (''unknown thread: '' @ thread_value tid))
      | Some p \<Rightarrow>
          let is_active =
            list_ex (\<lambda>a. att_thread a = tid \<and> att_status a = AttachmentActive)
              (dvalues (r_attachments r))
            \<or> list_ex (\<lambda>t. tn_thread t = tid \<and> tn_status t = TurnActive) (dvalues (r_turns r))
          in Inr \<lparr>at_id = tid, at_status = (if is_active then ThreadActive else ThreadDormant),
                  at_provenance = p\<rparr>)"

definition observe_thread :: "registry \<Rightarrow> string \<Rightarrow> string \<Rightarrow> (registry \<times> agent_thread) result" where
  "observe_thread r agent0 agent_thread_id0 =
     rbind (required agent0 ''agent'') (\<lambda>agent.
     rbind (required agent_thread_id0 ''agent thread id'') (\<lambda>agent_thread_id.
     let key = (agent, agent_thread_id);
         (r', tid) = (case dget (r_threads_by_agent r) key of
           Some tid \<Rightarrow> (r, tid)
         | None \<Rightarrow>
             let tid = ThreadId (stable_id ''thread'' [agent, agent_thread_id]);
                 p = \<lparr>prov_agent = agent, prov_thread = Some agent_thread_id, prov_turn = None,
                      prov_attachment = None, prov_legacy_session = None\<rparr>
             in (r\<lparr>r_threads := dset tid p (r_threads r),
                   r_threads_by_agent := dset key tid (r_threads_by_agent r)\<rparr>, tid))
     in rbind (thread_of r' tid) (\<lambda>t. Inr (r', t))))"

definition resolve_thread :: "registry \<Rightarrow> string \<Rightarrow> string \<Rightarrow> agent_thread result" where
  "resolve_thread r agent0 agent_thread_id0 =
     rbind (required agent0 ''agent'') (\<lambda>agent.
     rbind (required agent_thread_id0 ''agent thread id'') (\<lambda>agent_thread_id.
     case dget (r_threads_by_agent r) (agent, agent_thread_id) of
       None \<Rightarrow> Inl (UnknownRuntimeIdentity
         (''unknown agent thread: '' @ agent @ '':'' @ agent_thread_id))
     | Some tid \<Rightarrow> thread_of r tid))"

text \<open>The registration of a new attachment, the tail both branches of \<open>attach\<close> share.\<close>

definition new_attachment ::
    "registry \<Rightarrow> agent_thread \<Rightarrow> thread_id \<Rightarrow> attachment_id \<Rightarrow> string option \<Rightarrow>
     registry \<times> attachment" where
  "new_attachment r thread tid aid agent_attachment_id =
     (let a = \<lparr>att_id = aid, att_thread = tid, att_status = AttachmentActive,
        att_provenance = \<lparr>prov_agent = prov_agent (at_provenance thread),
          prov_thread = prov_thread (at_provenance thread), prov_turn = None,
          prov_attachment = agent_attachment_id, prov_legacy_session = None\<rparr>\<rparr>
      in (r\<lparr>r_attachments := dset aid a (r_attachments r)\<rparr>, a))"

text \<open>\<open>fresh\<close> is the value \<open>uuid4().hex\<close> returns, used when the agent gave no identifier.\<close>

definition attach ::
    "registry \<Rightarrow> thread_id \<Rightarrow> string option \<Rightarrow> string \<Rightarrow> (registry \<times> attachment) result" where
  "attach r tid agent_attachment_id fresh =
     rbind (thread_of r tid) (\<lambda>thread.
     case agent_attachment_id of
       None \<Rightarrow> Inr (new_attachment r thread tid (AttachmentId fresh) None)
     | Some aaid0 \<Rightarrow>
         rbind (required aaid0 ''agent attachment id'') (\<lambda>aaid.
         let key = (tid, aaid) in
         case dget (r_attachments_by_agent r) key of
           Some aid \<Rightarrow>
             (case dget (r_attachments r) aid of
                None \<Rightarrow> Inl KeyError
              | Some a \<Rightarrow>
                  if att_status a = AttachmentClosed then
                    let a' = a\<lparr>att_status := AttachmentActive\<rparr>
                    in Inr (r\<lparr>r_attachments := dset aid a' (r_attachments r)\<rparr>, a')
                  else Inr (r, a))
         | None \<Rightarrow>
             let aid = AttachmentId (stable_id ''attachment'' [thread_value tid, aaid])
             in Inr (new_attachment
                  (r\<lparr>r_attachments_by_agent := dset key aid (r_attachments_by_agent r)\<rparr>)
                  thread tid aid (Some aaid))))"

definition detach :: "registry \<Rightarrow> attachment_id \<Rightarrow> (registry \<times> attachment) result" where
  "detach r aid =
     (case dget (r_attachments r) aid of
        None \<Rightarrow> Inl (UnknownRuntimeIdentity (''unknown attachment: '' @ attachment_value aid))
      | Some a \<Rightarrow>
          if att_status a = AttachmentClosed then Inr (r, a)
          else let a' = a\<lparr>att_status := AttachmentClosed\<rparr>
               in Inr (r\<lparr>r_attachments := dset aid a' (r_attachments r)\<rparr>, a'))"

definition check_attachment :: "registry \<Rightarrow> thread_id \<Rightarrow> attachment_id option \<Rightarrow> unit result" where
  "check_attachment r tid aid_opt =
     (case aid_opt of
        None \<Rightarrow> Inr ()
      | Some aid \<Rightarrow>
          (case dget (r_attachments r) aid of
             None \<Rightarrow> Inl (UnknownRuntimeIdentity (''unknown attachment: '' @ attachment_value aid))
           | Some a \<Rightarrow>
               if att_thread a \<noteq> tid
               then Inl (ConflictingRuntimeIdentity ''attachment belongs to another thread'')
               else Inr ()))"

definition start_turn ::
    "registry \<Rightarrow> thread_id \<Rightarrow> string \<Rightarrow> attachment_id option \<Rightarrow> bool \<Rightarrow>
     (registry \<times> turn) result" where
  "start_turn r tid agent_turn_id0 aid_opt observed_start =
     rbind (thread_of r tid) (\<lambda>thread.
     rbind (required agent_turn_id0 ''agent turn id'') (\<lambda>agent_turn_id.
     rbind (check_attachment r tid aid_opt) (\<lambda>_.
     let key = (tid, agent_turn_id) in
     case dget (r_turns_by_agent r) key of
       Some uid \<Rightarrow>
         (case dget (r_turns r) uid of
            None \<Rightarrow> Inl KeyError
          | Some t \<Rightarrow>
              if aid_opt \<noteq> None \<and> tn_attachment t \<noteq> None \<and> tn_attachment t \<noteq> aid_opt
              then Inl (ConflictingRuntimeIdentity ''turn belongs to another attachment'')
              else let t' = t\<lparr>tn_attachment :=
                                (case tn_attachment t of Some a \<Rightarrow> Some a | None \<Rightarrow> aid_opt),
                              tn_observed_start := (tn_observed_start t \<or> observed_start)\<rparr>
                   in Inr (r\<lparr>r_turns := dset uid t' (r_turns r)\<rparr>, t'))
     | None \<Rightarrow>
         let uid = TurnId (stable_id ''turn'' [thread_value tid, agent_turn_id]);
             t = \<lparr>tn_id = uid, tn_thread = tid, tn_attachment = aid_opt, tn_status = TurnActive,
                  tn_observed_start = observed_start,
                  tn_provenance = \<lparr>prov_agent = prov_agent (at_provenance thread),
                    prov_thread = prov_thread (at_provenance thread),
                    prov_turn = Some agent_turn_id,
                    prov_attachment = Option.bind aid_opt (\<lambda>aid.
                      Option.bind (dget (r_attachments r) aid) (\<lambda>a. prov_attachment (att_provenance a))),
                    prov_legacy_session = None\<rparr>\<rparr>
         in Inr (r\<lparr>r_turns := dset uid t (r_turns r),
                   r_turns_by_agent := dset key uid (r_turns_by_agent r)\<rparr>, t))))"

definition finish_turn ::
    "registry \<Rightarrow> thread_id \<Rightarrow> string \<Rightarrow> turn_status \<Rightarrow> (registry \<times> turn) result" where
  "finish_turn r tid agent_turn_id0 status =
     (if status = TurnActive
      then Inl (ValueError ''finish status must be completed or interrupted'')
      else
        rbind (thread_of r tid) (\<lambda>thread.
        rbind (required agent_turn_id0 ''agent turn id'') (\<lambda>agent_turn_id.
        let key = (tid, agent_turn_id) in
        case dget (r_turns_by_agent r) key of
          None \<Rightarrow>
            let uid = TurnId (stable_id ''turn'' [thread_value tid, agent_turn_id]);
                t = \<lparr>tn_id = uid, tn_thread = tid, tn_attachment = None, tn_status = status,
                     tn_observed_start = False,
                     tn_provenance = \<lparr>prov_agent = prov_agent (at_provenance thread),
                       prov_thread = prov_thread (at_provenance thread),
                       prov_turn = Some agent_turn_id, prov_attachment = None,
                       prov_legacy_session = None\<rparr>\<rparr>
            in Inr (r\<lparr>r_turns := dset uid t (r_turns r),
                      r_turns_by_agent := dset key uid (r_turns_by_agent r)\<rparr>, t)
        | Some uid \<Rightarrow>
            (case dget (r_turns r) uid of
               None \<Rightarrow> Inl KeyError
             | Some t \<Rightarrow>
                 if tn_status t \<noteq> TurnActive \<and> tn_status t \<noteq> status
                 then Inl (ConflictingRuntimeIdentity
                   (''turn already ended as '' @ turn_status_str (tn_status t)
                    @ ''; cannot change to '' @ turn_status_str status))
                 else let t' = t\<lparr>tn_status := status\<rparr>
                      in Inr (r\<lparr>r_turns := dset uid t' (r_turns r)\<rparr>, t')))))"

definition turn_of :: "registry \<Rightarrow> turn_id \<Rightarrow> turn result" where
  "turn_of r uid =
     (case dget (r_turns r) uid of
        None \<Rightarrow> Inl (UnknownRuntimeIdentity (''unknown turn: '' @ turn_value uid))
      | Some t \<Rightarrow> Inr t)"

definition active_turns :: "registry \<Rightarrow> thread_id \<Rightarrow> turn list result" where
  "active_turns r tid =
     rbind (thread_of r tid) (\<lambda>_.
       Inr (filter (\<lambda>t. tn_thread t = tid \<and> tn_status t = TurnActive) (dvalues (r_turns r))))"

definition address_turn :: "registry \<Rightarrow> turn_id \<Rightarrow> runtime_identity result" where
  "address_turn r uid =
     rbind (turn_of r uid) (\<lambda>t.
       Inr \<lparr>ri_thread = Some (tn_thread t), ri_turn = Some (tn_id t),
            ri_attachment = tn_attachment t, ri_provenance = tn_provenance t\<rparr>)"

section \<open>Evaluation rules\<close>

lemma thread_of_Inr:
  "thread_of r tid = Inr th \<Longrightarrow> \<exists>p. dget (r_threads r) tid = Some p \<and> at_id th = tid \<and> at_provenance th = p"
  by (auto simp: thread_of_def Let_def split: option.splits)

lemma required_Inr [simp]: "required v n = Inr w \<longleftrightarrow> w = v \<and> strip v \<noteq> [] \<and> nul \<notin> set v"
  by (auto simp: required_def)

lemma check_attachment_Inr:
  "check_attachment r tid aid = Inr u \<Longrightarrow> aid = Some a \<Longrightarrow>
     \<exists>t. dget (r_attachments r) a = Some t \<and> att_thread t = tid"
  by (auto simp: check_attachment_def split: option.splits if_splits)

section \<open>The registry invariant\<close>

text \<open>
  The indexes point at registered entries of the thread they are keyed by, every entry
  stands under its own identifier and belongs to a registered thread, and the attachment of
  a turn is one of the turn's thread.
\<close>

definition att_in :: "registry \<Rightarrow> attachment_id \<Rightarrow> thread_id \<Rightarrow> bool" where
  "att_in r a tid = (case dget (r_attachments r) a of None \<Rightarrow> False | Some t \<Rightarrow> att_thread t = tid)"

definition turn_ok :: "registry \<Rightarrow> turn_id \<Rightarrow> turn \<Rightarrow> bool" where
  "turn_ok r u t \<longleftrightarrow> tn_id t = u \<and> dget (r_threads r) (tn_thread t) \<noteq> None
     \<and> (\<forall>a. tn_attachment t = Some a \<longrightarrow> att_in r a (tn_thread t))"

definition reg_inv :: "registry \<Rightarrow> bool" where
  "reg_inv r \<longleftrightarrow>
     (\<forall>k t. dget (r_threads_by_agent r) k = Some t \<longrightarrow> dget (r_threads r) t \<noteq> None)
   \<and> (\<forall>k u. dget (r_turns_by_agent r) k = Some u \<longrightarrow>
        (\<exists>t. dget (r_turns r) u = Some t \<and> tn_thread t = fst k))
   \<and> (\<forall>u t. dget (r_turns r) u = Some t \<longrightarrow> turn_ok r u t)
   \<and> (\<forall>k a. dget (r_attachments_by_agent r) k = Some a \<longrightarrow> att_in r a (fst k))
   \<and> (\<forall>a t. dget (r_attachments r) a = Some t \<longrightarrow>
        att_id t = a \<and> dget (r_threads r) (att_thread t) \<noteq> None)"

lemma reg_invD:
  assumes "reg_inv r"
  shows "dget (r_threads_by_agent r) k = Some t \<Longrightarrow> dget (r_threads r) t \<noteq> None"
    and "dget (r_turns_by_agent r) k' = Some u \<Longrightarrow> \<exists>t. dget (r_turns r) u = Some t \<and> tn_thread t = fst k'"
    and "dget (r_turns r) u = Some tn \<Longrightarrow> turn_ok r u tn"
    and "dget (r_attachments_by_agent r) k' = Some a \<Longrightarrow> att_in r a (fst k')"
    and "dget (r_attachments r) a = Some av \<Longrightarrow> att_id av = a \<and> dget (r_threads r) (att_thread av) \<noteq> None"
  using assms unfolding reg_inv_def by blast+

lemma reg_invI:
  assumes "\<And>k t. dget (r_threads_by_agent r) k = Some t \<Longrightarrow> dget (r_threads r) t \<noteq> None"
    and "\<And>k u. dget (r_turns_by_agent r) k = Some u \<Longrightarrow>
           \<exists>t. dget (r_turns r) u = Some t \<and> tn_thread t = fst k"
    and "\<And>u t. dget (r_turns r) u = Some t \<Longrightarrow> turn_ok r u t"
    and "\<And>k a. dget (r_attachments_by_agent r) k = Some a \<Longrightarrow> att_in r a (fst k)"
    and "\<And>a t. dget (r_attachments r) a = Some t \<Longrightarrow>
           att_id t = a \<and> dget (r_threads r) (att_thread t) \<noteq> None"
  shows "reg_inv r"
  using assms unfolding reg_inv_def by blast

lemma reg_inv_empty: "reg_inv empty_registry"
  by (simp add: reg_inv_def empty_registry_def)

lemma att_in_frame [simp]:
  "att_in (r\<lparr>r_turns := x\<rparr>) = att_in r" "att_in (r\<lparr>r_turns_by_agent := y\<rparr>) = att_in r"
  "att_in (r\<lparr>r_threads := z\<rparr>) = att_in r" "att_in (r\<lparr>r_threads_by_agent := w\<rparr>) = att_in r"
  "att_in (r\<lparr>r_attachments_by_agent := v\<rparr>) = att_in r"
  by (simp_all add: att_in_def fun_eq_iff)

lemma att_in_put [simp]:
  "att_in (r\<lparr>r_attachments := dset aid a (r_attachments r)\<rparr>) x tid =
     (if x = aid then att_thread a = tid else att_in r x tid)"
  by (simp add: att_in_def)

lemma att_in_mono:
  assumes "\<And>old. dget (r_attachments r) aid = Some old \<Longrightarrow> att_thread old = att_thread a"
    and "att_in r x tid"
  shows "att_in (r\<lparr>r_attachments := dset aid a (r_attachments r)\<rparr>) x tid"
  using assms by (auto simp: att_in_def split: option.splits)

lemma reg_inv_put_thread:
  "reg_inv r \<Longrightarrow> reg_inv (r\<lparr>r_threads := dset tid p (r_threads r),
     r_threads_by_agent := dset key tid (r_threads_by_agent r)\<rparr>)"
  unfolding reg_inv_def turn_ok_def by (intro conjI allI impI) (auto split: if_splits)

lemma turn_ok_frame [simp]:
  "turn_ok (r\<lparr>r_turns := x\<rparr>) = turn_ok r" "turn_ok (r\<lparr>r_turns_by_agent := y\<rparr>) = turn_ok r"
  "turn_ok (r\<lparr>r_attachments_by_agent := v\<rparr>) = turn_ok r"
  by (simp_all add: turn_ok_def fun_eq_iff)

lemma reg_inv_put_turn:
  assumes inv: "reg_inv r" and ok: "turn_ok r u t"
    and same: "\<And>old. dget (r_turns r) u = Some old \<Longrightarrow> tn_thread old = tn_thread t"
  shows "reg_inv (r\<lparr>r_turns := dset u t (r_turns r)\<rparr>)"
proof (rule reg_invI, goal_cases)
  case (2 k v)
  with reg_invD(2) [OF inv, of k v] same show ?case by auto
qed (use ok reg_invD [OF inv] in \<open>auto split: if_splits\<close>)

lemma reg_inv_put_turn_key:
  assumes inv: "reg_inv r" and "turn_ok r u t" and "dget (r_turns r) u = None"
    and tid: "tn_thread t = tid"
  shows "reg_inv (r\<lparr>r_turns := dset u t (r_turns r),
     r_turns_by_agent := dset (tid, k) u (r_turns_by_agent r)\<rparr>)"
proof -
  have "reg_inv (r\<lparr>r_turns := dset u t (r_turns r)\<rparr>)"
    using assms by (intro reg_inv_put_turn) auto
  then have inv': "reg_inv (r\<lparr>r_turns := dset u t (r_turns r)\<rparr>)" .
  show ?thesis
  proof (rule reg_invI, goal_cases)
    case (2 key v)
    then show ?case
      using tid reg_invD(2) [OF inv', of key v] by (cases "key = (tid, k)") auto
  qed (use reg_invD [OF inv'] in auto)
qed

lemma reg_inv_put_attachment:
  assumes inv: "reg_inv r" and id: "att_id a = aid"
    and thr: "dget (r_threads r) (att_thread a) \<noteq> None"
    and same: "\<And>old. dget (r_attachments r) aid = Some old \<Longrightarrow> att_thread old = att_thread a"
  shows "reg_inv (r\<lparr>r_attachments := dset aid a (r_attachments r)\<rparr>)" (is "reg_inv ?r")
proof (rule reg_invI, goal_cases)
  case (3 u t)
  then have "turn_ok r u t" using reg_invD(3) [OF inv] by simp
  then show ?case
    using att_in_mono [of r aid a, OF same] by (auto simp: turn_ok_def)
next
  case (4 k x)
  then have "att_in r x (fst k)" using reg_invD(4) [OF inv] by simp
  then show ?case
    using att_in_mono [of r aid a, OF same] by blast
qed (use id thr reg_invD [OF inv] in \<open>auto split: if_splits\<close>)

lemma reg_inv_put_attachment_key:
  assumes inv: "reg_inv r" and "att_id a = aid" and "dget (r_threads r) (att_thread a) \<noteq> None"
    and "dget (r_attachments r) aid = None" and tid: "att_thread a = tid"
  shows "reg_inv (r\<lparr>r_attachments_by_agent := dset (tid, k) aid (r_attachments_by_agent r),
     r_attachments := dset aid a (r_attachments r)\<rparr>)"
proof -
  let ?r = "r\<lparr>r_attachments := dset aid a (r_attachments r)\<rparr>"
  have inv': "reg_inv ?r"
    using assms by (intro reg_inv_put_attachment) auto
  have "reg_inv (?r\<lparr>r_attachments_by_agent := dset (tid, k) aid (r_attachments_by_agent ?r)\<rparr>)"
  proof (rule reg_invI, goal_cases)
    case (4 key v)
    then show ?case
      using tid reg_invD(4) [OF inv', of key v] by (cases "key = (tid, k)") auto
  qed (use reg_invD [OF inv'] in auto)
  moreover have "?r\<lparr>r_attachments_by_agent := dset (tid, k) aid (r_attachments_by_agent ?r)\<rparr> =
      r\<lparr>r_attachments_by_agent := dset (tid, k) aid (r_attachments_by_agent r),
        r_attachments := dset aid a (r_attachments r)\<rparr>"
    by (cases r) simp
  ultimately show ?thesis by (simp only:)
qed

section \<open>Lifecycle events\<close>

text \<open>
  One constructor per state-changing operation. \<open>no_collision\<close> says that the identifier an
  operation would derive for an unseen name is not in use already: what the 128-bit name
  and random UUIDs provide.
\<close>

datatype reg_op =
    ObserveThread string string
  | Attach thread_id "string option" string
  | Detach attachment_id
  | StartTurn thread_id string "attachment_id option" bool
  | FinishTurn thread_id string turn_status

fun run_op :: "registry \<Rightarrow> reg_op \<Rightarrow> registry result" where
  "run_op r (ObserveThread a t) = rbind (observe_thread r a t) (\<lambda>(r', _). Inr r')"
| "run_op r (Attach tid a fresh) = rbind (attach r tid a fresh) (\<lambda>(r', _). Inr r')"
| "run_op r (Detach aid) = rbind (detach r aid) (\<lambda>(r', _). Inr r')"
| "run_op r (StartTurn tid u aid obs) = rbind (start_turn r tid u aid obs) (\<lambda>(r', _). Inr r')"
| "run_op r (FinishTurn tid u st) = rbind (finish_turn r tid u st) (\<lambda>(r', _). Inr r')"

fun no_collision :: "registry \<Rightarrow> reg_op \<Rightarrow> bool" where
  "no_collision r (ObserveThread a t) =
     (dget (r_threads_by_agent r) (a, t) \<noteq> None
      \<or> dget (r_threads r) (ThreadId (stable_id ''thread'' [a, t])) = None)"
| "no_collision r (Attach tid None fresh) = (dget (r_attachments r) (AttachmentId fresh) = None)"
| "no_collision r (Attach tid (Some a) fresh) =
     (dget (r_attachments_by_agent r) (tid, a) \<noteq> None
      \<or> dget (r_attachments r) (AttachmentId (stable_id ''attachment'' [thread_value tid, a])) = None)"
| "no_collision r (Detach aid) = True"
| "no_collision r (StartTurn tid u aid obs) =
     (dget (r_turns_by_agent r) (tid, u) \<noteq> None
      \<or> dget (r_turns r) (TurnId (stable_id ''turn'' [thread_value tid, u])) = None)"
| "no_collision r (FinishTurn tid u st) =
     (dget (r_turns_by_agent r) (tid, u) \<noteq> None
      \<or> dget (r_turns r) (TurnId (stable_id ''turn'' [thread_value tid, u])) = None)"

inductive reg_reach :: "registry \<Rightarrow> registry \<Rightarrow> bool" for r0 where
  start: "reg_reach r0 r0"
| step: "reg_reach r0 r \<Longrightarrow> no_collision r op \<Longrightarrow> run_op r op = Inr r' \<Longrightarrow> reg_reach r0 r'"

lemma observe_thread_inv:
  assumes "reg_inv r" and "observe_thread r a t = Inr (r', th)"
  shows "reg_inv r'"
  using assms reg_inv_put_thread
  by (auto simp: observe_thread_def Let_def split: option.splits)

text \<open>What a successful \<open>attach\<close> writes: one attachment entry of the thread, and for an unseen
  agent identifier the index entry that names it.\<close>

lemma attach_effect:
  assumes "attach r tid a fresh = Inr (r', av)"
  obtains (anonymous) "a = None" "r' = r\<lparr>r_attachments := dset (AttachmentId fresh) av (r_attachments r)\<rparr>"
      "att_id av = AttachmentId fresh" "att_thread av = tid" "dget (r_threads r) tid \<noteq> None"
    | (known) k aid old where "a = Some k" "dget (r_attachments_by_agent r) (tid, k) = Some aid"
      "dget (r_attachments r) aid = Some old" "att_id av = att_id old" "att_thread av = att_thread old"
      "r' = r \<or> r' = r\<lparr>r_attachments := dset aid av (r_attachments r)\<rparr>"
    | (named) k aid where "a = Some k" "dget (r_attachments_by_agent r) (tid, k) = None"
      "aid = AttachmentId (stable_id ''attachment'' [thread_value tid, k])"
      "r' = r\<lparr>r_attachments_by_agent := dset (tid, k) aid (r_attachments_by_agent r),
              r_attachments := dset aid av (r_attachments r)\<rparr>"
      "att_id av = aid" "att_thread av = tid" "dget (r_threads r) tid \<noteq> None"
proof (cases a)
  case None
  with assms show ?thesis
    by (intro anonymous) (auto simp: attach_def new_attachment_def Let_def dest!: thread_of_Inr)
next
  case (Some k)
  show ?thesis
  proof (cases "dget (r_attachments_by_agent r) (tid, k)")
    case None
    with Some assms show ?thesis
      by (intro named [of k]) (auto simp: attach_def new_attachment_def Let_def dest!: thread_of_Inr)
  next
    case (Some aid)
    with \<open>a = Some k\<close> assms obtain old where old: "dget (r_attachments r) aid = Some old"
      by (auto simp: attach_def Let_def split: option.splits)
    show ?thesis
      using assms \<open>a = Some k\<close> Some old
      by (intro known [OF \<open>a = Some k\<close> Some old])
        (auto simp: attach_def Let_def split: if_splits)
  qed
qed

lemma attach_inv:
  assumes inv: "reg_inv r" and nc: "no_collision r (Attach tid a fresh)"
    and run: "attach r tid a fresh = Inr (r', av)"
  shows "reg_inv r'"
  using run
proof (cases rule: attach_effect)
  case anonymous
  with nc show ?thesis
    using reg_inv_put_attachment [OF inv, of av "AttachmentId fresh"] by auto
next
  case (known k aid old)
  have "reg_inv (r\<lparr>r_attachments := dset aid av (r_attachments r)\<rparr>)"
    by (rule reg_inv_put_attachment [OF inv])
      (use known(3-5) reg_invD(5) [OF inv known(3)] in simp_all)
  with known(6) inv show ?thesis by blast
next
  case (named k aid)
  with nc show ?thesis
    using reg_inv_put_attachment_key [OF inv, of av aid tid k] by auto
qed

lemma detach_inv:
  assumes inv: "reg_inv r" and run: "detach r aid = Inr (r', av)"
  shows "reg_inv r'"
proof -
  obtain a where a: "dget (r_attachments r) aid = Some a"
    using run by (cases "dget (r_attachments r) aid") (simp_all add: detach_def)
  show ?thesis
  proof (cases "att_status a = AttachmentClosed")
    case True
    with run a inv show ?thesis by (simp add: detach_def)
  next
    case False
    with run a have r': "r' = r\<lparr>r_attachments := dset aid (a\<lparr>att_status := AttachmentClosed\<rparr>) (r_attachments r)\<rparr>"
      by (auto simp: detach_def Let_def)
    show ?thesis
      unfolding r' by (rule reg_inv_put_attachment [OF inv]) (use a reg_invD(5) [OF inv a] in simp_all)
  qed
qed

text \<open>What a successful \<open>start_turn\<close> or \<open>finish_turn\<close> writes.\<close>

lemma start_turn_effect:
  assumes "start_turn r tid u aid obs = Inr (r', t)"
  obtains (known) uid t0 where "dget (r_turns_by_agent r) (tid, u) = Some uid"
      "dget (r_turns r) uid = Some t0" "r' = r\<lparr>r_turns := dset uid t (r_turns r)\<rparr>"
      "t = t0\<lparr>tn_attachment := (case tn_attachment t0 of Some a \<Rightarrow> Some a | None \<Rightarrow> aid),
             tn_observed_start := (tn_observed_start t0 \<or> obs)\<rparr>"
      "\<And>a. aid = Some a \<Longrightarrow> att_in r a tid"
    | (new) uid where "dget (r_turns_by_agent r) (tid, u) = None"
      "uid = TurnId (stable_id ''turn'' [thread_value tid, u])"
      "r' = r\<lparr>r_turns := dset uid t (r_turns r),
              r_turns_by_agent := dset (tid, u) uid (r_turns_by_agent r)\<rparr>"
      "tn_id t = uid" "tn_thread t = tid" "tn_attachment t = aid"
      "dget (r_threads r) tid \<noteq> None" "\<And>a. aid = Some a \<Longrightarrow> att_in r a tid"
proof -
  from assms obtain th where th: "thread_of r tid = Inr th"
    and u: "required u ''agent turn id'' = Inr u"
    and chk: "check_attachment r tid aid = Inr ()"
    by (auto simp: start_turn_def)
  have att: "\<And>a. aid = Some a \<Longrightarrow> att_in r a tid"
    using check_attachment_Inr [OF chk] by (auto simp: att_in_def)
  show ?thesis
  proof (cases "dget (r_turns_by_agent r) (tid, u)")
    case None
    with assms th u chk att thread_of_Inr [OF th] show ?thesis
      by (intro new) (auto simp: start_turn_def Let_def)
  next
    case (Some uid)
    with assms th u chk obtain t0 where t0: "dget (r_turns r) uid = Some t0"
      by (cases "dget (r_turns r) uid") (auto simp: start_turn_def Let_def)
    from assms th u chk Some t0 att show ?thesis
      by (intro known [OF Some t0]) (auto simp: start_turn_def Let_def split: if_splits)
  qed
qed

lemma finish_turn_effect:
  assumes "finish_turn r tid u st = Inr (r', t)"
  obtains (known) uid t0 where "dget (r_turns_by_agent r) (tid, u) = Some uid"
      "dget (r_turns r) uid = Some t0" "r' = r\<lparr>r_turns := dset uid t (r_turns r)\<rparr>"
      "t = t0\<lparr>tn_status := st\<rparr>" "tn_status t0 = TurnActive \<or> tn_status t0 = st"
    | (new) uid where "dget (r_turns_by_agent r) (tid, u) = None"
      "uid = TurnId (stable_id ''turn'' [thread_value tid, u])"
      "r' = r\<lparr>r_turns := dset uid t (r_turns r),
              r_turns_by_agent := dset (tid, u) uid (r_turns_by_agent r)\<rparr>"
      "tn_id t = uid" "tn_thread t = tid" "tn_attachment t = None"
      "dget (r_threads r) tid \<noteq> None"
proof -
  from assms have active: "st \<noteq> TurnActive" by (auto simp: finish_turn_def)
  with assms obtain th where th: "thread_of r tid = Inr th"
    and u: "required u ''agent turn id'' = Inr u"
    by (auto simp: finish_turn_def)
  show ?thesis
  proof (cases "dget (r_turns_by_agent r) (tid, u)")
    case None
    with assms th u active thread_of_Inr [OF th] show ?thesis
      by (intro new) (auto simp: finish_turn_def Let_def)
  next
    case (Some uid)
    with assms th u active obtain t0 where t0: "dget (r_turns r) uid = Some t0"
      by (cases "dget (r_turns r) uid") (auto simp: finish_turn_def Let_def)
    from assms th u active Some t0 show ?thesis
      by (intro known [OF Some t0]) (auto simp: finish_turn_def Let_def split: if_splits)
  qed
qed

lemma known_turn_ok:
  assumes inv: "reg_inv r" and "dget (r_turns_by_agent r) (tid, u) = Some uid"
    and "dget (r_turns r) uid = Some t0"
  shows "turn_ok r uid t0" and "tn_thread t0 = tid"
  using reg_invD(2) [OF inv assms(2)] reg_invD(3) [OF inv assms(3)] assms(3) by auto

lemma start_turn_inv:
  assumes inv: "reg_inv r" and nc: "no_collision r (StartTurn tid u aid obs)"
    and run: "start_turn r tid u aid obs = Inr (r', t)"
  shows "reg_inv r'"
  using run
proof (cases rule: start_turn_effect)
  case (known uid t0)
  with known_turn_ok [OF inv known(1,2)] show ?thesis
    by (auto simp: turn_ok_def split: option.splits intro!: reg_inv_put_turn [OF inv])
next
  case (new uid)
  then show ?thesis
    using nc reg_inv_put_turn_key [OF inv, of uid t tid u] by (auto simp: turn_ok_def)
qed

lemma finish_turn_inv:
  assumes inv: "reg_inv r" and nc: "no_collision r (FinishTurn tid u st)"
    and run: "finish_turn r tid u st = Inr (r', t)"
  shows "reg_inv r'"
  using run
proof (cases rule: finish_turn_effect)
  case (known uid t0)
  with known_turn_ok [OF inv known(1,2)] show ?thesis
    by (auto simp: turn_ok_def intro!: reg_inv_put_turn [OF inv])
next
  case (new uid)
  then show ?thesis
    using nc reg_inv_put_turn_key [OF inv, of uid t tid u] by (auto simp: turn_ok_def)
qed

lemma run_op_inv: "reg_inv r \<Longrightarrow> no_collision r op \<Longrightarrow> run_op r op = Inr r' \<Longrightarrow> reg_inv r'"
  by (cases op) (auto simp del: no_collision.simps
      dest: observe_thread_inv attach_inv detach_inv start_turn_inv finish_turn_inv)

lemma reg_reach_inv: "reg_reach r0 r \<Longrightarrow> reg_inv r0 \<Longrightarrow> reg_inv r"
  by (induction rule: reg_reach.induct) (auto dest: run_op_inv)

section \<open>Properties\<close>

text \<open>What one accepted operation does to a registered turn.\<close>

lemma run_op_turn:
  assumes inv: "reg_inv r" and nc: "no_collision r op" and run: "run_op r op = Inr r'"
    and t: "dget (r_turns r) u = Some t"
  shows "\<exists>t'. dget (r_turns r') u = Some t' \<and> tn_thread t' = tn_thread t
     \<and> (tn_status t \<noteq> TurnActive \<longrightarrow> tn_status t' = tn_status t)
     \<and> (tn_observed_start t \<longrightarrow> tn_observed_start t')
     \<and> (tn_attachment t \<noteq> None \<longrightarrow> tn_attachment t' = tn_attachment t)"
proof (cases op)
  case (ObserveThread a b)
  with run t show ?thesis
    by (auto simp: observe_thread_def Let_def split: option.splits)
next
  case (Attach tid a fresh)
  with run obtain av where "attach r tid a fresh = Inr (r', av)" by auto
  then have "r_turns r' = r_turns r" by (cases rule: attach_effect) auto
  with t show ?thesis by simp
next
  case (Detach aid)
  with run t show ?thesis
    by (auto simp: detach_def Let_def split: option.splits if_splits)
next
  case (StartTurn tid a aid obs)
  with run obtain t1 where "start_turn r tid a aid obs = Inr (r', t1)" by auto
  then show ?thesis
    by (cases rule: start_turn_effect) (use nc t StartTurn in \<open>auto split: option.splits\<close>)
next
  case (FinishTurn tid a st)
  with run obtain t1 where "finish_turn r tid a st = Inr (r', t1)" by auto
  then show ?thesis
    by (cases rule: finish_turn_effect) (use nc t FinishTurn in auto)
qed

text \<open>A turn known under an agent's name is always addressable: its address names that turn,
  the thread the name was registered for, and only an attachment of that same thread.\<close>

theorem turn_address_consistent:
  assumes "reg_reach empty_registry r" and "dget (r_turns_by_agent r) (tid, name) = Some u"
  shows "\<exists>ri. address_turn r u = Inr ri \<and> ri_thread ri = Some tid \<and> ri_turn ri = Some u
     \<and> (\<forall>a. ri_attachment ri = Some a \<longrightarrow> att_in r a tid)"
proof -
  have inv: "reg_inv r" using assms(1) reg_inv_empty by (rule reg_reach_inv)
  from reg_invD(2) [OF inv assms(2)] obtain t
    where t: "dget (r_turns r) u = Some t" "tn_thread t = tid" by auto
  from reg_invD(3) [OF inv t(1)] t show ?thesis
    by (auto simp: address_turn_def turn_of_def turn_ok_def)
qed

text \<open>The end of a turn is final: whatever events follow, late starts, repeated finishes and
  reattachments included, an ended turn keeps its terminal status, its thread and its
  attachment, and an observed start is never forgotten.\<close>

theorem ended_turn_is_final:
  assumes "reg_reach empty_registry r" and "reg_reach r r'"
    and "dget (r_turns r) u = Some t" and "tn_status t \<noteq> TurnActive"
  shows "\<exists>t'. dget (r_turns r') u = Some t' \<and> tn_status t' = tn_status t
     \<and> tn_thread t' = tn_thread t \<and> (tn_observed_start t \<longrightarrow> tn_observed_start t')
     \<and> (tn_attachment t \<noteq> None \<longrightarrow> tn_attachment t' = tn_attachment t)"
  using assms(2)
proof (induction rule: reg_reach.induct)
  case start
  with assms show ?case by blast
next
  case (step r1 op r2)
  have "reg_inv r1"
    using reg_reach_inv [OF step.hyps(1) reg_reach_inv [OF assms(1) reg_inv_empty]] .
  with step obtain t1 where t1: "dget (r_turns r1) u = Some t1" "tn_status t1 = tn_status t"
    "tn_thread t1 = tn_thread t" "tn_observed_start t \<longrightarrow> tn_observed_start t1"
    "tn_attachment t \<noteq> None \<longrightarrow> tn_attachment t1 = tn_attachment t" by blast
  from run_op_turn [OF \<open>reg_inv r1\<close> step.hyps(2,3) t1(1)] t1 assms(4) show ?case
    by metis
qed

text \<open>The thread an operation addresses, and what a registry holds for one thread.\<close>

fun op_thread :: "registry \<Rightarrow> reg_op \<Rightarrow> thread_id option" where
  "op_thread r (ObserveThread a t) = None"
| "op_thread r (Attach tid a fresh) = Some tid"
| "op_thread r (Detach aid) = map_option att_thread (dget (r_attachments r) aid)"
| "op_thread r (StartTurn tid u aid obs) = Some tid"
| "op_thread r (FinishTurn tid u st) = Some tid"

definition thread_turn :: "registry \<Rightarrow> thread_id \<Rightarrow> turn_id \<Rightarrow> turn option" where
  "thread_turn r tid u = (case dget (r_turns r) u of
     Some t \<Rightarrow> if tn_thread t = tid then Some t else None | None \<Rightarrow> None)"

definition thread_attachment :: "registry \<Rightarrow> thread_id \<Rightarrow> attachment_id \<Rightarrow> attachment option" where
  "thread_attachment r tid a = (case dget (r_attachments r) a of
     Some t \<Rightarrow> if att_thread t = tid then Some t else None | None \<Rightarrow> None)"

text \<open>Concurrent threads are isolated: an operation on one thread leaves every turn and
  attachment of every other thread exactly as it was.\<close>

theorem registry_isolation:
  assumes reach: "reg_reach empty_registry r" and nc: "no_collision r op"
    and run: "run_op r op = Inr r'" and other: "op_thread r op \<noteq> Some tid"
  shows "thread_turn r' tid u = thread_turn r tid u
    \<and> thread_attachment r' tid a = thread_attachment r tid a"
proof -
  have inv: "reg_inv r" using reach reg_inv_empty by (rule reg_reach_inv)
  note keyed = reg_invD(2) [OF inv] reg_invD(4) [OF inv]
  show ?thesis
  proof (cases op)
    case (ObserveThread x y)
    with run show ?thesis
      by (auto simp: observe_thread_def Let_def thread_turn_def thread_attachment_def
          split: option.splits)
  next
    case (Attach t x fresh)
    with run obtain av where "attach r t x fresh = Inr (r', av)" by auto
    then show ?thesis
    proof (cases rule: attach_effect)
      case (known k aid old)
      have t: "att_thread old = t" "t \<noteq> tid"
        using other Attach keyed(2) [OF known(2)] known(3) by (simp_all add: att_in_def)
      from known(6) show ?thesis
      proof
        assume "r' = r\<lparr>r_attachments := dset aid av (r_attachments r)\<rparr>"
        with t known(3,5) show ?thesis by (simp add: thread_turn_def thread_attachment_def)
      qed simp
    qed (use nc other Attach in \<open>auto simp: thread_turn_def thread_attachment_def\<close>)
  next
    case (Detach x)
    with run obtain old where old: "dget (r_attachments r) x = Some old"
      by (cases "dget (r_attachments r) x") (simp_all add: detach_def)
    with run Detach have "r' = r \<or>
        r' = r\<lparr>r_attachments := dset x (old\<lparr>att_status := AttachmentClosed\<rparr>) (r_attachments r)\<rparr>"
      by (auto simp: detach_def Let_def split: if_splits)
    then show ?thesis
      using other Detach old by (elim disjE) (simp_all add: thread_turn_def thread_attachment_def)
  next
    case (StartTurn t x aid obs)
    with run obtain t1 where "start_turn r t x aid obs = Inr (r', t1)" by auto
    then show ?thesis
    proof (cases rule: start_turn_effect)
      case (known uid t0)
      with other StartTurn known_turn_ok(2) [OF inv known(1,2)] show ?thesis
        by (auto simp: thread_turn_def thread_attachment_def)
    qed (use nc other StartTurn in \<open>auto simp: thread_turn_def thread_attachment_def\<close>)
  next
    case (FinishTurn t x st)
    with run obtain t1 where "finish_turn r t x st = Inr (r', t1)" by auto
    then show ?thesis
    proof (cases rule: finish_turn_effect)
      case (known uid t0)
      with other FinishTurn known_turn_ok(2) [OF inv known(1,2)] show ?thesis
        by (auto simp: thread_turn_def thread_attachment_def)
    qed (use nc other FinishTurn in \<open>auto simp: thread_turn_def thread_attachment_def\<close>)
  qed
qed

section \<open>Witnesses\<close>

definition sample_thread :: thread_id where
  "sample_thread = ThreadId (stable_id ''thread'' [''codex'', ''t''])"

definition sample_turn :: turn_id where
  "sample_turn = TurnId (stable_id ''turn'' [thread_value sample_thread, ''1''])"

lemma sample_required: "required ''codex'' n = Inr ''codex''" "required ''t'' n = Inr ''t''"
  "required ''1'' n = Inr ''1''"
  by (simp_all add: required_def strip_def strip_when_def rstrip_when_def is_space_def code_def nul_def)

definition sample_provenance :: identity_provenance where
  "sample_provenance = \<lparr>prov_agent = ''codex'', prov_thread = Some ''t'', prov_turn = None,
     prov_attachment = None, prov_legacy_session = None\<rparr>"

definition observed_registry :: registry where
  "observed_registry = empty_registry\<lparr>r_threads := [(sample_thread, sample_provenance)],
     r_threads_by_agent := [((''codex'', ''t''), sample_thread)]\<rparr>"

definition started_registry :: registry where
  "started_registry = observed_registry\<lparr>
     r_turns := [(sample_turn, \<lparr>tn_id = sample_turn, tn_thread = sample_thread, tn_attachment = None,
       tn_status = TurnActive, tn_observed_start = True,
       tn_provenance = sample_provenance\<lparr>prov_turn := Some ''1''\<rparr>\<rparr>)],
     r_turns_by_agent := [((sample_thread, ''1''), sample_turn)]\<rparr>"

definition finished_registry :: registry where
  "finished_registry = observed_registry\<lparr>
     r_turns := [(sample_turn, \<lparr>tn_id = sample_turn, tn_thread = sample_thread, tn_attachment = None,
       tn_status = TurnCompleted, tn_observed_start = True,
       tn_provenance = sample_provenance\<lparr>prov_turn := Some ''1''\<rparr>\<rparr>)],
     r_turns_by_agent := [((sample_thread, ''1''), sample_turn)]\<rparr>"

lemma sample_ops:
  "run_op empty_registry (ObserveThread ''codex'' ''t'') = Inr observed_registry"
  "run_op observed_registry (StartTurn sample_thread ''1'' None True) = Inr started_registry"
  "run_op started_registry (FinishTurn sample_thread ''1'' TurnCompleted) = Inr finished_registry"
  by (simp_all add: observe_thread_def start_turn_def finish_turn_def thread_of_def sample_required
      check_attachment_def Let_def dict_eval empty_registry_def observed_registry_def
      started_registry_def finished_registry_def sample_provenance_def
      sample_thread_def [symmetric] sample_turn_def [symmetric])

lemma sample_reach:
  "reg_reach empty_registry observed_registry" "reg_reach empty_registry started_registry"
  "reg_reach empty_registry finished_registry" "reg_reach started_registry finished_registry"
proof -
  show r1: "reg_reach empty_registry observed_registry"
    by (rule reg_reach.step [OF reg_reach.start _ sample_ops(1)])
      (simp add: empty_registry_def dict_eval)
  show r2: "reg_reach empty_registry started_registry"
    by (rule reg_reach.step [OF r1 _ sample_ops(2)])
      (simp add: empty_registry_def observed_registry_def dict_eval)
  have nc: "no_collision started_registry (FinishTurn sample_thread ''1'' TurnCompleted)"
    by (simp add: started_registry_def dict_eval)
  show "reg_reach empty_registry finished_registry"
    by (rule reg_reach.step [OF r2 nc sample_ops(3)])
  show "reg_reach started_registry finished_registry"
    by (rule reg_reach.step [OF reg_reach.start nc sample_ops(3)])
qed

theorem turn_address_consistent_witness:
  "\<exists>ri. address_turn started_registry sample_turn = Inr ri \<and> ri_thread ri = Some sample_thread"
  using turn_address_consistent [OF sample_reach(2), of sample_thread "''1''" sample_turn]
  by (auto simp: started_registry_def dict_eval)

lemma sample_restart:
  "run_op finished_registry (StartTurn sample_thread ''1'' None True) = Inr finished_registry"
  by (simp add: start_turn_def thread_of_def sample_required check_attachment_def Let_def dict_eval
      empty_registry_def observed_registry_def finished_registry_def)

theorem ended_turn_is_final_witness:
  "\<exists>t'. dget (r_turns finished_registry) sample_turn = Some t' \<and> tn_status t' = TurnCompleted"
proof -
  have again: "reg_reach finished_registry finished_registry"
    by (rule reg_reach.step [OF reg_reach.start _ sample_restart])
      (simp add: finished_registry_def dict_eval)
  obtain t where t: "dget (r_turns finished_registry) sample_turn = Some t" "tn_status t = TurnCompleted"
    by (simp add: finished_registry_def dict_eval)
  with ended_turn_is_final [OF sample_reach(3) again t(1)] show ?thesis by auto
qed

lemma sample_thread_other: "sample_thread \<noteq> ThreadId ''other''"
  using length_uuid5_hex [of identity_namespace "join [nul] [''thread'', ''codex'', ''t'']"]
  by (auto simp: sample_thread_def stable_id_def dest: arg_cong [of _ _ length])

theorem registry_isolation_witness:
  "thread_turn finished_registry (ThreadId ''other'') sample_turn
     = thread_turn started_registry (ThreadId ''other'') sample_turn"
proof -
  have "op_thread started_registry (FinishTurn sample_thread ''1'' TurnCompleted) \<noteq> Some (ThreadId ''other'')"
    by (simp add: sample_thread_other)
  from registry_isolation [OF sample_reach(2) _ sample_ops(3) this] show ?thesis
    by (simp add: started_registry_def dict_eval)
qed

end
