(* ===== verification/Trace_Events.thy ===== *)
theory Trace_Events
  imports Py_Value Runtime_Identity
begin

text \<open>
  Model of \<open>src/spotter/trace.py\<close>: the runtime-neutral trace event and its aggregation into
  semantic segments.
\<close>

record trace_provenance =
  tp_source :: string
  tp_method :: "string option"

record trace_event =
  ev_kind :: string
  ev_payload :: payload
  ev_id :: "string option"
  ev_at :: "float64 option"
  ev_identity :: "runtime_identity option"
  ev_operation :: "string option"
  ev_item :: "string option"
  ev_provenance :: "trace_provenance option"
  ev_epoch :: "int option"
  ev_arrival :: "int option"
  ev_monotonic :: "int option"
  ev_clock :: "string option"
  ev_config :: "string option"

definition segment_by_kind :: "(string, string) dict" where
  "segment_by_kind =
     [(''reasoning_summary'', ''hypothesis''), (''plan'', ''hypothesis''),
      (''agent_message'', ''hypothesis''), (''file_read'', ''evidence''),
      (''search'', ''evidence''), (''command_result'', ''evidence''),
      (''tool_result'', ''evidence''), (''patch'', ''commit''), (''file_edit'', ''commit''),
      (''test_result'', ''validation'')]"

record segment =
  seg_kind :: string
  seg_start :: nat
  seg_end :: nat

definition segment_step :: "segment list \<Rightarrow> nat \<times> trace_event \<Rightarrow> segment list" where
  "segment_step segments ie =
     (case dget segment_by_kind (ev_kind (snd ie)) of
        None \<Rightarrow> segments
      | Some kind \<Rightarrow>
          if segments \<noteq> [] \<and> seg_kind (last segments) = kind
          then butlast segments @ [\<lparr>seg_kind = kind, seg_start = seg_start (last segments), seg_end = fst ie\<rparr>]
          else segments @ [\<lparr>seg_kind = kind, seg_start = fst ie, seg_end = fst ie\<rparr>])"

definition segment_events :: "trace_event list \<Rightarrow> segment list" where
  "segment_events events = foldl segment_step [] (zip [0..<length events] events)"

section \<open>Segments partition the events that carry a role\<close>

abbreviation role :: "trace_event \<Rightarrow> string option" where
  "role e \<equiv> dget segment_by_kind (ev_kind e)"

definition covers :: "segment \<Rightarrow> nat \<Rightarrow> bool" where
  "covers s i \<longleftrightarrow> seg_start s \<le> i \<and> i \<le> seg_end s"

definition seg_ok :: "trace_event list \<Rightarrow> segment \<Rightarrow> bool" where
  "seg_ok es s \<longleftrightarrow> seg_start s \<le> seg_end s \<and> seg_end s < length es
     \<and> role (es ! seg_start s) = Some (seg_kind s) \<and> role (es ! seg_end s) = Some (seg_kind s)
     \<and> (\<forall>i. covers s i \<longrightarrow> role (es ! i) \<in> {None, Some (seg_kind s)})"

definition chained :: "segment \<Rightarrow> segment \<Rightarrow> bool" where
  "chained s t \<longleftrightarrow> seg_end s < seg_start t \<and> seg_kind s \<noteq> seg_kind t"

definition segs_ok :: "trace_event list \<Rightarrow> segment list \<Rightarrow> bool" where
  "segs_ok es ss \<longleftrightarrow> (\<forall>s \<in> set ss. seg_ok es s) \<and> successively chained ss
     \<and> (\<forall>i < length es. role (es ! i) \<noteq> None \<longrightarrow> (\<exists>s \<in> set ss. covers s i))
     \<and> (ss \<noteq> [] \<longrightarrow> (\<forall>i < length es. seg_end (last ss) < i \<longrightarrow> role (es ! i) = None))"

lemma segment_events_snoc:
  "segment_events (es @ [e]) = segment_step (segment_events es) (length es, e)"
  by (simp add: segment_events_def)

lemma seg_ok_append: "seg_ok es s \<Longrightarrow> seg_ok (es @ [e]) s"
  by (auto simp: seg_ok_def covers_def nth_append)

lemma seg_ok_single: "role e = Some k \<Longrightarrow>
    seg_ok (es @ [e]) \<lparr>seg_kind = k, seg_start = length es, seg_end = length es\<rparr>"
  by (auto simp: seg_ok_def covers_def nth_append)

lemma seg_ok_extend:
  assumes "seg_ok es s" and "role e = Some (seg_kind s)"
    and "\<forall>i < length es. seg_end s < i \<longrightarrow> role (es ! i) = None"
  shows "seg_ok (es @ [e]) \<lparr>seg_kind = seg_kind s, seg_start = seg_start s, seg_end = length es\<rparr>"
  using assms by (auto simp: seg_ok_def covers_def nth_append) (metis not_less)+

lemma chained_replace_last:
  "successively chained (xs @ [s]) \<Longrightarrow> seg_kind t = seg_kind s \<Longrightarrow> seg_start t = seg_start s \<Longrightarrow>
     successively chained (xs @ [t])"
  by (simp add: successively_append_iff chained_def)

lemma segs_ok_segment_events: "segs_ok es (segment_events es)"
proof (induction es rule: rev_induct)
  case Nil
  show ?case by (simp add: segs_ok_def segment_events_def)
next
  case (snoc e es)
  let ?ss = "segment_events es"
  have ok: "\<forall>s \<in> set ?ss. seg_ok (es @ [e]) s"
    using snoc by (simp add: segs_ok_def seg_ok_append)
  have last_end: "?ss \<noteq> [] \<Longrightarrow> seg_end (last ?ss) < length es"
    using snoc by (auto simp: segs_ok_def seg_ok_def)
  show ?case
  proof (cases "role e")
    case None
    then show ?thesis
      using snoc ok by (auto simp: segment_events_snoc segment_step_def segs_ok_def nth_append
          less_Suc_eq)
  next
    case (Some k)
    show ?thesis
    proof (cases "?ss \<noteq> [] \<and> seg_kind (last ?ss) = k")
      case True
      let ?new = "\<lparr>seg_kind = k, seg_start = seg_start (last ?ss), seg_end = length es\<rparr>"
      from True have ss: "?ss = butlast ?ss @ [last ?ss]" by simp
      have new: "seg_ok (es @ [e]) ?new"
        using seg_ok_extend [of es "last ?ss" e] snoc True Some by (auto simp: segs_ok_def)
      have "successively chained (butlast ?ss @ [last ?ss])"
        using snoc ss by (simp add: segs_ok_def)
      then have chain: "successively chained (butlast ?ss @ [?new])"
        by (rule chained_replace_last) (use True in simp_all)
      have cov: "\<exists>s \<in> set (butlast ?ss @ [?new]). covers s i"
        if "i < length (es @ [e])" "role ((es @ [e]) ! i) \<noteq> None" for i
      proof (cases "i < length es")
        case True
        with that snoc obtain s where s: "s \<in> set ?ss" "covers s i"
          by (auto simp: segs_ok_def nth_append)
        from s(1) have "s \<in> set (butlast ?ss) \<or> s = last ?ss"
          by (subst (asm) ss) auto
        with s(2) True show ?thesis by (auto simp: covers_def)
      next
        case False
        with that have "i = length es" by simp
        then show ?thesis using last_end ss snoc
          by (auto simp: covers_def segs_ok_def seg_ok_def)
            (metis True last_in_set le_trans less_imp_le_nat)
      qed
      have ok': "\<forall>s \<in> set (butlast ?ss @ [?new]). seg_ok (es @ [e]) s"
        using ok new by (auto dest: in_set_butlastD)
      have "segment_events (es @ [e]) = butlast ?ss @ [?new]"
        using True Some by (simp add: segment_events_snoc segment_step_def)
      then show ?thesis
        using ok' chain cov by (simp add: segs_ok_def)
    next
      case False
      let ?new = "\<lparr>seg_kind = k, seg_start = length es, seg_end = length es\<rparr>"
      have eq: "segment_events (es @ [e]) = ?ss @ [?new]"
        using False Some by (auto simp: segment_events_snoc segment_step_def)
      have chain: "successively chained (?ss @ [?new])"
        using snoc False last_end
        by (cases "?ss = []") (auto simp: segs_ok_def successively_append_iff chained_def)
      show ?thesis
        unfolding eq using snoc ok chain seg_ok_single [OF Some]
        by (auto simp: segs_ok_def nth_append covers_def less_Suc_eq)
    qed
  qed
qed

text \<open>Segmentation is a faithful partition: every event whose kind carries a semantic role
  lies in a segment of exactly that role, segments start and end at such events and hold no
  event of another role, and consecutive segments are disjoint, in order and of different
  roles, so none could be merged.\<close>

theorem segment_events_partition:
  "(\<forall>i < length es. role (es ! i) \<noteq> None \<longrightarrow>
      (\<exists>s \<in> set (segment_events es). covers s i \<and> role (es ! i) = Some (seg_kind s)))
   \<and> (\<forall>s \<in> set (segment_events es). seg_ok es s)
   \<and> successively chained (segment_events es)"
proof -
  have ok: "segs_ok es (segment_events es)" by (rule segs_ok_segment_events)
  have "\<exists>s \<in> set (segment_events es). covers s i \<and> role (es ! i) = Some (seg_kind s)"
    if "i < length es" and some: "role (es ! i) \<noteq> None" for i
  proof -
    from ok that obtain s where s: "s \<in> set (segment_events es)" "covers s i"
      by (auto simp: segs_ok_def)
    with ok have "role (es ! i) \<in> {None, Some (seg_kind s)}"
      by (auto simp: segs_ok_def seg_ok_def)
    with s some show ?thesis by auto
  qed
  with ok show ?thesis by (auto simp: segs_ok_def)
qed

definition plain_event :: "string \<Rightarrow> trace_event" where
  "plain_event kind = \<lparr>ev_kind = kind, ev_payload = [], ev_id = None, ev_at = None,
     ev_identity = None, ev_operation = None, ev_item = None, ev_provenance = None,
     ev_epoch = None, ev_arrival = None, ev_monotonic = None, ev_clock = None, ev_config = None\<rparr>"

theorem segment_events_partition_witness:
  "\<exists>s \<in> set (segment_events [plain_event ''file_read'', plain_event ''noise'', plain_event ''plan'']).
     covers s 2 \<and> Some ''hypothesis'' = Some (seg_kind s)"
  using segment_events_partition
    [of "[plain_event ''file_read'', plain_event ''noise'', plain_event ''plan'']"]
  by (auto simp: plain_event_def segment_by_kind_def dict_eval dest!: spec [of _ "2::nat"])

end
