(* ===== verification/Outcomes.thy ===== *)
theory Outcomes
  imports Py_Value
begin

text \<open>
  Model of \<open>src/spotter/outcomes.py\<close>: the classification of a runtime payload as failure,
  success or unknown. The digit limit CPython puts on \<open>int(text)\<close> is not modelled.
\<close>

definition failed_statuses :: "string list" where
  "failed_statuses = [''cancelled'', ''declined'', ''error'', ''failed'', ''interrupted'']"

definition succeeded_statuses :: "string list" where
  "succeeded_statuses = [''completed'', ''passed'', ''succeeded'', ''success'']"

section \<open>The exit code line\<close>

text \<open>
  \<open>_EXIT_CODE_TEXT\<close> is \<open>(?im)^Exit code: (-?\d+)\s*$\<close>. At a line start: the words in any
  case, an optional minus, the maximal run of digits, then whitespace up to the end of the
  text or over at least one newline.
\<close>

definition newline :: char where
  "newline = CHR 0x0A"

definition line_end :: "string \<Rightarrow> bool" where
  "line_end s = (dropWhile is_space s = [] \<or> newline \<in> set (takeWhile is_space s))"

definition exit_code_at :: "string \<Rightarrow> int option" where
  "exit_code_at s =
     (if lower (take 11 s) \<noteq> ''exit code: '' then None
      else let r = drop 11 s; neg = startswith r ''-''; r' = (if neg then drop 1 r else r);
               ds = takeWhile is_digit r'
           in if ds = [] \<or> \<not> line_end (dropWhile is_digit r') then None
              else Some (if neg then - int_of_dec ds else int_of_dec ds))"

lemma length_dropWhile_le [simp]: "length (dropWhile P xs) \<le> length xs"
  by (induction xs) auto

function exit_code_search :: "string \<Rightarrow> int option" where
  "exit_code_search s =
     (case exit_code_at s of
        Some v \<Rightarrow> Some v
      | None \<Rightarrow> (case dropWhile (\<lambda>c. c \<noteq> newline) s of
                   [] \<Rightarrow> None | _ # rest \<Rightarrow> exit_code_search rest))"
  by pat_completeness auto
termination
proof (relation "measure length", goal_cases)
  case (2 s c rest)
  have "length (c # rest) \<le> length s"
    using length_dropWhile_le [of "\<lambda>c. c \<noteq> newline" s] by (simp add: 2)
  then show ?case by simp
qed simp

declare exit_code_search.simps [simp del]

section \<open>Signals\<close>

definition append_exit_code :: "bool list \<Rightarrow> pyval \<Rightarrow> bool list" where
  "append_exit_code signals v = (case v of PInt i \<Rightarrow> signals @ [i \<noteq> 0] | _ \<Rightarrow> signals)"

definition append_success :: "bool list \<Rightarrow> pyval \<Rightarrow> bool list" where
  "append_success signals v = (case v of PBool b \<Rightarrow> signals @ [\<not> b] | _ \<Rightarrow> signals)"

definition append_status :: "bool list \<Rightarrow> pyval \<Rightarrow> bool list" where
  "append_status signals v =
     (case v of
        PStr s \<Rightarrow> if s \<in> set failed_statuses then signals @ [True]
                 else if s \<in> set succeeded_statuses then signals @ [False] else signals
      | _ \<Rightarrow> signals)"

definition response_signals :: "pyval \<Rightarrow> bool list" where
  "response_signals response =
     (case response of
        PDict d \<Rightarrow>
          append_status (append_success (append_exit_code [] (get d ''exit_code''))
            (get d ''ok'')) (get d ''status'')
      | PStr s \<Rightarrow> (case exit_code_search s of Some v \<Rightarrow> [v \<noteq> 0] | None \<Rightarrow> [])
      | _ \<Rightarrow> [])"

definition outcome_failure :: "payload \<Rightarrow> bool option" where
  "outcome_failure p =
     (let signals = response_signals (get p ''tool_response'');
          exit_code = (case dget p ''exitCode'' of Some v \<Rightarrow> v | None \<Rightarrow> get p ''exit_code'');
          signals = append_exit_code signals exit_code;
          signals = append_success signals (get p ''success'');
          signals = append_status signals (get p ''status'')
      in if list_ex id signals then Some True
         else if signals \<noteq> [] then Some False else None)"

section \<open>What a payload reports\<close>

text \<open>
  The contract: a value of one of three shapes (an integer exit code, a success flag, a
  status word) at one of the places the runtime puts it, or an exit code line in a textual
  response.
\<close>

fun exit_says :: "bool \<Rightarrow> pyval \<Rightarrow> bool" where
  "exit_says failing (PInt i) = ((i \<noteq> 0) = failing)"
| "exit_says failing _ = False"

fun flag_says :: "bool \<Rightarrow> pyval \<Rightarrow> bool" where
  "flag_says failing (PBool b) = (b \<noteq> failing)"
| "flag_says failing _ = False"

fun status_says :: "bool \<Rightarrow> pyval \<Rightarrow> bool" where
  "status_says failing (PStr s) =
     (s \<in> set (if failing then failed_statuses else succeeded_statuses))"
| "status_says failing _ = False"

fun response_says :: "bool \<Rightarrow> pyval \<Rightarrow> bool" where
  "response_says failing (PDict d) =
     (exit_says failing (get d ''exit_code'') \<or> flag_says failing (get d ''ok'')
      \<or> status_says failing (get d ''status''))"
| "response_says failing (PStr s) = (\<exists>v. exit_code_search s = Some v \<and> (v \<noteq> 0) = failing)"
| "response_says failing _ = False"

definition reports :: "bool \<Rightarrow> payload \<Rightarrow> bool" where
  "reports failing p =
     (response_says failing (get p ''tool_response'')
      \<or> exit_says failing (case dget p ''exitCode'' of Some v \<Rightarrow> v | None \<Rightarrow> get p ''exit_code'')
      \<or> flag_says failing (get p ''success'') \<or> status_says failing (get p ''status''))"

lemma status_words_disjoint: "s \<in> set failed_statuses \<Longrightarrow> s \<notin> set succeeded_statuses"
  by (auto simp: failed_statuses_def succeeded_statuses_def)

lemma set_append_signals:
  "b \<in> set (append_exit_code xs v) \<longleftrightarrow> b \<in> set xs \<or> exit_says b v"
  "b \<in> set (append_success xs v) \<longleftrightarrow> b \<in> set xs \<or> flag_says b v"
  "b \<in> set (append_status xs v) \<longleftrightarrow> b \<in> set xs \<or> status_says b v"
  by (cases v; cases b; auto simp: append_exit_code_def append_success_def append_status_def
      dest: status_words_disjoint)+

lemma set_response_signals: "b \<in> set (response_signals v) \<longleftrightarrow> response_says b v"
  by (cases v; cases b; force simp: response_signals_def set_append_signals split: option.splits)

lemma two_signals: "list_ex id xs \<longleftrightarrow> True \<in> set xs" "xs \<noteq> [] \<longleftrightarrow> True \<in> set xs \<or> False \<in> set xs"
proof -
  show "list_ex id xs \<longleftrightarrow> True \<in> set xs"
    by (auto simp: list_ex_iff)
  show "xs \<noteq> [] \<longleftrightarrow> True \<in> set xs \<or> False \<in> set xs"
    by (cases xs) (simp, metis (full_types) list.set_intros(1) list.distinct(1))
qed

text \<open>The classification agrees with what the payload reports: failure exactly when some
  recognised signal reports failure (a success elsewhere never masks it), success exactly
  when a signal reports success and none reports failure, unknown when there is no signal.\<close>

theorem outcome_failure_spec:
  "outcome_failure p =
     (if reports True p then Some True else if reports False p then Some False else None)"
  by (simp add: outcome_failure_def Let_def two_signals set_append_signals set_response_signals
      reports_def)

text \<open>The exit code line a tool response starts with is read back exactly, whatever the sign
  and size of the code, when the line ends after the digits.\<close>

theorem exit_code_roundtrip:
  assumes "rest = [] \<or> (\<exists>t. rest = newline # t)"
  shows "exit_code_search (''Exit code: '' @ dec_int i @ rest) = Some i"
proof -
  let ?n = "\<bar>i\<bar>"
  have not_digit: "takeWhile is_digit rest = []" "dropWhile is_digit rest = rest"
    using assms by (auto simp: is_digit_def code_def newline_def)
  have digits: "takeWhile is_digit (dec_pos ?n @ rest) = dec_pos ?n"
    "dropWhile is_digit (dec_pos ?n @ rest) = rest"
    using dec_pos_digits [of ?n] not_digit by (simp_all add: takeWhile_append dropWhile_append)
  have ends: "line_end rest"
    using assms by (auto simp: line_end_def is_space_def code_def Let_def newline_def)
  have head: "lower (take 11 (''Exit code: '' @ t)) = ''exit code: ''" for t
    by (simp add: lower_def lower_char_def code_def Let_def char_of_def)
  have tail: "drop 11 (''Exit code: '' @ t) = t" for t
    by simp
  have no_minus: "\<not> startswith (dec_pos ?n @ rest) ''-''"
  proof (cases "dec_pos ?n")
    case (Cons c cs)
    then show ?thesis
      using dec_pos_no_minus [of ?n] by (auto simp: startswith_def)
  qed simp
  have "exit_code_at (''Exit code: '' @ dec_int i @ rest) = Some i"
    using digits ends no_minus int_of_dec_dec_pos [of ?n]
    unfolding exit_code_at_def head tail
    by (cases "i < 0") (simp_all add: dec_int_def Let_def startswith_def)
  then show ?thesis
    by (subst exit_code_search.simps) simp
qed

theorem exit_code_roundtrip_witness:
  "exit_code_search (''Exit code: '' @ dec_int (-15) @ newline # ''done'') = Some (-15)"
  by (rule exit_code_roundtrip) simp

end
