(* ===== verification/Thread_State.thy ===== *)
theory Thread_State
  imports Trace_Events Outcomes
begin

text \<open>
  Model of \<open>src/spotter/thread_state.py\<close>: the immutable supervision state of a thread, the
  reducer that folds trace events into it, and the store that routes and deduplicates
  events. A frozen dataclass is a record; \<open>frozenset\<close> is a set; the float conversions that
  can overflow raise \<open>OverflowError\<close>.
\<close>

section \<open>State\<close>

definition recent_limit :: nat where
  "recent_limit = 50"

definition validation_scope_limit :: nat where
  "validation_scope_limit = 128"

datatype item_kind =
    Goal | Constraint | Observation | Hypothesis | VerifiedFact | Summary | Intervention

datatype item_status = ItemActive | ItemStale | ItemSuperseded | ItemUnknown

datatype history_status = HistoryComplete | HistoryPartial | HistoryUnknown

datatype condition_status = Unmet | Satisfied | Invalidated | ConditionUnknown

datatype validation_status = ValidationUnknown | ValidationPassed | ValidationFailed | ValidationStale

record state_provenance =
  sp_event :: "string option"
  sp_created :: "float64 option"
  sp_thread :: thread_id
  sp_turn :: "turn_id option"
  sp_epoch :: "int option"
  sp_source :: "string option"
  sp_config :: "string option"

record state_item =
  si_id :: string
  si_kind :: item_kind
  si_text :: string
  si_provenance :: state_provenance
  si_status :: item_status
  si_confidence :: "float64 option"
  si_depends :: "string list"
  si_evidence :: "string list"

record verification_condition =
  vc_id :: string
  vc_kind :: string
  vc_scope :: "string option"
  vc_required :: "string list"
  vc_status :: condition_status
  vc_satisfied_by :: "string list"
  vc_created_from :: string
  vc_provenance :: state_provenance

record observation_gap =
  og_started :: "float64 option"
  og_ended :: "float64 option"
  og_epoch_before :: "int option"
  og_epoch_after :: "int option"
  og_backfill :: string
  og_source :: "string option"

record task_state =
  tk_goal :: "state_item option"
  tk_constraints :: "state_item list"

record evidence_state =
  es_items :: "state_item list"
  es_conditions :: "verification_condition list"
  es_stale :: "string set"

record workspace_state =
  ws_repository :: "string option"
  ws_worktree :: "string option"
  ws_touched :: "string set"
  ws_edits :: "string set"
  ws_checkpoint :: "string option"

record execution_state =
  ex_plan :: "state_item option"
  ex_answer :: "state_item option"
  ex_active_items :: "string set"
  ex_completed :: "turn_id set"
  ex_outcomes :: "state_item list"
  ex_failures :: "state_item list"
  ex_validation :: validation_status

record supervision_state =
  su_interventions :: "state_item list"

record coverage_state =
  cv_history :: history_status
  cv_gaps :: "observation_gap list"
  cv_unknown :: nat
  cv_trustworthy :: "string option"
  cv_complete_since :: "float64 option"
  cv_inconsistencies :: "string list"

record thread_state =
  ts_identity :: runtime_identity
  ts_version :: nat
  ts_last_event :: "string option"
  ts_last_seq :: int
  ts_epoch :: "int option"
  ts_active_turn :: "turn_id option"
  ts_capabilities :: "string list"
  ts_control_ready :: bool
  ts_task :: task_state
  ts_evidence :: evidence_state
  ts_workspace :: workspace_state
  ts_execution :: execution_state
  ts_supervision :: supervision_state
  ts_coverage :: coverage_state

text \<open>The default factories of the dataclasses.\<close>

definition initial_state :: "runtime_identity \<Rightarrow> thread_state" where
  "initial_state identity =
     \<lparr>ts_identity = identity, ts_version = 0, ts_last_event = None, ts_last_seq = 0,
      ts_epoch = None, ts_active_turn = None, ts_capabilities = [], ts_control_ready = False,
      ts_task = \<lparr>tk_goal = None, tk_constraints = []\<rparr>,
      ts_evidence = \<lparr>es_items = [], es_conditions = [], es_stale = {}\<rparr>,
      ts_workspace = \<lparr>ws_repository = None, ws_worktree = None, ws_touched = {}, ws_edits = {},
        ws_checkpoint = None\<rparr>,
      ts_execution = \<lparr>ex_plan = None, ex_answer = None, ex_active_items = {}, ex_completed = {},
        ex_outcomes = [], ex_failures = [], ex_validation = ValidationUnknown\<rparr>,
      ts_supervision = \<lparr>su_interventions = []\<rparr>,
      ts_coverage = \<lparr>cv_history = HistoryUnknown, cv_gaps = [], cv_unknown = 0,
        cv_trustworthy = None, cv_complete_since = None, cv_inconsistencies = []\<rparr>\<rparr>"

text \<open>
  The \<open>thread_id\<close> property asserts that the identity has a thread; every state the reducer
  builds has one, so the other branch is never read.
\<close>

definition thread_id_of :: "thread_state \<Rightarrow> thread_id" where
  "thread_id_of s = (case ri_thread (ts_identity s) of Some t \<Rightarrow> t | None \<Rightarrow> ThreadId [])"

section \<open>Reading payload values\<close>

definition optional_text :: "pyval \<Rightarrow> string option" where
  "optional_text v = (case v of PStr s \<Rightarrow> if strip s \<noteq> [] then Some (strip s) else None | _ \<Rightarrow> None)"

definition number :: "pyval \<Rightarrow> float64 option result" where
  "number v = (case v of
     PInt i \<Rightarrow> rbind (float_of_int i) (\<lambda>x. Inr (Some x))
   | PFloat x \<Rightarrow> Inr (Some x)
   | _ \<Rightarrow> Inr None)"

definition string_tuple :: "pyval \<Rightarrow> string list" where
  "string_tuple v = (case v of PList xs \<Rightarrow> strings_of xs | _ \<Rightarrow> [])"

definition nonempty :: "string option \<Rightarrow> string option" where
  "nonempty v = (case v of Some s \<Rightarrow> if s = [] then None else Some s | None \<Rightarrow> None)"

definition opt_or :: "'a option \<Rightarrow> 'a option \<Rightarrow> 'a option" where
  "opt_or a b = (case a of Some x \<Rightarrow> Some x | None \<Rightarrow> b)"

text \<open>The \<open>part["text"]\<close> of the mapping parts of a content list whose text is a string.\<close>

definition part_texts :: "string \<Rightarrow> pyval list \<Rightarrow> string list" where
  "part_texts key parts = List.map_filter (\<lambda>part. case part of
     PDict d \<Rightarrow> as_str (get d key) | _ \<Rightarrow> None) parts"

definition user_text :: "payload \<Rightarrow> string option" where
  "user_text p =
     (case optional_text (get p ''prompt'') of
        Some prompt \<Rightarrow> Some prompt
      | None \<Rightarrow>
          (case get p ''content'' of
             PList parts \<Rightarrow> nonempty (Some (join [newline] (part_texts ''text'' parts)))
           | _ \<Rightarrow> None))"

fun summary_fields :: "payload \<Rightarrow> string list \<Rightarrow> string option" where
  "summary_fields p [] = None"
| "summary_fields p (key # keys) =
     (case get p key of
        PStr s \<Rightarrow> if strip s \<noteq> [] then Some (strip s) else summary_fields p keys
      | PList xs \<Rightarrow>
          let text = join [newline] (filter (\<lambda>s. strip s \<noteq> []) (strings_of xs))
          in if text \<noteq> [] then Some text else summary_fields p keys
      | _ \<Rightarrow> summary_fields p keys)"

definition summary_text :: "payload \<Rightarrow> string option" where
  "summary_text p =
     (case summary_fields p [''text'', ''summary'', ''explanation''] of
        Some text \<Rightarrow> Some text
      | None \<Rightarrow>
          (case get p ''steps'' of
             PList steps \<Rightarrow>
               nonempty (Some (join [newline] (filter (\<lambda>s. s \<noteq> []) (part_texts ''step'' steps))))
           | _ \<Rightarrow> None))"

definition detail :: "payload \<Rightarrow> string \<Rightarrow> string option" where
  "detail p key = (case get p key of
     PStr s \<Rightarrow> Some (key @ ''='' @ s)
   | PInt i \<Rightarrow> Some (key @ ''='' @ dec_int i)
   | PBool b \<Rightarrow> Some (key @ ''='' @ (if b then ''True'' else ''False''))
   | _ \<Rightarrow> None)"

definition outcome_text :: "trace_event \<Rightarrow> string" where
  "outcome_text e =
     (let p = ev_payload e;
          details = List.map_filter (detail p)
            [''command'', ''tool'', ''status'', ''exitCode'', ''exit_code'', ''success'', ''rule''];
          details = (case py_or (get p ''text'') (get p ''diff'') of
            PStr s \<Rightarrow> if s \<noteq> [] then details @ [s] else details | _ \<Rightarrow> details)
      in if details \<noteq> [] then ev_kind e @ '': '' @ join '' '' details else ev_kind e)"

definition failed :: "payload \<Rightarrow> bool" where
  "failed p = (outcome_failure p = Some True)"

definition validation_of :: "payload \<Rightarrow> validation_status" where
  "validation_of p = (case outcome_failure p of
     Some True \<Rightarrow> ValidationFailed | Some False \<Rightarrow> ValidationPassed | None \<Rightarrow> ValidationUnknown)"

definition unsafe_path :: "string \<Rightarrow> bool" where
  "unsafe_path s =
     (s = [] \<or> startswith s ''/'' \<or> startswith s ''~'' \<or> startswith s ''../''
      \<or> contains ''://'' s \<or> ''..'' \<in> set (split_on (CHR ''/'') s)
      \<or> \<not> path_chars_fullmatch s)"

definition validation_scopes :: "payload \<Rightarrow> string list" where
  "validation_scopes p =
     (case get p ''validated_paths'' of
        PList raw \<Rightarrow>
          if length raw > validation_scope_limit then []
          else sorted_set (filter (\<lambda>s. \<not> unsafe_path s)
                 (map (\<lambda>s. rstrip_when (\<lambda>c. c = CHR ''/'') (removeprefix (strip s) ''./''))
                    (strings_of raw)))
      | _ \<Rightarrow> [])"

definition within_scope :: "string \<Rightarrow> string \<Rightarrow> bool" where
  "within_scope path scope = (path = scope \<or> startswith path (scope @ ''/''))"

section \<open>State updates\<close>

definition provenance_of :: "thread_id \<Rightarrow> trace_event \<Rightarrow> state_provenance" where
  "provenance_of tid e =
     \<lparr>sp_event = ev_id e, sp_created = ev_at e, sp_thread = tid,
      sp_turn = Option.bind (ev_identity e) ri_turn, sp_epoch = ev_epoch e,
      sp_source = map_option tp_source (ev_provenance e), sp_config = ev_config e\<rparr>"

definition item :: "string \<Rightarrow> item_kind \<Rightarrow> string \<Rightarrow> state_provenance \<Rightarrow> state_item" where
  "item i k text prov = \<lparr>si_id = i, si_kind = k, si_text = text, si_provenance = prov,
     si_status = ItemActive, si_confidence = None, si_depends = [], si_evidence = []\<rparr>"

definition bounded :: "state_item list \<Rightarrow> state_item list" where
  "bounded items = take_last recent_limit items"

definition inconsistent :: "thread_state \<Rightarrow> string \<Rightarrow> thread_state" where
  "inconsistent s message =
     (if message \<in> set (cv_inconsistencies (ts_coverage s)) then s
      else s\<lparr>ts_coverage := (ts_coverage s)\<lparr>cv_history := HistoryPartial,
        cv_inconsistencies := cv_inconsistencies (ts_coverage s) @ [message]\<rparr>\<rparr>)"

definition observed_files :: "payload \<Rightarrow> string set" where
  "observed_files p = (case get p ''files'' of PList xs \<Rightarrow> set (strings_of xs) | _ \<Rightarrow> {})"

definition workspace_update :: "workspace_state \<Rightarrow> trace_event \<Rightarrow> string set \<Rightarrow> workspace_state" where
  "workspace_update w e edits =
     (let p = ev_payload e; observed = observed_files p;
          edits = (if ev_kind e \<in> {''file_edit'', ''diff_updated''} then edits \<union> observed else edits)
      in w\<lparr>ws_repository := opt_or (optional_text (get p ''repository'')) (ws_repository w),
           ws_worktree := opt_or (optional_text (get p ''worktree''))
             (opt_or (optional_text (get p ''cwd'')) (ws_worktree w)),
           ws_touched := ws_touched w \<union> observed,
           ws_edits := edits,
           ws_checkpoint := opt_or (optional_text (get p ''checkpoint'')) (ws_checkpoint w)\<rparr>)"

definition live_observation :: "string \<Rightarrow> state_item \<Rightarrow> bool" where
  "live_observation evidence_id x \<longleftrightarrow>
     si_id x = evidence_id \<and> si_kind x = Observation \<and> si_status x = ItemActive"

definition satisfy_condition ::
    "thread_state \<Rightarrow> trace_event \<Rightarrow> state_provenance \<Rightarrow> string \<Rightarrow> thread_state" where
  "satisfy_condition s e prov item_id =
     (case (optional_text (get (ev_payload e) ''condition_id''),
            optional_text (get (ev_payload e) ''evidence_id'')) of
        (Some cid, Some eid) \<Rightarrow>
          let ev = ts_evidence s in
          if find (live_observation eid) (es_items ev) = None
          then inconsistent s (''unknown_verification_evidence:'' @ eid)
          else if \<not> list_ex (\<lambda>c. vc_id c = cid) (es_conditions ev)
          then inconsistent s (''unknown_verification_condition:'' @ cid)
          else
            let conditions = map (\<lambda>c. if vc_id c = cid
                  then c\<lparr>vc_status := Satisfied,
                         vc_satisfied_by := dedup (vc_satisfied_by c @ [eid])\<rparr>
                  else c) (es_conditions ev);
                text = (case optional_text (get (ev_payload e) ''text'') of
                  Some t \<Rightarrow> t | None \<Rightarrow> cid);
                fact = (item item_id VerifiedFact text prov)\<lparr>si_evidence := [eid]\<rparr>
            in s\<lparr>ts_evidence := ev\<lparr>es_items := es_items ev @ [fact], es_conditions := conditions\<rparr>\<rparr>
      | _ \<Rightarrow> inconsistent s ''verification_satisfied_without_identity'')"

subsection \<open>Invalidation\<close>

text \<open>One pass of the inner loop over the evidence items, adding identifiers as it goes.\<close>

definition depends_on_stale :: "string set \<Rightarrow> state_item \<Rightarrow> bool" where
  "depends_on_stale ids x \<longleftrightarrow> list_ex (\<lambda>i. i \<in> ids) (si_evidence x) \<or> list_ex (\<lambda>i. i \<in> ids) (si_depends x)"

fun stale_pass :: "state_item list \<Rightarrow> string set \<Rightarrow> string set" where
  "stale_pass [] ids = ids"
| "stale_pass (x # xs) ids =
     (if si_id x \<notin> ids \<and> depends_on_stale ids x then stale_pass xs (insert (si_id x) ids)
      else stale_pass xs ids)"

lemma stale_pass_incr: "ids \<subseteq> stale_pass items ids"
  by (induction items ids rule: stale_pass.induct) auto

lemma stale_pass_bound: "stale_pass items ids \<subseteq> ids \<union> si_id ` set items"
  by (induction items ids rule: stale_pass.induct) auto

text \<open>The \<open>while changed\<close> loop: another pass as long as the last one added an identifier.\<close>

function stale_closure :: "state_item list \<Rightarrow> string set \<Rightarrow> string set" where
  "stale_closure items ids =
     (let ids' = stale_pass items ids in if ids' = ids then ids else stale_closure items ids')"
  by pat_completeness auto
termination
proof (relation "measure (\<lambda>(items, ids). card (si_id ` set items - ids))", goal_cases)
  case (2 items ids ids')
  have "si_id ` set items - stale_pass items ids \<subset> si_id ` set items - ids"
    using 2 stale_pass_incr [of ids items] stale_pass_bound [of items ids] by blast
  then show ?case
    using 2 by (auto intro!: psubset_card_mono)
qed simp

declare stale_closure.simps [simp del]

definition invalidate_evidence :: "thread_state \<Rightarrow> pyval \<Rightarrow> thread_state" where
  "invalidate_evidence s raw =
     (case optional_text raw of
        None \<Rightarrow> inconsistent s ''evidence_invalidated_without_identity''
      | Some eid \<Rightarrow>
          let ev = ts_evidence s in
          if \<not> list_ex (\<lambda>x. si_id x = eid) (es_items ev)
          then inconsistent s (''unknown_evidence:'' @ eid)
          else
            let stale = stale_closure (es_items ev) {eid};
                items = map (\<lambda>x. if si_id x \<in> stale then x\<lparr>si_status := ItemStale\<rparr> else x) (es_items ev);
                conditions = map (\<lambda>c. if list_ex (\<lambda>i. i \<in> stale) (vc_satisfied_by c)
                  then c\<lparr>vc_status := Invalidated\<rparr> else c) (es_conditions ev);
                hypotheses = set (map si_id (filter (\<lambda>x. si_kind x = Hypothesis \<and> si_status x = ItemStale) items))
            in s\<lparr>ts_evidence := ev\<lparr>es_items := items, es_conditions := conditions,
                                  es_stale := es_stale ev \<union> hypotheses\<rparr>\<rparr>)"

section \<open>The reducer\<close>

definition terminal_kinds :: "string set" where
  "terminal_kinds = {''thread_archived'', ''thread_closed'', ''thread_deleted''}"

definition lifecycle :: "thread_state \<Rightarrow> trace_event \<Rightarrow> thread_state" where
  "lifecycle s e =
     (let turn = Option.bind (ev_identity e) ri_turn; x = ts_execution s in
      if ev_kind e = ''turn_started'' \<and> turn \<noteq> None then
        (case turn of None \<Rightarrow> s | Some t \<Rightarrow>
           if t \<in> ex_completed x
           then inconsistent s (''late_start_for_completed_turn:'' @ turn_value t)
           else
             let s1 = (case ts_active_turn s of
                   Some a \<Rightarrow> if a \<noteq> t
                     then inconsistent s (''turn_started_while_active:'' @ turn_value a @ '':'' @ turn_value t)
                     else s
                 | None \<Rightarrow> s);
                 answer = (case ex_answer x of
                   Some y \<Rightarrow> if sp_turn (si_provenance y) \<noteq> Some t then None else Some y
                 | None \<Rightarrow> None)
             in s1\<lparr>ts_active_turn := Some t, ts_execution := (ts_execution s1)\<lparr>ex_answer := answer\<rparr>\<rparr>)
      else if ev_kind e = ''turn_completed'' \<and> turn \<noteq> None then
        (case turn of None \<Rightarrow> s | Some t \<Rightarrow>
           let s1 = (if ts_active_turn s \<noteq> Some t
                     then inconsistent s (''turn_completed_without_start:'' @ turn_value t) else s)
           in s1\<lparr>ts_active_turn := None, ts_control_ready := False,
                 ts_execution := (ts_execution s1)\<lparr>ex_active_items := {},
                   ex_completed := insert t (ex_completed (ts_execution s1))\<rparr>\<rparr>)
      else if ev_kind e \<in> terminal_kinds then
        s\<lparr>ts_active_turn := None, ts_control_ready := False\<rparr>
      else if ev_kind e = ''runtime_attachment_unavailable'' then
        s\<lparr>ts_active_turn := None, ts_capabilities := [], ts_control_ready := False\<rparr>
      else if ev_kind e = ''runtime_reconciled'' then
        (let active = (case get (ev_payload e) ''active_turn'' of
               PBool b \<Rightarrow> if b then turn else None
             | _ \<Rightarrow> ts_active_turn s)
         in s\<lparr>ts_capabilities := (case get (ev_payload e) ''capabilities'' of
                   PList xs \<Rightarrow> sort (strings_of xs) | _ \<Rightarrow> ts_capabilities s),
              ts_active_turn := active, ts_control_ready := (active \<noteq> None)\<rparr>)
      else s)"

definition add_intervention :: "thread_state \<Rightarrow> state_item \<Rightarrow> thread_state" where
  "add_intervention s x =
     s\<lparr>ts_supervision := (ts_supervision s)\<lparr>su_interventions :=
        bounded (su_interventions (ts_supervision s) @ [x])\<rparr>\<rparr>"

text \<open>
  The branches of \<open>_semantic\<close>, one definition per event family; a branch that finds nothing
  to record returns \<open>None\<close> and the code falls through to the tool lifecycle below it.
\<close>

definition semantic_prompt ::
    "thread_state \<Rightarrow> trace_event \<Rightarrow> state_provenance \<Rightarrow> string \<Rightarrow> thread_state option" where
  "semantic_prompt s e prov item_id =
     (if ev_kind e \<noteq> ''user_prompt'' then None
      else if get (ev_payload e) ''input_origin'' = PStr ''spotter_supervision'' then
        (case nonempty (user_text (ev_payload e)) of
           None \<Rightarrow> Some s
         | Some text \<Rightarrow> Some (add_intervention s (item item_id Intervention text prov)))
      else
        (case nonempty (user_text (ev_payload e)) of
           None \<Rightarrow> None
         | Some text \<Rightarrow>
             let ev = ts_evidence s;
                 ev' = (case tk_goal (ts_task s) of
                   None \<Rightarrow> ev
                 | Some previous \<Rightarrow> ev\<lparr>es_items := es_items ev @ [previous\<lparr>si_status := ItemSuperseded\<rparr>]\<rparr>)
             in Some (s\<lparr>ts_task := (ts_task s)\<lparr>tk_goal := Some (item item_id Goal text prov)\<rparr>,
                       ts_evidence := ev'\<rparr>)))"

definition semantic_hypothesis ::
    "thread_state \<Rightarrow> trace_event \<Rightarrow> state_provenance \<Rightarrow> string \<Rightarrow> thread_state option" where
  "semantic_hypothesis s e prov item_id =
     (if ev_kind e \<notin> {''reasoning_summary'', ''hypothesis''} then None
      else (case summary_text (ev_payload e) of
        None \<Rightarrow> None
      | Some text \<Rightarrow>
          let ev = ts_evidence s;
              depends = string_tuple (get (ev_payload e) ''depends_on'');
              evidence = string_tuple (get (ev_payload e) ''evidence_ids'');
              is_stale = list_ex (\<lambda>i. i \<in> es_stale ev) (depends @ evidence);
              h = (item item_id Hypothesis text prov)
                    \<lparr>si_status := (if is_stale then ItemStale else ItemActive),
                     si_depends := depends, si_evidence := evidence\<rparr>
          in Some (s\<lparr>ts_evidence := ev\<lparr>es_items := es_items ev @ [h],
                es_stale := (if is_stale then insert item_id (es_stale ev) else es_stale ev)\<rparr>\<rparr>)))"

definition semantic_notes ::
    "thread_state \<Rightarrow> trace_event \<Rightarrow> state_provenance \<Rightarrow> string \<Rightarrow> thread_state option" where
  "semantic_notes s e prov item_id =
     (let p = ev_payload e in
      if ev_kind e = ''constraint'' then
        map_option (\<lambda>text. s\<lparr>ts_task := (ts_task s)\<lparr>tk_constraints :=
             tk_constraints (ts_task s) @ [item item_id Constraint text prov]\<rparr>\<rparr>)
          (optional_text (get p ''text''))
      else if ev_kind e = ''plan'' then
        map_option (\<lambda>text. s\<lparr>ts_execution := (ts_execution s)\<lparr>ex_plan :=
             Some (item item_id Summary text prov)\<rparr>\<rparr>)
          (summary_text p)
      else if ev_kind e = ''agent_message'' \<and> get p ''phase'' = PStr ''final_answer''
           \<and> get p ''lifecycle'' = PStr ''completed'' then
        map_option (\<lambda>text. s\<lparr>ts_execution := (ts_execution s)\<lparr>ex_answer :=
             Some (item item_id Summary text prov)\<rparr>\<rparr>)
          (optional_text (get p ''text''))
      else None)"

definition semantic_condition ::
    "thread_state \<Rightarrow> trace_event \<Rightarrow> state_provenance \<Rightarrow> thread_state option" where
  "semantic_condition s e prov =
     (if ev_kind e \<noteq> ''verification_condition'' then None
      else
        (let p = ev_payload e in
         case (optional_text (get p ''condition_id''), optional_text (get p ''kind'')) of
           (Some cid, Some k) \<Rightarrow>
             (let c = \<lparr>vc_id = cid, vc_kind = k, vc_scope = optional_text (get p ''scope''),
                     vc_required = string_tuple (get p ''required_evidence''), vc_status = Unmet,
                     vc_satisfied_by = [],
                     vc_created_from = (case optional_text (get p ''created_from'') of
                       Some t \<Rightarrow> t | None \<Rightarrow> ''unknown''),
                     vc_provenance = prov\<rparr>;
                  ev = ts_evidence s
              in case find (\<lambda>x. vc_id x = cid) (es_conditions ev) of
                   Some existing \<Rightarrow>
                     Some (if existing = c then s
                           else inconsistent s (''conflicting_verification_condition:'' @ cid))
                 | None \<Rightarrow> Some (s\<lparr>ts_evidence := ev\<lparr>es_conditions := es_conditions ev @ [c]\<rparr>\<rparr>))
         | _ \<Rightarrow> None))"

definition started_kinds :: "string set" where
  "started_kinds = {''command_started'', ''tool_started'', ''file_change_started''}"

definition outcome_kinds :: "string set" where
  "outcome_kinds = {''command_result'', ''tool_result'', ''file_edit'', ''diff_updated'',
     ''search'', ''test_result''}"

definition semantic_outcome ::
    "thread_state \<Rightarrow> trace_event \<Rightarrow> state_provenance \<Rightarrow> string \<Rightarrow> string option \<Rightarrow> thread_state" where
  "semantic_outcome s e prov item_id op =
     (let p = ev_payload e; x = ts_execution s; ev = ts_evidence s;
          observation = item item_id Observation (outcome_text e) prov;
          active = (case op of Some i \<Rightarrow> ex_active_items x - {i} | None \<Rightarrow> ex_active_items x);
          outcomes = bounded (ex_outcomes x @ [observation]);
          failures = (if failed p then bounded (ex_failures x @ [observation]) else ex_failures x);
          edits = ws_edits (ts_workspace s);
          validation0 = (if ev_kind e \<in> {''file_edit'', ''diff_updated''}
                            \<and> ex_validation x = ValidationPassed
                         then ValidationStale else ex_validation x);
          validation = (if ev_kind e = ''test_result'' then validation_of p else validation0);
          edits' = (if ev_kind e = ''test_result'' \<and> validation = ValidationPassed
                    then {path \<in> edits. \<not> list_ex (within_scope path) (validation_scopes p)}
                    else edits)
      in s\<lparr>ts_evidence := ev\<lparr>es_items := es_items ev @ [observation]\<rparr>,
           ts_workspace := workspace_update (ts_workspace s) e edits',
           ts_execution := x\<lparr>ex_active_items := active, ex_outcomes := outcomes,
             ex_failures := failures, ex_validation := validation\<rparr>\<rparr>)"

definition item_id_of :: "thread_state \<Rightarrow> trace_event \<Rightarrow> string" where
  "item_id_of s e = (case nonempty (ev_id e) of
     Some i \<Rightarrow> i | None \<Rightarrow> ''arrival:'' @ dec_int (ts_last_seq s))"

definition semantic :: "thread_state \<Rightarrow> trace_event \<Rightarrow> thread_state" where
  "semantic s0 e =
     (let prov = provenance_of (thread_id_of s0) e; item_id = item_id_of s0 e;
          s = s0\<lparr>ts_workspace := workspace_update (ts_workspace s0) e (ws_edits (ts_workspace s0))\<rparr>
      in case semantic_prompt s e prov item_id of Some s' \<Rightarrow> s' | None \<Rightarrow>
        (case semantic_hypothesis s e prov item_id of Some s' \<Rightarrow> s' | None \<Rightarrow>
        (case semantic_notes s e prov item_id of Some s' \<Rightarrow> s' | None \<Rightarrow>
        (case semantic_condition s e prov of Some s' \<Rightarrow> s' | None \<Rightarrow>
         if ev_kind e = ''verification_satisfied'' then satisfy_condition s e prov item_id
         else if ev_kind e = ''evidence_invalidated''
         then invalidate_evidence s (get (ev_payload e) ''evidence_id'')
         else
           (let op = opt_or (nonempty (ev_operation e)) (nonempty (ev_item e)) in
            if ev_kind e \<in> started_kinds then
              s\<lparr>ts_execution := (ts_execution s)\<lparr>ex_active_items :=
                 (case op of Some i \<Rightarrow> insert i (ex_active_items (ts_execution s))
                  | None \<Rightarrow> ex_active_items (ts_execution s))\<rparr>\<rparr>
            else if ev_kind e \<in> outcome_kinds then semantic_outcome s e prov item_id op
            else if ev_kind e \<in> {''reviewer_decision'', ''intervention'', ''gate_block''}
            then add_intervention s (item item_id Intervention (outcome_text e) prov)
            else s)))))"

definition out_of_order :: "trace_event \<Rightarrow> bool" where
  "out_of_order e = (get (ev_payload e) ''out_of_order'' = PBool True)"

definition coverage :: "thread_state \<Rightarrow> trace_event \<Rightarrow> thread_state result" where
  "coverage s e =
     (let p = ev_payload e; cov = ts_coverage s in
      if ev_kind e = ''observation_gap'' then
        rbind (number (get p ''started_at'')) (\<lambda>started.
        rbind (number (get p ''ended_at'')) (\<lambda>ended.
          let gap = \<lparr>og_started = started, og_ended = ended,
                     og_epoch_before = as_int (get p ''epoch_before''),
                     og_epoch_after = as_int (get p ''epoch_after''),
                     og_backfill = (case optional_text (get p ''backfill_status'') of
                       Some t \<Rightarrow> t | None \<Rightarrow> ''none''),
                     og_source = ev_id e\<rparr>
          in Inr (s\<lparr>ts_control_ready := False,
                    ts_coverage := cov\<lparr>cv_history := HistoryPartial, cv_gaps := cv_gaps cov @ [gap]\<rparr>\<rparr>)))
      else
        let cov1 = (if ev_kind e = ''runtime_event_unknown''
                    then cov\<lparr>cv_unknown := Suc (cv_unknown cov)\<rparr> else cov);
            (s2, cov2) = (if out_of_order e
              then (let s' = inconsistent s (''out_of_order:'' @ (case nonempty (ev_id e) of
                          Some i \<Rightarrow> i | None \<Rightarrow> dec_int (ts_last_seq s)))
                    in (s', ts_coverage s'))
              else (s, cov1));
            cov3 = (if ev_kind e = ''thread_started'' \<and> cv_history cov2 = HistoryUnknown
                    then (ts_coverage s2)\<lparr>cv_history := HistoryComplete, cv_complete_since := ev_at e\<rparr>
                    else cov2);
            cov4 = (if ev_id e \<noteq> None \<and> \<not> out_of_order e
                    then cov3\<lparr>cv_trustworthy := ev_id e\<rparr> else cov3)
        in Inr (s2\<lparr>ts_coverage := cov4\<rparr>))"

definition begin_reduce :: "thread_state \<Rightarrow> runtime_identity \<Rightarrow> trace_event \<Rightarrow> int \<Rightarrow> thread_state" where
  "begin_reduce current identity e seq =
     (let epoch_changed = (ev_epoch e \<noteq> None \<and> ts_epoch current \<noteq> None \<and> ev_epoch e \<noteq> ts_epoch current)
      in current\<lparr>ts_identity := identity, ts_version := ts_version current + 1,
           ts_last_event := ev_id e, ts_last_seq := seq,
           ts_epoch := opt_or (ev_epoch e) (ts_epoch current),
           ts_active_turn := (if epoch_changed then None else ts_active_turn current),
           ts_control_ready := (if epoch_changed then False else ts_control_ready current)\<rparr>)"

definition reduce :: "thread_state option \<Rightarrow> trace_event \<Rightarrow> int \<Rightarrow> thread_state result" where
  "reduce state e seq =
     (case ev_identity e of
        None \<Rightarrow> Inl (ThreadStateError ''Trace event has no logical thread identity'')
      | Some identity \<Rightarrow>
          if ri_thread identity = None
          then Inl (ThreadStateError ''Trace event has no logical thread identity'')
          else if (case state of Some s \<Rightarrow> ri_thread (ts_identity s) \<noteq> ri_thread identity | None \<Rightarrow> False)
          then Inl (ThreadStateError ''Trace event belongs to another thread'')
          else if seq \<le> 0 \<or> (case state of Some s \<Rightarrow> seq \<le> ts_last_seq s | None \<Rightarrow> False)
          then Inl (ThreadStateError ''arrival sequence must increase monotonically'')
          else
            let current = (case state of Some s \<Rightarrow> s | None \<Rightarrow> initial_state identity)
            in coverage (semantic (lifecycle (begin_reduce current identity e seq) e) e) e)"

section \<open>The store\<close>

record step_record =
  sr_step :: int
  sr_event :: trace_event
  sr_snapshot :: "string option"
  sr_at :: "float64 option"
  sr_version :: int

record store =
  st_states :: "(thread_id, thread_state) dict"
  st_seen :: "(thread_id, string set) dict"
  st_seq :: int

definition empty_store :: store where
  "empty_store = \<lparr>st_states = [], st_seen = [], st_seq = 0\<rparr>"

definition snapshot :: "store \<Rightarrow> thread_id \<Rightarrow> thread_state result" where
  "snapshot st tid = (case dget (st_states st) tid of
     Some s \<Rightarrow> Inr s
   | None \<Rightarrow> Inl (ThreadStateError (''unknown thread: '' @ thread_value tid)))"

definition snapshots :: "store \<Rightarrow> thread_state list" where
  "snapshots st = dvalues (st_states st)"

definition event_thread :: "trace_event \<Rightarrow> thread_id option" where
  "event_thread e = Option.bind (ev_identity e) ri_thread"

text \<open>
  The new store is returned beside the result: an event the reducer rejects has already
  consumed an arrival number and created the thread's set of seen identifiers.
\<close>

definition observe :: "store \<Rightarrow> trace_event \<Rightarrow> store \<times> thread_state result" where
  "observe st e =
     (case event_thread e of
        None \<Rightarrow> (st, Inl (ThreadStateError ''Trace event has no logical thread identity''))
      | Some tid \<Rightarrow>
          let seen = (case dget (st_seen st) tid of Some ids \<Rightarrow> ids | None \<Rightarrow> {});
              st1 = (case dget (st_seen st) tid of
                Some _ \<Rightarrow> st | None \<Rightarrow> st\<lparr>st_seen := dset tid {} (st_seen st)\<rparr>)
          in if (case ev_id e of Some i \<Rightarrow> i \<in> seen | None \<Rightarrow> False)
             then (st1, snapshot st1 tid)
             else
               let st2 = st1\<lparr>st_seq := st_seq st1 + 1\<rparr> in
               case reduce (dget (st_states st2) tid) e (st_seq st2) of
                 Inl err \<Rightarrow> (st2, Inl err)
               | Inr s \<Rightarrow>
                   let st3 = st2\<lparr>st_states := dset tid s (st_states st2)\<rparr>
                   in ((case ev_id e of
                          Some i \<Rightarrow> st3\<lparr>st_seen := dset tid (insert i seen) (st_seen st3)\<rparr>
                        | None \<Rightarrow> st3), Inr s))"

fun replay_events :: "store \<Rightarrow> trace_event list \<Rightarrow> store \<times> unit result" where
  "replay_events st [] = (st, Inr ())"
| "replay_events st (e # es) =
     (case observe st e of
        (st', Inl err) \<Rightarrow> (st', Inl err)
      | (st', Inr _) \<Rightarrow> replay_events st' es)"

definition replay :: "store \<Rightarrow> trace_event list \<Rightarrow> store \<times> thread_state list result" where
  "replay st es = (case replay_events st es of (st', r) \<Rightarrow> (st', rbind r (\<lambda>_. Inr (snapshots st'))))"

definition dormant :: "thread_state \<Rightarrow> thread_state" where
  "dormant s = s\<lparr>ts_active_turn := None, ts_control_ready := False\<rparr>"

definition hydrate :: "store \<Rightarrow> step_record list \<Rightarrow> store \<times> thread_state list result" where
  "hydrate st records =
     (case replay_events st (filter (\<lambda>e. event_thread e \<noteq> None) (map sr_event records)) of
        (st', Inl err) \<Rightarrow> (st', Inl err)
      | (st', Inr _) \<Rightarrow>
          let st'' = st'\<lparr>st_states := map (\<lambda>(tid, s). (tid, dormant s)) (st_states st')\<rparr>
          in (st'', Inr (snapshots st'')))"

section \<open>Frame facts\<close>

text \<open>What each stage of a reduction leaves alone, collected for the invariant proofs.\<close>

named_theorems frame \<open>fields a stage of the reducer does not write\<close>

lemma inconsistent_frame [frame]:
  "ts_identity (inconsistent s m) = ts_identity s" "ts_version (inconsistent s m) = ts_version s"
  "ts_last_event (inconsistent s m) = ts_last_event s" "ts_last_seq (inconsistent s m) = ts_last_seq s"
  "ts_epoch (inconsistent s m) = ts_epoch s" "ts_active_turn (inconsistent s m) = ts_active_turn s"
  "ts_control_ready (inconsistent s m) = ts_control_ready s" "ts_task (inconsistent s m) = ts_task s"
  "ts_evidence (inconsistent s m) = ts_evidence s" "ts_workspace (inconsistent s m) = ts_workspace s"
  "ts_execution (inconsistent s m) = ts_execution s"
  "ts_supervision (inconsistent s m) = ts_supervision s"
  "ts_capabilities (inconsistent s m) = ts_capabilities s"
  by (simp_all add: inconsistent_def)

text \<open>The control fields: everything but the semantic substates.\<close>

definition control_view :: "thread_state \<Rightarrow>
    runtime_identity \<times> nat \<times> string option \<times> int \<times> int option \<times> turn_id option \<times> string list \<times> bool" where
  "control_view s = (ts_identity s, ts_version s, ts_last_event s, ts_last_seq s, ts_epoch s,
     ts_active_turn s, ts_capabilities s, ts_control_ready s)"

lemma satisfy_condition_control: "control_view (satisfy_condition s e prov i) = control_view s"
  by (simp add: satisfy_condition_def control_view_def Let_def frame split: option.split)

lemma invalidate_evidence_control: "control_view (invalidate_evidence s v) = control_view s"
  by (simp add: invalidate_evidence_def control_view_def Let_def frame split: option.split)

lemma semantic_branch_control:
  "semantic_prompt s e prov i = Some s' \<Longrightarrow> control_view s' = control_view s"
  "semantic_hypothesis s e prov i = Some s' \<Longrightarrow> control_view s' = control_view s"
  "semantic_notes s e prov i = Some s' \<Longrightarrow> control_view s' = control_view s"
  "semantic_condition s e prov = Some s' \<Longrightarrow> control_view s' = control_view s"
  by (auto simp: semantic_prompt_def semantic_hypothesis_def semantic_notes_def
      semantic_condition_def control_view_def add_intervention_def Let_def frame
      split: if_splits option.splits)

lemma semantic_outcome_control: "control_view (semantic_outcome s e prov i op) = control_view s"
  by (simp add: semantic_outcome_def control_view_def Let_def)

lemma workspace_control: "control_view (s\<lparr>ts_workspace := w\<rparr>) = control_view s"
  by (simp add: control_view_def)

lemma execution_control: "control_view (s\<lparr>ts_execution := w\<rparr>) = control_view s"
  by (simp add: control_view_def)

lemma add_intervention_control: "control_view (add_intervention s x) = control_view s"
  by (simp add: control_view_def add_intervention_def)

lemmas control_frame = satisfy_condition_control invalidate_evidence_control
  semantic_outcome_control workspace_control execution_control add_intervention_control

lemma semantic_control: "control_view (semantic s e) = control_view s"
  by (auto simp: semantic_def Let_def control_frame split: option.split
      dest: semantic_branch_control)

end
