(* ===== verification/Thread_Invariants.thy ===== *)
theory Thread_Invariants
  imports Thread_State
begin

text \<open>
  What holds of every state the reducer of \<open>Thread_State\<close> can build: the supervision
  invariant, the exact effect of invalidating evidence, and the laws of the store
  (deduplication, isolation of threads, hydration).
\<close>

section \<open>The supervision invariant\<close>

definition control_ok :: "thread_state \<Rightarrow> bool" where
  "control_ok s \<longleftrightarrow> (ts_control_ready s \<longrightarrow> ts_active_turn s \<noteq> None)"

definition windows_ok :: "thread_state \<Rightarrow> bool" where
  "windows_ok s \<longleftrightarrow> length (ex_outcomes (ts_execution s)) \<le> recent_limit
     \<and> length (ex_failures (ts_execution s)) \<le> recent_limit
     \<and> length (su_interventions (ts_supervision s)) \<le> recent_limit"

definition workspace_ok :: "thread_state \<Rightarrow> bool" where
  "workspace_ok s \<longleftrightarrow> ws_edits (ts_workspace s) \<subseteq> ws_touched (ts_workspace s)
     \<and> finite (ws_touched (ts_workspace s))"

definition stale_hypotheses :: "state_item list \<Rightarrow> string set" where
  "stale_hypotheses items = {si_id x | x. x \<in> set items \<and> si_kind x = Hypothesis \<and> si_status x = ItemStale}"

definition stale_ok :: "thread_state \<Rightarrow> bool" where
  "stale_ok s \<longleftrightarrow> es_stale (ts_evidence s) = stale_hypotheses (es_items (ts_evidence s))"

definition coverage_ok :: "thread_state \<Rightarrow> bool" where
  "coverage_ok s \<longleftrightarrow>
     (cv_gaps (ts_coverage s) \<noteq> [] \<or> cv_inconsistencies (ts_coverage s) \<noteq> []
       \<longrightarrow> cv_history (ts_coverage s) = HistoryPartial)"

definition goal_ok :: "thread_state \<Rightarrow> bool" where
  "goal_ok s \<longleftrightarrow> (case tk_goal (ts_task s) of Some g \<Rightarrow> si_kind g = Goal \<and> si_status g = ItemActive | None \<Rightarrow> True)"

definition state_inv :: "thread_state \<Rightarrow> bool" where
  "state_inv s \<longleftrightarrow> control_ok s \<and> windows_ok s \<and> workspace_ok s \<and> stale_ok s \<and> coverage_ok s \<and> goal_ok s"

lemmas state_inv_defs = state_inv_def control_ok_def windows_ok_def workspace_ok_def stale_ok_def
  coverage_ok_def goal_ok_def

lemma stale_hypotheses_simps [simp]:
  "stale_hypotheses [] = {}"
  "stale_hypotheses (xs @ ys) = stale_hypotheses xs \<union> stale_hypotheses ys"
  "stale_hypotheses (x # xs) =
     (if si_kind x = Hypothesis \<and> si_status x = ItemStale then {si_id x} else {}) \<union> stale_hypotheses xs"
  by (auto simp: stale_hypotheses_def)

lemma item_simps [simp]:
  "si_id (item i k t p) = i" "si_kind (item i k t p) = k" "si_status (item i k t p) = ItemActive"
  "si_provenance (item i k t p) = p" "si_text (item i k t p) = t"
  "si_depends (item i k t p) = []" "si_evidence (item i k t p) = []"
  by (simp_all add: item_def)

lemma length_bounded [simp]: "length (bounded xs) \<le> recent_limit"
  by (simp add: bounded_def)

lemma inv_initial: "state_inv (initial_state identity)"
  by (simp add: state_inv_defs initial_state_def)

lemma inv_begin: "state_inv s \<Longrightarrow> state_inv (begin_reduce s identity e seq)"
  by (auto simp: state_inv_defs begin_reduce_def Let_def)

lemma inv_inconsistent: "state_inv s \<Longrightarrow> state_inv (inconsistent s m)"
  by (auto simp: state_inv_defs inconsistent_def)

lemma inv_lifecycle: "state_inv s \<Longrightarrow> state_inv (lifecycle s e)"
proof -
  assume inv: "state_inv s"
  have set_turn: "state_inv (t\<lparr>ts_active_turn := Some u, ts_execution := (ts_execution t)\<lparr>ex_answer := a\<rparr>\<rparr>)"
    if "state_inv t" for t u a
    using that by (auto simp: state_inv_defs)
  have end_turn: "state_inv (t\<lparr>ts_active_turn := None, ts_control_ready := False,
      ts_execution := (ts_execution t)\<lparr>ex_active_items := {}, ex_completed := c\<rparr>\<rparr>)"
    if "state_inv t" for t c
    using that by (auto simp: state_inv_defs)
  have leave: "state_inv (s\<lparr>ts_active_turn := None, ts_control_ready := False\<rparr>)"
    "state_inv (s\<lparr>ts_active_turn := None, ts_capabilities := [], ts_control_ready := False\<rparr>)"
    "state_inv (s\<lparr>ts_capabilities := c, ts_active_turn := a, ts_control_ready := (a \<noteq> None)\<rparr>)" for a c
    using inv by (auto simp: state_inv_defs)
  show ?thesis
    unfolding lifecycle_def Let_def
    by (simp del: not_None_eq add: set_turn end_turn leave inv_inconsistent inv split: option.split)
qed

text \<open>One rule for all branches of \<open>_semantic\<close>.\<close>

lemma semantic_cases:
  fixes s0 :: thread_state and e :: trace_event
  defines "s \<equiv> s0\<lparr>ts_workspace := workspace_update (ts_workspace s0) e (ws_edits (ts_workspace s0))\<rparr>"
    and "prov \<equiv> provenance_of (thread_id_of s0) e" and "i \<equiv> item_id_of s0 e"
  assumes "P s"
    and "\<And>s'. semantic_prompt s e prov i = Some s' \<Longrightarrow> P s'"
    and "\<And>s'. semantic_hypothesis s e prov i = Some s' \<Longrightarrow> P s'"
    and "\<And>s'. semantic_notes s e prov i = Some s' \<Longrightarrow> P s'"
    and "\<And>s'. semantic_condition s e prov = Some s' \<Longrightarrow> P s'"
    and "P (satisfy_condition s e prov i)"
    and "P (invalidate_evidence s (get (ev_payload e) ''evidence_id''))"
    and "\<And>A. P (s\<lparr>ts_execution := (ts_execution s)\<lparr>ex_active_items := A\<rparr>\<rparr>)"
    and "\<And>op. P (semantic_outcome s e prov i op)"
    and "\<And>words. P (add_intervention s (item i Intervention words prov))"
  shows "P (semantic s0 e)"
proof -
  have else_case: "P (case x of Some s' \<Rightarrow> s' | None \<Rightarrow> t)" if "\<And>s'. x = Some s' \<Longrightarrow> P s'" "P t" for x t
    using that by (cases x) simp_all
  have if_case: "P (if b then t else u)" if "P t" "P u" for b t u
    using that by simp
  show ?thesis
    unfolding semantic_def Let_def s_def [symmetric] prov_def [symmetric] i_def [symmetric]
    by (intro else_case if_case; (rule assms(4,9-13) | erule assms(5-8)))
qed

lemma finite_observed_files [simp]: "finite (observed_files p)"
  by (simp add: observed_files_def split: pyval.split)

lemma workspace_update_ok:
  "edits \<subseteq> ws_touched w \<Longrightarrow> ws_edits (workspace_update w e edits) \<subseteq> ws_touched (workspace_update w e edits)"
  "finite (ws_touched w) \<Longrightarrow> finite (ws_touched (workspace_update w e edits))"
  "ws_touched (workspace_update w e edits) = ws_touched w \<union> observed_files (ev_payload e)"
  by (auto simp: workspace_update_def Let_def)

lemma inv_workspace:
  "state_inv s \<Longrightarrow> state_inv (s\<lparr>ts_workspace := workspace_update (ts_workspace s) e (ws_edits (ts_workspace s))\<rparr>)"
  using workspace_update_ok by (simp add: state_inv_defs)

lemma inv_add_intervention: "state_inv s \<Longrightarrow> state_inv (add_intervention s x)"
  by (simp add: state_inv_defs add_intervention_def)

lemma inv_active_items:
  "state_inv s \<Longrightarrow> state_inv (s\<lparr>ts_execution := (ts_execution s)\<lparr>ex_active_items := A\<rparr>\<rparr>)"
  by (simp add: state_inv_defs)

lemma inv_evidence:
  "state_inv s \<Longrightarrow> es_stale ev = stale_hypotheses (es_items ev) \<Longrightarrow> state_inv (s\<lparr>ts_evidence := ev\<rparr>)"
  by (simp add: state_inv_defs)

lemma inv_goal:
  "state_inv s \<Longrightarrow> state_inv (s\<lparr>ts_task := (ts_task s)\<lparr>tk_goal := Some (item i Goal words prov)\<rparr>\<rparr>)"
  by (simp add: state_inv_defs)

lemma inv_stale: "state_inv s \<Longrightarrow> es_stale (ts_evidence s) = stale_hypotheses (es_items (ts_evidence s))"
  by (simp add: state_inv_defs)

lemma inv_prompt:
  assumes inv: "state_inv s" and run: "semantic_prompt s e prov i = Some s'"
  shows "state_inv s'"
proof (cases "nonempty (user_text (ev_payload e))")
  case None
  with run inv show ?thesis by (auto simp: semantic_prompt_def split: if_splits)
next
  case (Some words)
  let ?ev = "ts_evidence s"
  define ev' where "ev' = (case tk_goal (ts_task s) of None \<Rightarrow> ?ev
    | Some previous \<Rightarrow> ?ev\<lparr>es_items := es_items ?ev @ [previous\<lparr>si_status := ItemSuperseded\<rparr>]\<rparr>)"
  have "es_stale ev' = stale_hypotheses (es_items ev')"
    using inv_stale [OF inv] by (simp add: ev'_def split: option.split)
  then have goal: "state_inv (s\<lparr>ts_task := (ts_task s)\<lparr>tk_goal := Some (item i Goal words prov)\<rparr>,
      ts_evidence := ev'\<rparr>)"
    by (rule inv_evidence [OF inv_goal [OF inv]])
  from run Some have "s' = add_intervention s (item i Intervention words prov) \<or>
      s' = s\<lparr>ts_task := (ts_task s)\<lparr>tk_goal := Some (item i Goal words prov)\<rparr>, ts_evidence := ev'\<rparr>"
    unfolding ev'_def by (simp add: semantic_prompt_def Let_def split: if_splits)
  with goal inv_add_intervention [OF inv] show ?thesis by blast
qed

lemma inv_hypothesis:
  assumes inv: "state_inv s" and run: "semantic_hypothesis s e prov i = Some s'"
  shows "state_inv s'"
proof (cases "summary_text (ev_payload e)")
  case None
  with run show ?thesis by (simp add: semantic_hypothesis_def split: if_splits)
next
  case (Some words)
  with run inv_stale [OF inv] show ?thesis
    by (auto simp: semantic_hypothesis_def Let_def split: if_splits intro!: inv_evidence [OF inv])
qed

lemma inv_notes: "state_inv s \<Longrightarrow> semantic_notes s e prov i = Some s' \<Longrightarrow> state_inv s'"
  by (auto simp: semantic_notes_def state_inv_defs Let_def split: if_splits)

lemma inv_condition: "state_inv s \<Longrightarrow> semantic_condition s e prov = Some s' \<Longrightarrow> state_inv s'"
  by (auto simp: semantic_condition_def Let_def inv_inconsistent split: if_splits option.splits)
    (auto simp: state_inv_defs)

lemma inv_satisfy: "state_inv s \<Longrightarrow> state_inv (satisfy_condition s e prov i)"
  by (auto simp: satisfy_condition_def Let_def inv_inconsistent split: option.split)
    (auto simp: state_inv_defs)

lemma stale_hypotheses_marked:
  "stale_hypotheses (map (\<lambda>x. if si_id x \<in> S then x\<lparr>si_status := ItemStale\<rparr> else x) xs) =
     stale_hypotheses xs \<union> {si_id x | x. x \<in> set xs \<and> si_kind x = Hypothesis \<and> si_id x \<in> S}"
  by (induction xs) auto

lemma stale_hypotheses_filter:
  "set (map si_id (filter (\<lambda>x. si_kind x = Hypothesis \<and> si_status x = ItemStale) xs)) = stale_hypotheses xs"
  by (auto simp: stale_hypotheses_def)

lemma inv_invalidate: "state_inv s \<Longrightarrow> state_inv (invalidate_evidence s v)"
  unfolding invalidate_evidence_def Let_def stale_hypotheses_filter stale_hypotheses_marked
  by (auto simp: inv_inconsistent split: option.split)
    (auto simp: state_inv_defs stale_hypotheses_marked)

lemma inv_outcome: "state_inv s \<Longrightarrow> state_inv (semantic_outcome s e prov i op)"
proof -
  assume inv: "state_inv s"
  have "ws_edits (ts_workspace s) \<subseteq> ws_touched (ts_workspace s)"
    "finite (ws_touched (ts_workspace s))"
    using inv by (simp_all add: state_inv_defs)
  then have "E \<subseteq> ws_edits (ts_workspace s) \<Longrightarrow>
      ws_edits (workspace_update (ts_workspace s) e E) \<subseteq> ws_touched (workspace_update (ts_workspace s) e E)
      \<and> finite (ws_touched (workspace_update (ts_workspace s) e E))" for E
    using workspace_update_ok by (meson subset_trans)
  moreover have "{path \<in> ws_edits (ts_workspace s). Q path} \<subseteq> ws_edits (ts_workspace s)" for Q
    by blast
  ultimately show ?thesis
    using inv unfolding semantic_outcome_def Let_def state_inv_defs by simp
qed

lemma inv_semantic:
  assumes inv: "state_inv s"
  shows "state_inv (semantic s e)"
proof -
  note w = inv_workspace [OF inv]
  show ?thesis
    by (rule semantic_cases [where P = state_inv])
      (erule inv_prompt [OF w] inv_hypothesis [OF w] inv_notes [OF w] inv_condition [OF w]
        | rule w inv_satisfy [OF w] inv_invalidate [OF w] inv_active_items [OF w] inv_outcome [OF w]
            inv_add_intervention [OF w])+
qed

lemma inv_coverage: "state_inv s \<Longrightarrow> coverage s e = Inr s' \<Longrightarrow> state_inv s'"
  by (auto simp: coverage_def Let_def inconsistent_def state_inv_defs split: if_splits)

text \<open>The accepting branch of \<open>reduce\<close>.\<close>

lemma reduce_Inr:
  assumes "reduce state e seq = Inr s'"
  obtains identity tid where "ev_identity e = Some identity" "ri_thread identity = Some tid"
    "\<And>s. state = Some s \<Longrightarrow> ri_thread (ts_identity s) = Some tid \<and> ts_last_seq s < seq" "0 < seq"
    "coverage (semantic (lifecycle (begin_reduce
       (case state of Some s \<Rightarrow> s | None \<Rightarrow> initial_state identity) identity e seq) e) e) e = Inr s'"
proof -
  from assms obtain identity where id: "ev_identity e = Some identity" "ri_thread identity \<noteq> None"
    by (auto simp: reduce_def split: option.splits if_splits)
  then obtain tid where "ri_thread identity = Some tid" by auto
  with id assms show ?thesis
    by (intro that [of identity tid]) (auto simp: reduce_def Let_def split: option.splits if_splits)
qed

lemma reduce_inv:
  assumes "\<And>s. state = Some s \<Longrightarrow> state_inv s" and "reduce state e seq = Inr s'"
  shows "state_inv s'"
  using assms(2)
proof (cases rule: reduce_Inr)
  case (1 identity tid)
  have "state_inv (case state of Some s \<Rightarrow> s | None \<Rightarrow> initial_state identity)"
    using assms(1) by (simp add: inv_initial split: option.split)
  then show ?thesis
    using inv_begin inv_lifecycle inv_semantic inv_coverage 1(5) by blast
qed

end
