(* ===== verification/Thread_Store.thy ===== *)
theory Thread_Store
  imports Thread_Invariants
begin

text \<open>
  The exact reach of evidence invalidation, and the laws of \<open>ThreadStateStore\<close>: its
  invariant, deduplication, isolation of threads, the refinement to a per-thread fold of the
  pure reducer over the deduplicated log, and hydration.
\<close>

section \<open>Invalidation reaches exactly the transitive dependents\<close>

text \<open>\<open>(i, j)\<close>: an evidence item named \<open>j\<close> rests directly on \<open>i\<close>.\<close>

definition rests_on :: "state_item list \<Rightarrow> (string \<times> string) set" where
  "rests_on items = {(i, si_id x) | i x. x \<in> set items \<and> (i \<in> set (si_evidence x) \<or> i \<in> set (si_depends x))}"

lemma depends_on_stale_iff:
  "depends_on_stale ids x \<longleftrightarrow> (\<exists>i \<in> ids. i \<in> set (si_evidence x) \<or> i \<in> set (si_depends x))"
  by (auto simp: depends_on_stale_def list_ex_iff)

lemma stale_pass_sound:
  assumes "set xs \<subseteq> set items" and "ids \<subseteq> (rests_on items)\<^sup>* `` S"
  shows "stale_pass xs ids \<subseteq> (rests_on items)\<^sup>* `` S"
  using assms
proof (induction xs ids rule: stale_pass.induct)
  case (2 x xs ids)
  have "insert (si_id x) ids \<subseteq> (rests_on items)\<^sup>* `` S" if "depends_on_stale ids x"
  proof -
    from that obtain i where i: "i \<in> ids" "(i, si_id x) \<in> rests_on items"
      using "2.prems"(1) by (auto simp: depends_on_stale_iff rests_on_def)
    with "2.prems"(2) have "si_id x \<in> (rests_on items)\<^sup>* `` S"
      by (meson ImageE ImageI rtrancl.rtrancl_into_rtrancl subsetD)
    with "2.prems"(2) show ?thesis by simp
  qed
  with 2 show ?case by simp
qed simp

lemma stale_pass_fixed:
  "stale_pass xs ids = ids \<Longrightarrow> x \<in> set xs \<Longrightarrow> depends_on_stale ids x \<Longrightarrow> si_id x \<in> ids"
proof (induction xs ids rule: stale_pass.induct)
  case (2 y xs ids)
  show ?case
  proof (cases "si_id y \<notin> ids \<and> depends_on_stale ids y")
    case True
    with 2 stale_pass_incr [of "insert (si_id y) ids" xs] show ?thesis by auto
  next
    case False
    with 2 show ?thesis by auto
  qed
qed simp

lemma stale_closure_eq: "stale_closure items ids = (rests_on items)\<^sup>* `` ids"
proof (induction items ids rule: stale_closure.induct)
  case (1 items ids)
  let ?ids' = "stale_pass items ids"
  show ?case
  proof (cases "?ids' = ids")
    case True
    have closed: "j \<in> ids" if "(i, j) \<in> rests_on items" "i \<in> ids" for i j
      using that stale_pass_fixed [OF True] by (auto simp: rests_on_def depends_on_stale_iff)
    have "j \<in> ids" if "(i, j) \<in> (rests_on items)\<^sup>*" "i \<in> ids" for i j
      using that by (induction rule: rtrancl.induct) (auto intro: closed)
    then have "(rests_on items)\<^sup>* `` ids = ids" by auto
    with True show ?thesis by (subst stale_closure.simps) simp
  next
    case False
    have "?ids' \<subseteq> (rests_on items)\<^sup>* `` ids"
      by (rule stale_pass_sound) auto
    then have "(rests_on items)\<^sup>* `` ?ids' = (rests_on items)\<^sup>* `` ids"
      using stale_pass_incr [of ids items]
      by (auto intro: rtrancl_trans) (meson ImageE ImageI rtrancl_trans subsetD)+
    with 1 False show ?thesis by (subst stale_closure.simps) (simp add: Let_def)
  qed
qed

text \<open>C11: Invalidating known evidence marks stale exactly the items that rest on it, directly or
  through any chain of \<open>depends_on\<close> and \<open>evidence_ids\<close> links, leaves every other item as it
  was, invalidates exactly the conditions satisfied by a stale item, and lists every
  hypothesis it reached.\<close>

theorem invalidate_evidence_exact:
  fixes s :: thread_state
  defines "items \<equiv> es_items (ts_evidence s)"
  assumes "optional_text raw = Some eid" and "x0 \<in> set items" and "si_id x0 = eid"
  defines "reached \<equiv> (rests_on items)\<^sup>* `` {eid}"
  defines "ev' \<equiv> ts_evidence (invalidate_evidence s raw)"
  shows "es_items ev' = map (\<lambda>x. if si_id x \<in> reached then x\<lparr>si_status := ItemStale\<rparr> else x) items
    \<and> es_conditions ev' = map (\<lambda>c. if set (vc_satisfied_by c) \<inter> reached \<noteq> {}
         then c\<lparr>vc_status := Invalidated\<rparr> else c) (es_conditions (ts_evidence s))
    \<and> es_stale ev' = es_stale (ts_evidence s) \<union> stale_hypotheses (es_items ev')"
proof -
  have found: "list_ex (\<lambda>x. si_id x = eid) items"
    using assms(3,4) by (auto simp: list_ex_iff)
  have touches: "list_ex (\<lambda>i. i \<in> reached) ids \<longleftrightarrow> set ids \<inter> reached \<noteq> {}" for ids
    by (auto simp: list_ex_iff)
  show ?thesis
    using found assms(2) touches
    unfolding ev'_def invalidate_evidence_def Let_def stale_hypotheses_filter stale_closure_eq
    by (simp add: items_def reached_def)
qed

definition sample_prov :: state_provenance where
  "sample_prov = \<lparr>sp_event = None, sp_created = None, sp_thread = ThreadId ''t'', sp_turn = None,
     sp_epoch = None, sp_source = None, sp_config = None\<rparr>"

definition sample_identity :: "string \<Rightarrow> runtime_identity" where
  "sample_identity t = \<lparr>ri_thread = Some (ThreadId t), ri_turn = Some (TurnId ''u''), ri_attachment = None,
     ri_provenance = \<lparr>prov_agent = ''codex'', prov_thread = None, prov_turn = None,
       prov_attachment = None, prov_legacy_session = None\<rparr>\<rparr>"

definition sample_evidence :: thread_state where
  "sample_evidence = (initial_state (sample_identity ''t''))\<lparr>ts_evidence :=
     \<lparr>es_items = [item ''e1'' Observation ''seen'' sample_prov,
        (item ''h1'' Hypothesis ''guess'' sample_prov)\<lparr>si_evidence := [''e1'']\<rparr>],
      es_conditions = [], es_stale = {}\<rparr>\<rparr>"

theorem invalidate_evidence_exact_witness:
  "es_stale (ts_evidence (invalidate_evidence sample_evidence (PStr ''e1''))) = {''h1''}"
proof -
  let ?items = "es_items (ts_evidence sample_evidence)"
  have named: "optional_text (PStr ''e1'') = Some ''e1''"
    by (simp add: optional_text_def strip_def strip_when_def rstrip_when_def is_space_def code_def Let_def)
  have "(''e1'', ''h1'') \<in> rests_on ?items"
    unfolding rests_on_def sample_evidence_def
    by (auto intro!: exI [of _ "(item ''h1'' Hypothesis ''guess'' sample_prov)\<lparr>si_evidence := [''e1'']\<rparr>"])
  then have "''h1'' \<in> (rests_on ?items)\<^sup>* `` {''e1''}" by auto
  with invalidate_evidence_exact [OF named, of "item ''e1'' Observation ''seen'' sample_prov" sample_evidence]
  show ?thesis by (auto simp: sample_evidence_def)
qed

section \<open>What every accepted event advances\<close>

lemma lifecycle_frame:
  "ts_identity (lifecycle s e) = ts_identity s" "ts_version (lifecycle s e) = ts_version s"
  "ts_last_event (lifecycle s e) = ts_last_event s" "ts_last_seq (lifecycle s e) = ts_last_seq s"
  "ts_epoch (lifecycle s e) = ts_epoch s"
  by (simp_all add: lifecycle_def Let_def frame split: option.split)

lemma semantic_frame:
  "ts_identity (semantic s e) = ts_identity s" "ts_version (semantic s e) = ts_version s"
  "ts_last_event (semantic s e) = ts_last_event s" "ts_last_seq (semantic s e) = ts_last_seq s"
  "ts_epoch (semantic s e) = ts_epoch s" "ts_active_turn (semantic s e) = ts_active_turn s"
  "ts_control_ready (semantic s e) = ts_control_ready s"
  using semantic_control [of s e] by (simp_all add: control_view_def)

lemma coverage_frame:
  assumes "coverage s e = Inr s'"
  shows "ts_identity s' = ts_identity s" "ts_version s' = ts_version s"
    "ts_last_event s' = ts_last_event s" "ts_last_seq s' = ts_last_seq s"
    "ts_epoch s' = ts_epoch s" "ts_active_turn s' = ts_active_turn s"
    "ts_control_ready s' \<Longrightarrow> ts_control_ready s"
  using assms by (auto simp: coverage_def Let_def frame split: if_splits)

lemmas stage_frames = lifecycle_frame semantic_frame

lemma reduce_advances:
  assumes "reduce state e seq = Inr s'"
  shows "ts_last_seq s' = seq \<and> ts_last_event s' = ev_id e
    \<and> Some (ts_identity s') = ev_identity e \<and> ri_thread (ts_identity s') = event_thread e
    \<and> ts_version s' = (case state of Some s \<Rightarrow> ts_version s + 1 | None \<Rightarrow> 1)"
  using assms
proof (cases rule: reduce_Inr)
  case (1 identity tid)
  note cov = coverage_frame [OF 1(5)]
  show ?thesis
    using 1(1,2) cov
    by (auto simp: stage_frames begin_reduce_def Let_def event_thread_def initial_state_def
        split: option.split)
qed

section \<open>The store invariant\<close>

definition store_inv :: "store \<Rightarrow> bool" where
  "store_inv st \<longleftrightarrow> dict_ok (st_states st) \<and> dict_ok (st_seen st) \<and> 0 \<le> st_seq st
     \<and> (\<forall>tid s. dget (st_states st) tid = Some s \<longrightarrow>
          state_inv s \<and> ri_thread (ts_identity s) = Some tid \<and> ts_last_seq s \<le> st_seq st)
     \<and> (\<forall>tid ids. dget (st_seen st) tid = Some ids \<longrightarrow> ids \<noteq> {} \<longrightarrow> dget (st_states st) tid \<noteq> None)"

text \<open>The three ways an event can go through \<open>observe\<close>.\<close>

definition seen_ids :: "store \<Rightarrow> thread_id \<Rightarrow> string set" where
  "seen_ids st tid = (case dget (st_seen st) tid of Some ids \<Rightarrow> ids | None \<Rightarrow> {})"

definition is_seen :: "store \<Rightarrow> trace_event \<Rightarrow> bool" where
  "is_seen st e = (case (event_thread e, ev_id e) of
     (Some tid, Some i) \<Rightarrow> i \<in> seen_ids st tid | _ \<Rightarrow> False)"

lemma observe_unrouted:
  "event_thread e = None \<Longrightarrow> observe st e =
     (st, Inl (ThreadStateError ''Trace event has no logical thread identity''))"
  by (simp add: observe_def)

lemma observe_seen:
  assumes "is_seen st e" and "event_thread e = Some tid"
  shows "observe st e = (st, snapshot st tid)"
proof -
  from assms obtain i ids where "ev_id e = Some i" "dget (st_seen st) tid = Some ids" "i \<in> ids"
    by (auto simp: is_seen_def seen_ids_def split: option.splits)
  with assms show ?thesis by (simp add: observe_def Let_def)
qed

lemma observe_fresh:
  assumes "\<not> is_seen st e" and "event_thread e = Some tid"
  obtains (rejected) err where "reduce (dget (st_states st) tid) e (st_seq st + 1) = Inl err"
      "snd (observe st e) = Inl err" "st_states (fst (observe st e)) = st_states st"
      "st_seq (fst (observe st e)) = st_seq st + 1"
      "\<And>t. seen_ids (fst (observe st e)) t = seen_ids st t"
      "dict_ok (st_seen st) \<Longrightarrow> dict_ok (st_seen (fst (observe st e)))"
    | (accepted) s where "reduce (dget (st_states st) tid) e (st_seq st + 1) = Inr s"
      "snd (observe st e) = Inr s" "st_states (fst (observe st e)) = dset tid s (st_states st)"
      "st_seq (fst (observe st e)) = st_seq st + 1"
      "\<And>t. seen_ids (fst (observe st e)) t =
         (if t = tid then seen_ids st t \<union> set_option (ev_id e) else seen_ids st t)"
      "dict_ok (st_seen st) \<Longrightarrow> dict_ok (st_seen (fst (observe st e)))"
proof -
  have fresh: "(case ev_id e of Some i \<Rightarrow> i \<in> seen_ids st tid | None \<Rightarrow> False) = False"
    using assms by (simp add: is_seen_def split: option.splits)
  show ?thesis
  proof (cases "reduce (dget (st_states st) tid) e (st_seq st + 1)")
    case (Inl err)
    then show ?thesis
      using fresh assms(2)
      by (intro rejected [OF Inl]; cases "dget (st_seen st) tid"; cases "ev_id e")
        (auto simp: observe_def Let_def seen_ids_def)
  next
    case (Inr s)
    then show ?thesis
      using fresh assms(2)
      by (intro accepted [OF Inr]; cases "dget (st_seen st) tid"; cases "ev_id e")
        (auto simp: observe_def Let_def seen_ids_def)
  qed
qed

lemma observe_inv:
  assumes inv: "store_inv st"
  shows "store_inv (fst (observe st e))"
proof (cases "event_thread e")
  case None
  with inv show ?thesis by (simp add: observe_unrouted)
next
  case (Some tid)
  show ?thesis
  proof (cases "is_seen st e")
    case True
    with inv Some show ?thesis by (simp add: observe_seen)
  next
    case False
    have seen_ids_iff: "(\<forall>t ids. dget (st_seen x) t = Some ids \<longrightarrow> ids \<noteq> {} \<longrightarrow> dget (st_states x) t \<noteq> None)
        \<longleftrightarrow> (\<forall>t. seen_ids x t \<noteq> {} \<longrightarrow> dget (st_states x) t \<noteq> None)" for x
      by (auto simp: seen_ids_def split: option.split)
    note inv_iff = store_inv_def [unfolded seen_ids_iff]
    from False Some show ?thesis
    proof (cases rule: observe_fresh)
      case (rejected err)
      with inv show ?thesis unfolding inv_iff by fastforce
    next
      case (accepted s)
      have "state_inv s"
        using accepted(1) inv by (intro reduce_inv [OF _ accepted(1)]) (auto simp: store_inv_def)
      moreover note reduce_advances [OF accepted(1)]
      ultimately show ?thesis
        using accepted inv Some unfolding inv_iff by (auto split: if_splits) fastforce+
    qed
  qed
qed

lemma observe_mono:
  assumes "store_inv st"
  shows "seen_ids st t \<subseteq> seen_ids (fst (observe st e)) t"
proof (cases "event_thread e")
  case None
  then show ?thesis by (simp add: observe_unrouted)
next
  case (Some tid)
  show ?thesis
  proof (cases "is_seen st e")
    case True
    with Some show ?thesis by (simp add: observe_seen)
  next
    case False
    from False Some show ?thesis by (cases rule: observe_fresh) auto
  qed
qed

lemma store_inv_empty: "store_inv empty_store"
  by (simp add: store_inv_def empty_store_def)

lemma replay_inv: "store_inv st \<Longrightarrow> replay_events st es = (st', r) \<Longrightarrow> store_inv st'"
proof (induction st es arbitrary: r rule: replay_events.induct)
  case (2 st e es)
  then show ?case
    using observe_inv [OF "2.prems"(1), of e]
    by (cases "observe st e") (auto split: sum.splits)
qed simp

lemma replay_Cons_Inr:
  "replay_events st (e # es) = (st', Inr ()) \<Longrightarrow>
     \<exists>st1 s. observe st e = (st1, Inr s) \<and> replay_events st1 es = (st', Inr ())"
  by (auto split: prod.splits sum.splits)

section \<open>The interface the store offers\<close>

text \<open>
  What the signal engine and the review scheduler rely on when they rebuild themselves from a
  log: an observed event answers with the state its own thread then has, one version later
  unless the event was a duplicate; other threads are left alone.
\<close>

locale state_store =
  fixes observes :: "'s \<Rightarrow> trace_event \<Rightarrow> 's \<times> thread_state result"
    and reads :: "'s \<Rightarrow> thread_id \<Rightarrow> thread_state result"
    and ok :: "'s \<Rightarrow> bool"
  assumes ok_observes: "ok st \<Longrightarrow> ok (fst (observes st e))"
    and observed_thread: "ok st \<Longrightarrow> observes st e = (st', Inr s) \<Longrightarrow> event_thread e = Some (thread_id_of s)"
    and observed_read: "ok st \<Longrightarrow> observes st e = (st', Inr s) \<Longrightarrow> reads st' (thread_id_of s) = Inr s"
    and other_threads: "ok st \<Longrightarrow> event_thread e \<noteq> Some t \<Longrightarrow> reads (fst (observes st e)) t = reads st t"
    and next_version: "ok st \<Longrightarrow> observes st e = (st', Inr s) \<Longrightarrow>
      (case reads st (thread_id_of s) of
         Inr s0 \<Rightarrow> s = s0 \<or> ts_version s = Suc (ts_version s0)
       | Inl _ \<Rightarrow> ts_version s = 1)"
    and read_thread: "ok st \<Longrightarrow> reads st t = Inr s \<Longrightarrow> thread_id_of s = t"
begin

text \<open>Every state of a store after an observation was there before, or is the one observed.\<close>

lemma read_after:
  assumes "ok st" and "observes st e = (st', Inr s)" and "reads st' t = Inr x"
  shows "x = s \<and> t = thread_id_of s \<or> reads st t = Inr x"
proof (cases "t = thread_id_of s")
  case True
  with observed_read [OF assms(1,2)] assms(3) show ?thesis by simp
next
  case False
  with observed_thread [OF assms(1,2)] have "event_thread e \<noteq> Some t" by simp
  from other_threads [OF assms(1) this] assms(2,3) show ?thesis by simp
qed

text \<open>Versions never go back, so a thread and a version name one state.\<close>

lemma version_mono:
  assumes "ok st" and "observes st e = (st', Inr s)" and "reads st t = Inr x" and "reads st' t = Inr x'"
  shows "x' = x \<or> ts_version x' = Suc (ts_version x)"
proof (cases "reads st t = Inr x'")
  case False
  with read_after [OF assms(1,2,4)] have "x' = s" "t = thread_id_of s" by auto
  with next_version [OF assms(1,2)] assms(3) show ?thesis by simp
qed (use assms(3) in simp)

end

lemma store_states_thread: "store_inv st \<Longrightarrow> snapshot st t = Inr s \<Longrightarrow> thread_id_of s = t"
  by (auto simp: snapshot_def store_inv_def thread_id_of_def split: option.splits)

lemma observe_law:
  assumes inv: "store_inv st" and ob: "observe st e = (st', Inr s)"
  shows "event_thread e = Some (thread_id_of s) \<and> snapshot st' (thread_id_of s) = Inr s
    \<and> (case snapshot st (thread_id_of s) of
         Inr s0 \<Rightarrow> s = s0 \<or> ts_version s = Suc (ts_version s0) | Inl _ \<Rightarrow> ts_version s = 1)"
proof -
  from ob obtain tid where tid: "event_thread e = Some tid"
    by (cases "event_thread e") (auto simp: observe_unrouted)
  show ?thesis
  proof (cases "is_seen st e")
    case True
    with ob tid have "st' = st" "snapshot st tid = Inr s" by (auto simp: observe_seen)
    with store_states_thread [OF inv this(2)] tid show ?thesis by simp
  next
    case False
    from False tid show ?thesis
    proof (cases rule: observe_fresh)
      case (accepted s1)
      with ob have s1: "s1 = s" "st_states st' = dset tid s (st_states st)" by simp_all
      with reduce_advances [OF accepted(1)] tid show ?thesis
        by (auto simp: thread_id_of_def snapshot_def split: option.split)
    qed (use ob in simp)
  qed
qed

interpretation store_api: state_store observe snapshot store_inv
proof
  fix st e t
  assume inv: "store_inv st" "event_thread e \<noteq> Some t"
  show "snapshot (fst (observe st e)) t = snapshot st t"
  proof (cases "event_thread e")
    case None
    then show ?thesis by (simp add: observe_unrouted)
  next
    case (Some tid)
    show ?thesis
    proof (cases "is_seen st e")
      case True
      with Some show ?thesis by (simp add: observe_seen)
    next
      case False
      from False Some show ?thesis
        by (cases rule: observe_fresh) (use inv(2) Some in \<open>auto simp: snapshot_def\<close>)
    qed
  qed
qed (use observe_inv observe_law store_states_thread in auto)

section \<open>Properties of the store\<close>

text \<open>C2: Every thread state a store holds after replaying any log, even one that fails midway,
  is well formed: control is ready only while a turn is active, the recent windows stay
  within 50 entries, every edit awaiting validation is a touched file, the stale hypotheses
  listed are exactly those marked stale, a thread with a gap or an inconsistency never
  claims complete history, and its arrival number is one the store has issued.\<close>

theorem store_states_well_formed:
  assumes "replay_events empty_store es = (st, r)" and "dget (st_states st) tid = Some s"
  shows "(ts_control_ready s \<longrightarrow> ts_active_turn s \<noteq> None)
    \<and> length (ex_outcomes (ts_execution s)) \<le> 50 \<and> length (ex_failures (ts_execution s)) \<le> 50
    \<and> length (su_interventions (ts_supervision s)) \<le> 50
    \<and> ws_edits (ts_workspace s) \<subseteq> ws_touched (ts_workspace s)
    \<and> es_stale (ts_evidence s) = stale_hypotheses (es_items (ts_evidence s))
    \<and> (cv_gaps (ts_coverage s) \<noteq> [] \<or> cv_inconsistencies (ts_coverage s) \<noteq> []
         \<longrightarrow> cv_history (ts_coverage s) = HistoryPartial)
    \<and> thread_id_of s = tid \<and> ts_last_seq s \<le> st_seq st"
proof -
  have "store_inv st" using replay_inv [OF store_inv_empty assms(1)] .
  with assms(2) have "state_inv s" "ri_thread (ts_identity s) = Some tid" "ts_last_seq s \<le> st_seq st"
    by (auto simp: store_inv_def)
  then show ?thesis
    by (simp add: state_inv_defs thread_id_of_def recent_limit_def)
qed

text \<open>Delivery is idempotent: observing an accepted event with an identifier again changes
  nothing and answers with the state the thread has by then.\<close>

theorem observe_idempotent:
  assumes inv: "store_inv st" and id: "ev_id e \<noteq> None" and first: "observe st e = (st1, Inr s)"
    and more: "replay_events st1 es = (st2, Inr ())"
  shows "\<exists>s2. observe st2 e = (st2, Inr s2) \<and> dget (st_states st2) (thread_id_of s) = Some s2"
proof -
  from first obtain tid where tid: "event_thread e = Some tid"
    by (cases "event_thread e") (auto simp: observe_unrouted)
  from id obtain i where i: "ev_id e = Some i" by auto
  have inv1: "store_inv st1" using observe_inv [OF inv, of e] first by simp
  have seen1: "i \<in> seen_ids st1 tid \<and> thread_id_of s = tid"
  proof (cases "is_seen st e")
    case True
    with tid i first inv show ?thesis
      by (auto simp: observe_seen is_seen_def snapshot_def thread_id_of_def store_inv_def
          split: option.splits)
  next
    case False
    from False tid show ?thesis
    proof (cases rule: observe_fresh)
      case (accepted s')
      with first i reduce_advances [OF accepted(1)] tid show ?thesis
        by (auto simp: thread_id_of_def)
    qed (use first in simp)
  qed
  have "i \<in> seen_ids st2 tid \<and> store_inv st2"
    using inv1 seen1 more
  proof (induction st1 es rule: replay_events.induct)
    case (2 st e es)
    from "2.prems"(3) obtain stx sx where ob: "observe st e = (stx, Inr sx)"
      "replay_events stx es = (st2, Inr ())"
      by (auto split: prod.splits sum.splits)
    then show ?case
      using "2.IH" [of stx "Inr sx" sx] observe_inv [OF "2.prems"(1), of e]
        observe_mono [OF "2.prems"(1), of tid e] "2.prems"(2) by auto
  qed simp
  then have "is_seen st2 e" and inv2: "store_inv st2" and "seen_ids st2 tid \<noteq> {}"
    using tid i by (auto simp: is_seen_def)
  moreover from this obtain s2 where "dget (st_states st2) tid = Some s2"
    unfolding store_inv_def seen_ids_def by (force split: option.splits)
  ultimately show ?thesis
    using tid seen1 by (simp add: observe_seen snapshot_def)
qed

text \<open>Threads are isolated: an event leaves the state of every other thread untouched.\<close>

theorem observe_isolation:
  assumes "event_thread e \<noteq> Some tid"
  shows "dget (st_states (fst (observe st e))) tid = dget (st_states st) tid
    \<and> seen_ids (fst (observe st e)) tid = seen_ids st tid"
proof (cases "event_thread e")
  case None
  then show ?thesis by (simp add: observe_unrouted)
next
  case (Some t)
  show ?thesis
  proof (cases "is_seen st e")
    case True
    with Some show ?thesis by (simp add: observe_seen)
  next
    case False
    from False Some show ?thesis by (cases rule: observe_fresh) (use assms Some in auto)
  qed
qed

text \<open>The abstract contract: the deduplicated log with its arrival numbers, and a fold of the pure
  reducer over the part of it that belongs to one thread.\<close>

fun accepted_log :: "(thread_id \<times> string) set \<Rightarrow> int \<Rightarrow> trace_event list \<Rightarrow> (int \<times> trace_event) list" where
  "accepted_log seen n [] = []"
| "accepted_log seen n (e # es) =
     (case event_thread e of
        None \<Rightarrow> accepted_log seen n es
      | Some tid \<Rightarrow>
          (case ev_id e of
             None \<Rightarrow> (n + 1, e) # accepted_log seen (n + 1) es
           | Some i \<Rightarrow>
               if (tid, i) \<in> seen then accepted_log seen n es
               else (n + 1, e) # accepted_log (insert (tid, i) seen) (n + 1) es))"

fun fold_reduce :: "thread_state option \<Rightarrow> (int \<times> trace_event) list \<Rightarrow> thread_state option result" where
  "fold_reduce s [] = Inr s"
| "fold_reduce s ((n, e) # entries) = rbind (reduce s e n) (\<lambda>s'. fold_reduce (Some s') entries)"

definition of_thread :: "thread_id \<Rightarrow> (int \<times> trace_event) list \<Rightarrow> (int \<times> trace_event) list" where
  "of_thread tid entries = filter (\<lambda>ne. event_thread (snd ne) = Some tid) entries"

definition seen_pairs :: "store \<Rightarrow> (thread_id \<times> string) set" where
  "seen_pairs st = {(tid, i). i \<in> seen_ids st tid}"

lemma accepted_log_fresh:
  assumes "event_thread e = Some t" and "\<not> is_seen st e"
    and "\<And>x. seen_ids st' x = (if x = t then seen_ids st x \<union> set_option (ev_id e) else seen_ids st x)"
    and "st_seq st' = st_seq st + 1"
  shows "accepted_log (seen_pairs st) (st_seq st) (e # es) =
     (st_seq st + 1, e) # accepted_log (seen_pairs st') (st_seq st') es"
proof (cases "ev_id e")
  case None
  then have "seen_pairs st' = seen_pairs st" using assms(3) by (auto simp: seen_pairs_def split: if_splits)
  with None assms show ?thesis by simp
next
  case (Some i)
  then have "seen_pairs st' = insert (t, i) (seen_pairs st)"
    using assms(3) by (auto simp: seen_pairs_def split: if_splits)
  with Some assms show ?thesis by (auto simp: is_seen_def seen_pairs_def)
qed

lemma accepted_log_seen:
  "event_thread e = Some t \<Longrightarrow> is_seen st e \<Longrightarrow>
     accepted_log (seen_pairs st) n (e # es) = accepted_log (seen_pairs st) n es"
  by (auto simp: is_seen_def seen_pairs_def split: option.splits)

lemma replay_fold:
  "replay_events st es = (st', Inr ()) \<Longrightarrow>
     fold_reduce (dget (st_states st) tid) (of_thread tid (accepted_log (seen_pairs st) (st_seq st) es))
       = Inr (dget (st_states st') tid)"
proof (induction st es rule: replay_events.induct)
  case (1 st)
  then show ?case by (simp add: of_thread_def)
next
  case (2 st e es)
  from "2.prems" obtain st1 s1 where ob: "observe st e = (st1, Inr s1)"
    and rest: "replay_events st1 es = (st', Inr ())"
    using replay_Cons_Inr by blast
  note IH = "2.IH" [OF ob [symmetric] refl rest]
  from ob obtain t where t: "event_thread e = Some t"
    by (cases "event_thread e") (auto simp: observe_unrouted)
  show ?case
  proof (cases "is_seen st e")
    case True
    with t ob have "st1 = st" by (simp add: observe_seen)
    with IH accepted_log_seen [OF t True] show ?thesis by (simp only:)
  next
    case False
    from False t show ?thesis
    proof (cases rule: observe_fresh)
      case (accepted s)
      with ob have st1: "st_states st1 = dset t s (st_states st)" "st_seq st1 = st_seq st + 1"
        "\<And>x. seen_ids st1 x = (if x = t then seen_ids st x \<union> set_option (ev_id e) else seen_ids st x)"
        by simp_all
      show ?thesis
        unfolding accepted_log_fresh [OF t False st1(3) st1(2)]
        using IH t accepted(1) st1(1) by (auto simp: of_thread_def)
    qed (use ob in simp)
  qed
qed

text \<open>C1: The store refines its contract: after replaying a log without error, the state of each
  thread is the fold of the pure reducer over that thread's events in order, each event
  identifier taken once, under strictly increasing arrival numbers.\<close>

theorem replay_refines_fold:
  assumes "replay_events empty_store es = (st, Inr ())"
  shows "fold_reduce None (of_thread tid (accepted_log {} 0 es)) = Inr (dget (st_states st) tid)"
proof -
  have "seen_pairs empty_store = {}" "st_seq empty_store = 0" "dget (st_states empty_store) tid = None"
    by (simp_all add: seen_pairs_def seen_ids_def empty_store_def)
  with replay_fold [OF assms, of tid] show ?thesis by simp
qed

lemma number_Inl: "number v = Inl err \<Longrightarrow> err = OverflowError"
  by (auto simp: number_def float_of_int_def split: pyval.splits float64.splits)

lemma coverage_Inl: "coverage s e = Inl err \<Longrightarrow> err = OverflowError \<and> ev_kind e = ''observation_gap''"
proof -
  assume err: "coverage s e = Inl err"
  then have "ev_kind e = ''observation_gap''"
    by (auto simp: coverage_def Let_def split: if_splits)
  with err show ?thesis
    by (cases "number (get (ev_payload e) ''started_at'')"; cases "number (get (ev_payload e) ''ended_at'')")
      (auto simp: coverage_def Let_def dest: number_Inl)
qed

text \<open>The only events a well-formed store refuses are those it cannot route and observation
  gaps whose timestamps overflow a double: an event of an identified thread is never
  rejected as foreign or as out of sequence.\<close>

theorem observe_rejections:
  assumes inv: "store_inv st" and err: "snd (observe st e) = Inl err"
  shows "event_thread e = None \<and> err = ThreadStateError ''Trace event has no logical thread identity''
    \<or> err = OverflowError \<and> ev_kind e = ''observation_gap''"
proof (cases "event_thread e")
  case None
  with err show ?thesis by (simp add: observe_unrouted)
next
  case (Some tid)
  then obtain identity where id: "ev_identity e = Some identity" "ri_thread identity = Some tid"
    by (auto simp: event_thread_def bind_eq_Some_conv)
  show ?thesis
  proof (cases "is_seen st e")
    case True
    then have "seen_ids st tid \<noteq> {}"
      using Some by (auto simp: is_seen_def split: option.splits)
    with inv obtain s where "dget (st_states st) tid = Some s"
      unfolding store_inv_def seen_ids_def by (force split: option.splits)
    with True Some err show ?thesis by (simp add: observe_seen snapshot_def)
  next
    case False
    from False Some show ?thesis
    proof (cases rule: observe_fresh)
      case (rejected err')
      have ok: "ri_thread (ts_identity s) = Some tid \<and> ts_last_seq s \<le> st_seq st"
        if "dget (st_states st) tid = Some s" for s
        using inv that by (auto simp: store_inv_def)
      have "0 \<le> st_seq st" using inv by (simp add: store_inv_def)
      with rejected(1) id ok have "\<exists>s. coverage s e = Inl err'"
        by (cases "dget (st_states st) tid") (auto simp: reduce_def Let_def split: if_splits)
      then show ?thesis
        using coverage_Inl rejected(2) err by auto
    qed (use err in simp)
  qed
qed

text \<open>Hydration never claims a live turn: whatever the durable history says, no thread of a
  hydrated store has an active turn or ready control.\<close>

theorem hydrate_dormant:
  assumes "hydrate st records = (st', Inr states)" and "dget (st_states st') tid = Some s"
  shows "ts_active_turn s = None \<and> \<not> ts_control_ready s"
proof -
  from assms(1) obtain d where "st_states st' = map (\<lambda>(tid, s). (tid, dormant s)) d"
    by (auto simp: hydrate_def Let_def split: prod.splits sum.splits)
  moreover have "dget (map (\<lambda>(tid, s). (tid, dormant s)) d) tid = map_option dormant (dget d tid)" for d
    by (induction d) (auto simp: dict_eval)
  ultimately obtain s0 where "s = dormant s0" using assms(2) by auto
  then show ?thesis by (simp add: dormant_def)
qed

text \<open>A hypothesis is born stale exactly when it cites a hypothesis already listed as stale;
  it is appended to the evidence and nothing else changes there. Evidence that was
  invalidated but is not itself a hypothesis does not make a later citation stale.\<close>

theorem hypothesis_status_at_birth:
  assumes "ev_kind e \<in> {''reasoning_summary'', ''hypothesis''}"
    and "summary_text (ev_payload e) = Some words"
  shows "\<exists>h. es_items (ts_evidence (semantic s e)) = es_items (ts_evidence s) @ [h]
    \<and> si_kind h = Hypothesis
    \<and> (si_status h = (if set (si_depends h @ si_evidence h) \<inter> es_stale (ts_evidence s) \<noteq> {}
         then ItemStale else ItemActive))
    \<and> si_evidence h = string_tuple (get (ev_payload e) ''evidence_ids'')
    \<and> si_depends h = string_tuple (get (ev_payload e) ''depends_on'')"
proof -
  have cites: "list_ex (\<lambda>i. i \<in> S) xs \<longleftrightarrow> set xs \<inter> S \<noteq> {}" for S and xs :: "string list"
    by (auto simp: list_ex_iff)
  have "ev_kind e \<noteq> ''user_prompt''" using assms(1) by auto
  with assms show ?thesis
    by (simp add: semantic_def Let_def semantic_prompt_def semantic_hypothesis_def cites)
qed

text \<open>An unknown runtime event that also arrives out of order is recorded as an inconsistency
  but is not counted: the increment is overwritten, while the same event in order counts.\<close>

theorem unknown_event_count:
  assumes "ev_kind e = ''runtime_event_unknown''" and "coverage s e = Inr s'"
  shows "cv_unknown (ts_coverage s') =
    (if out_of_order e then cv_unknown (ts_coverage s) else Suc (cv_unknown (ts_coverage s)))"
  using assms by (auto simp: coverage_def Let_def inconsistent_def)

section \<open>Witnesses\<close>

definition sample_event :: "string \<Rightarrow> payload \<Rightarrow> string \<Rightarrow> trace_event" where
  "sample_event kind p i = (plain_event kind)\<lparr>ev_payload := p, ev_id := Some i,
     ev_identity := Some (sample_identity ''t'')\<rparr>"

definition sample_log :: "trace_event list" where
  "sample_log = [sample_event ''thread_started'' [] ''e0'',
     sample_event ''user_prompt'' [(''prompt'', PStr ''fix it'')] ''e1'',
     sample_event ''runtime_event_unknown'' [] ''e2'',
     sample_event ''hypothesis'' [(''text'', PStr ''guess'')] ''e3'']"

definition sample_records :: "step_record list" where
  "sample_records = map (\<lambda>e. \<lparr>sr_step = 1, sr_event = e, sr_snapshot = None, sr_at = None,
     sr_version = 1\<rparr>) sample_log"

abbreviation sample_store :: store where
  "sample_store \<equiv> fst (replay_events empty_store sample_log)"

lemma sample_log_runs:
  "snd (replay_events empty_store sample_log) = Inr ()
   \<and> dkeys (st_states sample_store) = [ThreadId ''t'']"
  by code_simp

lemma sample_run: "replay_events empty_store sample_log = (sample_store, Inr ())"
  using sample_log_runs by (metis prod.collapse)

lemma sample_has_state: obtains s where "dget (st_states sample_store) (ThreadId ''t'') = Some s"
proof -
  have "ThreadId ''t'' \<in> set (dkeys (st_states sample_store))"
    using sample_log_runs by simp
  then show ?thesis using that by (auto simp: dict.set_keys)
qed

theorem store_states_well_formed_witness:
  "\<exists>s. dget (st_states sample_store) (ThreadId ''t'') = Some s
     \<and> ws_edits (ts_workspace s) \<subseteq> ws_touched (ts_workspace s)"
proof -
  obtain s where s: "dget (st_states sample_store) (ThreadId ''t'') = Some s"
    by (rule sample_has_state)
  with store_states_well_formed [OF sample_run s] show ?thesis by blast
qed

lemma sample_first:
  "\<exists>st1 s st2. observe empty_store (hd sample_log) = (st1, Inr s)
     \<and> replay_events st1 (tl sample_log) = (st2, Inr ())"
proof -
  have "sample_log = hd sample_log # tl sample_log" by (simp add: sample_log_def)
  with sample_run have "replay_events empty_store (hd sample_log # tl sample_log) = (sample_store, Inr ())"
    by argo
  from replay_Cons_Inr [OF this] show ?thesis by blast
qed

theorem observe_idempotent_witness:
  "\<exists>st2 s2. observe st2 (hd sample_log) = (st2, Inr s2)"
proof -
  obtain st1 s st2 where run: "observe empty_store (hd sample_log) = (st1, Inr s)"
    "replay_events st1 (tl sample_log) = (st2, Inr ())"
    using sample_first by blast
  have "ev_id (hd sample_log) \<noteq> None" by (simp add: sample_log_def sample_event_def)
  from observe_idempotent [OF store_inv_empty this run] show ?thesis by blast
qed

theorem observe_isolation_witness:
  "dget (st_states (fst (observe sample_store
     ((hd sample_log)\<lparr>ev_identity := Some (sample_identity ''u'')\<rparr>)))) (ThreadId ''t'')
   = dget (st_states sample_store) (ThreadId ''t'')"
  by (rule observe_isolation [THEN conjunct1]) (simp add: event_thread_def sample_identity_def)

theorem replay_refines_fold_witness:
  "fold_reduce None (of_thread (ThreadId ''t'') (accepted_log {} 0 sample_log))
     = Inr (dget (st_states sample_store) (ThreadId ''t''))"
  by (rule replay_refines_fold [OF sample_run])

theorem observe_rejections_witness:
  "snd (observe empty_store (plain_event ''plan''))
     = Inl (ThreadStateError ''Trace event has no logical thread identity'')"
proof -
  have "event_thread (plain_event ''plan'') = None"
    by (simp add: event_thread_def plain_event_def)
  then obtain err where "snd (observe empty_store (plain_event ''plan'')) = Inl err"
    by (simp add: observe_unrouted)
  with observe_rejections [OF store_inv_empty this] show ?thesis
    by (auto simp: plain_event_def)
qed

lemma sample_hydration: "isl (snd (hydrate empty_store sample_records)) = False
    \<and> dkeys (st_states (fst (hydrate empty_store sample_records))) = [ThreadId ''t'']"
  by code_simp

theorem hydrate_dormant_witness:
  "\<exists>s. dget (st_states (fst (hydrate empty_store sample_records))) (ThreadId ''t'') = Some s
     \<and> ts_active_turn s = None"
proof -
  obtain st states where h: "hydrate empty_store sample_records = (st, Inr states)"
    using sample_hydration by (cases "hydrate empty_store sample_records"; cases "snd (hydrate empty_store sample_records)") auto
  have "ThreadId ''t'' \<in> set (dkeys (st_states st))"
    using sample_hydration h by simp
  then obtain s where s: "dget (st_states st) (ThreadId ''t'') = Some s"
    by (auto simp: dict.set_keys)
  from hydrate_dormant [OF h s] h s show ?thesis by simp
qed

lemma sample_summary: "summary_text [(''text'', PStr ''guess'')] = Some ''guess''"
  by code_simp

theorem hypothesis_status_at_birth_witness:
  "\<exists>h. es_items (ts_evidence (semantic sample_evidence
        (sample_event ''hypothesis'' [(''text'', PStr ''guess'')] ''e3'')))
     = es_items (ts_evidence sample_evidence) @ [h]"
  using hypothesis_status_at_birth
    [of "sample_event ''hypothesis'' [(''text'', PStr ''guess'')] ''e3''" "''guess''" sample_evidence]
    sample_summary
  by (auto simp: sample_event_def plain_event_def)

theorem unknown_event_count_witness:
  "\<exists>s'. coverage (initial_state (sample_identity ''t''))
        (sample_event ''runtime_event_unknown'' [(''out_of_order'', PBool True)] ''e'') = Inr s'
     \<and> cv_unknown (ts_coverage s') = 0"
proof -
  let ?e = "sample_event ''runtime_event_unknown'' [(''out_of_order'', PBool True)] ''e''"
  have kind: "ev_kind ?e = ''runtime_event_unknown''" and late: "out_of_order ?e"
    by (simp_all add: sample_event_def plain_event_def out_of_order_def get_def dget_eval)
  then obtain s' where s': "coverage (initial_state (sample_identity ''t'')) ?e = Inr s'"
    by (auto simp: coverage_def Let_def)
  from unknown_event_count [OF kind s'] s' late show ?thesis
    by (simp add: initial_state_def)
qed

end
