(* ===== verification/Signal_Core.thy ===== *)
theory Signal_Core
  imports Thread_Store
begin

text \<open>
  The data and the pure helpers of \<open>src/spotter/signals.py\<close>: signal candidates and their
  trace events, streaks, and the equivalence keys under which events are grouped. Signal
  identifiers and equivalence digests are real SHA-256 values of the code's strings.
\<close>

section \<open>Constants\<close>

definition signal_outcome_kinds :: "string set" where
  "signal_outcome_kinds = {''command_result'', ''tool_result'', ''file_edit'', ''test_result''}"

definition terminal_kinds :: "string set" where
  "terminal_kinds = {''observation_gap'', ''runtime_attachment_unavailable'', ''thread_archived'',
     ''thread_closed'', ''thread_deleted'', ''turn_completed''}"

definition frontier_reset_kinds :: "string set" where
  "frontier_reset_kinds = {''command_result'', ''diff_updated'', ''evidence_invalidated'',
     ''file_edit'', ''file_read'', ''hypothesis'', ''reasoning_summary'', ''search'',
     ''test_result'', ''verification_satisfied''}"

definition read_verbs :: "string list" where
  "read_verbs = [''describe'', ''fetch'', ''find'', ''get'', ''list'', ''open'', ''read'',
     ''search'', ''view'']"

definition read_resource_keys :: "(string, string) dict" where
  "read_resource_keys = [(''file'', ''file''), (''file_path'', ''file''), (''path'', ''file''),
     (''repository'', ''repository''), (''resource'', ''resource''), (''scope'', ''resource''),
     (''uri'', ''uri''), (''url'', ''url'')]"

definition evidence_limit :: nat where "evidence_limit = 20"
definition frontier_limit :: nat where "frontier_limit = 128"
definition block_limit :: nat where "block_limit = 128"
definition scope_limit :: nat where "scope_limit = 128"
definition scope_text_limit :: nat where "scope_text_limit = 4096"
definition hypothesis_limit :: nat where "hypothesis_limit = 128"
definition hypothesis_id_limit :: nat where "hypothesis_id_limit = 300"
definition baseline_samples :: nat where "baseline_samples = 3"
definition baseline_limit :: nat where "baseline_limit = 20"
definition percent_limit :: int where "percent_limit = 1000000"

definition causal_action_kinds :: "string set" where
  "causal_action_kinds = {''command_started'', ''file_change_started'', ''tool_proposal'',
     ''tool_started''}"

section \<open>Signals and candidates\<close>

datatype signal_type =
    BudgetAnomaly
  | EditsWithoutValidation
  | FailureStreak
  | RecurrenceAfterDeterministicBlock
  | RepeatedEquivalentToolCall
  | RepeatedReadNoFrontier
  | StaleHypothesisReuse
  | TouchedScopeGrowth

fun signal_type_str :: "signal_type \<Rightarrow> string" where
  "signal_type_str BudgetAnomaly = ''budget_anomaly''"
| "signal_type_str EditsWithoutValidation = ''edits_without_validation''"
| "signal_type_str FailureStreak = ''failure_streak''"
| "signal_type_str RecurrenceAfterDeterministicBlock = ''recurrence_after_deterministic_block''"
| "signal_type_str RepeatedEquivalentToolCall = ''repeated_equivalent_tool_call''"
| "signal_type_str RepeatedReadNoFrontier = ''repeated_read_no_frontier''"
| "signal_type_str StaleHypothesisReuse = ''stale_hypothesis_reuse''"
| "signal_type_str TouchedScopeGrowth = ''touched_scope_growth''"

datatype signal_status = SignalActive | SignalCooledDown | SignalResolved | SignalStale

fun signal_status_str :: "signal_status \<Rightarrow> string" where
  "signal_status_str SignalActive = ''active''"
| "signal_status_str SignalCooledDown = ''cooled_down''"
| "signal_status_str SignalResolved = ''resolved''"
| "signal_status_str SignalStale = ''stale''"

record signal_candidate =
  sc_id :: string
  sc_type :: signal_type
  sc_thread :: thread_id
  sc_turn :: "string option"
  sc_epoch :: "int option"
  sc_version :: nat
  sc_first :: "float64 option"
  sc_last :: "float64 option"
  sc_severity :: int
  sc_evidence :: "string list"
  sc_resources :: "string list"
  sc_status :: signal_status
  sc_source :: string
  sc_features :: "(string \<times> int) list"

definition pv_text :: "string option \<Rightarrow> pyval" where
  "pv_text v = (case v of Some s \<Rightarrow> PStr s | None \<Rightarrow> PNone)"

definition pv_int :: "int option \<Rightarrow> pyval" where
  "pv_int v = (case v of Some i \<Rightarrow> PInt i | None \<Rightarrow> PNone)"

definition pv_float :: "float64 option \<Rightarrow> pyval" where
  "pv_float v = (case v of Some x \<Rightarrow> PFloat x | None \<Rightarrow> PNone)"

definition signal_event_id :: "signal_candidate \<Rightarrow> string" where
  "signal_event_id c = ''spotter:signal:'' @ sc_id c @ '':''
     @ take 16 (sha256_hex (signal_status_str (sc_status c) @ '':'' @ sc_source c))"

definition candidate_event :: "signal_candidate \<Rightarrow> trace_event \<Rightarrow> trace_event" where
  "candidate_event c trigger =
     \<lparr>ev_kind = (if sc_status c = SignalCooledDown
        then ''signal_candidate_suppressed'' else ''signal_candidate''),
      ev_payload =
        [(''signal_id'', PStr (sc_id c)),
         (''signal_type'', PStr (signal_type_str (sc_type c))),
         (''thread_id'', PStr (thread_value (sc_thread c))),
         (''turn_id'', pv_text (sc_turn c)),
         (''target_connection_epoch'', pv_int (sc_epoch c)),
         (''state_version'', PInt (int (sc_version c))),
         (''first_seen_at'', pv_float (sc_first c)),
         (''last_seen_at'', pv_float (sc_last c)),
         (''severity_hint'', PInt (sc_severity c)),
         (''evidence_event_ids'', PList (map PStr (sc_evidence c))),
         (''involved_resources'', PList (map PStr (sc_resources c))),
         (''features'', PDict (foldl (\<lambda>d kn. dset (fst kn) (PInt (snd kn)) d) [] (sc_features c))),
         (''status'', PStr (signal_status_str (sc_status c))),
         (''source_event_id'', PStr (sc_source c))],
      ev_id = Some (signal_event_id c),
      ev_at = ev_at trigger,
      ev_identity = ev_identity trigger,
      ev_operation = None,
      ev_item = None,
      ev_provenance = Some \<lparr>tp_source = ''spotterd'', tp_method = Some ''signal_engine''\<rparr>,
      ev_epoch = ev_epoch trigger,
      ev_arrival = None,
      ev_monotonic = None,
      ev_clock = None,
      ev_config = ev_config trigger\<rparr>"

section \<open>Streaks\<close>

record streak =
  sk_id :: string
  sk_type :: signal_type
  sk_feature :: string
  sk_key :: string
  sk_identity :: runtime_identity
  sk_epoch :: "int option"
  sk_first :: "float64 option"
  sk_last :: "float64 option"
  sk_count :: int
  sk_evidence :: "string list"
  sk_resources :: "string list"
  sk_emitted :: bool

record read_frontier =
  rf_identity :: runtime_identity
  rf_epoch :: "int option"
  rf_observations :: "string set"

record declared_scope =
  ds_identity :: runtime_identity
  ds_epoch :: "int option"
  ds_paths :: "string list"

record duration_baseline =
  db_identity :: runtime_identity
  db_epoch :: "int option"
  db_values :: "float64 list"

text \<open>
  What \<open>update\<close> has established when a rule runs (the rules assert it again): an event with
  an identifier and a thread, and the version and state the caller passes beside it.
\<close>

record occasion =
  in_event :: trace_event
  in_identity :: runtime_identity
  in_thread :: thread_id
  in_id :: string
  in_version :: nat
  in_state :: "thread_state option"

definition occasion_ok :: "occasion \<Rightarrow> bool" where
  "occasion_ok i \<longleftrightarrow> ev_identity (in_event i) = Some (in_identity i)
     \<and> ri_thread (in_identity i) = Some (in_thread i) \<and> ev_id (in_event i) = Some (in_id i)"

definition signal_id :: "occasion \<Rightarrow> signal_type \<Rightarrow> string \<Rightarrow> string" where
  "signal_id i kind key = sha256_hex
     (thread_value (in_thread i) @ '':''
      @ (case ri_turn (in_identity i) of Some t \<Rightarrow> turn_value t | None \<Rightarrow> ''unknown'') @ '':''
      @ (case ev_epoch (in_event i) of Some n \<Rightarrow> dec_int n | None \<Rightarrow> ''None'') @ '':''
      @ signal_type_str kind @ '':'' @ key @ '':'' @ in_id i)"

definition candidate :: "streak \<Rightarrow> signal_status \<Rightarrow> string \<Rightarrow> nat \<Rightarrow> signal_candidate" where
  "candidate s status source version =
     \<lparr>sc_id = sk_id s, sc_type = sk_type s,
      sc_thread = (case ri_thread (sk_identity s) of Some t \<Rightarrow> t | None \<Rightarrow> ThreadId []),
      sc_turn = map_option turn_value (ri_turn (sk_identity s)),
      sc_epoch = sk_epoch s, sc_version = version,
      sc_first = sk_first s, sc_last = sk_last s, sc_severity = sk_count s,
      sc_evidence = sk_evidence s, sc_resources = sk_resources s,
      sc_status = status, sc_source = source, sc_features = [(sk_feature s, sk_count s)]\<rparr>"

definition finish :: "streak \<Rightarrow> signal_status \<Rightarrow> occasion \<Rightarrow> signal_candidate list" where
  "finish s status i =
     (if sk_emitted s then [candidate s status (in_id i) (in_version i)] else [])"

definition target_changed :: "runtime_identity \<Rightarrow> int option \<Rightarrow> trace_event \<Rightarrow> bool" where
  "target_changed identity epoch e =
     (case ev_identity e of
        None \<Rightarrow> False
      | Some now \<Rightarrow> ri_turn now \<noteq> ri_turn identity
          \<or> (ev_epoch e \<noteq> None \<and> epoch \<noteq> None \<and> ev_epoch e \<noteq> epoch))"

text \<open>A new streak whose first evidence is the current event, and one more event of a streak.\<close>

definition open_streak ::
    "occasion \<Rightarrow> signal_type \<Rightarrow> string \<Rightarrow> string \<Rightarrow> int \<Rightarrow> string list \<Rightarrow> streak" where
  "open_streak i kind feature key count resources =
     \<lparr>sk_id = signal_id i kind key, sk_type = kind, sk_feature = feature, sk_key = key,
      sk_identity = in_identity i, sk_epoch = ev_epoch (in_event i),
      sk_first = ev_at (in_event i), sk_last = ev_at (in_event i), sk_count = count,
      sk_evidence = [in_id i], sk_resources = resources, sk_emitted = False\<rparr>"

definition extend_streak :: "occasion \<Rightarrow> int \<Rightarrow> streak \<Rightarrow> streak" where
  "extend_streak i count s =
     s\<lparr>sk_last := ev_at (in_event i), sk_count := count,
       sk_evidence := take_last evidence_limit (sk_evidence s @ [in_id i])\<rparr>"

text \<open>
  The lifecycle step the counting rules share: below the threshold nothing is said, the first
  time at or above it the signal is active, afterwards it is cooled down.
\<close>

definition announce :: "int \<Rightarrow> occasion \<Rightarrow> streak \<Rightarrow> streak \<times> signal_candidate list" where
  "announce threshold i s =
     (if threshold \<le> sk_count s
      then (s\<lparr>sk_emitted := True\<rparr>,
            [candidate s (if sk_emitted s then SignalCooledDown else SignalActive)
               (in_id i) (in_version i)])
      else (s, []))"

section \<open>Equivalence keys\<close>

definition resources_of :: "payload \<Rightarrow> string list" where
  "resources_of p =
     (let files = (case get p ''files'' of
            PList xs \<Rightarrow> map (\<lambda>f. ''file:'' @ f) (filter (\<lambda>f. f \<noteq> []) (strings_of xs))
          | _ \<Rightarrow> []);
          scope = (case py_or (get p ''resource'') (get p ''scope'') of
            PStr r \<Rightarrow> if r \<noteq> [] then [''resource:'' @ r] else [] | _ \<Rightarrow> []);
          tool = (case (py_or (get p ''server'') (get p ''namespace''), get p ''tool'') of
            (PStr server, PStr t) \<Rightarrow>
              if server \<noteq> [] \<and> t \<noteq> [] then [''tool:'' @ server @ ''/'' @ t] else []
          | _ \<Rightarrow> [])
      in sorted_set (files @ scope @ tool))"

definition outcome_families :: "(string, string) dict" where
  "outcome_families = [(''command_result'', ''command''), (''file_edit'', ''file_change''),
     (''test_result'', ''test''), (''tool_result'', ''tool'')]"

text \<open>
  \<open>None\<close> stands for the pair \<open>(None, ())\<close>. Both callers have checked that the kind is an
  outcome kind, so the lookup of the family never fails (\<open>outcome_families_total\<close>).
\<close>

definition equivalence :: "trace_event \<Rightarrow> (string \<times> string list) option" where
  "equivalence e =
     (let found = resources_of (ev_payload e);
          resources = (if ev_kind e = ''test_result'' \<and> found = [] then [''validation''] else found)
      in if resources = [] then None
         else map_option (\<lambda>family. (family @ '':'' @ join ''|'' resources, resources))
                (dget outcome_families (ev_kind e)))"

lemma outcome_families_total: "k \<in> signal_outcome_kinds \<Longrightarrow> dget outcome_families k \<noteq> None"
  by (auto simp: signal_outcome_kinds_def outcome_families_def dict_eval)

definition deterministic_block_equivalence :: "pyval \<Rightarrow> payload \<Rightarrow> (string \<times> string list) option" where
  "deterministic_block_equivalence rule proposal =
     (case rule of
        PStr r \<Rightarrow>
          if r = [] then None
          else
            let files = (case get proposal ''files'' of
                  PList xs \<Rightarrow> sorted_set (map (\<lambda>f. ''file:'' @ f) (filter (\<lambda>f. f \<noteq> []) (strings_of xs)))
                | _ \<Rightarrow> []);
                resources = (if files = [] then [''gate-rule:'' @ r] else files)
            in Some (r @ '':'' @ join ''|'' resources, resources)
      | _ \<Rightarrow> None)"

definition normalized_path :: "string \<Rightarrow> string option" where
  "normalized_path value =
     (let path = removeprefix (strip value) ''./'' in
      if path = [] \<or> startswith path ''/'' \<or> startswith path ''~'' \<or> startswith path ''../''
         \<or> contains ''://'' path \<or> \<not> path_chars_fullmatch path
         \<or> ''..'' \<in> set (split_on (CHR ''/'') path)
      then None
      else let bare = rstrip_when (\<lambda>c. c = CHR ''/'') path
           in Some (if bare = [] then path else bare))"

definition normalized_paths :: "pyval \<Rightarrow> string list" where
  "normalized_paths raw =
     (case raw of
        PList xs \<Rightarrow>
          if length xs > scope_limit then []
          else sorted_set (List.map_filter normalized_path (strings_of xs))
      | _ \<Rightarrow> [])"

text \<open>The characters stripped around a word of a prompt: quotes, brackets and punctuation.\<close>

definition token_edge :: "char \<Rightarrow> bool" where
  "token_edge c = (code c \<in> {96, 39, 34, 40, 41, 91, 93, 123, 125, 60, 62, 44, 58, 59})"

definition prompt_token :: "string \<Rightarrow> string" where
  "prompt_token raw = rstrip_when (\<lambda>c. c = CHR ''.'') (strip_when token_edge raw)"

definition declared_paths :: "payload \<Rightarrow> string list" where
  "declared_paths p =
     (let expected = normalized_paths (get p ''expected_paths'');
          texts = (case get p ''prompt'' of PStr s \<Rightarrow> [s] | _ \<Rightarrow> [])
            @ (case get p ''content'' of PList parts \<Rightarrow> part_texts ''text'' parts | _ \<Rightarrow> [])
      in if sum_list (map length texts) > scope_text_limit then expected
         else foldl (\<lambda>paths raw.
                let token = prompt_token raw in
                if CHR ''/'' \<in> set token \<and> path_chars_fullmatch token
                then sorted_set (paths @ normalized_paths (PList [PStr token])) else paths)
              expected (concat (map split_ws texts)))"

definition hypothesis_ids :: "pyval \<Rightarrow> string list" where
  "hypothesis_ids raw =
     (case raw of
        PList xs \<Rightarrow>
          if length xs > hypothesis_limit then []
          else dedup (filter (\<lambda>s. s \<noteq> [] \<and> length s \<le> hypothesis_id_limit)
                 (map strip (strings_of xs)))
      | _ \<Rightarrow> [])"

definition nonnegative_int :: "pyval \<Rightarrow> int option" where
  "nonnegative_int v = (case v of PInt i \<Rightarrow> if 0 \<le> i then Some i else None | _ \<Rightarrow> None)"

definition positive_int :: "pyval \<Rightarrow> int option" where
  "positive_int v = (case v of PInt i \<Rightarrow> if 0 < i then Some i else None | _ \<Rightarrow> None)"

definition duration_ms :: "pyval \<Rightarrow> float64 option result" where
  "duration_ms v = rbind (number v) (\<lambda>x. Inr (case x of
     Some d \<Rightarrow> if fl_le (Fin 0) d \<and> is_finite d then Some d else None
   | None \<Rightarrow> None))"

text \<open>\<open>statistics.median\<close> of finite doubles (the only ones a baseline keeps).\<close>

definition fl_rank :: "float64 \<Rightarrow> rat" where
  "fl_rank x = (case x of Fin a \<Rightarrow> a | _ \<Rightarrow> 0)"

definition median :: "float64 list \<Rightarrow> float64" where
  "median xs =
     (let data = sort_key fl_rank xs; n = length data; m = n div 2 in
      if odd n then data ! m else fl_div (fl_add (data ! (m - 1)) (data ! m)) (Fin 2))"

definition within_expected :: "string \<Rightarrow> string \<Rightarrow> bool" where
  "within_expected path expected =
     (path = expected \<or> startswith path (rstrip_when (\<lambda>c. c = CHR ''/'') expected @ ''/''))"

definition tool_call_equivalence :: "trace_event \<Rightarrow> (string \<times> string list) option" where
  "tool_call_equivalence e =
     (case resources_of (ev_payload e) of
        [r] \<Rightarrow>
          if startswith r ''tool:'' then
            map_option (\<lambda>arguments. (r @ '':'' @ sha256_hex arguments, [r]))
              (json_dumps (case dget (ev_payload e) ''arguments'' of Some v \<Rightarrow> v | None \<Rightarrow> PDict []))
          else None
      | _ \<Rightarrow> None)"

definition tool_name :: "string \<Rightarrow> string" where
  "tool_name t = lower (after_last ''.'' (after_last ''/'' (after_last ''__'' t)))"

definition reads :: "string \<Rightarrow> bool" where
  "reads name = list_ex (\<lambda>verb. name = verb \<or> startswith name (verb @ ''_'')
     \<or> startswith name (verb @ ''-'')) read_verbs"

definition read_resources :: "payload \<Rightarrow> string list" where
  "read_resources arguments =
     sorted_set (List.map_filter (\<lambda>kv. case (dget read_resource_keys (lower (fst kv)), snd kv) of
        (Some kind, PStr value) \<Rightarrow>
          if strip value \<noteq> [] then Some (kind @ '':'' @ strip value) else None
      | _ \<Rightarrow> None) arguments)"

definition read_observation :: "trace_event \<Rightarrow> (string list \<times> string) option" where
  "read_observation e =
     (let p = ev_payload e in
      if ev_kind e \<noteq> ''tool_result'' \<or> outcome_failure p \<noteq> Some False then None
      else case (get p ''tool'', get p ''arguments'') of
        (PStr t, PDict arguments) \<Rightarrow>
          let resources = read_resources arguments in
          if \<not> reads (tool_name t) \<or> resources = [] then None
          else (case opt_or (dget p ''result'') (dget p ''contentItems'') of
             None \<Rightarrow> None
           | Some evidence \<Rightarrow>
               map_option (\<lambda>observation. (resources, sha256_hex observation))
                 (json_dumps (PList [PList (map PStr resources), evidence, PDict arguments])))
      | _ \<Rightarrow> None)"

end
