(* ===== verification/Signal_Engine.thy ===== *)
theory Signal_Engine
  imports Signal_Core
begin

text \<open>
  Model of \<open>SignalEngine\<close> (\<open>src/spotter/signals.py\<close>): the per-thread tables of the engine,
  one definition per rule, the two sweeps of \<open>update\<close> and \<open>hydrate\<close>. A rule takes the engine
  and returns it updated beside the candidates it reports, in the code's order. The only
  rule that can raise is the duration rule (a conversion between numbers can overflow).
\<close>

section \<open>Configuration and state\<close>

record signal_config =
  failure_threshold :: int
  repeated_tool_threshold :: int
  no_frontier_threshold :: int
  scope_growth_threshold :: int
  unvalidated_edit_threshold :: int
  context_window_percent :: int
  duration_factor_percent :: int

definition default_signal_config :: signal_config where
  "default_signal_config = \<lparr>failure_threshold = 2, repeated_tool_threshold = 3,
     no_frontier_threshold = 3, scope_growth_threshold = 3, unvalidated_edit_threshold = 3,
     context_window_percent = 80, duration_factor_percent = 300\<rparr>"

record engine =
  en_failure :: "(thread_id, streak) dict"
  en_repeated :: "(thread_id, streak) dict"
  en_reading :: "(thread_id, streak) dict"
  en_frontiers :: "(thread_id, read_frontier) dict"
  en_blocked :: "(thread_id \<times> string, streak) dict"
  en_scopes :: "(thread_id, declared_scope) dict"
  en_growths :: "(thread_id, streak) dict"
  en_edits :: "(thread_id, streak) dict"
  en_sources :: "(thread_id, (string, string) dict) dict"
  en_stale :: "(thread_id \<times> string, streak) dict"
  en_budget :: "(thread_id \<times> string, streak) dict"
  en_durations :: "(thread_id \<times> string, duration_baseline) dict"
  en_seen :: "(thread_id, string set) dict"

definition empty_engine :: engine where
  "empty_engine = \<lparr>en_failure = [], en_repeated = [], en_reading = [], en_frontiers = [],
     en_blocked = [], en_scopes = [], en_growths = [], en_edits = [], en_sources = [],
     en_stale = [], en_budget = [], en_durations = [], en_seen = []\<rparr>"

definition new_engine :: "signal_config \<Rightarrow> engine result" where
  "new_engine cfg =
     (if failure_threshold cfg < 2 then Inl (ValueError ''failure signal threshold must be >= 2'')
      else if repeated_tool_threshold cfg < 2
      then Inl (ValueError ''repeated tool signal threshold must be >= 2'')
      else if no_frontier_threshold cfg < 2
      then Inl (ValueError ''no-frontier read signal threshold must be >= 2'')
      else if scope_growth_threshold cfg < 2
      then Inl (ValueError ''scope-growth signal threshold must be >= 2'')
      else if unvalidated_edit_threshold cfg < 2
      then Inl (ValueError ''unvalidated-edit signal threshold must be >= 2'')
      else if \<not> (1 \<le> context_window_percent cfg \<and> context_window_percent cfg \<le> 100)
      then Inl (ValueError ''context-window threshold must be between 1 and 100'')
      else if duration_factor_percent cfg \<le> 100
      then Inl (ValueError ''duration anomaly factor must be > 100'')
      else Inr empty_engine)"

text \<open>The configurations the constructor accepts.\<close>

definition config_ok :: "signal_config \<Rightarrow> bool" where
  "config_ok cfg \<longleftrightarrow> 2 \<le> failure_threshold cfg \<and> 2 \<le> repeated_tool_threshold cfg
     \<and> 2 \<le> no_frontier_threshold cfg \<and> 2 \<le> scope_growth_threshold cfg
     \<and> 2 \<le> unvalidated_edit_threshold cfg
     \<and> 1 \<le> context_window_percent cfg \<and> context_window_percent cfg \<le> 100
     \<and> 100 < duration_factor_percent cfg"

lemma new_engine_iff: "new_engine cfg = Inr g \<longleftrightarrow> config_ok cfg \<and> g = empty_engine"
  by (auto simp: new_engine_def config_ok_def)

section \<open>Sweeps\<close>

text \<open>
  Dropping the streak of a thread when \<open>gone\<close> holds of it, from a table keyed by threads and
  from one keyed by threads and a second key; a dropped streak that was announced is reported
  as stale.
\<close>

definition drop_streak ::
    "(streak \<Rightarrow> bool) \<Rightarrow> occasion \<Rightarrow> (thread_id, streak) dict \<Rightarrow>
     (thread_id, streak) dict \<times> signal_candidate list" where
  "drop_streak gone i d =
     (case dget d (in_thread i) of
        None \<Rightarrow> (d, [])
      | Some s \<Rightarrow> if gone s then (dpop (in_thread i) d, finish s SignalStale i) else (d, []))"

definition drop_streaks ::
    "(streak \<Rightarrow> bool) \<Rightarrow> occasion \<Rightarrow> (thread_id \<times> string, streak) dict \<Rightarrow>
     (thread_id \<times> string, streak) dict \<times> signal_candidate list" where
  "drop_streaks gone i d =
     (filter (\<lambda>ks. \<not> (fst (fst ks) = in_thread i \<and> gone (snd ks))) d,
      concat (map (\<lambda>ks. finish (snd ks) SignalStale i)
        (filter (\<lambda>ks. fst (fst ks) = in_thread i \<and> gone (snd ks)) d)))"

definition streak_moved :: "occasion \<Rightarrow> streak \<Rightarrow> bool" where
  "streak_moved i s = target_changed (sk_identity s) (sk_epoch s) (in_event i)"

text \<open>The first sweep: whatever was tracked for another turn or another connection is dropped.\<close>

definition sweep_changed :: "occasion \<Rightarrow> engine \<Rightarrow> engine \<times> signal_candidate list" where
  "sweep_changed i g =
     (let tid = in_thread i; e = in_event i; moved = streak_moved i;
          (failure, c1) = drop_streak moved i (en_failure g);
          (repeated, c2) = drop_streak moved i (en_repeated g);
          (reading, c3) = drop_streak moved i (en_reading g);
          frontiers = (case dget (en_frontiers g) tid of
            Some f \<Rightarrow> if target_changed (rf_identity f) (rf_epoch f) e
                      then dpop tid (en_frontiers g) else en_frontiers g
          | None \<Rightarrow> en_frontiers g);
          scopes = (case dget (en_scopes g) tid of
            Some d \<Rightarrow> if target_changed (ds_identity d) (ds_epoch d) e
                      then dpop tid (en_scopes g) else en_scopes g
          | None \<Rightarrow> en_scopes g);
          (growths, c4) = drop_streak moved i (en_growths g);
          (edits, c5) = drop_streak moved i (en_edits g);
          sources = (case dget (en_edits g) tid of
            Some s \<Rightarrow> if moved s then dpop tid (en_sources g) else en_sources g
          | None \<Rightarrow> en_sources g);
          (blocked, c6) = drop_streaks moved i (en_blocked g);
          (stale, c7) = drop_streaks moved i (en_stale g);
          (budget, c8) = drop_streaks moved i (en_budget g);
          durations = filter (\<lambda>kb. \<not> (fst (fst kb) = tid
            \<and> target_changed (db_identity (snd kb)) (db_epoch (snd kb)) e)) (en_durations g)
      in (g\<lparr>en_failure := failure, en_repeated := repeated, en_reading := reading,
            en_frontiers := frontiers, en_blocked := blocked, en_scopes := scopes,
            en_growths := growths, en_edits := edits, en_sources := sources, en_stale := stale,
            en_budget := budget, en_durations := durations\<rparr>,
          c1 @ c2 @ c3 @ c4 @ c5 @ c6 @ c7 @ c8))"

text \<open>The second sweep, on a terminal event: everything tracked for the thread is dropped.\<close>

definition sweep_terminal :: "occasion \<Rightarrow> engine \<Rightarrow> engine \<times> signal_candidate list" where
  "sweep_terminal i g =
     (let tid = in_thread i; all = (\<lambda>_. True);
          (failure, c1) = drop_streak all i (en_failure g);
          (repeated, c2) = drop_streak all i (en_repeated g);
          (reading, c3) = drop_streak all i (en_reading g);
          (growths, c4) = drop_streak all i (en_growths g);
          (edits, c5) = drop_streak all i (en_edits g);
          (blocked, c6) = drop_streaks all i (en_blocked g);
          (stale, c7) = drop_streaks all i (en_stale g);
          (budget, c8) = drop_streaks all i (en_budget g)
      in (g\<lparr>en_failure := failure, en_repeated := repeated, en_reading := reading,
            en_frontiers := dpop tid (en_frontiers g), en_blocked := blocked,
            en_scopes := dpop tid (en_scopes g), en_growths := growths, en_edits := edits,
            en_sources := dpop tid (en_sources g), en_stale := stale, en_budget := budget,
            en_durations := filter (\<lambda>kb. fst (fst kb) \<noteq> tid) (en_durations g)\<rparr>,
          c1 @ c2 @ c3 @ c4 @ c5 @ c6 @ c7 @ c8))"

section \<open>The budget rules\<close>

definition token_counts :: "payload \<Rightarrow> (int \<times> int) option" where
  "token_counts p =
     (case (case get p ''total'' of PDict d \<Rightarrow> nonnegative_int (get d ''totalTokens'') | _ \<Rightarrow> None,
            positive_int (get p ''modelContextWindow'')) of
        (Some used, Some window) \<Rightarrow> Some (used, window) | _ \<Rightarrow> None)"

definition context_key :: string where
  "context_key = ''context-window''"

definition context_budget ::
    "signal_config \<Rightarrow> occasion \<Rightarrow> engine \<Rightarrow> engine \<times> signal_candidate list" where
  "context_budget cfg i g =
     (let e = in_event i in
      if ev_kind e \<noteq> ''token_usage'' \<or> ri_turn (in_identity i) = None then (g, [])
      else case token_counts (ev_payload e) of
        None \<Rightarrow> (g, [])
      | Some (used, window) \<Rightarrow>
          let percent = min percent_limit (used * 100 div window);
              key = (in_thread i, context_key);
              old = dget (en_budget g) key
          in if percent < context_window_percent cfg
             then (case old of
                 None \<Rightarrow> (g, [])
               | Some s \<Rightarrow> (g\<lparr>en_budget := dpop key (en_budget g)\<rparr>, finish s SignalResolved i))
             else
               let (s, status) = (case old of
                     None \<Rightarrow> ((open_streak i BudgetAnomaly ''context_window_utilization_percent''
                        context_key percent [''budget:context-window''])\<lparr>sk_emitted := True\<rparr>,
                        SignalActive)
                   | Some s \<Rightarrow> (extend_streak i percent s, SignalCooledDown))
               in (g\<lparr>en_budget := dset key s (en_budget g)\<rparr>,
                   [(candidate s status (in_id i) (in_version i))
                      \<lparr>sc_features := [(''context_window_utilization_percent'', percent),
                         (''model_context_window_tokens'', window), (''total_tokens'', used)]\<rparr>]))"

text \<open>\<open>(*values, duration)[-20:]\<close>, kept with the identity and epoch of the current event.\<close>

definition keep_duration :: "occasion \<Rightarrow> string \<Rightarrow> float64 list \<Rightarrow> float64 \<Rightarrow> engine \<Rightarrow> engine" where
  "keep_duration i key values d g =
     g\<lparr>en_durations := dset (in_thread i, key)
         \<lparr>db_identity = in_identity i, db_epoch = ev_epoch (in_event i),
          db_values = take_last baseline_limit (values @ [d])\<rparr> (en_durations g)\<rparr>"

definition duration_percent :: "float64 \<Rightarrow> float64 \<Rightarrow> int result" where
  "duration_percent d reference =
     rbind (int_of_float (fl_div (fl_mul d (Fin 100)) reference)) (\<lambda>n. Inr (min percent_limit n))"

definition duration_anomaly ::
    "occasion \<Rightarrow> string \<Rightarrow> string list \<Rightarrow> int \<Rightarrow> nat \<Rightarrow> float64 \<Rightarrow> engine \<Rightarrow>
     engine \<times> signal_candidate list result" where
  "duration_anomaly i key resources percent samples reference g =
     (let bkey = (in_thread i, key);
          (s, status) = (case dget (en_budget g) bkey of
            None \<Rightarrow> ((open_streak i BudgetAnomaly ''duration_vs_median_percent'' key percent
               (''budget:duration'' # resources))\<lparr>sk_emitted := True\<rparr>, SignalActive)
          | Some s \<Rightarrow> (extend_streak i percent s, SignalCooledDown))
      in (g\<lparr>en_budget := dset bkey s (en_budget g)\<rparr>,
          rbind (round_of_float reference) (\<lambda>ms.
            Inr [(candidate s status (in_id i) (in_version i))
              \<lparr>sc_features := [(''duration_vs_median_percent'', percent),
                 (''duration_baseline_samples'', int samples),
                 (''duration_baseline_median_ms'', ms)]\<rparr>])))"

definition duration_budget ::
    "signal_config \<Rightarrow> occasion \<Rightarrow> engine \<Rightarrow> engine \<times> signal_candidate list result" where
  "duration_budget cfg i g =
     (let e = in_event i; p = ev_payload e in
      if ev_kind e \<notin> signal_outcome_kinds \<or> ri_turn (in_identity i) = None then (g, Inr [])
      else case duration_ms (get p ''durationMs'') of
        Inl err \<Rightarrow> (g, Inl err)
      | Inr measured \<Rightarrow>
        (case (measured, equivalence e) of
           (Some d, Some (same, resources)) \<Rightarrow>
             if resources_of p = [] then (g, Inr [])
             else
               let key = ''duration:'' @ same; bkey = (in_thread i, key);
                   values = (case dget (en_durations g) bkey of Some b \<Rightarrow> db_values b | None \<Rightarrow> []);
                   reference = median values
               in if length values < baseline_samples \<or> fl_le reference (Fin 0)
                  then (keep_duration i key values d g, Inr [])
                  else (case duration_percent d reference of
                      Inl err \<Rightarrow> (g, Inl err)
                    | Inr percent \<Rightarrow>
                        if percent < duration_factor_percent cfg
                        then (keep_duration i key values d
                                (g\<lparr>en_budget := dpop bkey (en_budget g)\<rparr>),
                              Inr (case dget (en_budget g) bkey of
                                Some s \<Rightarrow> finish s SignalResolved i | None \<Rightarrow> []))
                        else duration_anomaly i key resources percent (length values) reference g)
         | _ \<Rightarrow> (g, Inr [])))"

section \<open>Reuse of a stale hypothesis\<close>

definition stale_reuse_step ::
    "occasion \<Rightarrow> string list \<Rightarrow> engine \<times> signal_candidate list \<Rightarrow> string \<Rightarrow>
     engine \<times> signal_candidate list" where
  "stale_reuse_step i action_resources acc hid =
     (case acc of (g, cs) \<Rightarrow>
        let key = (in_thread i, hid);
            (s, status) = (case dget (en_stale g) key of
              None \<Rightarrow> ((open_streak i StaleHypothesisReuse ''causally_linked_actions'' hid 1
                 (dedup ((''hypothesis:'' @ hid) # action_resources)))\<lparr>sk_emitted := True\<rparr>,
                 SignalActive)
            | Some s \<Rightarrow> ((extend_streak i (sk_count s + 1) s)
                \<lparr>sk_resources := take scope_limit (dedup (sk_resources s @ action_resources))\<rparr>,
                SignalCooledDown))
        in (g\<lparr>en_stale := dset key s (en_stale g)\<rparr>,
            cs @ [candidate s status (in_id i) (in_version i)]))"

definition stale_hypothesis_reuse ::
    "signal_config \<Rightarrow> occasion \<Rightarrow> engine \<Rightarrow> engine \<times> signal_candidate list" where
  "stale_hypothesis_reuse cfg i g =
     (case in_state i of
        None \<Rightarrow> (g, [])
      | Some state \<Rightarrow>
          if ev_kind (in_event i) \<notin> causal_action_kinds then (g, [])
          else foldl (stale_reuse_step i (resources_of (ev_payload (in_event i)))) (g, [])
                 (sorted_set (filter (\<lambda>h. h \<in> es_stale (ts_evidence state))
                    (hypothesis_ids (get (ev_payload (in_event i)) ''hypothesis_ids'')))))"

section \<open>Edits without validation\<close>

definition unvalidated_resource :: "string list \<Rightarrow> string \<Rightarrow> bool" where
  "unvalidated_resource scopes r \<longleftrightarrow>
     \<not> list_ex (within_expected (removeprefix r ''file:'')) scopes"

text \<open>A passing test: the files within its scopes stop counting.\<close>

definition edits_validated ::
    "signal_config \<Rightarrow> occasion \<Rightarrow> engine \<Rightarrow> engine \<times> signal_candidate list" where
  "edits_validated cfg i g =
     (let p = ev_payload (in_event i); tid = in_thread i;
          scopes = normalized_paths (get p ''validated_paths'') in
      case dget (en_edits g) tid of
        None \<Rightarrow> (g, [])
      | Some s \<Rightarrow>
          if outcome_failure p \<noteq> Some False \<or> scopes = [] then (g, [])
          else
            let remaining = filter (unvalidated_resource scopes) (sk_resources s) in
            if remaining = sk_resources s then (g, [])
            else
              let sources = filter (\<lambda>kv. fst kv \<in> set remaining)
                    (case dget (en_sources g) tid of Some d \<Rightarrow> d | None \<Rightarrow> []);
                  g1 = g\<lparr>en_sources := dset tid sources (en_sources g)\<rparr>;
                  evidence = take_last evidence_limit (dedup (dvalues sources)) in
              if unvalidated_edit_threshold cfg \<le> int (length remaining)
              then
                let s' = s\<lparr>sk_last := ev_at (in_event i), sk_count := int (length remaining),
                           sk_evidence := evidence, sk_resources := remaining\<rparr>
                in (g1\<lparr>en_edits := dset tid s' (en_edits g1)\<rparr>,
                    if sk_emitted s' then [candidate s' SignalCooledDown (in_id i) (in_version i)]
                    else [])
              else if remaining \<noteq> []
              then (g1\<lparr>en_edits := dset tid
                       ((open_streak i EditsWithoutValidation ''files_without_validation''
                           ''remaining-unvalidated-files'' (int (length remaining)) remaining)
                         \<lparr>sk_key := ''unvalidated-files'', sk_evidence := evidence\<rparr>) (en_edits g1)\<rparr>,
                    finish s SignalResolved i)
              else (g1\<lparr>en_edits := dpop tid (en_edits g1), en_sources := dpop tid (en_sources g1)\<rparr>,
                    finish s SignalResolved i))"

definition edits_observed ::
    "signal_config \<Rightarrow> occasion \<Rightarrow> engine \<Rightarrow> engine \<times> signal_candidate list" where
  "edits_observed cfg i g =
     (let p = ev_payload (in_event i); tid = in_thread i; old = dget (en_edits g) tid;
          resources = map (\<lambda>f. ''file:'' @ f) (normalized_paths (get p ''files''));
          known = (case old of Some s \<Rightarrow> sk_resources s | None \<Rightarrow> []);
          new_resources = sorted_set (filter (\<lambda>r. r \<notin> set known) resources);
          combined = take scope_limit (known @ new_resources) in
      if ev_kind (in_event i) = ''file_edit'' \<and> outcome_failure p \<noteq> Some False then (g, [])
      else if new_resources = [] then (g, [])
      else if old \<noteq> None \<and> combined = known then (g, [])
      else
        let sources0 = (case dget (en_sources g) tid of Some d \<Rightarrow> d | None \<Rightarrow> []);
            sources = foldl (\<lambda>d r. if r \<in> set new_resources then dset r (in_id i) d else d)
              sources0 combined;
            count = int (length combined);
            s = (case old of
              None \<Rightarrow> open_streak i EditsWithoutValidation ''files_without_validation''
                ''unvalidated-files'' count combined
            | Some s \<Rightarrow> (extend_streak i count s)\<lparr>sk_resources := combined\<rparr>);
            (s', cs) = announce (unvalidated_edit_threshold cfg) i s
        in (g\<lparr>en_sources := dset tid sources (en_sources g),
              en_edits := dset tid s' (en_edits g)\<rparr>, cs))"

definition unvalidated_edits ::
    "signal_config \<Rightarrow> occasion \<Rightarrow> engine \<Rightarrow> engine \<times> signal_candidate list" where
  "unvalidated_edits cfg i g =
     (if ev_kind (in_event i) = ''test_result'' then edits_validated cfg i g
      else if ev_kind (in_event i) \<in> {''file_edit'', ''diff_updated''} then edits_observed cfg i g
      else (g, []))"

section \<open>Growth of the touched scope\<close>

definition scope_declared ::
    "signal_config \<Rightarrow> occasion \<Rightarrow> engine \<Rightarrow> engine \<times> signal_candidate list" where
  "scope_declared cfg i g =
     (let tid = in_thread i; paths = declared_paths (ev_payload (in_event i));
          scopes = (if paths \<noteq> []
            then dset tid \<lparr>ds_identity = in_identity i, ds_epoch = ev_epoch (in_event i),
                           ds_paths = paths\<rparr> (en_scopes g)
            else dpop tid (en_scopes g))
      in (g\<lparr>en_growths := dpop tid (en_growths g), en_scopes := scopes\<rparr>,
          (case dget (en_growths g) tid of Some s \<Rightarrow> finish s SignalStale i | None \<Rightarrow> [])))"

definition scope_observed ::
    "signal_config \<Rightarrow> occasion \<Rightarrow> engine \<Rightarrow> engine \<times> signal_candidate list" where
  "scope_observed cfg i g =
     (let p = ev_payload (in_event i); tid = in_thread i in
      if ev_kind (in_event i) = ''file_edit'' \<and> outcome_failure p \<noteq> Some False then (g, [])
      else case dget (en_scopes g) tid of
        None \<Rightarrow> (g, [])
      | Some scope \<Rightarrow>
          let outside = map (\<lambda>f. ''file:'' @ f)
                (filter (\<lambda>f. \<not> list_ex (within_expected f) (ds_paths scope))
                  (normalized_paths (get p ''files'')));
              old = dget (en_growths g) tid;
              known = (case old of Some s \<Rightarrow> sk_resources s | None \<Rightarrow> []);
              new_resources = sorted_set (filter (\<lambda>r. r \<notin> set known) outside);
              resources = take scope_limit (known @ new_resources) in
          if new_resources = [] then (g, [])
          else if old \<noteq> None \<and> resources = known then (g, [])
          else
            let count = int (length resources);
                s = (case old of
                  None \<Rightarrow> open_streak i TouchedScopeGrowth ''files_outside_declared_scope''
                    ''outside-declared-scope'' count resources
                | Some s \<Rightarrow> (extend_streak i count s)\<lparr>sk_resources := resources\<rparr>);
                (s', cs) = announce (scope_growth_threshold cfg) i s
            in (g\<lparr>en_growths := dset tid s' (en_growths g)\<rparr>, cs))"

definition scope_growth ::
    "signal_config \<Rightarrow> occasion \<Rightarrow> engine \<Rightarrow> engine \<times> signal_candidate list" where
  "scope_growth cfg i g =
     (if ev_kind (in_event i) = ''user_prompt'' then scope_declared cfg i g
      else if ev_kind (in_event i) \<in> {''file_edit'', ''diff_updated''} then scope_observed cfg i g
      else (g, []))"

section \<open>Recurrence after a deterministic block\<close>

definition block_fields :: "payload \<Rightarrow> (string \<times> string list) option" where
  "block_fields p =
     (case (get p ''equivalence_key'', get p ''involved_resources'') of
        (PStr key, PList raw) \<Rightarrow>
          let resources = sorted_set (filter (\<lambda>r. r \<noteq> []) (strings_of raw))
          in if key = [] \<or> resources = [] then None else Some (key, resources)
      | _ \<Rightarrow> None)"

text \<open>A full table gives up the thread's oldest entry.\<close>

definition evict_block :: "occasion \<Rightarrow> engine \<Rightarrow> engine \<times> signal_candidate list" where
  "evict_block i g =
     (let thread_keys = filter (\<lambda>k. fst k = in_thread i) (dkeys (en_blocked g)) in
      if length thread_keys \<ge> block_limit
      then (g\<lparr>en_blocked := dpop (hd thread_keys) (en_blocked g)\<rparr>,
            (case dget (en_blocked g) (hd thread_keys) of
               Some s \<Rightarrow> finish s SignalStale i | None \<Rightarrow> []))
      else (g, []))"

definition block_recurrence ::
    "signal_config \<Rightarrow> occasion \<Rightarrow> engine \<Rightarrow> engine \<times> signal_candidate list" where
  "block_recurrence cfg i g =
     (if ev_kind (in_event i) \<noteq> ''deterministic_gate_block'' then (g, [])
      else case block_fields (ev_payload (in_event i)) of
        None \<Rightarrow> (g, [])
      | Some (key, resources) \<Rightarrow>
          let bkey = (in_thread i, key);
              (g1, evicted, s) = (case dget (en_blocked g) bkey of
                Some s \<Rightarrow> (g, [], extend_streak i (sk_count s + 1) s)
              | None \<Rightarrow>
                  let (g1, evicted) = evict_block i g
                  in (g1, evicted, open_streak i RecurrenceAfterDeterministicBlock
                        ''equivalent_blocked_attempts'' key 1 resources));
              (s', cs) = announce 2 i s
          in (g1\<lparr>en_blocked := dset bkey s' (en_blocked g1)\<rparr>, evicted @ cs))"

section \<open>Repeated equivalent tool calls\<close>

definition drop_repeated :: "occasion \<Rightarrow> engine \<Rightarrow> engine \<times> signal_candidate list" where
  "drop_repeated i g =
     (case dget (en_repeated g) (in_thread i) of
        None \<Rightarrow> (g, [])
      | Some s \<Rightarrow> (g\<lparr>en_repeated := dpop (in_thread i) (en_repeated g)\<rparr>, finish s SignalStale i))"

definition repeated_tool ::
    "signal_config \<Rightarrow> occasion \<Rightarrow> engine \<Rightarrow> engine \<times> signal_candidate list" where
  "repeated_tool cfg i g =
     (let e = in_event i; tid = in_thread i; old = dget (en_repeated g) tid in
      if ev_kind e \<noteq> ''tool_result''
      then (if ev_kind e \<in> signal_outcome_kinds then drop_repeated i g else (g, []))
      else if outcome_failure (ev_payload e) \<noteq> Some False then drop_repeated i g
      else case tool_call_equivalence e of
        None \<Rightarrow> drop_repeated i g
      | Some (key, resources) \<Rightarrow>
          let (kept, finished) = (case old of
                None \<Rightarrow> (None, [])
              | Some s \<Rightarrow> if sk_key s \<noteq> key then (None, finish s SignalStale i) else (Some s, []));
              s = (case kept of
                None \<Rightarrow> open_streak i RepeatedEquivalentToolCall ''consecutive_equivalent_calls''
                  key 1 resources
              | Some s \<Rightarrow> extend_streak i (sk_count s + 1) s);
              (s', cs) = announce (repeated_tool_threshold cfg) i s
          in (g\<lparr>en_repeated := dset tid s' (en_repeated g)\<rparr>, finished @ cs))"

section \<open>Reads that expand no frontier\<close>

definition drop_reading :: "occasion \<Rightarrow> engine \<Rightarrow> engine \<times> signal_candidate list" where
  "drop_reading i g =
     (case dget (en_reading g) (in_thread i) of
        None \<Rightarrow> (g, [])
      | Some s \<Rightarrow> (g\<lparr>en_reading := dpop (in_thread i) (en_reading g)\<rparr>, finish s SignalStale i))"

definition known_observations :: "engine \<Rightarrow> thread_id \<Rightarrow> string set" where
  "known_observations g tid =
     (case dget (en_frontiers g) tid of Some f \<Rightarrow> rf_observations f | None \<Rightarrow> {})"

definition no_frontier_reads ::
    "signal_config \<Rightarrow> occasion \<Rightarrow> engine \<Rightarrow> engine \<times> signal_candidate list" where
  "no_frontier_reads cfg i g =
     (let e = in_event i; tid = in_thread i in
      case read_observation e of
        None \<Rightarrow>
          if ev_kind e \<notin> frontier_reset_kinds \<and> ev_kind e \<noteq> ''tool_result'' then (g, [])
          else drop_reading i g
      | Some (resources, key) \<Rightarrow>
          let known = known_observations g tid in
          if key \<notin> known
          then drop_reading i
                 (g\<lparr>en_frontiers := dset tid
                      \<lparr>rf_identity = in_identity i, rf_epoch = ev_epoch e,
                       rf_observations =
                         set (take_last (frontier_limit - 1) (sorted_list_of_set known) @ [key])\<rparr>
                      (en_frontiers g)\<rparr>)
          else
            let s = (case dget (en_reading g) tid of
                  None \<Rightarrow> open_streak i RepeatedReadNoFrontier ''reads_without_frontier_expansion''
                    ''known-resources'' 1 resources
                | Some s \<Rightarrow> (extend_streak i (sk_count s + 1) s)
                    \<lparr>sk_resources := sorted_set (sk_resources s @ resources)\<rparr>);
                (s', cs) = announce (no_frontier_threshold cfg) i s
            in (g\<lparr>en_reading := dset tid s' (en_reading g)\<rparr>, cs))"

section \<open>Failure streaks\<close>

definition drop_failure :: "signal_status \<Rightarrow> occasion \<Rightarrow> engine \<Rightarrow> engine \<times> signal_candidate list" where
  "drop_failure status i g =
     (case dget (en_failure g) (in_thread i) of
        None \<Rightarrow> (g, [])
      | Some s \<Rightarrow> (g\<lparr>en_failure := dpop (in_thread i) (en_failure g)\<rparr>, finish s status i))"

definition failure_streak ::
    "signal_config \<Rightarrow> occasion \<Rightarrow> engine \<Rightarrow> engine \<times> signal_candidate list" where
  "failure_streak cfg i g =
     (let e = in_event i; tid = in_thread i in
      if ev_kind e \<notin> signal_outcome_kinds then (g, [])
      else case (equivalence e, outcome_failure (ev_payload e)) of
        (Some (key, resources), Some True) \<Rightarrow>
          let (kept, finished) = (case dget (en_failure g) tid of
                None \<Rightarrow> (None, [])
              | Some s \<Rightarrow> if sk_key s \<noteq> key then (None, finish s SignalStale i) else (Some s, []));
              s = (case kept of
                None \<Rightarrow> open_streak i FailureStreak ''consecutive_failures'' key 1 resources
              | Some s \<Rightarrow> extend_streak i (sk_count s + 1) s);
              (s', cs) = announce (failure_threshold cfg) i s
          in (g\<lparr>en_failure := dset tid s' (en_failure g)\<rparr>, finished @ cs)
      | (Some _, Some False) \<Rightarrow> drop_failure SignalResolved i g
      | _ \<Rightarrow> drop_failure SignalStale i g)"

section \<open>update and hydrate\<close>

text \<open>One rule after another, the candidates in order.\<close>

definition then_rule ::
    "(engine \<Rightarrow> engine \<times> signal_candidate list) \<Rightarrow> engine \<times> signal_candidate list \<Rightarrow>
     engine \<times> signal_candidate list" where
  "then_rule rule acc = (case acc of (g, cs) \<Rightarrow> case rule g of (g', cs') \<Rightarrow> (g', cs @ cs'))"

definition later_rules ::
    "signal_config \<Rightarrow> occasion \<Rightarrow> engine \<times> signal_candidate list \<Rightarrow> engine \<times> signal_candidate list" where
  "later_rules cfg i acc =
     then_rule (failure_streak cfg i)
    (then_rule (no_frontier_reads cfg i)
    (then_rule (repeated_tool cfg i)
    (then_rule (block_recurrence cfg i)
    (then_rule (stale_hypothesis_reuse cfg i)
    (then_rule (unvalidated_edits cfg i)
    (then_rule (scope_growth cfg i) acc))))))"

definition update_fresh ::
    "signal_config \<Rightarrow> occasion \<Rightarrow> engine \<Rightarrow> engine \<times> signal_candidate list result" where
  "update_fresh cfg i g =
     (case sweep_changed i g of (g1, c1) \<Rightarrow>
        if ev_kind (in_event i) \<in> terminal_kinds
        then (case sweep_terminal i g1 of (g2, c2) \<Rightarrow> (g2, Inr (c1 @ c2)))
        else case then_rule (context_budget cfg i) (g1, c1) of (g2, c2) \<Rightarrow>
          (case duration_budget cfg i g2 of
             (g3, Inl err) \<Rightarrow> (g3, Inl err)
           | (g3, Inr c3) \<Rightarrow>
               (case later_rules cfg i (g3, c2 @ c3) of (g4, c4) \<Rightarrow> (g4, Inr c4))))"

definition seen_of :: "engine \<Rightarrow> thread_id \<Rightarrow> string set" where
  "seen_of g tid = (case dget (en_seen g) tid of Some ids \<Rightarrow> ids | None \<Rightarrow> {})"

definition update ::
    "signal_config \<Rightarrow> engine \<Rightarrow> trace_event \<Rightarrow> nat \<Rightarrow> thread_state option \<Rightarrow>
     engine \<times> signal_candidate list result" where
  "update cfg g e version state =
     (case (ev_identity e, ev_id e) of
        (Some identity, Some eid) \<Rightarrow>
          (case ri_thread identity of
             None \<Rightarrow> (g, Inr [])
           | Some tid \<Rightarrow>
               if eid \<in> seen_of g tid then (g, Inr [])
               else update_fresh cfg
                 \<lparr>in_event = e, in_identity = identity, in_thread = tid, in_id = eid,
                  in_version = version, in_state = state\<rparr>
                 (g\<lparr>en_seen := dset tid (insert eid (seen_of g tid)) (en_seen g)\<rparr>))
      | _ \<Rightarrow> (g, Inr []))"

type_synonym pending = "(string, signal_candidate \<times> trace_event) dict"

definition add_pending :: "trace_event \<Rightarrow> pending \<Rightarrow> signal_candidate \<Rightarrow> pending" where
  "add_pending e pending c = dset (signal_event_id c) (c, e) pending"

fun hydrate_records ::
    "signal_config \<Rightarrow> store \<Rightarrow> pending \<Rightarrow> engine \<Rightarrow> trace_event list \<Rightarrow> engine \<times> pending result" where
  "hydrate_records cfg states pending g [] = (g, Inr pending)"
| "hydrate_records cfg states pending g (e # es) =
     (if event_thread e = None then hydrate_records cfg states pending g es
      else case observe states e of
        (states', Inl err) \<Rightarrow> (g, Inl err)
      | (states', Inr state) \<Rightarrow>
          if ev_kind e \<in> {''signal_candidate'', ''signal_candidate_suppressed''}
          then hydrate_records cfg states'
                 (case ev_id e of Some i \<Rightarrow> dpop i pending | None \<Rightarrow> pending) g es
          else (case update cfg g e (ts_version state) (Some state) of
              (g', Inl err) \<Rightarrow> (g', Inl err)
            | (g', Inr cs) \<Rightarrow>
                hydrate_records cfg states' (foldl (add_pending e) pending cs) g' es))"

definition hydrate_engine ::
    "signal_config \<Rightarrow> step_record list \<Rightarrow> engine \<times> (signal_candidate \<times> trace_event) list result" where
  "hydrate_engine cfg records =
     (case hydrate_records cfg empty_store [] empty_engine (map sr_event records) of
        (g, r) \<Rightarrow> (g, rbind r (\<lambda>pending. Inr (dvalues pending))))"

end
