(* ===== verification/Signal_Invariants.thy ===== *)
theory Signal_Invariants
  imports Signal_Engine
begin

text \<open>
  The invariant of the signal engine and the contract every rule keeps: the tables stay
  well formed and bounded, the candidates concern the event that caused them, and other
  threads are left alone. The contract is the interface \<open>signal_rule\<close>; each rule of the
  code is an interpretation of it.
\<close>

section \<open>Tables\<close>

definition table :: "('k \<Rightarrow> 'v \<Rightarrow> bool) \<Rightarrow> ('k, 'v) dict \<Rightarrow> bool" where
  "table P d \<longleftrightarrow> dict_ok d \<and> (\<forall>k v. dget d k = Some v \<longrightarrow> P k v)"

lemma table_empty [simp]: "table P []"
  by (simp add: table_def)

lemma table_dset [intro]: "table P d \<Longrightarrow> P k v \<Longrightarrow> table P (dset k v d)"
  by (auto simp: table_def split: if_splits)

lemma table_dpop [intro]: "table P d \<Longrightarrow> table P (dpop k d)"
  by (auto simp: table_def split: if_splits)

lemma table_get: "table P d \<Longrightarrow> dget d k = Some v \<Longrightarrow> P k v"
  by (simp add: table_def)

lemma table_in: "table P d \<Longrightarrow> (k, v) \<in> set d \<Longrightarrow> P k v"
  by (auto simp: table_def dict_ok_def dget_def)

lemma dget_filter:
  "dict_ok d \<Longrightarrow> dget (filter Q d) k =
     (case dget d k of Some v \<Rightarrow> if Q (k, v) then Some v else None | None \<Rightarrow> None)"
proof (induction d)
  case (Cons kv d)
  obtain k' v' where kv: "kv = (k', v')" by (cases kv)
  have "dict_ok d" and new: "k' \<notin> fst ` set d" using Cons.prems kv by (auto simp: dict_ok_def)
  note IH = Cons.IH [OF this(1)]
  have "dget d k' = None" using new by (simp add: dget_def map_of_eq_None_iff)
  then show ?case
    using IH by (cases "k = k'") (auto simp: kv dict_eval split: option.splits)
qed (simp add: dict_eval)

lemma dict_ok_filter: "dict_ok d \<Longrightarrow> dict_ok (filter Q d)"
  by (simp add: dict_ok_def distinct_map_filter)

lemma table_filter [intro]: "table P d \<Longrightarrow> table P (filter Q d)"
  by (auto simp: table_def dget_filter dict_ok_filter split: option.splits if_splits)

section \<open>Streaks\<close>

definition tracked :: "thread_id \<Rightarrow> streak \<Rightarrow> bool" where
  "tracked tid s \<longleftrightarrow> ri_thread (sk_identity s) = Some tid
     \<and> sk_evidence s \<noteq> [] \<and> length (sk_evidence s) \<le> evidence_limit"

definition counting :: "int \<Rightarrow> thread_id \<Rightarrow> streak \<Rightarrow> bool" where
  "counting threshold tid s \<longleftrightarrow> tracked tid s \<and> 1 \<le> sk_count s
     \<and> (sk_emitted s \<longleftrightarrow> threshold \<le> sk_count s)"

definition filing :: "int \<Rightarrow> thread_id \<Rightarrow> streak \<Rightarrow> bool" where
  "filing threshold tid s \<longleftrightarrow> counting threshold tid s
     \<and> sk_count s = int (length (sk_resources s)) \<and> length (sk_resources s) \<le> scope_limit"

definition standing :: "thread_id \<times> string \<Rightarrow> streak \<Rightarrow> bool" where
  "standing k s \<longleftrightarrow> tracked (fst k) s \<and> sk_emitted s"

definition cand_ok :: "occasion \<Rightarrow> signal_candidate \<Rightarrow> bool" where
  "cand_ok i c \<longleftrightarrow> sc_thread c = in_thread i \<and> sc_source c = in_id i
     \<and> sc_version c = in_version i \<and> sc_evidence c \<noteq> []
     \<and> length (sc_evidence c) \<le> evidence_limit
     \<and> (sc_status c = SignalActive \<longrightarrow> last (sc_evidence c) = in_id i)"

lemma evidence_limit_pos [simp]: "0 < evidence_limit" "Suc 0 \<le> evidence_limit"
  by (simp_all add: evidence_limit_def)

lemma last_take_last [simp]: "0 < n \<Longrightarrow> last (take_last n (xs @ [x])) = x"
  by (simp add: take_last_snoc)

lemma take_last_snoc_neq [simp]: "0 < n \<Longrightarrow> take_last n (xs @ [x]) \<noteq> []"
  by (simp add: take_last_snoc)

lemma tracked_open: "occasion_ok i \<Longrightarrow> tracked (in_thread i) (open_streak i kind f key n rs)"
  by (simp add: tracked_def open_streak_def occasion_ok_def)

lemma tracked_extend: "tracked tid s \<Longrightarrow> tracked tid (extend_streak i n s)"
  by (simp add: tracked_def extend_streak_def)

lemma tracked_update [simp]:
  "tracked tid (s\<lparr>sk_emitted := b\<rparr>) = tracked tid s"
  "tracked tid (s\<lparr>sk_resources := rs\<rparr>) = tracked tid s"
  by (simp_all add: tracked_def)

lemma streak_fields [simp]:
  "sk_evidence (open_streak i kind f key n rs) = [in_id i]"
  "sk_count (open_streak i kind f key n rs) = n"
  "sk_key (open_streak i kind f key n rs) = key"
  "sk_resources (open_streak i kind f key n rs) = rs"
  "sk_emitted (open_streak i kind f key n rs) = False"
  "sk_count (extend_streak i n s) = n" "sk_key (extend_streak i n s) = sk_key s"
  "sk_resources (extend_streak i n s) = sk_resources s"
  "sk_emitted (extend_streak i n s) = sk_emitted s"
  "last (sk_evidence (extend_streak i n s)) = in_id i"
  by (simp_all add: open_streak_def extend_streak_def)

lemma cand_ok_candidate:
  "tracked (in_thread i) s \<Longrightarrow> (st = SignalActive \<Longrightarrow> last (sk_evidence s) = in_id i) \<Longrightarrow>
     cand_ok i (candidate s st (in_id i) (in_version i))"
  by (simp add: cand_ok_def candidate_def tracked_def)

lemma cand_ok_features [simp]: "cand_ok i (c\<lparr>sc_features := fs\<rparr>) = cand_ok i c"
  by (simp add: cand_ok_def)

lemma finish_ok:
  "tracked (in_thread i) s \<Longrightarrow> st \<noteq> SignalActive \<Longrightarrow> list_all (cand_ok i) (finish s st i)"
  by (auto simp: finish_def intro!: cand_ok_candidate)

lemma announce_ok:
  assumes "tracked (in_thread i) s" and "1 \<le> sk_count s" and "sk_emitted s \<Longrightarrow> t \<le> sk_count s"
    and "last (sk_evidence s) = in_id i" and "announce t i s = (s', cs)"
  shows "counting t (in_thread i) s'" "list_all (cand_ok i) cs"
    "sk_key s' = sk_key s" "sk_resources s' = sk_resources s" "sk_count s' = sk_count s"
  using assms by (auto simp: announce_def counting_def intro!: cand_ok_candidate split: if_splits)

section \<open>The invariant\<close>

definition baseline_ok :: "thread_id \<times> string \<Rightarrow> duration_baseline \<Rightarrow> bool" where
  "baseline_ok k b \<longleftrightarrow> db_values b \<noteq> [] \<and> length (db_values b) \<le> baseline_limit
     \<and> (\<forall>x \<in> set (db_values b). is_finite x \<and> fl_le (Fin 0) x)"

definition frontier_ok :: "thread_id \<Rightarrow> read_frontier \<Rightarrow> bool" where
  "frontier_ok tid f \<longleftrightarrow> finite (rf_observations f) \<and> card (rf_observations f) \<le> frontier_limit"

definition blocked_ok :: "thread_id \<times> string \<Rightarrow> streak \<Rightarrow> bool" where
  "blocked_ok k s \<longleftrightarrow> counting 2 (fst k) s"

definition blocks_of :: "(thread_id \<times> string, streak) dict \<Rightarrow> thread_id \<Rightarrow> (thread_id \<times> string) list" where
  "blocks_of d tid = filter (\<lambda>k. fst k = tid) (dkeys d)"

definition sourced :: "engine \<Rightarrow> bool" where
  "sourced g \<longleftrightarrow> (\<forall>t. map_option (\<lambda>s. set (sk_resources s)) (dget (en_edits g) t)
     = map_option (\<lambda>d. set (dkeys d)) (dget (en_sources g) t))"

definition engine_inv :: "signal_config \<Rightarrow> engine \<Rightarrow> bool" where
  "engine_inv cfg g \<longleftrightarrow> config_ok cfg
   \<and> table (counting (failure_threshold cfg)) (en_failure g)
   \<and> table (counting (repeated_tool_threshold cfg)) (en_repeated g)
   \<and> table (counting (no_frontier_threshold cfg)) (en_reading g)
   \<and> table frontier_ok (en_frontiers g)
   \<and> table blocked_ok (en_blocked g) \<and> (\<forall>t. length (blocks_of (en_blocked g) t) \<le> block_limit)
   \<and> table (\<lambda>_ d. ds_paths d \<noteq> []) (en_scopes g)
   \<and> table (filing (scope_growth_threshold cfg)) (en_growths g)
   \<and> table (filing (unvalidated_edit_threshold cfg)) (en_edits g)
   \<and> table (\<lambda>_. dict_ok) (en_sources g) \<and> sourced g
   \<and> table standing (en_stale g) \<and> table standing (en_budget g)
   \<and> table baseline_ok (en_durations g) \<and> dict_ok (en_seen g)"

lemma engine_inv_empty: "config_ok cfg \<Longrightarrow> engine_inv cfg empty_engine"
  by (simp add: engine_inv_def empty_engine_def blocks_of_def dkeys_def sourced_def)

text \<open>What the engine holds for one thread.\<close>

definition thread_view where
  "thread_view g t = ((dget (en_failure g) t, dget (en_repeated g) t, dget (en_reading g) t,
      dget (en_frontiers g) t, dget (en_scopes g) t, dget (en_growths g) t),
     (dget (en_edits g) t, dget (en_sources g) t),
     (\<lambda>k. dget (en_blocked g) (t, k)), (\<lambda>k. dget (en_stale g) (t, k)),
     (\<lambda>k. dget (en_budget g) (t, k)), (\<lambda>k. dget (en_durations g) (t, k)))"

definition progress ::
    "signal_config \<Rightarrow> occasion \<Rightarrow> engine \<Rightarrow> engine \<times> signal_candidate list \<Rightarrow> bool" where
  "progress cfg i g acc \<longleftrightarrow> engine_inv cfg (fst acc) \<and> list_all (cand_ok i) (snd acc)
     \<and> (\<forall>t. t \<noteq> in_thread i \<longrightarrow> thread_view (fst acc) t = thread_view g t)
     \<and> en_seen (fst acc) = en_seen g"

lemma progress_skip [simp]: "progress cfg i g (g, []) \<longleftrightarrow> engine_inv cfg g"
  by (simp add: progress_def)

lemma progress_trans:
  "progress cfg i g0 (g, cs) \<Longrightarrow> progress cfg i g (g', cs') \<Longrightarrow> progress cfg i g0 (g', cs @ cs')"
  by (simp add: progress_def)

text \<open>
  The interface of a rule: from a well-formed engine it reaches a well-formed engine, reports
  only candidates about the current event, touches only the event's thread, and never the
  record of seen identifiers. Its client is the sequence of rules \<open>update\<close> runs.
\<close>

locale signal_rule =
  fixes cfg :: signal_config
    and rule :: "occasion \<Rightarrow> engine \<Rightarrow> engine \<times> signal_candidate list"
  assumes keeps_inv: "occasion_ok i \<Longrightarrow> engine_inv cfg g \<Longrightarrow> engine_inv cfg (fst (rule i g))"
    and reports: "occasion_ok i \<Longrightarrow> engine_inv cfg g \<Longrightarrow> c \<in> set (snd (rule i g)) \<Longrightarrow> cand_ok i c"
    and isolated: "occasion_ok i \<Longrightarrow> engine_inv cfg g \<Longrightarrow> t \<noteq> in_thread i \<Longrightarrow>
      thread_view (fst (rule i g)) t = thread_view g t"
    and seen_kept: "occasion_ok i \<Longrightarrow> engine_inv cfg g \<Longrightarrow> en_seen (fst (rule i g)) = en_seen g"
begin

lemma step:
  assumes "occasion_ok i" and "progress cfg i g0 acc"
  shows "progress cfg i g0 (then_rule (rule i) acc)"
proof -
  obtain g cs where acc: "acc = (g, cs)" by (cases acc)
  have "engine_inv cfg g" using assms(2) by (simp add: acc progress_def)
  from keeps_inv [OF assms(1) this] reports [OF assms(1) this] isolated [OF assms(1) this]
    seen_kept [OF assms(1) this]
  have "progress cfg i g (rule i g)" by (auto simp: progress_def list_all_iff)
  then show ?thesis
    using progress_trans assms(2) by (cases "rule i g") (simp add: acc then_rule_def)
qed

end

lemma signal_ruleI:
  assumes "\<And>i g. occasion_ok i \<Longrightarrow> engine_inv cfg g \<Longrightarrow> progress cfg i g (rule i g)"
  shows "signal_rule cfg rule"
  by unfold_locales (use assms in \<open>auto simp: progress_def list_all_iff\<close>)

text \<open>Writing one table.\<close>

lemma progress_failure:
  assumes "engine_inv cfg g" "table (counting (failure_threshold cfg)) d"
    "\<And>t. t \<noteq> in_thread i \<Longrightarrow> dget d t = dget (en_failure g) t" "list_all (cand_ok i) cs"
  shows "progress cfg i g (g\<lparr>en_failure := d\<rparr>, cs)"
  using assms by (simp add: progress_def engine_inv_def thread_view_def sourced_def)

lemma progress_repeated:
  assumes "engine_inv cfg g" "table (counting (repeated_tool_threshold cfg)) d"
    "\<And>t. t \<noteq> in_thread i \<Longrightarrow> dget d t = dget (en_repeated g) t" "list_all (cand_ok i) cs"
  shows "progress cfg i g (g\<lparr>en_repeated := d\<rparr>, cs)"
  using assms by (simp add: progress_def engine_inv_def thread_view_def sourced_def)

lemma progress_reading:
  assumes "engine_inv cfg g" "table (counting (no_frontier_threshold cfg)) d"
    "\<And>t. t \<noteq> in_thread i \<Longrightarrow> dget d t = dget (en_reading g) t" "list_all (cand_ok i) cs"
  shows "progress cfg i g (g\<lparr>en_reading := d\<rparr>, cs)"
  using assms by (simp add: progress_def engine_inv_def thread_view_def sourced_def)

lemma progress_growths:
  assumes "engine_inv cfg g" "table (filing (scope_growth_threshold cfg)) d"
    "\<And>t. t \<noteq> in_thread i \<Longrightarrow> dget d t = dget (en_growths g) t" "list_all (cand_ok i) cs"
  shows "progress cfg i g (g\<lparr>en_growths := d\<rparr>, cs)"
  using assms by (simp add: progress_def engine_inv_def thread_view_def sourced_def)

lemma progress_frontiers:
  assumes "engine_inv cfg g" "table frontier_ok d"
    "\<And>t. t \<noteq> in_thread i \<Longrightarrow> dget d t = dget (en_frontiers g) t"
  shows "progress cfg i g (g\<lparr>en_frontiers := d\<rparr>, [])"
  using assms by (simp add: progress_def engine_inv_def thread_view_def sourced_def)

lemma progress_scopes:
  assumes "engine_inv cfg g" "table (\<lambda>_ d. ds_paths d \<noteq> []) d"
    "\<And>t. t \<noteq> in_thread i \<Longrightarrow> dget d t = dget (en_scopes g) t"
  shows "progress cfg i g (g\<lparr>en_scopes := d\<rparr>, [])"
  using assms by (simp add: progress_def engine_inv_def thread_view_def sourced_def)

lemma progress_blocked:
  assumes "engine_inv cfg g" "table blocked_ok d"
    "\<And>t. length (blocks_of d t) \<le> block_limit"
    "\<And>t k. t \<noteq> in_thread i \<Longrightarrow> dget d (t, k) = dget (en_blocked g) (t, k)"
    "list_all (cand_ok i) cs"
  shows "progress cfg i g (g\<lparr>en_blocked := d\<rparr>, cs)"
  using assms by (simp add: progress_def engine_inv_def thread_view_def sourced_def)

lemma progress_stale:
  assumes "engine_inv cfg g" "table standing d"
    "\<And>t k. t \<noteq> in_thread i \<Longrightarrow> dget d (t, k) = dget (en_stale g) (t, k)"
    "list_all (cand_ok i) cs"
  shows "progress cfg i g (g\<lparr>en_stale := d\<rparr>, cs)"
  using assms by (simp add: progress_def engine_inv_def thread_view_def sourced_def)

lemma progress_budget:
  assumes "engine_inv cfg g" "table standing d"
    "\<And>t k. t \<noteq> in_thread i \<Longrightarrow> dget d (t, k) = dget (en_budget g) (t, k)"
    "list_all (cand_ok i) cs"
  shows "progress cfg i g (g\<lparr>en_budget := d\<rparr>, cs)"
  using assms by (simp add: progress_def engine_inv_def thread_view_def sourced_def)

lemma progress_durations:
  assumes "engine_inv cfg g" "table baseline_ok d"
    "\<And>t k. t \<noteq> in_thread i \<Longrightarrow> dget d (t, k) = dget (en_durations g) (t, k)"
  shows "progress cfg i g (g\<lparr>en_durations := d\<rparr>, [])"
  using assms by (simp add: progress_def engine_inv_def thread_view_def sourced_def)

lemma progress_edits:
  assumes "engine_inv cfg g" "table (filing (unvalidated_edit_threshold cfg)) d"
    "table (\<lambda>_. dict_ok) srcs"
    "map_option (\<lambda>s. set (sk_resources s)) (dget d (in_thread i))
       = map_option (\<lambda>d. set (dkeys d)) (dget srcs (in_thread i))"
    "\<And>t. t \<noteq> in_thread i \<Longrightarrow> dget d t = dget (en_edits g) t"
    "\<And>t. t \<noteq> in_thread i \<Longrightarrow> dget srcs t = dget (en_sources g) t" "list_all (cand_ok i) cs"
  shows "progress cfg i g (g\<lparr>en_edits := d, en_sources := srcs\<rparr>, cs)"
proof -
  have "sourced (g\<lparr>en_edits := d, en_sources := srcs\<rparr>)"
    unfolding sourced_def
  proof
    fix t
    show "map_option (\<lambda>s. set (sk_resources s)) (dget (en_edits (g\<lparr>en_edits := d, en_sources := srcs\<rparr>)) t)
        = map_option (\<lambda>d. set (dkeys d)) (dget (en_sources (g\<lparr>en_edits := d, en_sources := srcs\<rparr>)) t)"
      using assms by (cases "t = in_thread i") (simp_all add: engine_inv_def sourced_def)
  qed
  with assms show ?thesis by (simp add: progress_def engine_inv_def thread_view_def)
qed

lemmas progress_tables = progress_failure progress_repeated progress_reading progress_growths
  progress_frontiers progress_scopes progress_stale progress_budget progress_durations

lemma engine_inv_tables:
  assumes "engine_inv cfg g"
  shows "table (counting (failure_threshold cfg)) (en_failure g)"
    "table (counting (repeated_tool_threshold cfg)) (en_repeated g)"
    "table (counting (no_frontier_threshold cfg)) (en_reading g)"
    "table frontier_ok (en_frontiers g)" "table blocked_ok (en_blocked g)"
    "table (\<lambda>_ d. ds_paths d \<noteq> []) (en_scopes g)"
    "table (filing (scope_growth_threshold cfg)) (en_growths g)"
    "table (filing (unvalidated_edit_threshold cfg)) (en_edits g)"
    "table (\<lambda>_. dict_ok) (en_sources g)" "table standing (en_stale g)"
    "table standing (en_budget g)" "table baseline_ok (en_durations g)"
    "length (blocks_of (en_blocked g) t) \<le> block_limit" "sourced g"
  using assms by (auto simp: engine_inv_def)

end
