(* ===== verification/Signal_Rules.thy ===== *)
theory Signal_Rules
  imports Signal_Invariants
begin

text \<open>
  Every rule of the signal engine meets the contract \<open>signal_rule\<close>; with the two sweeps and
  the duration rule this gives the invariant of \<open>update\<close>, and its properties.
\<close>

section \<open>The counting rules\<close>

lemma counting_tracked: "counting t tid s \<Longrightarrow> tracked tid s"
  by (simp add: counting_def)

lemma filing_counting: "filing t tid s \<Longrightarrow> counting t tid s"
  by (simp add: filing_def)

text \<open>One more event of a kept streak, or a first one, announced against a threshold.\<close>

lemma announce_extend_with:
  assumes "counting t (in_thread i) s" and "sk_count s \<le> n"
    and "announce t i ((extend_streak i n s)\<lparr>sk_resources := rs\<rparr>) = (s', cs)"
  shows "counting t (in_thread i) s'" "list_all (cand_ok i) cs"
proof -
  have s: "tracked (in_thread i) s" "1 \<le> sk_count s" "sk_emitted s \<longleftrightarrow> t \<le> sk_count s"
    using assms(1) by (simp_all add: counting_def)
  let ?s = "(extend_streak i n s)\<lparr>sk_resources := rs\<rparr>"
  have "tracked (in_thread i) ?s" "1 \<le> sk_count ?s" "sk_emitted ?s \<Longrightarrow> t \<le> sk_count ?s"
    "last (sk_evidence ?s) = in_id i"
    using s assms(2) by (simp_all add: tracked_extend)
  from announce_ok [OF this assms(3)] show "counting t (in_thread i) s'" "list_all (cand_ok i) cs"
    by simp_all
qed

lemma announce_extend:
  assumes "counting t (in_thread i) s" and "announce t i (extend_streak i (sk_count s + 1) s) = (s', cs)"
  shows "counting t (in_thread i) s'" "list_all (cand_ok i) cs"
proof -
  have "(extend_streak i (sk_count s + 1) s)\<lparr>sk_resources := sk_resources s\<rparr>
      = extend_streak i (sk_count s + 1) s"
    by (simp add: extend_streak_def)
  with announce_extend_with [OF assms(1), of "sk_count s + 1" "sk_resources s"] assms(2)
  show "counting t (in_thread i) s'" "list_all (cand_ok i) cs" by simp_all
qed

lemma announce_open:
  assumes "occasion_ok i" and "announce t i (open_streak i kind f key 1 rs) = (s', cs)"
  shows "counting t (in_thread i) s'" "list_all (cand_ok i) cs"
  using announce_ok [OF tracked_open [OF assms(1)] _ _ _ assms(2)] by auto

lemma drop_failure_progress:
  "engine_inv cfg g \<Longrightarrow> st \<noteq> SignalActive \<Longrightarrow> progress cfg i g (drop_failure st i g)"
  by (auto simp: drop_failure_def split: option.split
      intro!: progress_failure finish_ok counting_tracked table_dpop engine_inv_tables
      dest: table_get [OF engine_inv_tables(1)])

lemma drop_repeated_progress: "engine_inv cfg g \<Longrightarrow> progress cfg i g (drop_repeated i g)"
  by (auto simp: drop_repeated_def split: option.split
      intro!: progress_repeated finish_ok counting_tracked table_dpop engine_inv_tables
      dest: table_get [OF engine_inv_tables(2)])

lemma drop_reading_progress: "engine_inv cfg g \<Longrightarrow> progress cfg i g (drop_reading i g)"
  by (auto simp: drop_reading_def split: option.split
      intro!: progress_reading finish_ok counting_tracked table_dpop engine_inv_tables
      dest: table_get [OF engine_inv_tables(3)])

text \<open>The shape failure streaks and repeated tool calls share: keep a streak with the same key,
  finish any other, count the event, announce.\<close>

lemma keyed_streak:
  assumes ok: "occasion_ok i" and old: "\<And>s. old = Some s \<Longrightarrow> counting t (in_thread i) s"
    and pick: "(kept, finished) = (case old of None \<Rightarrow> (None, [])
      | Some s \<Rightarrow> if sk_key s \<noteq> key then (None, finish s SignalStale i) else (Some s, []))"
    and ann: "announce t i (case kept of None \<Rightarrow> open_streak i kind f key 1 rs
      | Some s \<Rightarrow> extend_streak i (sk_count s + 1) s) = (s', cs)"
  shows "counting t (in_thread i) s' \<and> list_all (cand_ok i) (finished @ cs)"
proof (cases old)
  case None
  with pick ann announce_open [OF ok] show ?thesis by auto
next
  case (Some s)
  note s = old [OF this]
  show ?thesis
  proof (cases "sk_key s = key")
    case True
    with Some pick ann announce_extend [OF s] show ?thesis by auto
  next
    case False
    with Some pick ann announce_open [OF ok] finish_ok [OF counting_tracked [OF s]]
    show ?thesis by auto
  qed
qed

lemma failure_streak_progress:
  assumes ok: "occasion_ok i" and inv: "engine_inv cfg g"
  shows "progress cfg i g (failure_streak cfg i g)"
proof -
  let ?e = "in_event i"
  have drops: "progress cfg i g (drop_failure SignalResolved i g)" "progress cfg i g (drop_failure SignalStale i g)"
    using drop_failure_progress [OF inv] by simp_all
  show ?thesis
  proof (cases "\<exists>key rs. ev_kind ?e \<in> signal_outcome_kinds \<and> equivalence ?e = Some (key, rs)
      \<and> outcome_failure (ev_payload ?e) = Some True")
    case True
    then obtain key rs where e: "ev_kind ?e \<in> signal_outcome_kinds" "equivalence ?e = Some (key, rs)"
      "outcome_failure (ev_payload ?e) = Some True" by blast
    obtain kept fin where pick: "(kept, fin) = (case dget (en_failure g) (in_thread i) of None \<Rightarrow> (None, [])
      | Some s \<Rightarrow> if sk_key s \<noteq> key then (None, finish s SignalStale i) else (Some s, []))"
      by (rule that [OF surjective_pairing [symmetric]])
    obtain s' cs where ann: "announce (failure_threshold cfg) i (case kept of
        None \<Rightarrow> open_streak i FailureStreak ''consecutive_failures'' key 1 rs
      | Some s \<Rightarrow> extend_streak i (sk_count s + 1) s) = (s', cs)" by fastforce
    have "counting (failure_threshold cfg) (in_thread i) s' \<and> list_all (cand_ok i) (fin @ cs)"
      using keyed_streak [OF ok _ pick ann] table_get [OF engine_inv_tables(1) [OF inv]] by blast
    moreover have "failure_streak cfg i g =
        (g\<lparr>en_failure := dset (in_thread i) s' (en_failure g)\<rparr>, fin @ cs)"
      by (simp add: failure_streak_def Let_def e pick [symmetric] ann)
    ultimately show ?thesis
      using engine_inv_tables(1) [OF inv] by (auto intro!: progress_failure [OF inv])
  next
    case False
    then have "ev_kind ?e \<notin> signal_outcome_kinds \<or> equivalence ?e = None
        \<or> outcome_failure (ev_payload ?e) = None \<or> outcome_failure (ev_payload ?e) = Some False"
      by (metis (full_types) option.exhaust surj_pair)
    then show ?thesis
      using drops inv
      by (elim disjE) (simp_all add: failure_streak_def Let_def split: option.split)
  qed
qed

lemma repeated_tool_progress:
  assumes ok: "occasion_ok i" and inv: "engine_inv cfg g"
  shows "progress cfg i g (repeated_tool cfg i g)"
proof -
  let ?e = "in_event i"
  note drops = drop_repeated_progress [OF inv]
  show ?thesis
  proof (cases "\<exists>key rs. ev_kind ?e = ''tool_result'' \<and> tool_call_equivalence ?e = Some (key, rs)
      \<and> outcome_failure (ev_payload ?e) = Some False")
    case True
    then obtain key rs where e: "ev_kind ?e = ''tool_result''" "tool_call_equivalence ?e = Some (key, rs)"
      "outcome_failure (ev_payload ?e) = Some False" by blast
    obtain kept fin where pick: "(kept, fin) = (case dget (en_repeated g) (in_thread i) of None \<Rightarrow> (None, [])
      | Some s \<Rightarrow> if sk_key s \<noteq> key then (None, finish s SignalStale i) else (Some s, []))"
      by (rule that [OF surjective_pairing [symmetric]])
    obtain s' cs where ann: "announce (repeated_tool_threshold cfg) i (case kept of
        None \<Rightarrow> open_streak i RepeatedEquivalentToolCall ''consecutive_equivalent_calls'' key 1 rs
      | Some s \<Rightarrow> extend_streak i (sk_count s + 1) s) = (s', cs)" by fastforce
    have "counting (repeated_tool_threshold cfg) (in_thread i) s' \<and> list_all (cand_ok i) (fin @ cs)"
      using keyed_streak [OF ok _ pick ann] table_get [OF engine_inv_tables(2) [OF inv]] by blast
    moreover have "repeated_tool cfg i g =
        (g\<lparr>en_repeated := dset (in_thread i) s' (en_repeated g)\<rparr>, fin @ cs)"
      by (simp add: repeated_tool_def Let_def e pick [symmetric] ann)
    ultimately show ?thesis
      using engine_inv_tables(2) [OF inv] by (auto intro!: progress_repeated [OF inv])
  next
    case False
    then have "ev_kind ?e \<noteq> ''tool_result'' \<or> outcome_failure (ev_payload ?e) \<noteq> Some False
        \<or> tool_call_equivalence ?e = None"
      by (metis option.exhaust surj_pair)
    then show ?thesis
      using drops inv by (elim disjE) (simp_all add: repeated_tool_def Let_def)
  qed
qed

lemma frontier_ok_grow:
  "frontier_ok t \<lparr>rf_identity = x, rf_epoch = y,
     rf_observations = set (take_last (frontier_limit - 1) xs @ [key])\<rparr>"
proof -
  have "card (set (take_last (frontier_limit - 1) xs @ [key])) \<le> length (take_last (frontier_limit - 1) xs @ [key])"
    by (rule card_length)
  then show ?thesis by (simp add: frontier_ok_def frontier_limit_def)
qed

lemma no_frontier_reads_progress:
  assumes ok: "occasion_ok i" and inv: "engine_inv cfg g"
  shows "progress cfg i g (no_frontier_reads cfg i g)"
proof (cases "read_observation (in_event i)")
  case None
  then show ?thesis
    using inv drop_reading_progress [OF inv] by (simp add: no_frontier_reads_def Let_def)
next
  case (Some o')
  obtain rs key where o: "o' = (rs, key)" by (cases o')
  show ?thesis
  proof (cases "key \<in> known_observations g (in_thread i)")
    case False
    let ?g = "g\<lparr>en_frontiers := dset (in_thread i) \<lparr>rf_identity = in_identity i,
       rf_epoch = ev_epoch (in_event i), rf_observations = set (take_last (frontier_limit - 1)
         (sorted_list_of_set (known_observations g (in_thread i))) @ [key])\<rparr> (en_frontiers g)\<rparr>"
    have p: "progress cfg i g (?g, [])"
      by (intro progress_frontiers table_dset frontier_ok_grow) (simp_all add: inv engine_inv_tables(4) [OF inv])
    then have "engine_inv cfg ?g" by (simp add: progress_def)
    from drop_reading_progress [OF this] have "progress cfg i ?g (drop_reading i ?g)" .
    with p have "progress cfg i g (drop_reading i ?g)"
      using progress_trans [of cfg i g ?g "[]"] by (cases "drop_reading i ?g") fastforce
    with Some o False show ?thesis by (simp add: no_frontier_reads_def Let_def)
  next
    case True
    obtain s' cs where ann: "announce (no_frontier_threshold cfg) i
        (case dget (en_reading g) (in_thread i) of
           None \<Rightarrow> open_streak i RepeatedReadNoFrontier ''reads_without_frontier_expansion''
             ''known-resources'' 1 rs
         | Some s \<Rightarrow> (extend_streak i (sk_count s + 1) s)
             \<lparr>sk_resources := sorted_set (sk_resources s @ rs)\<rparr>) = (s', cs)" by fastforce
    have "counting (no_frontier_threshold cfg) (in_thread i) s' \<and> list_all (cand_ok i) cs"
    proof (cases "dget (en_reading g) (in_thread i)")
      case None
      with ann announce_open [OF ok] show ?thesis by auto
    next
      case (Some s)
      with table_get [OF engine_inv_tables(3) [OF inv]]
      have "counting (no_frontier_threshold cfg) (in_thread i) s" by blast
      from announce_extend_with [OF this _ ann [unfolded Some option.case]] show ?thesis by simp
    qed
    moreover have "no_frontier_reads cfg i g =
        (g\<lparr>en_reading := dset (in_thread i) s' (en_reading g)\<rparr>, cs)"
      by (simp add: no_frontier_reads_def Let_def True Some o ann)
    ultimately show ?thesis
      using engine_inv_tables(3) [OF inv] by (auto intro!: progress_reading [OF inv])
  qed
qed

section \<open>Streaks that count files\<close>

lemma announce_files_open:
  assumes "occasion_ok i" and "rs \<noteq> []" and "length rs \<le> scope_limit"
    and "announce t i (open_streak i kind f key (int (length rs)) rs) = (s', cs)"
  shows "filing t (in_thread i) s' \<and> list_all (cand_ok i) cs \<and> sk_resources s' = rs"
proof -
  have "1 \<le> int (length rs)" using assms(2) by (cases rs) simp_all
  with announce_ok [OF tracked_open [OF assms(1)] _ _ _ assms(4)] assms(3) show ?thesis
    by (simp add: filing_def)
qed

lemma announce_files_extend:
  assumes s: "filing t (in_thread i) s" and "length (sk_resources s) \<le> length rs"
    and "length rs \<le> scope_limit"
    and ann: "announce t i ((extend_streak i (int (length rs)) s)\<lparr>sk_resources := rs\<rparr>) = (s', cs)"
  shows "filing t (in_thread i) s' \<and> list_all (cand_ok i) cs \<and> sk_resources s' = rs"
proof -
  have "sk_count s \<le> int (length rs)" using s assms(2) by (simp add: filing_def)
  note ok = announce_extend_with [OF filing_counting [OF s] this ann]
  have "sk_resources s' = rs \<and> sk_count s' = int (length rs)"
    using ann by (auto simp: announce_def split: if_splits)
  with ok assms(3) show ?thesis by (simp add: filing_def)
qed

text \<open>The shape the two file rules share: new files go to the end of the known ones.\<close>

lemma grown_files:
  assumes ok: "occasion_ok i" and old: "\<And>s. old = Some s \<Longrightarrow> filing t (in_thread i) s"
    and known: "known = (case old of Some s \<Rightarrow> sk_resources s | None \<Rightarrow> [])"
    and new: "fresh \<noteq> []" and rs: "rs = take scope_limit (known @ fresh)"
    and ann: "announce t i (case old of
        None \<Rightarrow> open_streak i kind f key (int (length rs)) rs
      | Some s \<Rightarrow> (extend_streak i (int (length rs)) s)\<lparr>sk_resources := rs\<rparr>) = (s', cs)"
  shows "filing t (in_thread i) s' \<and> list_all (cand_ok i) cs \<and> sk_resources s' = rs
    \<and> set known \<subseteq> set rs"
proof (cases old)
  case None
  have "rs \<noteq> []" "length rs \<le> scope_limit"
    using new None known rs by (simp_all add: scope_limit_def)
  from announce_files_open [OF ok this] ann None known show ?thesis by simp
next
  case (Some s)
  note s = old [OF Some]
  have len: "length (sk_resources s) \<le> scope_limit" using s by (simp add: filing_def)
  have "length (sk_resources s) \<le> length rs" "length rs \<le> scope_limit"
    using Some known rs len by simp_all
  note this = announce_files_extend [OF s this ann [unfolded Some option.case]]
  moreover have "set known \<subseteq> set rs" using Some known rs len by simp
  ultimately show ?thesis by simp
qed

lemma scope_observed_progress:
  assumes ok: "occasion_ok i" and inv: "engine_inv cfg g"
  shows "progress cfg i g (scope_observed cfg i g)"
proof (cases "dget (en_scopes g) (in_thread i)")
  case None
  then show ?thesis using inv by (simp add: scope_observed_def Let_def)
next
  case (Some scope)
  define old where "old = dget (en_growths g) (in_thread i)"
  define known where "known = (case old of Some s \<Rightarrow> sk_resources s | None \<Rightarrow> [])"
  define fresh where "fresh = sorted_set (filter (\<lambda>r. r \<notin> set known)
    (map (\<lambda>f. ''file:'' @ f) (filter (\<lambda>f. \<not> list_ex (within_expected f) (ds_paths scope))
      (normalized_paths (get (ev_payload (in_event i)) ''files'')))))"
  define rs where "rs = take scope_limit (known @ fresh)"
  obtain s' cs where ann: "announce (scope_growth_threshold cfg) i (case old of
        None \<Rightarrow> open_streak i TouchedScopeGrowth ''files_outside_declared_scope''
          ''outside-declared-scope'' (int (length rs)) rs
      | Some s \<Rightarrow> (extend_streak i (int (length rs)) s)\<lparr>sk_resources := rs\<rparr>) = (s', cs)"
    by fastforce
  have eq: "scope_observed cfg i g =
     (if ev_kind (in_event i) = ''file_edit'' \<and> outcome_failure (ev_payload (in_event i)) \<noteq> Some False
         \<or> fresh = [] \<or> old \<noteq> None \<and> rs = known
      then (g, []) else (g\<lparr>en_growths := dset (in_thread i) s' (en_growths g)\<rparr>, cs))"
    unfolding scope_observed_def Let_def Some option.case old_def [symmetric] known_def [symmetric]
      fresh_def [symmetric] rs_def [symmetric] ann prod.case
    by (cases old) auto
  show ?thesis
  proof (cases "fresh = []")
    case False
    have "filing (scope_growth_threshold cfg) (in_thread i) s'" "list_all (cand_ok i) cs"
      using grown_files [OF ok _ known_def False rs_def ann]
        table_get [OF engine_inv_tables(7) [OF inv]] unfolding old_def by blast+
    then show ?thesis
      unfolding eq using inv engine_inv_tables(7) [OF inv] by (auto intro!: progress_growths)
  qed (use eq inv in simp)
qed

lemma scope_declared_progress:
  assumes inv: "engine_inv cfg g"
  shows "progress cfg i g (scope_declared cfg i g)"
proof -
  define scopes where "scopes = (if declared_paths (ev_payload (in_event i)) \<noteq> []
    then dset (in_thread i) \<lparr>ds_identity = in_identity i, ds_epoch = ev_epoch (in_event i),
      ds_paths = declared_paths (ev_payload (in_event i))\<rparr> (en_scopes g)
    else dpop (in_thread i) (en_scopes g))"
  define cs where "cs = (case dget (en_growths g) (in_thread i) of
    Some s \<Rightarrow> finish s SignalStale i | None \<Rightarrow> [])"
  let ?g = "g\<lparr>en_scopes := scopes\<rparr>"
  have p1: "progress cfg i g (?g, [])"
    using engine_inv_tables(6) [OF inv]
    by (intro progress_scopes inv) (auto simp: scopes_def)
  then have inv': "engine_inv cfg ?g" by (simp add: progress_def)
  have "list_all (cand_ok i) cs"
    using table_get [OF engine_inv_tables(7) [OF inv]]
    by (auto simp: cs_def split: option.split
        intro!: finish_ok counting_tracked [OF filing_counting])
  then have "progress cfg i ?g (?g\<lparr>en_growths := dpop (in_thread i) (en_growths g)\<rparr>, cs)"
    using engine_inv_tables(7) [OF inv] by (intro progress_growths inv') auto
  moreover have "?g\<lparr>en_growths := dpop (in_thread i) (en_growths g)\<rparr> =
      g\<lparr>en_growths := dpop (in_thread i) (en_growths g), en_scopes := scopes\<rparr>"
    by (cases g) simp
  ultimately show ?thesis
    using progress_trans [OF p1, of _ cs]
    by (simp add: scope_declared_def Let_def scopes_def [symmetric] cs_def [symmetric])
qed

lemma scope_growth_progress:
  "occasion_ok i \<Longrightarrow> engine_inv cfg g \<Longrightarrow> progress cfg i g (scope_growth cfg i g)"
  using scope_observed_progress scope_declared_progress by (simp add: scope_growth_def)

section \<open>Edits without validation\<close>

lemma take_last_Nil: "take_last n xs = [] \<longleftrightarrow> xs = [] \<or> n = 0"
  by (cases xs) (auto simp: take_last_def)

lemma dkeys_filter: "set (dkeys (filter (\<lambda>kv. fst kv \<in> S) d)) = set (dkeys d) \<inter> S"
  by (force simp: dkeys_def)

lemma dkeys_note_sources:
  "set (dkeys (foldl (\<lambda>d r. if r \<in> N then dset r v d else d) d rs)) = set (dkeys d) \<union> (set rs \<inter> N)"
proof (induction rs arbitrary: d)
  case (Cons r rs)
  have "set (dkeys (dset r v d)) = insert r (set (dkeys d))"
    by (auto simp: dict.set_keys)
  with Cons show ?case by auto
qed simp

lemma dict_ok_note_sources:
  "dict_ok d \<Longrightarrow> dict_ok (foldl (\<lambda>d r. if r \<in> N then dset r v d else d) d rs)"
  by (induction rs arbitrary: d) auto

lemma edits_observed_progress:
  assumes ok: "occasion_ok i" and inv: "engine_inv cfg g"
  shows "progress cfg i g (edits_observed cfg i g)"
proof -
  let ?t = "unvalidated_edit_threshold cfg"
  define old where "old = dget (en_edits g) (in_thread i)"
  define known where "known = (case old of Some s \<Rightarrow> sk_resources s | None \<Rightarrow> [])"
  define fresh where "fresh = sorted_set (filter (\<lambda>r. r \<notin> set known)
    (map (\<lambda>f. ''file:'' @ f) (normalized_paths (get (ev_payload (in_event i)) ''files''))))"
  define rs where "rs = take scope_limit (known @ fresh)"
  define src0 where "src0 = (case dget (en_sources g) (in_thread i) of Some d \<Rightarrow> d | None \<Rightarrow> [])"
  define src where "src = foldl (\<lambda>d r. if r \<in> set fresh then dset r (in_id i) d else d) src0 rs"
  obtain s' cs where ann: "announce ?t i (case old of
        None \<Rightarrow> open_streak i EditsWithoutValidation ''files_without_validation''
          ''unvalidated-files'' (int (length rs)) rs
      | Some s \<Rightarrow> (extend_streak i (int (length rs)) s)\<lparr>sk_resources := rs\<rparr>) = (s', cs)"
    by fastforce
  have eq: "edits_observed cfg i g =
     (if ev_kind (in_event i) = ''file_edit'' \<and> outcome_failure (ev_payload (in_event i)) \<noteq> Some False
         \<or> fresh = [] \<or> old \<noteq> None \<and> rs = known
      then (g, []) else (g\<lparr>en_edits := dset (in_thread i) s' (en_edits g),
        en_sources := dset (in_thread i) src (en_sources g)\<rparr>, cs))"
    unfolding edits_observed_def Let_def old_def [symmetric] known_def [symmetric]
      fresh_def [symmetric] rs_def [symmetric] src0_def [symmetric] src_def [symmetric] ann prod.case
    by (cases old; cases g) auto
  show ?thesis
  proof (cases "fresh = []")
    case False
    have grown: "filing ?t (in_thread i) s'" "list_all (cand_ok i) cs" "sk_resources s' = rs"
      "set known \<subseteq> set rs"
      using grown_files [OF ok _ known_def False rs_def ann]
        table_get [OF engine_inv_tables(8) [OF inv]] unfolding old_def by blast+
    have "map_option (\<lambda>s. set (sk_resources s)) old = map_option (\<lambda>d. set (dkeys d)) (dget (en_sources g) (in_thread i))"
      using engine_inv_tables(14) [OF inv] by (simp add: sourced_def old_def)
    then have "set (dkeys src0) = set known"
      by (cases old; cases "dget (en_sources g) (in_thread i)") (simp_all add: src0_def known_def dkeys_def)
    moreover have "set rs \<subseteq> set known \<union> set fresh"
      unfolding rs_def using set_take_subset [of scope_limit "known @ fresh"] by simp
    ultimately have keys: "set (dkeys src) = set rs"
      using grown(4) by (auto simp: src_def dkeys_note_sources)
    have "dict_ok src0"
      using table_get [OF engine_inv_tables(9) [OF inv]] by (auto simp: src0_def split: option.split)
    then have "dict_ok src" by (simp add: src_def dict_ok_note_sources)
    with grown keys have "progress cfg i g (g\<lparr>en_edits := dset (in_thread i) s' (en_edits g),
        en_sources := dset (in_thread i) src (en_sources g)\<rparr>, cs)"
      using engine_inv_tables(8) [OF inv] engine_inv_tables(9) [OF inv]
      by (intro progress_edits inv) auto
    then show ?thesis unfolding eq using inv by simp
  qed (use eq inv in simp)
qed

lemma edits_validated_progress:
  assumes ok: "occasion_ok i" and inv: "engine_inv cfg g"
  shows "progress cfg i g (edits_validated cfg i g)"
proof (cases "dget (en_edits g) (in_thread i)")
  case None
  then show ?thesis using inv by (simp add: edits_validated_def Let_def)
next
  case (Some s)
  let ?t = "unvalidated_edit_threshold cfg"
  define scopes where "scopes = normalized_paths (get (ev_payload (in_event i)) ''validated_paths'')"
  define rest where "rest = filter (unvalidated_resource scopes) (sk_resources s)"
  define src0 where "src0 = (case dget (en_sources g) (in_thread i) of Some d \<Rightarrow> d | None \<Rightarrow> [])"
  define src where "src = filter (\<lambda>kv. fst kv \<in> set rest) src0"
  define evs where "evs = take_last evidence_limit (dedup (dvalues src))"
  note eq = edits_validated_def [of cfg i g, unfolded Let_def Some option.case,
      folded scopes_def, folded rest_def src0_def, folded src_def, folded evs_def]
  have s: "filing ?t (in_thread i) s" using table_get [OF engine_inv_tables(8) [OF inv] Some] .
  have tr: "tracked (in_thread i) s" by (rule counting_tracked [OF filing_counting [OF s]])
  have t2: "2 \<le> ?t" using inv by (simp add: engine_inv_def config_ok_def)
  have "Some (set (sk_resources s)) = map_option (\<lambda>d. set (dkeys d)) (dget (en_sources g) (in_thread i))"
    using engine_inv_tables(14) [OF inv] Some by (simp add: sourced_def) (metis option.simps(9))
  then have "set (dkeys src0) = set (sk_resources s)"
    by (cases "dget (en_sources g) (in_thread i)") (simp_all add: src0_def)
  moreover have "set rest \<subseteq> set (sk_resources s)" by (simp add: rest_def)
  ultimately have keys: "set (dkeys src) = set rest" unfolding src_def dkeys_filter by blast
  have src: "dict_ok src"
    using table_get [OF engine_inv_tables(9) [OF inv]]
    by (auto simp: src_def src0_def dict_ok_filter split: option.split)
  have evs: "evs \<noteq> [] \<and> length evs \<le> evidence_limit" if "rest \<noteq> []"
  proof -
    from that keys have "src \<noteq> []" by (auto simp: dkeys_def)
    then have "dedup (dvalues src) \<noteq> []" by (cases src) (auto simp: dvalues_def)
    then show ?thesis by (simp add: evs_def take_last_Nil)
  qed
  have len: "length rest \<le> length (sk_resources s)" by (simp add: rest_def)
  have fin: "list_all (cand_ok i) (finish s SignalResolved i)" by (rule finish_ok [OF tr]) simp
  have tables: "table (filing ?t) (en_edits g)" "table (\<lambda>_. dict_ok) (en_sources g)"
    using engine_inv_tables(8,9) [OF inv] .
  show ?thesis
  proof (cases "outcome_failure (ev_payload (in_event i)) \<noteq> Some False \<or> scopes = [] \<or> rest = sk_resources s")
    case True
    then show ?thesis unfolding eq using inv by auto
  next
    case False
    consider (many) "?t \<le> int (length rest)" | (few) "\<not> ?t \<le> int (length rest)" "rest \<noteq> []"
      | (none) "rest = []" using t2 by auto
    then show ?thesis
    proof cases
      case many
      let ?s = "s\<lparr>sk_last := ev_at (in_event i), sk_count := int (length rest),
                           sk_evidence := evs, sk_resources := rest\<rparr>"
      have "rest \<noteq> []" using many t2 by auto
      then have s': "filing ?t (in_thread i) ?s" "tracked (in_thread i) ?s"
        using s len many t2 evs by (auto simp: filing_def counting_def tracked_def)
      have "progress cfg i g (g\<lparr>en_edits := dset (in_thread i) ?s (en_edits g),
          en_sources := dset (in_thread i) src (en_sources g)\<rparr>,
          if sk_emitted ?s then [candidate ?s SignalCooledDown (in_id i) (in_version i)] else [])"
        using s' keys src tables by (intro progress_edits inv) (auto intro!: cand_ok_candidate)
      with False many show ?thesis unfolding eq by (cases g) simp
    next
      case few
      let ?s = "(open_streak i EditsWithoutValidation ''files_without_validation''
         ''remaining-unvalidated-files'' (int (length rest)) rest)
           \<lparr>sk_key := ''unvalidated-files'', sk_evidence := evs\<rparr>"
      have "1 \<le> int (length rest)" using few(2) by (cases rest) simp_all
      then have s': "filing ?t (in_thread i) ?s"
        using s len few evs ok
        by (auto simp: filing_def counting_def tracked_def open_streak_def occasion_ok_def)
      have "progress cfg i g (g\<lparr>en_edits := dset (in_thread i) ?s (en_edits g),
          en_sources := dset (in_thread i) src (en_sources g)\<rparr>, finish s SignalResolved i)"
        using s' keys src tables fin by (intro progress_edits inv) auto
      with False few show ?thesis unfolding eq by (cases g) simp
    next
      case none
      have "progress cfg i g (g\<lparr>en_edits := dpop (in_thread i) (en_edits g),
          en_sources := dpop (in_thread i) (dset (in_thread i) src (en_sources g))\<rparr>,
          finish s SignalResolved i)"
        using src tables fin by (intro progress_edits inv) auto
      with False none t2 show ?thesis unfolding eq by (cases g) simp
    qed
  qed
qed

lemma unvalidated_edits_progress:
  "occasion_ok i \<Longrightarrow> engine_inv cfg g \<Longrightarrow> progress cfg i g (unvalidated_edits cfg i g)"
  using edits_observed_progress edits_validated_progress by (simp add: unvalidated_edits_def)

section \<open>Recurrence after a block\<close>

lemma blocks_of_dset:
  "blocks_of (dset k v d) t =
     (if dget d k = None \<and> fst k = t then blocks_of d t @ [k] else blocks_of d t)"
  by (cases "dget d k") (simp_all add: blocks_of_def dict.keys_put_new dict.keys_put_old)

lemma blocks_of_dpop: "blocks_of (dpop k d) t = filter (\<lambda>j. j \<noteq> k) (blocks_of d t)"
  by (simp add: blocks_of_def dict.keys_pop filter_filter conj_commute)

lemma blocks_of_dpop_length: "length (blocks_of (dpop k d) t) \<le> length (blocks_of d t)"
  by (simp add: blocks_of_dpop)

lemma blocks_of_filter: "length (blocks_of (filter Q d) t) \<le> length (blocks_of d t)"
  by (induction d) (auto simp: blocks_of_def dkeys_def)

lemma evict_block_progress:
  assumes inv: "engine_inv cfg g"
  shows "progress cfg i g (evict_block i g)"
    and "length (blocks_of (en_blocked (fst (evict_block i g))) (in_thread i)) < block_limit"
proof -
  let ?keys = "blocks_of (en_blocked g) (in_thread i)"
  have keys: "filter (\<lambda>k. fst k = in_thread i) (dkeys (en_blocked g)) = ?keys"
    by (simp add: blocks_of_def)
  note tb = engine_inv_tables(5) [OF inv] and len = engine_inv_tables(13) [OF inv]
  have "progress cfg i g (evict_block i g)
    \<and> length (blocks_of (en_blocked (fst (evict_block i g))) (in_thread i)) < block_limit"
  proof (cases "block_limit \<le> length ?keys")
    case True
    let ?cs = "case dget (en_blocked g) (hd ?keys) of Some s \<Rightarrow> finish s SignalStale i | None \<Rightarrow> []"
    have ne: "?keys \<noteq> []" using True by (auto simp: block_limit_def)
    then have "fst (hd ?keys) = in_thread i"
      using hd_in_set [OF ne] unfolding blocks_of_def by simp
    then have "list_all (cand_ok i) (finish s SignalStale i)"
      if "dget (en_blocked g) (hd ?keys) = Some s" for s
      using table_get [OF tb that] by (intro finish_ok counting_tracked) (simp_all add: blocked_ok_def)
    then have "list_all (cand_ok i) ?cs" by (simp split: option.split)
    moreover have "dget (dpop (hd ?keys) (en_blocked g)) (t, k) = dget (en_blocked g) (t, k)"
      if "t \<noteq> in_thread i" for t k
      using that \<open>fst (hd ?keys) = in_thread i\<close> by (metis dict.get_pop fst_conv)
    moreover have "length (blocks_of (dpop (hd ?keys) (en_blocked g)) t) \<le> block_limit" for t
      using blocks_of_dpop_length len le_trans by blast
    ultimately have "progress cfg i g (g\<lparr>en_blocked := dpop (hd ?keys) (en_blocked g)\<rparr>, ?cs)"
      using tb by (intro progress_blocked inv) auto
    moreover have "length (filter (\<lambda>j. j \<noteq> hd ?keys) ?keys) < length ?keys"
      using ne by (intro length_filter_less [OF hd_in_set]) auto
    ultimately show ?thesis
      using True len [of "in_thread i"]
      by (simp add: evict_block_def Let_def keys blocks_of_dpop)
  next
    case False
    then show ?thesis using inv by (simp add: evict_block_def Let_def keys)
  qed
  then show "progress cfg i g (evict_block i g)"
    "length (blocks_of (en_blocked (fst (evict_block i g))) (in_thread i)) < block_limit" by auto
qed

lemma block_recurrence_progress:
  assumes ok: "occasion_ok i" and inv: "engine_inv cfg g"
  shows "progress cfg i g (block_recurrence cfg i g)"
proof (cases "ev_kind (in_event i) \<noteq> ''deterministic_gate_block'' \<or> block_fields (ev_payload (in_event i)) = None")
  case True
  then show ?thesis using inv by (auto simp: block_recurrence_def)
next
  case False
  then obtain key rs where f: "block_fields (ev_payload (in_event i)) = Some (key, rs)" by auto
  let ?k = "(in_thread i, key)"
  show ?thesis
  proof (cases "dget (en_blocked g) ?k")
    case (Some s)
    have s: "counting 2 (in_thread i) s"
      using table_get [OF engine_inv_tables(5) [OF inv] Some] by (simp add: blocked_ok_def)
    obtain s' cs where ann: "announce 2 i (extend_streak i (sk_count s + 1) s) = (s', cs)" by fastforce
    have "progress cfg i g (g\<lparr>en_blocked := dset ?k s' (en_blocked g)\<rparr>, cs)"
      using announce_extend [OF s ann] engine_inv_tables(5,13) [OF inv] Some
      by (intro progress_blocked inv) (auto simp: blocked_ok_def blocks_of_dset)
    then show ?thesis using False f Some ann by (simp add: block_recurrence_def Let_def)
  next
    case None
    obtain g1 evicted where ev: "evict_block i g = (g1, evicted)" by (cases "evict_block i g")
    obtain s' cs where ann: "announce 2 i (open_streak i RecurrenceAfterDeterministicBlock
        ''equivalent_blocked_attempts'' key 1 rs) = (s', cs)" by fastforce
    have p: "progress cfg i g (g1, evicted)" and room: "length (blocks_of (en_blocked g1) (in_thread i)) < block_limit"
      using evict_block_progress [OF inv, of i] ev by simp_all
    then have inv1: "engine_inv cfg g1" by (simp add: progress_def)
    have "progress cfg i g1 (g1\<lparr>en_blocked := dset ?k s' (en_blocked g1)\<rparr>, cs)"
      using announce_open [OF ok ann] engine_inv_tables(5,13) [OF inv1] room
      by (intro progress_blocked inv1) (auto simp: blocked_ok_def blocks_of_dset)
    from progress_trans [OF p this] show ?thesis
      using False f None ann ev by (simp add: block_recurrence_def Let_def)
  qed
qed

section \<open>The budget rules and stale hypotheses\<close>

lemma standing_open:
  "occasion_ok i \<Longrightarrow> standing (in_thread i, k) ((open_streak i kind f key n rs)\<lparr>sk_emitted := True\<rparr>)"
  by (simp add: standing_def tracked_open)

lemma standing_extend:
  "standing k s \<Longrightarrow> standing k (extend_streak i n s)"
  "standing k s \<Longrightarrow> standing k (s\<lparr>sk_resources := rs\<rparr>)"
  by (simp_all add: standing_def tracked_extend)

text \<open>A standing streak opened or extended, and the candidate that reports it.\<close>

lemma standing_step:
  assumes ok: "occasion_ok i" and old: "\<And>s. old = Some s \<Longrightarrow> standing (in_thread i, k) s"
    and step: "(case old of None \<Rightarrow> ((open_streak i kind f key n rs)\<lparr>sk_emitted := True\<rparr>, SignalActive)
        | Some s \<Rightarrow> (extend_streak i m s, SignalCooledDown)) = (s', st)"
  shows "standing (in_thread i, k) s' \<and> cand_ok i (candidate s' st (in_id i) (in_version i))"
proof (cases old)
  case None
  with step standing_open [OF ok] show ?thesis
    by (auto simp: tracked_open [OF ok] intro!: cand_ok_candidate)
next
  case (Some s)
  with old have "standing (in_thread i, k) s" by blast
  with Some step standing_extend(1) show ?thesis
    by (auto simp: standing_def intro!: cand_ok_candidate)
qed

lemma context_budget_progress:
  assumes ok: "occasion_ok i" and inv: "engine_inv cfg g"
  shows "progress cfg i g (context_budget cfg i g)"
proof (cases "ev_kind (in_event i) \<noteq> ''token_usage'' \<or> ri_turn (in_identity i) = None
    \<or> token_counts (ev_payload (in_event i)) = None")
  case True
  then show ?thesis using inv by (auto simp: context_budget_def Let_def)
next
  case False
  then obtain used window where c: "token_counts (ev_payload (in_event i)) = Some (used, window)" by auto
  define percent where "percent = min percent_limit (used * 100 div window)"
  let ?key = "(in_thread i, context_key)"
  define old where "old = dget (en_budget g) ?key"
  note tb = engine_inv_tables(11) [OF inv]
  have st: "standing ?key s" if "old = Some s" for s using table_get [OF tb] that by (simp add: old_def)
  show ?thesis
  proof (cases "percent < context_window_percent cfg")
    case True
    have "list_all (cand_ok i) (finish s SignalResolved i)" if "old = Some s" for s
      using st [OF that] by (intro finish_ok) (simp_all add: standing_def)
    then have "progress cfg i g (g\<lparr>en_budget := dpop ?key (en_budget g)\<rparr>, finish s SignalResolved i)"
      if "old = Some s" for s
      using that tb by (intro progress_budget inv) auto
    with False c True inv show ?thesis
      by (auto simp: context_budget_def Let_def percent_def old_def split: option.split)
  next
    case False2: False
    obtain s' status where step: "(case old of
        None \<Rightarrow> ((open_streak i BudgetAnomaly ''context_window_utilization_percent''
           context_key percent [''budget:context-window''])\<lparr>sk_emitted := True\<rparr>, SignalActive)
      | Some s \<Rightarrow> (extend_streak i percent s, SignalCooledDown)) = (s', status)" by fastforce
    note ok' = standing_step [OF ok st step]
    have "progress cfg i g (g\<lparr>en_budget := dset ?key s' (en_budget g)\<rparr>,
        [(candidate s' status (in_id i) (in_version i))
           \<lparr>sc_features := [(''context_window_utilization_percent'', percent),
             (''model_context_window_tokens'', window), (''total_tokens'', used)]\<rparr>])"
      using ok' tb by (intro progress_budget inv) auto
    with False False2 show ?thesis
      unfolding context_budget_def Let_def c option.case prod.case percent_def [symmetric]
        old_def [symmetric] step by auto
  qed
qed

lemma stale_reuse_step_progress:
  assumes ok: "occasion_ok i" and p: "progress cfg i g0 acc"
  shows "progress cfg i g0 (stale_reuse_step i rs acc h)"
proof -
  obtain g cs where acc: "acc = (g, cs)" by (cases acc)
  with p have inv: "engine_inv cfg g" by (simp add: progress_def)
  let ?key = "(in_thread i, h)"
  note tb = engine_inv_tables(10) [OF inv]
  obtain s' st where step: "(case dget (en_stale g) ?key of
      None \<Rightarrow> ((open_streak i StaleHypothesisReuse ''causally_linked_actions'' h 1
         (dedup ((''hypothesis:'' @ h) # rs)))\<lparr>sk_emitted := True\<rparr>, SignalActive)
    | Some s \<Rightarrow> ((extend_streak i (sk_count s + 1) s)
        \<lparr>sk_resources := take scope_limit (dedup (sk_resources s @ rs))\<rparr>, SignalCooledDown)) = (s', st)"
    by fastforce
  have "standing ?key s' \<and> cand_ok i (candidate s' st (in_id i) (in_version i))"
  proof (cases "dget (en_stale g) ?key")
    case None
    with step show ?thesis
      using standing_open [OF ok] by (auto simp: tracked_open [OF ok] intro!: cand_ok_candidate)
  next
    case (Some s)
    with table_get [OF tb] have "standing ?key s" by blast
    with Some step standing_extend show ?thesis
      by (auto simp: standing_def intro!: cand_ok_candidate)
  qed
  then have "progress cfg i g (g\<lparr>en_stale := dset ?key s' (en_stale g)\<rparr>,
      [candidate s' st (in_id i) (in_version i)])"
    using tb by (intro progress_stale inv) auto
  from progress_trans [OF p [unfolded acc] this] show ?thesis
    unfolding acc stale_reuse_step_def Let_def prod.case step .
qed

lemma stale_hypothesis_reuse_progress:
  assumes ok: "occasion_ok i" and inv: "engine_inv cfg g"
  shows "progress cfg i g (stale_hypothesis_reuse cfg i g)"
proof -
  have "progress cfg i g (foldl (stale_reuse_step i rs) acc hs)" if "progress cfg i g acc" for rs acc hs
    using that
  proof (induction hs arbitrary: acc)
    case (Cons h hs)
    then show ?case using stale_reuse_step_progress [OF ok] by simp
  qed simp
  with inv show ?thesis by (simp add: stale_hypothesis_reuse_def split: option.split)
qed

lemma duration_ms_ok:
  "duration_ms v = Inr (Some d) \<Longrightarrow> is_finite d \<and> fl_le (Fin 0) d"
  by (auto simp: duration_ms_def split: option.splits if_splits)

definition reported :: "signal_candidate list result \<Rightarrow> signal_candidate list" where
  "reported r = (case r of Inl _ \<Rightarrow> [] | Inr cs \<Rightarrow> cs)"

lemma reported_simps [simp]: "reported (Inl e) = []" "reported (Inr cs) = cs"
  by (simp_all add: reported_def)

lemma keep_duration_progress:
  assumes inv: "engine_inv cfg g" and d: "is_finite d \<and> fl_le (Fin 0) d"
    and vs: "vs = (case dget (en_durations g) (in_thread i, key) of Some b \<Rightarrow> db_values b | None \<Rightarrow> [])"
  shows "progress cfg i g (keep_duration i key vs d g, [])"
proof -
  note tb = engine_inv_tables(12) [OF inv]
  have "\<forall>x \<in> set vs. is_finite x \<and> fl_le (Fin 0) x"
  proof (cases "dget (en_durations g) (in_thread i, key)")
    case (Some b)
    from table_get [OF tb Some] Some show ?thesis by (simp add: vs baseline_ok_def)
  qed (simp add: vs)
  then have "\<forall>x \<in> set (take_last baseline_limit (vs @ [d])). is_finite x \<and> fl_le (Fin 0) x"
    using d set_take_last [of baseline_limit "vs @ [d]"] by auto
  then have "baseline_ok (in_thread i, key) \<lparr>db_identity = in_identity i,
      db_epoch = ev_epoch (in_event i), db_values = take_last baseline_limit (vs @ [d])\<rparr>"
    by (simp add: baseline_ok_def baseline_limit_def)
  then show ?thesis
    unfolding keep_duration_def using tb by (intro progress_durations inv) auto
qed

lemma duration_anomaly_progress:
  assumes ok: "occasion_ok i" and inv: "engine_inv cfg g"
    and r: "duration_anomaly i key rs percent n ref g = (g', r)"
  shows "progress cfg i g (g', reported r)"
proof -
  let ?key = "(in_thread i, key)"
  define old where "old = dget (en_budget g) ?key"
  note tb = engine_inv_tables(11) [OF inv]
  have st: "standing ?key s" if "old = Some s" for s using table_get [OF tb] that by (simp add: old_def)
  obtain s' status where step: "(case old of
      None \<Rightarrow> ((open_streak i BudgetAnomaly ''duration_vs_median_percent'' key percent
         (''budget:duration'' # rs))\<lparr>sk_emitted := True\<rparr>, SignalActive)
    | Some s \<Rightarrow> (extend_streak i percent s, SignalCooledDown)) = (s', status)" by fastforce
  note ok' = standing_step [OF ok st step]
  have "progress cfg i g (g\<lparr>en_budget := dset ?key s' (en_budget g)\<rparr>, cs)"
    if "list_all (cand_ok i) cs" for cs
    using that ok' tb by (intro progress_budget inv) auto
  moreover have "g' = g\<lparr>en_budget := dset ?key s' (en_budget g)\<rparr> \<and> list_all (cand_ok i) (reported r)"
    using r ok' unfolding duration_anomaly_def Let_def old_def [symmetric] step prod.case
    by (cases "round_of_float ref") auto
  ultimately show ?thesis by simp
qed

lemma duration_budget_progress:
  assumes ok: "occasion_ok i" and inv: "engine_inv cfg g"
    and r: "duration_budget cfg i g = (g', r)"
  shows "progress cfg i g (g', reported r)"
proof -
  let ?e = "in_event i" and ?p = "ev_payload (in_event i)"
  consider (skip) "(g', r) = (g, Inr []) \<or> (\<exists>err. (g', r) = (g, Inl err))"
    | (run) d same rs where "duration_ms (get ?p ''durationMs'') = Inr (Some d)"
      "equivalence ?e = Some (same, rs)" "ev_kind ?e \<in> signal_outcome_kinds"
      "ri_turn (in_identity i) \<noteq> None" "resources_of ?p \<noteq> []"
  proof (cases "duration_ms (get ?p ''durationMs'')")
    case (Inr m)
    show ?thesis
    proof (cases "ev_kind ?e \<notin> signal_outcome_kinds \<or> ri_turn (in_identity i) = None
        \<or> m = None \<or> equivalence ?e = None \<or> resources_of ?p = []")
      case True
      with r Inr have "(g', r) = (g, Inr [])"
        by (cases m; cases "equivalence ?e") (auto simp: duration_budget_def Let_def split: if_splits)
      then show ?thesis by (intro skip) simp
    qed (use Inr run in auto)
  next
    case (Inl err)
    with r have "(g', r) = (g, Inr []) \<or> (g', r) = (g, Inl err)"
      by (auto simp: duration_budget_def Let_def split: if_splits)
    then show ?thesis by (intro skip) blast
  qed
  then show ?thesis
  proof cases
    case skip
    then show ?thesis using inv by auto
  next
    case run
    define key where "key = ''duration:'' @ same"
    let ?key = "(in_thread i, key)"
    define vs where "vs = (case dget (en_durations g) ?key of Some b \<Rightarrow> db_values b | None \<Rightarrow> [])"
    define ref where "ref = median vs"
    define fin where "fin = (case dget (en_budget g) ?key of Some s \<Rightarrow> finish s SignalResolved i | None \<Rightarrow> [])"
    note d = duration_ms_ok [OF run(1)]
    note tb = engine_inv_tables(11) [OF inv]
    have eq: "duration_budget cfg i g =
       (if length vs < baseline_samples \<or> fl_le ref (Fin 0)
        then (keep_duration i key vs d g, Inr [])
        else (case duration_percent d ref of
            Inl err \<Rightarrow> (g, Inl err)
          | Inr percent \<Rightarrow>
              if percent < duration_factor_percent cfg
              then (keep_duration i key vs d (g\<lparr>en_budget := dpop ?key (en_budget g)\<rparr>), Inr fin)
              else duration_anomaly i key rs percent (length vs) ref g))"
      using run(3-5) unfolding duration_budget_def Let_def run(1,2) sum.case option.case prod.case
        key_def [symmetric] vs_def [symmetric] ref_def [symmetric] fin_def [symmetric] by auto
    show ?thesis
    proof (cases "length vs < baseline_samples \<or> fl_le ref (Fin 0)")
      case True
      with r eq keep_duration_progress [OF inv d vs_def] show ?thesis by auto
    next
      case False
      show ?thesis
      proof (cases "duration_percent d ref")
        case (Inl err)
        with r eq False inv show ?thesis by auto
      next
        case (Inr percent)
        show ?thesis
        proof (cases "percent < duration_factor_percent cfg")
          case True
          have "list_all (cand_ok i) fin"
            using table_get [OF tb] by (auto simp: fin_def standing_def split: option.split intro!: finish_ok)
          then have p: "progress cfg i g (g\<lparr>en_budget := dpop ?key (en_budget g)\<rparr>, fin)"
            using tb by (intro progress_budget inv) auto
          then have "engine_inv cfg (g\<lparr>en_budget := dpop ?key (en_budget g)\<rparr>)"
            by (simp add: progress_def)
          from progress_trans [OF p keep_duration_progress [OF this d]] vs_def r eq False Inr True
          show ?thesis by auto
        next
          case False2: False
          with r eq False Inr duration_anomaly_progress [OF ok inv] show ?thesis by auto
        qed
      qed
    qed
  qed
qed

end
