(* ===== verification/Signal_Update.thy ===== *)
theory Signal_Update
  imports Signal_Rules
begin

text \<open>
  The rules of the engine as interpretations of \<open>signal_rule\<close>, the two sweeps, and the
  properties of \<open>update\<close> and \<open>hydrate\<close> over any sequence of events.
\<close>

section \<open>The rules meet their contract\<close>

interpretation context_rule: signal_rule cfg "context_budget cfg" for cfg
  by (rule signal_ruleI) (rule context_budget_progress)

interpretation scope_rule: signal_rule cfg "scope_growth cfg" for cfg
  by (rule signal_ruleI) (rule scope_growth_progress)

interpretation edits_rule: signal_rule cfg "unvalidated_edits cfg" for cfg
  by (rule signal_ruleI) (rule unvalidated_edits_progress)

interpretation stale_rule: signal_rule cfg "stale_hypothesis_reuse cfg" for cfg
  by (rule signal_ruleI) (rule stale_hypothesis_reuse_progress)

interpretation block_rule: signal_rule cfg "block_recurrence cfg" for cfg
  by (rule signal_ruleI) (rule block_recurrence_progress)

interpretation tool_rule: signal_rule cfg "repeated_tool cfg" for cfg
  by (rule signal_ruleI) (rule repeated_tool_progress)

interpretation read_rule: signal_rule cfg "no_frontier_reads cfg" for cfg
  by (rule signal_ruleI) (rule no_frontier_reads_progress)

interpretation failure_rule: signal_rule cfg "failure_streak cfg" for cfg
  by (rule signal_ruleI) (rule failure_streak_progress)

section \<open>The sweeps\<close>

lemma drop_streak_ok:
  assumes "table P d" and "\<And>k s. P k s \<Longrightarrow> tracked k s" and "drop_streak gone i d = (d', cs)"
  shows "table P d'" "list_all (cand_ok i) cs" "\<And>t. t \<noteq> in_thread i \<Longrightarrow> dget d' t = dget d t"
proof -
  have "table P d' \<and> list_all (cand_ok i) cs \<and> (\<forall>t. t \<noteq> in_thread i \<longrightarrow> dget d' t = dget d t)"
  proof (cases "dget d (in_thread i)")
    case (Some s)
    have "tracked (in_thread i) s" by (rule assms(2) [OF table_get [OF assms(1) Some]])
    then have "list_all (cand_ok i) (finish s SignalStale i)" by (rule finish_ok) simp
    moreover have "(d', cs) = (if gone s then (dpop (in_thread i) d, finish s SignalStale i) else (d, []))"
      using assms(3) Some by (simp add: drop_streak_def)
    ultimately show ?thesis
      using assms(1) table_dpop [OF assms(1)] by (cases "gone s") simp_all
  qed (use assms in \<open>simp add: drop_streak_def\<close>)
  then show "table P d'" "list_all (cand_ok i) cs" "\<And>t. t \<noteq> in_thread i \<Longrightarrow> dget d' t = dget d t"
    by auto
qed

lemma drop_streaks_ok:
  assumes "table P d" and "\<And>k s. P k s \<Longrightarrow> tracked (fst k) s" and "drop_streaks gone i d = (d', cs)"
  shows "table P d'" "list_all (cand_ok i) cs"
    "\<And>t k. t \<noteq> in_thread i \<Longrightarrow> dget d' (t, k) = dget d (t, k)"
    "\<And>t. length (blocks_of d' t) \<le> length (blocks_of d t)"
proof -
  have d': "d' = filter (\<lambda>ks. \<not> (fst (fst ks) = in_thread i \<and> gone (snd ks))) d"
    and cs: "cs = concat (map (\<lambda>ks. finish (snd ks) SignalStale i)
        (filter (\<lambda>ks. fst (fst ks) = in_thread i \<and> gone (snd ks)) d))"
    using assms(3) by (simp_all add: drop_streaks_def)
  show "table P d'" using assms(1) by (auto simp: d')
  show "list_all (cand_ok i) cs"
  proof (unfold list_all_iff, rule ballI)
    fix c assume "c \<in> set cs"
    then obtain k s where "(k, s) \<in> set d" "fst k = in_thread i" "c \<in> set (finish s SignalStale i)"
      by (auto simp: cs)
    moreover from this have "tracked (in_thread i) s"
      using assms(2) table_in [OF assms(1)] by fastforce
    ultimately show "cand_ok i c" using finish_ok by (fastforce simp: list_all_iff)
  qed
  show "dget d' (t, k) = dget d (t, k)" if "t \<noteq> in_thread i" for t k
    using assms(1) that by (auto simp: d' dget_filter table_def split: option.split)
  show "length (blocks_of d' t) \<le> length (blocks_of d t)" for t
    unfolding d' by (rule blocks_of_filter)
qed

lemma tracked_tables:
  "counting n k s \<Longrightarrow> tracked k s" "filing n k s \<Longrightarrow> tracked k s"
  "blocked_ok kk s \<Longrightarrow> tracked (fst kk) s" "standing kk s \<Longrightarrow> tracked (fst kk) s"
  by (simp_all add: counting_def filing_def blocked_ok_def standing_def)

text \<open>A sweep of every table of one thread.\<close>

lemma sweep_progress:
  assumes inv: "engine_inv cfg g"
    and f: "drop_streak p1 i (en_failure g) = (failure, c1)"
    and r: "drop_streak p2 i (en_repeated g) = (repeated, c2)"
    and rd: "drop_streak p3 i (en_reading g) = (reading, c3)"
    and gr: "drop_streak p4 i (en_growths g) = (growths, c4)"
    and ed: "drop_streak p5 i (en_edits g) = (edits, c5)"
    and bl: "drop_streaks p6 i (en_blocked g) = (blocked, c6)"
    and st: "drop_streaks p7 i (en_stale g) = (stale, c7)"
    and bu: "drop_streaks p8 i (en_budget g) = (budget, c8)"
    and fr: "table frontier_ok frontiers" "\<And>t. t \<noteq> in_thread i \<Longrightarrow> dget frontiers t = dget (en_frontiers g) t"
    and sc: "table (\<lambda>_ d. ds_paths d \<noteq> []) scopes" "\<And>t. t \<noteq> in_thread i \<Longrightarrow> dget scopes t = dget (en_scopes g) t"
    and du: "table baseline_ok durations"
      "\<And>t k. t \<noteq> in_thread i \<Longrightarrow> dget durations (t, k) = dget (en_durations g) (t, k)"
    and so: "table (\<lambda>_. dict_ok) sources" "\<And>t. t \<noteq> in_thread i \<Longrightarrow> dget sources t = dget (en_sources g) t"
      "map_option (\<lambda>s. set (sk_resources s)) (dget edits (in_thread i))
         = map_option (\<lambda>d. set (dkeys d)) (dget sources (in_thread i))"
  shows "progress cfg i g (g\<lparr>en_failure := failure, en_repeated := repeated, en_reading := reading,
            en_frontiers := frontiers, en_blocked := blocked, en_scopes := scopes,
            en_growths := growths, en_edits := edits, en_sources := sources, en_stale := stale,
            en_budget := budget, en_durations := durations\<rparr>,
          c1 @ c2 @ c3 @ c4 @ c5 @ c6 @ c7 @ c8)"
proof -
  note tb = engine_inv_tables [OF inv]
  note f = drop_streak_ok [OF tb(1) tracked_tables(1) f]
  note r = drop_streak_ok [OF tb(2) tracked_tables(1) r]
  note rd = drop_streak_ok [OF tb(3) tracked_tables(1) rd]
  note gr = drop_streak_ok [OF tb(7) tracked_tables(2) gr]
  note ed = drop_streak_ok [OF tb(8) tracked_tables(2) ed]
  note bl = drop_streaks_ok [OF tb(5) tracked_tables(3) bl]
  note st = drop_streaks_ok [OF tb(10) tracked_tables(4) st]
  note bu = drop_streaks_ok [OF tb(11) tracked_tables(4) bu]
  have "length (blocks_of blocked t) \<le> block_limit" for t
    using bl(4) tb(13) le_trans by blast
  moreover have "map_option (\<lambda>s. set (sk_resources s)) (dget edits t)
      = map_option (\<lambda>d. set (dkeys d)) (dget sources t)" for t
    using so(2,3) ed(3) tb(14) by (cases "t = in_thread i") (simp_all add: sourced_def)
  ultimately show ?thesis
    using inv f r rd gr ed bl st bu fr sc du so
    by (simp add: progress_def engine_inv_def thread_view_def sourced_def)
qed

lemma drop_baselines:
  assumes "table baseline_ok d" and "\<And>kb. Q kb \<Longrightarrow> fst (fst kb) = tid"
  shows "table baseline_ok (filter (\<lambda>kb. \<not> Q kb) d)"
    "t \<noteq> tid \<Longrightarrow> dget (filter (\<lambda>kb. \<not> Q kb) d) (t, k) = dget d (t, k)"
  using assms by (auto simp: dget_filter table_def dict_ok_filter split: option.split)

lemma sweep_changed_progress:
  assumes inv: "engine_inv cfg g"
  shows "progress cfg i g (sweep_changed i g)"
proof -
  let ?moved = "streak_moved i" and ?tid = "in_thread i"
  obtain failure c1 where c1: "drop_streak ?moved i (en_failure g) = (failure, c1)" by fastforce
  obtain repeated c2 where c2: "drop_streak ?moved i (en_repeated g) = (repeated, c2)" by fastforce
  obtain reading c3 where c3: "drop_streak ?moved i (en_reading g) = (reading, c3)" by fastforce
  obtain growths c4 where c4: "drop_streak ?moved i (en_growths g) = (growths, c4)" by fastforce
  obtain edits c5 where c5: "drop_streak ?moved i (en_edits g) = (edits, c5)" by fastforce
  obtain blocked c6 where c6: "drop_streaks ?moved i (en_blocked g) = (blocked, c6)" by fastforce
  obtain stale c7 where c7: "drop_streaks ?moved i (en_stale g) = (stale, c7)" by fastforce
  obtain budget c8 where c8: "drop_streaks ?moved i (en_budget g) = (budget, c8)" by fastforce
  note tb = engine_inv_tables [OF inv]
  have sourced: "map_option (\<lambda>s. set (sk_resources s)) (dget (en_edits g) ?tid)
      = map_option (\<lambda>d. set (dkeys d)) (dget (en_sources g) ?tid)"
    using tb(14) by (simp add: sourced_def)
  show ?thesis
    unfolding sweep_changed_def Let_def c1 c2 c3 c4 c5 c6 c7 c8 prod.case
  proof (rule sweep_progress [OF inv c1 c2 c3 c4 c5 c6 c7 c8], goal_cases)
    case 1
    show ?case using tb(4) by (auto split: option.split)
  next
    case (2 t)
    then show ?case by (simp split: option.split)
  next
    case 3
    show ?case using tb(6) by (auto split: option.split)
  next
    case (4 t)
    then show ?case by (simp split: option.split)
  next
    case 5
    show ?case by (rule drop_baselines [OF tb(12), of _ ?tid]) simp
  next
    case (6 t k)
    then show ?case by (intro drop_baselines [OF tb(12), of _ ?tid]) simp_all
  next
    case 7
    show ?case using tb(9) by (auto split: option.split)
  next
    case (8 t)
    then show ?case by (simp split: option.split)
  next
    case 9
    show ?case
      using sourced c5 by (cases "dget (en_edits g) ?tid") (auto simp: drop_streak_def split: if_splits)
  qed
qed

lemma sweep_terminal_progress:
  assumes inv: "engine_inv cfg g"
  shows "progress cfg i g (sweep_terminal i g)"
proof -
  let ?all = "\<lambda>_. True" and ?tid = "in_thread i"
  obtain failure c1 where c1: "drop_streak ?all i (en_failure g) = (failure, c1)" by fastforce
  obtain repeated c2 where c2: "drop_streak ?all i (en_repeated g) = (repeated, c2)" by fastforce
  obtain reading c3 where c3: "drop_streak ?all i (en_reading g) = (reading, c3)" by fastforce
  obtain growths c4 where c4: "drop_streak ?all i (en_growths g) = (growths, c4)" by fastforce
  obtain edits c5 where c5: "drop_streak ?all i (en_edits g) = (edits, c5)" by fastforce
  obtain blocked c6 where c6: "drop_streaks ?all i (en_blocked g) = (blocked, c6)" by fastforce
  obtain stale c7 where c7: "drop_streaks ?all i (en_stale g) = (stale, c7)" by fastforce
  obtain budget c8 where c8: "drop_streaks ?all i (en_budget g) = (budget, c8)" by fastforce
  note tb = engine_inv_tables [OF inv]
  show ?thesis
    unfolding sweep_terminal_def Let_def c1 c2 c3 c4 c5 c6 c7 c8 prod.case
  proof (rule sweep_progress [OF inv c1 c2 c3 c4 c5 c6 c7 c8], goal_cases)
    case 5
    show ?case by (rule drop_baselines [OF tb(12), of "\<lambda>kb. fst (fst kb) = ?tid"]) simp
  next
    case (6 t k)
    then show ?case by (intro drop_baselines [OF tb(12), of "\<lambda>kb. fst (fst kb) = ?tid"]) simp_all
  next
    case 9
    show ?case using c5 by (cases "dget (en_edits g) ?tid") (auto simp: drop_streak_def)
  qed (use tb in auto)
qed

section \<open>update\<close>

definition occasion_of :: "trace_event \<Rightarrow> runtime_identity \<Rightarrow> thread_id \<Rightarrow> string \<Rightarrow> nat \<Rightarrow>
    thread_state option \<Rightarrow> occasion" where
  "occasion_of e identity tid eid version state =
     \<lparr>in_event = e, in_identity = identity, in_thread = tid, in_id = eid,
      in_version = version, in_state = state\<rparr>"

lemma later_rules_progress:
  assumes "occasion_ok i" and "progress cfg i g0 acc"
  shows "progress cfg i g0 (later_rules cfg i acc)"
  unfolding later_rules_def
  by (intro scope_rule.step edits_rule.step stale_rule.step block_rule.step tool_rule.step
      read_rule.step failure_rule.step assms)

lemma update_fresh_progress:
  assumes ok: "occasion_ok i" and inv: "engine_inv cfg g" and u: "update_fresh cfg i g = (g', r)"
  shows "progress cfg i g (g', reported r)"
proof -
  obtain g1 c1 where s1: "sweep_changed i g = (g1, c1)" by fastforce
  have p1: "progress cfg i g (g1, c1)" using sweep_changed_progress [OF inv, of i] s1 by simp
  then have inv1: "engine_inv cfg g1" by (simp add: progress_def)
  show ?thesis
  proof (cases "ev_kind (in_event i) \<in> terminal_kinds")
    case True
    obtain g2 c2 where s2: "sweep_terminal i g1 = (g2, c2)" by fastforce
    have "progress cfg i g1 (g2, c2)" using sweep_terminal_progress [OF inv1, of i] s2 by simp
    from progress_trans [OF p1 this] u s1 s2 True show ?thesis by (auto simp: update_fresh_def)
  next
    case False
    obtain g2 c2 where r2: "then_rule (context_budget cfg i) (g1, c1) = (g2, c2)" by fastforce
    have p2: "progress cfg i g (g2, c2)" using context_rule.step [OF ok p1] r2 by simp
    then have inv2: "engine_inv cfg g2" by (simp add: progress_def)
    obtain g3 r3 where r3: "duration_budget cfg i g2 = (g3, r3)" by fastforce
    note p3 = progress_trans [OF p2 duration_budget_progress [OF ok inv2 r3]]
    show ?thesis
    proof (cases r3)
      case (Inl err)
      with u s1 r2 r3 False have "g' = g3 \<and> r = Inl err" by (simp add: update_fresh_def)
      with p3 Inl show ?thesis by (simp add: progress_def)
    next
      case (Inr c3)
      obtain g4 c4 where r4: "later_rules cfg i (g3, c2 @ c3) = (g4, c4)" by fastforce
      with u s1 r2 r3 Inr False have "g' = g4 \<and> r = Inr c4" by (simp add: update_fresh_def)
      with later_rules_progress [OF ok p3] Inr r4 show ?thesis by simp
    qed
  qed
qed

lemma update_skips:
  assumes "event_thread e = None \<or> ev_id e = None
    \<or> (\<exists>tid i. event_thread e = Some tid \<and> ev_id e = Some i \<and> i \<in> seen_of g tid)"
  shows "update cfg g e v st = (g, Inr [])"
  using assms by (auto simp: update_def event_thread_def split: option.split)

lemma update_runs:
  assumes "ev_identity e = Some identity" and "ri_thread identity = Some tid"
    and "ev_id e = Some eid" and "eid \<notin> seen_of g tid"
  shows "update cfg g e v st = update_fresh cfg (occasion_of e identity tid eid v st)
      (g\<lparr>en_seen := dset tid (insert eid (seen_of g tid)) (en_seen g)\<rparr>)"
    and "occasion_ok (occasion_of e identity tid eid v st)"
  using assms by (simp_all add: update_def occasion_of_def occasion_ok_def)

lemma engine_inv_seen: "engine_inv cfg g \<Longrightarrow> dict_ok d \<Longrightarrow> engine_inv cfg (g\<lparr>en_seen := d\<rparr>)"
  by (simp add: engine_inv_def sourced_def)

lemma thread_view_seen [simp]: "thread_view (g\<lparr>en_seen := d\<rparr>) t = thread_view g t"
  by (simp add: thread_view_def)

text \<open>Every call of \<open>update\<close>, skipped or not.\<close>

lemma update_cases:
  assumes "update cfg g e v st = (g', r)"
  obtains (skipped) "g' = g" "r = Inr []"
      "event_thread e = None \<or> ev_id e = None
        \<or> (\<exists>tid i. event_thread e = Some tid \<and> ev_id e = Some i \<and> i \<in> seen_of g tid)"
  | (ran) identity tid eid where "ev_identity e = Some identity" "ri_thread identity = Some tid"
      "ev_id e = Some eid" "eid \<notin> seen_of g tid"
      "update_fresh cfg (occasion_of e identity tid eid v st)
        (g\<lparr>en_seen := dset tid (insert eid (seen_of g tid)) (en_seen g)\<rparr>) = (g', r)"
      "occasion_ok (occasion_of e identity tid eid v st)"
proof (cases "event_thread e = None \<or> ev_id e = None
    \<or> (\<exists>tid i. event_thread e = Some tid \<and> ev_id e = Some i \<and> i \<in> seen_of g tid)")
  case True
  with update_skips [OF True] assms skipped show ?thesis by simp
next
  case False
  then obtain identity tid eid where "ev_identity e = Some identity" "ri_thread identity = Some tid"
      "ev_id e = Some eid" "eid \<notin> seen_of g tid"
    by (auto simp: event_thread_def bind_eq_Some_conv)
  with update_runs [OF this] assms ran show ?thesis by metis
qed

text \<open>A candidate about one event: its thread, its identifier as the source, bounded evidence that
  ends with it when the candidate is new.\<close>

definition about_event :: "trace_event \<Rightarrow> nat \<Rightarrow> signal_candidate \<Rightarrow> bool" where
  "about_event e v c \<longleftrightarrow> event_thread e = Some (sc_thread c) \<and> ev_id e = Some (sc_source c)
     \<and> sc_version c = v \<and> sc_evidence c \<noteq> [] \<and> length (sc_evidence c) \<le> evidence_limit
     \<and> (sc_status c = SignalActive \<longrightarrow> last (sc_evidence c) = sc_source c)"

lemma update_effect:
  assumes inv: "engine_inv cfg g" and u: "update cfg g e v st = (g', r)"
  shows "engine_inv cfg g'" "list_all (about_event e v) (reported r)"
    "event_thread e \<noteq> Some t \<Longrightarrow> thread_view g' t = thread_view g t \<and> seen_of g' t = seen_of g t"
proof -
  have "engine_inv cfg g' \<and> list_all (about_event e v) (reported r)
    \<and> (event_thread e \<noteq> Some t \<longrightarrow> thread_view g' t = thread_view g t \<and> seen_of g' t = seen_of g t)"
  using u
  proof (cases rule: update_cases)
    case skipped
    with inv show ?thesis by simp
  next
    case (ran identity tid eid)
    let ?g = "g\<lparr>en_seen := dset tid (insert eid (seen_of g tid)) (en_seen g)\<rparr>"
    have "engine_inv cfg ?g" using inv by (intro engine_inv_seen) (auto simp: engine_inv_def)
    from update_fresh_progress [OF ran(6) this ran(5)]
    have p: "engine_inv cfg g'" "list_all (cand_ok (occasion_of e identity tid eid v st)) (reported r)"
      "\<And>t. t \<noteq> tid \<Longrightarrow> thread_view g' t = thread_view g t" "en_seen g' = en_seen ?g"
      by (simp_all add: progress_def occasion_of_def)
    have "event_thread e = Some tid" using ran(1,2) by (simp add: event_thread_def)
    with p ran(3) show ?thesis
      by (auto simp: list_all_iff cand_ok_def about_event_def occasion_of_def seen_of_def)
  qed
  then show "engine_inv cfg g'" "list_all (about_event e v) (reported r)"
    "event_thread e \<noteq> Some t \<Longrightarrow> thread_view g' t = thread_view g t \<and> seen_of g' t = seen_of g t"
    by blast+
qed

section \<open>Reachable engines\<close>

inductive engine_reach :: "signal_config \<Rightarrow> engine \<Rightarrow> bool" for cfg where
  created: "new_engine cfg = Inr g \<Longrightarrow> engine_reach cfg g"
| updated: "engine_reach cfg g \<Longrightarrow> update cfg g e v st = (g', r) \<Longrightarrow> engine_reach cfg g'"

lemma engine_reach_inv: "engine_reach cfg g \<Longrightarrow> engine_inv cfg g"
  by (induction rule: engine_reach.induct)
    (auto simp: new_engine_iff intro: engine_inv_empty update_effect(1))


text \<open>Candidates are evidence about the event that caused them: each names the event's thread,
  the event as its source, the state version it was given, and at most twenty evidence
  identifiers; a newly active one ends with the event itself.\<close>

theorem candidates_about_event:
  assumes "engine_reach cfg g" and "update cfg g e v st = (g', Inr cs)" and "c \<in> set cs"
  shows "event_thread e = Some (sc_thread c) \<and> ev_id e = Some (sc_source c) \<and> sc_version c = v
    \<and> sc_evidence c \<noteq> [] \<and> length (sc_evidence c) \<le> 20
    \<and> (sc_status c = SignalActive \<longrightarrow> last (sc_evidence c) = sc_source c)"
  using update_effect(2) [OF engine_reach_inv [OF assms(1)] assms(2)] assms(3)
  by (simp add: list_all_iff about_event_def evidence_limit_def)

text \<open>C12: Threads do not disturb each other's signals: an event changes nothing the engine holds
  for any other thread, also when the update fails.\<close>

theorem update_isolates_threads:
  assumes "engine_reach cfg g" and "event_thread e \<noteq> Some t"
  shows "thread_view (fst (update cfg g e v st)) t = thread_view g t
    \<and> seen_of (fst (update cfg g e v st)) t = seen_of g t"
  using update_effect(3) [OF engine_reach_inv [OF assms(1)] surjective_pairing assms(2)] .

lemma update_seen_grows:
  assumes "engine_inv cfg g" and "update cfg g e v st = (g', r)"
  shows "seen_of g t \<subseteq> seen_of g' t"
    and "event_thread e = Some tid \<Longrightarrow> ev_id e = Some i \<Longrightarrow> i \<in> seen_of g' tid"
proof -
  have "seen_of g t \<subseteq> seen_of g' t \<and> (event_thread e = Some tid \<longrightarrow> ev_id e = Some i \<longrightarrow> i \<in> seen_of g' tid)"
    for t tid i
    using assms(2)
  proof (cases rule: update_cases)
    case skipped
    then show ?thesis by auto
  next
    case (ran identity tid' eid)
    let ?g = "g\<lparr>en_seen := dset tid' (insert eid (seen_of g tid')) (en_seen g)\<rparr>"
    have "engine_inv cfg ?g" using assms(1) by (intro engine_inv_seen) (auto simp: engine_inv_def)
    from update_fresh_progress [OF ran(6) this ran(5)] have "en_seen g' = en_seen ?g"
      by (simp add: progress_def)
    with ran(1-3) show ?thesis by (auto simp: seen_of_def event_thread_def)
  qed
  then show "seen_of g t \<subseteq> seen_of g' t"
    "event_thread e = Some tid \<Longrightarrow> ev_id e = Some i \<Longrightarrow> i \<in> seen_of g' tid" by blast+
qed

inductive updates :: "signal_config \<Rightarrow> engine \<Rightarrow> engine \<Rightarrow> bool" for cfg where
  none: "updates cfg g g"
| one: "updates cfg g g1 \<Longrightarrow> update cfg g1 e v st = (g2, r) \<Longrightarrow> updates cfg g g2"

text \<open>Delivery of an event is idempotent: once an update has run for it, whether it reported,
  stayed silent or raised, the same event never changes the engine or reports again.\<close>

theorem update_once:
  assumes reach: "engine_reach cfg g" and e: "event_thread e = Some tid" "ev_id e = Some i"
    and first: "update cfg g e v st = (g1, r)" and later: "updates cfg g1 g2"
  shows "update cfg g2 e v' st' = (g2, Inr [])"
proof -
  have "engine_inv cfg g1" "i \<in> seen_of g1 tid"
    using update_effect(1) update_seen_grows(2) engine_reach_inv [OF reach] first e by blast+
  with later have "engine_inv cfg g2 \<and> i \<in> seen_of g2 tid"
  proof (induction rule: updates.induct)
    case (one g g1 e v st g2 r)
    then show ?case using update_effect(1) update_seen_grows(1) by blast
  qed simp
  with e show ?thesis by (intro update_skips) blast
qed

text \<open>A terminal event forgets the thread: after the end of a turn, a gap or the closing of a
  thread the engine tracks nothing for it, and everything it had announced is reported
  stale, nothing as active.\<close>

theorem terminal_event_forgets:
  assumes reach: "engine_reach cfg g" and kind: "ev_kind e \<in> terminal_kinds"
    and e: "event_thread e = Some tid" "ev_id e = Some eid" and fresh: "eid \<notin> seen_of g tid"
  shows "\<exists>g' cs. update cfg g e v st = (g', Inr cs)
    \<and> thread_view g' tid = thread_view empty_engine tid
    \<and> list_all (\<lambda>c. sc_status c = SignalStale) cs"
proof -
  from e(1) obtain identity where id: "ev_identity e = Some identity" "ri_thread identity = Some tid"
    by (auto simp: event_thread_def bind_eq_Some_conv)
  define i where "i = occasion_of e identity tid eid v st"
  define g0 where "g0 = g\<lparr>en_seen := dset tid (insert eid (seen_of g tid)) (en_seen g)\<rparr>"
  have i: "in_thread i = tid" "in_event i = e" by (simp_all add: i_def occasion_of_def)
  obtain g1 c1 where s1: "sweep_changed i g0 = (g1, c1)" by fastforce
  obtain g2 c2 where s2: "sweep_terminal i g1 = (g2, c2)" by fastforce
  have inv0: "engine_inv cfg g0"
    using engine_reach_inv [OF reach] unfolding g0_def by (intro engine_inv_seen) (auto simp: engine_inv_def)
  from sweep_changed_progress [OF this, of i] s1 have inv1: "engine_inv cfg g1" by (simp add: progress_def)
  have up: "update cfg g e v st = (g2, Inr (c1 @ c2))"
    using update_runs(1) [OF id e(2) fresh] s1 s2 kind
    by (simp add: update_fresh_def i_def [symmetric] g0_def [symmetric] i)
  have fin: "list_all (\<lambda>c. sc_status c = SignalStale) (finish s SignalStale i)" for s
    by (simp add: finish_def candidate_def)
  have one: "list_all (\<lambda>c. sc_status c = SignalStale) (snd (drop_streak p i d))" for p d
    using fin by (simp add: drop_streak_def split: option.split)
  have many: "list_all (\<lambda>c. sc_status c = SignalStale) (snd (drop_streaks p i d))" for p d
    using fin by (auto simp: drop_streaks_def list_all_iff)
  have "list_all (\<lambda>c. sc_status c = SignalStale) c1"
    using s1 one many by (auto simp: sweep_changed_def Let_def split: prod.splits) (metis snd_conv)+
  moreover have "list_all (\<lambda>c. sc_status c = SignalStale) c2"
    using s2 one many by (auto simp: sweep_terminal_def Let_def split: prod.splits) (metis snd_conv)+
  moreover have "thread_view g2 tid = thread_view empty_engine tid"
  proof -
    have gone: "dget (fst (drop_streak (\<lambda>_. True) i d)) tid = None" for d
      by (simp add: drop_streak_def i split: option.split)
    have gones: "dget (fst (drop_streaks (\<lambda>_. True) i d)) (tid, k) = None" if "dict_ok d" for d k
      using that by (simp add: drop_streaks_def i dget_filter split: option.split)
    have dur: "dget (filter (\<lambda>kb. fst (fst kb) \<noteq> tid) (en_durations g1)) (tid, k) = None" for k
      using inv1 by (simp add: engine_inv_def table_def dget_filter split: option.split)
    have ok: "dict_ok (en_blocked g1)" "dict_ok (en_stale g1)" "dict_ok (en_budget g1)"
      using inv1 by (simp_all add: engine_inv_def table_def)
    have "g2 = fst (sweep_terminal i g1)" using s2 by simp
    then show ?thesis
      using gone gones [OF ok(1)] gones [OF ok(2)] gones [OF ok(3)] dur
      by (simp add: thread_view_def sweep_terminal_def Let_def split_beta empty_engine_def i)
  qed
  ultimately show ?thesis using up by simp
qed

end
