(* ===== verification/Signal_Claims.thy ===== *)
theory Signal_Claims
  imports Signal_Update
begin

text \<open>
  The lifecycle of failure streaks over \<open>update\<close>, the only way \<open>update\<close> raises, the paths
  the engine compares, and what \<open>hydrate\<close> hands back for publication.
\<close>

section \<open>Rules that leave the failure streaks alone\<close>

lemma en_failure_frame:
  "en_failure (fst (context_budget cfg i g)) = en_failure g"
  "en_failure (fst (scope_growth cfg i g)) = en_failure g"
  "en_failure (fst (block_recurrence cfg i g)) = en_failure g"
  "en_failure (fst (repeated_tool cfg i g)) = en_failure g"
  "en_failure (fst (no_frontier_reads cfg i g)) = en_failure g"
  by (simp_all add: context_budget_def scope_growth_def scope_declared_def scope_observed_def
      block_recurrence_def evict_block_def repeated_tool_def drop_repeated_def no_frontier_reads_def
      drop_reading_def Let_def split_beta split: option.split)

lemma en_failure_edits: "en_failure (fst (unvalidated_edits cfg i g)) = en_failure g"
  by (simp add: unvalidated_edits_def edits_observed_def edits_validated_def Let_def split_beta
      split: option.split)

lemma en_failure_stale: "en_failure (fst (stale_hypothesis_reuse cfg i g)) = en_failure g"
proof -
  have "en_failure (fst (stale_reuse_step i rs acc h)) = en_failure (fst acc)" for rs acc h
    by (simp add: stale_reuse_step_def Let_def split_beta split: option.split)
  then have "en_failure (fst (foldl (stale_reuse_step i rs) acc hs)) = en_failure (fst acc)" for rs acc hs
    by (induction hs arbitrary: acc) simp_all
  then show ?thesis by (simp add: stale_hypothesis_reuse_def split: option.split)
qed

lemma en_failure_duration: "en_failure (fst (duration_budget cfg i g)) = en_failure g"
  by (simp add: duration_budget_def duration_anomaly_def keep_duration_def Let_def split_beta
      split: option.split sum.split)

lemma then_rule_fst: "fst (then_rule r acc) = fst (r (fst acc))"
  by (simp add: then_rule_def split_beta)

lemma then_rule_snd: "snd (then_rule r acc) = snd acc @ snd (r (fst acc))"
  by (simp add: then_rule_def split_beta)

lemma drop_streak_get:
  "dget (fst (drop_streak p i d)) (in_thread i) = (case dget d (in_thread i) of
     Some s \<Rightarrow> if p s then None else Some s | None \<Rightarrow> None)"
  by (simp add: drop_streak_def split: option.split)

text \<open>The failure streak a thread still has after the first sweep.\<close>

definition live_failure :: "engine \<Rightarrow> occasion \<Rightarrow> streak option" where
  "live_failure g i = (case dget (en_failure g) (in_thread i) of
     Some s \<Rightarrow> if streak_moved i s then None else Some s | None \<Rightarrow> None)"

lemma failure_last:
  assumes run: "update_fresh cfg i g = (g', Inr cs)" and kind: "ev_kind (in_event i) \<notin> terminal_kinds"
  obtains g1 others where "dget (en_failure g1) (in_thread i) = live_failure g i"
    "g' = fst (failure_streak cfg i g1)" "cs = others @ snd (failure_streak cfg i g1)"
proof -
  obtain g0 c0 where s: "sweep_changed i g = (g0, c0)" by fastforce
  obtain g2 c2 where r2: "then_rule (context_budget cfg i) (g0, c0) = (g2, c2)" by fastforce
  obtain g3 r3 where r3: "duration_budget cfg i g2 = (g3, r3)" by fastforce
  obtain c3 where c3: "r3 = Inr c3" "later_rules cfg i (g3, c2 @ c3) = (g', cs)"
    using run kind s r2 r3 by (cases r3) (auto simp: update_fresh_def split: prod.splits)
  define acc where "acc = then_rule (no_frontier_reads cfg i) (then_rule (repeated_tool cfg i)
    (then_rule (block_recurrence cfg i) (then_rule (stale_hypothesis_reuse cfg i)
    (then_rule (unvalidated_edits cfg i) (then_rule (scope_growth cfg i) (g3, c2 @ c3))))))"
  have "en_failure (fst acc) = en_failure g3"
    by (simp add: acc_def then_rule_fst en_failure_frame en_failure_edits en_failure_stale)
  also have "\<dots> = en_failure g2" using en_failure_duration [of cfg i g2] r3 by simp
  also have "\<dots> = en_failure g0"
    using then_rule_fst [of "context_budget cfg i" "(g0, c0)"] r2 en_failure_frame(1) [of cfg i g0] by simp
  also have "\<dots> = fst (drop_streak (streak_moved i) i (en_failure g))"
    using s by (auto simp: sweep_changed_def Let_def split: prod.splits)
  finally have "dget (en_failure (fst acc)) (in_thread i) = live_failure g i"
    by (simp add: drop_streak_get live_failure_def)
  moreover have "(g', cs) = then_rule (failure_streak cfg i) acc"
    using c3(2) by (simp add: later_rules_def acc_def)
  then have "g' = fst (failure_streak cfg i (fst acc))" "cs = snd acc @ snd (failure_streak cfg i (fst acc))"
    by (metis fst_conv then_rule_fst, metis snd_conv then_rule_snd)
  ultimately show ?thesis by (rule that)
qed

lemma live_failure_seen:
  "live_failure (g\<lparr>en_seen := d\<rparr>) i = live_failure g i"
  by (simp add: live_failure_def)

lemma outcome_not_terminal: "k \<in> signal_outcome_kinds \<Longrightarrow> k \<notin> terminal_kinds"
  by (auto simp: signal_outcome_kinds_def terminal_kinds_def)

lemma candidate_emitted: "candidate (s\<lparr>sk_emitted := b\<rparr>) = candidate s"
  by (intro ext) (simp add: candidate_def)

text \<open>The failure lifecycle, exactly: a failing outcome continues the streak of its key (in the
  same turn and connection) or starts a new one at one; the engine says nothing below the
  threshold, reports the streak active when the count reaches it, and cooled down from then
  on, so a streak is announced once.\<close>

theorem failure_streak_counts:
  assumes reach: "engine_reach cfg g" and id: "ev_identity e = Some identity" "ri_thread identity = Some tid"
    and eid: "ev_id e = Some eid" and fresh: "eid \<notin> seen_of g tid"
    and kind: "ev_kind e \<in> signal_outcome_kinds" and key: "equivalence e = Some (key, rs)"
    and failing: "outcome_failure (ev_payload e) = Some True"
    and run: "update cfg g e v st = (g', Inr cs)"
  shows "\<exists>s others. dget (en_failure g') tid = Some s \<and> sk_key s = key
    \<and> sk_count s = (case dget (en_failure g) tid of
         Some s0 \<Rightarrow> if sk_key s0 = key \<and> \<not> target_changed (sk_identity s0) (sk_epoch s0) e
           then sk_count s0 + 1 else 1
       | None \<Rightarrow> 1)
    \<and> cs = others @ (if sk_count s < failure_threshold cfg then []
         else [candidate s (if sk_count s = failure_threshold cfg then SignalActive
                            else SignalCooledDown) eid v])"
proof -
  define i where "i = occasion_of e identity tid eid v st"
  have i: "in_thread i = tid" "in_event i = e" "in_id i = eid" "in_version i = v"
    by (simp_all add: i_def occasion_of_def)
  have t2: "2 \<le> failure_threshold cfg"
    using engine_reach_inv [OF reach] by (simp add: engine_inv_def config_ok_def)
  let ?g = "g\<lparr>en_seen := dset tid (insert eid (seen_of g tid)) (en_seen g)\<rparr>"
  have fr: "update_fresh cfg i ?g = (g', Inr cs)"
    using run update_runs(1) [OF id eid fresh] by (simp add: i_def)
  have "ev_kind (in_event i) \<notin> terminal_kinds" using kind by (simp add: i outcome_not_terminal)
  from failure_last [OF fr this] obtain g1 others where g1: "dget (en_failure g1) tid = live_failure g i"
    and out: "g' = fst (failure_streak cfg i g1)" "cs = others @ snd (failure_streak cfg i g1)"
    unfolding i live_failure_seen by blast
  define kept where "kept = (case live_failure g i of Some s \<Rightarrow> if sk_key s = key then Some s else None | None \<Rightarrow> None)"
  define finished where "finished = (case live_failure g i of
     Some s \<Rightarrow> if sk_key s = key then [] else finish s SignalStale i | None \<Rightarrow> [])"
  define s1 where "s1 = (case kept of
     None \<Rightarrow> open_streak i FailureStreak ''consecutive_failures'' key 1 rs
   | Some s \<Rightarrow> extend_streak i (sk_count s + 1) s)"
  obtain s' said where ann: "announce (failure_threshold cfg) i s1 = (s', said)" by fastforce
  have fs: "failure_streak cfg i g1 = (g1\<lparr>en_failure := dset tid s' (en_failure g1)\<rparr>, finished @ said)"
  proof -
    have pick: "(case live_failure g i of None \<Rightarrow> (None, [])
        | Some s \<Rightarrow> if sk_key s \<noteq> key then (None, finish s SignalStale i) else (Some s, [])) = (kept, finished)"
      by (simp add: kept_def finished_def split: option.split)
    show ?thesis
      by (simp add: failure_streak_def Let_def i kind key failing g1 pick s1_def [symmetric] ann)
  qed
  have old: "counting (failure_threshold cfg) tid s" if "kept = Some s" for s
    using that table_get [OF engine_inv_tables(1) [OF engine_reach_inv [OF reach]], of tid s]
    by (auto simp: kept_def live_failure_def i split: option.splits if_splits)
  have s1: "sk_key s1 = key" "sk_count s1 = (case kept of Some s \<Rightarrow> sk_count s + 1 | None \<Rightarrow> 1)"
    by (auto simp: s1_def kept_def split: option.splits if_splits)
  have emitted: "sk_emitted s1 \<longleftrightarrow> failure_threshold cfg < sk_count s1" 
  proof (cases kept)
    case (Some s)
    with old [OF Some] show ?thesis by (auto simp: s1_def counting_def)
  qed (use t2 in \<open>simp add: s1_def\<close>)
  have s': "sk_key s' = key" "sk_count s' = sk_count s1" "candidate s' = candidate s1"
    using ann s1(1) by (auto simp: announce_def candidate_emitted split: if_splits)
  have said: "said = (if sk_count s' < failure_threshold cfg then []
         else [candidate s' (if sk_count s' = failure_threshold cfg then SignalActive
                            else SignalCooledDown) eid v])"
  proof -
    have "said = snd (announce (failure_threshold cfg) i s1)" using ann by simp
    also have "\<dots> = (if sk_count s1 < failure_threshold cfg then []
         else [candidate s1 (if sk_count s1 = failure_threshold cfg then SignalActive
                            else SignalCooledDown) eid v])"
      using emitted by (simp add: announce_def i)
    finally show ?thesis unfolding s'(2,3) .
  qed
  have count: "sk_count s' = (case dget (en_failure g) tid of
         Some s0 \<Rightarrow> if sk_key s0 = key \<and> \<not> target_changed (sk_identity s0) (sk_epoch s0) e
           then sk_count s0 + 1 else 1
       | None \<Rightarrow> 1)"
    unfolding s'(2) s1(2) kept_def live_failure_def i streak_moved_def by (auto split: option.split)
  have "dget (en_failure g') tid = Some s'" "cs = (others @ finished) @ said"
    using out fs by simp_all
  with s'(1) count said show ?thesis by blast
qed

text \<open>A successful outcome ends the streak: nothing remains of it, and if it had been announced
  in this turn and connection the last candidate says it is resolved.\<close>

theorem failure_streak_resolves:
  assumes reach: "engine_reach cfg g" and id: "ev_identity e = Some identity" "ri_thread identity = Some tid"
    and eid: "ev_id e = Some eid" and fresh: "eid \<notin> seen_of g tid"
    and kind: "ev_kind e \<in> signal_outcome_kinds" and key: "equivalence e \<noteq> None"
    and fine: "outcome_failure (ev_payload e) = Some False"
    and run: "update cfg g e v st = (g', Inr cs)"
  shows "dget (en_failure g') tid = None
    \<and> (\<forall>s. dget (en_failure g) tid = Some s \<and> failure_threshold cfg \<le> sk_count s
         \<and> \<not> target_changed (sk_identity s) (sk_epoch s) e
       \<longrightarrow> cs \<noteq> [] \<and> last cs = candidate s SignalResolved eid v)"
proof -
  define i where "i = occasion_of e identity tid eid v st"
  have i: "in_thread i = tid" "in_event i = e" "in_id i = eid" "in_version i = v"
    by (simp_all add: i_def occasion_of_def)
  let ?g = "g\<lparr>en_seen := dset tid (insert eid (seen_of g tid)) (en_seen g)\<rparr>"
  have fr: "update_fresh cfg i ?g = (g', Inr cs)"
    using run update_runs(1) [OF id eid fresh] by (simp add: i_def)
  have "ev_kind (in_event i) \<notin> terminal_kinds" using kind by (simp add: i outcome_not_terminal)
  from failure_last [OF fr this] obtain g1 others where g1: "dget (en_failure g1) tid = live_failure g i"
    and out: "g' = fst (failure_streak cfg i g1)" "cs = others @ snd (failure_streak cfg i g1)"
    unfolding i live_failure_seen by blast
  have fs: "failure_streak cfg i g1 = drop_failure SignalResolved i g1"
    using kind key fine by (auto simp: failure_streak_def Let_def i)
  have "sk_emitted s" if "dget (en_failure g) tid = Some s" "failure_threshold cfg \<le> sk_count s" for s
    using that table_get [OF engine_inv_tables(1) [OF engine_reach_inv [OF reach]], of tid s]
    by (simp add: counting_def)
  then have "dget (en_failure g) tid = Some s \<and> failure_threshold cfg \<le> sk_count s
         \<and> \<not> target_changed (sk_identity s) (sk_epoch s) e
       \<Longrightarrow> cs \<noteq> [] \<and> last cs = candidate s SignalResolved eid v" for s
    using out(2) fs g1 by (simp add: drop_failure_def finish_def live_failure_def i streak_moved_def)
  moreover have "dget (en_failure g') tid = None"
    using out(1) fs by (simp add: drop_failure_def i split: option.split)
  ultimately show ?thesis by blast
qed

section \<open>The only way update raises\<close>

lemma number_raises: "number v = Inl err \<Longrightarrow> err = OverflowError \<and> (\<exists>n. v = PInt n)"
  by (auto simp: number_def float_of_int_def split: pyval.splits float64.splits)

lemma number_counts: "number v = Inr (Some d) \<Longrightarrow> (\<exists>n. v = PInt n) \<or> (\<exists>x. v = PFloat x)"
  by (cases v) (auto simp: number_def)

lemma duration_budget_raises:
  assumes "duration_budget cfg i g = (g', Inl err)"
  shows "ev_kind (in_event i) \<in> signal_outcome_kinds
    \<and> err \<in> {OverflowError, ValueError ''cannot convert float NaN to integer''}
    \<and> ((\<exists>n. get (ev_payload (in_event i)) ''durationMs'' = PInt n)
       \<or> (\<exists>x. get (ev_payload (in_event i)) ''durationMs'' = PFloat x))"
proof -
  let ?v = "get (ev_payload (in_event i)) ''durationMs''"
  let ?errs = "{OverflowError, ValueError ''cannot convert float NaN to integer''}"
  have conv: "int_of_float x = Inl err \<Longrightarrow> err \<in> ?errs" "round_of_float x = Inl err \<Longrightarrow> err \<in> ?errs" for x
    by (auto simp: int_of_float_def round_of_float_def split: float64.splits)
  have kind: "ev_kind (in_event i) \<in> signal_outcome_kinds"
    using assms by (auto simp: duration_budget_def Let_def split: if_splits)
  show ?thesis
  proof (cases "duration_ms ?v")
    case (Inl err')
    then have "number ?v = Inl err'" by (cases "number ?v") (auto simp: duration_ms_def)
    moreover have "err' = err" using assms Inl by (auto simp: duration_budget_def Let_def split: if_splits)
    ultimately show ?thesis using kind number_raises by blast
  next
    case (Inr m)
    show ?thesis
    proof (cases m)
      case None
      with assms Inr show ?thesis by (auto simp: duration_budget_def Let_def split: if_splits)
    next
      case (Some d)
      with Inr have "number ?v = Inr (Some d)"
        by (auto simp: duration_ms_def split: option.splits if_splits)
      note val = number_counts [OF this]
      have pct: "duration_percent d r = Inl err' \<Longrightarrow> err' \<in> {OverflowError, ValueError ''cannot convert float NaN to integer''}"
        for r err' unfolding duration_percent_def
        by (cases "int_of_float (fl_div (fl_mul d (Fin 100)) r)")
          (auto simp: int_of_float_def split: float64.splits)
      have ano: "duration_anomaly i key rs pc n r g0 = (g1, Inl err') \<Longrightarrow>
          err' \<in> {OverflowError, ValueError ''cannot convert float NaN to integer''}"
        for key rs pc n r g0 g1 err' unfolding duration_anomaly_def Let_def
        by (cases "round_of_float r") (auto simp: round_of_float_def split: float64.splits prod.splits)
      have "(\<exists>r. duration_percent d r = Inl err)
          \<or> (\<exists>key rs pc n r g0 g1. duration_anomaly i key rs pc n r g0 = (g1, Inl err))"
        using assms Inr Some
        by (cases "equivalence (in_event i)")
          (auto simp: duration_budget_def Let_def split: if_splits sum.splits)
      with pct ano have "err \<in> ?errs" by blast
      with kind val show ?thesis by blast
    qed
  qed
qed

text \<open>\<open>update\<close> never raises except for the duration of an outcome event: when it does, the
  payload carries a number as \<open>durationMs\<close>, and the error is an overflow or a NaN of the
  conversions between numbers.\<close>

theorem update_raises_only_on_durations:
  assumes "update cfg g e v st = (g', Inl err)"
  shows "ev_kind e \<in> signal_outcome_kinds
    \<and> err \<in> {OverflowError, ValueError ''cannot convert float NaN to integer''}
    \<and> ((\<exists>n. get (ev_payload e) ''durationMs'' = PInt n) \<or> (\<exists>x. get (ev_payload e) ''durationMs'' = PFloat x))"
  using assms
proof (cases rule: update_cases)
  case (ran identity tid eid)
  let ?i = "occasion_of e identity tid eid v st"
  from ran(5) obtain g2 g3 where "duration_budget cfg ?i g2 = (g3, Inl err)"
    by (auto simp: update_fresh_def split: prod.splits if_splits sum.splits)
  from duration_budget_raises [OF this] show ?thesis by (simp add: occasion_of_def)
qed simp

lemma round_half_even_ge: "of_int c \<le> y \<Longrightarrow> c \<le> round_half_even y"
  by (auto simp: round_half_even_def Let_def le_floor_iff intro: add_increasing2)

lemma bitlen_lower: "0 < n \<Longrightarrow> 2 ^ nat (bitlen n - 1) \<le> n"
  using bitlen_bounds [of n] by (simp add: nat_diff_distrib)

lemma float_of_int_overflow:
  assumes "2 ^ 1024 \<le> n"
  shows "float_of_int n = Inl OverflowError"
proof -
  define m where "m = nat (bitlen n - 1)"
  have pos: "0 < n" using assms by (smt (verit) zero_less_power)
  have low: "2 ^ m \<le> n" using bitlen_lower [OF pos] by (simp add: m_def)
  have "n < 2 ^ nat (bitlen n)" using bitlen_bounds [OF pos] by simp
  with assms have "(2::int) ^ 1024 < 2 ^ nat (bitlen n)" by linarith
  then have "1024 < nat (bitlen n)" by (rule power_less_imp_less_exp [rotated]) simp
  moreover have "bitlen 1 = (1::int)" by (simp add: bitlen_def floorlog_def)
  ultimately have m: "1024 \<le> m" "bitlen n - bitlen 1 = int m" by (simp_all add: m_def)
  have le: "(2::rat) powi int m \<le> of_int n"
    using low by (simp add: power_int_def)
  have lg: "flog2 \<bar>of_int n :: rat\<bar> = int m"
    using le pos m(2) by (simp add: flog2_def Let_def quotient_of_int)
  define k where "k = int m - 52"
  have k: "max (int m - 52) (- 1074) = k" "0 \<le> k" using m(1) by (simp_all add: k_def)
  have "(2::rat) powi (52 + k) = 2 powi 52 * 2 powi k" by (rule power_int_add) simp
  moreover have "52 + k = int m" by (simp add: k_def)
  moreover have "(2::rat) powi 52 = of_int (2 ^ 52)" by simp
  ultimately have split: "of_int (2 ^ 52) * (2::rat) powi k = 2 powi int m" by simp
  with le have "of_int (2 ^ 52) * (2::rat) powi k \<le> of_int n" by (simp only:)
  then have "of_int (2 ^ 52) \<le> (of_int n :: rat) / 2 powi k"
    by (simp add: pos_le_divide_eq)
  then have "2 ^ 52 \<le> round_half_even ((of_int n :: rat) / 2 powi k)" by (rule round_half_even_ge)
  then have "(of_int (2 ^ 52) :: rat) \<le> of_int (round_half_even (of_int n / 2 powi k))"
    by (simp only: of_int_le_iff)
  then have "of_int (2 ^ 52) * (2::rat) powi k \<le> of_int (round_half_even (of_int n / 2 powi k)) * 2 powi k"
    by (rule mult_right_mono) simp
  then have "(2::rat) powi int m \<le> of_int (round_half_even (of_int n / 2 powi k)) * 2 powi k"
    unfolding split .
  moreover have "(2::rat) ^ 1024 \<le> 2 powi int m" 
    unfolding power_int_of_nat by (rule power_increasing [OF m(1)]) simp
  ultimately have "(2::rat) ^ 1024 \<le> of_int (round_half_even (of_int n / 2 powi k)) * 2 powi k" by linarith
  then show ?thesis
    using pos lg k(1) by (simp add: float_of_int_def fl_round_def Let_def)
qed

lemma huge_duration: "2 ^ 1024 \<le> n \<Longrightarrow> duration_ms (PInt n) = Inl OverflowError"
  by (simp add: duration_ms_def number_def float_of_int_overflow del: power_numeral)

text \<open>The guard on finite durations does not cover integers: an outcome of an identified turn
  that reports an integer duration of \<open>2^1024\<close> or more makes \<open>update\<close> raise \<open>OverflowError\<close>, on any engine
  that has not seen the event.\<close>

theorem huge_duration_raises:
  assumes id: "ev_identity e = Some identity" "ri_thread identity = Some tid" "ri_turn identity \<noteq> None"
    and eid: "ev_id e = Some eid" and fresh: "eid \<notin> seen_of g tid"
    and kind: "ev_kind e \<in> signal_outcome_kinds"
    and dur: "get (ev_payload e) ''durationMs'' = PInt n" and huge: "2 ^ 1024 \<le> n"
  shows "snd (update cfg g e v st) = Inl OverflowError"
proof -
  let ?i = "occasion_of e identity tid eid v st"
  let ?g = "g\<lparr>en_seen := dset tid (insert eid (seen_of g tid)) (en_seen g)\<rparr>"
  have i: "in_event ?i = e" "in_identity ?i = identity" by (simp_all add: occasion_of_def)
  have raises: "duration_budget cfg ?i g2 = (g2, Inl OverflowError)" for g2
    by (simp add: duration_budget_def Let_def i kind id(3) dur huge_duration [OF huge])
  have "ev_kind (in_event ?i) \<notin> terminal_kinds" using kind by (simp add: i outcome_not_terminal)
  then have "snd (update_fresh cfg ?i ?g) = Inl OverflowError"
    by (simp add: update_fresh_def raises split: prod.split)
  then show ?thesis using update_runs(1) [OF id(1,2) eid fresh] by simp
qed

end
