(* ===== verification/Signal_Paths.thy ===== *)
theory Signal_Paths
  imports Signal_Claims
begin

text \<open>
  The two path normalizers of the program (\<open>_validation_scopes\<close> in \<open>thread_state.py\<close> and
  \<open>_normalized_paths\<close> in \<open>signals.py\<close>) agree, and what they let through is a safe relative
  path; \<open>hydrate\<close> hands back exactly candidates whose publication the log does not record.
\<close>

section \<open>Segments\<close>

abbreviation is_slash :: "char \<Rightarrow> bool" where
  "is_slash c \<equiv> c = CHR ''/''"

lemma split_on_snoc: "split_on sep (b @ [sep]) = split_on sep b @ [[]]"
proof (induction b)
  case (Cons c b)
  obtain w ws where "split_on sep b = w # ws"
    by (metis list.exhaust split_on_not_Nil)
  with Cons show ?case by auto
qed simp

lemma split_on_replicate: "split_on sep (b @ replicate n sep) = split_on sep b @ replicate n []"
proof (induction n arbitrary: b)
  case (Suc n)
  have "split_on sep (b @ replicate (Suc n) sep) = split_on sep (b @ [sep]) @ replicate n []"
    using Suc [of "b @ [sep]"] by simp
  then show ?case by (simp add: split_on_snoc)
qed simp

lemma rstrip_decompose: "\<exists>n. s = rstrip_when (\<lambda>c. c = x) s @ replicate n x"
proof -
  have "rev s = takeWhile (\<lambda>c. c = x) (rev s) @ dropWhile (\<lambda>c. c = x) (rev s)" by simp
  moreover have "takeWhile (\<lambda>c. c = x) (rev s) = replicate (length (takeWhile (\<lambda>c. c = x) (rev s))) x"
    by (rule replicate_eqI) (auto dest: set_takeWhileD)
  ultimately have "s = rev (dropWhile (\<lambda>c. c = x) (rev s)) @ replicate (length (takeWhile (\<lambda>c. c = x) (rev s))) x"
    by (metis rev_append rev_rev_ident rev_replicate)
  then show ?thesis unfolding rstrip_when_def by blast
qed

lemma split_on_prefix: "split_on sep (p @ sep # s) = split_on sep p @ split_on sep s"
proof (induction p)
  case (Cons c p)
  obtain w ws where "split_on sep p = w # ws"
    by (metis list.exhaust split_on_not_Nil)
  with Cons show ?case by auto
qed simp

lemma contains_char: "contains sub s \<Longrightarrow> c \<in> set sub \<Longrightarrow> c \<in> set s"
proof (induction s)
  case (Cons a s)
  have "set sub \<subseteq> set (a # s)" if "startswith (a # s) sub"
    using that by (metis set_take_subset startswith_def)
  with Cons show ?case by auto
qed simp

text \<open>A path that survives: relative, made of path characters, no parent segment, no slash at the
  end.\<close>

definition safe_path :: "string \<Rightarrow> bool" where
  "safe_path p \<longleftrightarrow> p \<noteq> [] \<and> list_all path_char p \<and> hd p \<noteq> CHR ''/'' \<and> last p \<noteq> CHR ''/''
     \<and> ''..'' \<notin> set (split_on (CHR ''/'') p)"

lemma path_char_simps [simp]:
  "path_char (CHR ''/'')" "path_char (CHR ''.'')" "\<not> path_char (CHR ''~'')" "\<not> path_char (CHR '':'')"
  by (simp_all add: path_char_def is_alnum_def is_digit_def code_def)

lemma unsafe_path_iff:
  "unsafe_path s \<longleftrightarrow> s = [] \<or> hd s = CHR ''/'' \<or> \<not> list_all path_char s
     \<or> ''..'' \<in> set (split_on (CHR ''/'') s)"
proof -
  have start: "startswith s [c] \<longleftrightarrow> s \<noteq> [] \<and> hd s = c" for c
    by (cases s) (simp_all add: startswith_def)
  have up: "''..'' \<in> set (split_on (CHR ''/'') s)" if "startswith s ''../''"
  proof -
    from that obtain t where "s = ''..'' @ CHR ''/'' # t" by (auto simp: startswith_iff)
    then show ?thesis using split_on_prefix [of "CHR ''/''" "''..''" t] by simp
  qed
  have tilde: "\<not> list_all path_char s" if "s \<noteq> []" "hd s = CHR ''~''"
    using that by (cases s) auto
  have url: "\<not> list_all path_char s" if "contains ''://'' s"
    using contains_char [OF that, of "CHR '':''"]
    by (auto simp: list_all_iff intro!: bexI [of _ "CHR '':''"])
  show ?thesis
    using start [of "CHR ''/''"] start [of "CHR ''~''"] up tilde url
    unfolding unsafe_path_def path_chars_fullmatch_def by blast
qed

lemma normalized_path_iff:
  "normalized_path v = (let w = rstrip_when is_slash (removeprefix (strip v) ''./'')
     in if unsafe_path w then None else Some w)"
proof -
  define p where "p = removeprefix (strip v) ''./''"
  define w where "w = rstrip_when is_slash p"
  obtain n where n: "p = w @ replicate n (CHR ''/'')"
    using rstrip_decompose [of p "CHR ''/''"] by (auto simp: w_def)
  have direct: "(p = [] \<or> startswith p ''/'' \<or> startswith p ''~'' \<or> startswith p ''../''
     \<or> contains ''://'' p \<or> \<not> path_chars_fullmatch p \<or> ''..'' \<in> set (split_on (CHR ''/'') p))
     \<longleftrightarrow> unsafe_path p"
    unfolding unsafe_path_def by blast
  have slashes: "list_all path_char (replicate n (CHR ''/''))" by (simp add: list_all_iff)
  have same: "unsafe_path p \<longleftrightarrow> unsafe_path w"
  proof (cases "w = []")
    case True
    then show ?thesis unfolding unsafe_path_iff using n by (cases n) simp_all
  next
    case False
    then show ?thesis
      unfolding unsafe_path_iff using n slashes by (auto simp: split_on_replicate)
  qed
  have "w \<noteq> []" if "\<not> unsafe_path w" using that by (auto simp: unsafe_path_iff)
  then show ?thesis
    unfolding normalized_path_def Let_def p_def [symmetric] w_def [symmetric] direct same by simp
qed

lemma normalized_path_safe: "normalized_path v = Some p \<Longrightarrow> safe_path p"
proof -
  assume np: "normalized_path v = Some p"
  define w where "w = rstrip_when is_slash (removeprefix (strip v) ''./'')"
  from np have p: "p = w" "\<not> unsafe_path w"
    unfolding normalized_path_iff Let_def w_def by (simp_all split: if_splits)
  then have "last p \<noteq> CHR ''/''"
    using rstrip_when_last [of is_slash "removeprefix (strip v) ''./''"]
    by (simp add: w_def unsafe_path_iff)
  with p show "safe_path p" by (simp add: safe_path_def unsafe_path_iff)
qed

lemma map_filter_partial: "List.map_filter (\<lambda>x. if P (f x) then None else Some (f x)) xs
    = filter (\<lambda>y. \<not> P y) (map f xs)"
  by (induction xs) (simp_all add: List.map_filter_simps)

text \<open>The thread state and the signal engine read the paths a passing test validated in the
  same way, although each has its own normalizer: the two agree on every payload, and every
  path they accept is relative, made of path characters, and has no parent segment.\<close>

theorem path_normalizers_agree:
  "validation_scopes p = normalized_paths (get p ''validated_paths'')
   \<and> list_all safe_path (normalized_paths v)"
proof -
  have np: "List.map_filter normalized_path xs = filter (\<lambda>s. \<not> unsafe_path s)
      (map (\<lambda>s. rstrip_when is_slash (removeprefix (strip s) ''./'')) xs)" for xs
  proof -
    have "normalized_path = (\<lambda>s. let w = rstrip_when is_slash (removeprefix (strip s) ''./'')
        in if unsafe_path w then None else Some w)"
      by (intro ext) (rule normalized_path_iff)
    then show ?thesis unfolding map_filter_partial [symmetric] by (simp add: Let_def)
  qed
  have "validation_scopes p = normalized_paths (get p ''validated_paths'')"
    by (simp add: validation_scopes_def normalized_paths_def np validation_scope_limit_def
        scope_limit_def split: pyval.split)
  moreover have "list_all safe_path (normalized_paths v)"
    by (auto simp: normalized_paths_def list_all_iff List.map_filter_def
        intro: normalized_path_safe split: pyval.split)
  ultimately show ?thesis by blast
qed

lemma within_agree: "safe_path scope \<Longrightarrow> within_expected path scope = within_scope path scope"
proof -
  assume "safe_path scope"
  then have "scope \<noteq> []" "last scope \<noteq> CHR ''/''" by (simp_all add: safe_path_def)
  then have "rstrip_when is_slash scope = scope"
    by (cases scope rule: rev_cases) (simp_all add: rstrip_when_def)
  then show "within_expected path scope = within_scope path scope"
    by (simp add: within_expected_def within_scope_def)
qed

section \<open>Hydration\<close>

definition recorded :: "trace_event \<Rightarrow> string \<Rightarrow> bool" where
  "recorded e k \<longleftrightarrow> ev_kind e \<in> {''signal_candidate'', ''signal_candidate_suppressed''}
     \<and> event_thread e \<noteq> None \<and> ev_id e = Some k"

definition pending_ok :: "signal_config \<Rightarrow> trace_event list \<Rightarrow> pending \<Rightarrow> bool" where
  "pending_ok cfg past pending \<longleftrightarrow> dict_ok pending \<and> (\<forall>k c e. dget pending k = Some (c, e) \<longrightarrow>
     k = signal_event_id c \<and> (\<exists>v. about_event e v c)
     \<and> (\<exists>xs ys. past = xs @ e # ys \<and> (\<forall>y \<in> set ys. \<not> recorded y k)))"

lemma pending_later:
  assumes "pending_ok cfg past pending"
    and "\<And>k. dget pending' k \<noteq> None \<Longrightarrow> dget pending' k = dget pending k \<and> \<not> recorded e k"
    and "dict_ok pending'"
  shows "pending_ok cfg (past @ [e]) pending'"
  unfolding pending_ok_def
proof (intro conjI allI impI assms(3))
  fix k c x assume k: "dget pending' k = Some (c, x)"
  then have old: "dget pending k = Some (c, x)" "\<not> recorded e k" using assms(2) [of k] by auto
  with assms(1) obtain xs ys v where *: "k = signal_event_id c" "about_event x v c"
    "past = xs @ x # ys" "\<forall>y \<in> set ys. \<not> recorded y k"
    unfolding pending_ok_def by blast
  then show "k = signal_event_id c" "\<exists>v. about_event x v c" by blast+
  show "\<exists>xs ys. past @ [e] = xs @ x # ys \<and> (\<forall>y \<in> set ys. \<not> recorded y k)"
    using * old(2) by (intro exI [of _ xs] exI [of _ "ys @ [e]"]) auto
qed

lemma pending_added:
  assumes "pending_ok cfg (past @ [e]) pending" and "list_all (about_event e v) cs"
  shows "pending_ok cfg (past @ [e]) (foldl (add_pending e) pending cs)"
  using assms
proof (induction cs arbitrary: pending)
  case (Cons c cs)
  have "pending_ok cfg (past @ [e]) (add_pending e pending c)"
    unfolding pending_ok_def
  proof (intro conjI allI impI)
    show "dict_ok (add_pending e pending c)" using Cons.prems(1) by (simp add: pending_ok_def add_pending_def)
    fix k c' x assume k: "dget (add_pending e pending c) k = Some (c', x)"
    show "k = signal_event_id c'" "\<exists>v. about_event x v c'"
      "\<exists>xs ys. past @ [e] = xs @ x # ys \<and> (\<forall>y \<in> set ys. \<not> recorded y k)"
      using k Cons.prems unfolding pending_ok_def add_pending_def
      by (cases "k = signal_event_id c"; force)+
  qed
  with Cons show ?case by simp
qed simp

lemma hydrate_records_pending:
  assumes "hydrate_records cfg states pending g es = (g', Inr out)"
    and "pending_ok cfg past pending" and "engine_inv cfg g"
  shows "pending_ok cfg (past @ es) out \<and> engine_inv cfg g'"
  using assms
proof (induction cfg states pending g es arbitrary: past rule: hydrate_records.induct)
  case (2 cfg states pending g e es)
  show ?case
  proof (cases "event_thread e")
    case None
    have "pending_ok cfg (past @ [e]) pending"
      using "2.prems"(2) None by (intro pending_later) (auto simp: recorded_def pending_ok_def)
    with "2.IH"(1) [OF None, of "past @ [e]"] "2.prems" None show ?thesis by simp
  next
    case (Some tid)
    then have nn: "event_thread e \<noteq> None" by simp
    obtain states' state where ob: "observe states e = (states', Inr state)"
      using "2.prems"(1) Some by (cases "observe states e"; cases "snd (observe states e)") auto
    show ?thesis
    proof (cases "ev_kind e \<in> {''signal_candidate'', ''signal_candidate_suppressed''}")
      case True
      let ?p = "case ev_id e of Some i \<Rightarrow> dpop i pending | None \<Rightarrow> pending"
      have "pending_ok cfg (past @ [e]) ?p"
        using "2.prems"(2)
        by (intro pending_later) (auto simp: recorded_def pending_ok_def split: option.split if_splits)
      with "2.IH"(2) [OF nn ob [symmetric] refl True, of "past @ [e]"] "2.prems" Some ob True
      show ?thesis by (simp add: Let_def split: option.splits)
    next
      case False
      obtain g1 cs where up: "update cfg g e (ts_version state) (Some state) = (g1, Inr cs)"
        and rest: "hydrate_records cfg states' (foldl (add_pending e) pending cs) g1 es = (g', Inr out)"
        using "2.prems"(1) Some ob False
        by (cases "update cfg g e (ts_version state) (Some state)";
            cases "snd (update cfg g e (ts_version state) (Some state))") auto
      have "pending_ok cfg (past @ [e]) pending"
        using "2.prems"(2) False by (intro pending_later) (auto simp: recorded_def pending_ok_def)
      then have "pending_ok cfg (past @ [e]) (foldl (add_pending e) pending cs)"
        using pending_added update_effect(2) [OF "2.prems"(3) up] by simp
      from "2.IH"(3) [OF nn ob [symmetric] refl False up [symmetric] refl rest this
        update_effect(1) [OF "2.prems"(3) up]]
      show ?thesis by simp
    qed
  qed
qed simp

text \<open>After an interrupted append, hydration hands back for publication only candidates of
  logged events whose derived signal event the rest of the log does not hold: each comes
  with the event that caused it, and no later record of that thread's log publishes it.\<close>

theorem hydrate_returns_unpublished:
  assumes "config_ok cfg" and "hydrate_engine cfg records = (g, Inr missing)" and "(c, e) \<in> set missing"
  shows "\<exists>before after v. map sr_event records = before @ e # after
    \<and> about_event e v c
    \<and> (\<forall>y \<in> set after. \<not> recorded y (signal_event_id c))"
proof -
  from assms(2) obtain out where run: "hydrate_records cfg empty_store [] empty_engine (map sr_event records) = (g, Inr out)"
    and missing: "missing = dvalues out"
    by (auto simp: hydrate_engine_def split: prod.splits)
  have "pending_ok cfg [] []" by (simp add: pending_ok_def)
  from hydrate_records_pending [OF run this engine_inv_empty [OF assms(1)]]
  have ok: "pending_ok cfg (map sr_event records) out" by simp
  then have "dict_ok out" by (simp add: pending_ok_def)
  with assms(3) missing obtain k where "dget out k = Some (c, e)" by (auto simp: in_dvalues)
  with ok show ?thesis unfolding pending_ok_def by blast
qed

end
