(* ===== verification/Signal_Samples.thy ===== *)
theory Signal_Samples
  imports Signal_Paths
begin

text \<open>
  A concrete run of the signal engine, and the witnesses of its properties: two failing
  commands on one resource announce a failure streak, a success resolves it, the end of the
  turn forgets it.
\<close>

definition command_event :: "int \<Rightarrow> string \<Rightarrow> trace_event" where
  "command_event exit_code i = sample_event ''command_result''
     [(''exitCode'', PInt exit_code), (''resource'', PStr ''r'')] i"

definition sample_occasion :: "trace_event \<Rightarrow> string \<Rightarrow> nat \<Rightarrow> thread_state option \<Rightarrow> occasion" where
  "sample_occasion e i v st = occasion_of e (sample_identity ''t'') (ThreadId ''t'') i v st"

definition first_failure :: streak where
  "first_failure = open_streak (sample_occasion (command_event 1 ''e1'') ''e1'' 1 None) FailureStreak
     ''consecutive_failures'' ''command:resource:r'' 1 [''resource:r'']"

definition second_failure :: streak where
  "second_failure = extend_streak (sample_occasion (command_event 1 ''e2'') ''e2'' 1 None) 2 first_failure"

definition engine_one :: engine where
  "engine_one = empty_engine\<lparr>en_failure := [(ThreadId ''t'', first_failure)],
     en_seen := [(ThreadId ''t'', {''e1''})]\<rparr>"

definition engine_two :: engine where
  "engine_two = empty_engine\<lparr>en_failure := [(ThreadId ''t'', second_failure\<lparr>sk_emitted := True\<rparr>)],
     en_seen := [(ThreadId ''t'', {''e2'', ''e1''})]\<rparr>"

lemma command_facts:
  "equivalence (command_event n i) = Some (''command:resource:r'', [''resource:r''])"
  "outcome_failure (ev_payload (command_event n i)) = Some (n \<noteq> 0)"
  "get (ev_payload (command_event n i)) ''durationMs'' = PNone"
  "ev_kind (command_event n i) = ''command_result''" "ev_id (command_event n i) = Some i"
  "ev_identity (command_event n i) = Some (sample_identity ''t'')"
  "read_observation (command_event n i) = None" "ev_epoch (command_event n i) = None"
  by (simp_all add: command_event_def sample_event_def plain_event_def equivalence_def
      resources_of_def outcome_families_def get_def dict_eval py_or_def truthy_def sorted_set_def
      outcome_failure_def response_signals_def append_exit_code_def append_success_def
      append_status_def read_observation_def Let_def)

lemma sample_identity_facts [simp]:
  "ri_thread (sample_identity t) = Some (ThreadId t)" "ri_turn (sample_identity t) = Some (TurnId ''u'')"
  by (simp_all add: sample_identity_def)

lemma sample_update_first:
  "update default_signal_config empty_engine (command_event 1 ''e1'') v st = (engine_one, Inr [])"
proof -
  let ?i = "sample_occasion (command_event 1 ''e1'') ''e1'' v st"
  have first: "open_streak ?i FailureStreak ''consecutive_failures'' ''command:resource:r'' 1
      [''resource:r''] = first_failure"
    by (simp add: first_failure_def open_streak_def signal_id_def sample_occasion_def occasion_of_def)
  have i: "in_event ?i = command_event 1 ''e1''" "in_thread ?i = ThreadId ''t''" "in_id ?i = ''e1''"
    "in_identity ?i = sample_identity ''t''" "sk_count first_failure = 1"
    by (simp_all add: sample_occasion_def occasion_of_def first_failure_def)
  have "update_fresh default_signal_config ?i
      (empty_engine\<lparr>en_seen := [(ThreadId ''t'', {''e1''})]\<rparr>) = (engine_one, Inr [])"
    by (simp add: update_fresh_def sweep_changed_def drop_streak_def drop_streaks_def terminal_kinds_def
        then_rule_def later_rules_def context_budget_def duration_budget_def duration_ms_def number_def
        scope_growth_def unvalidated_edits_def stale_hypothesis_reuse_def block_recurrence_def
        repeated_tool_def drop_repeated_def no_frontier_reads_def drop_reading_def frontier_reset_kinds_def
        failure_streak_def signal_outcome_kinds_def i command_facts causal_action_kinds_def
        announce_def default_signal_config_def empty_engine_def engine_one_def first
        dict_eval Let_def split: option.split)
  then show ?thesis
    using update_runs(1) [of "command_event 1 ''e1''" "sample_identity ''t''" "ThreadId ''t''" "''e1''" empty_engine]
    by (simp add: command_facts sample_occasion_def seen_of_def empty_engine_def dict_eval)
qed

lemma sample_update_second:
  "update default_signal_config engine_one (command_event 1 ''e2'') v st =
     (engine_two, Inr [candidate second_failure SignalActive ''e2'' v])"
proof -
  let ?i = "sample_occasion (command_event 1 ''e2'') ''e2'' v st"
  have stay: "\<not> streak_moved ?i first_failure"
    by (simp add: streak_moved_def target_changed_def sample_occasion_def occasion_of_def
        first_failure_def open_streak_def command_facts)
  have key: "sk_key first_failure = ''command:resource:r''" "sk_count first_failure = 1"
    "sk_emitted first_failure = False" by (simp_all add: first_failure_def)
  have second: "sk_count second_failure = 2" "sk_emitted second_failure = False"
    "extend_streak ?i 2 first_failure = second_failure"
    by (simp_all add: second_failure_def key extend_streak_def sample_occasion_def occasion_of_def)
  have i: "in_event ?i = command_event 1 ''e2''" "in_thread ?i = ThreadId ''t''" "in_id ?i = ''e2''"
    "in_version ?i = v" "in_identity ?i = sample_identity ''t''"
    by (simp_all add: sample_occasion_def occasion_of_def)
  have "update_fresh default_signal_config ?i
      (engine_one\<lparr>en_seen := [(ThreadId ''t'', {''e2'', ''e1''})]\<rparr>)
      = (engine_two, Inr [candidate second_failure SignalActive ''e2'' v])"
    by (simp add: update_fresh_def sweep_changed_def drop_streak_def drop_streaks_def terminal_kinds_def
        then_rule_def later_rules_def context_budget_def duration_budget_def duration_ms_def number_def
        scope_growth_def unvalidated_edits_def stale_hypothesis_reuse_def block_recurrence_def
        repeated_tool_def drop_repeated_def no_frontier_reads_def drop_reading_def frontier_reset_kinds_def
        failure_streak_def signal_outcome_kinds_def i command_facts stay key second causal_action_kinds_def
        announce_def default_signal_config_def empty_engine_def engine_one_def engine_two_def
        dict_eval Let_def split: option.split)
  then show ?thesis
    using update_runs(1) [of "command_event 1 ''e2''" "sample_identity ''t''" "ThreadId ''t''" "''e2''" engine_one]
    by (simp add: command_facts sample_occasion_def seen_of_def engine_one_def dict_eval)
qed

lemma sample_config: "new_engine default_signal_config = Inr empty_engine"
  by (simp add: new_engine_def default_signal_config_def)

lemma sample_reached: "engine_reach default_signal_config empty_engine"
  "engine_reach default_signal_config engine_one" "engine_reach default_signal_config engine_two"
proof -
  show "engine_reach default_signal_config empty_engine"
    by (rule engine_reach.created [OF sample_config])
  then show "engine_reach default_signal_config engine_one"
    by (rule engine_reach.updated [OF _ sample_update_first [of 1 None]])
  then show "engine_reach default_signal_config engine_two"
    by (rule engine_reach.updated [OF _ sample_update_second [of 1 None]])
qed

section \<open>Witnesses\<close>

lemma engine_two_failure:
  "dget (en_failure engine_two) (ThreadId ''t'') = Some (second_failure\<lparr>sk_emitted := True\<rparr>)"
  by (simp add: engine_two_def dict_eval)

lemma second_failure_count: "sk_count second_failure = 2"
  by (simp add: second_failure_def)

lemma stays_put: "\<not> target_changed (sk_identity second_failure) (sk_epoch second_failure) (command_event n i)"
  by (simp add: target_changed_def second_failure_def extend_streak_def first_failure_def open_streak_def
      sample_occasion_def occasion_of_def command_facts)


theorem candidates_about_event_witness:
  "event_thread (command_event 1 ''e2'') = Some (sc_thread (candidate second_failure SignalActive ''e2'' 1))"
  using candidates_about_event [OF sample_reached(2) sample_update_second [of 1 None], of "candidate second_failure SignalActive ''e2'' 1"]
  by simp

lemma command_thread: "event_thread (command_event n i) = Some (ThreadId ''t'')"
  by (simp add: event_thread_def command_facts)

theorem update_isolates_threads_witness:
  "thread_view engine_two (ThreadId ''other'') = thread_view engine_one (ThreadId ''other'')"
proof -
  have "event_thread (command_event 1 ''e2'') \<noteq> Some (ThreadId ''other'')" by (simp add: command_thread)
  from update_isolates_threads [OF sample_reached(2) this, of 1 None] sample_update_second
  show ?thesis by simp
qed

theorem update_once_witness:
  "update default_signal_config engine_two (command_event 1 ''e1'') 7 None = (engine_two, Inr [])"
proof -
  have "updates default_signal_config engine_one engine_two"
    by (rule updates.one [OF updates.none sample_update_second [of 1 None]])
  from update_once [OF sample_reached(1) command_thread command_facts(5) sample_update_first [of 1 None] this]
  show ?thesis .
qed

definition turn_end :: trace_event where
  "turn_end = sample_event ''turn_completed'' [] ''e9''"

lemma turn_end_facts: "ev_kind turn_end = ''turn_completed''" "ev_id turn_end = Some ''e9''"
  "ev_identity turn_end = Some (sample_identity ''t'')" "event_thread turn_end = Some (ThreadId ''t'')"
  by (simp_all add: turn_end_def sample_event_def plain_event_def event_thread_def)

theorem terminal_event_forgets_witness:
  "\<exists>g' cs. update default_signal_config engine_two turn_end 1 None = (g', Inr cs)
    \<and> thread_view g' (ThreadId ''t'') = thread_view empty_engine (ThreadId ''t'')"
proof -
  have "ev_kind turn_end \<in> terminal_kinds" by (simp add: turn_end_facts terminal_kinds_def)
  moreover have "''e9'' \<notin> seen_of engine_two (ThreadId ''t'')"
    by (simp add: seen_of_def engine_two_def dict_eval)
  ultimately show ?thesis
    using terminal_event_forgets [OF sample_reached(3) _ turn_end_facts(4,2), of 1 None] by blast
qed

theorem failure_streak_counts_witness:
  "\<exists>s others. [candidate second_failure SignalActive ''e2'' 1] = others @ [candidate s SignalActive ''e2'' 1]
     \<and> sk_count s = 2"
proof -
  have fresh: "''e2'' \<notin> seen_of engine_one (ThreadId ''t'')"
    by (simp add: seen_of_def engine_one_def dict_eval)
  have kind: "ev_kind (command_event 1 ''e2'') \<in> signal_outcome_kinds"
    by (simp add: command_facts signal_outcome_kinds_def)
  have failing: "outcome_failure (ev_payload (command_event 1 ''e2'')) = Some True"
    by (simp add: command_facts)
  have old: "dget (en_failure engine_one) (ThreadId ''t'') = Some first_failure"
    by (simp add: engine_one_def dict_eval)
  have first: "sk_key first_failure = ''command:resource:r''" "sk_count first_failure = 1"
    "\<not> target_changed (sk_identity first_failure) (sk_epoch first_failure) (command_event 1 ''e2'')"
    by (simp_all add: target_changed_def first_failure_def open_streak_def sample_occasion_def
        occasion_of_def command_facts)
  from failure_streak_counts [OF sample_reached(2) command_facts(6) sample_identity_facts(1)
      command_facts(5) fresh kind command_facts(1) failing sample_update_second [of 1 None]]
  show ?thesis by (auto simp: old first default_signal_config_def)
qed

lemma sample_no_raise:
  obtains g' cs where "update default_signal_config engine_two (command_event 0 ''e3'') 1 None = (g', Inr cs)"
proof -
  obtain g' r where u: "update default_signal_config engine_two (command_event 0 ''e3'') 1 None = (g', r)"
    by fastforce
  show ?thesis
  proof (cases r)
    case (Inr cs)
    with u that show ?thesis by simp
  next
    case (Inl err)
    let ?i = "sample_occasion (command_event 0 ''e3'') ''e3'' 1 None"
    have fresh: "''e3'' \<notin> seen_of engine_two (ThreadId ''t'')"
      by (simp add: seen_of_def engine_two_def dict_eval)
    have "snd (duration_budget default_signal_config ?i g2) = Inr []" for g2
      by (simp add: duration_budget_def sample_occasion_def occasion_of_def command_facts
          duration_ms_def number_def Let_def)
    then have "duration_budget default_signal_config ?i g2 \<noteq> (g3, Inl err)" for g2 g3
      by (metis snd_conv Inr_not_Inl)
    with u Inl update_runs(1) [OF command_facts(6) sample_identity_facts(1) command_facts(5) fresh, of default_signal_config 0 1 None]
    show ?thesis
      by (auto simp: update_fresh_def sample_occasion_def split: prod.splits if_splits sum.splits)
  qed
qed

theorem failure_streak_resolves_witness:
  "\<exists>g' cs. update default_signal_config engine_two (command_event 0 ''e3'') 1 None = (g', Inr cs)
    \<and> dget (en_failure g') (ThreadId ''t'') = None \<and> cs \<noteq> [] \<and> sc_status (last cs) = SignalResolved"
proof -
  obtain g' cs where u: "update default_signal_config engine_two (command_event 0 ''e3'') 1 None = (g', Inr cs)"
    by (rule sample_no_raise)
  have fresh: "''e3'' \<notin> seen_of engine_two (ThreadId ''t'')"
    by (simp add: seen_of_def engine_two_def dict_eval)
  have kind: "ev_kind (command_event 0 ''e3'') \<in> signal_outcome_kinds"
    by (simp add: command_facts signal_outcome_kinds_def)
  have key: "equivalence (command_event 0 ''e3'') \<noteq> None" by (simp add: command_facts)
  have fine: "outcome_failure (ev_payload (command_event 0 ''e3'')) = Some False"
    by (simp add: command_facts)
  have "failure_threshold default_signal_config \<le> sk_count (second_failure\<lparr>sk_emitted := True\<rparr>)"
    by (simp add: default_signal_config_def second_failure_count)
  with failure_streak_resolves [OF sample_reached(3) command_facts(6) sample_identity_facts(1)
      command_facts(5) fresh kind key fine u] engine_two_failure stays_put [of 0 "''e3''"]
  have "dget (en_failure g') (ThreadId ''t'') = None \<and> cs \<noteq> []
      \<and> last cs = candidate (second_failure\<lparr>sk_emitted := True\<rparr>) SignalResolved ''e3'' 1" by simp
  then show ?thesis using u by (simp add: candidate_def)
qed

definition slow_event :: trace_event where
  "slow_event = sample_event ''command_result''
     [(''resource'', PStr ''r''), (''durationMs'', PInt (2 ^ 1024))] ''e4''"

lemma slow_facts:
  "ev_kind slow_event = ''command_result''" "ev_id slow_event = Some ''e4''"
  "ev_identity slow_event = Some (sample_identity ''t'')"
  "get (ev_payload slow_event) ''durationMs'' = PInt (2 ^ 1024)"
  by (simp_all add: slow_event_def sample_event_def plain_event_def get_def dict_eval del: power_numeral)

lemma slow_fresh: "''e4'' \<notin> seen_of engine_two (ThreadId ''t'')"
  by (simp add: seen_of_def engine_two_def dict_eval)

theorem huge_duration_raises_witness:
  "snd (update default_signal_config engine_two slow_event 1 None) = Inl OverflowError"
proof -
  have kind: "ev_kind slow_event \<in> signal_outcome_kinds"
    by (simp add: slow_facts signal_outcome_kinds_def)
  have turn: "ri_turn (sample_identity ''t'') \<noteq> None" by simp
  show ?thesis
    by (rule huge_duration_raises [OF slow_facts(3) sample_identity_facts(1) turn slow_facts(2)
        slow_fresh kind slow_facts(4) order_refl])
qed

lemma slow_raises:
  "\<exists>g'. update default_signal_config engine_two slow_event v None = (g', Inl OverflowError)"
proof -
  let ?i = "occasion_of slow_event (sample_identity ''t'') (ThreadId ''t'') ''e4'' v None"
  have i: "in_event ?i = slow_event" "in_identity ?i = sample_identity ''t''" by (simp_all add: occasion_of_def)
  have "duration_budget default_signal_config ?i g = (g, Inl OverflowError)" for g
    by (simp add: duration_budget_def Let_def i slow_facts(1,4) signal_outcome_kinds_def huge_duration
        del: power_numeral)
  moreover have "ev_kind (in_event ?i) \<notin> terminal_kinds" by (simp add: i slow_facts(1) terminal_kinds_def)
  ultimately show ?thesis
    using update_runs(1) [OF slow_facts(3) sample_identity_facts(1) slow_facts(2) slow_fresh]
    by (simp add: update_fresh_def split: prod.split)
qed

theorem update_raises_only_on_durations_witness:
  "ev_kind slow_event \<in> signal_outcome_kinds"
proof -
  obtain g' where "update default_signal_config engine_two slow_event 1 None = (g', Inl OverflowError)"
    using slow_raises by blast
  from update_raises_only_on_durations [OF this] show ?thesis by blast
qed

definition failure_records :: "step_record list" where
  "failure_records = map (\<lambda>e. \<lparr>sr_step = 1, sr_event = e, sr_snapshot = None, sr_at = None,
     sr_version = 1\<rparr>) [command_event 1 ''e1'', command_event 1 ''e2'']"

lemma failures_replay:
  "snd (replay_events empty_store [command_event 1 ''e1'', command_event 1 ''e2'']) = Inr ()"
  by code_simp

lemma failures_hydrate:
  "\<exists>v. hydrate_engine default_signal_config failure_records =
     (engine_two, Inr [(candidate second_failure SignalActive ''e2'' v, command_event 1 ''e2'')])"
proof -
  obtain st where "replay_events empty_store [command_event 1 ''e1'', command_event 1 ''e2''] = (st, Inr ())"
    using failures_replay by (metis prod.collapse)
  from replay_Cons_Inr [OF this] obtain st1 s1 where o1: "observe empty_store (command_event 1 ''e1'') = (st1, Inr s1)"
    and "replay_events st1 [command_event 1 ''e2''] = (st, Inr ())" by blast
  from replay_Cons_Inr [OF this(2)] obtain st2 s2 where o2: "observe st1 (command_event 1 ''e2'') = (st2, Inr s2)"
    by blast
  show ?thesis
    by (rule exI [of _ "ts_version s2"])
      (simp add: hydrate_engine_def failure_records_def command_thread o1 o2 command_facts
        sample_update_first sample_update_second add_pending_def dict_eval)
qed

theorem hydrate_returns_unpublished_witness:
  "\<exists>v. about_event (command_event 1 ''e2'') v (candidate second_failure SignalActive ''e2'' v)"
proof -
  obtain v where h: "hydrate_engine default_signal_config failure_records =
     (engine_two, Inr [(candidate second_failure SignalActive ''e2'' v, command_event 1 ''e2'')])"
    using failures_hydrate by blast
  have "config_ok default_signal_config" using sample_config by (simp add: new_engine_iff)
  from hydrate_returns_unpublished [OF this h, of "candidate second_failure SignalActive ''e2'' v" "command_event 1 ''e2''"]
  obtain w where w: "about_event (command_event 1 ''e2'') w (candidate second_failure SignalActive ''e2'' v)"
    by auto
  then have "w = v" by (simp add: about_event_def candidate_def)
  with w show ?thesis by blast
qed

end
