(* ===== verification/Reviewer_Input.thy ===== *)
theory Reviewer_Input
  imports Thread_Store
begin

text \<open>
  Model of \<open>src/spotter/reviewer_input.py\<close>: the bounded slice of a thread state a reviewer
  sees for one candidate. The set of truncated fields the code mutates is threaded through
  the helpers and returned beside their result.
\<close>

section \<open>Limits and the record\<close>

definition goal_chars :: nat where "goal_chars = 600"
definition text_chars :: nat where "text_chars = 300"
definition max_constraints :: nat where "max_constraints = 20"
definition max_files :: nat where "max_files = 50"
definition max_hypotheses :: nat where "max_hypotheses = 20"
definition max_failures :: nat where "max_failures = 20"
definition max_gaps :: nat where "max_gaps = 10"
definition max_inconsistencies :: nat where "max_inconsistencies = 20"
definition max_candidate_items :: nat where "max_candidate_items = 20"

record reviewer_input =
  rv_signal_id :: string
  rv_signal_type :: string
  rv_severity :: "pyval option"
  rv_evidence :: "string list"
  rv_resources :: "string list"
  rv_features :: "(string \<times> pyval) list"
  rv_goal :: "string option"
  rv_constraints :: "string list"
  rv_touched :: "string list"
  rv_edits :: "string list"
  rv_stale :: "string list"
  rv_failures :: "string list"
  rv_validation :: string
  rv_history :: string
  rv_gaps :: "string list"
  rv_inconsistencies :: "string list"
  rv_truncated :: "string list"

definition input_coverage :: "reviewer_input \<Rightarrow> payload" where
  "input_coverage r =
     [(''goal_present'', PBool (rv_goal r \<noteq> None)),
      (''constraints_shown'', PInt (int (length (rv_constraints r)))),
      (''candidate_evidence_shown'', PInt (int (length (rv_evidence r)))),
      (''resources_shown'', PInt (int (length (rv_resources r)))),
      (''touched_files_shown'', PInt (int (length (rv_touched r)))),
      (''edits_since_validation_shown'', PInt (int (length (rv_edits r)))),
      (''stale_hypotheses_shown'', PInt (int (length (rv_stale r)))),
      (''recent_failures_shown'', PInt (int (length (rv_failures r)))),
      (''coverage_gaps_shown'', PInt (int (length (rv_gaps r)))),
      (''truncated'', PBool (rv_truncated r \<noteq> [])),
      (''truncated_fields'', PList (map PStr (rv_truncated r)))]"

fun validation_str :: "validation_status \<Rightarrow> string" where
  "validation_str ValidationUnknown = ''unknown''"
| "validation_str ValidationPassed = ''passed''"
| "validation_str ValidationFailed = ''failed''"
| "validation_str ValidationStale = ''stale''"

fun history_str :: "history_status \<Rightarrow> string" where
  "history_str HistoryComplete = ''complete''"
| "history_str HistoryPartial = ''partial''"
| "history_str HistoryUnknown = ''unknown''"

section \<open>Bounding helpers\<close>

definition flat_text :: "string \<Rightarrow> string" where
  "flat_text value = join '' '' (split_ws value)"

definition bounded_text :: "nat \<Rightarrow> string \<Rightarrow> string \<Rightarrow> string set \<Rightarrow> string \<times> string set" where
  "bounded_text limit field value truncated =
     (take limit (flat_text value),
      if length (flat_text value) > limit then insert field truncated else truncated)"

fun bounded_texts :: "string \<Rightarrow> string list \<Rightarrow> string set \<Rightarrow> string list \<times> string set" where
  "bounded_texts field [] truncated = ([], truncated)"
| "bounded_texts field (v # vs) truncated =
     (case bounded_text text_chars field v truncated of
        (t, truncated1) \<Rightarrow>
          (case bounded_texts field vs truncated1 of (ts, truncated2) \<Rightarrow> (t # ts, truncated2)))"

text \<open>\<open>_texts\<close> and \<open>_strings\<close> have the same body.\<close>

definition recent_texts :: "nat \<Rightarrow> string \<Rightarrow> string list \<Rightarrow> string set \<Rightarrow> string list \<times> string set" where
  "recent_texts limit field values truncated =
     bounded_texts field (take_last limit values)
       (if length values > limit then insert field truncated else truncated)"

definition strs :: "pyval \<Rightarrow> string list" where
  "strs v = (case v of PList xs \<Rightarrow> strings_of xs | _ \<Rightarrow> [])"

definition candidate_strings :: "pyval \<Rightarrow> string \<Rightarrow> string set \<Rightarrow> string list \<times> string set" where
  "candidate_strings value field truncated =
     recent_texts max_candidate_items field (strs value) truncated"

definition required_string :: "payload \<Rightarrow> string \<Rightarrow> string result" where
  "required_string p key =
     (case get p key of
        PStr s \<Rightarrow> if s = [] then Inl (ValueError (''candidate has no '' @ key)) else Inr s
      | _ \<Rightarrow> Inl (ValueError (''candidate has no '' @ key)))"

definition is_scalar :: "pyval \<Rightarrow> bool" where
  "is_scalar v = (case v of PList _ \<Rightarrow> False | PDict _ \<Rightarrow> False | _ \<Rightarrow> True)"

fun bounded_features :: "(string \<times> pyval) list \<Rightarrow> string set \<Rightarrow> (string \<times> pyval) list \<times> string set" where
  "bounded_features [] truncated = ([], truncated)"
| "bounded_features ((key, v) # kvs) truncated =
     (let (v', truncated1) = (case v of
            PStr s \<Rightarrow> (case bounded_text text_chars ''features'' s truncated of (t, tr) \<Rightarrow> (PStr t, tr))
          | _ \<Rightarrow> (v, truncated));
          (rest, truncated2) = bounded_features kvs truncated1
      in ((key, v') # rest, truncated2))"

definition candidate_hypotheses :: "pyval \<Rightarrow> string set" where
  "candidate_hypotheses resources =
     (case resources of
        PList xs \<Rightarrow> (\<lambda>r. removeprefix r ''hypothesis:'') `
          set (filter (\<lambda>r. startswith r ''hypothesis:'') (strings_of xs))
      | _ \<Rightarrow> {})"

definition item_line :: "state_item \<Rightarrow> string" where
  "item_line x = si_id x @ '': '' @ si_text x"

definition epoch_str :: "int option \<Rightarrow> string" where
  "epoch_str e = (case e of Some n \<Rightarrow> dec_int n | None \<Rightarrow> ''None'')"

definition gap_line :: "observation_gap \<Rightarrow> string" where
  "gap_line gap =
     (case nonempty (og_source gap) of Some i \<Rightarrow> i | None \<Rightarrow> ''unknown'') @ '':''
     @ epoch_str (og_epoch_before gap) @ ''->'' @ epoch_str (og_epoch_after gap) @ '':''
     @ og_backfill gap"

section \<open>Building the input\<close>

definition feature_items :: "payload \<Rightarrow> string set \<Rightarrow> (string \<times> pyval) list \<times> string set" where
  "feature_items candidate truncated =
     (case get candidate ''features'' of
        PDict d \<Rightarrow>
          (case bounded_features (filter (\<lambda>kv. is_scalar (snd kv)) d) truncated of
             (kvs, truncated1) \<Rightarrow> (sort_key fst kvs, truncated1))
      | _ \<Rightarrow> ([], truncated))"

definition severity_of :: "payload \<Rightarrow> pyval option" where
  "severity_of candidate = (case get candidate ''severity_hint'' of
     PInt i \<Rightarrow> Some (PInt i) | PFloat x \<Rightarrow> Some (PFloat x) | _ \<Rightarrow> None)"

definition build_reviewer_input :: "payload \<Rightarrow> thread_state \<Rightarrow> reviewer_input result" where
  "build_reviewer_input candidate s =
     (let (goal, t0) = (case tk_goal (ts_task s) of
            Some g \<Rightarrow> (case bounded_text goal_chars ''goal'' (si_text g) {} of (t, tr) \<Rightarrow> (Some t, tr))
          | None \<Rightarrow> (None, {}));
          (constraints, t1) = recent_texts max_constraints ''constraints''
            (map si_text (tk_constraints (ts_task s))) t0;
          (touched, t2) = recent_texts max_files ''touched_files''
            (sorted_list_of_set (ws_touched (ts_workspace s))) t1;
          (edits, t3) = recent_texts max_files ''edits_since_validation''
            (sorted_list_of_set (ws_edits (ts_workspace s))) t2;
          raw_resources = get candidate ''involved_resources'';
          (resources, t4) = candidate_strings raw_resources ''involved_resources'' t3;
          wanted = candidate_hypotheses raw_resources;
          (stale, t5) = recent_texts max_hypotheses ''stale_hypotheses''
            (map item_line (filter (\<lambda>x. si_kind x = Hypothesis \<and> si_status x = ItemStale
               \<and> si_id x \<in> wanted) (es_items (ts_evidence s)))) t4;
          (failures, t6) = recent_texts max_failures ''recent_failures''
            (map item_line (ex_failures (ts_execution s))) t5;
          (gaps, t7) = recent_texts max_gaps ''coverage_gaps''
            (map gap_line (cv_gaps (ts_coverage s))) t6;
          (inconsistencies, t8) = recent_texts max_inconsistencies ''coverage_inconsistencies''
            (cv_inconsistencies (ts_coverage s)) t7;
          (evidence, t9) = candidate_strings (get candidate ''evidence_event_ids'')
            ''evidence_event_ids'' t8;
          (items, t10) = feature_items candidate t9;
          t11 = (if length items > max_candidate_items then insert ''features'' t10 else t10)
      in rbind (required_string candidate ''signal_id'') (\<lambda>signal_id.
         rbind (required_string candidate ''signal_type'') (\<lambda>signal_type.
         Inr \<lparr>rv_signal_id = signal_id, rv_signal_type = signal_type,
              rv_severity = severity_of candidate, rv_evidence = evidence,
              rv_resources = resources, rv_features = take max_candidate_items items,
              rv_goal = goal, rv_constraints = constraints, rv_touched = touched,
              rv_edits = edits, rv_stale = stale, rv_failures = failures,
              rv_validation = validation_str (ex_validation (ts_execution s)),
              rv_history = history_str (cv_history (ts_coverage s)), rv_gaps = gaps,
              rv_inconsistencies = inconsistencies,
              rv_truncated = sorted_list_of_set t11\<rparr>)))"

section \<open>Bounds, and truncation that is never silent\<close>

lemma bounded_texts_eq:
  "bounded_texts field vs tr = (map (\<lambda>v. take text_chars (flat_text v)) vs,
     if list_ex (\<lambda>v. length (flat_text v) > text_chars) vs then insert field tr else tr)"
  by (induction vs arbitrary: tr) (auto simp: bounded_text_def)

text \<open>What a field shows and whether it had to be cut.\<close>

definition shown :: "nat \<Rightarrow> string list \<Rightarrow> string list" where
  "shown limit values = map (\<lambda>v. take text_chars (flat_text v)) (take_last limit values)"

definition too_big :: "nat \<Rightarrow> string list \<Rightarrow> bool" where
  "too_big limit values \<longleftrightarrow> limit < length values
     \<or> list_ex (\<lambda>v. text_chars < length (flat_text v)) (take_last limit values)"

lemma recent_texts_eq:
  "recent_texts limit field values tr =
     (shown limit values, if too_big limit values then insert field tr else tr)"
  by (auto simp: recent_texts_def bounded_texts_eq shown_def too_big_def)

lemma shown_bounds: "length (shown limit values) \<le> limit"
  "v \<in> set (shown limit values) \<Longrightarrow> length v \<le> text_chars"
  by (auto simp: shown_def)

lemma shown_all: "\<not> too_big limit values \<Longrightarrow> shown limit values = map flat_text values"
  by (auto simp: too_big_def shown_def take_last_short list_ex_iff not_less)

lemma bounded_features_eq:
  "bounded_features kvs tr =
     (map (\<lambda>kv. (fst kv, case snd kv of PStr s \<Rightarrow> PStr (take text_chars (flat_text s)) | v \<Rightarrow> v)) kvs,
      if list_ex (\<lambda>kv. case snd kv of PStr s \<Rightarrow> text_chars < length (flat_text s) | _ \<Rightarrow> False) kvs
      then insert ''features'' tr else tr)"
proof (induction kvs arbitrary: tr)
  case (Cons kv kvs)
  obtain k v where kv: "kv = (k, v)" by (cases kv)
  show ?case by (cases v) (auto simp: kv Cons bounded_text_def Let_def)
qed simp

text \<open>The fields of a reviewer input that come from lists, with the list each shows.\<close>

definition input_sources :: "payload \<Rightarrow> thread_state \<Rightarrow>
    (string \<times> nat \<times> string list \<times> (reviewer_input \<Rightarrow> string list)) list" where
  "input_sources candidate s =
     ([(''constraints'', max_constraints, map si_text (tk_constraints (ts_task s)), rv_constraints),
       (''touched_files'', max_files, sorted_list_of_set (ws_touched (ts_workspace s)), rv_touched),
       (''edits_since_validation'', max_files, sorted_list_of_set (ws_edits (ts_workspace s)), rv_edits),
       (''involved_resources'', max_candidate_items, strs (get candidate ''involved_resources''), rv_resources),
       (''stale_hypotheses'', max_hypotheses, map item_line (filter (\<lambda>x. si_kind x = Hypothesis
          \<and> si_status x = ItemStale \<and> si_id x \<in> candidate_hypotheses (get candidate ''involved_resources''))
          (es_items (ts_evidence s))), rv_stale),
       (''recent_failures'', max_failures, map item_line (ex_failures (ts_execution s)), rv_failures),
       (''coverage_gaps'', max_gaps, map gap_line (cv_gaps (ts_coverage s)), rv_gaps),
       (''coverage_inconsistencies'', max_inconsistencies, cv_inconsistencies (ts_coverage s), rv_inconsistencies),
       (''evidence_event_ids'', max_candidate_items, strs (get candidate ''evidence_event_ids''), rv_evidence)])"

definition noted :: "bool \<Rightarrow> string \<Rightarrow> string set \<Rightarrow> string set" where
  "noted b field tr = (if b then insert field tr else tr)"

lemma noted_simps [simp]:
  "x \<in> noted b field tr \<longleftrightarrow> b \<and> x = field \<or> x \<in> tr"
  "finite (noted b field tr) \<longleftrightarrow> finite tr"
  by (auto simp: noted_def)

lemma recent_texts_noted:
  "recent_texts limit field values tr = (shown limit values, noted (too_big limit values) field tr)"
  by (simp add: recent_texts_eq noted_def)

definition goal_text :: "thread_state \<Rightarrow> string option" where
  "goal_text s = map_option (\<lambda>g. flat_text (si_text g)) (tk_goal (ts_task s))"

definition goal_cut :: "thread_state \<Rightarrow> bool" where
  "goal_cut s = (case goal_text s of Some t \<Rightarrow> goal_chars < length t | None \<Rightarrow> False)"

definition features_long :: "payload \<Rightarrow> bool" where
  "features_long candidate = (snd (feature_items candidate {}) \<noteq> {})"

definition features_cut :: "payload \<Rightarrow> bool" where
  "features_cut candidate = (max_candidate_items < length (fst (feature_items candidate {}))
     \<or> features_long candidate)"

lemma feature_items_noted:
  "feature_items candidate tr = (fst (feature_items candidate {}),
     noted (features_long candidate) ''features'' tr)"
  by (auto simp: features_long_def feature_items_def bounded_features_eq noted_def split: pyval.split)

text \<open>A successful build, field by field.\<close>

lemma build_fields:
  assumes "build_reviewer_input candidate s = Inr r"
  shows "rv_goal r = map_option (take goal_chars) (goal_text s)"
    "list_all (\<lambda>(field, limit, source, sel). sel r = shown limit source) (input_sources candidate s)"
    "rv_features r = take max_candidate_items (fst (feature_items candidate {}))"
    "field \<in> set (rv_truncated r) \<longleftrightarrow> goal_cut s \<and> field = ''goal'' \<or> features_cut candidate \<and> field = ''features''
       \<or> list_ex (\<lambda>(f, limit, source, sel). too_big limit source \<and> field = f) (input_sources candidate s)"
    "get candidate ''signal_id'' = PStr (rv_signal_id r)" "rv_signal_id r \<noteq> []"
    "get candidate ''signal_type'' = PStr (rv_signal_type r)" "rv_signal_type r \<noteq> []"
proof -
  define goal where "goal = (case tk_goal (ts_task s) of
      Some g \<Rightarrow> (case bounded_text goal_chars ''goal'' (si_text g) {} of (t, tr) \<Rightarrow> (Some t, tr))
    | None \<Rightarrow> (None, {}))"
  have goal: "goal = (map_option (take goal_chars) (goal_text s), noted (goal_cut s) ''goal'' {})"
    by (simp add: goal_def goal_text_def goal_cut_def bounded_text_def noted_def split: option.split)
  note parts = assms [unfolded build_reviewer_input_def goal_def [symmetric] goal recent_texts_noted
      candidate_strings_def feature_items_noted [of candidate "noted _ _ _"] Let_def prod.case
      noted_def [of _ "''features''", symmetric]]
  show "rv_goal r = map_option (take goal_chars) (goal_text s)"
    "rv_features r = take max_candidate_items (fst (feature_items candidate {}))"
    "list_all (\<lambda>(field, limit, source, sel). sel r = shown limit source) (input_sources candidate s)"
    using parts by (auto simp: input_sources_def)
  show "get candidate ''signal_id'' = PStr (rv_signal_id r)" "rv_signal_id r \<noteq> []"
    "get candidate ''signal_type'' = PStr (rv_signal_type r)" "rv_signal_type r \<noteq> []"
    using parts by (auto simp: required_string_def split: pyval.splits if_splits)
  show "field \<in> set (rv_truncated r) \<longleftrightarrow> goal_cut s \<and> field = ''goal'' \<or> features_cut candidate \<and> field = ''features''
       \<or> list_ex (\<lambda>(f, limit, source, sel). too_big limit source \<and> field = f) (input_sources candidate s)"
    using parts
    by (clarsimp simp: input_sources_def features_cut_def conj_disj_distribR disj_ac)
qed

text \<open>A reviewer input is bounded and its truncation is never silent: every list field shows
  at most its limit of entries of at most 300 characters each, always the most recent ones,
  the goal is cut at 600 characters, and a field is named as truncated exactly when
  something of it was left out; a field not named is complete.\<close>

theorem reviewer_input_bounded:
  assumes build: "build_reviewer_input candidate s = Inr r"
    and field: "(field, limit, source, sel) \<in> set (input_sources candidate s)"
  shows "length (sel r) \<le> limit \<and> list_all (\<lambda>t. length t \<le> 300) (sel r)
    \<and> (field \<in> set (rv_truncated r) \<longleftrightarrow> too_big limit source)
    \<and> (field \<notin> set (rv_truncated r) \<longrightarrow> sel r = map flat_text source)
    \<and> (case rv_goal r of Some t \<Rightarrow> length t \<le> 600 | None \<Rightarrow> tk_goal (ts_task s) = None)
    \<and> length (rv_features r) \<le> 20"
proof -
  note f = build_fields [OF build]
  have sel: "sel r = shown limit source" using f(2) field by (auto simp: list_all_iff)
  have unique: "limit' = limit \<and> source' = source"
    if "(field, limit', source', sel') \<in> set (input_sources candidate s)" for limit' source' sel'
    using that field by (auto simp: input_sources_def)
  have named: "field \<noteq> ''goal'' \<and> field \<noteq> ''features''"
    using field by (auto simp: input_sources_def)
  have "field \<in> set (rv_truncated r) \<longleftrightarrow> too_big limit source"
    unfolding f(4) list_ex_iff using unique field named by blast
  moreover have "list_all (\<lambda>t. length t \<le> 300) (sel r)"
    unfolding sel using shown_bounds(2) by (auto simp: list_all_iff text_chars_def)
  moreover have "case rv_goal r of Some t \<Rightarrow> length t \<le> 600 | None \<Rightarrow> tk_goal (ts_task s) = None"
    unfolding f(1) by (simp add: goal_text_def goal_chars_def split: option.split)
  ultimately show ?thesis
    using shown_bounds(1) shown_all by (simp add: sel f(3) max_candidate_items_def)
qed

end
