(* ===== verification/Review_Scheduler.thy ===== *)
theory Review_Scheduler
  imports Reviewer_Input
begin

text \<open>
  Model of \<open>src/spotter/review_scheduler.py\<close>: reviewer jobs created from active signal
  candidates, their discarding when the target moves on, and the rebuilding of pending jobs
  from the durable log. The scheduler's state is returned beside the result, also when an
  operation raises.
\<close>

section \<open>Jobs and the events they emit\<close>

record reviewer_job =
  rj_id :: string
  rj_signal :: string
  rj_type :: string
  rj_thread :: thread_id
  rj_turn :: turn_id
  rj_epoch :: "int option"
  rj_version :: int
  rj_candidate :: string
  rj_created :: "float64 option"
  rj_snapshot :: thread_state
  rj_input :: reviewer_input
  rj_signals :: "string list"
  rj_types :: "string list"
  rj_candidates :: "string list"

definition pv_epoch :: "int option \<Rightarrow> pyval" where
  "pv_epoch v = (case v of Some i \<Rightarrow> PInt i | None \<Rightarrow> PNone)"

definition scheduler_event ::
    "string \<Rightarrow> payload \<Rightarrow> string \<Rightarrow> float64 option \<Rightarrow> trace_event \<Rightarrow> trace_event" where
  "scheduler_event kind p i time trigger =
     \<lparr>ev_kind = kind, ev_payload = p, ev_id = Some i, ev_at = time,
      ev_identity = ev_identity trigger, ev_operation = None, ev_item = None,
      ev_provenance = Some \<lparr>tp_source = ''spotterd'', tp_method = Some ''review_scheduler''\<rparr>,
      ev_epoch = ev_epoch trigger, ev_arrival = None, ev_monotonic = None, ev_clock = None,
      ev_config = ev_config trigger\<rparr>"

definition queued_event :: "reviewer_job \<Rightarrow> trace_event \<Rightarrow> trace_event" where
  "queued_event job trigger = scheduler_event ''review_job_queued''
     [(''review_job_id'', PStr (rj_id job)),
      (''signal_id'', PStr (rj_signal job)),
      (''signal_type'', PStr (rj_type job)),
      (''signal_ids'', PList (map PStr (rj_signals job))),
      (''signal_types'', PList (map PStr (rj_types job))),
      (''thread_id'', PStr (thread_value (rj_thread job))),
      (''target_turn_id'', PStr (turn_value (rj_turn job))),
      (''target_connection_epoch'', pv_epoch (rj_epoch job)),
      (''state_version'', PInt (rj_version job)),
      (''candidate_event_id'', PStr (rj_candidate job)),
      (''candidate_event_ids'', PList (map PStr (rj_candidates job))),
      (''review_trigger'', PStr ''signal''),
      (''input_coverage'', PDict (input_coverage (rj_input job)))]
     (''spotter:review-job:'' @ rj_id job @ '':queued'') (rj_created job) trigger"

text \<open>The payload \<open>discarded_event\<close> and \<open>stale_event\<close> share.\<close>

definition closing_payload :: "reviewer_job \<Rightarrow> string \<Rightarrow> payload" where
  "closing_payload job reason =
     [(''review_job_id'', PStr (rj_id job)),
      (''signal_id'', PStr (rj_signal job)),
      (''signal_ids'', PList (map PStr (rj_signals job))),
      (''reason'', PStr reason),
      (''target_turn_id'', PStr (turn_value (rj_turn job))),
      (''target_connection_epoch'', pv_epoch (rj_epoch job)),
      (''state_version'', PInt (rj_version job))]"

definition discarded_event :: "reviewer_job \<Rightarrow> trace_event \<Rightarrow> string \<Rightarrow> trace_event" where
  "discarded_event job trigger reason = scheduler_event ''review_job_discarded''
     (closing_payload job reason) (''spotter:review-job:'' @ rj_id job @ '':discarded'')
     (ev_at trigger) trigger"

definition stale_event :: "reviewer_job \<Rightarrow> trace_event \<Rightarrow> string \<Rightarrow> trace_event" where
  "stale_event job trigger reason = scheduler_event ''review_job_stale''
     (closing_payload job reason) (''spotter:review-job:'' @ rj_id job @ '':stale'')
     (ev_at trigger) trigger"

section \<open>State\<close>

record scheduler =
  sd_jobs :: "(string, reviewer_job) dict"
  sd_by_signal :: "(string, string) dict"
  sd_seen :: "string set"
  sd_started :: "string set"

definition empty_scheduler :: scheduler where
  "empty_scheduler = \<lparr>sd_jobs = [], sd_by_signal = [], sd_seen = {}, sd_started = {}\<rparr>"

definition pending_jobs :: "scheduler \<Rightarrow> reviewer_job list" where
  "pending_jobs sc = dvalues (sd_jobs sc)"

definition get_job :: "scheduler \<Rightarrow> string \<Rightarrow> reviewer_job option" where
  "get_job sc job_id = dget (sd_jobs sc) job_id"

definition remove_job :: "scheduler \<Rightarrow> string \<Rightarrow> scheduler" where
  "remove_job sc job_id =
     sc\<lparr>sd_jobs := dpop job_id (sd_jobs sc), sd_started := sd_started sc - {job_id},
        sd_by_signal := (case dget (sd_jobs sc) job_id of
          Some job \<Rightarrow> foldl (\<lambda>d sid. dpop sid d) (sd_by_signal sc) (rj_signals job)
        | None \<Rightarrow> sd_by_signal sc)\<rparr>"

definition discard_job :: "scheduler \<Rightarrow> reviewer_job \<Rightarrow> trace_event \<Rightarrow> string \<Rightarrow> scheduler \<times> trace_event" where
  "discard_job sc job trigger reason =
     (remove_job sc (rj_id job),
      if rj_id job \<in> sd_started sc then stale_event job trigger reason
      else discarded_event job trigger reason)"

definition terminal_answer_matches :: "thread_state \<Rightarrow> turn_id \<Rightarrow> bool" where
  "terminal_answer_matches s turn =
     (case ex_answer (ts_execution s) of
        Some answer \<Rightarrow> sp_turn (si_provenance answer) = Some turn | None \<Rightarrow> False)"

section \<open>Building a job\<close>

definition required_field :: "payload \<Rightarrow> string \<Rightarrow> string result" where
  "required_field p key =
     (case get p key of
        PStr s \<Rightarrow> if s = [] then Inl (ReviewSchedulingError (''signal candidate has no '' @ key)) else Inr s
      | _ \<Rightarrow> Inl (ReviewSchedulingError (''signal candidate has no '' @ key)))"

fun required_fields :: "string \<Rightarrow> trace_event list \<Rightarrow> string list result" where
  "required_fields key [] = Inr []"
| "required_fields key (e # es) =
     rbind (required_field (ev_payload e) key) (\<lambda>v.
     rbind (required_fields key es) (\<lambda>vs. Inr (v # vs)))"

text \<open>\<open>max\<close> of integers and doubles: Python compares them exactly, the first maximum wins.\<close>

definition exact_value :: "pyval \<Rightarrow> float64" where
  "exact_value v = (case v of PInt i \<Rightarrow> Fin (of_int i) | PFloat x \<Rightarrow> x | _ \<Rightarrow> NaN)"

definition num_greater :: "pyval \<Rightarrow> pyval \<Rightarrow> bool" where
  "num_greater a b = (fl_le (exact_value b) (exact_value a) \<and> \<not> fl_le (exact_value a) (exact_value b))"

definition max_severity :: "pyval list \<Rightarrow> pyval" where
  "max_severity xs = (case xs of [] \<Rightarrow> PNone
     | v # vs \<Rightarrow> foldl (\<lambda>m x. if num_greater x m then x else m) v vs)"

definition add_features :: "payload \<Rightarrow> trace_event \<times> string \<Rightarrow> payload" where
  "add_features d et =
     (case get (ev_payload (fst et)) ''features'' of
        PDict raw \<Rightarrow> foldl (\<lambda>d kv. dset (snd et @ ''.'' @ fst kv) (snd kv) d) d raw
      | _ \<Rightarrow> d)"

definition merge_candidate_payload ::
    "trace_event list \<Rightarrow> string list \<Rightarrow> string list \<Rightarrow> payload" where
  "merge_candidate_payload events signal_ids signal_types =
     (case events of
        [e] \<Rightarrow> ev_payload e
      | _ \<Rightarrow>
          [(''signal_id'', PStr (''merged:'' @ sha256_hex (join '':'' signal_ids))),
           (''signal_type'', PStr (join ''+'' (dedup signal_types))),
           (''severity_hint'', max_severity
              (filter (\<lambda>v. case v of PInt _ \<Rightarrow> True | PFloat _ \<Rightarrow> True | _ \<Rightarrow> False)
                (map (\<lambda>e. get (ev_payload e) ''severity_hint'') events))),
           (''evidence_event_ids'', PList (map PStr (dedup (concat
              (map (\<lambda>e. strs (get (ev_payload e) ''evidence_event_ids'')) events))))),
           (''involved_resources'', PList (map PStr (dedup (concat
              (map (\<lambda>e. strs (get (ev_payload e) ''involved_resources'')) events))))),
           (''features'', PDict (foldl add_features [] (zip events signal_types)))])"

definition str_eq :: "pyval \<Rightarrow> string \<Rightarrow> bool" where
  "str_eq v s = (case v of PStr t \<Rightarrow> t = s | _ \<Rightarrow> False)"

definition epoch_eq :: "pyval \<Rightarrow> int option \<Rightarrow> bool" where
  "epoch_eq v e = (case e of Some n \<Rightarrow> num_eq v n | None \<Rightarrow> v = PNone)"

definition same_target ::
    "runtime_identity \<Rightarrow> thread_id \<Rightarrow> turn_id \<Rightarrow> int \<Rightarrow> int option \<Rightarrow> trace_event \<Rightarrow> bool" where
  "same_target identity tid turn version epoch e =
     (let p = ev_payload e in
      ev_identity e = Some identity \<and> str_eq (get p ''thread_id'') (thread_value tid)
      \<and> str_eq (get p ''turn_id'') (turn_value turn) \<and> num_eq (get p ''state_version'') version
      \<and> epoch_eq (get p ''target_connection_epoch'') epoch)"

text \<open>The guards of \<open>_job\<close>, in the code's order: the fields of the job's target.\<close>

definition job_target ::
    "trace_event list \<Rightarrow> thread_state \<Rightarrow> (thread_id \<times> turn_id \<times> int \<times> int option) result" where
  "job_target events s =
     (case Option.bind (ev_identity (last events)) (\<lambda>i. Option.bind (ri_thread i) (\<lambda>tid.
          map_option (\<lambda>turn. (i, tid, turn)) (ri_turn i))) of
        None \<Rightarrow> Inl (ReviewSchedulingError ''active signal has no exact thread/turn identity'')
      | Some (identity, tid, turn) \<Rightarrow>
          (case get (ev_payload (last events)) ''state_version'' of
             PInt version \<Rightarrow>
               rbind (case get (ev_payload (last events)) ''target_connection_epoch'' of
                   PNone \<Rightarrow> Inr None
                 | PInt n \<Rightarrow> Inr (Some n)
                 | _ \<Rightarrow> Inl (ReviewSchedulingError ''active signal has an invalid connection epoch''))
               (\<lambda>epoch.
                 if \<not> list_all (same_target identity tid turn version epoch) events
                 then Inl (ReviewSchedulingError ''merged signals do not share one immutable target'')
                 else if thread_id_of s \<noteq> tid \<or> int (ts_version s) \<noteq> version
                   \<or> ri_turn (ts_identity s) \<noteq> Some turn \<or> ts_epoch s \<noteq> epoch
                 then Inl (ReviewSchedulingError
                   ''active signal target does not match its ThreadState snapshot'')
                 else Inr (tid, turn, version, epoch))
           | _ \<Rightarrow> Inl (ReviewSchedulingError ''active signal has no integer state_version'')))"

definition make_job :: "trace_event list \<Rightarrow> thread_state \<Rightarrow> reviewer_job result" where
  "make_job events s =
     (if events = [] then Inl (ReviewSchedulingError ''review job has no candidates'')
      else
        rbind (required_fields ''signal_id'' events) (\<lambda>signal_ids.
        rbind (required_fields ''signal_type'' events) (\<lambda>signal_types.
        let candidate_ids = List.map_filter ev_id events in
        if length candidate_ids \<noteq> length events
        then Inl (ReviewSchedulingError ''active signal has no durable event identity'')
        else
          rbind (job_target events s) (\<lambda>(tid, turn, version, epoch).
          rbind (build_reviewer_input (merge_candidate_payload events signal_ids signal_types) s) (\<lambda>input.
          let job_key = (if length events = 1 then hd signal_ids @ '':'' @ hd candidate_ids
                         else join '':'' candidate_ids)
          in Inr \<lparr>rj_id = sha256_hex job_key, rj_signal = hd signal_ids, rj_type = hd signal_types,
                  rj_thread = tid, rj_turn = turn, rj_epoch = epoch, rj_version = version,
                  rj_candidate = hd candidate_ids, rj_created = ev_at (last events),
                  rj_snapshot = s, rj_input = input, rj_signals = signal_ids,
                  rj_types = signal_types, rj_candidates = candidate_ids\<rparr>)))))"

section \<open>Scheduling candidates\<close>

text \<open>
  The first loop of \<open>update_candidates\<close>: candidates that end discard the job of their signal,
  unseen active ones are collected. A status that cannot be hashed raises \<open>TypeError\<close>.
\<close>

fun sort_candidates ::
    "scheduler \<Rightarrow> trace_event list \<Rightarrow> trace_event list \<Rightarrow> trace_event list \<Rightarrow>
     scheduler \<times> (trace_event list \<times> trace_event list) result" where
  "sort_candidates sc transitions active [] = (sc, Inr (transitions, active))"
| "sort_candidates sc transitions active (e # es) =
     (if ev_kind e \<noteq> ''signal_candidate'' then sort_candidates sc transitions active es
      else case required_field (ev_payload e) ''signal_id'' of
        Inl err \<Rightarrow> (sc, Inl err)
      | Inr sid \<Rightarrow>
          (case get (ev_payload e) ''status'' of
             PStr status \<Rightarrow>
               if status = ''resolved'' \<or> status = ''stale'' then
                 (case Option.bind (dget (sd_by_signal sc) sid) (dget (sd_jobs sc)) of
                    Some job \<Rightarrow>
                      (case discard_job sc job e (''signal_'' @ status) of (sc', t) \<Rightarrow>
                         sort_candidates sc' (transitions @ [t]) active es)
                  | None \<Rightarrow> sort_candidates sc transitions active es)
               else if status = ''active'' \<and> sid \<notin> sd_seen sc
               then sort_candidates sc transitions (active @ [e]) es
               else sort_candidates sc transitions active es
           | PList _ \<Rightarrow> (sc, Inl TypeError)
           | PDict _ \<Rightarrow> (sc, Inl TypeError)
           | _ \<Rightarrow> sort_candidates sc transitions active es))"

definition target_lost :: "reviewer_job \<Rightarrow> thread_state \<Rightarrow> bool" where
  "target_lost job s = (thread_id_of s \<noteq> rj_thread job \<or> ts_active_turn s \<noteq> Some (rj_turn job)
     \<or> ts_epoch s \<noteq> rj_epoch job)"

definition queue_job :: "scheduler \<Rightarrow> reviewer_job \<Rightarrow> scheduler" where
  "queue_job sc job =
     sc\<lparr>sd_jobs := dset (rj_id job) job (sd_jobs sc),
        sd_by_signal := foldl (\<lambda>d sid. dset sid (rj_id job) d) (sd_by_signal sc) (rj_signals job)\<rparr>"

definition schedule_active ::
    "scheduler \<Rightarrow> trace_event list \<Rightarrow> thread_state \<Rightarrow> thread_state \<Rightarrow>
     scheduler \<times> trace_event result" where
  "schedule_active sc active source after =
     (case make_job active source of
        Inl err \<Rightarrow> (sc, Inl err)
      | Inr job \<Rightarrow>
          let sc1 = sc\<lparr>sd_seen := sd_seen sc \<union> set (rj_signals job)\<rparr>; trigger = last active in
          if ts_active_turn source \<noteq> Some (rj_turn job)
          then (sc1, Inr (discarded_event job trigger ''target_not_active''))
          else if terminal_answer_matches after (rj_turn job)
          then (sc1, Inr (discarded_event job trigger ''terminal_answer_settled''))
          else if target_lost job after
          then (sc1, Inr (discarded_event job trigger ''target_changed''))
          else (queue_job sc1 job, Inr (queued_event job trigger)))"

definition update_candidates ::
    "scheduler \<Rightarrow> trace_event list \<Rightarrow> thread_state \<Rightarrow> thread_state \<Rightarrow>
     scheduler \<times> trace_event list result" where
  "update_candidates sc events source after =
     (case sort_candidates sc [] [] events of
        (sc1, Inl err) \<Rightarrow> (sc1, Inl err)
      | (sc1, Inr (transitions, active)) \<Rightarrow>
          if active = [] then (sc1, Inr transitions)
          else (case schedule_active sc1 active source after of
              (sc2, Inl err) \<Rightarrow> (sc2, Inl err)
            | (sc2, Inr t) \<Rightarrow> (sc2, Inr (transitions @ [t]))))"

section \<open>Following the thread\<close>

definition closing_kinds :: "string set" where
  "closing_kinds = {''observation_gap'', ''runtime_attachment_unavailable'', ''thread_archived'',
     ''thread_closed'', ''thread_deleted'', ''turn_completed''}"

definition discard_reason ::
    "trace_event \<Rightarrow> thread_state option \<Rightarrow> thread_state \<Rightarrow> reviewer_job \<Rightarrow> string option" where
  "discard_reason e before after job =
     (if rj_thread job \<noteq> thread_id_of after then None
      else if terminal_answer_matches after (rj_turn job)
        \<and> (case before of None \<Rightarrow> True | Some s \<Rightarrow> \<not> terminal_answer_matches s (rj_turn job))
      then Some ''terminal_answer_settled''
      else if ts_epoch after \<noteq> rj_epoch job \<or> ts_active_turn after \<noteq> Some (rj_turn job)
        \<or> ev_kind e \<in> closing_kinds
      then Some ''target_changed''
      else None)"

fun follow_target ::
    "trace_event \<Rightarrow> thread_state option \<Rightarrow> thread_state \<Rightarrow> reviewer_job list \<Rightarrow> scheduler \<Rightarrow>
     scheduler \<times> trace_event list" where
  "follow_target e before after [] sc = (sc, [])"
| "follow_target e before after (job # jobs) sc =
     (case discard_reason e before after job of
        None \<Rightarrow> follow_target e before after jobs sc
      | Some reason \<Rightarrow>
          (case discard_job sc job e reason of (sc1, t) \<Rightarrow>
             (case follow_target e before after jobs sc1 of (sc2, ts) \<Rightarrow> (sc2, t # ts))))"

definition decision_kinds :: "string set" where
  "decision_kinds = {''reviewer_decision'', ''reviewer_error'', ''reviewer_capped''}"

definition scheduler_follow ::
    "scheduler \<Rightarrow> trace_event \<Rightarrow> thread_state option \<Rightarrow> thread_state \<Rightarrow>
     scheduler \<times> trace_event list result" where
  "scheduler_follow sc e before after =
     (case follow_target e before after (pending_jobs sc) sc of (sc1, transitions) \<Rightarrow>
        if ev_kind e \<noteq> ''signal_candidate'' then (sc1, Inr transitions)
        else if before = None \<and> str_eq (get (ev_payload e) ''status'') ''active''
        then (sc1, Inl (ReviewSchedulingError ''active signal has no source ThreadState snapshot''))
        else (case update_candidates sc1 [e] (case before of Some s \<Rightarrow> s | None \<Rightarrow> after) after of
            (sc2, Inl err) \<Rightarrow> (sc2, Inl err)
          | (sc2, Inr ts) \<Rightarrow> (sc2, Inr (transitions @ ts))))"

definition scheduler_update ::
    "scheduler \<Rightarrow> trace_event \<Rightarrow> thread_state option \<Rightarrow> thread_state \<Rightarrow>
     scheduler \<times> trace_event list result" where
  "scheduler_update sc e before after =
     (let job_id = as_str (get (ev_payload e) ''review_job_id'') in
      case job_id of
        Some jid \<Rightarrow>
          if ev_kind e = ''review_inference_started'' \<and> dget (sd_jobs sc) jid \<noteq> None
          then scheduler_follow (sc\<lparr>sd_started := insert jid (sd_started sc)\<rparr>) e before after
          else if ev_kind e \<in> decision_kinds then (remove_job sc jid, Inr [])
          else scheduler_follow sc e before after
      | None \<Rightarrow> scheduler_follow sc e before after)"

section \<open>Hydration\<close>

text \<open>The local variables of \<open>hydrate\<close>.\<close>

record hydration =
  hy_scheduler :: scheduler
  hy_store :: store
  hy_snapshots :: "(thread_id \<times> int, thread_state) dict"
  hy_missing :: "(string, trace_event) dict"
  hy_group :: "trace_event list"
  hy_key :: "(thread_id \<times> int) option"

definition start_hydration :: hydration where
  "start_hydration = \<lparr>hy_scheduler = empty_scheduler, hy_store = empty_store, hy_snapshots = [],
     hy_missing = [], hy_group = [], hy_key = None\<rparr>"

text \<open>\<open>missing[transition.event_id] = transition\<close>; every transition has an identifier.\<close>

definition note_missing :: "(string, trace_event) dict \<Rightarrow> trace_event \<Rightarrow> (string, trace_event) dict" where
  "note_missing missing t = (case ev_id t of Some i \<Rightarrow> dset i t missing | None \<Rightarrow> missing)"

definition flush_candidates :: "hydration \<Rightarrow> hydration \<times> unit result" where
  "flush_candidates h =
     (case (hy_group h, hy_key h) of
        (e # es, Some key) \<Rightarrow>
          (case dget (hy_snapshots h) key of
             None \<Rightarrow> (h, Inl (ReviewSchedulingError ''candidate source ThreadState snapshot is missing''))
           | Some source \<Rightarrow>
               (case snapshot (hy_store h) (fst key) of
                  Inl err \<Rightarrow> (h, Inl err)
                | Inr after \<Rightarrow>
                    (case update_candidates (hy_scheduler h) (hy_group h) source after of
                       (sc, Inl err) \<Rightarrow> (h\<lparr>hy_scheduler := sc\<rparr>, Inl err)
                     | (sc, Inr ts) \<Rightarrow>
                         (h\<lparr>hy_scheduler := sc, hy_missing := foldl note_missing (hy_missing h) ts,
                            hy_group := [], hy_key := None\<rparr>, Inr ()))))
      | _ \<Rightarrow> (h, Inr ()))"

definition next_key :: "thread_id \<Rightarrow> trace_event \<Rightarrow> (thread_id \<times> int) option" where
  "next_key tid e =
     (if ev_kind e = ''signal_candidate''
      then map_option (\<lambda>v. (tid, v)) (as_int (get (ev_payload e) ''state_version'')) else None)"

text \<open>What one record does after a possible flush.\<close>

definition hydrate_event :: "hydration \<Rightarrow> thread_id \<Rightarrow> trace_event \<Rightarrow> hydration \<times> unit result" where
  "hydrate_event h tid e =
     (let before = (case snapshot (hy_store h) tid of Inr s \<Rightarrow> Some s | Inl _ \<Rightarrow> None) in
      case observe (hy_store h) e of
        (st, Inl err) \<Rightarrow> (h\<lparr>hy_store := st\<rparr>, Inl err)
      | (st, Inr after) \<Rightarrow>
          let h1 = h\<lparr>hy_store := st,
                hy_snapshots := dset (tid, int (ts_version after)) after (hy_snapshots h),
                hy_missing := (case ev_id e of Some i \<Rightarrow> dpop i (hy_missing h) | None \<Rightarrow> hy_missing h)\<rparr>
          in if ev_kind e = ''signal_candidate'' then
               (case next_key tid e of
                  None \<Rightarrow> (h1, Inl (ReviewSchedulingError ''signal candidate has no integer state_version''))
                | Some key \<Rightarrow> (h1\<lparr>hy_key := Some key, hy_group := hy_group h1 @ [e]\<rparr>, Inr ()))
             else if ev_kind e = ''signal_candidate_suppressed'' then (h1, Inr ())
             else (case scheduler_update (hy_scheduler h1) e before after of
                 (sc, Inl err) \<Rightarrow> (h1\<lparr>hy_scheduler := sc\<rparr>, Inl err)
               | (sc, Inr ts) \<Rightarrow>
                   (h1\<lparr>hy_scheduler := sc, hy_missing := foldl note_missing (hy_missing h1) ts\<rparr>, Inr ())))"

definition hydrate_record :: "hydration \<Rightarrow> trace_event \<Rightarrow> hydration \<times> unit result" where
  "hydrate_record h e =
     (case event_thread e of
        None \<Rightarrow> (h, Inr ())
      | Some tid \<Rightarrow>
          if hy_group h \<noteq> [] \<and> next_key tid e \<noteq> hy_key h \<and> ev_kind e \<noteq> ''signal_candidate_suppressed''
          then (case flush_candidates h of
              (h1, Inl err) \<Rightarrow> (h1, Inl err) | (h1, Inr _) \<Rightarrow> hydrate_event h1 tid e)
          else hydrate_event h tid e)"

fun hydrate_loop :: "hydration \<Rightarrow> trace_event list \<Rightarrow> hydration \<times> unit result" where
  "hydrate_loop h [] = flush_candidates h"
| "hydrate_loop h (e # es) =
     (case hydrate_record h e of
        (h1, Inl err) \<Rightarrow> (h1, Inl err) | (h1, Inr _) \<Rightarrow> hydrate_loop h1 es)"

definition hydrate_scheduler :: "step_record list \<Rightarrow> scheduler \<times> trace_event list result" where
  "hydrate_scheduler records =
     (case hydrate_loop start_hydration (map sr_event records) of
        (h, r) \<Rightarrow> (hy_scheduler h, rbind r (\<lambda>_. Inr (dvalues (hy_missing h)))))"

end
