(* ===== verification/Scheduler_Claims.thy ===== *)
theory Scheduler_Claims
  imports Review_Scheduler
begin

text \<open>
  The invariant of the review scheduler and its properties: what following a thread discards,
  when a job may be queued, that a signal is scheduled once, and what hydration rebuilds.
\<close>

section \<open>The invariant\<close>

definition job_wf :: "reviewer_job \<Rightarrow> bool" where
  "job_wf j \<longleftrightarrow> rj_signals j \<noteq> [] \<and> thread_id_of (rj_snapshot j) = rj_thread j
     \<and> int (ts_version (rj_snapshot j)) = rj_version j
     \<and> ri_turn (ts_identity (rj_snapshot j)) = Some (rj_turn j)
     \<and> ts_epoch (rj_snapshot j) = rj_epoch j"

definition sched_inv :: "scheduler \<Rightarrow> bool" where
  "sched_inv sc \<longleftrightarrow> dict_ok (sd_jobs sc) \<and> dict_ok (sd_by_signal sc)
     \<and> (\<forall>k j. dget (sd_jobs sc) k = Some j \<longrightarrow> rj_id j = k \<and> job_wf j
          \<and> ts_active_turn (rj_snapshot j) = Some (rj_turn j)
          \<and> set (rj_signals j) \<subseteq> sd_seen sc
          \<and> (\<forall>s \<in> set (rj_signals j). dget (sd_by_signal sc) s = Some k))
     \<and> (\<forall>k \<in> sd_started sc. dget (sd_jobs sc) k \<noteq> None)"

lemma sched_inv_empty: "sched_inv empty_scheduler"
  by (simp add: sched_inv_def empty_scheduler_def)

lemma sched_invD:
  assumes "sched_inv sc" and "dget (sd_jobs sc) k = Some j"
  shows "rj_id j = k" "job_wf j" "ts_active_turn (rj_snapshot j) = Some (rj_turn j)"
    "set (rj_signals j) \<subseteq> sd_seen sc" "s \<in> set (rj_signals j) \<Longrightarrow> dget (sd_by_signal sc) s = Some k"
  using assms by (auto simp: sched_inv_def)

lemma pops_get: "dget (foldl (\<lambda>d s. dpop s d) d ss) t = (if t \<in> set ss then None else dget d t)"
  by (induction ss arbitrary: d) auto

lemma pops_ok: "dict_ok d \<Longrightarrow> dict_ok (foldl (\<lambda>d s. dpop s d) d ss)"
  by (induction ss arbitrary: d) auto

lemma sets_get: "dget (foldl (\<lambda>d s. dset s v d) d ss) t = (if t \<in> set ss then Some v else dget d t)"
  by (induction ss arbitrary: d) auto

lemma sets_ok: "dict_ok d \<Longrightarrow> dict_ok (foldl (\<lambda>d s. dset s v d) d ss)"
  by (induction ss arbitrary: d) auto

lemma remove_job_simps [simp]:
  "sd_jobs (remove_job sc k) = dpop k (sd_jobs sc)" "sd_seen (remove_job sc k) = sd_seen sc"
  "sd_started (remove_job sc k) = sd_started sc - {k}"
  by (simp_all add: remove_job_def)

lemma remove_job_inv:
  assumes inv: "sched_inv sc"
  shows "sched_inv (remove_job sc k)"
proof -
  have by_signal: "dget (sd_by_signal (remove_job sc k)) s = Some k'"
    if j: "dget (sd_jobs sc) k' = Some j" "k' \<noteq> k" and s: "s \<in> set (rj_signals j)" for k' j s
  proof (cases "dget (sd_jobs sc) k")
    case (Some j')
    have "s \<notin> set (rj_signals j')"
      using sched_invD(5) [OF inv Some, of s] sched_invD(5) [OF inv j(1) s] j(2) by auto
    with Some sched_invD(5) [OF inv j(1) s] show ?thesis by (simp add: remove_job_def pops_get)
  qed (use sched_invD(5) [OF inv j(1) s] in \<open>simp add: remove_job_def\<close>)
  have ok: "dict_ok (sd_by_signal (remove_job sc k))"
    using inv by (simp add: remove_job_def sched_inv_def pops_ok split: option.split)
  show ?thesis
    using inv by_signal ok unfolding sched_inv_def by auto
qed

lemma seen_inv: "sched_inv sc \<Longrightarrow> sched_inv (sc\<lparr>sd_seen := sd_seen sc \<union> S\<rparr>)"
  unfolding sched_inv_def by auto

lemma queue_job_inv:
  assumes inv: "sched_inv sc" and wf: "job_wf j" "ts_active_turn (rj_snapshot j) = Some (rj_turn j)"
    and fresh: "set (rj_signals j) \<inter> sd_seen sc = {}"
  shows "sched_inv (queue_job (sc\<lparr>sd_seen := sd_seen sc \<union> set (rj_signals j)\<rparr>) j)"
proof -
  let ?sc = "queue_job (sc\<lparr>sd_seen := sd_seen sc \<union> set (rj_signals j)\<rparr>) j"
  have "rj_id j' = k \<and> job_wf j' \<and> ts_active_turn (rj_snapshot j') = Some (rj_turn j')
      \<and> set (rj_signals j') \<subseteq> sd_seen ?sc
      \<and> (\<forall>s \<in> set (rj_signals j'). dget (sd_by_signal ?sc) s = Some k)"
    if "dget (sd_jobs ?sc) k = Some j'" for k j'
  proof (cases "k = rj_id j")
    case True
    with that wf show ?thesis by (auto simp: queue_job_def sets_get)
  next
    case False
    with that have j': "dget (sd_jobs sc) k = Some j'" by (simp add: queue_job_def)
    from sched_invD(1-4) [OF inv j'] sched_invD(5) [OF inv j'] fresh show ?thesis
      by (auto simp: queue_job_def sets_get)
  qed
  moreover have "dict_ok (sd_jobs ?sc)" "dict_ok (sd_by_signal ?sc)"
    using inv by (simp_all add: sched_inv_def queue_job_def sets_ok)
  moreover have "\<forall>k \<in> sd_started ?sc. dget (sd_jobs ?sc) k \<noteq> None"
    using inv by (simp add: sched_inv_def queue_job_def)
  ultimately show ?thesis unfolding sched_inv_def by blast
qed

section \<open>What a job is made of\<close>

lemma required_fields_len: "required_fields key es = Inr vs \<Longrightarrow> length vs = length es"
  by (induction es arbitrary: vs) auto

lemma job_target_ok:
  assumes "job_target es s = Inr (tid, turn, version, epoch)"
  shows "thread_id_of s = tid" "int (ts_version s) = version" "ri_turn (ts_identity s) = Some turn"
    "ts_epoch s = epoch" "list_all (\<lambda>e. Option.bind (ev_identity e) ri_thread = Some tid
      \<and> Option.bind (ev_identity e) ri_turn = Some turn) es"
proof -
  obtain i where i: "ev_identity (last es) = Some i" "ri_thread i \<noteq> None" "ri_turn i \<noteq> None"
    using assms by (auto simp: job_target_def bind_eq_Some_conv split: option.splits)
  then obtain t u where tu: "ri_thread i = Some t" "ri_turn i = Some u" by auto
  obtain v where v: "get (ev_payload (last es)) ''state_version'' = PInt v"
    using assms by (auto simp: job_target_def i tu split: pyval.splits)
  have bound: "job_target es s = rbind (case get (ev_payload (last es)) ''target_connection_epoch'' of
       PNone \<Rightarrow> Inr None | PInt n \<Rightarrow> Inr (Some n)
     | _ \<Rightarrow> Inl (ReviewSchedulingError ''active signal has an invalid connection epoch''))
     (\<lambda>epoch. if \<not> list_all (same_target i t u v epoch) es
        then Inl (ReviewSchedulingError ''merged signals do not share one immutable target'')
        else if thread_id_of s \<noteq> t \<or> int (ts_version s) \<noteq> v
          \<or> ri_turn (ts_identity s) \<noteq> Some u \<or> ts_epoch s \<noteq> epoch
        then Inl (ReviewSchedulingError ''active signal target does not match its ThreadState snapshot'')
        else Inr (t, u, v, epoch))"
    unfolding job_target_def by (simp add: i tu v)
  from assms obtain ep where ep: "(if \<not> list_all (same_target i t u v ep) es
        then Inl (ReviewSchedulingError ''merged signals do not share one immutable target'')
        else if thread_id_of s \<noteq> t \<or> int (ts_version s) \<noteq> v
          \<or> ri_turn (ts_identity s) \<noteq> Some u \<or> ts_epoch s \<noteq> ep
        then Inl (ReviewSchedulingError ''active signal target does not match its ThreadState snapshot'')
        else Inr (t, u, v, ep)) = Inr (tid, turn, version, epoch)"
    unfolding bound rbind_Inr by blast
  have "list_all (same_target i t u v ep) es \<and> thread_id_of s = t \<and> int (ts_version s) = v
    \<and> ri_turn (ts_identity s) = Some u \<and> ts_epoch s = ep"
    by (rule ccontr) (use ep in \<open>simp split: if_splits\<close>)
  with ep have *: "list_all (same_target i t u v ep) es" "thread_id_of s = t" "int (ts_version s) = v"
    "ri_turn (ts_identity s) = Some u" "ts_epoch s = ep" "(tid, turn, version, epoch) = (t, u, v, ep)"
    by simp_all
  then show "thread_id_of s = tid" "int (ts_version s) = version" "ri_turn (ts_identity s) = Some turn"
    "ts_epoch s = epoch" by simp_all
  show "list_all (\<lambda>e. Option.bind (ev_identity e) ri_thread = Some tid
      \<and> Option.bind (ev_identity e) ri_turn = Some turn) es"
    using * tu by (auto simp: list_all_iff same_target_def Let_def)
qed

lemma make_job_ok:
  assumes "make_job es s = Inr job"
  shows "job_wf job" "rj_snapshot job = s" "required_fields ''signal_id'' es = Inr (rj_signals job)"
proof -
  from assms obtain ids tys tid turn v ep inp where *: "es \<noteq> []" "required_fields ''signal_id'' es = Inr ids"
    "required_fields ''signal_type'' es = Inr tys" "job_target es s = Inr (tid, turn, v, ep)"
    "rj_thread job = tid" "rj_turn job = turn" "rj_epoch job = ep" "rj_version job = v"
    "rj_snapshot job = s" "rj_signals job = ids"
    by (auto simp: make_job_def Let_def split: if_splits)
  have "ids \<noteq> []" using required_fields_len [OF *(2)] *(1) by auto
  with * job_target_ok(1-4) [OF *(4)] show "job_wf job" "rj_snapshot job = s"
    "required_fields ''signal_id'' es = Inr (rj_signals job)"
    by (auto simp: job_wf_def)
qed

section \<open>Candidates\<close>

lemma discard_job_event:
  "\<exists>reason'. snd (discard_job sc job e reason) = stale_event job e reason'
     \<or> snd (discard_job sc job e reason) = discarded_event job e reason'"
  unfolding discard_job_def snd_conv by auto

text \<open>One candidate: it fails, is passed over, closes a job, or joins the active ones.\<close>

lemma sort_candidates_step:
  assumes "sort_candidates sc ts active (e # es) = (sc', r)"
  obtains (failed) err where "sc' = sc" "r = Inl err"
  | (passed) "sort_candidates sc ts active es = (sc', r)"
  | (closed) job t where "sort_candidates (remove_job sc (rj_id job)) (ts @ [t]) active es = (sc', r)"
      "\<exists>reason. t = stale_event job e reason \<or> t = discarded_event job e reason"
  | (joined) sid where "required_field (ev_payload e) ''signal_id'' = Inr sid" "sid \<notin> sd_seen sc"
      "sort_candidates sc ts (active @ [e]) es = (sc', r)"
proof (cases "ev_kind e = ''signal_candidate''")
  case False
  with assms passed show ?thesis by simp
next
  case kind: True
  show ?thesis
  proof (cases "required_field (ev_payload e) ''signal_id''")
    case (Inl err)
    with assms kind have "sc' = sc" "r = Inl err" by simp_all
    then show ?thesis by (rule failed)
  next
    case (Inr sid)
    have run: "(case get (ev_payload e) ''status'' of
             PStr status \<Rightarrow>
               if status = ''resolved'' \<or> status = ''stale'' then
                 (case Option.bind (dget (sd_by_signal sc) sid) (dget (sd_jobs sc)) of
                    Some job \<Rightarrow>
                      (case discard_job sc job e (''signal_'' @ status) of (sc', t) \<Rightarrow>
                         sort_candidates sc' (ts @ [t]) active es)
                  | None \<Rightarrow> sort_candidates sc ts active es)
               else if status = ''active'' \<and> sid \<notin> sd_seen sc
               then sort_candidates sc ts (active @ [e]) es
               else sort_candidates sc ts active es
           | PList _ \<Rightarrow> (sc, Inl TypeError)
           | PDict _ \<Rightarrow> (sc, Inl TypeError)
           | _ \<Rightarrow> sort_candidates sc ts active es) = (sc', r)"
      using assms unfolding sort_candidates.simps Inr sum.case by (simp add: kind)
    show ?thesis
    proof (cases "get (ev_payload e) ''status''")
      case (PStr st)
      note run = run [unfolded PStr pyval.case]
      consider (ends) "st = ''resolved'' \<or> st = ''stale''" | (starts) "st = ''active''" "sid \<notin> sd_seen sc"
        | (other) "\<not> (st = ''resolved'' \<or> st = ''stale'')" "\<not> (st = ''active'' \<and> sid \<notin> sd_seen sc)" by blast
      then show ?thesis
      proof cases
        case ends
        show ?thesis
        proof (cases "Option.bind (dget (sd_by_signal sc) sid) (dget (sd_jobs sc))")
          case None
          with run ends have "sort_candidates sc ts active es = (sc', r)" by auto
          then show ?thesis by (rule passed)
        next
          case (Some job)
          define t where "t = snd (discard_job sc job e (''signal_'' @ st))"
          have t: "discard_job sc job e (''signal_'' @ st) = (remove_job sc (rj_id job), t)"
            "\<exists>reason. t = stale_event job e reason \<or> t = discarded_event job e reason"
            unfolding t_def by (simp add: discard_job_def) (rule discard_job_event)
          with run ends Some have "sort_candidates (remove_job sc (rj_id job)) (ts @ [t]) active es = (sc', r)"
            by auto
          then show ?thesis using t(2) by (rule closed)
        qed
      next
        case starts
        with run have "sort_candidates sc ts (active @ [e]) es = (sc', r)" by simp
        with Inr starts(2) show ?thesis by (intro joined)
      next
        case other
        with run have "sort_candidates sc ts active es = (sc', r)" by (auto split: if_splits)
        then show ?thesis by (rule passed)
      qed
    qed (use run passed failed in auto)
  qed
qed

lemma sort_candidates_inv:
  "sort_candidates sc ts active es = (sc', r) \<Longrightarrow> sched_inv sc \<Longrightarrow> sched_inv sc' \<and> sd_seen sc' = sd_seen sc"
proof (induction es arbitrary: sc ts active)
  case (Cons e es)
  from Cons.prems(1) show ?case
  proof (cases rule: sort_candidates_step)
    case (closed job t)
    from Cons.IH [OF closed(1) remove_job_inv [OF Cons.prems(2)]] show ?thesis by simp
  qed (use Cons in auto)
qed simp

lemma sort_candidates_active:
  "sort_candidates sc ts active es = (sc', Inr (ts', active')) \<Longrightarrow>
   \<forall>e \<in> set active. \<exists>sid. required_field (ev_payload e) ''signal_id'' = Inr sid \<and> sid \<notin> sd_seen sc \<Longrightarrow>
   \<forall>e \<in> set active'. \<exists>sid. required_field (ev_payload e) ''signal_id'' = Inr sid \<and> sid \<notin> sd_seen sc"
proof (induction es arbitrary: sc ts active)
  case (Cons e es)
  from Cons.prems(1) show ?case
  proof (cases rule: sort_candidates_step)
    case passed
    from Cons.IH [OF this Cons.prems(2)] show ?thesis .
  next
    case (closed job t)
    with Cons.IH [OF closed(1)] Cons.prems(2) show ?thesis by simp
  next
    case (joined sid)
    with Cons.IH [OF joined(3)] Cons.prems(2) show ?thesis by auto
  qed simp
qed simp

lemma sort_candidates_closing:
  "sort_candidates sc ts active es = (sc', Inr (ts', active')) \<Longrightarrow>
   \<forall>t \<in> set ts. ev_kind t \<noteq> ''review_job_queued'' \<Longrightarrow> \<forall>t \<in> set ts'. ev_kind t \<noteq> ''review_job_queued''"
proof (induction es arbitrary: sc ts active)
  case (Cons e es)
  from Cons.prems(1) show ?case
  proof (cases rule: sort_candidates_step)
    case passed
    from Cons.IH [OF this Cons.prems(2)] show ?thesis .
  next
    case (closed job t)
    then have "ev_kind t \<noteq> ''review_job_queued''"
      by (auto simp: stale_event_def discarded_event_def scheduler_event_def)
    with Cons.IH [OF closed(1)] Cons.prems(2) show ?thesis by auto
  next
    case (joined sid)
    with Cons.IH [OF joined(3)] Cons.prems(2) show ?thesis by auto
  qed simp
qed simp

text \<open>A queued event announces a job that has just become pending.\<close>

definition queues ::
    "scheduler \<Rightarrow> scheduler \<Rightarrow> thread_state \<Rightarrow> thread_state \<Rightarrow> trace_event \<Rightarrow> bool" where
  "queues sc sc' source after t \<longleftrightarrow> (\<exists>job trigger. t = queued_event job trigger
     \<and> dget (sd_jobs sc') (rj_id job) = Some job \<and> rj_snapshot job = source \<and> job_wf job
     \<and> set (rj_signals job) \<inter> sd_seen sc = {} \<and> set (rj_signals job) \<subseteq> sd_seen sc'
     \<and> \<not> target_lost job after \<and> \<not> target_lost job source
     \<and> \<not> terminal_answer_matches after (rj_turn job))"

lemma required_fields_set:
  "required_fields key es = Inr vs \<Longrightarrow> v \<in> set vs \<Longrightarrow> \<exists>e \<in> set es. required_field (ev_payload e) key = Inr v"
  by (induction es arbitrary: vs) auto

lemma schedule_active_ok:
  assumes run: "schedule_active sc active source after = (sc', r)" and inv: "sched_inv sc"
    and fresh: "\<forall>e \<in> set active. \<exists>sid. required_field (ev_payload e) ''signal_id'' = Inr sid \<and> sid \<notin> sd_seen sc"
  shows "sched_inv sc' \<and> sd_seen sc \<subseteq> sd_seen sc'
    \<and> (\<forall>t. r = Inr t \<longrightarrow> ev_kind t = ''review_job_queued'' \<longrightarrow> queues sc sc' source after t)
    \<and> (\<forall>k j. dget (sd_jobs sc') k = Some j \<longrightarrow> dget (sd_jobs sc) k = Some j
         \<or> rj_snapshot j = source \<and> \<not> target_lost j after \<and> \<not> terminal_answer_matches after (rj_turn j))"
proof (cases "make_job active source")
  case (Inl err)
  with run have "sc' = sc" "r = Inl err" by (simp_all add: schedule_active_def)
  with inv show ?thesis by simp
next
  case (Inr job)
  note job = make_job_ok [OF Inr]
  have new: "set (rj_signals job) \<inter> sd_seen sc = {}"
    using required_fields_set [OF job(3)] fresh by fastforce
  let ?sc = "sc\<lparr>sd_seen := sd_seen sc \<union> set (rj_signals job)\<rparr>"
  show ?thesis
  proof (cases "ts_active_turn source \<noteq> Some (rj_turn job) \<or> terminal_answer_matches after (rj_turn job)
      \<or> target_lost job after")
    case True
    then obtain reason where "sc' = ?sc" "r = Inr (discarded_event job (last active) reason)"
      using run Inr by (auto simp: schedule_active_def Let_def split: if_splits)
    then show ?thesis using seen_inv [OF inv] by (auto simp: discarded_event_def scheduler_event_def)
  next
    case False
    with run Inr have out: "sc' = queue_job ?sc job" "r = Inr (queued_event job (last active))"
      by (auto simp: schedule_active_def Let_def)
    have "\<not> target_lost job source"
      using job(1,2) False by (auto simp: target_lost_def job_wf_def)
    then have "queues sc sc' source after (queued_event job (last active))"
      unfolding queues_def using out job new False
      by (intro exI [of _ job] exI [of _ "last active"]) (auto simp: queue_job_def)
    moreover have "sched_inv sc'"
      unfolding out(1) using False job new by (intro queue_job_inv inv) auto
    moreover have "sd_seen sc \<subseteq> sd_seen sc'" using out by (auto simp: queue_job_def)
    moreover have "dget (sd_jobs sc') k = Some j \<Longrightarrow> dget (sd_jobs sc) k = Some j
         \<or> rj_snapshot j = source \<and> \<not> target_lost j after \<and> \<not> terminal_answer_matches after (rj_turn j)" for k j
      using out False job(2) by (auto simp: queue_job_def split: if_splits)
    ultimately show ?thesis using out(2) by blast
  qed
qed

lemma sort_candidates_jobs:
  "sort_candidates sc ts active es = (sc', r) \<Longrightarrow> dget (sd_jobs sc') k = Some j \<Longrightarrow> dget (sd_jobs sc) k = Some j"
proof (induction es arbitrary: sc ts active)
  case (Cons e es)
  from Cons.prems(1) show ?case
  proof (cases rule: sort_candidates_step)
    case (closed job t)
    from Cons.IH [OF closed(1) Cons.prems(2)] show ?thesis by (simp split: if_splits)
  qed (use Cons in auto)
qed simp

lemma update_candidates_ok:
  assumes run: "update_candidates sc es source after = (sc', r)" and inv: "sched_inv sc"
  shows "sched_inv sc' \<and> sd_seen sc \<subseteq> sd_seen sc'
    \<and> (\<forall>ts t. r = Inr ts \<longrightarrow> t \<in> set ts \<longrightarrow> ev_kind t = ''review_job_queued'' \<longrightarrow> queues sc sc' source after t)
    \<and> (\<forall>k j. dget (sd_jobs sc') k = Some j \<longrightarrow> dget (sd_jobs sc) k = Some j
         \<or> rj_snapshot j = source \<and> \<not> target_lost j after \<and> \<not> terminal_answer_matches after (rj_turn j))"
proof -
  obtain sc1 r1 where s: "sort_candidates sc [] [] es = (sc1, r1)" by fastforce
  note s1 = sort_candidates_inv [OF s inv] and j1 = sort_candidates_jobs [OF s]
  show ?thesis
  proof (cases r1)
    case (Inl err)
    with run s have "sc' = sc1" "r = Inl err" by (simp_all add: update_candidates_def)
    with s1 j1 show ?thesis by auto
  next
    case (Inr p)
    obtain ts active where p: "p = (ts, active)" by (cases p)
    have closing: "\<forall>t \<in> set ts. ev_kind t \<noteq> ''review_job_queued''"
      using sort_candidates_closing s Inr p by (metis empty_iff list.set(1))
    have fresh: "\<forall>e \<in> set active. \<exists>sid. required_field (ev_payload e) ''signal_id'' = Inr sid \<and> sid \<notin> sd_seen sc"
      using sort_candidates_active [of sc "[]" "[]" es] s Inr p by simp
    show ?thesis
    proof (cases "active = []")
      case True
      with run s Inr p have "sc' = sc1" "r = Inr ts" by (simp_all add: update_candidates_def)
      with s1 j1 closing show ?thesis by auto
    next
      case False
      obtain sc2 r2 where a: "schedule_active sc1 active source after = (sc2, r2)" by fastforce
      have "sched_inv sc1" "sd_seen sc1 = sd_seen sc" using s1 by simp_all
      note a2 = schedule_active_ok [OF a this(1), unfolded this(2), OF fresh]
      have "sc' = sc2" "r = rbind r2 (\<lambda>t. Inr (ts @ [t]))"
        using run s Inr p False a by (cases r2; simp add: update_candidates_def)+
      moreover have "queues sc sc2 source after t" if "queues sc1 sc2 source after t" for t
        using that \<open>sd_seen sc1 = sd_seen sc\<close> by (simp add: queues_def)
      ultimately have out: "sc' = sc2" "r = rbind r2 (\<lambda>t. Inr (ts @ [t]))"
        and lift: "\<And>t. queues sc1 sc2 source after t \<Longrightarrow> queues sc sc2 source after t" by blast+
      have jobs: "dget (sd_jobs sc) k = Some j \<or> rj_snapshot j = source \<and> \<not> target_lost j after \<and> \<not> terminal_answer_matches after (rj_turn j)"
        if "dget (sd_jobs sc2) k = Some j" for k j
        using a2 j1 that by blast
      have "queues sc sc2 source after t"
        if "r = Inr ts'" "t \<in> set ts'" "ev_kind t = ''review_job_queued''" for ts' t
        using that out(2) closing a2 lift by (cases r2) auto
      with a2 jobs out(1) show ?thesis by blast
    qed
  qed
qed

section \<open>Following the thread\<close>

definition closing_event :: "scheduler \<Rightarrow> trace_event \<Rightarrow> reviewer_job \<Rightarrow> string \<Rightarrow> trace_event" where
  "closing_event sc e job reason = (if rj_id job \<in> sd_started sc then stale_event job e reason
     else discarded_event job e reason)"

lemma follow_target_jobs:
  "follow_target e before after js sc = (sc', ts) \<Longrightarrow> sched_inv sc \<Longrightarrow> sched_inv sc' \<and> sd_seen sc' = sd_seen sc
     \<and> sd_jobs sc' = foldl (\<lambda>d k. dpop k d) (sd_jobs sc)
         (map rj_id (filter (\<lambda>j. discard_reason e before after j \<noteq> None) js))"
proof (induction js arbitrary: sc sc' ts)
  case (Cons j js)
  show ?case
  proof (cases "discard_reason e before after j")
    case None
    with Cons show ?thesis by simp
  next
    case (Some reason)
    obtain sc2 ts2 where f: "follow_target e before after js (remove_job sc (rj_id j)) = (sc2, ts2)" by fastforce
    from Cons.IH [OF f remove_job_inv [OF Cons.prems(2)]] Cons.prems(1) Some f show ?thesis
      by (simp add: discard_job_def)
  qed
qed simp

lemma follow_target_events:
  "follow_target e before after js sc = (sc', ts) \<Longrightarrow> distinct (map rj_id js) \<Longrightarrow>
     ts = List.map_filter (\<lambda>j. map_option (closing_event sc e j) (discard_reason e before after j)) js"
proof (induction js arbitrary: sc sc' ts)
  case (Cons j js)
  show ?case
  proof (cases "discard_reason e before after j")
    case None
    with Cons show ?thesis by (simp add: List.map_filter_simps)
  next
    case (Some reason)
    obtain sc2 ts2 where f: "follow_target e before after js (remove_job sc (rj_id j)) = (sc2, ts2)" by fastforce
    have same: "closing_event (remove_job sc (rj_id j)) e x = closing_event sc e x" if "x \<in> set js" for x
    proof -
      have "rj_id x \<noteq> rj_id j" using Cons.prems(2) imageI [OF that, of rj_id] by auto
      then show ?thesis by (intro ext) (simp add: closing_event_def)
    qed
    have "ts2 = List.map_filter (\<lambda>j. map_option (closing_event sc e j) (discard_reason e before after j)) js"
      unfolding Cons.IH [OF f] using Cons.IH [OF f] Cons.prems(2) same
      by (auto simp: List.map_filter_def intro!: map_cong)
    moreover have "ts = closing_event sc e j reason # ts2"
      using Cons.prems(1) Some f by (auto simp: discard_job_def closing_event_def)
    ultimately show ?thesis using Some by (simp add: List.map_filter_simps)
  qed
qed (simp add: List.map_filter_simps)

lemma pops_filter: "foldl (\<lambda>d k. dpop k d) d ks = filter (\<lambda>kv. fst kv \<notin> set ks) d"
proof (induction ks arbitrary: d)
  case (Cons k ks)
  have "dpop k d = filter (\<lambda>kv. fst kv \<noteq> k) d"
    by (induction d) (auto simp: dpop_def AList.delete_eq)
  then show ?case by (auto simp: Cons filter_filter intro: filter_cong)
qed simp

lemma pops_values:
  assumes "dict_ok d" and "\<And>k j. dget d k = Some j \<Longrightarrow> rj_id j = k"
  shows "dvalues (foldl (\<lambda>d k. dpop k d) d (map rj_id (filter P (dvalues d)))) = filter (\<lambda>j. \<not> P j) (dvalues d)"
proof -
  have key: "rj_id (snd kv) = fst kv" if "kv \<in> set d" for kv
    using assms that by (cases kv) (auto simp: dict_ok_def dget_def)
  have "fst kv \<in> set (map rj_id (filter P (dvalues d))) \<longleftrightarrow> P (snd kv)" if kv: "kv \<in> set d" for kv
  proof
    assume "fst kv \<in> set (map rj_id (filter P (dvalues d)))"
    then obtain kv' where kv': "kv' \<in> set d" "P (snd kv')" "rj_id (snd kv') = fst kv"
      by (auto simp: dvalues_def)
    with key have "fst kv' = fst kv" by simp
    with kv kv' assms(1) have "kv' = kv" by (metis dict_ok_def eq_key_imp_eq_value prod_eqI prod.collapse)
    with kv' show "P (snd kv)" by simp
  next
    assume "P (snd kv)"
    then have "snd kv \<in> set (filter P (dvalues d))" using kv by (simp add: dvalues_def)
    then show "fst kv \<in> set (map rj_id (filter P (dvalues d)))"
      unfolding key [OF kv, symmetric] set_map by (rule imageI)
  qed
  then have "filter (\<lambda>kv. fst kv \<notin> set (map rj_id (filter P (dvalues d)))) d = filter (\<lambda>kv. \<not> P (snd kv)) d"
    by (intro filter_cong) auto
  then show ?thesis by (simp add: pops_filter dvalues_def filter_map o_def)
qed

lemma jobs_distinct: "sched_inv sc \<Longrightarrow> distinct (map rj_id (pending_jobs sc))"
proof -
  assume inv: "sched_inv sc"
  have "rj_id (snd kv) = fst kv" if "kv \<in> set (sd_jobs sc)" for kv
    using inv that by (cases kv) (auto simp: sched_inv_def dict_ok_def dget_def)
  then have "map rj_id (pending_jobs sc) = map fst (sd_jobs sc)"
    by (simp add: pending_jobs_def dvalues_def)
  then show ?thesis using inv by (simp add: sched_inv_def dict_ok_def)
qed

lemma follow_target_ok:
  assumes run: "follow_target e before after (pending_jobs sc) sc = (sc', ts)" and inv: "sched_inv sc"
  shows "sched_inv sc'" "sd_seen sc' = sd_seen sc"
    "pending_jobs sc' = filter (\<lambda>j. discard_reason e before after j = None) (pending_jobs sc)"
    "ts = List.map_filter (\<lambda>j. map_option (closing_event sc e j) (discard_reason e before after j)) (pending_jobs sc)"
proof -
  note f = follow_target_jobs [OF run inv]
  then show "sched_inv sc'" "sd_seen sc' = sd_seen sc" by blast+
  have "dict_ok (sd_jobs sc)" "\<And>k j. dget (sd_jobs sc) k = Some j \<Longrightarrow> rj_id j = k"
    using inv by (simp_all add: sched_inv_def)
  from pops_values [OF this, of "\<lambda>j. discard_reason e before after j \<noteq> None"] f
  show "pending_jobs sc' = filter (\<lambda>j. discard_reason e before after j = None) (pending_jobs sc)"
    by (simp add: pending_jobs_def)
  show "ts = List.map_filter (\<lambda>j. map_option (closing_event sc e j) (discard_reason e before after j)) (pending_jobs sc)"
    by (rule follow_target_events [OF run jobs_distinct [OF inv]])
qed

lemma pending_get: "sched_inv sc \<Longrightarrow> j \<in> set (pending_jobs sc) \<longleftrightarrow> dget (sd_jobs sc) (rj_id j) = Some j"
  by (auto simp: pending_jobs_def sched_inv_def in_dvalues)

lemma scheduler_follow_ok:
  assumes run: "scheduler_follow sc e before after = (sc', r)" and inv: "sched_inv sc"
  shows "sched_inv sc' \<and> sd_seen sc \<subseteq> sd_seen sc'
    \<and> (\<forall>ts t. r = Inr ts \<longrightarrow> t \<in> set ts \<longrightarrow> ev_kind t = ''review_job_queued'' \<longrightarrow>
         ev_kind e = ''signal_candidate'' \<and> queues sc sc' (case before of Some s \<Rightarrow> s | None \<Rightarrow> after) after t)
    \<and> (\<forall>j \<in> set (pending_jobs sc'). rj_thread j = thread_id_of after \<longrightarrow>
         ts_active_turn after = Some (rj_turn j) \<and> ts_epoch after = rj_epoch j
         \<and> ev_kind e \<notin> closing_kinds)
    \<and> (ev_kind e \<noteq> ''signal_candidate'' \<longrightarrow> set (pending_jobs sc') \<subseteq> set (pending_jobs sc))"
proof -
  obtain sc1 ts1 where f: "follow_target e before after (pending_jobs sc) sc = (sc1, ts1)" by fastforce
  note f1 = follow_target_ok [OF f inv]
  have live: "rj_thread j = thread_id_of after \<longrightarrow> ts_active_turn after = Some (rj_turn j)
      \<and> ts_epoch after = rj_epoch j \<and> ev_kind e \<notin> closing_kinds" if "j \<in> set (pending_jobs sc1)" for j
    using that unfolding f1(3) by (auto simp: discard_reason_def split: if_splits)
  have closing: "ev_kind t \<noteq> ''review_job_queued''" if "t \<in> set ts1" for t
    using that unfolding f1(4)
    by (auto simp: List.map_filter_def closing_event_def stale_event_def discarded_event_def
        scheduler_event_def split: if_splits)
  show ?thesis
  proof (cases "ev_kind e = ''signal_candidate'' \<and> \<not> (before = None \<and> str_eq (get (ev_payload e) ''status'') ''active'')")
    case False
    with run f have "sc' = sc1" "r = Inr ts1 \<or> (\<exists>err. r = Inl err)"
      by (auto simp: scheduler_follow_def split: if_splits)
    moreover have "set (pending_jobs sc1) \<subseteq> set (pending_jobs sc)" by (auto simp: f1(3))
    ultimately show ?thesis using f1(1,2) live closing by auto
  next
    case True
    let ?source = "case before of Some s \<Rightarrow> s | None \<Rightarrow> after"
    obtain sc2 r2 where u: "update_candidates sc1 [e] ?source after = (sc2, r2)" by fastforce
    note u2 = update_candidates_ok [OF u f1(1), unfolded f1(2)]
    have out: "sc' = sc2" "r = rbind r2 (\<lambda>ts. Inr (ts1 @ ts))"
      using run f True u by (cases r2; auto simp: scheduler_follow_def)+
    have "queues sc sc2 ?source after t" if "queues sc1 sc2 ?source after t" for t
      using that f1(2) by (simp add: queues_def)
    moreover have "rj_thread j = thread_id_of after \<longrightarrow> ts_active_turn after = Some (rj_turn j)
        \<and> ts_epoch after = rj_epoch j \<and> ev_kind e \<notin> closing_kinds" if "j \<in> set (pending_jobs sc2)" for j
    proof -
      have "dget (sd_jobs sc2) (rj_id j) = Some j" using u2 that pending_get by blast
      then have "j \<in> set (pending_jobs sc1) \<or> \<not> target_lost j after"
        using u2 pending_get [OF f1(1)] by blast
      with live True show ?thesis by (auto simp: target_lost_def closing_kinds_def)
    qed
    moreover have "t \<in> set ts \<Longrightarrow> ev_kind t = ''review_job_queued'' \<Longrightarrow> r = Inr ts \<Longrightarrow> queues sc1 sc2 ?source after t"
      for ts t using out(2) u2 closing by (cases r2) (auto simp: queues_def f1(2))
    ultimately show ?thesis using u2 out(1) True by blast
  qed
qed

section \<open>update\<close>

lemma started_inv: "sched_inv sc \<Longrightarrow> dget (sd_jobs sc) k \<noteq> None \<Longrightarrow> sched_inv (sc\<lparr>sd_started := insert k (sd_started sc)\<rparr>)"
  unfolding sched_inv_def by simp

text \<open>Either the event decides a job, or the scheduler follows its thread, possibly after noting
  that the inference of a pending job has started.\<close>

lemma scheduler_update_cases:
  assumes "scheduler_update sc e before after = (sc', r)"
  obtains (decided) jid where "ev_kind e \<in> decision_kinds" "sc' = remove_job sc jid" "r = Inr []"
  | (followed) "scheduler_follow sc e before after = (sc', r)"
  | (started) jid where "ev_kind e = ''review_inference_started''" "dget (sd_jobs sc) jid \<noteq> None"
      "scheduler_follow (sc\<lparr>sd_started := insert jid (sd_started sc)\<rparr>) e before after = (sc', r)"
  using assms by (auto simp: scheduler_update_def Let_def split: option.splits if_splits)

lemma scheduler_update_ok:
  assumes "scheduler_update sc e before after = (sc', r)" and "sched_inv sc"
  shows "sched_inv sc' \<and> sd_seen sc \<subseteq> sd_seen sc'
    \<and> (\<forall>ts t. r = Inr ts \<longrightarrow> t \<in> set ts \<longrightarrow> ev_kind t = ''review_job_queued'' \<longrightarrow>
         ev_kind e = ''signal_candidate'' \<and> queues sc sc' (case before of Some s \<Rightarrow> s | None \<Rightarrow> after) after t)
    \<and> (ev_kind e \<notin> decision_kinds \<longrightarrow> (\<forall>j \<in> set (pending_jobs sc'). rj_thread j = thread_id_of after \<longrightarrow>
         ts_active_turn after = Some (rj_turn j) \<and> ts_epoch after = rj_epoch j
         \<and> ev_kind e \<notin> closing_kinds))
    \<and> (ev_kind e \<noteq> ''signal_candidate'' \<longrightarrow> set (pending_jobs sc') \<subseteq> set (pending_jobs sc))"
  using assms(1)
proof (cases rule: scheduler_update_cases)
  case (decided jid)
  have "set (pending_jobs (remove_job sc jid)) \<subseteq> set (pending_jobs sc)"
    using pending_get [OF assms(2)] pending_get [OF remove_job_inv [OF assms(2)], of _ jid]
    by (auto split: if_splits)
  with decided remove_job_inv [OF assms(2)] show ?thesis by simp
next
  case followed
  from scheduler_follow_ok [OF this assms(2)] show ?thesis by blast
next
  case (started jid)
  from scheduler_follow_ok [OF started(3) started_inv [OF assms(2) started(2)]]
  show ?thesis by (simp add: queues_def pending_jobs_def)
qed

inductive sched_reach :: "scheduler \<Rightarrow> bool" where
  empty: "sched_reach empty_scheduler"
| single: "sched_reach sc \<Longrightarrow> scheduler_update sc e before after = (sc', r) \<Longrightarrow> sched_reach sc'"
| group: "sched_reach sc \<Longrightarrow> update_candidates sc es source after = (sc', r) \<Longrightarrow> sched_reach sc'"

lemma sched_reach_inv: "sched_reach sc \<Longrightarrow> sched_inv sc"
  by (induction rule: sched_reach.induct)
    (auto intro: sched_inv_empty dest: scheduler_update_ok update_candidates_ok)

text \<open>C16: Every pending job is bound to the immutable state it was scheduled from: the snapshot has
  the job's thread, turn, connection epoch and version, the turn was active in it, every
  signal of the job is marked as seen and leads back to the job, and inference is recorded as
  started only for pending jobs.\<close>

theorem pending_jobs_bound:
  assumes "sched_reach sc" and "job \<in> set (pending_jobs sc)"
  shows "thread_id_of (rj_snapshot job) = rj_thread job
    \<and> int (ts_version (rj_snapshot job)) = rj_version job
    \<and> ri_turn (ts_identity (rj_snapshot job)) = Some (rj_turn job)
    \<and> ts_active_turn (rj_snapshot job) = Some (rj_turn job)
    \<and> ts_epoch (rj_snapshot job) = rj_epoch job
    \<and> rj_signals job \<noteq> [] \<and> set (rj_signals job) \<subseteq> sd_seen sc
    \<and> list_all (\<lambda>s. dget (sd_by_signal sc) s = Some (rj_id job)) (rj_signals job)
    \<and> get_job sc (rj_id job) = Some job \<and> list_all (\<lambda>j. j \<in> rj_id ` set (pending_jobs sc)) (sorted_list_of_set (sd_started sc))"
proof -
  note inv = sched_reach_inv [OF assms(1)]
  have get: "dget (sd_jobs sc) (rj_id job) = Some job" using assms(2) pending_get [OF inv] by blast
  have "k \<in> rj_id ` set (pending_jobs sc)" if "k \<in> sd_started sc" for k
  proof -
    from inv that obtain j where "dget (sd_jobs sc) k = Some j" unfolding sched_inv_def by blast
    with sched_invD(1) [OF inv this] show ?thesis using pending_get [OF inv] by blast
  qed
  then have "list_all (\<lambda>j. j \<in> rj_id ` set (pending_jobs sc)) (sorted_list_of_set (sd_started sc))"
    by (cases "finite (sd_started sc)") (auto simp: list_all_iff)
  with sched_invD [OF inv get] show ?thesis
    by (simp add: job_wf_def list_all_iff get_job_def get)
qed

text \<open>C18: No review outlives its target: after any event other than a reviewer's own decision, the
  jobs still pending for the event's thread are for the active turn and the current
  connection, and none is left when the event ends the turn, the thread or the observation.\<close>

theorem pending_targets_live:
  assumes "sched_reach sc" and "scheduler_update sc e before after = (sc', r)"
    and "ev_kind e \<notin> decision_kinds" and "job \<in> set (pending_jobs sc')"
    and "rj_thread job = thread_id_of after"
  shows "ts_active_turn after = Some (rj_turn job) \<and> ts_epoch after = rj_epoch job
    \<and> ev_kind e \<notin> closing_kinds"
  using scheduler_update_ok [OF assms(2) sched_reach_inv [OF assms(1)]] assms(3-5) by blast

text \<open>C17: A signal is scheduled once: a job is queued only for signals never scheduled before, from
  the very snapshot it was given, for a target that is live and unanswered; its signals
  count as seen from then on, and seen signals are never forgotten.\<close>

theorem signal_scheduled_once:
  assumes "sched_reach sc" and "update_candidates sc es source after = (sc', Inr ts)"
  shows "sd_seen sc \<subseteq> sd_seen sc'
    \<and> (\<forall>t \<in> set ts. ev_kind t = ''review_job_queued'' \<longrightarrow>
        (\<exists>job trigger. t = queued_event job trigger \<and> get_job sc' (rj_id job) = Some job
          \<and> rj_snapshot job = source
          \<and> set (rj_signals job) \<inter> sd_seen sc = {} \<and> set (rj_signals job) \<subseteq> sd_seen sc'
          \<and> ts_active_turn source = Some (rj_turn job) \<and> ts_active_turn after = Some (rj_turn job)
          \<and> thread_id_of after = rj_thread job \<and> ts_epoch after = rj_epoch job
          \<and> \<not> terminal_answer_matches after (rj_turn job)))"
proof -
  note ok = update_candidates_ok [OF assms(2) sched_reach_inv [OF assms(1)]]
  show ?thesis
  proof (intro conjI ballI impI)
    fix t assume "t \<in> set ts" "ev_kind t = ''review_job_queued''"
    with ok have "queues sc sc' source after t" by blast
    then obtain job trigger where "t = queued_event job trigger" "dget (sd_jobs sc') (rj_id job) = Some job"
      "rj_snapshot job = source" "set (rj_signals job) \<inter> sd_seen sc = {}"
      "set (rj_signals job) \<subseteq> sd_seen sc'" "\<not> target_lost job after" "\<not> target_lost job source"
      "\<not> terminal_answer_matches after (rj_turn job)" unfolding queues_def by blast
    then show "\<exists>job trigger. t = queued_event job trigger \<and> get_job sc' (rj_id job) = Some job
          \<and> rj_snapshot job = source
          \<and> set (rj_signals job) \<inter> sd_seen sc = {} \<and> set (rj_signals job) \<subseteq> sd_seen sc'
          \<and> ts_active_turn source = Some (rj_turn job) \<and> ts_active_turn after = Some (rj_turn job)
          \<and> thread_id_of after = rj_thread job \<and> ts_epoch after = rj_epoch job
          \<and> \<not> terminal_answer_matches after (rj_turn job)"
      by (intro exI [of _ job] exI [of _ trigger]) (simp add: get_job_def target_lost_def)
  qed (use ok in blast)
qed

text \<open>Following a thread is exact: an event that neither is a candidate nor names a job closes
  precisely the jobs whose answer has just settled or whose target has changed, in order, and
  keeps every other; a closed job is reported stale if its inference had started and
  discarded otherwise.\<close>

theorem following_discards_exactly:
  assumes "sched_reach sc" and "ev_kind e \<noteq> ''signal_candidate''"
    and "as_str (get (ev_payload e) ''review_job_id'') = None"
  shows "\<exists>sc'. scheduler_update sc e before after = (sc', Inr (List.map_filter
      (\<lambda>j. map_option (\<lambda>reason. if rj_id j \<in> sd_started sc then stale_event j e reason
         else discarded_event j e reason) (discard_reason e before after j)) (pending_jobs sc)))
    \<and> pending_jobs sc' = filter (\<lambda>j. discard_reason e before after j = None) (pending_jobs sc)"
proof -
  obtain sc1 ts1 where f: "follow_target e before after (pending_jobs sc) sc = (sc1, ts1)" by fastforce
  note f1 = follow_target_ok [OF f sched_reach_inv [OF assms(1)]]
  have "scheduler_update sc e before after = (sc1, Inr ts1)"
    using assms(2,3) f by (simp add: scheduler_update_def scheduler_follow_def)
  moreover have "closing_event sc e j = (\<lambda>reason. if rj_id j \<in> sd_started sc then stale_event j e reason
         else discarded_event j e reason)" for j
    by (intro ext) (simp add: closing_event_def)
  ultimately show ?thesis using f1(3,4) by simp
qed

section \<open>Hydration\<close>

text \<open>A state the replayed events went through.\<close>

definition was_state :: "trace_event list \<Rightarrow> thread_state \<Rightarrow> bool" where
  "was_state past s \<longleftrightarrow> (\<exists>n st. replay_events empty_store (take n past) = (st, Inr ())
     \<and> snapshot st (thread_id_of s) = Inr s)"

lemma was_state_later: "was_state past s \<Longrightarrow> was_state (past @ rest) s"
proof -
  assume "was_state past s"
  then obtain n st where *: "replay_events empty_store (take n past) = (st, Inr ())"
    "snapshot st (thread_id_of s) = Inr s" unfolding was_state_def by blast
  have "take n past = take (min n (length past)) (past @ rest)" by (simp add: min_def)
  with * show "was_state (past @ rest) s" unfolding was_state_def by metis
qed

definition hydration_ok :: "trace_event list \<Rightarrow> hydration \<Rightarrow> bool" where
  "hydration_ok past h \<longleftrightarrow> replay_events empty_store past = (hy_store h, Inr ())
     \<and> sched_inv (hy_scheduler h)
     \<and> (\<forall>k s. dget (hy_snapshots h) k = Some s \<longrightarrow> was_state past s)
     \<and> (\<forall>j \<in> set (pending_jobs (hy_scheduler h)). was_state past (rj_snapshot j))"

lemma hydration_ok_start: "hydration_ok [] start_hydration"
  by (simp add: hydration_ok_def start_hydration_def sched_inv_empty)
    (simp add: pending_jobs_def empty_scheduler_def dvalues_def)

lemma flush_ok:
  assumes "flush_candidates h = (h', Inr ())" and ok: "hydration_ok past h"
  shows "hydration_ok past h'"
proof (cases "hy_group h = [] \<or> hy_key h = None")
  case True
  with assms show ?thesis by (auto simp: flush_candidates_def split: list.splits option.splits)
next
  case False
  then obtain e es key where g: "hy_group h = e # es" "hy_key h = Some key" by (cases "hy_group h") auto
  obtain source where s: "dget (hy_snapshots h) key = Some source"
    using assms(1) g by (auto simp: flush_candidates_def split: option.splits)
  obtain after where a: "snapshot (hy_store h) (fst key) = Inr after"
    using assms(1) g s by (cases "snapshot (hy_store h) (fst key)") (auto simp: flush_candidates_def)
  obtain sc r where u: "update_candidates (hy_scheduler h) (hy_group h) source after = (sc, r)" by fastforce
  have h': "hy_scheduler h' = sc" "hy_store h' = hy_store h" "hy_snapshots h' = hy_snapshots h"
    using assms(1) g s a u by (cases r; auto simp: flush_candidates_def)+
  have inv: "sched_inv (hy_scheduler h)" using ok by (simp add: hydration_ok_def)
  note u' = update_candidates_ok [OF u inv]
  have "was_state past (rj_snapshot j)" if "j \<in> set (pending_jobs sc)" for j
  proof -
    have "j \<in> set (pending_jobs (hy_scheduler h)) \<or> rj_snapshot j = source"
      using that u' pending_get [OF inv] pending_get [of sc j] by blast
    moreover have "was_state past source" using ok s unfolding hydration_ok_def by blast
    moreover have "\<forall>j \<in> set (pending_jobs (hy_scheduler h)). was_state past (rj_snapshot j)"
      using ok unfolding hydration_ok_def by blast
    ultimately show ?thesis by metis
  qed
  with ok u' h' show ?thesis by (simp add: hydration_ok_def)
qed

lemma replay_snoc:
  "replay_events st es = (st1, Inr ()) \<Longrightarrow> observe st1 e = (st2, Inr s) \<Longrightarrow> replay_events st (es @ [e]) = (st2, Inr ())"
  by (induction st es rule: replay_events.induct) (auto split: prod.splits sum.splits)

lemma hydrate_event_ok:
  assumes run: "hydrate_event h tid e = (h', Inr ())" and ok: "hydration_ok past h"
  shows "hydration_ok (past @ [e]) h'"
proof -
  obtain st after where ob: "observe (hy_store h) e = (st, Inr after)"
    using run by (cases "observe (hy_store h) e"; cases "snd (observe (hy_store h) e)")
      (auto simp: hydrate_event_def Let_def)
  define h1 where "h1 = h\<lparr>hy_store := st,
                hy_snapshots := dset (tid, int (ts_version after)) after (hy_snapshots h),
                hy_missing := (case ev_id e of Some i \<Rightarrow> dpop i (hy_missing h) | None \<Rightarrow> hy_missing h)\<rparr>"
  have rep: "replay_events empty_store past = (hy_store h, Inr ())" using ok by (simp add: hydration_ok_def)
  then have "store_inv (hy_store h)" by (rule replay_inv [OF store_inv_empty])
  then have read: "snapshot st (thread_id_of after) = Inr after" by (rule store_api.observed_read [OF _ ob])
  have rep': "replay_events empty_store (past @ [e]) = (st, Inr ())" by (rule replay_snoc [OF rep ob])
  have now: "was_state (past @ [e]) after"
    unfolding was_state_def using rep' read by (intro exI [of _ "length past + 1"] exI [of _ st]) simp
  have h1: "hydration_ok (past @ [e]) h1"
    using ok now rep' was_state_later by (auto simp: hydration_ok_def h1_def split: if_splits)
  have eq: "hydrate_event h tid e = (if ev_kind e = ''signal_candidate'' then
               (case next_key tid e of
                  None \<Rightarrow> (h1, Inl (ReviewSchedulingError ''signal candidate has no integer state_version''))
                | Some key \<Rightarrow> (h1\<lparr>hy_key := Some key, hy_group := hy_group h1 @ [e]\<rparr>, Inr ()))
             else if ev_kind e = ''signal_candidate_suppressed'' then (h1, Inr ())
             else (case scheduler_update (hy_scheduler h1) e
                 (case snapshot (hy_store h) tid of Inr s \<Rightarrow> Some s | Inl _ \<Rightarrow> None) after of
                 (sc, Inl err) \<Rightarrow> (h1\<lparr>hy_scheduler := sc\<rparr>, Inl err)
               | (sc, Inr ts) \<Rightarrow>
                   (h1\<lparr>hy_scheduler := sc, hy_missing := foldl note_missing (hy_missing h1) ts\<rparr>, Inr ())))"
    unfolding hydrate_event_def Let_def ob prod.case sum.case h1_def [symmetric] by simp
  show ?thesis
  proof (cases "ev_kind e = ''signal_candidate'' \<or> ev_kind e = ''signal_candidate_suppressed''")
    case True
    with run eq h1 show ?thesis
      by (auto simp: hydration_ok_def split: option.splits)
  next
    case False
    obtain sc r where u: "scheduler_update (hy_scheduler h1) e
        (case snapshot (hy_store h) tid of Inr s \<Rightarrow> Some s | Inl _ \<Rightarrow> None) after = (sc, r)" by fastforce
    have inv: "sched_inv (hy_scheduler h1)" using h1 by (simp add: hydration_ok_def)
    from scheduler_update_ok [OF u inv] False
    have "sched_inv sc" "set (pending_jobs sc) \<subseteq> set (pending_jobs (hy_scheduler h1))" by blast+
    moreover have "hy_scheduler h' = sc \<and> hy_store h' = hy_store h1 \<and> hy_snapshots h' = hy_snapshots h1"
      using run eq False u by (cases r) auto
    ultimately show ?thesis using h1 by (auto simp: hydration_ok_def)
  qed
qed

definition routed :: "trace_event list \<Rightarrow> trace_event list" where
  "routed es = filter (\<lambda>e. event_thread e \<noteq> None) es"

lemma hydrate_loop_ok:
  "hydrate_loop h es = (h', Inr ()) \<Longrightarrow> hydration_ok past h \<Longrightarrow> hydration_ok (past @ routed es) h'"
proof (induction es arbitrary: h past)
  case Nil
  then show ?case by (simp add: flush_ok routed_def)
next
  case (Cons e es)
  show ?case
  proof (cases "event_thread e")
    case None
    with Cons show ?thesis by (simp add: hydrate_record_def routed_def)
  next
    case (Some tid)
    obtain h1 where r: "hydrate_record h e = (h1, Inr ())" and rest: "hydrate_loop h1 es = (h', Inr ())"
      using Cons.prems(1) by (auto split: prod.splits sum.splits)
    obtain h0 where "hydration_ok past h0" "hydrate_event h0 tid e = (h1, Inr ())"
      using r Some Cons.prems(2) flush_ok
      by (auto simp: hydrate_record_def split: if_splits prod.splits sum.splits)
    from hydrate_event_ok [OF this(2,1)] have "hydration_ok (past @ [e]) h1" .
    from Cons.IH [OF rest this] Some show ?thesis by (simp add: routed_def)
  qed
qed

text \<open>Hydration is faithful to the log: every job it rebuilds carries a snapshot the replayed
  history really went through, of the job's thread and version.\<close>

theorem hydrated_jobs_replayed:
  assumes "hydrate_scheduler records = (sc, Inr missing)" and "job \<in> set (pending_jobs sc)"
  shows "\<exists>n st. replay_events empty_store (take n (filter (\<lambda>e. event_thread e \<noteq> None) (map sr_event records))) = (st, Inr ())
    \<and> snapshot st (rj_thread job) = Inr (rj_snapshot job)
    \<and> int (ts_version (rj_snapshot job)) = rj_version job"
proof -
  from assms(1) obtain h where run: "hydrate_loop start_hydration (map sr_event records) = (h, Inr ())"
    and sc: "sc = hy_scheduler h"
    by (auto simp: hydrate_scheduler_def split: prod.splits)
  from hydrate_loop_ok [OF run hydration_ok_start]
  have ok: "hydration_ok (routed (map sr_event records)) h" by simp
  then have "was_state (routed (map sr_event records)) (rj_snapshot job)" and inv: "sched_inv sc"
    using assms(2) sc by (auto simp: hydration_ok_def)
  moreover have "job_wf job"
    using assms(2) pending_get [OF inv] sched_invD(2) [OF inv] by blast
  ultimately show ?thesis by (simp add: was_state_def routed_def job_wf_def)
qed

end
