(* ===== verification/Scheduler_Samples.thy ===== *)
theory Scheduler_Samples
  imports Scheduler_Claims
begin

text \<open>
  A concrete scheduler run and the witnesses of the reviewer-input and scheduler properties:
  a turn starts, an active signal candidate is queued for it, the end of the turn discards
  the job.
\<close>

section \<open>The sample run\<close>

definition signal_payload :: payload where
  "signal_payload = [(''signal_id'', PStr ''s''), (''signal_type'', PStr ''failure_streak''),
     (''status'', PStr ''active''), (''thread_id'', PStr ''t''), (''turn_id'', PStr ''u''),
     (''state_version'', PInt 1), (''severity_hint'', PInt 2),
     (''evidence_event_ids'', PList [PStr ''e1''])]"

definition turn_begins :: trace_event where
  "turn_begins = sample_event ''turn_started'' [] ''e0''"

definition signal_event :: trace_event where
  "signal_event = sample_event ''signal_candidate'' signal_payload ''c1''"

definition turn_ends :: trace_event where
  "turn_ends = sample_event ''turn_completed'' [] ''e9''"

definition live_state :: thread_state where
  "live_state = (initial_state (sample_identity ''t''))\<lparr>ts_version := 1, ts_active_turn := Some (TurnId ''u'')\<rparr>"

definition idle_state :: thread_state where
  "idle_state = live_state\<lparr>ts_version := 3, ts_active_turn := None\<rparr>"

definition sample_input :: reviewer_input where
  "sample_input = (case build_reviewer_input signal_payload live_state of Inr r \<Rightarrow> r)"

definition sample_job :: reviewer_job where
  "sample_job = \<lparr>rj_id = sha256_hex ''s:c1'', rj_signal = ''s'', rj_type = ''failure_streak'',
     rj_thread = ThreadId ''t'', rj_turn = TurnId ''u'', rj_epoch = None, rj_version = 1,
     rj_candidate = ''c1'', rj_created = None, rj_snapshot = live_state, rj_input = sample_input,
     rj_signals = [''s''], rj_types = [''failure_streak''], rj_candidates = [''c1'']\<rparr>"

definition queued_scheduler :: scheduler where
  "queued_scheduler = queue_job (empty_scheduler\<lparr>sd_seen := {''s''}\<rparr>) sample_job"

lemma signal_facts:
  "ev_kind signal_event = ''signal_candidate''" "ev_payload signal_event = signal_payload"
  "ev_id signal_event = Some ''c1''" "ev_identity signal_event = Some (sample_identity ''t'')"
  "ev_at signal_event = None"
  by (simp_all add: signal_event_def sample_event_def plain_event_def)

lemma sample_turn [simp]: "ri_thread (sample_identity t) = Some (ThreadId t)"
  "ri_turn (sample_identity t) = Some (TurnId ''u'')"
  by (simp_all add: sample_identity_def)

lemma live_facts:
  "thread_id_of live_state = ThreadId ''t''" "ts_version live_state = 1" "ts_epoch live_state = None"
  "ts_active_turn live_state = Some (TurnId ''u'')" "ts_identity live_state = sample_identity ''t''"
  "ex_answer (ts_execution live_state) = None"
  by (simp_all add: live_state_def initial_state_def thread_id_of_def)

lemma sample_build: "build_reviewer_input signal_payload live_state = Inr sample_input"
proof -
  have "\<not> isl (build_reviewer_input signal_payload live_state)" by code_simp
  then show ?thesis by (auto simp: sample_input_def split: sum.split)
qed

lemma sample_target:
  "job_target [signal_event] live_state = Inr (ThreadId ''t'', TurnId ''u'', 1, None)"
  by (simp add: job_target_def signal_facts live_facts same_target_def signal_payload_def get_def
      dict_eval str_eq_def num_eq_def epoch_eq_def)

lemma sample_make: "make_job [signal_event] live_state = Inr sample_job"
proof -
  have "required_fields ''signal_id'' [signal_event] = Inr [''s'']"
    "required_fields ''signal_type'' [signal_event] = Inr [''failure_streak'']"
    by (simp_all add: required_field_def signal_facts signal_payload_def get_def dict_eval)
  moreover have "merge_candidate_payload [signal_event] [''s''] [''failure_streak''] = signal_payload"
    by (simp add: merge_candidate_payload_def signal_facts)
  moreover have "List.map_filter ev_id [signal_event] = [''c1'']"
    by (simp add: List.map_filter_simps signal_facts)
  ultimately show ?thesis
    unfolding make_job_def
    by (simp add: sample_target sample_build sample_job_def signal_facts)
qed

lemma sample_queues:
  "update_candidates empty_scheduler [signal_event] live_state live_state
     = (queued_scheduler, Inr [queued_event sample_job signal_event])"
proof -
  have "sort_candidates empty_scheduler [] [] [signal_event] = (empty_scheduler, Inr ([], [signal_event]))"
    by (simp add: signal_facts required_field_def signal_payload_def get_def dict_eval empty_scheduler_def)
  moreover have "schedule_active empty_scheduler [signal_event] live_state live_state
      = (queued_scheduler, Inr (queued_event sample_job signal_event))"
    by (simp add: schedule_active_def sample_make Let_def live_facts sample_job_def queued_scheduler_def
        terminal_answer_matches_def target_lost_def empty_scheduler_def)
  ultimately show ?thesis by (simp add: update_candidates_def)
qed

lemma sample_queued_reach: "sched_reach queued_scheduler"
  by (rule sched_reach.group [OF sched_reach.empty sample_queues])

lemma sample_pending: "pending_jobs queued_scheduler = [sample_job]"
  by (simp add: queued_scheduler_def queue_job_def pending_jobs_def empty_scheduler_def dict_eval)

lemma sample_started: "sd_started queued_scheduler = {}"
  by (simp add: queued_scheduler_def queue_job_def empty_scheduler_def)

section \<open>Witnesses\<close>

theorem reviewer_input_bounded_witness:
  "length (rv_evidence sample_input) \<le> max_candidate_items"
proof -
  have "(''evidence_event_ids'', max_candidate_items,
      strs (get signal_payload ''evidence_event_ids''), rv_evidence) \<in> set (input_sources signal_payload live_state)"
    by (simp add: input_sources_def)
  from reviewer_input_bounded [OF sample_build this] show ?thesis by simp
qed

theorem pending_jobs_bound_witness:
  "get_job queued_scheduler (rj_id sample_job) = Some sample_job"
  using pending_jobs_bound [OF sample_queued_reach, of sample_job] by (simp add: sample_pending)

theorem signal_scheduled_once_witness:
  "\<exists>job. get_job queued_scheduler (rj_id job) = Some job \<and> rj_snapshot job = live_state
     \<and> set (rj_signals job) \<subseteq> sd_seen queued_scheduler"
proof -
  have "ev_kind (queued_event sample_job signal_event) = ''review_job_queued''"
    by (simp add: queued_event_def scheduler_event_def)
  with signal_scheduled_once [OF sched_reach.empty sample_queues] show ?thesis by auto
qed

lemma turn_ends_facts: "ev_kind turn_ends = ''turn_completed''"
    "as_str (get (ev_payload turn_ends) ''review_job_id'') = None"
  by (simp_all add: turn_ends_def sample_event_def plain_event_def get_def dict_eval as_str_def)

theorem following_discards_exactly_witness:
  "\<exists>sc. scheduler_update queued_scheduler turn_ends (Some live_state) idle_state
      = (sc, Inr [discarded_event sample_job turn_ends ''target_changed'']) \<and> pending_jobs sc = []"
proof -
  have reason: "discard_reason turn_ends (Some live_state) idle_state sample_job = Some ''target_changed''"
    by (simp add: discard_reason_def turn_ends_facts closing_kinds_def sample_job_def idle_state_def
        live_facts thread_id_of_def terminal_answer_matches_def)
  have "ev_kind turn_ends \<noteq> ''signal_candidate''" by (simp add: turn_ends_facts)
  from following_discards_exactly [OF sample_queued_reach this turn_ends_facts(2), of "Some live_state" idle_state]
  show ?thesis
    by (simp add: sample_pending sample_started reason List.map_filter_simps)
qed

text \<open>While the turn goes on, the job stays: the target of every pending job is live.\<close>

definition plan_noted :: trace_event where
  "plan_noted = sample_event ''plan'' [] ''e5''"

theorem pending_targets_live_witness:
  "\<exists>sc. scheduler_update queued_scheduler plan_noted (Some live_state) live_state = (sc, Inr [])
     \<and> pending_jobs sc = [sample_job] \<and> ts_active_turn live_state = Some (rj_turn sample_job)"
proof -
  have kind: "ev_kind plan_noted = ''plan''" and none: "get (ev_payload plan_noted) ''review_job_id'' = PNone"
    by (simp_all add: plan_noted_def sample_event_def plain_event_def get_def dict_eval)
  have "discard_reason plan_noted (Some live_state) live_state sample_job = None"
    by (simp add: discard_reason_def kind closing_kinds_def sample_job_def live_facts terminal_answer_matches_def)
  then have run: "scheduler_update queued_scheduler plan_noted (Some live_state) live_state = (queued_scheduler, Inr [])"
    by (simp add: scheduler_update_def none scheduler_follow_def sample_pending kind as_str_def)
  have "ev_kind plan_noted \<notin> decision_kinds" by (simp add: kind decision_kinds_def)
  from pending_targets_live [OF sample_queued_reach run this, of sample_job]
  have "ts_active_turn live_state = Some (rj_turn sample_job)"
    by (simp add: sample_pending live_facts sample_job_def)
  with run sample_pending show ?thesis by blast
qed

section \<open>Hydration\<close>

definition hydrated_records :: "step_record list" where
  "hydrated_records = map (\<lambda>e. \<lparr>sr_step = 1, sr_event = e, sr_snapshot = None, sr_at = None,
     sr_version = 1\<rparr>) [turn_begins, signal_event]"

lemma sample_rebuild: "case hydrate_scheduler hydrated_records of
    (sc, r) \<Rightarrow> \<not> isl r \<and> length (pending_jobs sc) = 1"
  by code_simp

theorem hydrated_jobs_replayed_witness:
  "\<exists>job \<in> set (pending_jobs (fst (hydrate_scheduler hydrated_records))).
     \<exists>n st. replay_events empty_store (take n [turn_begins, signal_event]) = (st, Inr ())
       \<and> snapshot st (rj_thread job) = Inr (rj_snapshot job)"
proof -
  obtain sc missing where h: "hydrate_scheduler hydrated_records = (sc, Inr missing)"
    using sample_rebuild by (cases "hydrate_scheduler hydrated_records"; cases "snd (hydrate_scheduler hydrated_records)") auto
  with sample_rebuild obtain job where job: "job \<in> set (pending_jobs sc)"
    by (cases "pending_jobs sc") auto
  have "filter (\<lambda>e. event_thread e \<noteq> None) (map sr_event hydrated_records) = [turn_begins, signal_event]"
    by (simp add: hydrated_records_def turn_begins_def signal_event_def sample_event_def event_thread_def)
  with hydrated_jobs_replayed [OF h job] h job show ?thesis by (intro bexI [of _ job]) auto
qed

end
