(* ===== verification/Calendar.thy ===== *)
theory Calendar
  imports Py_Value
begin

text \<open>
  \<open>time.strftime("%Y-%m-%d", time.gmtime(t))\<close>: the proleptic Gregorian date of a time stamp,
  checked on dates around the leap days. Years are written as C's \<open>strftime\<close> does on the
  supported platforms, without padding.
\<close>

section \<open>Dates\<close>

text \<open>Days since 1970-01-01, counted in eras of 400 years that start on the first of March.\<close>

definition era_of :: "int \<Rightarrow> int" where
  "era_of days = (days + 719468) div 146097"

definition day_of_era :: "int \<Rightarrow> int" where
  "day_of_era days = (days + 719468) mod 146097"

definition year_of_era :: "int \<Rightarrow> int" where
  "year_of_era doe = (doe - doe div 1460 + doe div 36524 - doe div 146096) div 365"

definition day_of_year :: "int \<Rightarrow> int" where
  "day_of_year doe = (let yoe = year_of_era doe in doe - (365 * yoe + yoe div 4 - yoe div 100))"

definition civil :: "int \<Rightarrow> int \<times> int \<times> int" where
  "civil days =
     (let doe = day_of_era days; doy = day_of_year doe;
          mp = (5 * doy + 2) div 153;
          d = doy - (153 * mp + 2) div 5 + 1;
          m = (if mp < 10 then mp + 3 else mp - 9);
          y = year_of_era doe + 400 * era_of days
      in (if m \<le> 2 then y + 1 else y, m, d))"

definition two_digits :: "int \<Rightarrow> string" where
  "two_digits n = [digit_char (n div 10), digit_char (n mod 10)]"

definition date_text :: "int \<Rightarrow> string" where
  "date_text days = (case civil days of (y, m, d) \<Rightarrow>
     dec_int y @ ''-'' @ two_digits m @ ''-'' @ two_digits d)"

text \<open>
  \<open>time.gmtime\<close> floors a double; NaN raises \<open>ValueError\<close>, and a time outside 64 bits of
  seconds, or whose year does not fit 32 bits, \<open>OverflowError\<close>.
\<close>

definition gmtime_days :: "float64 \<Rightarrow> int result" where
  "gmtime_days t = (case t of
     Fin a \<Rightarrow>
       let days = \<lfloor>a\<rfloor> div 86400 in
       if - (2 ^ 63) \<le> \<lfloor>a\<rfloor> \<and> \<lfloor>a\<rfloor> < 2 ^ 63
          \<and> - (2 ^ 31) \<le> fst (civil days) - 1900 \<and> fst (civil days) - 1900 < 2 ^ 31
       then Inr days else Inl OverflowError
   | NaN \<Rightarrow> Inl (ValueError ''Invalid value NaN (not a number)'')
   | _ \<Rightarrow> Inl OverflowError)"

definition utc_date :: "float64 \<Rightarrow> string result" where
  "utc_date t = rbind (gmtime_days t) (\<lambda>days. Inr (date_text days))"

section \<open>Known dates\<close>

lemma known_dates:
  "date_text 0 = ''1970-01-01''" "date_text (- 1) = ''1969-12-31''" "date_text 11016 = ''2000-02-29''"
  "date_text 19782 = ''2024-02-29''" "date_text 19783 = ''2024-03-01''" "date_text 47540 = ''2100-02-28''"
  "date_text 47541 = ''2100-03-01''"
  by code_simp+

end
