(* ===== verification/Budget.thy ===== *)
theory Budget
  imports Calendar
begin

text \<open>
  Model of \<open>src/spotter/budget.py\<close>: the review-spend ledger. The ledger is one JSON file all
  processes share under a lock, so every operation is a step from one file content to the
  next. The clock, \<open>uuid4().hex\<close> and what reading the file gives are arguments.
\<close>

section \<open>The ledger file and the clock\<close>

definition ledger_schema :: string where
  "ledger_schema = ''spotter.review_spend''"

definition ledger_version :: int where
  "ledger_version = 1"

definition slot_ttl :: int where
  "slot_ttl = 3600"

text \<open>
  What \<open>path.exists()\<close>, \<open>path.read_text()\<close> and \<open>json.loads\<close> make of the file: nothing there, an
  \<open>OSError\<close> or \<open>JSONDecodeError\<close> with its text, a \<open>UnicodeDecodeError\<close> with its text, a value.
\<close>

datatype ledger = Absent | Unreadable string | Undecodable string | Holds pyval

text \<open>The \<open>now\<close> argument and what \<open>time.time()\<close> reads during the operation.\<close>

record clock =
  ck_now :: "float64 option"
  ck_wall :: float64

definition clock_now :: "clock \<Rightarrow> float64" where
  "clock_now ck = (case ck_now ck of Some t \<Rightarrow> t | None \<Rightarrow> ck_wall ck)"

text \<open>\<open>now or time.time()\<close>: a zero \<open>now\<close> reads the wall clock.\<close>

definition now_or_wall :: "clock \<Rightarrow> float64" where
  "now_or_wall ck = (case ck_now ck of Some t \<Rightarrow> if t = Fin 0 then ck_wall ck else t | None \<Rightarrow> ck_wall ck)"

definition today :: "clock \<Rightarrow> string result" where
  "today ck = utc_date (clock_now ck)"

definition sanitize_session :: "string \<Rightarrow> string" where
  "sanitize_session s =
     map (\<lambda>c. if is_alnum c \<or> c = CHR ''_'' \<or> c = CHR ''-'' then c else CHR ''_'')
       (if s = [] then ''unknown'' else s)"

record spend =
  sp_reviews :: int
  sp_day :: int
  sp_tokens :: int

record tally =
  ta_reviews :: int
  ta_tokens :: int

record slot =
  sl_session :: string
  sl_at :: int

type_synonym tallies = "(string, tally) dict"
type_synonym slots = "(string, slot) dict"

section \<open>Reading\<close>

definition int_or_zero :: "pyval \<Rightarrow> int" where
  "int_or_zero v = (case v of PInt i \<Rightarrow> i | _ \<Rightarrow> 0)"

definition ledger_name :: string where
  "ledger_name = ''review-spend.json''"

definition corrupt :: "string \<Rightarrow> payload result" where
  "corrupt m = Inl (LedgerCorrupt (ledger_name @ '' '' @ m))"

definition load :: "ledger \<Rightarrow> payload result" where
  "load f =
     (case f of
        Absent \<Rightarrow> Inr []
      | Unreadable m \<Rightarrow> corrupt (''is unreadable: '' @ m)
      | Undecodable m \<Rightarrow> Inl (ValueError m)
      | Holds v \<Rightarrow>
          (case v of
             PDict data \<Rightarrow>
               let schema = get data ''schema''; version = get data ''schema_version'' in
               if schema = PNone \<and> version = PNone then Inr data
               else if schema \<noteq> PStr ledger_schema
               then corrupt (''has unsupported schema '' @ py_repr schema)
               else (case version of
                   PInt n \<Rightarrow>
                     if n = ledger_version then Inr data
                     else corrupt (''uses '' @ (if n > ledger_version then ''newer'' else ''unsupported'')
                       @ '' schema v'' @ dec_int n @ ''; this build understands v'' @ dec_int ledger_version)
                 | _ \<Rightarrow> corrupt ''has a non-integer schema version'')
           | _ \<Rightarrow> corrupt ''is not an object''))"

text \<open>Whether the ledger's daily count is for the current date.\<close>

definition day_current :: "payload \<Rightarrow> clock \<Rightarrow> bool result" where
  "day_current data ck =
     (case get data ''day'' of
        PDict d \<Rightarrow> rbind (today ck) (\<lambda>t. Inr (get d ''date'' = PStr t))
      | _ \<Rightarrow> Inr False)"

definition day_reviews :: "payload \<Rightarrow> clock \<Rightarrow> int result" where
  "day_reviews data ck = rbind (day_current data ck) (\<lambda>current.
     Inr (case get data ''day'' of
            PDict d \<Rightarrow> if current then int_or_zero (get d ''reviews'') else 0
          | _ \<Rightarrow> 0))"

definition read_entry :: "payload \<Rightarrow> string \<Rightarrow> tally" where
  "read_entry data session =
     (case get data ''sessions'' of
        PDict sessions \<Rightarrow>
          (case get sessions (sanitize_session session) of
             PDict entry \<Rightarrow> \<lparr>ta_reviews = int_or_zero (get entry ''reviews''),
                             ta_tokens = int_or_zero (get entry ''tokens'')\<rparr>
           | _ \<Rightarrow> \<lparr>ta_reviews = 0, ta_tokens = 0\<rparr>)
      | _ \<Rightarrow> \<lparr>ta_reviews = 0, ta_tokens = 0\<rparr>)"

definition read_spend :: "ledger \<Rightarrow> string \<Rightarrow> clock \<Rightarrow> spend result" where
  "read_spend f session ck =
     rbind (load f) (\<lambda>data.
     let entry = read_entry data session in
     rbind (day_reviews data ck) (\<lambda>day.
     Inr \<lparr>sp_reviews = ta_reviews entry, sp_day = day, sp_tokens = ta_tokens entry\<rparr>))"

definition tallies_of :: "payload \<Rightarrow> tallies" where
  "tallies_of data =
     (case get data ''sessions'' of
        PDict raw \<Rightarrow> foldl (\<lambda>d kv. case snd kv of
            PDict v \<Rightarrow> dset (fst kv) \<lparr>ta_reviews = int_or_zero (get v ''reviews''),
                                     ta_tokens = int_or_zero (get v ''tokens'')\<rparr> d
          | _ \<Rightarrow> d) [] raw
      | _ \<Rightarrow> [])"

definition entry_of :: "tallies \<Rightarrow> string \<Rightarrow> tally" where
  "entry_of ts session =
     (case dget ts (sanitize_session session) of Some t \<Rightarrow> t | None \<Rightarrow> \<lparr>ta_reviews = 0, ta_tokens = 0\<rparr>)"

definition project :: "payload \<Rightarrow> string \<Rightarrow> clock \<Rightarrow> (tallies \<times> spend) result" where
  "project data session ck =
     (let ts = tallies_of data; entry = entry_of ts session in
      rbind (day_reviews data ck) (\<lambda>carried.
      Inr (ts, \<lparr>sp_reviews = ta_reviews entry, sp_day = carried, sp_tokens = ta_tokens entry\<rparr>)))"

definition slots_of :: "payload \<Rightarrow> slots" where
  "slots_of data =
     (case get data ''open_slots'' of
        PDict raw \<Rightarrow> foldl (\<lambda>d kv. case snd kv of
            PDict v \<Rightarrow> (case get v ''session'' of
                PStr s \<Rightarrow> dset (fst kv) \<lparr>sl_session = s, sl_at = int_or_zero (get v ''at'')\<rparr> d
              | _ \<Rightarrow> d)
          | _ \<Rightarrow> d) [] raw
      | _ \<Rightarrow> [])"

section \<open>Reclaiming the slots of dead holders\<close>

definition credit :: "string \<Rightarrow> tallies \<Rightarrow> tallies" where
  "credit name ts =
     (case dget ts name of
        Some t \<Rightarrow> dset name (t\<lparr>ta_reviews := max 0 (ta_reviews t - 1)\<rparr>) ts
      | None \<Rightarrow> ts)"

fun reclaim_tokens ::
    "payload \<Rightarrow> clock \<Rightarrow> string list \<Rightarrow> tallies \<Rightarrow> slots \<Rightarrow> (tallies \<times> slots \<times> int) result" where
  "reclaim_tokens data ck [] ts sl = Inr (ts, sl, 0)"
| "reclaim_tokens data ck (token # tokens) ts sl =
     (case dget sl token of
        None \<Rightarrow> Inl KeyError
      | Some slot \<Rightarrow>
          rbind (day_current data ck) (\<lambda>current.
          rbind (reclaim_tokens data ck tokens (credit (sl_session slot) ts) (dpop token sl))
            (\<lambda>(ts', sl', n). Inr (ts', sl', if current then n + 1 else n))))"

definition expired :: "int \<Rightarrow> slots \<Rightarrow> string list" where
  "expired stamp sl = map fst (filter (\<lambda>kv. stamp - sl_at (snd kv) > slot_ttl) sl)"

definition reclaim :: "payload \<Rightarrow> tallies \<Rightarrow> slots \<Rightarrow> clock \<Rightarrow> (tallies \<times> slots \<times> int) result" where
  "reclaim data ts sl ck =
     rbind (int_of_float (clock_now ck)) (\<lambda>stamp. reclaim_tokens data ck (expired stamp sl) ts sl)"

section \<open>Writing\<close>

definition pv_tally :: "tally \<Rightarrow> pyval" where
  "pv_tally t = PDict [(''reviews'', PInt (ta_reviews t)), (''tokens'', PInt (ta_tokens t))]"

definition pv_slot :: "slot \<Rightarrow> pyval" where
  "pv_slot s = PDict [(''session'', PStr (sl_session s)), (''at'', PInt (sl_at s))]"

definition written :: "tallies \<Rightarrow> string \<Rightarrow> int \<Rightarrow> slots \<Rightarrow> payload" where
  "written ts date day_count sl =
     [(''schema'', PStr ledger_schema), (''schema_version'', PInt ledger_version),
      (''sessions'', PDict (map (\<lambda>(k, t). (k, pv_tally t)) ts)),
      (''day'', PDict [(''date'', PStr date), (''reviews'', PInt day_count)])]
     @ (if sl = [] then [] else [(''open_slots'', PDict (map (\<lambda>(k, s). (k, pv_slot s)) sl))])"

text \<open>The replacement is atomic: either the new content is there or an error left the old one.\<close>

definition write_ledger ::
    "tallies \<Rightarrow> string \<Rightarrow> int \<Rightarrow> int \<Rightarrow> int \<Rightarrow> clock \<Rightarrow> slots \<Rightarrow> ledger result" where
  "write_ledger ts session reviews tokens day_count ck sl =
     rbind (today ck) (\<lambda>date.
     Inr (Holds (PDict (written
       (dset (sanitize_session session) \<lparr>ta_reviews = reviews, ta_tokens = tokens\<rparr> ts)
       date day_count sl))))"

section \<open>Operations\<close>

text \<open>An operation that raises has not written.\<close>

definition locked :: "ledger \<Rightarrow> (ledger \<times> 'a) result \<Rightarrow> ledger \<times> 'a result" where
  "locked f r = (case r of Inl err \<Rightarrow> (f, Inl err) | Inr (f', x) \<Rightarrow> (f', Inr x))"

definition cap_reached :: "string \<Rightarrow> int \<Rightarrow> int \<Rightarrow> string option" where
  "cap_reached label cap count =
     (if cap \<noteq> 0 \<and> count \<ge> cap
      then Some (label @ '' cap reached ('' @ dec_int count @ ''/'' @ dec_int cap @ '')'') else None)"

definition caps_reached :: "int \<Rightarrow> int \<Rightarrow> spend \<Rightarrow> string option" where
  "caps_reached per_session per_day s =
     (case cap_reached ''session'' per_session (sp_reviews s) of
        Some m \<Rightarrow> Some m | None \<Rightarrow> cap_reached ''daily'' per_day (sp_day s))"

definition refusal :: "string \<Rightarrow> string" where
  "refusal m = ''ledger unreadable, refusing to spend ('' @ m @ '')''"

text \<open>The spend \<open>reserve\<close> judges: recomputed only when something of today was reclaimed.\<close>

definition after_reclaim :: "string \<Rightarrow> tallies \<Rightarrow> int \<Rightarrow> spend \<Rightarrow> spend" where
  "after_reclaim session ts n s =
     (if n \<noteq> 0
      then \<lparr>sp_reviews = (case dget ts (sanitize_session session) of Some t \<Rightarrow> ta_reviews t | None \<Rightarrow> 0),
            sp_day = max 0 (sp_day s - n), sp_tokens = sp_tokens s\<rparr>
      else s)"

definition reserve_from ::
    "payload \<Rightarrow> ledger \<Rightarrow> string \<Rightarrow> int \<Rightarrow> int \<Rightarrow> clock \<Rightarrow> string \<Rightarrow>
     (ledger \<times> string option \<times> string) result" where
  "reserve_from data f session per_session per_day ck token =
     rbind (project data session ck) (\<lambda>(ts0, s0).
     rbind (reclaim data ts0 (slots_of data) ck) (\<lambda>(ts, sl, n).
     let s = after_reclaim session ts n s0 in
     case caps_reached per_session per_day s of
       Some m \<Rightarrow> Inr (f, None, m)
     | None \<Rightarrow>
         rbind (int_of_float (now_or_wall ck)) (\<lambda>stamp.
         rbind (write_ledger ts session (sp_reviews s + 1) (sp_tokens s) (sp_day s + 1) ck
           (dset token \<lparr>sl_session = sanitize_session session, sl_at = stamp\<rparr> sl)) (\<lambda>f'.
         Inr (f', Some token, [])))))"

definition reserve ::
    "string \<Rightarrow> int \<Rightarrow> int \<Rightarrow> clock \<Rightarrow> string \<Rightarrow> ledger \<Rightarrow> ledger \<times> (string option \<times> string) result" where
  "reserve session per_session per_day ck token f =
     (case load f of
        Inl (LedgerCorrupt m) \<Rightarrow> (f, Inr (None, refusal m))
      | Inl err \<Rightarrow> (f, Inl err)
      | Inr data \<Rightarrow> locked f (reserve_from data f session per_session per_day ck token))"

text \<open>The slot a token opens for a session, the guard \<open>cancel\<close> and \<open>settle\<close> share.\<close>

definition own_slot :: "payload \<Rightarrow> string \<Rightarrow> string \<Rightarrow> bool" where
  "own_slot data session token =
     (case dget (slots_of data) token of
        Some slot \<Rightarrow> sl_session slot = sanitize_session session | None \<Rightarrow> False)"

definition cancel_from :: "payload \<Rightarrow> ledger \<Rightarrow> string \<Rightarrow> string \<Rightarrow> clock \<Rightarrow> (ledger \<times> bool) result" where
  "cancel_from data f session token ck =
     (if \<not> own_slot data session token then Inr (f, False)
      else rbind (project data session ck) (\<lambda>(ts, s).
           rbind (write_ledger ts session (max 0 (sp_reviews s - 1)) (sp_tokens s)
             (max 0 (sp_day s - 1)) ck (dpop token (slots_of data))) (\<lambda>f'. Inr (f', True))))"

definition cancel :: "string \<Rightarrow> string option \<Rightarrow> clock \<Rightarrow> ledger \<Rightarrow> ledger \<times> bool result" where
  "cancel session token ck f =
     (case token of
        None \<Rightarrow> (f, Inr False)
      | Some tok \<Rightarrow>
          if tok = [] then (f, Inr False)
          else (case load f of
              Inl (LedgerCorrupt m) \<Rightarrow> (f, Inr False)
            | Inl err \<Rightarrow> (f, Inl err)
            | Inr data \<Rightarrow> locked f (cancel_from data f session tok ck)))"

definition settle_from ::
    "payload \<Rightarrow> ledger \<Rightarrow> string \<Rightarrow> string \<Rightarrow> int \<Rightarrow> clock \<Rightarrow> (ledger \<times> spend option) result" where
  "settle_from data f session token tokens ck =
     (if \<not> own_slot data session token then Inr (f, None)
      else rbind (project data session ck) (\<lambda>(ts, s).
           rbind (write_ledger ts session (sp_reviews s) (sp_tokens s + max 0 tokens) (sp_day s) ck
             (dpop token (slots_of data))) (\<lambda>f'.
           Inr (f', Some (s\<lparr>sp_tokens := sp_tokens s + max 0 tokens\<rparr>)))))"

definition settle ::
    "string \<Rightarrow> string option \<Rightarrow> int \<Rightarrow> clock \<Rightarrow> ledger \<Rightarrow> ledger \<times> spend option result" where
  "settle session token tokens ck f =
     (case token of
        None \<Rightarrow> (f, Inr None)
      | Some tok \<Rightarrow>
          if tok = [] then (f, Inr None)
          else (case load f of
              Inl (LedgerCorrupt m) \<Rightarrow> (f, Inr None)
            | Inl err \<Rightarrow> (f, Inl err)
            | Inr data \<Rightarrow> locked f (settle_from data f session tok tokens ck)))"

definition charge :: "string \<Rightarrow> int \<Rightarrow> clock \<Rightarrow> ledger \<Rightarrow> ledger \<times> spend result" where
  "charge session tokens ck f =
     locked f (rbind (load f) (\<lambda>data.
       rbind (project data session ck) (\<lambda>(ts, s).
       rbind (write_ledger ts session (sp_reviews s + 1) (sp_tokens s + max 0 tokens) (sp_day s + 1) ck
         (slots_of data)) (\<lambda>f'.
       Inr (f', \<lparr>sp_reviews = sp_reviews s + 1, sp_day = sp_day s + 1,
                 sp_tokens = sp_tokens s + max 0 tokens\<rparr>)))))"

definition exhausted :: "string \<Rightarrow> int \<Rightarrow> int \<Rightarrow> clock \<Rightarrow> ledger \<Rightarrow> string option result" where
  "exhausted session per_session per_day ck f =
     (case read_spend f session ck of
        Inl (LedgerCorrupt m) \<Rightarrow> Inr (Some (refusal m))
      | Inl err \<Rightarrow> Inl err
      | Inr s \<Rightarrow> Inr (caps_reached per_session per_day s))"

definition spend_totals :: "ledger \<Rightarrow> clock \<Rightarrow> (int \<times> int) option result" where
  "spend_totals f ck =
     (if f = Absent then Inr None
      else rbind (load f) (\<lambda>data.
        let tokens = (case get data ''sessions'' of
              PDict sessions \<Rightarrow> sum_list (map (\<lambda>v. case v of
                  PDict d \<Rightarrow> int_or_zero (get d ''tokens'') | _ \<Rightarrow> 0) (dvalues sessions))
            | _ \<Rightarrow> 0)
        in rbind (day_reviews data ck) (\<lambda>day. Inr (Some (day, tokens)))))"

end
