(* ===== verification/Budget_Claims.thy ===== *)
theory Budget_Claims
  imports Budget
begin

text \<open>
  What the spend ledger promises: counters never pass their caps, a token is consumed once,
  other processes' reservations survive, an unreadable ledger is refused. The two contracts
  are locales over any shared book of slots; the ledger's steps are their instance.
\<close>

section \<open>Reading back what was written\<close>

lemma dset_fresh: "k \<notin> set (dkeys d) \<Longrightarrow> dset k v d = d @ [(k, v)]"
  by (rule dset_new) (auto simp: dict.set_keys)

lemma dpop_put: "dget d k = None \<Longrightarrow> dpop k (d @ [(k, v)]) = d"
  by (induction d) (auto simp: dict_eval split: if_splits)

lemma rebuild_append: "distinct (dkeys (acc @ d)) \<Longrightarrow> foldl (\<lambda>m kv. dset (fst kv) (snd kv) m) acc d = acc @ d"
proof (induction d arbitrary: acc)
  case (Cons kv d)
  then have "fst kv \<notin> set (dkeys acc)" by (auto simp: dkeys_def)
  with Cons.IH [of "acc @ [kv]"] Cons.prems show ?case by (simp add: dset_fresh)
qed simp

lemma rebuild: "dict_ok d \<Longrightarrow> foldl (\<lambda>m kv. dset (fst kv) (snd kv) m) [] d = d"
  using rebuild_append [of "[]" d] by (simp add: dict_ok_def dkeys_def)

lemma foldl_map_fst: "foldl f acc (map g d) = foldl (\<lambda>m x. f m (g x)) acc d"
  by (induction d arbitrary: acc) simp_all

lemma written_get:
  "get (written ts date n sl) ''schema'' = PStr ledger_schema"
  "get (written ts date n sl) ''schema_version'' = PInt ledger_version"
  "get (written ts date n sl) ''sessions'' = PDict (map (\<lambda>(k, t). (k, pv_tally t)) ts)"
  "get (written ts date n sl) ''day'' = PDict [(''date'', PStr date), (''reviews'', PInt n)]"
  "get (written ts date n sl) ''open_slots'' =
     (if sl = [] then PNone else PDict (map (\<lambda>(k, s). (k, pv_slot s)) sl))"
  by (simp_all add: written_def get_def dict_eval)

lemma entry_reads:
  "get [(''date'', PStr date), (''reviews'', PInt n)] ''date'' = PStr date"
  "get [(''date'', PStr date), (''reviews'', PInt n)] ''reviews'' = PInt n" "int_or_zero (PInt n) = n"
  by (simp_all add: get_def dict_eval int_or_zero_def)

lemma record_eta: "\<lparr>ta_reviews = ta_reviews b, ta_tokens = ta_tokens b\<rparr> = b"
  "\<lparr>sl_session = sl_session c, sl_at = sl_at c\<rparr> = c"
  by simp_all

lemma load_written: "load (Holds (PDict (written ts date n sl))) = Inr (written ts date n sl)"
  by (simp add: load_def written_get Let_def)

lemma tallies_written: "dict_ok ts \<Longrightarrow> tallies_of (written ts date n sl) = ts"
proof -
  assume ok: "dict_ok ts"
  have "tallies_of (written ts date n sl) = foldl (\<lambda>m kv. dset (fst kv) (snd kv) m) [] ts"
    unfolding tallies_of_def written_get pyval.case foldl_map_fst
    by (rule arg_cong [where f = "\<lambda>f. foldl f [] ts"])
      (auto simp: fun_eq_iff pv_tally_def get_def dict_eval int_or_zero_def record_eta)
  with ok show ?thesis by (simp add: rebuild)
qed

lemma slots_written: "dict_ok sl \<Longrightarrow> slots_of (written ts date n sl) = sl"
proof (cases "sl = []")
  case False
  assume ok: "dict_ok sl"
  have "slots_of (written ts date n sl) = foldl (\<lambda>m kv. dset (fst kv) (snd kv) m) [] sl"
    unfolding slots_of_def written_get if_not_P [OF False] pyval.case foldl_map_fst
    by (rule arg_cong [where f = "\<lambda>f. foldl f [] sl"])
      (auto simp: fun_eq_iff pv_slot_def get_def dict_eval int_or_zero_def record_eta)
  with ok show ?thesis by (simp add: rebuild)
qed (simp add: slots_of_def written_get)

lemma day_written:
  "today ck = Inr t \<Longrightarrow> day_reviews (written ts date n sl) ck = Inr (if t = date then n else 0)"
  by (auto simp: day_reviews_def day_current_def written_get entry_reads)

lemma foldl_dict_ok: "dict_ok acc \<Longrightarrow> (\<And>m x. dict_ok m \<Longrightarrow> dict_ok (f m x)) \<Longrightarrow> dict_ok (foldl f acc xs)"
  by (induction xs arbitrary: acc) auto

lemma tallies_ok: "dict_ok (tallies_of data)"
  unfolding tallies_of_def by (auto split: pyval.split intro!: foldl_dict_ok)

lemma slots_ok: "dict_ok (slots_of data)"
  unfolding slots_of_def by (auto split: pyval.split intro!: foldl_dict_ok)

section \<open>What the ledger shows\<close>

definition tallies_in :: "ledger \<Rightarrow> tallies" where
  "tallies_in f = (case load f of Inr data \<Rightarrow> tallies_of data | Inl _ \<Rightarrow> [])"

definition slots_in :: "ledger \<Rightarrow> slots" where
  "slots_in f = (case load f of Inr data \<Rightarrow> slots_of data | Inl _ \<Rightarrow> [])"

definition reviews_in :: "ledger \<Rightarrow> string \<Rightarrow> int" where
  "reviews_in f session = ta_reviews (entry_of (tallies_in f) session)"

definition day_in :: "ledger \<Rightarrow> clock \<Rightarrow> int" where
  "day_in f ck = (case rbind (load f) (\<lambda>data. day_reviews data ck) of Inr n \<Rightarrow> n | Inl _ \<Rightarrow> 0)"

lemma write_effect:
  assumes "write_ledger ts session r t n ck sl = Inr f'" and "dict_ok ts" and "dict_ok sl"
  shows "tallies_in f' = dset (sanitize_session session) \<lparr>ta_reviews = r, ta_tokens = t\<rparr> ts"
    "slots_in f' = sl" "day_in f' ck = n" "f' \<noteq> Absent"
proof -
  obtain date where d: "today ck = Inr date"
    and f': "f' = Holds (PDict (written (dset (sanitize_session session) \<lparr>ta_reviews = r, ta_tokens = t\<rparr> ts) date n sl))"
    using assms(1) by (auto simp: write_ledger_def)
  show "tallies_in f' = dset (sanitize_session session) \<lparr>ta_reviews = r, ta_tokens = t\<rparr> ts"
    "slots_in f' = sl" "day_in f' ck = n" "f' \<noteq> Absent"
    using assms(2,3) d by (simp_all add: f' tallies_in_def slots_in_def day_in_def load_written
        tallies_written slots_written day_written)
qed

lemma project_eq:
  assumes "project data session ck = Inr (ts, s)"
  shows "ts = tallies_of data" "sp_reviews s = ta_reviews (entry_of ts session)"
    "sp_tokens s = ta_tokens (entry_of ts session)" "day_reviews data ck = Inr (sp_day s)"
  using assms by (auto simp: project_def Let_def)

section \<open>Reclaiming only gives back\<close>

lemma credit_get:
  "dget (credit name ts) k = (if k = name then map_option (\<lambda>t. t\<lparr>ta_reviews := max 0 (ta_reviews t - 1)\<rparr>) (dget ts k)
     else dget ts k)"
  by (auto simp: credit_def split: option.split)

lemma credit_ok: "dict_ok ts \<Longrightarrow> dict_ok (credit name ts)"
  by (simp add: credit_def split: option.split)

definition lowered :: "tallies \<Rightarrow> tallies \<Rightarrow> bool" where
  "lowered ts ts' \<longleftrightarrow> (\<forall>s. ta_reviews (entry_of ts' s) \<le> max 0 (ta_reviews (entry_of ts s))
     \<and> ta_tokens (entry_of ts' s) = ta_tokens (entry_of ts s))"

lemma credit_lowered: "lowered ts (credit name ts)"
  by (auto simp: lowered_def entry_of_def credit_get split: option.split)

lemma lowered_trans: "lowered a b \<Longrightarrow> lowered b c \<Longrightarrow> lowered a c"
  unfolding lowered_def by (smt (verit, best))

lemma reclaim_tokens_effect:
  assumes "reclaim_tokens data ck toks ts sl = Inr (ts', sl', n)" and "dict_ok ts" and "dict_ok sl"
  shows "dict_ok ts' \<and> dict_ok sl' \<and> lowered ts ts' \<and> 0 \<le> n
    \<and> (\<forall>t. dget sl' t = (if t \<in> set toks then None else dget sl t))"
  using assms
proof (induction toks arbitrary: ts sl ts' sl' n)
  case Nil
  then show ?case by (simp add: lowered_def)
next
  case (Cons tok toks)
  obtain slot where slot: "dget sl tok = Some slot" using Cons.prems(1) by (auto split: option.splits)
  obtain current where c: "day_current data ck = Inr current"
    using Cons.prems(1) slot by auto
  obtain n0 where rest: "reclaim_tokens data ck toks (credit (sl_session slot) ts) (dpop tok sl) = Inr (ts', sl', n0)"
    and n: "n = (if current then n0 + 1 else n0)"
    using Cons.prems(1) slot c by (auto split: prod.splits)
  from Cons.IH [OF rest credit_ok [OF Cons.prems(2)]] Cons.prems(3)
  have ih: "dict_ok ts' \<and> dict_ok sl' \<and> lowered (credit (sl_session slot) ts) ts' \<and> 0 \<le> n0
    \<and> (\<forall>t. dget sl' t = (if t \<in> set toks then None else dget (dpop tok sl) t))" by simp
  with lowered_trans [OF credit_lowered] n show ?case by auto
qed

lemma reclaim_effect:
  assumes "reclaim data ts sl ck = Inr (ts', sl', n)" and "dict_ok ts" and "dict_ok sl"
  shows "dict_ok ts'" "dict_ok sl'" "lowered ts ts'" "0 \<le> n" "dget sl' t = Some x \<Longrightarrow> dget sl t = Some x"
proof -
  obtain stamp where "reclaim_tokens data ck (expired stamp sl) ts sl = Inr (ts', sl', n)"
    using assms(1) by (auto simp: reclaim_def)
  note e = reclaim_tokens_effect [OF this assms(2,3)]
  show "dict_ok ts'" "dict_ok sl'" "lowered ts ts'" "0 \<le> n" using e by blast+
  show "dget sl' t = Some x \<Longrightarrow> dget sl t = Some x" using e by (auto split: if_splits)
qed

section \<open>What each operation does\<close>

lemma locked_Inr: "locked f r = (f', Inr x) \<longleftrightarrow> r = Inr (f', x)"
  by (cases r) (auto simp: locked_def split: prod.splits)

lemma locked_Inl: "locked f r = (f', Inl err) \<longleftrightarrow> f' = f \<and> r = Inl err"
  by (cases r) (auto simp: locked_def split: prod.splits)

lemma loaded: "load f = Inr data \<Longrightarrow> tallies_in f = tallies_of data" "load f = Inr data \<Longrightarrow> slots_in f = slots_of data"
  by (simp_all add: tallies_in_def slots_in_def)

lemma caps_reached_None:
  "caps_reached ps pd s = None \<Longrightarrow> (ps \<noteq> 0 \<longrightarrow> sp_reviews s < ps) \<and> (pd \<noteq> 0 \<longrightarrow> sp_day s < pd)"
  by (auto simp: caps_reached_def cap_reached_def split: option.splits if_splits)

lemma reserve_granted:
  assumes "reserve session ps pd ck token f = (f', Inr (Some tok, m))"
  obtains data ts sl n s stamp where "load f = Inr data" and "tok = token" and "m = []"
    and "reclaim data (tallies_in f) (slots_in f) ck = Inr (ts, sl, n)"
    and "dict_ok ts" and "dict_ok sl" and "lowered (tallies_in f) ts"
    and "caps_reached ps pd s = None" and "sp_tokens s = ta_tokens (entry_of (tallies_in f) session)"
    and "sp_reviews s = ta_reviews (entry_of (if n = 0 then tallies_in f else ts) session)"
    and "day_reviews data ck = Inr (sp_day s + n) \<or> n \<noteq> 0"
    and "write_ledger ts session (sp_reviews s + 1) (sp_tokens s) (sp_day s + 1) ck
      (dset token \<lparr>sl_session = sanitize_session session, sl_at = stamp\<rparr> sl) = Inr f'"
proof -
  obtain data where d: "load f = Inr data"
    and run: "reserve_from data f session ps pd ck token = Inr (f', Some tok, m)"
    using assms by (cases "load f") (auto simp: reserve_def locked_Inr split: exc.splits)
  obtain ts0 s0 where p: "project data session ck = Inr (ts0, s0)"
    using run by (auto simp: reserve_from_def)
  obtain ts sl n where r: "reclaim data ts0 (slots_of data) ck = Inr (ts, sl, n)"
    using run by (auto simp: reserve_from_def p)
  define s where "s = after_reclaim session ts n s0"
  have none: "caps_reached ps pd s = None"
    using run unfolding reserve_from_def p s_def by (auto simp: r Let_def split: option.splits)
  note p' = project_eq [OF p]
  note e = reclaim_effect [OF r [unfolded p'(1)] tallies_ok slots_ok]
  obtain stamp where w: "write_ledger ts session (sp_reviews s + 1) (sp_tokens s) (sp_day s + 1) ck
      (dset token \<lparr>sl_session = sanitize_session session, sl_at = stamp\<rparr> sl) = Inr f'"
    and eq: "tok = token" "m = []"
    using run none unfolding reserve_from_def p by (auto simp: r Let_def s_def [symmetric])
  show thesis
    by (rule that [OF d eq _ e(1,2) _ none _ _ _ w])
      (use r p' e(3) in \<open>auto simp: loaded [OF d] s_def after_reclaim_def entry_of_def split: option.split\<close>)
qed

lemma reserve_refused:
  assumes "reserve session ps pd ck token f = (f', r)" and "\<And>tok m. r \<noteq> Inr (Some tok, m)"
  shows "f' = f"
proof (cases r)
  case (Inl err)
  with assms(1) show ?thesis by (auto simp: reserve_def locked_Inl split: sum.splits exc.splits)
next
  case (Inr x)
  obtain tok m where x: "x = (tok, m)" by fastforce
  with assms(2) Inr have "tok = None" by (cases tok) auto
  with assms(1) Inr x show ?thesis
    by (auto simp: reserve_def locked_Inr reserve_from_def Let_def split: sum.splits exc.splits option.splits)
qed

lemma cancel_granted:
  assumes "cancel session token ck f = (f', Inr True)"
  obtains tok data s where "token = Some tok" and "load f = Inr data" and "own_slot data session tok"
    and "project data session ck = Inr (tallies_of data, s)"
    and "write_ledger (tallies_of data) session (max 0 (sp_reviews s - 1)) (sp_tokens s)
      (max 0 (sp_day s - 1)) ck (dpop tok (slots_of data)) = Inr f'"
proof -
  obtain tok where t: "token = Some tok" "tok \<noteq> []"
    using assms by (cases token) (auto simp: cancel_def split: if_splits)
  obtain data where d: "load f = Inr data" and run: "cancel_from data f session tok ck = Inr (f', True)"
    using assms t by (cases "load f") (auto simp: cancel_def locked_Inr split: exc.splits)
  have own: "own_slot data session tok" using run by (auto simp: cancel_from_def split: if_splits)
  obtain ts s where p: "project data session ck = Inr (ts, s)"
    using run own by (auto simp: cancel_from_def)
  have w: "write_ledger (tallies_of data) session (max 0 (sp_reviews s - 1)) (sp_tokens s)
      (max 0 (sp_day s - 1)) ck (dpop tok (slots_of data)) = Inr f'"
    using run own p project_eq(1) [OF p] by (auto simp: cancel_from_def)
  show thesis by (rule that [OF t(1) d own p [unfolded project_eq(1) [OF p]] w])
qed

lemma cancel_refused:
  "cancel session token ck f = (f', r) \<Longrightarrow> r \<noteq> Inr True \<Longrightarrow> f' = f"
  by (cases r) (auto simp: cancel_def locked_Inl locked_Inr cancel_from_def
      split: option.splits sum.splits exc.splits if_splits)

lemma settle_granted:
  assumes "settle session token tokens ck f = (f', Inr (Some cost))"
  obtains tok data s where "token = Some tok" and "load f = Inr data" and "own_slot data session tok"
    and "project data session ck = Inr (tallies_of data, s)" and "cost = s\<lparr>sp_tokens := sp_tokens s + max 0 tokens\<rparr>"
    and "write_ledger (tallies_of data) session (sp_reviews s) (sp_tokens s + max 0 tokens) (sp_day s) ck
      (dpop tok (slots_of data)) = Inr f'"
proof -
  obtain tok where t: "token = Some tok" "tok \<noteq> []"
    using assms by (cases token) (auto simp: settle_def split: if_splits)
  obtain data where d: "load f = Inr data" and run: "settle_from data f session tok tokens ck = Inr (f', Some cost)"
    using assms t by (cases "load f") (auto simp: settle_def locked_Inr split: exc.splits)
  have own: "own_slot data session tok" using run by (auto simp: settle_from_def split: if_splits)
  obtain ts s where p: "project data session ck = Inr (ts, s)"
    using run own by (auto simp: settle_from_def)
  have w: "write_ledger (tallies_of data) session (sp_reviews s) (sp_tokens s + max 0 tokens) (sp_day s) ck
      (dpop tok (slots_of data)) = Inr f'" and c: "cost = s\<lparr>sp_tokens := sp_tokens s + max 0 tokens\<rparr>"
    using run own p project_eq(1) [OF p] by (auto simp: settle_from_def)
  show thesis by (rule that [OF t(1) d own p [unfolded project_eq(1) [OF p]] c w])
qed

lemma settle_refused:
  "settle session token tokens ck f = (f', r) \<Longrightarrow> (\<And>c. r \<noteq> Inr (Some c)) \<Longrightarrow> f' = f"
  by (cases r) (auto simp: settle_def locked_Inl locked_Inr settle_from_def
      split: option.splits sum.splits exc.splits if_splits)

lemma charge_granted:
  assumes "charge session tokens ck f = (f', Inr cost)"
  obtains data s where "load f = Inr data" and "project data session ck = Inr (tallies_of data, s)"
    and "write_ledger (tallies_of data) session (sp_reviews s + 1) (sp_tokens s + max 0 tokens)
      (sp_day s + 1) ck (slots_of data) = Inr f'"
    and "cost = \<lparr>sp_reviews = sp_reviews s + 1, sp_day = sp_day s + 1, sp_tokens = sp_tokens s + max 0 tokens\<rparr>"
proof -
  obtain data where d: "load f = Inr data" using assms by (auto simp: charge_def locked_Inr)
  obtain ts s where p: "project data session ck = Inr (ts, s)"
    using assms d by (auto simp: charge_def locked_Inr)
  show thesis
    by (rule that [OF d p [unfolded project_eq(1) [OF p]]])
      (use assms d p project_eq(1) [OF p] in \<open>auto simp: charge_def locked_Inr\<close>)
qed

section \<open>Steps of concurrent processes\<close>

text \<open>
  The lock makes every operation one step; the processes sharing the ledger are an arbitrary
  sequence of such steps.
\<close>

datatype ledger_op =
    Reserve string int int clock string
  | Cancel string "string option" clock
  | Settle string "string option" int clock
  | Charge string int clock

fun ledger_step :: "ledger \<Rightarrow> ledger_op \<Rightarrow> ledger" where
  "ledger_step f (Reserve session ps pd ck token) = fst (reserve session ps pd ck token f)"
| "ledger_step f (Cancel session token ck) = fst (cancel session token ck f)"
| "ledger_step f (Settle session token tokens ck) = fst (settle session token tokens ck f)"
| "ledger_step f (Charge session tokens ck) = fst (charge session tokens ck f)"

text \<open>The token an operation may open, and the one it succeeds in closing.\<close>

fun opens :: "ledger_op \<Rightarrow> string option" where
  "opens (Reserve session ps pd ck token) = Some token"
| "opens _ = None"

fun closes :: "ledger \<Rightarrow> ledger_op \<Rightarrow> string option" where
  "closes f (Cancel session token ck) = (if snd (cancel session token ck f) = Inr True then token else None)"
| "closes f (Settle session token tokens ck) =
     (case snd (settle session token tokens ck f) of Inr (Some _) \<Rightarrow> token | _ \<Rightarrow> None)"
| "closes f _ = None"

text \<open>Operations that spend on a session only under a cap.\<close>

fun within_cap :: "string \<Rightarrow> int \<Rightarrow> ledger_op \<Rightarrow> bool" where
  "within_cap session cap (Reserve s ps pd ck token) =
     (sanitize_session s = sanitize_session session \<longrightarrow> 0 < ps \<and> ps \<le> cap)"
| "within_cap session cap (Charge s tokens ck) = (sanitize_session s \<noteq> sanitize_session session)"
| "within_cap session cap _ = True"

section \<open>The contracts of a shared book\<close>

text \<open>A counter no permitted step takes past its cap.\<close>

locale capped_counter =
  fixes step :: "'l \<Rightarrow> 'op \<Rightarrow> 'l"
    and count :: "'l \<Rightarrow> int"
    and cap :: int
    and permitted :: "'op \<Rightarrow> bool"
  assumes step_capped: "permitted op \<Longrightarrow> count l \<le> cap \<Longrightarrow> count (step l op) \<le> cap"
begin

lemma run_capped: "list_all permitted ops \<Longrightarrow> count l \<le> cap \<Longrightarrow> count (foldl step l ops) \<le> cap"
  by (induction ops arbitrary: l) (auto simp: step_capped)

end

text \<open>A book of slots: only opening adds a slot, and what is closed was there and is gone.\<close>

locale slot_book =
  fixes step :: "'l \<Rightarrow> 'op \<Rightarrow> 'l"
    and holds :: "'l \<Rightarrow> 'k \<Rightarrow> bool"
    and takes :: "'op \<Rightarrow> 'k option"
    and gives :: "'l \<Rightarrow> 'op \<Rightarrow> 'k option"
  assumes only_taking: "holds (step l op) t \<Longrightarrow> holds l t \<or> takes op = Some t"
    and given_held: "gives l op = Some t \<Longrightarrow> holds l t"
    and given_gone: "gives l op = Some t \<Longrightarrow> \<not> holds (step l op) t"
begin

lemma stays_closed: "list_all (\<lambda>op. takes op \<noteq> Some t) ops \<Longrightarrow> \<not> holds l t \<Longrightarrow> \<not> holds (foldl step l ops) t"
proof (induction ops arbitrary: l)
  case (Cons op ops)
  then have "\<not> holds (step l op) t" using only_taking by auto
  with Cons show ?case by simp
qed simp

lemma closed_once:
  assumes "gives l op = Some t" and "list_all (\<lambda>op. takes op \<noteq> Some t) ops"
  shows "gives (foldl step (step l op) ops) op' \<noteq> Some t"
  using given_held stays_closed [OF assms(2) given_gone [OF assms(1)]] by blast

end

section \<open>The ledger keeps the contracts\<close>

lemma entry_put: "entry_of (dset (sanitize_session a) t ts) b =
    (if sanitize_session b = sanitize_session a then t else entry_of ts b)"
  by (simp add: entry_of_def)

lemma reserve_slots:
  assumes "reserve session ps pd ck token f = (f', r)" and "dget (slots_in f') t \<noteq> None"
  shows "dget (slots_in f) t \<noteq> None \<or> token = t"
proof (cases "\<exists>tok m. r = Inr (Some tok, m)")
  case True
  then obtain tok m where "reserve session ps pd ck token f = (f', Inr (Some tok, m))" using assms(1) by blast
  then show ?thesis
  proof (rule reserve_granted)
    fix data ts sl n s stamp
    assume rc: "reclaim data (tallies_in f) (slots_in f) ck = Inr (ts, sl, n)" and d: "load f = Inr data"
      and ok: "dict_ok ts" "dict_ok sl"
      and w: "write_ledger ts session (sp_reviews s + 1) (sp_tokens s) (sp_day s + 1) ck
        (dset token \<lparr>sl_session = sanitize_session session, sl_at = stamp\<rparr> sl) = Inr f'"
    have "dict_ok (tallies_in f)" "dict_ok (slots_in f)" by (simp_all add: loaded [OF d] tallies_ok slots_ok)
    note sub = reclaim_effect(5) [OF rc this]
    from write_effect(2) [OF w ok(1)] ok(2) assms(2) sub show ?thesis by (auto split: if_splits)
  qed
qed (use reserve_refused [OF assms(1)] assms(2) in blast)

lemma closes_cases:
  assumes "closes f op = Some t"
  obtains (Cancel) session ck where "op = Cancel session (Some t) ck" "cancel session (Some t) ck f = (ledger_step f op, Inr True)"
  | (Settle) session tokens ck cost where "op = Settle session (Some t) tokens ck"
    "settle session (Some t) tokens ck f = (ledger_step f op, Inr (Some cost))"
proof (cases op)
  case (Cancel session token ck)
  with assms have "snd (cancel session token ck f) = Inr True" "token = Some t" by (auto split: if_splits)
  with Cancel that(1) show thesis by (metis ledger_step.simps(2) prod.collapse)
next
  case (Settle session token tokens ck)
  with assms obtain c where "snd (settle session token tokens ck f) = Inr (Some c)" "token = Some t"
    by (auto split: sum.splits option.splits)
  with Settle that(2) show thesis by (metis ledger_step.simps(3) prod.collapse)
qed (use assms in auto)

lemma closing_slots:
  assumes "closes f op = Some t"
  shows "slots_in (ledger_step f op) = dpop t (slots_in f)" "dget (slots_in f) t \<noteq> None"
proof -
  have "slots_in (ledger_step f op) = dpop t (slots_in f) \<and> dget (slots_in f) t \<noteq> None"
    using assms
  proof (cases rule: closes_cases)
    case (Cancel session ck)
    from Cancel(2) show ?thesis
      by (rule cancel_granted)
        (auto simp: loaded own_slot_def tallies_ok slots_ok dest!: write_effect(2) split: option.splits)
  next
    case (Settle session tokens ck cost)
    from Settle(2) show ?thesis
      by (rule settle_granted)
        (auto simp: loaded own_slot_def tallies_ok slots_ok dest!: write_effect(2) split: option.splits)
  qed
  then show "slots_in (ledger_step f op) = dpop t (slots_in f)" "dget (slots_in f) t \<noteq> None" by blast+
qed

lemma charge_refused: "charge session tokens ck f = (f', Inl err) \<Longrightarrow> f' = f"
  by (simp add: charge_def locked_Inl)

lemma charge_slots: "slots_in (fst (charge session tokens ck f)) = slots_in f"
proof (cases "charge session tokens ck f")
  case (Pair f' r)
  show ?thesis
  proof (cases r)
    case (Inl err)
    with Pair charge_refused [of session tokens ck f f' err] show ?thesis by simp
  next
    case (Inr cost)
    with Pair have "charge session tokens ck f = (f', Inr cost)" by simp
    then show ?thesis
      by (rule charge_granted) (auto simp: Pair loaded tallies_ok slots_ok dest!: write_effect(2))
  qed
qed

lemma step_slots:
  assumes "dget (slots_in (ledger_step f op)) t \<noteq> None"
  shows "dget (slots_in f) t \<noteq> None \<or> opens op = Some t"
proof (cases "closes f op")
  case (Some u)
  then show ?thesis using assms closing_slots(1) [OF Some] by (auto split: if_splits)
next
  case None
  show ?thesis
  proof (cases op)
    case (Reserve session ps pd ck token)
    with assms reserve_slots [OF surjective_pairing] show ?thesis by fastforce
  next
    case (Cancel session token ck)
    show ?thesis
    proof (cases "snd (cancel session token ck f) = Inr True")
      case True
      then obtain f' where f': "cancel session token ck f = (f', Inr True)" by (metis prod.collapse)
      then obtain tok where "token = Some tok" by (rule cancel_granted)
      with None Cancel f' show ?thesis by simp
    next
      case False
      with cancel_refused [OF surjective_pairing] Cancel assms show ?thesis by fastforce
    qed
  next
    case (Settle session token tokens ck)
    show ?thesis
    proof (cases "\<exists>c. snd (settle session token tokens ck f) = Inr (Some c)")
      case True
      then obtain f' c where f': "settle session token tokens ck f = (f', Inr (Some c))" by (metis prod.collapse)
      then obtain tok where "token = Some tok" by (rule settle_granted)
      with None Settle f' show ?thesis by simp
    next
      case False
      with settle_refused [OF surjective_pairing] Settle assms show ?thesis by fastforce
    qed
  next
    case (Charge session tokens ck)
    with assms charge_slots show ?thesis by simp
  qed
qed

interpretation slot_ledger: slot_book ledger_step "\<lambda>f t. dget (slots_in f) t \<noteq> None" opens closes
proof unfold_locales
  show "dget (slots_in (ledger_step l op)) t \<noteq> None \<Longrightarrow> dget (slots_in l) t \<noteq> None \<or> opens op = Some t" for l op t
    by (rule step_slots)
qed (simp_all add: closing_slots)

lemma reserve_reviews:
  assumes "reserve session ps pd ck token f = (f', Inr (Some tok, m))"
  shows "ps \<noteq> 0 \<longrightarrow> reviews_in f' session \<le> ps" "pd \<noteq> 0 \<longrightarrow> day_in f' ck \<le> pd"
    "reviews_in f' session \<le> max 0 (reviews_in f session) + 1"
    "sanitize_session other \<noteq> sanitize_session session \<Longrightarrow> reviews_in f' other \<le> max 0 (reviews_in f other)"
    "ta_tokens (entry_of (tallies_in f') any) = ta_tokens (entry_of (tallies_in f) any)"
    "map_option sl_session (dget (slots_in f') token) = Some (sanitize_session session)"
    "tok = token" "m = []"
proof -
  have "(ps \<noteq> 0 \<longrightarrow> reviews_in f' session \<le> ps) \<and> (pd \<noteq> 0 \<longrightarrow> day_in f' ck \<le> pd) \<and>
        reviews_in f' session \<le> max 0 (reviews_in f session) + 1 \<and>
        (sanitize_session other \<noteq> sanitize_session session \<longrightarrow> reviews_in f' other \<le> max 0 (reviews_in f other)) \<and>
        ta_tokens (entry_of (tallies_in f') any) = ta_tokens (entry_of (tallies_in f) any) \<and>
        map_option sl_session (dget (slots_in f') token) = Some (sanitize_session session) \<and> tok = token \<and> m = []"
    using assms
  proof (rule reserve_granted)
    fix data ts sl n s stamp
    assume eq: "tok = token" "m = []" and ok: "dict_ok ts" "dict_ok sl" and low: "lowered (tallies_in f) ts"
      and none: "caps_reached ps pd s = None" and cost: "sp_tokens s = ta_tokens (entry_of (tallies_in f) session)"
      and count: "sp_reviews s = ta_reviews (entry_of (if n = 0 then tallies_in f else ts) session)"
      and w: "write_ledger ts session (sp_reviews s + 1) (sp_tokens s) (sp_day s + 1) ck
        (dset token \<lparr>sl_session = sanitize_session session, sl_at = stamp\<rparr> sl) = Inr f'"
    have e: "tallies_in f' = dset (sanitize_session session) \<lparr>ta_reviews = sp_reviews s + 1, ta_tokens = sp_tokens s\<rparr> ts"
      "slots_in f' = dset token \<lparr>sl_session = sanitize_session session, sl_at = stamp\<rparr> sl" "day_in f' ck = sp_day s + 1"
      using write_effect [OF w ok(1)] ok(2) by simp_all
    have "sp_reviews s \<le> max 0 (reviews_in f session)"
      using low count by (cases "n = 0") (auto simp: reviews_in_def lowered_def)
    with caps_reached_None [OF none] cost low eq e
    show ?thesis
      by (auto simp: reviews_in_def entry_put lowered_def entry_of_def)
  qed
  then show "ps \<noteq> 0 \<longrightarrow> reviews_in f' session \<le> ps" "pd \<noteq> 0 \<longrightarrow> day_in f' ck \<le> pd"
    "reviews_in f' session \<le> max 0 (reviews_in f session) + 1"
    "sanitize_session other \<noteq> sanitize_session session \<Longrightarrow> reviews_in f' other \<le> max 0 (reviews_in f other)"
    "ta_tokens (entry_of (tallies_in f') any) = ta_tokens (entry_of (tallies_in f) any)"
    "map_option sl_session (dget (slots_in f') token) = Some (sanitize_session session)"
    "tok = token" "m = []"
    by blast+
qed

text \<open>What a write that follows a projection shows, the tail the three operations share.\<close>

lemma write_view:
  assumes d: "load f = Inr data" and p: "project data session ck = Inr (tallies_of data, s)"
    and w: "write_ledger (tallies_of data) session r t n ck sl = Inr f'" and ok: "dict_ok sl"
  shows "reviews_in f' other = (if sanitize_session other = sanitize_session session then r else reviews_in f other)"
    "ta_tokens (entry_of (tallies_in f') other) =
      (if sanitize_session other = sanitize_session session then t else ta_tokens (entry_of (tallies_in f) other))"
    "slots_in f' = sl" "day_in f' ck = n"
    "sp_reviews s = reviews_in f session" "sp_tokens s = ta_tokens (entry_of (tallies_in f) session)"
    "sp_day s = day_in f ck"
  using write_effect [OF w tallies_ok ok] project_eq(2-4) [OF p]
  by (simp_all add: reviews_in_def entry_put loaded [OF d] day_in_def d)

lemma same_session: "sanitize_session a = sanitize_session b \<Longrightarrow> entry_of ts a = entry_of ts b"
  by (simp add: entry_of_def)

lemma cancel_reviews:
  assumes "cancel session token ck f = (f', Inr True)"
  shows "reviews_in f' other = (if sanitize_session other = sanitize_session session
      then max 0 (reviews_in f session - 1) else reviews_in f other)"
    "ta_tokens (entry_of (tallies_in f') other) = ta_tokens (entry_of (tallies_in f) other)"
    "day_in f' ck = max 0 (day_in f ck - 1)"
proof -
  obtain tok data s where d: "load f = Inr data" and p: "project data session ck = Inr (tallies_of data, s)"
    and w: "write_ledger (tallies_of data) session (max 0 (sp_reviews s - 1)) (sp_tokens s)
      (max 0 (sp_day s - 1)) ck (dpop tok (slots_of data)) = Inr f'"
    using assms by (rule cancel_granted)
  have "dict_ok (dpop tok (slots_of data))" by (simp add: slots_ok)
  note e = write_view [OF d p w this]
  show "reviews_in f' other = (if sanitize_session other = sanitize_session session
      then max 0 (reviews_in f session - 1) else reviews_in f other)" "day_in f' ck = max 0 (day_in f ck - 1)"
    using e(1) [of other] e(4-7) by simp_all
  show "ta_tokens (entry_of (tallies_in f') other) = ta_tokens (entry_of (tallies_in f) other)"
    using e(2) [of other] e(6) same_session [of other session "tallies_in f"] by simp
qed

lemma settle_reviews:
  assumes "settle session token tokens ck f = (f', Inr (Some cost))"
  shows "reviews_in f' other = reviews_in f other" "day_in f' ck = day_in f ck"
    "ta_tokens (entry_of (tallies_in f') other) = ta_tokens (entry_of (tallies_in f) other)
      + (if sanitize_session other = sanitize_session session then max 0 tokens else 0)"
proof -
  obtain tok data s where d: "load f = Inr data" and p: "project data session ck = Inr (tallies_of data, s)"
    and w: "write_ledger (tallies_of data) session (sp_reviews s) (sp_tokens s + max 0 tokens) (sp_day s) ck
      (dpop tok (slots_of data)) = Inr f'"
    using assms by (rule settle_granted)
  have "dict_ok (dpop tok (slots_of data))" by (simp add: slots_ok)
  note e = write_view [OF d p w this]
  show "reviews_in f' other = reviews_in f other" "day_in f' ck = day_in f ck"
    "ta_tokens (entry_of (tallies_in f') other) = ta_tokens (entry_of (tallies_in f) other)
      + (if sanitize_session other = sanitize_session session then max 0 tokens else 0)"
    using e(1,2) [of other] e(4-7) same_session [of other session "tallies_in f"] by (simp_all add: reviews_in_def)
qed

lemma charge_reviews:
  assumes "charge session tokens ck f = (f', Inr cost)"
  shows "reviews_in f' other = reviews_in f other + (if sanitize_session other = sanitize_session session then 1 else 0)"
    "ta_tokens (entry_of (tallies_in f') other) = ta_tokens (entry_of (tallies_in f) other)
      + (if sanitize_session other = sanitize_session session then max 0 tokens else 0)"
    "day_in f' ck = day_in f ck + 1"
proof -
  obtain data s where d: "load f = Inr data" and p: "project data session ck = Inr (tallies_of data, s)"
    and w: "write_ledger (tallies_of data) session (sp_reviews s + 1) (sp_tokens s + max 0 tokens)
      (sp_day s + 1) ck (slots_of data) = Inr f'"
    using assms by (rule charge_granted)
  note e = write_view [OF d p w slots_ok]
  show "reviews_in f' other = reviews_in f other + (if sanitize_session other = sanitize_session session then 1 else 0)"
    "ta_tokens (entry_of (tallies_in f') other) = ta_tokens (entry_of (tallies_in f) other)
      + (if sanitize_session other = sanitize_session session then max 0 tokens else 0)"
    "day_in f' ck = day_in f ck + 1"
    using e(1,2) [of other] e(4-7) same_session [of other session "tallies_in f"] by (simp_all add: reviews_in_def)
qed

lemma step_capped:
  assumes cap: "0 < cap" and op: "within_cap session cap op" and low: "reviews_in f session \<le> cap"
  shows "reviews_in (ledger_step f op) session \<le> cap"
proof (cases op)
  case (Reserve s ps pd ck token)
  obtain f' r where run: "reserve s ps pd ck token f = (f', r)" by fastforce
  show ?thesis
  proof (cases "\<exists>tok m. r = Inr (Some tok, m)")
    case True
    then obtain tok m where "reserve s ps pd ck token f = (f', Inr (Some tok, m))" using run by blast
    note e = reserve_reviews(1,4) [OF this]
    have "reviews_in f' session = reviews_in f' s" if "sanitize_session s = sanitize_session session"
      using that by (simp add: reviews_in_def entry_of_def)
    with e(1) e(2) [of session] op low cap Reserve run show ?thesis by fastforce
  next
    case False
    with reserve_refused [OF run] low Reserve run show ?thesis by auto
  qed
next
  case (Cancel s token ck)
  obtain f' r where run: "cancel s token ck f = (f', r)" by fastforce
  show ?thesis
    using cancel_refused [OF run] cancel_reviews(1) [of s token ck f f' session] run low cap Cancel
    by (cases "r = Inr True") (auto simp: reviews_in_def entry_of_def)
next
  case (Settle s token tokens ck)
  obtain f' r where run: "settle s token tokens ck f = (f', r)" by fastforce
  show ?thesis
  proof (cases "\<exists>c. r = Inr (Some c)")
    case True
    with settle_reviews(1) [of s token tokens ck f f'] run low Settle show ?thesis by fastforce
  next
    case False
    with settle_refused [OF run] low Settle run show ?thesis by auto
  qed
next
  case (Charge s tokens ck)
  obtain f' r where run: "charge s tokens ck f = (f', r)" by fastforce
  show ?thesis
    using charge_refused [of s tokens ck f f'] charge_reviews(1) [of s tokens ck f f' _ session] run low op Charge
    by (cases r) auto
qed

text \<open>For a positive cap, written as a successor.\<close>

interpretation capped_ledger: capped_counter ledger_step "\<lambda>f. reviews_in f session" "int (Suc n)"
  "within_cap session (int (Suc n))" for session n
  by unfold_locales (rule step_capped; simp)

section \<open>Properties\<close>

text \<open>A reservation is all or nothing: it either grants the token it was given, opens its slot for
  the session, counts the review once and leaves both counters within their caps, never
  raising another session's count nor touching any token cost, or leaves the ledger exactly
  as it was.\<close>

theorem reserve_within_caps:
  assumes "reserve session ps pd ck token f = (f', r)"
  shows "case r of
      Inr (Some tok, m) \<Rightarrow> tok = token \<and> m = []
        \<and> (ps \<noteq> 0 \<longrightarrow> reviews_in f' session \<le> ps) \<and> (pd \<noteq> 0 \<longrightarrow> day_in f' ck \<le> pd)
        \<and> reviews_in f' session \<le> max 0 (reviews_in f session) + 1
        \<and> (sanitize_session other \<noteq> sanitize_session session \<longrightarrow> reviews_in f' other \<le> max 0 (reviews_in f other))
        \<and> ta_tokens (entry_of (tallies_in f') other) = ta_tokens (entry_of (tallies_in f) other)
        \<and> map_option sl_session (dget (slots_in f') token) = Some (sanitize_session session)
    | _ \<Rightarrow> f' = f"
proof (cases "\<exists>tok m. r = Inr (Some tok, m)")
  case True
  then obtain tok m where r: "r = Inr (Some tok, m)" by blast
  from reserve_reviews [OF assms [unfolded r]] show ?thesis by (simp add: r)
next
  case False
  with reserve_refused [OF assms] have "f' = f" by blast
  with False show ?thesis by (auto split: sum.split option.split prod.split)
qed

text \<open>C20: The session ceiling holds under any interleaving: whatever sequence of reservations,
  cancellations and settlements other processes perform, a session whose reservations are all
  made under the cap never counts more reviews than the cap.\<close>

theorem session_cap_holds:
  assumes "0 < cap" and "list_all (within_cap session cap) ops" and "reviews_in f session \<le> cap"
  shows "reviews_in (foldl ledger_step f ops) session \<le> cap"
proof -
  obtain n where "cap = int (Suc n)" using assms(1) by (metis pos_int_cases Suc_pred')
  with assms(2,3) show ?thesis using capped_ledger.run_capped by blast
qed

text \<open>C34: A token is consumed once: after a cancellation or settlement that succeeded with it, and
  whatever the other processes do short of being issued the same token, no cancellation or
  settlement succeeds with it again.\<close>

theorem token_consumed_once:
  assumes "closes f op = Some token" and "list_all (\<lambda>op. opens op \<noteq> Some token) ops"
  shows "closes (foldl ledger_step (ledger_step f op) ops) op' \<noteq> Some token"
  by (rule slot_ledger.closed_once [OF assms])

text \<open>A reservation that is cancelled leaves no trace: when nothing expired meanwhile, reserving
  and cancelling with the token on the same date gives every session its count and cost, the
  day its count, and the open slots back.\<close>

theorem reserve_cancel_roundtrip:
  assumes res: "reserve session ps pd ck token f = (f1, Inr (Some token, m))" and token: "token \<noteq> []"
    and fresh: "dget (slots_in f) token = None" and positive: "0 \<le> reviews_in f session" "0 \<le> day_in f ck"
    and live: "\<And>stamp. int_of_float (clock_now ck) = Inr stamp \<Longrightarrow> expired stamp (slots_in f) = []"
    and same: "today ck' = today ck"
  shows "\<exists>f2. cancel session (Some token) ck' f1 = (f2, Inr True) \<and> slots_in f2 = slots_in f
    \<and> (\<forall>other. entry_of (tallies_in f2) other = entry_of (tallies_in f) other) \<and> day_in f2 ck = day_in f ck"
  using res
proof (rule reserve_granted)
  fix data ts sl n s stamp
  assume d: "load f = Inr data" and rc: "reclaim data (tallies_in f) (slots_in f) ck = Inr (ts, sl, n)"
    and ok: "dict_ok ts" "dict_ok sl"
    and count: "sp_reviews s = ta_reviews (entry_of (if n = 0 then tallies_in f else ts) session)"
    and cost: "sp_tokens s = ta_tokens (entry_of (tallies_in f) session)"
    and day: "day_reviews data ck = Inr (sp_day s + n) \<or> n \<noteq> 0"
    and w: "write_ledger ts session (sp_reviews s + 1) (sp_tokens s) (sp_day s + 1) ck
      (dset token \<lparr>sl_session = sanitize_session session, sl_at = stamp\<rparr> sl) = Inr f1"
  have "ts = tallies_in f \<and> sl = slots_in f \<and> n = 0" using rc live by (auto simp: reclaim_def)
  then have s: "ts = tallies_in f" "sl = slots_in f" "sp_reviews s = reviews_in f session" "sp_day s = day_in f ck"
    using count day by (auto simp: reviews_in_def day_in_def d)
  note e = write_effect [OF w ok(1)]
  obtain date where date: "today ck = Inr date" "today ck' = Inr date" using w same by (auto simp: write_ledger_def)
  obtain data1 where d1: "load f1 = Inr data1" "day_reviews data1 ck = Inr (sp_day s + 1)"
    "day_reviews data1 ck' = Inr (sp_day s + 1)"
    using w date by (auto simp: write_ledger_def load_written day_written)
  note l1 = loaded [OF d1(1)]
  have own: "own_slot data1 session token"
    using e(2) ok(2) by (simp add: own_slot_def l1(2) [symmetric])
  define entry where "entry = entry_of (tallies_of data1) session"
  have p: "project data1 session ck' = Inr (tallies_of data1,
      \<lparr>sp_reviews = ta_reviews entry, sp_day = sp_day s + 1, sp_tokens = ta_tokens entry\<rparr>)"
    by (simp add: project_def Let_def d1 entry_def)
  obtain f2 where w2: "write_ledger (tallies_of data1) session (max 0 (ta_reviews entry - 1)) (ta_tokens entry)
      (max 0 (sp_day s + 1 - 1)) ck' (dpop token (slots_of data1)) = Inr f2"
    using date by (simp add: write_ledger_def)
  have run: "cancel session (Some token) ck' f1 = (f2, Inr True)"
    using own p w2 token by (simp add: cancel_def d1 locked_def cancel_from_def)
  have entry: "ta_reviews entry = reviews_in f session + 1" "ta_tokens entry = ta_tokens (entry_of (tallies_in f) session)"
    using e(1) ok(2) cost s by (simp_all add: entry_def l1(1) [symmetric] entry_of_def)
  have e2: "tallies_in f2 = dset (sanitize_session session)
        \<lparr>ta_reviews = reviews_in f session, ta_tokens = ta_tokens (entry_of (tallies_in f) session)\<rparr> (tallies_of data1)"
    "slots_in f2 = dpop token (slots_of data1)" "day_in f2 ck' = day_in f ck"
    using write_effect [OF w2 tallies_ok] slots_ok entry positive s(4) by simp_all
  have "slots_in f1 = dset token \<lparr>sl_session = sanitize_session session, sl_at = stamp\<rparr> (slots_in f)"
    using e(2) ok(2) s(2) by simp
  then have "slots_in f2 = slots_in f"
    using e2(2) fresh by (simp add: l1(2) [symmetric] dset_fresh dict.set_keys dpop_put)
  moreover have "entry_of (tallies_in f2) other = entry_of (tallies_in f) other" for other
    using e(1) ok(2) s(1) by (auto simp: e2(1) l1(1) [symmetric] entry_put reviews_in_def entry_of_def split: option.split)
  moreover have "day_in f2 ck = day_in f2 ck'"
    using w2 date by (auto simp: write_ledger_def day_in_def load_written day_written)
  ultimately show ?thesis using run e2(3) by auto
qed

text \<open>Settling and charging touch only what is theirs: a settlement adds the measured cost and
  closes its slot without touching any count, a charge counts one review and its cost and
  keeps every open reservation, and neither changes another session.\<close>

theorem costs_are_separate:
  "(\<forall>cost f'. settle session token tokens ck f = (f', Inr (Some cost)) \<longrightarrow>
      reviews_in f' other = reviews_in f other \<and> day_in f' ck = day_in f ck
      \<and> ta_tokens (entry_of (tallies_in f') other) = ta_tokens (entry_of (tallies_in f) other)
          + (if sanitize_session other = sanitize_session session then max 0 tokens else 0)
      \<and> (\<exists>tok. token = Some tok \<and> slots_in f' = dpop tok (slots_in f)))
   \<and> (\<forall>cost f'. charge session tokens ck f = (f', Inr cost) \<longrightarrow>
      reviews_in f' other = reviews_in f other + (if sanitize_session other = sanitize_session session then 1 else 0)
      \<and> day_in f' ck = day_in f ck + 1 \<and> slots_in f' = slots_in f)"
proof (intro conjI allI impI)
  fix cost f'
  assume run: "settle session token tokens ck f = (f', Inr (Some cost))"
  show "reviews_in f' other = reviews_in f other" "day_in f' ck = day_in f ck"
    "ta_tokens (entry_of (tallies_in f') other) = ta_tokens (entry_of (tallies_in f) other)
      + (if sanitize_session other = sanitize_session session then max 0 tokens else 0)"
    by (rule settle_reviews [OF run])+
  from run obtain tok where tok: "token = Some tok" by (rule settle_granted)
  with run closing_slots(1) [of f "Settle session token tokens ck" tok]
  show "\<exists>tok. token = Some tok \<and> slots_in f' = dpop tok (slots_in f)" by simp
next
  fix cost f'
  assume run: "charge session tokens ck f = (f', Inr cost)"
  show "reviews_in f' other = reviews_in f other + (if sanitize_session other = sanitize_session session then 1 else 0)"
    "day_in f' ck = day_in f ck + 1" by (rule charge_reviews [OF run])+
  show "slots_in f' = slots_in f" using charge_slots [of session tokens ck f] run by simp
qed

text \<open>A ledger that cannot be trusted is never spent against nor overwritten: whatever is wrong
  with it, every operation leaves the file alone and grants nothing. The refusal is an answer
  when the corruption is recognised; a file that is not valid UTF-8 is not, and its error
  escapes.\<close>

theorem untrusted_ledger_refused:
  assumes "load f = Inl err"
  shows "reserve session ps pd ck token f = (f, case err of LedgerCorrupt m \<Rightarrow> Inr (None, refusal m) | _ \<Rightarrow> Inl err)
    \<and> cancel session (Some (c # cs)) ck f = (f, case err of LedgerCorrupt m \<Rightarrow> Inr False | _ \<Rightarrow> Inl err)
    \<and> settle session (Some (c # cs)) tokens ck f = (f, case err of LedgerCorrupt m \<Rightarrow> Inr None | _ \<Rightarrow> Inl err)
    \<and> charge session tokens ck f = (f, Inl err)
    \<and> exhausted session ps pd ck f = (case err of LedgerCorrupt m \<Rightarrow> Inr (Some (refusal m)) | _ \<Rightarrow> Inl err)
    \<and> ((\<exists>m. err = LedgerCorrupt m) \<or> (\<exists>m. f = Undecodable m \<and> err = ValueError m))"
proof (intro conjI)
  show "(\<exists>m. err = LedgerCorrupt m) \<or> (\<exists>m. f = Undecodable m \<and> err = ValueError m)"
    using assms by (auto simp: load_def corrupt_def Let_def split: ledger.splits pyval.splits if_splits)
qed (use assms in \<open>simp_all add: reserve_def cancel_def settle_def charge_def exhausted_def locked_def
       read_spend_def split: exc.split\<close>)

text \<open>The credit of a reclaimed slot is lost when the day has turned: if the ledger's day is not
  today, a session at its cap is refused and the ledger kept as it is, however many of the
  reviews it counts are slots whose holders are long dead.\<close>

theorem stale_day_keeps_dead_slots:
  assumes "load f = Inr data" and "day_current data ck = Inr False"
    and "0 < ps" and "ps \<le> reviews_in f session" and "int_of_float (clock_now ck) = Inr stamp"
  shows "reserve session ps pd ck token f = (f, Inr (None,
    ''session cap reached ('' @ dec_int (reviews_in f session) @ ''/'' @ dec_int ps @ '')''))"
proof -
  obtain s where p: "project data session ck = Inr (tallies_of data, s)" and s: "sp_reviews s = reviews_in f session"
    using assms(1,2) by (simp add: project_def Let_def day_reviews_def reviews_in_def loaded)
  have tokens: "\<exists>ts' sl'. reclaim_tokens data ck toks ts sl = Inr (ts', sl', 0)"
    if "distinct toks" "set toks \<subseteq> set (dkeys sl)" for toks ts sl
    using that
  proof (induction toks arbitrary: ts sl)
    case (Cons t toks)
    then obtain slot where "dget sl t = Some slot" by (auto simp: dict.set_keys)
    moreover have "set toks \<subseteq> set (dkeys (dpop t sl))" using Cons.prems by (auto simp: dict.keys_pop)
    ultimately show ?case using Cons assms(2) by fastforce
  qed simp
  have "distinct (expired stamp (slots_of data))" "set (expired stamp (slots_of data)) \<subseteq> set (dkeys (slots_of data))"
    using slots_ok [of data] by (auto simp: expired_def dict_ok_def distinct_map_filter dkeys_def)
  from tokens [OF this, of "tallies_of data"] obtain ts sl where
    "reclaim_tokens data ck (expired stamp (slots_of data)) (tallies_of data) (slots_of data) = Inr (ts, sl, 0)"
    by blast
  then have "reclaim data (tallies_of data) (slots_of data) ck = Inr (ts, sl, 0)"
    using assms(5) by (simp add: reclaim_def)
  then have "reserve_from data f session ps pd ck token = Inr (f, None,
      ''session cap reached ('' @ dec_int (reviews_in f session) @ ''/'' @ dec_int ps @ '')'')"
    using p s assms(3,4) by (simp add: reserve_from_def after_reclaim_def caps_reached_def cap_reached_def)
  then show ?thesis by (simp add: reserve_def assms(1) locked_def)
qed

end
