(* ===== verification/Budget_Samples.thy ===== *)
theory Budget_Samples
  imports Budget_Claims
begin

text \<open>
  A concrete day of the spend ledger and the witnesses of its properties: a session takes its
  only slot, is refused a second, gives the slot back; a dead holder's slot from the day before
  keeps its session out.
\<close>

definition noon :: clock where
  "noon = \<lparr>ck_now = Some (Fin 1000000), ck_wall = Fin 0\<rparr>"

definition next_day :: clock where
  "next_day = \<lparr>ck_now = Some (Fin 1100000), ck_wall = Fin 0\<rparr>"

definition one_slot :: ledger where
  "one_slot = Holds (PDict (written [(''s'', \<lparr>ta_reviews = 1, ta_tokens = 0\<rparr>)] ''1970-01-12'' 1
     [(''t1'', \<lparr>sl_session = ''s'', sl_at = 1000000\<rparr>)]))"

lemma sample_days: "date_text 11 = ''1970-01-12''" "date_text 12 = ''1970-01-13''"
    "fst (civil 11) = 1970" "fst (civil 12) = 1970"
  by code_simp+

lemma sample_dates: "today noon = Inr ''1970-01-12''" "today next_day = Inr ''1970-01-13''"
  by (simp_all add: today_def utc_date_def gmtime_days_def clock_now_def noon_def next_day_def sample_days Let_def)

lemma sample_stamps: "int_of_float (clock_now noon) = Inr 1000000" "int_of_float (now_or_wall noon) = Inr 1000000"
  "int_of_float (clock_now next_day) = Inr 1100000"
  by (simp_all add: int_of_float_def clock_now_def now_or_wall_def noon_def next_day_def trunc_rat_def)

lemma sample_session: "sanitize_session ''s'' = ''s''"
  by code_simp

lemma empty_view: "slots_in Absent = []" "tallies_in Absent = []" "reviews_in Absent s = 0" "day_in Absent ck = 0"
  by (simp_all add: slots_in_def tallies_in_def reviews_in_def day_in_def load_def slots_of_def tallies_of_def
      entry_of_def day_reviews_def day_current_def get_def dict_eval)

lemma sample_reserve: "reserve ''s'' 1 5 noon ''t1'' Absent = (one_slot, Inr (Some ''t1'', []))"
  by (simp add: reserve_def load_def reserve_from_def project_def Let_def tallies_of_def slots_of_def get_def
      dict_eval day_reviews_def day_current_def reclaim_def sample_stamps expired_def entry_of_def
      after_reclaim_def caps_reached_def cap_reached_def write_ledger_def sample_dates sample_session
      one_slot_def locked_def)

lemma sample_load: "load one_slot = Inr (written [(''s'', \<lparr>ta_reviews = 1, ta_tokens = 0\<rparr>)] ''1970-01-12'' 1
     [(''t1'', \<lparr>sl_session = ''s'', sl_at = 1000000\<rparr>)])"
  by (simp add: one_slot_def load_written)

lemma sample_data:
  "tallies_of (written [(''s'', \<lparr>ta_reviews = 1, ta_tokens = 0\<rparr>)] ''1970-01-12'' 1
     [(''t1'', \<lparr>sl_session = ''s'', sl_at = 1000000\<rparr>)]) = [(''s'', \<lparr>ta_reviews = 1, ta_tokens = 0\<rparr>)]"
  "slots_of (written [(''s'', \<lparr>ta_reviews = 1, ta_tokens = 0\<rparr>)] ''1970-01-12'' 1
     [(''t1'', \<lparr>sl_session = ''s'', sl_at = 1000000\<rparr>)]) = [(''t1'', \<lparr>sl_session = ''s'', sl_at = 1000000\<rparr>)]"
  by (simp_all add: tallies_written slots_written dict_ok_def)

lemma sample_view: "reviews_in one_slot ''s'' = 1" "slots_in one_slot = [(''t1'', \<lparr>sl_session = ''s'', sl_at = 1000000\<rparr>)]"
  by (simp_all add: reviews_in_def tallies_in_def slots_in_def sample_load sample_data entry_of_def dict_eval
      sample_session)

lemma sample_project: "project (written [(''s'', \<lparr>ta_reviews = 1, ta_tokens = 0\<rparr>)] ''1970-01-12'' 1
     [(''t1'', \<lparr>sl_session = ''s'', sl_at = 1000000\<rparr>)]) ''s'' noon
   = Inr ([(''s'', \<lparr>ta_reviews = 1, ta_tokens = 0\<rparr>)], \<lparr>sp_reviews = 1, sp_day = 1, sp_tokens = 0\<rparr>)"
  by (simp add: project_def Let_def sample_data entry_of_def sample_session dict_eval
      day_written [OF sample_dates(1)])

lemma sample_own: "own_slot (written [(''s'', \<lparr>ta_reviews = 1, ta_tokens = 0\<rparr>)] ''1970-01-12'' 1
     [(''t1'', \<lparr>sl_session = ''s'', sl_at = 1000000\<rparr>)]) ''s'' ''t1''"
  by (simp add: own_slot_def sample_data dict_eval sample_session)

lemma one_text: "dec_int 1 = ''1''"
  by code_simp

section \<open>Witnesses\<close>

theorem reserve_within_caps_witness:
  "reviews_in one_slot ''s'' \<le> 1 \<and> fst (reserve ''s'' 1 5 noon ''t2'' one_slot) = one_slot"
proof -
  have "reserve ''s'' 1 5 noon ''t2'' one_slot
      = (fst (reserve ''s'' 1 5 noon ''t2'' one_slot), Inr (None, ''session cap reached (1/1)''))"
    by (simp add: reserve_def sample_load reserve_from_def sample_project sample_data reclaim_def sample_stamps
        expired_def slot_ttl_def after_reclaim_def caps_reached_def cap_reached_def locked_def one_text)
  from reserve_within_caps [OF this, of "''x''"] reserve_within_caps [OF sample_reserve, of "''x''"]
  show ?thesis by simp
qed

theorem session_cap_holds_witness:
  "reviews_in (foldl ledger_step Absent [Reserve ''s'' 1 5 noon ''t1'', Reserve ''s'' 1 5 noon ''t2'',
     Cancel ''s'' (Some ''t1'') noon, Reserve ''s'' 1 0 next_day ''t3'']) ''s'' \<le> 1"
  by (rule session_cap_holds) (simp_all add: empty_view)

lemma sample_cancel: "snd (cancel ''s'' (Some ''t1'') noon one_slot) = Inr True"
  by (simp add: cancel_def sample_load cancel_from_def sample_own sample_project write_ledger_def
      sample_dates locked_def)

theorem token_consumed_once_witness:
  "closes (ledger_step one_slot (Cancel ''s'' (Some ''t1'') noon)) (Settle ''s'' (Some ''t1'') 9 noon) \<noteq> Some ''t1''"
  using token_consumed_once [of one_slot "Cancel ''s'' (Some ''t1'') noon" "''t1''" "[]"
      "Settle ''s'' (Some ''t1'') 9 noon"] sample_cancel by simp

theorem reserve_cancel_roundtrip_witness:
  "\<exists>f2. cancel ''s'' (Some ''t1'') noon one_slot = (f2, Inr True) \<and> slots_in f2 = []
     \<and> entry_of (tallies_in f2) ''s'' = \<lparr>ta_reviews = 0, ta_tokens = 0\<rparr>"
  using reserve_cancel_roundtrip [OF sample_reserve, of noon]
  by (auto simp: empty_view expired_def entry_of_def)

theorem costs_are_separate_witness:
  "\<exists>f'. settle ''s'' (Some ''t1'') 40 noon one_slot = (f', Inr (Some \<lparr>sp_reviews = 1, sp_day = 1, sp_tokens = 40\<rparr>))
     \<and> reviews_in f' ''s'' = 1 \<and> slots_in f' = []"
proof -
  have "snd (settle ''s'' (Some ''t1'') 40 noon one_slot) = Inr (Some \<lparr>sp_reviews = 1, sp_day = 1, sp_tokens = 40\<rparr>)"
    by (simp add: settle_def sample_load settle_from_def sample_own sample_project write_ledger_def
        sample_dates locked_def)
  then obtain f' where run: "settle ''s'' (Some ''t1'') 40 noon one_slot
      = (f', Inr (Some \<lparr>sp_reviews = 1, sp_day = 1, sp_tokens = 40\<rparr>))"
    by (metis prod.collapse)
  with costs_are_separate [of "''s''" "Some ''t1''" 40 noon one_slot "''s''"] sample_view
  show ?thesis by (auto simp: dict_eval)
qed

theorem untrusted_ledger_refused_witness:
  "reserve ''s'' 1 5 noon ''t1'' (Holds PNone)
     = (Holds PNone, Inr (None, refusal ''review-spend.json is not an object''))"
proof -
  have "load (Holds PNone) = Inl (LedgerCorrupt ''review-spend.json is not an object'')"
    by (simp add: load_def corrupt_def ledger_name_def)
  from untrusted_ledger_refused [OF this, of "''s''" 1 5 noon "''t1''"] show ?thesis by simp
qed

theorem stale_day_keeps_dead_slots_witness:
  "reserve ''s'' 1 5 next_day ''t2'' one_slot = (one_slot, Inr (None, ''session cap reached (1/1)''))"
proof -
  have "day_current (written [(''s'', \<lparr>ta_reviews = 1, ta_tokens = 0\<rparr>)] ''1970-01-12'' 1
      [(''t1'', \<lparr>sl_session = ''s'', sl_at = 1000000\<rparr>)]) next_day = Inr False"
    by (simp add: day_current_def written_get entry_reads sample_dates)
  from stale_day_keeps_dead_slots [OF sample_load this, of 1 "''s''" 1100000 5 "''t2''"]
  show ?thesis by (simp add: sample_view sample_stamps one_text)
qed

end
