(* ===== verification/Audit_State.thy ===== *)
theory Audit_State
  imports Thread_State
begin

text \<open>
  Model of \<open>src/spotter/audit.py\<close>: the ledger of evidence and hypotheses rebuilt from a
  journal, and the propagation of staleness when evidence is retracted.
\<close>

section \<open>The ledger\<close>

definition valid_sources :: "string list" where
  "valid_sources = [''tool_result'', ''diff'', ''test_output'', ''repo_state'']"

record evidence =
  ae_id :: string
  ae_source :: string
  ae_description :: string

text \<open>The constructor with its \<open>__post_init__\<close> guard.\<close>

definition make_evidence :: "string \<Rightarrow> string \<Rightarrow> string \<Rightarrow> evidence result" where
  "make_evidence i source description =
     (if source \<in> set valid_sources
      then Inr \<lparr>ae_id = i, ae_source = source, ae_description = description\<rparr>
      else Inl (ValueError (''not an evidence source: '' @ repr_str source)))"

datatype claim_status = Unverified | Supported | StaleClaim

record hypothesis =
  ah_id :: string
  ah_claim :: string
  ah_supported :: "string set"
  ah_depends :: "string set"
  ah_status :: claim_status

record audit =
  au_evidence :: "(string, evidence) dict"
  au_hypotheses :: "(string, hypothesis) dict"
  au_retracted :: "string set"

definition empty_audit :: audit where
  "empty_audit = \<lparr>au_evidence = [], au_hypotheses = [], au_retracted = {}\<rparr>"

definition add_evidence :: "audit \<Rightarrow> evidence \<Rightarrow> audit result" where
  "add_evidence st ev =
     (if dget (au_evidence st) (ae_id ev) \<noteq> None
      then Inl (ValueError (''duplicate evidence id: '' @ ae_id ev))
      else Inr (st\<lparr>au_evidence := dset (ae_id ev) ev (au_evidence st)\<rparr>))"

definition add_hypothesis :: "audit \<Rightarrow> hypothesis \<Rightarrow> audit result" where
  "add_hypothesis st h =
     (if dget (au_hypotheses st) (ah_id h) \<noteq> None
      then Inl (ValueError (''duplicate hypothesis id: '' @ ah_id h))
      else Inr (st\<lparr>au_hypotheses := dset (ah_id h) h (au_hypotheses st)\<rparr>))"

definition support :: "audit \<Rightarrow> string \<Rightarrow> string \<Rightarrow> audit result" where
  "support st hid eid =
     (if eid \<in> au_retracted st then Inl (ValueError (''evidence is retracted: '' @ eid))
      else case dget (au_hypotheses st) hid of
        None \<Rightarrow> Inl KeyError
      | Some h \<Rightarrow>
          (case dget (au_evidence st) eid of
             None \<Rightarrow> Inl KeyError
           | Some _ \<Rightarrow>
               let h' = h\<lparr>ah_supported := insert eid (ah_supported h),
                          ah_status := (if ah_status h = Unverified then Supported else ah_status h)\<rparr>
               in Inr (st\<lparr>au_hypotheses := dset hid h' (au_hypotheses st)\<rparr>)))"

section \<open>Retraction\<close>

text \<open>The hypotheses whose last support the retraction takes.\<close>

definition unsupported :: "string \<Rightarrow> string set \<Rightarrow> hypothesis list \<Rightarrow> string set" where
  "unsupported eid retracted hs =
     set (map ah_id (filter (\<lambda>h. eid \<in> ah_supported h \<and> ah_supported h \<subseteq> retracted) hs))"

definition dependents :: "string set \<Rightarrow> string set \<Rightarrow> hypothesis list \<Rightarrow> string set" where
  "dependents stale frontier hs =
     set (map ah_id (filter (\<lambda>h. ah_id h \<notin> stale \<and> ah_depends h \<inter> frontier \<noteq> {}) hs))"

lemma dependents_new: "dependents stale frontier hs \<subseteq> set (map ah_id hs) - stale"
  by (auto simp: dependents_def)

text \<open>The loop: what was just added is propagated until nothing is added.\<close>

function spread :: "hypothesis list \<Rightarrow> string set \<Rightarrow> string set \<Rightarrow> string set" where
  "spread hs stale frontier =
     (if frontier = {} then stale
      else let found = dependents stale frontier hs in spread hs (stale \<union> found) found)"
  by pat_completeness auto
termination
proof (relation "measure (\<lambda>(hs, stale, frontier).
    2 * card (set (map ah_id hs) - stale) + (if frontier = {} then 0 else 1))", simp, goal_cases)
  case (1 hs stale frontier found)
  show ?case
  proof (cases "found = {}")
    case False
    have "set (map ah_id hs) - (stale \<union> found) \<subset> set (map ah_id hs) - stale"
      using 1(2) False dependents_new [of stale frontier hs] by blast
    then have "card (set (map ah_id hs) - (stale \<union> found)) < card (set (map ah_id hs) - stale)"
      by (intro psubset_card_mono) simp_all
    then show ?thesis using 1(1) by simp
  qed (use 1(1) in simp)
qed

declare spread.simps [simp del]

definition retract :: "audit \<Rightarrow> string \<Rightarrow> (audit \<times> string set) result" where
  "retract st eid =
     (if dget (au_evidence st) eid = None then Inl KeyError
      else
        let retracted = insert eid (au_retracted st); hs = dvalues (au_hypotheses st);
            seeds = unsupported eid retracted hs; stale = spread hs seeds seeds
        in Inr (st\<lparr>au_retracted := retracted,
                   au_hypotheses := map (\<lambda>(k, h). (k, if k \<in> stale then h\<lparr>ah_status := StaleClaim\<rparr> else h))
                     (au_hypotheses st)\<rparr>, stale))"

section \<open>Rebuilding the ledger from a journal\<close>

definition command_of :: "payload \<Rightarrow> string option" where
  "command_of p =
     (case get p ''tool_input'' of
        PDict d \<Rightarrow>
          (case get d ''command'' of
             PStr s \<Rightarrow> if strip s = [] then None else Some (join '' '' (split_ws s))
           | _ \<Rightarrow> None)
      | _ \<Rightarrow> None)"

text \<open>The exit code as \<open>str\<close> shows it: \<open>isinstance(exit_code, int)\<close> also holds of a Boolean.\<close>

definition exit_code_text :: "payload \<Rightarrow> string option" where
  "exit_code_text p =
     (case get p ''tool_response'' of
        PDict d \<Rightarrow>
          (case get d ''exit_code'' of
             PInt n \<Rightarrow> Some (dec_int n)
           | PBool b \<Rightarrow> Some (if b then ''True'' else ''False'')
           | _ \<Rightarrow> None)
      | PStr s \<Rightarrow> map_option dec_int (exit_code_search s)
      | _ \<Rightarrow> None)"

definition outcome_line :: "string \<Rightarrow> string \<Rightarrow> string" where
  "outcome_line command exit = command @ '' -> exit '' @ exit"

text \<open>The last outcomes: command to the identifier of the evidence of its last result.\<close>

type_synonym outcomes = "(string, string) dict"

definition note_result :: "audit \<times> outcomes \<Rightarrow> int \<Rightarrow> string \<Rightarrow> string \<Rightarrow> (audit \<times> outcomes) result" where
  "note_result so step command exit =
     (case so of (st, seen) \<Rightarrow>
        let eid = ''e'' @ dec_int step in
        rbind (make_evidence eid ''tool_result'' (outcome_line command exit)) (\<lambda>ev.
        rbind (add_evidence st ev) (\<lambda>st1.
        case dget seen command of
          None \<Rightarrow> Inr (st1, dset command eid seen)
        | Some previous \<Rightarrow>
            (case dget (au_evidence st1) previous of
               None \<Rightarrow> Inl KeyError
             | Some old \<Rightarrow>
                 if after_last '' '' (ae_description old) \<noteq> exit
                 then rbind (retract st1 previous) (\<lambda>(st2, _). Inr (st2, dset command eid seen))
                 else Inr (st1, dset command eid seen)))))"

definition note_claim :: "audit \<Rightarrow> int \<Rightarrow> payload \<Rightarrow> audit result" where
  "note_claim st step p =
     (case get p ''hypothesis'' of
        PStr s \<Rightarrow>
          if strip s = [] then Inr st
          else add_hypothesis st \<lparr>ah_id = ''h'' @ dec_int step, ah_claim = strip s,
            ah_supported = set (dkeys (au_evidence st)) - au_retracted st, ah_depends = {},
            ah_status = Unverified\<rparr>
      | _ \<Rightarrow> Inr st)"

definition audit_record :: "audit \<times> outcomes \<Rightarrow> step_record \<Rightarrow> (audit \<times> outcomes) result" where
  "audit_record so r =
     (let p = ev_payload (sr_event r); kind = ev_kind (sr_event r) in
      if kind = ''tool_result'' then
        (case (command_of p, exit_code_text p) of
           (Some command, Some exit) \<Rightarrow> note_result so (sr_step r) command exit
         | _ \<Rightarrow> Inr so)
      else if kind = ''reviewer_decision'' then
        rbind (note_claim (fst so) (sr_step r) p) (\<lambda>st. Inr (st, snd so))
      else Inr so)"

fun audit_records :: "audit \<times> outcomes \<Rightarrow> step_record list \<Rightarrow> (audit \<times> outcomes) result" where
  "audit_records so [] = Inr so"
| "audit_records so (r # rs) = rbind (audit_record so r) (\<lambda>so'. audit_records so' rs)"

definition build_state :: "step_record list \<Rightarrow> audit result" where
  "build_state records = rbind (audit_records (empty_audit, []) records) (\<lambda>(st, _). Inr st)"

text \<open>\<open>state.evidence[id]\<close> of an identifier that is not there raises \<open>KeyError\<close>.\<close>

fun retracted_lines :: "audit \<Rightarrow> string list \<Rightarrow> string list result" where
  "retracted_lines st [] = Inr []"
| "retracted_lines st (i # is) =
     (case dget (au_evidence st) i of
        None \<Rightarrow> Inl KeyError
      | Some ev \<Rightarrow> rbind (retracted_lines st is) (\<lambda>ls. Inr ((''RETRACTED '' @ ae_description ev) # ls)))"

definition stale_summary :: "audit \<Rightarrow> string list result" where
  "stale_summary st =
     rbind (retracted_lines st (sorted_list_of_set (au_retracted st))) (\<lambda>ls.
     Inr (ls @ map (\<lambda>h. ''STALE hypothesis: '' @ ah_claim h)
       (filter (\<lambda>h. ah_status h = StaleClaim) (dvalues (au_hypotheses st)))))"

end
