(* ===== verification/Audit_Claims.thy ===== *)
theory Audit_Claims
  imports Audit_State
begin

text \<open>
  Properties of the audit ledger: staleness reaches exactly what rested on the retracted
  evidence, and a rebuilt ledger holds exactly the observed outcomes.
\<close>

section \<open>The invariant\<close>

definition audit_inv :: "audit \<Rightarrow> bool" where
  "audit_inv st \<longleftrightarrow> dict_ok (au_evidence st) \<and> dict_ok (au_hypotheses st)
     \<and> (\<forall>k ev. dget (au_evidence st) k = Some ev \<longrightarrow> ae_id ev = k \<and> ae_source ev \<in> set valid_sources)
     \<and> (\<forall>k h. dget (au_hypotheses st) k = Some h \<longrightarrow> ah_id h = k)
     \<and> (\<forall>k \<in> au_retracted st. dget (au_evidence st) k \<noteq> None)"

inductive audit_reach :: "audit \<Rightarrow> bool" where
  empty: "audit_reach empty_audit"
| evidence: "audit_reach st \<Longrightarrow> make_evidence i source words = Inr ev \<Longrightarrow> add_evidence st ev = Inr st' \<Longrightarrow> audit_reach st'"
| claim: "audit_reach st \<Longrightarrow> add_hypothesis st h = Inr st' \<Longrightarrow> audit_reach st'"
| support: "audit_reach st \<Longrightarrow> support st hid eid = Inr st' \<Longrightarrow> audit_reach st'"
| retract: "audit_reach st \<Longrightarrow> retract st eid = Inr (st', stale) \<Longrightarrow> audit_reach st'"

lemma dget_map_values: "dget (map (\<lambda>(k, v). (k, f k v)) d) k = map_option (f k) (dget d k)"
  by (induction d) (auto simp: dict_eval)

lemma dict_ok_map_values: "dict_ok (map (\<lambda>(k, v). (k, f k v)) d) = dict_ok d"
  by (simp add: dict_ok_def comp_def case_prod_beta)

lemma make_evidence_ok: "make_evidence i source words = Inr ev \<longleftrightarrow> source \<in> set valid_sources
    \<and> ev = \<lparr>ae_id = i, ae_source = source, ae_description = words\<rparr>"
  by (auto simp: make_evidence_def)

lemma add_evidence_ok: "add_evidence st ev = Inr st' \<longleftrightarrow> dget (au_evidence st) (ae_id ev) = None
    \<and> st' = st\<lparr>au_evidence := dset (ae_id ev) ev (au_evidence st)\<rparr>"
  by (auto simp: add_evidence_def)

lemma add_hypothesis_ok: "add_hypothesis st h = Inr st' \<longleftrightarrow> dget (au_hypotheses st) (ah_id h) = None
    \<and> st' = st\<lparr>au_hypotheses := dset (ah_id h) h (au_hypotheses st)\<rparr>"
  by (auto simp: add_hypothesis_def)

lemma audit_reach_inv: "audit_reach st \<Longrightarrow> audit_inv st"
proof (induction rule: audit_reach.induct)
  case empty
  then show ?case by (simp add: audit_inv_def empty_audit_def)
next
  case (evidence st i source words ev st')
  then show ?case by (auto simp: audit_inv_def make_evidence_ok add_evidence_ok)
next
  case (claim st h st')
  then show ?case by (auto simp: audit_inv_def add_hypothesis_ok)
next
  case (support st hid eid st')
  then show ?case by (auto simp: audit_inv_def support_def Let_def split: if_splits option.splits)
next
  case (retract st eid st' stale)
  then show ?case
    by (auto simp: audit_inv_def retract_def Let_def dget_map_values dict_ok_map_values split: if_splits)
qed

section \<open>Propagation\<close>

definition claim_deps :: "hypothesis list \<Rightarrow> (string \<times> string) set" where
  "claim_deps hs = {(a, b). \<exists>h \<in> set hs. ah_id h = b \<and> a \<in> ah_depends h}"

lemma dependents_iff: "b \<in> dependents stale frontier hs \<longleftrightarrow> b \<notin> stale \<and> (\<exists>a \<in> frontier. (a, b) \<in> claim_deps hs)"
  by (auto simp: dependents_def claim_deps_def)

lemma spread_closure:
  assumes "frontier \<subseteq> stale" and "\<And>a b. (a, b) \<in> claim_deps hs \<Longrightarrow> a \<in> stale - frontier \<Longrightarrow> b \<in> stale"
  shows "spread hs stale frontier = (claim_deps hs)\<^sup>* `` stale"
  using assms
proof (induction hs stale frontier rule: spread.induct)
  case (1 hs stale frontier)
  show ?case
  proof (cases "frontier = {}")
    case True
    then have "(claim_deps hs)\<^sup>* `` stale = stale"
      using 1(3) by (intro Image_closed_trancl) auto
    with True show ?thesis by (simp add: spread.simps)
  next
    case False
    let ?found = "dependents stale frontier hs"
    have closed: "b \<in> stale \<union> ?found" if "(a, b) \<in> claim_deps hs" "a \<in> stale \<union> ?found - ?found" for a b
      using that 1(3) [of a b] by (cases "a \<in> frontier") (auto simp: dependents_iff)
    have "?found \<subseteq> (claim_deps hs)\<^sup>* `` stale"
    proof
      fix x assume "x \<in> ?found"
      then obtain a where "a \<in> frontier" "(a, x) \<in> claim_deps hs" by (auto simp: dependents_iff)
      with 1(2) show "x \<in> (claim_deps hs)\<^sup>* `` stale" by (intro ImageI r_into_rtrancl) auto
    qed
    then have "(claim_deps hs)\<^sup>* `` (stale \<union> ?found) = (claim_deps hs)\<^sup>* `` stale"
      by (auto intro: rtrancl_trans)
    moreover have "spread hs (stale \<union> ?found) ?found = (claim_deps hs)\<^sup>* `` (stale \<union> ?found)"
      by (rule 1(1) [OF False refl]) (use closed in auto)
    ultimately show ?thesis using False by (simp add: spread.simps [of hs stale] Let_def)
  qed
qed

text \<open>C38: Retracting evidence is exact: the hypotheses reported and marked stale are those all of
  whose support has been retracted, this evidence included, and whatever rests on them through
  any chain of dependencies, cycles included; every other hypothesis and all evidence stay as
  they were.\<close>

theorem retract_exact:
  assumes "audit_reach st" and "retract st eid = Inr (st', stale)"
  shows "stale = (claim_deps (dvalues (au_hypotheses st)))\<^sup>* `` {ah_id h | h. h \<in> set (dvalues (au_hypotheses st))
        \<and> eid \<in> ah_supported h \<and> ah_supported h \<subseteq> insert eid (au_retracted st)}
    \<and> au_retracted st' = insert eid (au_retracted st) \<and> au_evidence st' = au_evidence st
    \<and> dget (au_hypotheses st') k = map_option (\<lambda>h. if k \<in> stale then h\<lparr>ah_status := StaleClaim\<rparr> else h)
        (dget (au_hypotheses st) k)"
proof -
  let ?hs = "dvalues (au_hypotheses st)"
  let ?seeds = "unsupported eid (insert eid (au_retracted st)) ?hs"
  have st: "stale = spread ?hs ?seeds ?seeds" "au_retracted st' = insert eid (au_retracted st)"
    "au_evidence st' = au_evidence st"
    "au_hypotheses st' = map (\<lambda>(k, h). (k, if k \<in> stale then h\<lparr>ah_status := StaleClaim\<rparr> else h)) (au_hypotheses st)"
    using assms(2) by (auto simp: retract_def Let_def split: if_splits)
  have "stale = (claim_deps ?hs)\<^sup>* `` ?seeds" unfolding st(1) by (rule spread_closure) auto
  moreover have "?seeds = {ah_id h | h. h \<in> set ?hs \<and> eid \<in> ah_supported h \<and> ah_supported h \<subseteq> insert eid (au_retracted st)}"
    by (auto simp: unsupported_def)
  ultimately show ?thesis using st(2,3) by (simp add: st(4) dget_map_values)
qed

section \<open>Rebuilding\<close>

text \<open>The outcomes a journal shows: identifier, command, exit code.\<close>

definition outcome_of :: "step_record \<Rightarrow> (string \<times> string \<times> string) option" where
  "outcome_of r =
     (if ev_kind (sr_event r) = ''tool_result'' then
        (case (command_of (ev_payload (sr_event r)), exit_code_text (ev_payload (sr_event r))) of
           (Some c, Some x) \<Rightarrow> Some (''e'' @ dec_int (sr_step r), c, x) | _ \<Rightarrow> None)
      else None)"

definition observed_outcomes :: "step_record list \<Rightarrow> (string \<times> string \<times> string) list" where
  "observed_outcomes rs = List.map_filter outcome_of rs"

text \<open>The outcomes whose command next showed another exit code.\<close>

definition contradicted :: "(string \<times> string \<times> string) list \<Rightarrow> string set" where
  "contradicted os = {i. \<exists>before c x between j y after. os = before @ (i, c, x) # between @ (j, c, y) # after
     \<and> c \<notin> (fst \<circ> snd) ` set between \<and> x \<noteq> y}"

definition latest :: "(string \<times> string \<times> string) list \<Rightarrow> string \<Rightarrow> (string \<times> string) option" where
  "latest os c = map_option (\<lambda>(i, _, x). (i, x)) (find (\<lambda>(i, c', x). c' = c) (rev os))"

lemma latest_snoc: "latest (os @ [(i, c, x)]) c' = (if c' = c then Some (i, x) else latest os c')"
  by (simp add: latest_def)

lemma latest_iff:
  "latest os c = Some (i, x) \<longleftrightarrow> (\<exists>before between. os = before @ (i, c, x) # between \<and> c \<notin> (fst \<circ> snd) ` set between)"
proof (induction os rule: rev_induct)
  case (snoc o1 os)
  obtain i' c' x' where o1: "o1 = (i', c', x')" by (cases o1)
  have "(\<exists>before between. os @ [o1] = before @ (i, c, x) # between \<and> c \<notin> (fst \<circ> snd) ` set between)
      \<longleftrightarrow> o1 = (i, c, x) \<or> (c' \<noteq> c \<and> (\<exists>before between. os = before @ (i, c, x) # between \<and> c \<notin> (fst \<circ> snd) ` set between))"
    (is "?L \<longleftrightarrow> ?R")
  proof
    assume ?L
    then obtain before between where *: "os @ [o1] = before @ (i, c, x) # between" "c \<notin> (fst \<circ> snd) ` set between" by blast
    then show ?R by (cases between rule: rev_cases) (auto simp: o1)
  next
    assume ?R
    then show ?L
    proof
      assume "o1 = (i, c, x)"
      then show ?L by (intro exI [of _ os] exI [of _ "[]"]) simp
    next
      assume "c' \<noteq> c \<and> (\<exists>before between. os = before @ (i, c, x) # between \<and> c \<notin> (fst \<circ> snd) ` set between)"
      then obtain before between where "c' \<noteq> c" "os = before @ (i, c, x) # between" "c \<notin> (fst \<circ> snd) ` set between"
        by blast
      then show ?L by (intro exI [of _ before] exI [of _ "between @ [o1]"]) (auto simp: o1)
    qed
  qed
  with snoc show ?case by (auto simp: latest_snoc o1)
qed (simp add: latest_def)

lemma contradicted_snoc:
  "contradicted (os @ [(j, c, y)]) = contradicted os
     \<union> (case latest os c of Some (i, x) \<Rightarrow> if x \<noteq> y then {i} else {} | None \<Rightarrow> {})"
  (is "?L = ?R")
proof (rule set_eqI)
  fix i
  have "i \<in> ?L \<longleftrightarrow> i \<in> contradicted os \<or> (\<exists>x. latest os c = Some (i, x) \<and> x \<noteq> y)"
  proof
    assume "i \<in> ?L"
    then obtain before c' x between j' y' after where
      *: "os @ [(j, c, y)] = before @ (i, c', x) # between @ (j', c', y') # after"
        "c' \<notin> (fst \<circ> snd) ` set between" "x \<noteq> y'" by (auto simp: contradicted_def)
    show "i \<in> contradicted os \<or> (\<exists>x. latest os c = Some (i, x) \<and> x \<noteq> y)"
    proof (cases after rule: rev_cases)
      case Nil
      with * have "os = before @ (i, c, x) # between" "c = c'" "y = y'" by auto
      with * show ?thesis by (auto simp: latest_iff)
    next
      case (snoc after' z)
      with *(1) have "os = before @ (i, c', x) # between @ (j', c', y') # after'" by auto
      with * show ?thesis unfolding contradicted_def by blast
    qed
  next
    assume "i \<in> contradicted os \<or> (\<exists>x. latest os c = Some (i, x) \<and> x \<noteq> y)"
    then show "i \<in> ?L"
    proof (elim disjE exE conjE)
      assume "i \<in> contradicted os"
      then obtain before c' x between j' y' after where
        "os = before @ (i, c', x) # between @ (j', c', y') # after" "c' \<notin> (fst \<circ> snd) ` set between" "x \<noteq> y'"
        by (auto simp: contradicted_def)
      then show ?thesis unfolding contradicted_def
        by (intro CollectI exI [of _ before] exI [of _ c'] exI [of _ x] exI [of _ between] exI [of _ j']
            exI [of _ y'] exI [of _ "after @ [(j, c, y)]"]) simp
    next
      fix x assume "latest os c = Some (i, x)" "x \<noteq> y"
      then obtain before between where "os = before @ (i, c, x) # between" "c \<notin> (fst \<circ> snd) ` set between"
        by (auto simp: latest_iff)
      with \<open>x \<noteq> y\<close> show ?thesis unfolding contradicted_def
        by (intro CollectI exI [of _ before] exI [of _ c] exI [of _ x] exI [of _ between] exI [of _ j]
            exI [of _ y] exI [of _ "[]"]) simp
    qed
  qed
  then show "i \<in> ?L \<longleftrightarrow> i \<in> ?R" by (auto split: option.split)
qed

text \<open>The exit code is read back from the description: it has no space.\<close>

lemma contains_space: "contains '' '' s \<longleftrightarrow> CHR '' '' \<in> set s"
  by (induction s) (auto simp: startswith_def)

lemma after_last_space: "CHR '' '' \<notin> set x \<Longrightarrow> after_last '' '' (w @ CHR '' '' # x) = x"
proof (induction w)
  case Nil
  then show ?case by (simp add: contains_space startswith_def)
qed (simp add: contains_space)

lemma exit_of_line: "CHR '' '' \<notin> set x \<Longrightarrow> after_last '' '' (outcome_line c x) = x"
  using after_last_space [of x "c @ '' -> exit''"] by (simp add: outcome_line_def)

lemma dec_int_no_space: "CHR '' '' \<notin> set (dec_int n)"
  using dec_pos_digits [of "\<bar>n\<bar>" "CHR '' ''"] by (auto simp: dec_int_def is_digit_def code_def)

lemma exit_code_text_no_space: "exit_code_text p = Some x \<Longrightarrow> CHR '' '' \<notin> set x"
  by (auto simp: exit_code_text_def dec_int_no_space split: pyval.splits if_splits)

definition entry_of :: "string \<times> string \<times> string \<Rightarrow> string \<times> evidence" where
  "entry_of o1 = (case o1 of (i, c, x) \<Rightarrow>
     (i, \<lparr>ae_id = i, ae_source = ''tool_result'', ae_description = outcome_line c x\<rparr>))"

text \<open>A claim is open until all the evidence it was made on has been retracted.\<close>

definition claim_ok :: "string set \<Rightarrow> hypothesis \<Rightarrow> bool" where
  "claim_ok retracted h \<longleftrightarrow> ah_depends h = {}
     \<and> ah_status h = (if ah_supported h \<noteq> {} \<and> ah_supported h \<subseteq> retracted then StaleClaim else Unverified)"

definition rebuilt :: "(string \<times> string \<times> string) list \<Rightarrow> audit \<times> outcomes \<Rightarrow> bool" where
  "rebuilt os so \<longleftrightarrow> (case so of (st, seen) \<Rightarrow> au_evidence st = map entry_of os \<and> distinct (map fst os)
     \<and> (\<forall>(i, c, x) \<in> set os. CHR '' '' \<notin> set x) \<and> (\<forall>c. dget seen c = map_option fst (latest os c))
     \<and> au_retracted st = contradicted os \<and> dict_ok (au_hypotheses st)
     \<and> (\<forall>k h. dget (au_hypotheses st) k = Some h \<longrightarrow> ah_id h = k \<and> claim_ok (au_retracted st) h))"

lemma dget_entries: "distinct (map fst os) \<Longrightarrow> (i, c, x) \<in> set os \<Longrightarrow>
    dget (map entry_of os) i = Some (snd (entry_of (i, c, x)))"
  by (induction os) (force simp: dict_eval entry_of_def)+

lemma dget_entries_None: "dget (map entry_of os) i = None \<longleftrightarrow> i \<notin> fst ` set os"
  by (induction os) (auto simp: dict_eval entry_of_def split: if_splits)

lemma latest_in: "latest os c = Some (i, x) \<Longrightarrow> (i, c, x) \<in> set os"
  by (auto simp: latest_iff)

lemma spread_no_deps:
  assumes "\<And>h. h \<in> set hs \<Longrightarrow> ah_depends h = {}" shows "spread hs stale stale = stale"
proof -
  have "claim_deps hs = {}" using assms by (auto simp: claim_deps_def)
  then show ?thesis using spread_closure [of stale stale hs] by simp
qed

lemma unsupported_id:
  assumes "dict_ok hyps" and "\<And>k h. dget hyps k = Some h \<Longrightarrow> ah_id h = k" and "dget hyps k = Some h"
  shows "k \<in> unsupported e R (dvalues hyps) \<longleftrightarrow> e \<in> ah_supported h \<and> ah_supported h \<subseteq> R"
  using assms by (fastforce simp: unsupported_def in_dvalues)

lemma retract_claims:
  assumes ok: "dict_ok (au_hypotheses st)"
    and claims: "\<And>k h. dget (au_hypotheses st) k = Some h \<Longrightarrow> ah_id h = k \<and> claim_ok (au_retracted st) h"
    and r: "retract st e = Inr (st', stale)"
  shows "au_evidence st' = au_evidence st" and "au_retracted st' = insert e (au_retracted st)"
    and "dict_ok (au_hypotheses st')"
    and "dget (au_hypotheses st') k = Some h \<Longrightarrow> ah_id h = k \<and> claim_ok (au_retracted st') h"
proof -
  let ?R = "insert e (au_retracted st)" and ?hs = "dvalues (au_hypotheses st)"
  have "stale = spread ?hs (unsupported e ?R ?hs) (unsupported e ?R ?hs)" and st:
    "au_hypotheses st' = map (\<lambda>(k, h). (k, if k \<in> stale then h\<lparr>ah_status := StaleClaim\<rparr> else h)) (au_hypotheses st)"
    and parts: "au_evidence st' = au_evidence st" "au_retracted st' = ?R"
    using r by (auto simp: retract_def Let_def split: if_splits)
  then have stale: "stale = unsupported e ?R ?hs"
    using claims ok by (simp add: spread_no_deps in_dvalues claim_ok_def) (metis claim_ok_def spread_no_deps in_dvalues)
  show "au_evidence st' = au_evidence st" "au_retracted st' = ?R" by (rule parts)+
  show "dict_ok (au_hypotheses st')" by (simp add: st dict_ok_map_values ok)
  assume "dget (au_hypotheses st') k = Some h"
  then obtain h0 where h0: "dget (au_hypotheses st) k = Some h0"
    "h = (if k \<in> stale then h0\<lparr>ah_status := StaleClaim\<rparr> else h0)"
    by (auto simp: st dget_map_values)
  moreover have "k \<in> stale \<longleftrightarrow> e \<in> ah_supported h0 \<and> ah_supported h0 \<subseteq> ?R"
    unfolding stale by (rule unsupported_id [OF ok _ h0(1)]) (use claims in blast)
  ultimately show "ah_id h = k \<and> claim_ok (au_retracted st') h"
    using claims [OF h0(1)] by (auto simp: claim_ok_def parts)
qed

lemma rebuilt_result:
  assumes inv: "rebuilt os (st, seen)" and x: "CHR '' '' \<notin> set x"
    and r: "note_result (st, seen) n c x = Inr so'"
  shows "rebuilt (os @ [(''e'' @ dec_int n, c, x)]) so'"
proof -
  let ?i = "''e'' @ dec_int n" and ?os = "os @ [(''e'' @ dec_int n, c, x)]"
  let ?st = "st\<lparr>au_evidence := map entry_of ?os\<rparr>"
  have inv': "au_evidence st = map entry_of os" "distinct (map fst os)"
    "\<And>i c x. (i, c, x) \<in> set os \<Longrightarrow> CHR '' '' \<notin> set x" "\<And>c. dget seen c = map_option fst (latest os c)"
    "au_retracted st = contradicted os" "dict_ok (au_hypotheses st)"
    "\<And>k h. dget (au_hypotheses st) k = Some h \<Longrightarrow> ah_id h = k \<and> claim_ok (au_retracted st) h"
    using inv by (auto simp: rebuilt_def)
  have fresh: "?i \<notin> fst ` set os"
    using r by (auto simp: note_result_def make_evidence_ok add_evidence_ok inv'(1) dget_entries_None Let_def)
  then have added: "add_evidence st (snd (entry_of (?i, c, x))) = Inr ?st"
    by (simp add: add_evidence_ok inv'(1) dset_new dget_entries_None entry_of_def)
  have made: "make_evidence ?i ''tool_result'' (outcome_line c x) = Inr (snd (entry_of (?i, c, x)))"
    by (simp add: make_evidence_def valid_sources_def entry_of_def)
  have ev: "au_evidence ?st = map entry_of ?os" by simp
  have cont: "(case dget seen c of None \<Rightarrow> Inr (?st, dset c ?i seen)
      | Some previous \<Rightarrow> (case dget (map entry_of ?os) previous of None \<Rightarrow> Inl KeyError
         | Some old \<Rightarrow> if after_last '' '' (ae_description old) \<noteq> x
             then rbind (retract ?st previous) (\<lambda>(st2, _). Inr (st2, dset c ?i seen))
             else Inr (?st, dset c ?i seen))) = Inr so'"
    using r unfolding note_result_def by (simp only: prod.case Let_def made added rbind.simps ev)
  have d: "distinct (map fst ?os)" using fresh inv'(2) by auto
  have seen: "dget (dset c ?i seen) c' = map_option fst (latest ?os c')" for c'
    by (simp add: latest_snoc inv'(4))
  have spaces: "\<forall>(i, c, x) \<in> set ?os. CHR '' '' \<notin> set x" using inv'(3) x by auto
  have build: "rebuilt ?os (st2, dset c ?i seen)"
    if "au_evidence st2 = map entry_of ?os" "au_retracted st2 = contradicted ?os" "dict_ok (au_hypotheses st2)"
      "\<And>k h. dget (au_hypotheses st2) k = Some h \<Longrightarrow> ah_id h = k \<and> claim_ok (au_retracted st2) h" for st2
    unfolding rebuilt_def prod.case by (intro conjI allI impI that d spaces seen) (simp_all add: that)
  have kept: "rebuilt ?os (?st, dset c ?i seen)" if "contradicted ?os = contradicted os"
    by (rule build) (use that inv'(5-7) in auto)
  show ?thesis
  proof (cases "latest os c")
    case None
    with cont show ?thesis using kept by (simp add: inv'(4) contradicted_snoc)
  next
    case (Some p)
    obtain i0 x0 where p: "p = (i0, x0)" by (cases p)
    have "(i0, c, x0) \<in> set os" using Some latest_in by (simp add: p)
    then have old: "dget (map entry_of ?os) i0 = Some (snd (entry_of (i0, c, x0)))"
      and exit: "after_last '' '' (ae_description (snd (entry_of (i0, c, x0)))) = x0"
      using dget_entries [OF d] inv'(3) by (auto simp: entry_of_def exit_of_line)
    show ?thesis
    proof (cases "x0 = x")
      case True
      with cont old exit Some show ?thesis using kept by (simp add: inv'(4) p contradicted_snoc)
    next
      case False
      obtain st2 stale where r2: "retract ?st i0 = Inr (st2, stale)" and so': "so' = (st2, dset c ?i seen)"
        using cont old exit Some False by (auto simp: inv'(4) p)
      have contr: "contradicted ?os = insert i0 (contradicted os)"
        using Some False by (simp add: p contradicted_snoc)
      have pre: "dict_ok (au_hypotheses ?st)" using inv'(6) by simp
      have "ah_id h = k \<and> claim_ok (au_retracted ?st) h" if "dget (au_hypotheses ?st) k = Some h" for k h
        using inv'(7) that by simp
      note after = retract_claims [OF pre this r2]
      show ?thesis unfolding so'
      proof (rule build)
        show "au_evidence st2 = map entry_of ?os" "dict_ok (au_hypotheses st2)"
          using after(1,3) by simp_all
        show "au_retracted st2 = contradicted ?os" unfolding contr using after(2) inv'(5) by simp
      qed (rule after(4))
    qed
  qed
qed

lemma rebuilt_claim:
  assumes inv: "rebuilt os (st, seen)" and r: "note_claim st n p = Inr st'"
  shows "rebuilt os (st', seen)"
proof -
  let ?live = "set (dkeys (au_evidence st)) - au_retracted st"
  let ?h = "\<lambda>s. \<lparr>ah_id = ''h'' @ dec_int n, ah_claim = strip s, ah_supported = ?live, ah_depends = {},
      ah_status = Unverified\<rparr>"
  have "st' = st \<or> (\<exists>s. add_hypothesis st (?h s) = Inr st')"
    using r by (auto simp: note_claim_def split: pyval.splits if_splits)
  then show ?thesis
  proof (elim disjE exE)
    fix s assume "add_hypothesis st (?h s) = Inr st'"
    then have st': "st' = st\<lparr>au_hypotheses := dset (''h'' @ dec_int n) (?h s) (au_hypotheses st)\<rparr>"
      by (simp add: add_hypothesis_ok)
    have "claim_ok (au_retracted st) (?h s)" by (auto simp: claim_ok_def)
    then have "ah_id h = k \<and> claim_ok (au_retracted st') h" if "dget (au_hypotheses st') k = Some h" for k h
      using inv that by (auto simp: rebuilt_def st' split: if_splits)
    moreover have "dict_ok (au_hypotheses st')" "au_evidence st' = au_evidence st" "au_retracted st' = au_retracted st"
      using inv by (simp_all add: rebuilt_def st')
    ultimately show ?thesis using inv unfolding rebuilt_def prod.case by metis
  qed (use inv in simp)
qed

lemma observed_snoc: "observed_outcomes (rs @ [r]) =
    observed_outcomes rs @ (case outcome_of r of None \<Rightarrow> [] | Some o1 \<Rightarrow> [o1])"
  by (simp add: observed_outcomes_def List.map_filter_def split: option.split)

lemma rebuilt_record:
  assumes inv: "rebuilt (observed_outcomes rs) so" and r: "audit_record so rec = Inr so'"
  shows "rebuilt (observed_outcomes (rs @ [rec])) so'"
proof -
  let ?p = "ev_payload (sr_event rec)"
  obtain st seen where so: "so = (st, seen)" by (cases so)
  consider (result) c x where "ev_kind (sr_event rec) = ''tool_result''" "command_of ?p = Some c" "exit_code_text ?p = Some x"
    | (claim) "ev_kind (sr_event rec) = ''reviewer_decision''"
    | (other) "outcome_of rec = None" "so' = so"
    using r by (auto simp: audit_record_def outcome_of_def Let_def split: option.splits if_splits)
  then show ?thesis
  proof cases
    case result
    then have "note_result (st, seen) (sr_step rec) c x = Inr so'" using r by (simp add: audit_record_def so)
    then show ?thesis
      using rebuilt_result [OF inv [unfolded so] exit_code_text_no_space [OF result(3)]] result
      by (simp add: observed_snoc outcome_of_def)
  next
    case claim
    then obtain st' where "note_claim st (sr_step rec) ?p = Inr st'" "so' = (st', seen)"
      using r by (auto simp: audit_record_def so)
    then show ?thesis using rebuilt_claim [OF inv [unfolded so]] claim by (simp add: observed_snoc outcome_of_def)
  next
    case other
    then show ?thesis using inv by (simp add: observed_snoc)
  qed
qed

lemma rebuilt_records:
  "rebuilt (observed_outcomes rs0) so \<Longrightarrow> audit_records so rs = Inr so' \<Longrightarrow> rebuilt (observed_outcomes (rs0 @ rs)) so'"
proof (induction rs arbitrary: rs0 so)
  case (Cons r rs)
  then obtain so1 where "audit_record so r = Inr so1" "audit_records so1 rs = Inr so'" by auto
  with Cons.IH [of "rs0 @ [r]" so1] rebuilt_record [OF Cons.prems(1)] show ?case by simp
qed simp


section \<open>A sample journal\<close>

text \<open>A test that passes twice, a reviewer claim made on both results, then the same test failing.\<close>

definition journal_record :: "int \<Rightarrow> string \<Rightarrow> payload \<Rightarrow> step_record" where
  "journal_record n kind p = \<lparr>sr_step = n,
     sr_event = \<lparr>ev_kind = kind, ev_payload = p, ev_id = None, ev_at = None, ev_identity = None, ev_operation = None,
       ev_item = None, ev_provenance = None, ev_epoch = None, ev_arrival = None, ev_monotonic = None,
       ev_clock = None, ev_config = None\<rparr>,
     sr_snapshot = None, sr_at = None, sr_version = 1\<rparr>"

definition run_record :: "int \<Rightarrow> int \<Rightarrow> step_record" where
  "run_record n exit = journal_record n ''tool_result''
     [(''tool_input'', PDict [(''command'', PStr ''t'')]), (''tool_response'', PDict [(''exit_code'', PInt exit)])]"

definition flaky_journal :: "step_record list" where
  "flaky_journal = [run_record 1 0, run_record 2 0,
     journal_record 3 ''reviewer_decision'' [(''hypothesis'', PStr ''ok'')], run_record 4 1]"

lemma flaky_rebuild: "case build_state flaky_journal of Inl _ \<Rightarrow> False
    | Inr st \<Rightarrow> au_retracted st = {''e2''} \<and> dkeys (au_evidence st) = [''e1'', ''e2'', ''e4'']
        \<and> map ah_status (dvalues (au_hypotheses st)) = [Unverified]
        \<and> stale_summary st = Inr [''RETRACTED t -> exit 0'']"
  by code_simp


text \<open>Only the last of several equal outcomes is retracted: the first pass of the test stays live
  evidence after it failed, and the claim that rested on the passes alone is not stale.\<close>

theorem equal_outcome_survives:
  "\<exists>st. build_state flaky_journal = Inr st \<and> ''e1'' \<notin> au_retracted st
     \<and> map ae_description (dvalues (au_evidence st)) = [''t -> exit 0'', ''t -> exit 0'', ''t -> exit 1'']
     \<and> map ah_status (dvalues (au_hypotheses st)) = [Unverified]"
proof -
  have "case build_state flaky_journal of Inl _ \<Rightarrow> False
    | Inr st \<Rightarrow> ''e1'' \<notin> au_retracted st
        \<and> map ae_description (dvalues (au_evidence st)) = [''t -> exit 0'', ''t -> exit 0'', ''t -> exit 1'']
        \<and> map ah_status (dvalues (au_hypotheses st)) = [Unverified]"
    by code_simp
  then show ?thesis by (cases "build_state flaky_journal") auto
qed

text \<open>A claim on one result, a second claim that depends on it, and the second on itself.\<close>

definition chained_claims :: "hypothesis list" where
  "chained_claims =
     [\<lparr>ah_id = ''h1'', ah_claim = ''a'', ah_supported = {''e1''}, ah_depends = {}, ah_status = Supported\<rparr>,
      \<lparr>ah_id = ''h2'', ah_claim = ''b'', ah_supported = {}, ah_depends = {''h1'', ''h2''}, ah_status = Unverified\<rparr>]"

definition chained_audit :: audit where
  "chained_audit = \<lparr>au_evidence = [(''e1'', \<lparr>ae_id = ''e1'', ae_source = ''diff'', ae_description = ''d''\<rparr>)],
     au_hypotheses = map (\<lambda>h. (ah_id h, h)) chained_claims, au_retracted = {}\<rparr>"

lemma chained_reach: "audit_reach chained_audit"
proof -
  let ?ev = "\<lparr>ae_id = ''e1'', ae_source = ''diff'', ae_description = ''d''\<rparr>"
  let ?one = "empty_audit\<lparr>au_evidence := [(''e1'', ?ev)]\<rparr>"
  let ?two = "?one\<lparr>au_hypotheses := [(''h1'', chained_claims ! 0)]\<rparr>"
  have "audit_reach ?one"
    by (rule audit_reach.evidence [OF audit_reach.empty, of "''e1''" "''diff''" "''d''" ?ev])
      (simp_all add: make_evidence_def valid_sources_def add_evidence_def empty_audit_def dict_eval)
  then have "audit_reach ?two"
    by (rule audit_reach.claim [where h = "chained_claims ! 0"])
      (simp add: add_hypothesis_def empty_audit_def dict_eval chained_claims_def)
  then show ?thesis
    by (rule audit_reach.claim [where h = "chained_claims ! 1"])
      (simp add: add_hypothesis_def empty_audit_def dict_eval chained_claims_def chained_audit_def)
qed

lemma chained_retract: "case retract chained_audit ''e1'' of Inl _ \<Rightarrow> False
    | Inr (st, stale) \<Rightarrow> stale = {''h1'', ''h2''} \<and> au_retracted st = {''e1''}"
  by code_simp

theorem retract_exact_witness:
  "\<exists>st. retract chained_audit ''e1'' = Inr (st, {''h1'', ''h2''})
     \<and> map_option ah_status (dget (au_hypotheses st) ''h2'') = Some StaleClaim"
proof -
  obtain st where r: "retract chained_audit ''e1'' = Inr (st, {''h1'', ''h2''})"
    using chained_retract by (cases "retract chained_audit ''e1''") auto
  have "dget (au_hypotheses chained_audit) ''h2'' = Some (chained_claims ! 1)"
    by (simp add: chained_audit_def chained_claims_def dict_eval)
  with retract_exact [OF chained_reach r, of "''h2''"] r show ?thesis by auto
qed

end
