(* ===== verification/Py_Shlex.thy ===== *)
theory Py_Shlex
  imports Outcomes
begin

text \<open>
  The tokenizer both command readers use: \<open>shlex.shlex(command, posix=True,
  punctuation_chars=p)\<close> with \<open>whitespace_split = True\<close>, read to the end. Words end at blanks,
  runs of punctuation are words of their own, a number sign starts a comment even inside a
  word, quotes and the backslash escape as in a POSIX shell. The answer is \<open>None\<close> where the
  lexer raises \<open>ValueError\<close>: no closing quotation, or nothing after a backslash.
\<close>

section \<open>The lexer\<close>

definition backslash :: char where
  "backslash = CHR 0x5C"

definition single_quote :: char where
  "single_quote = CHR 0x27"

definition double_quote :: char where
  "double_quote = CHR 0x22"

definition lex_blank :: "char \<Rightarrow> bool" where
  "lex_blank c = (c \<in> set [CHR '' '', CHR 0x09, CHR 0x0D, newline])"

text \<open>An escape remembers the quote it stands in.\<close>

datatype lex_state = Blank | Word | Punct | Quote char | Escape "char option" | Comment

definition emit :: "string \<Rightarrow> bool \<Rightarrow> string list option \<Rightarrow> string list option" where
  "emit word quoted ws = (if word \<noteq> [] \<or> quoted then map_option (\<lambda>l. word # l) ws else ws)"

text \<open>What a character outside every word starts: the state and the word so far.\<close>

definition opens :: "string \<Rightarrow> char \<Rightarrow> lex_state \<times> string" where
  "opens p c =
     (if lex_blank c then (Blank, [])
      else if c = CHR ''#'' then (Comment, [])
      else if c = backslash then (Escape None, [])
      else if c \<in> set p then (Punct, [c])
      else if c = single_quote \<or> c = double_quote then (Quote c, [])
      else (Word, [c]))"

definition is_quote :: "lex_state \<Rightarrow> bool" where
  "is_quote st = (case st of Quote _ \<Rightarrow> True | _ \<Rightarrow> False)"

fun lex :: "string \<Rightarrow> lex_state \<Rightarrow> string \<Rightarrow> bool \<Rightarrow> string \<Rightarrow> string list option" where
  "lex p st w q [] =
     (case st of Quote _ \<Rightarrow> None | Escape _ \<Rightarrow> None | _ \<Rightarrow> emit w q (Some []))"
| "lex p st w q (c # cs) =
     (case st of
        Blank \<Rightarrow> (case opens p c of (st', w') \<Rightarrow> lex p st' w' (is_quote st') cs)
      | Comment \<Rightarrow> lex p (if c = newline then Blank else Comment) [] False cs
      | Quote k \<Rightarrow>
          if c = k then lex p Word w True cs
          else if c = backslash \<and> k = double_quote then lex p (Escape (Some k)) w True cs
          else lex p (Quote k) (w @ [c]) True cs
      | Escape k \<Rightarrow>
          lex p (case k of None \<Rightarrow> Word | Some k' \<Rightarrow> Quote k')
            (w @ (if k \<noteq> None \<and> c \<noteq> backslash \<and> k \<noteq> Some c then [backslash] else []) @ [c]) q cs
      | Punct \<Rightarrow>
          if lex_blank c then emit w q (lex p Blank [] False cs)
          else if c = CHR ''#'' then emit w q (lex p Comment [] False cs)
          else if c \<in> set p then lex p Punct (w @ [c]) q cs
          else emit w q (case opens p c of (st', w') \<Rightarrow> lex p st' w' (is_quote st') cs)
      | Word \<Rightarrow>
          if lex_blank c then emit w q (lex p Blank [] False cs)
          else if c = CHR ''#'' then emit w q (lex p Comment [] False cs)
          else if c = single_quote \<or> c = double_quote then lex p (Quote c) w True cs
          else if c = backslash then lex p (Escape None) w q cs
          else if c \<notin> set p then lex p Word (w @ [c]) q cs
          else emit w q (lex p Punct [c] False cs))"

definition shlex_list :: "string \<Rightarrow> string \<Rightarrow> string list option" where
  "shlex_list p s = lex p Blank [] False s"

section \<open>Size\<close>

text \<open>The tokens are no longer than the text; an escape inside quotes may give its backslash back.\<close>

definition owed :: "lex_state \<Rightarrow> nat" where
  "owed st = (case st of Escape k \<Rightarrow> (if k = None then 0 else 1) | _ \<Rightarrow> 0)"

lemma emit_Some: "emit w q ws = Some ts \<longleftrightarrow> (\<exists>us. ws = Some us \<and> ts = (if w \<noteq> [] \<or> q then w # us else us))"
  by (auto simp: emit_def)

lemma opens_size: "opens p c = (st, w) \<Longrightarrow> length w + owed st \<le> 1"
  by (auto simp: opens_def owed_def split: if_splits)

lemma lex_size: "lex p st w q s = Some ts \<Longrightarrow> sum_list (map length ts) \<le> length w + length s + owed st"
proof (induction s arbitrary: st w q ts)
  case Nil
  then show ?case by (auto simp: emit_Some split: lex_state.splits if_splits)
next
  case (Cons c cs)
  obtain st' w' where opened: "opens p c = (st', w')" by fastforce
  show ?case
    using Cons.prems opens_size [OF opened] opened
    by (cases st) (auto simp: emit_Some owed_def split: if_splits option.splits dest!: Cons.IH)
qed

lemma shlex_size: "shlex_list p s = Some ts \<Longrightarrow> sum_list (map length ts) \<le> length s"
  using lex_size [of p Blank "[]" False s ts] by (simp add: shlex_list_def owed_def)

section \<open>Quoting\<close>

text \<open>A word in single quotes is one token, whatever it contains, and nothing but a token.\<close>

definition single_quoted :: "string \<Rightarrow> string" where
  "single_quoted w = single_quote # w @ [single_quote]"

lemma quote_chars [simp]:
  "single_quote \<noteq> double_quote" "\<not> lex_blank single_quote" "single_quote \<noteq> backslash"
  "single_quote \<noteq> CHR ''#''" "double_quote \<noteq> single_quote" "backslash \<noteq> single_quote" "lex_blank CHR '' ''"
  by (simp_all add: single_quote_def double_quote_def backslash_def lex_blank_def newline_def)

lemma lex_in_quotes:
  "single_quote \<notin> set w \<Longrightarrow> lex p (Quote single_quote) v q (w @ single_quote # s) = lex p Word (v @ w) True s"
  by (induction w arbitrary: v q) auto

lemma opens_quote: "single_quote \<notin> set p \<Longrightarrow> opens p single_quote = (Quote single_quote, [])"
  by (simp add: opens_def)

lemma lex_quoted_words:
  assumes "single_quote \<notin> set p" and "\<And>w. w \<in> set ws \<Longrightarrow> single_quote \<notin> set w"
  shows "lex p Blank [] False (join '' '' (map single_quoted ws)) = Some ws"
  using assms(2)
proof (induction ws)
  case (Cons w ws)
  show ?case
  proof (cases ws)
    case Nil
    then show ?thesis using Cons.prems assms(1) lex_in_quotes [of w p "[]" True "[]"]
      by (simp add: single_quoted_def opens_quote is_quote_def emit_def)
  next
    case (Cons v vs)
    then have "join '' '' (map single_quoted (w # ws))
        = single_quote # w @ single_quote # CHR '' '' # join '' '' (map single_quoted ws)"
      by (simp add: single_quoted_def)
    then show ?thesis using Cons.prems Cons.IH assms(1)
      by (simp add: opens_quote is_quote_def lex_in_quotes emit_def)
  qed
qed (simp add: emit_def)

end
