(* ===== verification/Py_Url.thy ===== *)
theory Py_Url
  imports Outcomes
begin

text \<open>
  String methods with a separator (\<open>partition\<close>, \<open>rsplit\<close>), Unicode case mappings on the
  modelled range of characters, and the part of \<open>urllib.parse\<close> (Python 3.11) the sources
  call: \<open>urlsplit\<close> with its checks of a bracketed host, the properties \<open>hostname\<close> and
  \<open>port\<close>, and \<open>urlunsplit\<close>. The check of a non-ASCII host under NFKC never fails on the
  modelled characters: none of them normalizes to a delimiter.
\<close>

section \<open>Splitting\<close>

text \<open>\<open>s.partition(sep)\<close>: what precedes and follows the first occurrence, \<open>None\<close> if there is none.\<close>

fun split_first :: "string \<Rightarrow> string \<Rightarrow> (string \<times> string) option" where
  "split_first sep [] = (if sep = [] then Some ([], []) else None)"
| "split_first sep (c # cs) =
     (if startswith (c # cs) sep then Some ([], drop (length sep) (c # cs))
      else map_option (\<lambda>(a, b). (c # a, b)) (split_first sep cs))"

definition before_first :: "string \<Rightarrow> string \<Rightarrow> string" where
  "before_first sep s = (case split_first sep s of Some (a, _) \<Rightarrow> a | None \<Rightarrow> s)"

definition after_first :: "string \<Rightarrow> string \<Rightarrow> string" where
  "after_first sep s = (case split_first sep s of Some (_, b) \<Rightarrow> b | None \<Rightarrow> [])"

lemma split_first_Some: "split_first sep s = Some (a, b) \<Longrightarrow> s = a @ sep @ b"
  by (induction s arbitrary: a) (auto simp: startswith_iff split: if_splits)

lemma split_first_char: "split_first [c] s = (if c \<in> set s then Some (takeWhile (\<lambda>d. d \<noteq> c) s, drop 1 (dropWhile (\<lambda>d. d \<noteq> c) s)) else None)"
  by (induction s) (auto simp: startswith_def)

lemma before_first_char: "before_first [c] s = takeWhile (\<lambda>d. d \<noteq> c) s"
  by (induction s) (auto simp: before_first_def startswith_def split: option.splits)

lemma not_in_before_first: "c \<notin> set (before_first [c] s)"
  by (auto simp: before_first_char dest: set_takeWhileD)

lemma set_before_first: "set (before_first sep s) \<subseteq> set s"
  by (auto simp: before_first_def dest!: split_first_Some split: option.splits)

lemma after_last_not_in: "c \<notin> set (after_last [c] s)"
proof -
  have "contains [c] s \<longleftrightarrow> c \<in> set s" for s by (induction s) (auto simp: startswith_def)
  then show ?thesis by (induction s) (auto simp: startswith_def)
qed

lemma set_after_last: "set (after_last sep s) \<subseteq> set s"
  by (induction s) (auto dest: in_set_dropD)

section \<open>Case\<close>

definition sharp_s :: char where
  "sharp_s = char_of (223::int)"

text \<open>\<open>upper\<close> and \<open>casefold\<close>; the micro sign and the y with diaeresis, which leave the modelled range, are kept.\<close>

definition upper_char :: "char \<Rightarrow> string" where
  "upper_char c = (let n = code c in
     if c = sharp_s then ''SS''
     else if 97 \<le> n \<and> n \<le> 122 \<or> 224 \<le> n \<and> n \<le> 254 \<and> n \<noteq> 247 then [char_of (n - 32)] else [c])"

definition upper :: "string \<Rightarrow> string" where
  "upper s = concat (map upper_char s)"

definition casefold :: "string \<Rightarrow> string" where
  "casefold s = concat (map (\<lambda>c. if c = sharp_s then ''ss'' else [lower_char c]) s)"

definition is_alpha :: "char \<Rightarrow> bool" where
  "is_alpha c = (let n = code c in 65 \<le> n \<and> n \<le> 90 \<or> 97 \<le> n \<and> n \<le> 122 \<or> n \<in> set [170, 181, 186]
     \<or> 192 \<le> n \<and> n \<le> 255 \<and> n \<noteq> 215 \<and> n \<noteq> 247)"

definition is_ascii :: "char \<Rightarrow> bool" where
  "is_ascii c = (code c < 128)"

section \<open>IP addresses\<close>

definition is_hex :: "char \<Rightarrow> bool" where
  "is_hex c = (is_digit c \<or> 65 \<le> code c \<and> code c \<le> 70 \<or> 97 \<le> code c \<and> code c \<le> 102)"

definition octet_ok :: "string \<Rightarrow> bool" where
  "octet_ok s = (s \<noteq> [] \<and> list_all is_digit s \<and> length s \<le> 3 \<and> (s = ''0'' \<or> hd s \<noteq> CHR ''0'') \<and> int_of_dec s \<le> 255)"

definition ipv4_ok :: "string \<Rightarrow> bool" where
  "ipv4_ok s = (length (split_on CHR ''.'' s) = 4 \<and> list_all octet_ok (split_on CHR ''.'' s))"

definition hextet_ok :: "string \<Rightarrow> bool" where
  "hextet_ok s = (s \<noteq> [] \<and> list_all is_hex s \<and> length s \<le> 4)"

text \<open>The groups of an address: an empty inner one stands for the run of zeros.\<close>

definition groups_ok :: "string list \<Rightarrow> bool" where
  "groups_ok parts =
     (let n = length parts; skips = filter (\<lambda>i. parts ! i = []) [1..<n - 1] in
      case skips of
        [] \<Rightarrow> n = 8 \<and> list_all hextet_ok parts
      | [k] \<Rightarrow>
          let hi = (if hd parts = [] then k - 1 else k); lo = (if last parts = [] then n - k - 2 else n - k - 1)
          in (hd parts = [] \<longrightarrow> hi = 0) \<and> (last parts = [] \<longrightarrow> lo = 0) \<and> hi + lo < 8
             \<and> list_all (\<lambda>w. w = [] \<or> hextet_ok w) parts
      | _ \<Rightarrow> False)"

definition ipv6_ok :: "string \<Rightarrow> bool" where
  "ipv6_ok s =
     (let addr = before_first ''%'' s; scope = after_first ''%'' s; parts = split_on CHR '':'' addr;
          tail = last parts; dotted = CHR ''.'' \<in> set tail;
          parts' = (if dotted then butlast parts @ [''0'', ''0''] else parts)
      in (CHR ''%'' \<in> set s \<longrightarrow> scope \<noteq> [] \<and> CHR ''%'' \<notin> set scope) \<and> 3 \<le> length parts
         \<and> (dotted \<longrightarrow> ipv4_ok tail) \<and> length parts' \<le> 9 \<and> groups_ok parts')"

definition future_ok :: "string \<Rightarrow> bool" where
  "future_ok s =
     (let digits = takeWhile is_hex (drop 1 s); rest = drop (1 + length digits) s
      in startswith s ''v'' \<and> digits \<noteq> [] \<and> startswith rest ''.'' \<and> length rest > 1)"

definition bracketed_ok :: "string \<Rightarrow> bool" where
  "bracketed_ok host = (if startswith host ''v'' then future_ok host else ipv6_ok host)"

section \<open>urlsplit\<close>

definition scheme_char :: "char \<Rightarrow> bool" where
  "scheme_char c = (is_alnum c \<or> c \<in> set ''+-.'')"

text \<open>The scheme and what follows it.\<close>

definition url_scheme :: "string \<Rightarrow> string \<times> string" where
  "url_scheme url =
     (case split_first '':'' url of
        Some (s, rest) \<Rightarrow>
          if s \<noteq> [] \<and> is_alpha (hd s) \<and> is_ascii (hd s) \<and> list_all scheme_char s then (lower s, rest)
          else ([], url)
      | None \<Rightarrow> ([], url))"

definition url_delim :: "char \<Rightarrow> bool" where
  "url_delim c = (c \<in> set ''/?#'')"

record split_result =
  us_scheme :: string
  us_netloc :: string
  us_path :: string
  us_query :: string
  us_fragment :: string

text \<open>\<open>None\<close> where \<open>urlsplit\<close> raises \<open>ValueError\<close>.\<close>

definition urlsplit :: "string \<Rightarrow> split_result option" where
  "urlsplit value =
     (let url = filter (\<lambda>c. code c \<notin> {9, 10, 13}) (dropWhile (\<lambda>c. code c \<le> 32) value);
          (scheme, rest) = url_scheme url;
          has = startswith rest ''//''; body = (if has then drop 2 rest else rest);
          netloc = (if has then takeWhile (\<lambda>c. \<not> url_delim c) body else []);
          tail = (if has then dropWhile (\<lambda>c. \<not> url_delim c) body else rest);
          open = CHR ''['' \<in> set netloc; close = CHR '']'' \<in> set netloc;
          unfragmented = before_first ''#'' tail
      in if open \<noteq> close \<or> open \<and> \<not> bracketed_ok (before_first '']'' (after_first ''['' netloc)) then None
         else Some \<lparr>us_scheme = scheme, us_netloc = netloc, us_path = before_first ''?'' unfragmented,
           us_query = after_first ''?'' unfragmented, us_fragment = after_first ''#'' tail\<rparr>)"

text \<open>\<open>_hostinfo\<close>: the host and the port text of what follows the last at-sign of the location.\<close>

definition hostinfo :: "split_result \<Rightarrow> string \<times> string" where
  "hostinfo u =
     (let info = after_last ''@'' (us_netloc u) in
      if CHR ''['' \<in> set info
      then let bracketed = after_first ''['' info
           in (before_first '']'' bracketed, after_first '':'' (after_first '']'' bracketed))
      else (before_first '':'' info, after_first '':'' info))"

definition hostname :: "split_result \<Rightarrow> string option" where
  "hostname u =
     (let h = fst (hostinfo u); name = before_first ''%'' h in
      if h = [] then None else Some (lower name @ drop (length name) h))"

text \<open>\<open>None\<close> where \<open>port\<close> raises, \<open>Some None\<close> where there is no port.\<close>

definition port :: "split_result \<Rightarrow> int option option" where
  "port u =
     (let p = snd (hostinfo u) in
      if p = [] then Some None
      else if list_all is_digit p \<and> int_of_dec p \<le> 65535 then Some (Some (int_of_dec p)) else None)"

definition urlunsplit :: "string \<Rightarrow> string \<Rightarrow> string \<Rightarrow> string" where
  "urlunsplit scheme netloc path =
     scheme @ ''://'' @ netloc @ (if path \<noteq> [] \<and> hd path \<noteq> CHR ''/'' then CHR ''/'' # path else path)"

section \<open>What the parts cannot hold\<close>

lemma url_path_clean: "urlsplit v = Some u \<Longrightarrow> CHR ''?'' \<notin> set (us_path u) \<and> CHR ''#'' \<notin> set (us_path u)"
proof -
  have "CHR ''#'' \<notin> set (before_first ''?'' (before_first ''#'' t))" for t
    using set_before_first not_in_before_first by fast
  then show "urlsplit v = Some u \<Longrightarrow> ?thesis"
    by (auto simp: urlsplit_def Let_def not_in_before_first split: prod.splits if_splits)
qed

lemma url_netloc_clean: "urlsplit v = Some u \<Longrightarrow> c \<in> set (us_netloc u) \<Longrightarrow> \<not> url_delim c"
  by (auto simp: urlsplit_def Let_def dest: set_takeWhileD split: prod.splits if_splits)

lemma url_scheme_chars: "\<exists>s. fst (url_scheme v) = lower s \<and> list_all scheme_char s"
proof (cases "fst (url_scheme v) = []")
  case True
  then show ?thesis by (intro exI [of _ "[]"]) (simp add: lower_def)
next
  case False
  then show ?thesis by (auto simp: url_scheme_def split: option.splits if_splits)
qed

lemma url_scheme_clean:
  assumes "urlsplit v = Some u" shows "\<exists>s. us_scheme u = lower s \<and> list_all scheme_char s"
proof -
  let ?url = "filter (\<lambda>c. code c \<notin> {9, 10, 13}) (dropWhile (\<lambda>c. code c \<le> 32) v)"
  obtain a b where ab: "url_scheme ?url = (a, b)" by (cases "url_scheme ?url")
  have "us_scheme u = a"
    using assms unfolding urlsplit_def Let_def ab prod.case by (auto split: if_splits)
  with ab url_scheme_chars [of ?url] show ?thesis by simp
qed

lemma set_after_first: "set (after_first sep s) \<subseteq> set s"
  by (auto simp: after_first_def dest!: split_first_Some [OF sym] split: option.splits)

lemma set_hostinfo: "set (fst (hostinfo u)) \<subseteq> set (after_last ''@'' (us_netloc u))"
  unfolding hostinfo_def Let_def using set_before_first set_after_first by (auto split: if_splits) blast+

end
