(* ===== verification/Effects.thy ===== *)
theory Effects
  imports Py_Shlex Py_Url
begin

text \<open>
  Model of the classifier in \<open>src/spotter/effects.py\<close>: which reversibility class an action
  has, how sure the parse is and which resource it names, for native tools, MCP tools and
  shell commands. Sets of words are lists, literal types are datatypes.
\<close>

section \<open>Classifications\<close>

datatype rev_class = ClassA | ClassB | ClassC

datatype confidence = Exact | Bounded | Unknown

record classification =
  cl_class :: rev_class
  cl_kind :: string
  cl_resource :: string
  cl_reversible :: bool
  cl_classifier :: string
  cl_reason :: string
  cl_confidence :: confidence
  cl_semantic :: "string option"

definition class_name :: "rev_class \<Rightarrow> string" where
  "class_name c = (case c of ClassA \<Rightarrow> ''A'' | ClassB \<Rightarrow> ''B'' | ClassC \<Rightarrow> ''C'')"

definition confidence_name :: "confidence \<Rightarrow> string" where
  "confidence_name c = (case c of Exact \<Rightarrow> ''exact'' | Bounded \<Rightarrow> ''bounded'' | Unknown \<Rightarrow> ''unknown'')"

definition max_tokens :: nat where
  "max_tokens = 64"

definition max_command_chars :: nat where
  "max_command_chars = 4096"

definition max_wrapper_depth :: nat where
  "max_wrapper_depth = 2"

definition composition :: "string list" where
  "composition = [''&&'', ''||'', '';'', ''|'', ''&'']"

definition output_redirection :: "string list" where
  "output_redirection = [''>'', ''>>'']"

definition read_commands :: "string list" where
  "read_commands = [''cat'', ''find'', ''git status'', ''git diff'', ''git log'', ''git show'', ''ls'',
     ''pwd'', ''rg'', ''sed'', ''pytest'', ''ruff'', ''mypy'', ''pyright'']"

definition local_writes :: "string list" where
  "local_writes = [''cp'', ''git add'', ''git checkout'', ''git commit'', ''git restore'', ''mkdir'',
     ''mv'', ''rm'', ''touch'']"

definition mcp_read_verbs :: "string list" where
  "mcp_read_verbs = [''describe'', ''fetch'', ''find'', ''get'', ''list'', ''open'', ''read'', ''search'', ''view'']"

definition mcp_write_verbs :: "string list" where
  "mcp_write_verbs = [''create'', ''update'', ''edit'', ''delete'', ''remove'', ''close'', ''merge'', ''post'', ''send'']"

definition gh_read_verbs :: "string list" where
  "gh_read_verbs = [''list'', ''status'', ''view'']"

definition gh_write_verbs :: "string list" where
  "gh_write_verbs = [''close'', ''comment'', ''create'', ''delete'', ''edit'', ''merge'', ''reopen'', ''submit'']"

definition kubectl_read_verbs :: "string list" where
  "kubectl_read_verbs = [''api-resources'', ''api-versions'', ''cluster-info'', ''describe'', ''diff'',
     ''explain'', ''get'', ''logs'', ''version'']"

definition kubectl_write_verbs :: "string list" where
  "kubectl_write_verbs = [''annotate'', ''apply'', ''create'', ''delete'', ''label'', ''patch'', ''replace'',
     ''rollout'', ''scale'', ''set'']"

definition terraform_read_verbs :: "string list" where
  "terraform_read_verbs = [''plan'', ''show'', ''validate'', ''version'']"

definition terraform_write_verbs :: "string list" where
  "terraform_write_verbs = [''apply'', ''destroy'', ''force-unlock'', ''import'', ''taint'', ''untaint'']"

definition script_runners :: "string list" where
  "script_runners = [''deno'', ''make'', ''node'', ''npm'', ''npx'', ''perl'', ''php'', ''python'', ''python3'', ''ruby'']"

definition http_read_methods :: "string list" where
  "http_read_methods = [''GET'', ''HEAD'', ''OPTIONS'']"

definition http_write_methods :: "string list" where
  "http_write_methods = [''DELETE'', ''PATCH'', ''POST'', ''PUT'']"

definition curl_boolean_options :: string where
  "curl_boolean_options = ''#0123456789:BaGfghiIJjklLMnNOqRSsvVZ''"

definition curl_value_options :: string where
  "curl_value_options = ''AbCcDdEeFHKmoPQrTtUuwXxYyz''"

definition sql_read_verbs :: "string list" where
  "sql_read_verbs = [''DESC'', ''DESCRIBE'', ''SHOW'']"

definition sql_write_verbs :: "string list" where
  "sql_write_verbs = [''ALTER'', ''CALL'', ''COMMENT'', ''CREATE'', ''DELETE'', ''DO'', ''DROP'', ''GRANT'', ''INSERT'',
     ''MERGE'', ''REINDEX'', ''REVOKE'', ''TRUNCATE'', ''UPDATE'', ''VACUUM'']"

definition known :: "rev_class \<Rightarrow> string \<Rightarrow> string \<Rightarrow> bool \<Rightarrow> string \<Rightarrow> string \<Rightarrow> confidence \<Rightarrow> classification" where
  "known cls kind resource reversible classifier semantic conf =
     \<lparr>cl_class = cls, cl_kind = kind, cl_resource = take 300 resource, cl_reversible = reversible,
      cl_classifier = classifier, cl_reason = ''recognized_semantics'', cl_confidence = conf,
      cl_semantic = Some semantic\<rparr>"

definition unknown :: "string \<Rightarrow> string \<Rightarrow> string \<Rightarrow> string option \<Rightarrow> classification" where
  "unknown reason resource classifier semantic =
     \<lparr>cl_class = ClassC, cl_kind = ''unknown_command_effect'', cl_resource = take 300 resource, cl_reversible = False,
      cl_classifier = classifier, cl_reason = reason, cl_confidence = Unknown, cl_semantic = semantic\<rparr>"

definition combined_confidence :: "classification \<Rightarrow> confidence" where
  "combined_confidence v = (if cl_confidence v = Unknown then Unknown else Bounded)"

text \<open>\<open>replace(result, parse_confidence=_combined_confidence(result))\<close>.\<close>

definition weakened :: "classification \<Rightarrow> classification" where
  "weakened v = v\<lparr>cl_confidence := combined_confidence v\<rparr>"

section \<open>Options\<close>

text \<open>A short option with its value attached, a long one with an equals sign.\<close>

definition attached :: "string \<Rightarrow> string \<Rightarrow> string option" where
  "attached tok name =
     (if startswith tok (name @ ''='') then Some (after_first ''='' tok)
      else if length name = 2 \<and> startswith tok name \<and> length tok > length name then Some (drop (length name) tok)
      else None)"

fun first_attached :: "string \<Rightarrow> string list \<Rightarrow> string option" where
  "first_attached tok [] = None"
| "first_attached tok (name # names) =
     (case attached tok name of Some v \<Rightarrow> Some v | None \<Rightarrow> first_attached tok names)"

fun option_values :: "string list \<Rightarrow> string list \<Rightarrow> string list" where
  "option_values [] names = []"
| "option_values (tok # words) names =
     (if tok \<in> set names \<and> words \<noteq> [] then hd words # option_values words names
      else case first_attached tok names of
        Some v \<Rightarrow> v # option_values words names
      | None \<Rightarrow> option_values words names)"

definition option_value :: "string list \<Rightarrow> string list \<Rightarrow> string option" where
  "option_value words names = (case option_values words names of [] \<Rightarrow> None | vs \<Rightarrow> Some (last vs))"

definition has_option :: "string list \<Rightarrow> string list \<Rightarrow> bool" where
  "has_option words names = list_ex (\<lambda>tok. tok \<in> set names \<or> list_ex (\<lambda>name. startswith tok (name @ ''='')) names) words"

definition has_option_prefix :: "string list \<Rightarrow> string list \<Rightarrow> bool" where
  "has_option_prefix words names =
     list_ex (\<lambda>tok. list_ex (\<lambda>name. tok = name \<or> startswith tok (name @ ''='')
       \<or> (length name = 2 \<and> startswith tok name \<and> length tok > length name)) names) words"

definition has_short_flag :: "string list \<Rightarrow> char \<Rightarrow> bool" where
  "has_short_flag words flag = list_ex (\<lambda>tok. tok = [CHR ''-'', flag]) words"

fun first_positional :: "string list \<Rightarrow> string list \<Rightarrow> string option" where
  "first_positional options [] = None"
| "first_positional options (tok # words) =
     (if before_first ''='' tok \<in> set options \<and> CHR ''='' \<notin> set tok
      then (case words of [] \<Rightarrow> None | _ # rest \<Rightarrow> first_positional options rest)
      else if startswith tok ''-'' then first_positional options words
      else Some tok)"

section \<open>Resources\<close>

fun first_string :: "payload \<Rightarrow> string list \<Rightarrow> string option" where
  "first_string p [] = None"
| "first_string p (k # ks) = (case get p k of PStr s \<Rightarrow> Some s | _ \<Rightarrow> first_string p ks)"

definition first_path :: "payload \<Rightarrow> string" where
  "first_path p = (case first_string p [''path'', ''file_path'', ''url'', ''uri''] of
     Some s \<Rightarrow> s | None \<Rightarrow> ''workspace'')"

definition external_resource :: "payload \<Rightarrow> string \<Rightarrow> string" where
  "external_resource p fallback =
     take 300 (case first_string p [''resource'', ''url'', ''uri'', ''repository'', ''project'', ''name'', ''path'', ''cwd''] of
       Some s \<Rightarrow> s | None \<Rightarrow> fallback)"

definition executable_name :: "string \<Rightarrow> string" where
  "executable_name s = lower (after_last ''/'' s)"

definition sanitize_remote_resource :: "string \<Rightarrow> string" where
  "sanitize_remote_resource v =
     (let bare = before_first ''#'' (before_first ''?'' v) in
      case urlsplit v of
        None \<Rightarrow> (case split_first ''://'' bare of
            Some (scheme, rest) \<Rightarrow> take 300 (scheme @ ''://'' @ after_last ''@'' rest)
          | None \<Rightarrow> take 300 bare)
      | Some u \<Rightarrow> (case port u of
            None \<Rightarrow> (case split_first ''://'' bare of
                Some (scheme, rest) \<Rightarrow> take 300 (scheme @ ''://'' @ after_last ''@'' rest)
              | None \<Rightarrow> take 300 bare)
          | Some p \<Rightarrow> (case hostname u of
                None \<Rightarrow> take 300 bare
              | Some host \<Rightarrow>
                  if us_scheme u = [] then take 300 bare
                  else let bracketed = (if CHR '':'' \<in> set host then ''['' @ host @ '']'' else host);
                           full = (case p of None \<Rightarrow> bracketed | Some n \<Rightarrow> bracketed @ '':'' @ dec_int n)
                       in take 300 (urlunsplit (us_scheme u) full (us_path u)))))"

fun skip_api_options :: "string list \<Rightarrow> string option" where
  "skip_api_options [] = None"
| "skip_api_options (tok # words) =
     (if tok \<in> set [''-X'', ''--method'', ''-H'', ''--header'']
      then (case words of [] \<Rightarrow> None | _ # rest \<Rightarrow> skip_api_options rest)
      else if \<not> startswith tok ''-'' then Some tok else skip_api_options words)"

definition gh_resource :: "string list \<Rightarrow> payload \<Rightarrow> string" where
  "gh_resource words p =
     (case option_value words [''-R'', ''--repo''] of
        Some repo \<Rightarrow> repo
      | None \<Rightarrow>
          (case (if words \<noteq> [] \<and> hd words = ''api'' then skip_api_options (tl words) else None) of
             Some tok \<Rightarrow> take 300 (''github:'' @ tok)
           | None \<Rightarrow> external_resource p ''github''))"

definition git_push_resource :: "string list \<Rightarrow> string" where
  "git_push_resource words =
     (case filter (\<lambda>w. \<not> startswith w ''-'') (tl words) of [] \<Rightarrow> ''default git remote'' | w # _ \<Rightarrow> w)"

text \<open>What follows the first occurrence of the verb, which is one of the words.\<close>

definition after_word :: "string \<Rightarrow> string list \<Rightarrow> string list" where
  "after_word w words = tl (dropWhile (\<lambda>v. v \<noteq> w) words)"

definition kubectl_resource :: "string list \<Rightarrow> string option \<Rightarrow> string" where
  "kubectl_resource words verb =
     (let namespace = option_value words [''-n'', ''--namespace''];
          manifest = option_value words [''-f'', ''--filename'']
      in case verb of
        None \<Rightarrow> ''kubernetes''
      | Some v \<Rightarrow>
          (case (if v \<in> set [''apply'', ''create'', ''delete'', ''patch'', ''replace''] then manifest else None) of
             Some m \<Rightarrow> take 300 (''kubernetes:manifest:'' @ m)
           | None \<Rightarrow>
               (case first_positional [''-f'', ''--filename'', ''-n'', ''--namespace''] (after_word v words) of
                  Some r \<Rightarrow>
                    let scope = (case namespace of
                        Some n \<Rightarrow> if n = [] then [] else ''namespace/'' @ n @ '':'' | None \<Rightarrow> [])
                    in take 300 (''kubernetes:'' @ scope @ r)
                | None \<Rightarrow> ''kubernetes'')))"

definition database_resource :: "string \<Rightarrow> string list \<Rightarrow> payload \<Rightarrow> string" where
  "database_resource executable words p =
     (case get p ''resource'' of
        PStr explicit \<Rightarrow>
          if contains ''://'' explicit then sanitize_remote_resource explicit else take 300 explicit
      | _ \<Rightarrow>
          let database = option_value words (if executable = ''psql'' then [''-d'', ''--dbname''] else [''-D'', ''--database'']);
              host = option_value words [''-h'', ''--host''];
              family = (if executable = ''psql'' then ''postgres'' else ''mysql'');
              named = (\<lambda>label v. case v of Some s \<Rightarrow> if s = [] then [] else [label @ s] | None \<Rightarrow> [])
          in case database of
               Some d \<Rightarrow>
                 if contains ''://'' d then sanitize_remote_resource d
                 else take 300 (join '':'' (family # named ''host/'' host @ named ''database/'' database))
             | None \<Rightarrow> take 300 (join '':'' (family # named ''host/'' host)))"

section \<open>curl\<close>

text \<open>A cluster of short options, spelled out: the words it stands for and those it leaves.\<close>

fun expand_cluster :: "string \<Rightarrow> string list \<Rightarrow> (string list \<times> string list) option" where
  "expand_cluster [] words = Some ([], words)"
| "expand_cluster (o1 # cluster) words =
     (if o1 \<in> set curl_boolean_options
      then map_option (\<lambda>(out, rest). ([CHR ''-'', o1] # out, rest)) (expand_cluster cluster words)
      else if o1 \<notin> set curl_value_options then None
      else if cluster \<noteq> [] then Some ([[CHR ''-'', o1], cluster], words)
      else (case words of [] \<Rightarrow> None | w # rest \<Rightarrow> Some ([[CHR ''-'', o1], w], rest)))"

lemma expand_cluster_shrinks: "expand_cluster cluster words = Some (out, rest) \<Longrightarrow> length rest \<le> length words"
  by (induction cluster words arbitrary: out rest rule: expand_cluster.induct) (auto split: if_splits list.splits)

function normalize_curl_args :: "string list \<Rightarrow> string list option" where
  "normalize_curl_args [] = Some []"
| "normalize_curl_args (tok # words) =
     (if \<not> startswith tok ''-'' \<or> startswith tok ''--'' \<or> tok = ''-''
      then map_option (\<lambda>out. tok # out) (normalize_curl_args words)
      else (case expand_cluster (drop 1 tok) words of
          None \<Rightarrow> None
        | Some (out, rest) \<Rightarrow> map_option (\<lambda>out'. out @ out') (normalize_curl_args rest)))"
  by pat_completeness auto
termination
  by (relation "measure length") (auto dest: expand_cluster_shrinks)

definition curl_url :: "string list \<Rightarrow> string option" where
  "curl_url words =
     (case option_value words [''--url''] of
        Some u \<Rightarrow> Some u
      | None \<Rightarrow> find (\<lambda>tok. startswith tok ''http://'' \<or> startswith tok ''https://'') words)"

definition curl_file_options :: "string list list" where
  "curl_file_options = [[''-D'', ''--dump-header''], [''-c'', ''--cookie-jar''], [''--alt-svc''], [''--etag-save''],
     [''--hsts''], [''--stderr''], [''--trace''], [''--trace-ascii'']]"

fun first_file_option :: "string list \<Rightarrow> string list list \<Rightarrow> string option" where
  "first_file_option words [] = None"
| "first_file_option words (names # rest) =
     (case option_value words names of
        Some v \<Rightarrow> if v = [] then first_file_option words rest else Some v
      | None \<Rightarrow> first_file_option words rest)"

definition curl_local_output :: "string list \<Rightarrow> string option" where
  "curl_local_output words =
     (case option_value words [''-o'', ''--output''] of
        Some output \<Rightarrow> Some output
      | None \<Rightarrow>
          (case first_file_option words curl_file_options of
             Some v \<Rightarrow> Some v
           | None \<Rightarrow>
               (case option_value words [''-w'', ''--write-out''] of
                  Some w \<Rightarrow> if contains ''%output{'' w then Some ''curl write-out file''
                     else if has_short_flag words CHR ''O'' \<or> has_option words [''--remote-name'', ''--remote-header-name'', ''--remote-name-all'']
                     then Some ''remote-named download'' else None
                | None \<Rightarrow>
                    if has_short_flag words CHR ''O'' \<or> has_option words [''--remote-name'', ''--remote-header-name'', ''--remote-name-all'']
                    then Some ''remote-named download'' else None)))"

definition curl_data_options :: "string list" where
  "curl_data_options = [''-d'', ''-F'', ''--data'', ''--data-ascii'', ''--data-binary'', ''--data-raw'', ''--data-urlencode'',
     ''--form'', ''--form-string'', ''--json'']"

definition curl_method :: "string list \<Rightarrow> string" where
  "curl_method words =
     (case option_value words [''-X'', ''--request''] of
        Some m \<Rightarrow> upper m
      | None \<Rightarrow>
          if has_option words [''-G'', ''--get''] then ''GET''
          else if has_option words [''-I'', ''--head''] then ''HEAD''
          else if option_value words [''-T'', ''--upload-file''] \<noteq> None then ''PUT''
          else if has_option_prefix words curl_data_options then ''POST''
          else ''GET'')"

definition classify_request :: "string list \<Rightarrow> string \<Rightarrow> classification" where
  "classify_request words url =
     (let has_data = has_option_prefix words curl_data_options;
          upload = option_value words [''-T'', ''--upload-file''];
          method = curl_method words; resource = sanitize_remote_resource url; semantic = ''http.'' @ lower method
      in if method \<in> set http_write_methods
         then known ClassC ''external_command_write'' resource False ''curl'' semantic Exact
         else if method \<notin> set http_read_methods
         then unknown ''unsupported_http_method'' resource ''curl'' (Some semantic)
         else if upload \<noteq> None \<or> (has_data \<and> \<not> has_option words [''-G'', ''--get''])
         then unknown ''http_read_method_with_request_body'' resource ''curl'' (Some semantic)
         else (case curl_local_output words of
             Some output \<Rightarrow> known ClassB ''local_write'' (output @ '' <- '' @ resource) True ''curl'' (semantic @ ''.download'') Exact
           | None \<Rightarrow> known ClassA ''external_read'' resource True ''curl'' semantic Exact))"

definition classify_curl :: "string list \<Rightarrow> classification" where
  "classify_curl args =
     (case normalize_curl_args args of
        None \<Rightarrow> unknown ''unsupported_curl_cluster'' ''http'' ''curl'' None
      | Some words \<Rightarrow>
          if has_option_prefix words [''-K'', ''--config''] \<or> has_option words [''-:'', ''--next'']
          then unknown ''unsupported_curl_shape'' ''http'' ''curl'' None
          else if has_option words [''-Q'', ''--quote'']
          then unknown ''unsupported_curl_remote_command'' ''http'' ''curl'' None
          else (case curl_url words of
              None \<Rightarrow> unknown ''missing_http_resource'' ''http'' ''curl'' None
            | Some url \<Rightarrow> classify_request words url))"

section \<open>Databases\<close>

text \<open>The verb of a query that is a single statement and does not open with a comment or a meta command.\<close>

definition sql_verb :: "string \<Rightarrow> string option" where
  "sql_verb query =
     (let stripped = strip query;
          statements = filter (\<lambda>w. w \<noteq> []) (map strip (split_on CHR '';'' stripped))
      in if stripped = [] \<or> startswith stripped ''--'' \<or> startswith stripped ''/*'' \<or> startswith stripped [backslash] then None
         else (case statements of
             [statement] \<Rightarrow>
               let first = hd (split_ws statement)
               in if first \<noteq> [] \<and> list_all is_alpha first then Some (upper first) else None
           | _ \<Rightarrow> None))"

definition classify_database :: "string \<Rightarrow> string list \<Rightarrow> payload \<Rightarrow> classification" where
  "classify_database executable words p =
     (let classifier = (if executable = ''psql'' then ''postgres'' else ''mysql'');
          resource = database_resource executable words p;
          queries = option_values words (if executable = ''psql'' then [''-c'', ''--command''] else [''-e'', ''--execute''])
      in if has_option words [''--help'', ''--version'']
         then known ClassA ''observation'' executable True classifier (classifier @ ''.help'') Exact
         else if has_option_prefix words [''-f'', ''--file''] \<or> has_option words [''--init-command'']
         then unknown ''uninspected_database_script'' resource classifier None
         else (case queries of
             [] \<Rightarrow>
               if executable = ''psql'' \<and> has_option words [''-l'', ''--list'']
               then known ClassA ''external_read'' resource True classifier ''postgres.list'' Exact
               else unknown ''interactive_database_command'' resource classifier None
           | [query] \<Rightarrow>
               (case sql_verb query of
                  None \<Rightarrow> unknown ''unsupported_sql_shape'' resource classifier None
                | Some verb \<Rightarrow>
                    let semantic = classifier @ ''.'' @ lower verb
                    in if verb \<in> set sql_read_verbs then known ClassA ''external_read'' resource True classifier semantic Exact
                       else if verb \<in> set sql_write_verbs
                       then known ClassC ''external_command_write'' resource False classifier semantic Exact
                       else unknown ''unsupported_sql_semantics'' resource classifier (Some semantic))
           | _ \<Rightarrow> unknown ''multiple_database_commands'' resource classifier None))"

section \<open>Other programs\<close>

definition classify_git :: "string list \<Rightarrow> payload \<Rightarrow> classification" where
  "classify_git words p =
     (case words of
        [] \<Rightarrow> unknown ''missing_subcommand'' ''git'' ''git'' None
      | verb # _ \<Rightarrow>
          let semantic = ''git.'' @ verb; head = ''git '' @ verb in
          if verb = ''push'' then known ClassC ''git_remote_write'' (git_push_resource words) False ''git'' semantic Exact
          else if head \<in> set read_commands then known ClassA ''observation'' (first_path p) True ''git'' semantic Exact
          else if head \<in> set local_writes then known ClassB ''local_write'' (first_path p) True ''git'' semantic Exact
          else unknown ''unsupported_git_subcommand'' ''git'' ''git'' (Some semantic))"

definition gh_api_fields :: "string list" where
  "gh_api_fields = [''-f'', ''-F'', ''--field'', ''--raw-field'', ''--input'']"

definition classify_gh :: "string list \<Rightarrow> payload \<Rightarrow> classification" where
  "classify_gh words p =
     (case words of
        [] \<Rightarrow> unknown ''missing_subcommand'' (external_resource p ''github'') ''gh'' None
      | entity # rest \<Rightarrow>
          if entity = ''api'' then
            let fields = has_option rest gh_api_fields;
                explicit = option_value words [''-X'', ''--method''];
                method = upper (case explicit of
                    Some m \<Rightarrow> if m = [] then (if fields then ''POST'' else ''GET'') else m
                  | None \<Rightarrow> if fields then ''POST'' else ''GET'')
            in if method = ''GET'' then known ClassA ''external_read'' (gh_resource words p) True ''gh'' ''gh.api.get'' Exact
               else known ClassC ''external_command_write'' (gh_resource words p) False ''gh'' (''gh.api.'' @ lower method) Exact
          else
            let verb = (case rest of [] \<Rightarrow> [] | v # _ \<Rightarrow> v);
                semantic = (if verb = [] then ''gh.'' @ entity else ''gh.'' @ entity @ ''.'' @ verb)
            in if verb \<in> set gh_read_verbs \<or> (entity = ''auth'' \<and> verb = ''status'')
               then known ClassA ''external_read'' (gh_resource words p) True ''gh'' semantic Exact
               else if verb \<in> set gh_write_verbs \<or> (entity = ''pr'' \<and> verb = ''review'')
               then known ClassC ''external_command_write'' (gh_resource words p) False ''gh'' semantic Exact
               else unknown ''unsupported_gh_subcommand'' (gh_resource words p) ''gh'' (Some semantic))"

definition classify_kubectl :: "string list \<Rightarrow> payload \<Rightarrow> classification" where
  "classify_kubectl words p =
     (let verb = first_positional [''-n'', ''--namespace'', ''--context'', ''--kubeconfig''] words;
          resource = external_resource p (kubectl_resource words verb)
      in case verb of
        None \<Rightarrow> unknown ''missing_subcommand'' resource ''kubectl'' None
      | Some v \<Rightarrow>
          let semantic = ''kubectl.'' @ v in
          if v \<in> set kubectl_read_verbs then known ClassA ''external_read'' resource True ''kubectl'' semantic Exact
          else if v \<in> set kubectl_write_verbs
          then known ClassC ''external_command_write'' resource False ''kubectl'' semantic Exact
          else unknown ''unsupported_kubectl_subcommand'' resource ''kubectl'' (Some semantic))"

definition plan_target :: "string list \<Rightarrow> string" where
  "plan_target words =
     (let written = (case find (\<lambda>tok. startswith tok ''-out='') words of
          Some tok \<Rightarrow> after_first ''='' tok | None \<Rightarrow> ''terraform plan artifact'')
      in case option_value words [''-out''] of Some t \<Rightarrow> if t = [] then written else t | None \<Rightarrow> written)"

definition classify_terraform :: "string list \<Rightarrow> payload \<Rightarrow> classification" where
  "classify_terraform words p =
     (let verb = first_positional [''-chdir''] words; resource = external_resource p ''terraform workspace''
      in case verb of
        None \<Rightarrow> unknown ''missing_subcommand'' resource ''terraform'' None
      | Some v \<Rightarrow>
          let semantic = ''terraform.'' @ v in
          if v = ''fmt'' then
            (if ''-check'' \<in> set words \<or> ''-check=true'' \<in> set words
             then known ClassA ''observation'' resource True ''terraform'' ''terraform.fmt.check'' Exact
             else known ClassB ''local_write'' resource True ''terraform'' ''terraform.fmt'' Exact)
          else if v = ''plan'' \<and> list_ex (\<lambda>tok. tok = ''-out'' \<or> startswith tok ''-out='') words
          then known ClassB ''local_write'' (plan_target words) True ''terraform'' ''terraform.plan.out'' Exact
          else if v \<in> set terraform_read_verbs then known ClassA ''external_read'' resource True ''terraform'' semantic Exact
          else if v \<in> set terraform_write_verbs
          then known ClassC ''external_command_write'' resource False ''terraform'' semantic Exact
          else unknown ''unsupported_terraform_subcommand'' resource ''terraform'' (Some semantic))"

section \<open>Shell structure\<close>

definition effect_tokens :: "string \<Rightarrow> string list option" where
  "effect_tokens command = shlex_list ''|&;<>'' command"

text \<open>The components between operators, and the target of the last output redirection.\<close>

fun components_from :: "string list list \<Rightarrow> string option \<Rightarrow> string list \<Rightarrow> string list list \<times> string option" where
  "components_from cs out [] = (cs, out)"
| "components_from cs out (tok # rest) =
     (if tok \<in> set composition then components_from (cs @ [[]]) out rest
      else if tok \<in> set output_redirection
      then (case rest of
          [] \<Rightarrow> (cs, Some ''redirected output'')
        | target # rest' \<Rightarrow> components_from cs (Some target) rest')
      else if tok = ''<'' then (case rest of [] \<Rightarrow> (cs, out) | _ # rest' \<Rightarrow> components_from cs out rest')
      else components_from (butlast cs @ [last cs @ [tok]]) out rest)"

definition components :: "string list \<Rightarrow> string list list \<times> string option" where
  "components tokens = components_from [[]] None tokens"

definition rank :: "rev_class \<Rightarrow> nat" where
  "rank c = (case c of ClassA \<Rightarrow> 0 | ClassB \<Rightarrow> 1 | ClassC \<Rightarrow> 2)"

text \<open>The first of the highest class, unless the parse of one is unknown.\<close>

fun highest :: "classification \<Rightarrow> classification list \<Rightarrow> classification" where
  "highest best [] = best"
| "highest best (v # vs) = highest (if rank (cl_class best) < rank (cl_class v) then v else best) vs"

definition strongest :: "classification list \<Rightarrow> classification" where
  "strongest vs = (case find (\<lambda>v. cl_confidence v = Unknown) vs of Some v \<Rightarrow> v | None \<Rightarrow> highest (hd vs) (tl vs))"

fun unwrap_env :: "string list \<Rightarrow> string list option" where
  "unwrap_env [] = None"
| "unwrap_env (tok # words) =
     (if tok = ''--'' then (if words = [] then None else Some words)
      else if tok \<in> set [''-u'', ''--unset'', ''-C'', ''--chdir'']
      then (case words of [] \<Rightarrow> None | _ # rest \<Rightarrow> unwrap_env rest)
      else if startswith tok ''-'' \<or> (CHR ''='' \<in> set tok \<and> \<not> startswith tok ''='') then unwrap_env words
      else Some (tok # words))"

fun unwrap_sudo :: "string list \<Rightarrow> string list option" where
  "unwrap_sudo [] = None"
| "unwrap_sudo (tok # words) =
     (if tok = ''--'' then (if words = [] then None else Some words)
      else if tok \<in> set [''-C'', ''-D'', ''-g'', ''-h'', ''-p'', ''-R'', ''-T'', ''-u'']
      then (case words of [] \<Rightarrow> None | _ # rest \<Rightarrow> unwrap_sudo rest)
      else if startswith tok ''-'' then unwrap_sudo words
      else Some (tok # words))"

fun shell_command :: "string list \<Rightarrow> string option" where
  "shell_command [] = None"
| "shell_command (tok # words) =
     (if tok \<in> set [''-c'', ''-lc'', ''--command''] \<and> words \<noteq> [] then Some (hd words) else shell_command words)"

definition shells :: "string list" where
  "shells = [''bash'', ''fish'', ''sh'', ''zsh'']"

text \<open>A program that is no wrapper and no shell.\<close>

definition classify_program :: "string \<Rightarrow> string list \<Rightarrow> payload \<Rightarrow> classification" where
  "classify_program executable rest p =
     (if executable = ''git'' then classify_git rest p
      else if executable = ''gh'' then classify_gh rest p
      else if executable = ''kubectl'' then classify_kubectl rest p
      else if executable = ''terraform'' then classify_terraform rest p
      else if executable = ''curl'' then classify_curl rest
      else if executable \<in> set [''mysql'', ''psql''] then classify_database executable rest p
      else if executable \<in> set script_runners then unknown ''uninspected_script'' executable ''script_runner'' None
      else if executable = ''sed'' \<and> list_ex (\<lambda>tok. tok = ''-i'' \<or> startswith tok ''-i'' \<and> length tok > 2) rest
      then known ClassB ''local_write'' (first_path p) True ''shell_builtin'' ''sed.in_place'' Exact
      else if executable \<in> set read_commands
      then known ClassA ''observation'' (first_path p) True ''shell_builtin'' executable Exact
      else if executable \<in> set local_writes
      then known ClassB ''local_write'' (first_path p) True ''shell_builtin'' executable Exact
      else unknown ''unclassified_command_effect'' (if executable = [] then ''shell'' else executable) ''fallback'' None)"

text \<open>What an output redirection adds to the strongest component.\<close>

definition redirected :: "string option \<Rightarrow> classification \<Rightarrow> classification" where
  "redirected out v =
     (case out of
        Some target \<Rightarrow>
          if cl_class v = ClassA then known ClassB ''local_write'' target True ''shell_structure'' ''output_redirection'' Bounded else v
      | None \<Rightarrow> v)"

text \<open>The two functions call each other: a shell or wrapper adds one to the depth, which stays at most two.\<close>

function classify_command :: "string \<Rightarrow> payload \<Rightarrow> nat \<Rightarrow> bool \<Rightarrow> classification"
  and classify_tokens :: "string list \<Rightarrow> payload \<Rightarrow> nat \<Rightarrow> bool \<Rightarrow> classification" where
  "classify_command command p depth wrapped =
     (if length command > max_command_chars then unknown ''command_too_large'' ''shell'' ''shell_structure'' None
      else (case effect_tokens command of
          None \<Rightarrow> unknown ''malformed_shell'' ''shell'' ''shell_structure'' None
        | Some tokens \<Rightarrow>
            if tokens = [] then unknown ''empty_command'' ''shell'' ''shell_structure'' None
            else if length tokens > max_tokens
            then unknown ''command_too_large'' (executable_name (hd tokens)) ''shell_structure'' None
            else (case components tokens of (cs, out) \<Rightarrow>
              if length cs > 1 \<or> out \<noteq> None then
                (if list_ex (\<lambda>c. c = []) cs then unknown ''malformed_composition'' ''shell'' ''shell_structure'' None
                 else weakened (redirected out (strongest (map (\<lambda>c. classify_tokens c p depth True) cs))))
              else classify_tokens tokens p depth wrapped)))"
| "classify_tokens tokens p depth wrapped =
     (let executable = executable_name (hd tokens); rest = tl tokens in
      if executable = ''env'' then
        (case unwrap_env rest of
           None \<Rightarrow> unknown ''unsupported_env_wrapper'' ''env'' ''shell_structure'' None
         | Some inner \<Rightarrow>
             if depth \<ge> max_wrapper_depth then unknown ''wrapper_depth_exceeded'' ''env'' ''shell_structure'' None
             else weakened (classify_tokens inner p (depth + 1) True))
      else if executable = ''sudo'' then
        (case unwrap_sudo rest of
           None \<Rightarrow> unknown ''unsupported_sudo_wrapper'' ''sudo'' ''shell_structure'' None
         | Some inner \<Rightarrow>
             if depth \<ge> max_wrapper_depth then unknown ''wrapper_depth_exceeded'' ''sudo'' ''shell_structure'' None
             else weakened (classify_tokens inner p (depth + 1) True))
      else if executable \<in> set shells then
        (case shell_command rest of
           None \<Rightarrow> unknown ''unsupported_shell_script'' executable ''shell_structure'' None
         | Some nested \<Rightarrow>
             if depth \<ge> max_wrapper_depth then unknown ''wrapper_depth_exceeded'' executable ''shell_structure'' None
             else weakened (classify_command nested p (depth + 1) True))
      else
        let result = classify_program executable rest p in if wrapped then weakened result else result)"
  by pat_completeness auto
termination
  by (relation "measure (\<lambda>x. case x of
        Inl (command, p, depth, wrapped) \<Rightarrow> 2 * (max_wrapper_depth - depth) + 1
      | Inr (tokens, p, depth, wrapped) \<Rightarrow> 2 * (max_wrapper_depth - depth))")
    (auto simp: max_wrapper_depth_def)

declare classify_command.simps [simp del] classify_tokens.simps [simp del]

section \<open>MCP tools\<close>

record mcp_rule =
  mr_server :: string
  mr_tool :: string
  mr_operation :: string
  mr_class :: rev_class
  mr_fields :: "string list"

definition mcp_identity :: "string \<Rightarrow> (string \<times> string) option" where
  "mcp_identity name =
     (case split_first ''__'' name of
        Some (first, rest) \<Rightarrow>
          (case split_first ''__'' rest of
             Some (server, tool) \<Rightarrow>
               if first = ''mcp'' \<and> server \<noteq> [] \<and> tool \<noteq> [] then Some (casefold server, casefold tool) else None
           | None \<Rightarrow> None)
      | None \<Rightarrow> None)"

text \<open>\<open>isinstance(value, (str, int, bool))\<close>, rendered.\<close>

definition field_text :: "pyval \<Rightarrow> string option" where
  "field_text v =
     (case v of
        PStr s \<Rightarrow> Some (if contains ''://'' s then sanitize_remote_resource s else s)
      | PInt _ \<Rightarrow> Some (py_str v) | PBool _ \<Rightarrow> Some (py_str v) | _ \<Rightarrow> None)"

definition configured_resource :: "string \<times> string \<Rightarrow> payload \<Rightarrow> string list \<Rightarrow> string" where
  "configured_resource identity p names =
     (let parts = List.map_filter (\<lambda>k. map_option (\<lambda>w. k @ ''='' @ w) (field_text (get p k))) names in
      if parts = [] then ''mcp:'' @ fst identity @ ''/'' @ snd identity else take 300 (join ''|'' parts))"

definition configured_mcp :: "(string \<times> string) option \<Rightarrow> payload \<Rightarrow> mcp_rule list \<Rightarrow> classification option" where
  "configured_mcp identity p rules =
     (case identity of
        None \<Rightarrow> None
      | Some i \<Rightarrow>
          map_option (\<lambda>r.
            \<lparr>cl_class = mr_class r,
             cl_kind = (case mr_class r of ClassA \<Rightarrow> ''external_read'' | ClassB \<Rightarrow> ''configured_tool_write'' | ClassC \<Rightarrow> ''external_tool_write''),
             cl_resource = configured_resource i p (mr_fields r), cl_reversible = (mr_class r \<noteq> ClassC),
             cl_classifier = ''mcp_config'', cl_reason = ''configured_semantics'', cl_confidence = Exact,
             cl_semantic = Some (''mcp.'' @ fst i @ ''.'' @ snd i @ ''.'' @ mr_operation r)\<rparr>)
          (find (\<lambda>r. (mr_server r, mr_tool r) = i) (take 256 rules)))"

definition classify_mcp :: "string \<Rightarrow> payload \<Rightarrow> mcp_rule list \<Rightarrow> classification" where
  "classify_mcp name p rules =
     (let lowered = lower name in
      case configured_mcp (mcp_identity lowered) p rules of
        Some v \<Rightarrow> v
      | None \<Rightarrow>
          let operation = after_last ''__'' lowered; verb = before_first ''_'' operation;
              resource = external_resource p name
          in if verb \<in> set mcp_read_verbs then known ClassA ''external_read'' resource True ''mcp_name'' operation Exact
             else if verb \<in> set mcp_write_verbs
             then known ClassC ''external_tool_write'' resource False ''mcp_name'' operation Exact
             else unknown ''unknown_mcp_tool'' resource ''mcp_name'' (Some operation))"

definition classify :: "pyval \<Rightarrow> pyval \<Rightarrow> mcp_rule list \<Rightarrow> classification" where
  "classify tool tool_input rules =
     (let name = py_str (py_or tool (PStr [])); lowered = lower name;
          p = (case tool_input of PDict d \<Rightarrow> d | _ \<Rightarrow> [])
      in if name = ''apply_patch'' then known ClassB ''workspace_write'' (first_path p) True ''native'' ''apply_patch'' Exact
         else if startswith lowered ''mcp__'' \<or> startswith lowered ''mcp_'' then classify_mcp name p rules
         else (case get p ''command'' of
             PStr command \<Rightarrow> classify_command command p 0 False
           | _ \<Rightarrow>
               if lowered \<in> set [''read'', ''glob'', ''grep'', ''websearch'', ''webfetch'']
               then known ClassA ''observation'' (first_path p) True ''native'' lowered Exact
               else unknown ''unknown_tool_effect'' (external_resource p name) ''fallback'' None))"

end
