(* ===== verification/Effects_Claims.thy ===== *)
theory Effects_Claims
  imports Effects
begin

text \<open>
  Properties of the effect classifier: what is not understood is class C, a composition is as
  dangerous as its most dangerous part, wrappers are transparent, and a sanitized resource
  carries no query, no fragment and, where the URL parses, no credentials.
\<close>

section \<open>Consistency\<close>

text \<open>Reversible means not class C; an unknown parse is class C.\<close>

definition class_ok :: "classification \<Rightarrow> bool" where
  "class_ok v \<longleftrightarrow> (cl_reversible v \<longleftrightarrow> cl_class v \<noteq> ClassC) \<and> (cl_confidence v = Unknown \<longrightarrow> cl_class v = ClassC)
     \<and> (cl_class v \<noteq> ClassC \<longrightarrow> cl_semantic v \<noteq> None)"

named_theorems class_ok_intros \<open>results that keep the classification invariant\<close>

lemma class_ok_unknown [class_ok_intros]: "class_ok (unknown reason resource classifier semantic)"
  by (simp add: class_ok_def unknown_def)

lemma class_ok_known [class_ok_intros]:
  "reversible = (cls \<noteq> ClassC) \<Longrightarrow> conf \<noteq> Unknown \<Longrightarrow> class_ok (known cls kind resource reversible classifier semantic conf)"
  by (simp add: class_ok_def known_def)

lemma weakened_simps [simp]:
  "cl_class (weakened v) = cl_class v" "cl_confidence (weakened v) = Unknown \<longleftrightarrow> cl_confidence v = Unknown"
  "cl_confidence (weakened v) \<noteq> Exact" "cl_reversible (weakened v) = cl_reversible v"
  "cl_semantic (weakened v) = cl_semantic v" "cl_kind (weakened v) = cl_kind v"
  "cl_resource (weakened v) = cl_resource v" "cl_reason (weakened v) = cl_reason v"
  by (simp_all add: weakened_def combined_confidence_def)

lemma class_ok_weakened [class_ok_intros]: "class_ok v \<Longrightarrow> class_ok (weakened v)"
  by (simp add: class_ok_def)

lemma class_ok_redirected [class_ok_intros]: "class_ok v \<Longrightarrow> class_ok (redirected out v)"
  by (auto simp: redirected_def intro: class_ok_intros split: option.split)

lemma class_ok_highest: "class_ok best \<Longrightarrow> (\<And>v. v \<in> set vs \<Longrightarrow> class_ok v) \<Longrightarrow> class_ok (highest best vs)"
  by (induction best vs rule: highest.induct) auto

lemma class_ok_strongest [class_ok_intros]: "vs \<noteq> [] \<Longrightarrow> (\<And>v. v \<in> set vs \<Longrightarrow> class_ok v) \<Longrightarrow> class_ok (strongest vs)"
  by (cases vs) (auto simp: strongest_def find_Some_iff intro!: class_ok_highest split: option.split)

lemma class_ok_if [class_ok_intros]: "(c \<Longrightarrow> class_ok a) \<Longrightarrow> (\<not> c \<Longrightarrow> class_ok b) \<Longrightarrow> class_ok (if c then a else b)"
  by simp

lemma class_ok_option [class_ok_intros]:
  "(v = None \<Longrightarrow> class_ok a) \<Longrightarrow> (\<And>x. v = Some x \<Longrightarrow> class_ok (f x)) \<Longrightarrow> class_ok (case v of None \<Rightarrow> a | Some x \<Rightarrow> f x)"
  by (cases v) simp_all

lemma class_ok_list [class_ok_intros]:
  "(v = [] \<Longrightarrow> class_ok a) \<Longrightarrow> (\<And>x xs. v = x # xs \<Longrightarrow> class_ok (f x xs)) \<Longrightarrow> class_ok (case v of [] \<Rightarrow> a | x # xs \<Rightarrow> f x xs)"
  by (cases v) simp_all

lemma class_ok_git: "class_ok (classify_git words p)"
  unfolding classify_git_def Let_def by (intro class_ok_intros) simp_all

lemma class_ok_gh: "class_ok (classify_gh words p)"
  unfolding classify_gh_def Let_def by (intro class_ok_intros) simp_all

lemma class_ok_kubectl: "class_ok (classify_kubectl words p)"
  unfolding classify_kubectl_def Let_def by (intro class_ok_intros) simp_all

lemma class_ok_terraform: "class_ok (classify_terraform words p)"
  unfolding classify_terraform_def Let_def by (intro class_ok_intros) simp_all

lemma class_ok_request: "class_ok (classify_request words url)"
  unfolding classify_request_def Let_def by (intro class_ok_intros) simp_all

lemma class_ok_curl: "class_ok (classify_curl words)"
  unfolding classify_curl_def by (intro class_ok_intros class_ok_request)

lemma class_ok_database: "class_ok (classify_database executable words p)"
  unfolding classify_database_def Let_def by (intro class_ok_intros) simp_all

lemma class_ok_program: "class_ok (classify_program executable rest p)"
  unfolding classify_program_def
  by (intro class_ok_intros class_ok_git class_ok_gh class_ok_kubectl class_ok_terraform class_ok_curl
      class_ok_database) simp_all

lemma components_not_Nil: "cs \<noteq> [] \<Longrightarrow> fst (components_from cs out tokens) \<noteq> []"
  by (induction cs out tokens rule: components_from.induct) (auto split: list.split)

lemma class_ok_command: "class_ok (classify_command command p depth wrapped)"
  and class_ok_tokens: "class_ok (classify_tokens tokens p depth wrapped)"
proof (induction command p depth wrapped and tokens p depth wrapped rule: classify_command_classify_tokens.induct)
  case (1 command p depth wrapped)
  show ?case
  proof (cases "effect_tokens command")
    case (Some tokens)
    obtain cs out where cs: "components tokens = (cs, out)" by (cases "components tokens")
    then have "cs \<noteq> []" using components_not_Nil [of "[[]]" None tokens] by (simp add: components_def)
    with 1 Some cs show ?thesis
      by (subst classify_command.simps) (simp, intro impI conjI class_ok_intros, auto)
  qed (subst classify_command.simps, simp add: class_ok_unknown)
next
  case (2 tokens p depth wrapped)
  show ?case
    by (subst classify_tokens.simps, unfold Let_def, intro class_ok_intros class_ok_program) (use 2 in \<open>simp_all add: Let_def\<close>)
qed

lemma class_ok_configured: "configured_mcp identity p rules = Some v \<Longrightarrow> class_ok v"
  by (auto simp: configured_mcp_def class_ok_def split: option.splits)

lemma class_ok_mcp: "class_ok (classify_mcp name p rules)"
  by (cases "configured_mcp (mcp_identity (lower name)) p rules")
    (simp_all add: classify_mcp_def Let_def class_ok_configured class_ok_intros)


section \<open>Compositions\<close>

lemma rank_le_2: "rank c \<le> 2"
  by (simp add: rank_def split: rev_class.split)

lemma highest_in: "highest best vs \<in> set (best # vs)"
  by (induction best vs rule: highest.induct) auto

lemma highest_ge: "v \<in> set (best # vs) \<Longrightarrow> rank (cl_class v) \<le> rank (cl_class (highest best vs))"
proof (induction best vs arbitrary: v rule: highest.induct)
  case (2 best w vs)
  let ?b = "if rank (cl_class best) < rank (cl_class w) then w else best"
  from "2.prems" consider "v \<in> {best, w}" | "v \<in> set vs" by auto
  then show ?case
  proof cases
    case 1
    then have "rank (cl_class v) \<le> rank (cl_class ?b)" by auto
    also have "\<dots> \<le> rank (cl_class (highest best (w # vs)))" using "2.IH" [of ?b] by simp
    finally show ?thesis .
  next
    case 2
    then show ?thesis using "2.IH" [of v] by simp
  qed
qed simp

lemma strongest_in: "vs \<noteq> [] \<Longrightarrow> strongest vs \<in> set vs"
  using highest_in [of "hd vs" "tl vs"]
  by (cases vs) (auto simp: strongest_def find_Some_iff split: option.split)

lemma strongest_bounds:
  assumes "v \<in> set vs" and "\<And>v. v \<in> set vs \<Longrightarrow> class_ok v"
  shows "rank (cl_class v) \<le> rank (cl_class (strongest vs))"
    and "cl_confidence v = Unknown \<Longrightarrow> cl_confidence (strongest vs) = Unknown"
proof -
  show "rank (cl_class v) \<le> rank (cl_class (strongest vs))"
  proof (cases "find (\<lambda>v. cl_confidence v = Unknown) vs")
    case None
    then show ?thesis using assms(1) highest_ge [of v "hd vs" "tl vs"] by (cases vs) (auto simp: strongest_def)
  next
    case (Some u)
    then have "u \<in> set vs" "cl_confidence u = Unknown" by (auto simp: find_Some_iff)
    with assms(2) [of u] Some show ?thesis by (simp add: strongest_def class_ok_def rank_le_2) (simp add: rank_def rank_le_2 split: rev_class.split)
  qed
  assume "cl_confidence v = Unknown"
  with assms(1) show "cl_confidence (strongest vs) = Unknown"
    by (auto simp: strongest_def find_None_iff find_Some_iff split: option.split)
qed

lemma redirected_facts:
  "rank (cl_class v) \<le> rank (cl_class (redirected out v))" "out \<noteq> None \<Longrightarrow> cl_class (redirected out v) \<noteq> ClassA"
  "cl_class (redirected out v) = cl_class v \<or> (out \<noteq> None \<and> cl_class (redirected out v) = ClassB)"
  "class_ok v \<Longrightarrow> cl_confidence v = Unknown \<Longrightarrow> cl_confidence (redirected out v) = Unknown"
  by (auto simp: redirected_def known_def rank_def class_ok_def split: option.split)

text \<open>C35: A composed or redirected command is judged by its worst part: its class is at least that of
  every component, it is unknown as soon as one component is, it is no plain read when its
  output is redirected, and the class it gets is a component's or the redirection's own.\<close>

theorem composition_is_strongest:
  assumes "effect_tokens command = Some tokens" and "components tokens = (cs, out)"
    and "length cs > 1 \<or> out \<noteq> None" and "[] \<notin> set cs"
    and "length command \<le> max_command_chars" and "length tokens \<le> max_tokens"
    and "whole = classify_command command p depth wrapped"
  shows "(\<forall>c \<in> set cs. rank (cl_class (classify_tokens c p depth True)) \<le> rank (cl_class whole)
        \<and> (cl_confidence (classify_tokens c p depth True) = Unknown \<longrightarrow> cl_confidence whole = Unknown))
    \<and> (out \<noteq> None \<longrightarrow> cl_class whole \<noteq> ClassA) \<and> cl_confidence whole \<noteq> Exact
    \<and> ((\<exists>c \<in> set cs. cl_class whole = cl_class (classify_tokens c p depth True)) \<or> (out \<noteq> None \<and> cl_class whole = ClassB))"
proof -
  let ?part = "\<lambda>c. classify_tokens c p depth True"
  have "tokens \<noteq> []" using assms(2,4) by (auto simp: components_def)
  then have whole: "whole = weakened (redirected out (strongest (map ?part cs)))"
    using assms(1-7) by (simp add: list_ex_iff classify_command.simps)
  have ok: "class_ok v" if "v \<in> set (map ?part cs)" for v using that by (auto simp: class_ok_tokens)
  have cs: "map ?part cs \<noteq> []" using assms(2) components_not_Nil [of "[[]]" None tokens] by (auto simp: components_def)
  then obtain c where "c \<in> set cs" "strongest (map ?part cs) = ?part c" using strongest_in [OF cs] by auto
  moreover have "rank (cl_class (?part c)) \<le> rank (cl_class whole)
      \<and> (cl_confidence (?part c) = Unknown \<longrightarrow> cl_confidence whole = Unknown)" if "c \<in> set cs" for c
  proof -
    let ?s = "strongest (map ?part cs)"
    have "rank (cl_class (?part c)) \<le> rank (cl_class ?s)"
      and "cl_confidence (?part c) = Unknown \<longrightarrow> cl_confidence ?s = Unknown"
      using strongest_bounds [OF _ ok, of "?part c" "map ?part cs"] that by auto
    then show ?thesis
      using redirected_facts(1) [of ?s out] redirected_facts(4) [of ?s out] class_ok_strongest [OF cs ok]
      by (auto simp: whole)
  qed
  ultimately show ?thesis using redirected_facts(2,3) [of out "strongest (map ?part cs)"] by (auto simp: whole)
qed

section \<open>Nested shells\<close>

lemma shell_c_tokens:
  assumes "single_quote \<notin> set command"
  shows "effect_tokens (''bash -c '' @ single_quoted command) = Some [''bash'', ''-c'', command]"
proof -
  have "effect_tokens (''bash -c '' @ single_quoted command)
      = map_option (\<lambda>l. ''bash'' # ''-c'' # l) (lex ''|&;<>'' Blank [] False (single_quoted command))"
    by (simp add: effect_tokens_def shlex_list_def opens_def is_quote_def emit_def lex_blank_def newline_def
        single_quote_def double_quote_def backslash_def option.map_comp comp_def)
  also have "single_quoted command = join '' '' (map single_quoted [command])" by simp
  also have "lex ''|&;<>'' Blank [] False \<dots> = Some [command]"
    by (rule lex_quoted_words) (use assms in \<open>auto simp: single_quote_def\<close>)
  finally show ?thesis by simp
qed

lemma bash_name: "executable_name ''bash'' = ''bash''"
  by code_simp

text \<open>A quoted script handed to a shell is judged as the script itself, one level deeper and
  without the claim of an exact parse.\<close>

theorem shell_script_judged:
  assumes "single_quote \<notin> set command" and "length command \<le> max_command_chars - 10"
    and "command \<notin> set (''<'' # composition @ output_redirection)"
  shows "classify_command (''bash -c '' @ single_quoted command) p 0 wrapped = weakened (classify_command command p 1 True)"
proof -
  let ?ts = "[''bash'', ''-c'', command]"
  have "components ?ts = ([?ts], None)"
    using assms(3) by (simp add: components_def composition_def output_redirection_def)
  moreover have "length (''bash -c '' @ single_quoted command) \<le> max_command_chars"
    using assms(2) by (simp add: single_quoted_def max_command_chars_def)
  ultimately have "classify_command (''bash -c '' @ single_quoted command) p 0 wrapped = classify_tokens ?ts p 0 wrapped"
    using shell_c_tokens [OF assms(1)]
    by (subst classify_command.simps) (simp add: max_tokens_def del: append.simps)
  also have "\<dots> = weakened (classify_command command p 1 True)"
    by (subst classify_tokens.simps) (simp add: Let_def bash_name shells_def max_wrapper_depth_def)
  finally show ?thesis .
qed

section \<open>Resources without secrets\<close>

lemma code_lower_char: "code (lower_char c) = (if 65 \<le> code c \<and> code c \<le> 90 \<or> 192 \<le> code c \<and> code c \<le> 222 \<and> code c \<noteq> 215
    then code c + 32 else code c)"
  by (auto simp: lower_char_def Let_def code_def of_char_of)

lemma code_inject: "code c = code d \<longleftrightarrow> c = d"
  by (auto simp: code_def)

lemma lower_char_low:
  assumes "code d < 97" and "lower_char c = d" and "\<not> (65 \<le> code d \<and> code d \<le> 90)"
  shows "c = d"
proof -
  have "code d = (if 65 \<le> code c \<and> code c \<le> 90 \<or> 192 \<le> code c \<and> code c \<le> 222 \<and> code c \<noteq> 215
      then code c + 32 else code c)"
    using code_lower_char [of c] assms(2) by simp
  with assms(1) have "code c = code d" by (simp split: if_splits)
  then show ?thesis by (simp add: code_inject)
qed

lemma set_lower_low:
  assumes "code d < 97" and "\<not> (65 \<le> code d \<and> code d \<le> 90)"
  shows "d \<in> set (lower s) \<longleftrightarrow> d \<in> set s"
proof
  assume "d \<in> set (lower s)"
  then obtain c where "c \<in> set s" "lower_char c = d" by (auto simp: lower_def)
  moreover from this have "c = d" using lower_char_low [OF assms(1) _ assms(2)] by simp
  ultimately show "d \<in> set s" by simp
next
  have "lower_char d = d" using assms by (auto simp: lower_char_def Let_def)
  then show "d \<in> set s \<Longrightarrow> d \<in> set (lower s)" by (metis image_eqI list.set_map lower_def)
qed

definition url_mark :: "char \<Rightarrow> bool" where
  "url_mark c = (c \<in> {CHR ''?'', CHR ''#'', CHR ''@'', CHR ''/''})"

lemma set_lower_mark: "url_mark d \<Longrightarrow> d \<in> set (lower s) \<longleftrightarrow> d \<in> set s"
  by (rule set_lower_low) (unfold url_mark_def code_def, (elim insertE emptyE; simp)+)

lemma no_mark: "scheme_char c \<Longrightarrow> \<not> url_mark c" "is_digit c \<Longrightarrow> \<not> url_mark c"
  by (auto simp: url_mark_def scheme_char_def is_alnum_def is_digit_def code_def)

lemma scheme_marks: "list_all scheme_char s \<Longrightarrow> c \<in> set (lower s) \<Longrightarrow> \<not> url_mark c"
  using set_lower_mark no_mark(1) by (auto simp: list_all_iff)

lemma dec_int_marks: "c \<in> set (dec_int n) \<Longrightarrow> \<not> url_mark c"
  using dec_pos_digits [of "\<bar>n\<bar>" c] no_mark(2) by (auto simp: dec_int_def url_mark_def split: if_splits)

lemma hostname_marks:
  assumes "urlsplit v = Some u" and "hostname u = Some h" and "c \<in> set h"
  shows "\<not> url_mark c"
proof
  assume mark: "url_mark c"
  let ?h = "fst (hostinfo u)" let ?name = "before_first ''%'' ?h"
  have "h = lower ?name @ drop (length ?name) ?h"
    using assms(2) by (simp add: hostname_def Let_def split: if_splits)
  then have "c \<in> set ?name \<or> c \<in> set ?h"
    using assms(3) set_lower_mark [OF mark] set_drop_subset by fastforce
  then have "c \<in> set (after_last ''@'' (us_netloc u))"
    using set_before_first [of "''%''" ?h] set_hostinfo [of u] by blast
  then show False
    using mark url_netloc_clean [OF assms(1), of c] set_after_last [of "''@''" "us_netloc u"]
      after_last_not_in [of "CHR ''@''" "us_netloc u"]
    by (auto simp: url_mark_def url_delim_def)
qed

definition host_text :: "string \<Rightarrow> int option \<Rightarrow> string" where
  "host_text h q = (let bracketed = (if CHR '':'' \<in> set h then ''['' @ h @ '']'' else h) in
     case q of None \<Rightarrow> bracketed | Some n \<Rightarrow> bracketed @ '':'' @ dec_int n)"

lemma sanitize_parsed: "urlsplit v = Some u \<Longrightarrow> port u = Some q \<Longrightarrow> hostname u = Some h \<Longrightarrow> us_scheme u \<noteq> [] \<Longrightarrow>
    sanitize_remote_resource v = take 300 (urlunsplit (us_scheme u) (host_text h q) (us_path u))"
  by (simp add: sanitize_remote_resource_def host_text_def Let_def)

lemma host_text_marks:
  assumes "urlsplit v = Some u" and "hostname u = Some h" and "c \<in> set (host_text h q)"
  shows "\<not> url_mark c"
  using assms(3) hostname_marks [OF assms(1,2)] dec_int_marks [of c]
  by (auto simp: host_text_def Let_def url_mark_def split: option.splits if_splits)

lemma set_take: "c \<in> set (take n s) \<Longrightarrow> c \<in> set s"
  by (rule in_set_takeD)

lemma bare_clean: "c \<in> {CHR ''?'', CHR ''#''} \<Longrightarrow> c \<notin> set (before_first ''#'' (before_first ''?'' v))"
  using set_before_first not_in_before_first by fastforce

lemma path_clean: "urlsplit v = Some u \<Longrightarrow> c \<in> {CHR ''?'', CHR ''#''} \<Longrightarrow> c \<notin> set (us_path u)"
  using url_path_clean [of v u] by auto

text \<open>The resource kept of a remote address never holds a query or a fragment, and where the
  address parses, what stands between the scheme and the path is the host and its port alone:
  no user name and no password.\<close>

theorem sanitized_resource_clean:
  assumes "urlsplit v = Some u" and "port u = Some q" and "hostname u = Some h" and "us_scheme u \<noteq> []"
  shows "\<exists>host path. sanitize_remote_resource v = take 300 (us_scheme u @ ''://'' @ host @ path)
    \<and> CHR ''@'' \<notin> set host \<and> (path = [] \<or> hd path = CHR ''/'')
    \<and> CHR ''?'' \<notin> set (sanitize_remote_resource v) \<and> CHR ''#'' \<notin> set (sanitize_remote_resource v)"
proof -
  let ?path = "if us_path u \<noteq> [] \<and> hd (us_path u) \<noteq> CHR ''/'' then CHR ''/'' # us_path u else us_path u"
  let ?full = "us_scheme u @ ''://'' @ host_text h q @ ?path"
  have s: "sanitize_remote_resource v = take 300 ?full"
    using sanitize_parsed [OF assms] by (simp add: urlunsplit_def)
  have host: "CHR ''@'' \<notin> set (host_text h q)"
    using host_text_marks [OF assms(1,3)] by (auto simp: url_mark_def)
  have full: "c \<notin> set ?full" if "c \<in> {CHR ''?'', CHR ''#''}" for c
    using that host_text_marks [OF assms(1,3), of c q] path_clean [OF assms(1) that] url_scheme_clean [OF assms(1)]
      scheme_marks [of _ c]
    by (auto simp: url_mark_def)
  have "c \<notin> set (sanitize_remote_resource v)" if "c \<in> {CHR ''?'', CHR ''#''}" for c
    using full [OF that] in_set_takeD [of c 300 ?full] unfolding s by blast
  then show ?thesis using s host by (intro exI [of _ "host_text h q"] exI [of _ ?path]) simp
qed

text \<open>An address without a host keeps everything before its query, credentials included, and so does
  one whose scheme is not one.\<close>

theorem credentials_kept:
  "sanitize_remote_resource ''http://u:p@/x?q'' = ''http://u:p@/x''"
  "sanitize_remote_resource ''my_db://u:p@h/x'' = ''my_db://u:p@h/x''"
  by code_simp+

section \<open>Samples\<close>


theorem composition_is_strongest_witness:
  "cl_class (classify_command ''ls; rm x'' [] 0 False) \<noteq> ClassA"
proof -
  have tokens: "effect_tokens ''ls; rm x'' = Some [''ls'', '';'', ''rm'', ''x'']"
    and components: "components [''ls'', '';'', ''rm'', ''x''] = ([[''ls''], [''rm'', ''x'']], None)"
    by code_simp+
  have "rank (cl_class (classify_tokens [''rm'', ''x''] [] 0 True)) = 1" by code_simp
  with composition_is_strongest [OF tokens components _ _ _ _ refl, of "[]" 0 False] show ?thesis
    by (auto simp: max_command_chars_def max_tokens_def rank_def)
qed

theorem shell_script_judged_witness:
  "cl_class (classify_command (''bash -c '' @ single_quoted ''git push'') [] 0 False) = ClassC"
proof -
  have "cl_class (classify_command ''git push'' [] 1 True) = ClassC" by code_simp
  moreover have "''git push'' \<notin> set (''<'' # composition @ output_redirection)" by code_simp
  ultimately show ?thesis
    by (subst shell_script_judged) (simp_all add: single_quote_def max_command_chars_def)
qed

theorem sanitized_resource_clean_witness:
  "CHR ''?'' \<notin> set (sanitize_remote_resource ''https://u:p@h:84/a?q'')"
proof -
  have "case urlsplit ''https://u:p@h:84/a?q'' of None \<Rightarrow> False
    | Some u \<Rightarrow> port u = Some (Some 84) \<and> hostname u = Some ''h'' \<and> us_scheme u \<noteq> []"
    by code_simp
  then obtain u where "urlsplit ''https://u:p@h:84/a?q'' = Some u" "port u = Some (Some 84)"
    "hostname u = Some ''h''" "us_scheme u \<noteq> []"
    by (auto split: option.splits)
  from sanitized_resource_clean [OF this] show ?thesis by blast
qed

definition shell_class :: "string \<Rightarrow> rev_class \<times> confidence" where
  "shell_class command =
     (let v = classify (PStr ''Bash'') (PDict [(''command'', PStr command)]) [] in (cl_class v, cl_confidence v))"

text \<open>Deleting commands that are taken for exact reads: a second line, a command substitution, an
  action of \<open>find\<close>, the long spelling of \<open>sed -i\<close>, the operator \<open>|&\<close>, a field attached to
  the option of \<open>gh api\<close>.\<close>

theorem deletions_read_as_observations:
  "list_all (\<lambda>command. shell_class command = (ClassA, Exact))
     [''ls'' @ newline # ''rm -rf x'', ''cat $(rm -rf x)'', ''find . -delete'', ''sed --in-place d f'', ''ls |& rm x'',
      ''gh api -ftitle=x repos/o/r/issues'']"
  by code_simp

end
