(* ===== verification/Effect_Ledger.thy ===== *)
theory Effect_Ledger
  imports Effects Thread_State
begin

text \<open>
  Model of the ledger half of \<open>src/spotter/effects.py\<close>: the observation a class C call leaves,
  the reconstruction of external effects from a log, their explicit resolutions, and the
  coverage report of the classifier.
\<close>

section \<open>Observing an effect\<close>

definition effect_namespace :: "int list" where
  "effect_namespace = [38, 73, 114, 192, 35, 8, 78, 169, 182, 180, 8, 160, 49, 13, 42, 120]"

definition optional_identifier :: "pyval \<Rightarrow> string option" where
  "optional_identifier v = (case v of PStr s \<Rightarrow> if s = [] then None else Some s | _ \<Rightarrow> None)"

text \<open>An optional string as a value.\<close>

definition str_value :: "string option \<Rightarrow> pyval" where
  "str_value s = (case s of Some w \<Rightarrow> PStr w | None \<Rightarrow> PNone)"

definition unit_separator :: char where
  "unit_separator = CHR 0x1F"

definition operation_of :: "trace_event \<Rightarrow> string option" where
  "operation_of e =
     (case optional_identifier (str_value (ev_operation e)) of
        Some i \<Rightarrow> Some i
      | None \<Rightarrow> optional_identifier (get (ev_payload e) ''tool_use_id''))"

definition effect_identity :: "trace_event \<Rightarrow> string \<times> string" where
  "effect_identity e =
     (case operation_of e of
        Some operation \<Rightarrow> (''effect-'' @ uuid5_hex effect_namespace (''operation:'' @ operation), ''exact'')
      | None \<Rightarrow>
          let p = ev_payload e;
              known = List.map_filter optional_identifier
                [str_value (ev_id e), get p ''turn_id'', get p ''semantic_operation'', get p ''resource'']
          in (''effect-'' @ uuid5_hex effect_namespace (''fingerprint:'' @ join [unit_separator] known), ''inferred''))"

definition source_event_ids :: "trace_event \<Rightarrow> string list" where
  "source_event_ids e =
     take 8 (List.map_filter (\<lambda>(kind, raw). map_option (\<lambda>v. take 300 (kind @ '':'' @ v)) (optional_identifier raw))
       [(''event'', str_value (ev_id e)), (''operation'', str_value (ev_operation e)),
        (''item'', str_value (ev_item e)), (''tool'', get (ev_payload e) ''tool_use_id'')])"

definition is_int :: "pyval \<Rightarrow> bool" where
  "is_int v = (case v of PInt _ \<Rightarrow> True | _ \<Rightarrow> False)"

text \<open>\<open>value == 0 and not isinstance(value, bool)\<close>.\<close>

definition is_zero :: "pyval \<Rightarrow> bool" where
  "is_zero v = (num_eq v 0 \<and> (case v of PBool _ \<Rightarrow> False | _ \<Rightarrow> True))"

definition exit_values :: "payload \<Rightarrow> pyval list" where
  "exit_values p = [get p ''exitCode'', get p ''exit_code'']
     @ (case get p ''tool_response'' of PDict r \<Rightarrow> [get r ''exit_code''] | _ \<Rightarrow> [])"

definition has_exit_code :: "payload \<Rightarrow> bool" where
  "has_exit_code p = list_ex is_int (exit_values p)"

definition has_zero_exit_code :: "payload \<Rightarrow> bool" where
  "has_zero_exit_code p = list_ex is_zero (exit_values p)"

definition has_explicit_success :: "payload \<Rightarrow> bool" where
  "has_explicit_success p =
     list_ex (\<lambda>v. v = PBool True
       \<or> (case v of
           PStr s \<Rightarrow> casefold s \<in> set [''completed'', ''passed'', ''succeeded'', ''success'']
             \<and> \<not> (has_exit_code p \<and> casefold s = ''completed'')
         | _ \<Rightarrow> False))
       ([get p ''success'', get p ''status'']
         @ (case get p ''tool_response'' of PDict r \<Rightarrow> [get r ''ok'', get r ''success'', get r ''status''] | _ \<Rightarrow> []))"

definition partial_status :: "pyval \<Rightarrow> bool" where
  "partial_status v = (case v of PStr s \<Rightarrow> casefold s \<in> set [''partial'', ''partially_succeeded''] | _ \<Rightarrow> False)"

text \<open>The outcome and the evidence for it.\<close>

definition effect_outcome :: "payload \<Rightarrow> string \<times> string" where
  "effect_outcome p =
     (let response = get p ''tool_response'';
          flagged = (case response of PDict r \<Rightarrow> get r ''partial'' = PBool True | _ \<Rightarrow> False);
          statuses = get p ''status'' # (case response of PDict r \<Rightarrow> [get r ''status''] | _ \<Rightarrow> [])
      in if flagged \<or> list_ex partial_status statuses then (''partial'', ''partial_result'')
         else if outcome_failure p = Some True then (''failed'', ''explicit_failure'')
         else if has_explicit_success p then (''succeeded'', ''explicit_success'')
         else if has_zero_exit_code p then (''unknown'', ''exit_zero_only'')
         else (''unknown'', ''no_conclusive_result''))"

definition started_kinds :: "string list" where
  "started_kinds = [''tool_started'', ''command_started'', ''file_change_started'']"

definition completed_kinds :: "string list" where
  "completed_kinds = [''tool_result'', ''command_result'', ''file_edit'']"

definition effect_payload :: "trace_event \<Rightarrow> payload" where
  "effect_payload e =
     (let p = ev_payload e; started = ev_kind e \<in> set started_kinds; (effect_id, quality) = effect_identity e;
          (outcome, evidence) = (if started then (''unknown'', ''operation_started'') else effect_outcome p)
      in [(''effect_id'', PStr effect_id), (''correlation_quality'', PStr quality),
          (''source_event_ids'', PList (map PStr (source_event_ids e))),
          (''kind'', get p ''effect_kind''), (''resource'', get p ''resource''),
          (''result'', PStr outcome), (''outcome'', PStr outcome), (''outcome_evidence'', PStr evidence),
          (''lifecycle'', PStr (if started then ''attempted'' else ''completed'')), (''reversible'', PBool False),
          (''checkpoint'', get p ''checkpoint''), (''turn_id'', get p ''turn_id''), (''tool_use_id'', get p ''tool_use_id''),
          (''classifier'', get p ''effect_classifier''), (''reason'', get p ''effect_reason''),
          (''confidence'', get p ''effect_confidence''), (''semantic_operation'', get p ''semantic_operation'')])"

definition effect_event :: "trace_event \<Rightarrow> trace_event option" where
  "effect_event e =
     (if ev_kind e \<notin> set (started_kinds @ completed_kinds) \<or> get (ev_payload e) ''reversibility_class'' \<noteq> PStr ''C''
      then None
      else Some ((plain_event ''external_effect'')\<lparr>ev_payload := effect_payload e, ev_identity := ev_identity e,
        ev_operation := ev_operation e, ev_item := ev_item e, ev_provenance := ev_provenance e,
        ev_epoch := ev_epoch e, ev_config := ev_config e\<rparr>))"

section \<open>Merging observations\<close>

text \<open>\<open>{**a, **b}\<close>.\<close>

definition dict_merge :: "payload \<Rightarrow> payload \<Rightarrow> payload" where
  "dict_merge a b = foldl (\<lambda>d kv. dset (fst kv) (snd kv) d) a b"

definition identifier_list :: "pyval \<Rightarrow> string list" where
  "identifier_list v = (case v of PList xs \<Rightarrow> List.map_filter optional_identifier xs | _ \<Rightarrow> [])"

definition observation_count :: "payload \<Rightarrow> int" where
  "observation_count p =
     (case dget p ''observation_count'' of Some (PInt n) \<Rightarrow> if n > 0 then n else 1 | _ \<Rightarrow> 1)"

definition observation_ends :: "payload \<Rightarrow> bool" where
  "observation_ends p = (get p ''outcome_evidence'' \<noteq> PStr ''operation_started'')"

text \<open>Only hashable values can be looked for in a set.\<close>

definition hashable :: "pyval \<Rightarrow> bool" where
  "hashable v = (case v of PList _ \<Rightarrow> False | PDict _ \<Rightarrow> False | _ \<Rightarrow> True)"

definition discard :: "pyval \<Rightarrow> string list \<Rightarrow> string list result" where
  "discard v xs = (if hashable v then Inr (filter (\<lambda>x. PStr x \<noteq> v) xs) else Inl TypeError)"

text \<open>The outcomes seen so far, without those of observations that only started.\<close>

definition seen_outcomes :: "payload \<Rightarrow> payload \<Rightarrow> string list result" where
  "seen_outcomes previous current =
     (let observed = identifier_list (get previous ''observed_outcomes'');
          earlier = (if observed \<noteq> [] then map PStr observed else [get previous ''outcome'']);
          outcomes = strings_of (earlier @ [get current ''outcome''])
      in rbind (if observation_ends previous then Inr outcomes else discard (get previous ''outcome'') outcomes)
        (\<lambda>xs. if observation_ends current then Inr xs else discard (get current ''outcome'') xs))"

definition merge_observations :: "payload \<Rightarrow> payload \<Rightarrow> payload result" where
  "merge_observations previous current =
     (let ended = observation_ends previous; ends = observation_ends current;
          base = (if ended \<and> \<not> ends then dict_merge current previous else dict_merge previous current);
          sources = take 16 (dedup (identifier_list (get previous ''source_event_ids'')
            @ identifier_list (get current ''source_event_ids'')));
          m1 = dset ''source_event_ids'' (PList (map PStr sources)) base;
          m2 = dset ''observation_count'' (PInt (observation_count previous + observation_count current)) m1
      in rbind (seen_outcomes previous current) (\<lambda>outcomes.
        let m3 = dset ''lifecycle'' (PStr (if ended \<or> ends then ''completed'' else ''attempted'')) m2;
            distinct_outcomes = sorted_set outcomes
        in Inr (if length distinct_outcomes > 1
           then dset ''observed_outcomes'' (PList (map PStr distinct_outcomes))
             (dset ''outcome_evidence'' (PStr ''conflicting_observations'')
               (dset ''outcome'' (PStr ''unknown'') (dset ''result'' (PStr ''unknown'') m3)))
           else m3)))"

section \<open>Resolutions\<close>

definition resolutions :: "string list" where
  "resolutions = [''reversed'', ''compensated'', ''reconciled_present'', ''reconciled_absent'', ''still_unresolved'']"

definition apply_resolution :: "payload \<Rightarrow> payload \<Rightarrow> string list \<Rightarrow> payload result" where
  "apply_resolution effect resolution known_ids =
     (let v = get resolution ''resolution'' in
      if \<not> hashable v then Inl TypeError
      else (case v of
          PStr value \<Rightarrow>
            if value \<notin> set resolutions then Inr effect
            else
              let related = optional_identifier (get resolution ''related_effect_id'');
                  verified = (value \<noteq> ''compensated'' \<or> (case related of Some r \<Rightarrow> r \<in> set known_ids | None \<Rightarrow> False));
                  entry = map (\<lambda>k. (k, get resolution k)) [''resolution_event_id'', ''resolution'', ''evidence'', ''related_effect_id'']
                    @ [(''relation_verified'', PBool verified)];
                  history = (case dget effect ''resolution_history'' of Some (PList xs) \<Rightarrow> xs | _ \<Rightarrow> [])
              in Inr (dset ''resolution_history'' (PList (take_last 16 (history @ [PDict entry])))
                   (dset ''resolution_relation_verified'' (PBool verified)
                     (dset ''resolved'' (PBool (verified \<and> value \<in> set [''reversed'', ''compensated'', ''reconciled_absent'']))
                       (dset ''resolution'' v effect))))
        | _ \<Rightarrow> Inr effect))"

section \<open>Reconstruction\<close>

text \<open>The effects so far, where each exactly correlated one stands, and the resolutions put aside.\<close>

record effect_fold =
  ef_effects :: "payload list"
  ef_exact :: "(string, nat) dict"
  ef_resolutions :: "payload list"

definition note_effect :: "effect_fold \<Rightarrow> payload \<Rightarrow> effect_fold result" where
  "note_effect f p =
     (case (get p ''correlation_quality'' = PStr ''exact'', optional_identifier (get p ''effect_id'')) of
        (True, Some effect_id) \<Rightarrow>
          (case dget (ef_exact f) effect_id of
             None \<Rightarrow> Inr (f\<lparr>ef_exact := dset effect_id (length (ef_effects f)) (ef_exact f), ef_effects := ef_effects f @ [p]\<rparr>)
           | Some i \<Rightarrow> rbind (merge_observations (ef_effects f ! i) p) (\<lambda>m. Inr (f\<lparr>ef_effects := (ef_effects f)[i := m]\<rparr>)))
      | _ \<Rightarrow> Inr (f\<lparr>ef_effects := ef_effects f @ [p]\<rparr>))"

definition effect_step :: "int option \<Rightarrow> effect_fold \<Rightarrow> step_record \<Rightarrow> effect_fold result" where
  "effect_step through f r =
     (if (case through of Some n \<Rightarrow> sr_step r > n | None \<Rightarrow> False) then Inr f
      else if ev_kind (sr_event r) = ''effect_resolution''
      then Inr (f\<lparr>ef_resolutions := ef_resolutions f @ [ev_payload (sr_event r)]\<rparr>)
      else if ev_kind (sr_event r) \<noteq> ''external_effect'' then Inr f
      else note_effect f (ev_payload (sr_event r)))"

fun effect_steps :: "int option \<Rightarrow> effect_fold \<Rightarrow> step_record list \<Rightarrow> effect_fold result" where
  "effect_steps through f [] = Inr f"
| "effect_steps through f (r # rs) = rbind (effect_step through f r) (\<lambda>f'. effect_steps through f' rs)"

definition resolve_one :: "(string, nat) dict \<Rightarrow> payload list \<Rightarrow> payload \<Rightarrow> payload list result" where
  "resolve_one exact effects resolution =
     (case Option.bind (optional_identifier (get resolution ''effect_id'')) (dget exact) of
        None \<Rightarrow> Inr effects
      | Some i \<Rightarrow> rbind (apply_resolution (effects ! i) resolution (dkeys exact)) (\<lambda>m. Inr (effects[i := m])))"

fun resolve_all :: "(string, nat) dict \<Rightarrow> payload list \<Rightarrow> payload list \<Rightarrow> payload list result" where
  "resolve_all exact effects [] = Inr effects"
| "resolve_all exact effects (r # rs) = rbind (resolve_one exact effects r) (\<lambda>es. resolve_all exact es rs)"

definition external_effects :: "step_record list \<Rightarrow> int option \<Rightarrow> payload list result" where
  "external_effects records through =
     rbind (effect_steps through \<lparr>ef_effects = [], ef_exact = [], ef_resolutions = []\<rparr> records)
       (\<lambda>f. resolve_all (ef_exact f) (ef_effects f) (ef_resolutions f))"

text \<open>\<open>fresh\<close> is the identifier \<open>uuid4\<close> returns.\<close>

definition effect_resolution_event ::
    "string \<Rightarrow> string \<Rightarrow> string \<Rightarrow> string \<Rightarrow> string option \<Rightarrow> trace_event result" where
  "effect_resolution_event fresh effect_id resolution evidence related =
     (let evidence = strip evidence; event_id = ''effect-resolution-'' @ fresh in
      if \<not> startswith effect_id ''effect-'' \<or> length effect_id > 80
      then Inl (EffectResolutionError ''effect_id must be a bounded stable effect id'')
      else if resolution \<notin> set resolutions then Inl (EffectResolutionError ''unsupported effect resolution'')
      else if evidence = [] \<or> length evidence > 500
      then Inl (EffectResolutionError ''resolution evidence must contain 1-500 characters'')
      else if resolution = ''compensated'' \<and> related = None
      then Inl (EffectResolutionError ''compensated effects require related_effect_id'')
      else if (case related of Some r \<Rightarrow> \<not> startswith r ''effect-'' \<or> length r > 80 | None \<Rightarrow> False)
      then Inl (EffectResolutionError ''related_effect_id must be a bounded stable effect id'')
      else if related = Some effect_id then Inl (EffectResolutionError ''an effect cannot resolve itself'')
      else Inr ((plain_event ''effect_resolution'')\<lparr>ev_payload :=
          [(''resolution_event_id'', PStr event_id), (''effect_id'', PStr effect_id), (''resolution'', PStr resolution),
           (''evidence'', PStr evidence), (''related_effect_id'', str_value related)], ev_id := Some event_id\<rparr>))"

section \<open>Coverage of the classifier\<close>

record coverage_report =
  cr_total :: nat
  cr_exact :: nat
  cr_bounded :: nat
  cr_family :: nat
  cr_shell :: nat
  cr_mcp :: nat
  cr_adapter :: nat
  cr_conservative :: nat
  cr_missing :: nat
  cr_reasons :: "(string, nat) dict"

definition empty_report :: coverage_report where
  "empty_report = \<lparr>cr_total = 0, cr_exact = 0, cr_bounded = 0, cr_family = 0, cr_shell = 0, cr_mcp = 0, cr_adapter = 0,
     cr_conservative = 0, cr_missing = 0, cr_reasons = []\<rparr>"

definition reason_name :: "payload \<Rightarrow> string" where
  "reason_name p = (case optional_identifier (get p ''effect_reason'') of Some r \<Rightarrow> r | None \<Rightarrow> ''unknown_reason'')"

definition count_bucket :: "payload \<Rightarrow> coverage_report \<Rightarrow> coverage_report" where
  "count_bucket p c =
     (if reason_name p = ''unknown_mcp_tool'' then c\<lparr>cr_mcp := cr_mcp c + 1\<rparr>
      else if get p ''effect_classifier'' = PStr ''shell_structure'' then c\<lparr>cr_shell := cr_shell c + 1\<rparr>
      else if reason_name p = ''unknown_tool_effect'' then c\<lparr>cr_adapter := cr_adapter c + 1\<rparr>
      else c\<lparr>cr_family := cr_family c + 1\<rparr>)"

definition count_reason :: "payload \<Rightarrow> coverage_report \<Rightarrow> coverage_report" where
  "count_reason p c =
     (let r = reason_name p; seen = (case dget (cr_reasons c) r of Some n \<Rightarrow> n | None \<Rightarrow> 0) in
      c\<lparr>cr_reasons := dset r (seen + 1) (cr_reasons c),
        cr_conservative := cr_conservative c + (if get p ''reversibility_class'' = PStr ''C'' then 1 else 0)\<rparr>)"

definition coverage_step :: "coverage_report \<Rightarrow> trace_event \<Rightarrow> coverage_report" where
  "coverage_step c e =
     (if ev_kind e \<noteq> ''tool_proposal'' then c
      else
        let p = ev_payload e; c1 = c\<lparr>cr_total := cr_total c + 1\<rparr>; sure = get p ''effect_confidence'' in
        if sure = PStr ''exact'' then c1\<lparr>cr_exact := cr_exact c1 + 1\<rparr>
        else if sure = PStr ''bounded'' then c1\<lparr>cr_bounded := cr_bounded c1 + 1\<rparr>
        else if sure \<noteq> PStr ''unknown'' then c1\<lparr>cr_missing := cr_missing c1 + 1\<rparr>
        else count_bucket p (count_reason p c1))"

definition measure_effect_coverage :: "step_record list \<Rightarrow> coverage_report" where
  "measure_effect_coverage records =
     (let c = foldl coverage_step empty_report (map sr_event records)
      in c\<lparr>cr_reasons := sort_key fst (cr_reasons c)\<rparr>)"

definition render_effect_coverage :: "coverage_report \<Rightarrow> string" where
  "render_effect_coverage c =
     (let listed = join '', '' (map (\<lambda>(k, n). k @ ''='' @ dec_nat n) (cr_reasons c));
          reasons = (if listed = [] then ''none'' else listed)
      in ''Effect classification coverage:'' @ newline
         # ''  operations='' @ dec_nat (cr_total c) @ '', exact='' @ dec_nat (cr_exact c)
         @ '', bounded='' @ dec_nat (cr_bounded c) @ '', missing_provenance='' @ dec_nat (cr_missing c) @ newline
         # ''  unknown family='' @ dec_nat (cr_family c) @ '', shell_shape='' @ dec_nat (cr_shell c)
         @ '', mcp_tool='' @ dec_nat (cr_mcp c) @ '', adapter_operation='' @ dec_nat (cr_adapter c)
         @ '', conservative_C='' @ dec_nat (cr_conservative c) @ newline
         # ''  unknown reasons: '' @ reasons)"

end
