(* ===== verification/Ledger_Claims.thy ===== *)
theory Ledger_Claims
  imports Effect_Ledger "HOL-Library.Multiset"
begin

text \<open>
  Properties of the effect ledger: every exactly correlated effect is listed once and no
  observation is lost, a completion wins over a start in either order, nothing counts as
  resolved without a record that says so, and the coverage report adds up.
\<close>

section \<open>Merging\<close>

lemma dget_dict_merge: "dict_ok b \<Longrightarrow> dget (dict_merge a b) k = (case dget b k of Some v \<Rightarrow> Some v | None \<Rightarrow> dget a k)"
proof (induction b arbitrary: a)
  case Nil
  then show ?case by (simp add: dict_merge_def)
next
  case (Cons kv b)
  obtain j v where kv: "kv = (j, v)" by (cases kv)
  have "j \<notin> fst ` set b" "dict_ok b" using Cons.prems by (auto simp: kv dict_ok_def)
  then have "dget b j = None" by (simp add: dget_def map_of_eq_None_iff)
  with Cons.IH [of "dset j v a"] \<open>dict_ok b\<close> show ?case
    by (auto simp: kv dict_merge_def dict_eval split: option.split)
qed

lemma dict_ok_merge: "dict_ok a \<Longrightarrow> dict_ok (dict_merge a b)"
  unfolding dict_merge_def by (induction b arbitrary: a) auto

lemma get_dset [simp]: "get (dset k v d) j = (if j = k then v else get d j)"
  by (simp add: get_def)

lemma observation_count_pos: "observation_count p > 0"
  by (auto simp: observation_count_def split: option.split pyval.split)

lemma observation_count_dset [simp]:
  "k \<noteq> ''observation_count'' \<Longrightarrow> observation_count (dset k v d) = observation_count d"
  "n > 0 \<Longrightarrow> observation_count (dset ''observation_count'' (PInt n) d) = n"
  by (simp_all add: observation_count_def)

text \<open>What a merge leaves of the two observations.\<close>

lemma merge_facts:
  assumes "merge_observations previous current = Inr m"
  shows "observation_count m = observation_count previous + observation_count current"
    and "get m ''lifecycle'' = PStr (if observation_ends previous \<or> observation_ends current then ''completed'' else ''attempted'')"
  using assms observation_count_pos [of previous] observation_count_pos [of current]
  by (auto simp: merge_observations_def Let_def)

definition merge_base :: "payload \<Rightarrow> payload \<Rightarrow> payload" where
  "merge_base a b = (if observation_ends a \<and> \<not> observation_ends b then dict_merge b a else dict_merge a b)"

lemma merge_keeps:
  assumes "merge_observations a b = Inr m"
    and "k \<notin> set [''source_event_ids'', ''observation_count'', ''lifecycle'', ''result'', ''outcome'',
      ''outcome_evidence'', ''observed_outcomes'']"
  shows "dget m k = dget (merge_base a b) k"
  using assms by (auto simp: merge_observations_def merge_base_def Let_def split: if_splits)

lemma merge_dict_ok: "dict_ok a \<Longrightarrow> dict_ok b \<Longrightarrow> merge_observations a b = Inr m \<Longrightarrow> dict_ok m"
  by (auto simp: merge_observations_def Let_def dict_ok_merge)

definition effect_key :: "payload \<Rightarrow> string option" where
  "effect_key p = (if get p ''correlation_quality'' = PStr ''exact'' then optional_identifier (get p ''effect_id'') else None)"

lemma optional_identifier_Some: "optional_identifier v = Some i \<longleftrightarrow> v = PStr i \<and> i \<noteq> []"
  by (auto simp: optional_identifier_def split: pyval.splits if_splits)

lemma effect_key_Some: "effect_key p = Some i \<longleftrightarrow> dget p ''correlation_quality'' = Some (PStr ''exact'')
    \<and> dget p ''effect_id'' = Some (PStr i) \<and> i \<noteq> []"
  by (auto simp: effect_key_def get_def optional_identifier_Some split: option.splits if_splits)

lemma merge_key:
  assumes "merge_observations a b = Inr m" and "dict_ok a" and "dict_ok b" and "effect_key a = Some i" and "effect_key b = Some i"
  shows "effect_key m = Some i"
  using assms by (auto simp: effect_key_Some merge_keeps [OF assms(1)] merge_base_def dget_dict_merge)

definition verified_by :: "string \<Rightarrow> payload \<Rightarrow> string list \<Rightarrow> bool" where
  "verified_by w r ids \<longleftrightarrow> w \<noteq> ''compensated''
     \<or> (\<exists>i \<in> set ids. optional_identifier (get r ''related_effect_id'') = Some i)"

lemma apply_resolution_cases:
  assumes "apply_resolution p r ids = Inr p'"
  obtains (kept) "p' = p"
  | (applied) w history where "get r ''resolution'' = PStr w" "w \<in> set resolutions"
      "p' = dset ''resolution_history'' history (dset ''resolution_relation_verified'' (PBool (verified_by w r ids))
         (dset ''resolved'' (PBool (verified_by w r ids \<and> w \<in> set [''reversed'', ''compensated'', ''reconciled_absent'']))
           (dset ''resolution'' (PStr w) p)))"
proof (cases "get r ''resolution''")
  case (PStr w)
  have ver: "(w \<noteq> ''compensated'' \<or> (case optional_identifier (get r ''related_effect_id'') of Some r \<Rightarrow> r \<in> set ids | None \<Rightarrow> False))
      = verified_by w r ids"
    by (auto simp: verified_by_def split: option.split)
  show thesis
  proof (cases "w \<in> set resolutions")
    case True
    then show thesis using assms by (intro applied [OF PStr]) (auto simp: apply_resolution_def PStr hashable_def Let_def simp flip: ver)
  next
    case False
    then show thesis using assms by (intro kept) (simp add: apply_resolution_def PStr hashable_def)
  qed
qed (use assms kept in \<open>auto simp: apply_resolution_def hashable_def\<close>)

lemma apply_resolution_facts:
  assumes "apply_resolution p r ids = Inr p'"
  shows "effect_key p' = effect_key p" and "observation_count p' = observation_count p"
    and "get p' ''lifecycle'' = get p ''lifecycle''" and "dict_ok p \<Longrightarrow> dict_ok p'"
  using assms by (cases rule: apply_resolution_cases; simp add: effect_key_def)+

section \<open>The fold\<close>

text \<open>The observations a reconstruction reads.\<close>

definition observations :: "int option \<Rightarrow> step_record list \<Rightarrow> payload list" where
  "observations through rs = map (\<lambda>r. ev_payload (sr_event r))
     (filter (\<lambda>r. ev_kind (sr_event r) = ''external_effect'' \<and> (case through of Some n \<Rightarrow> sr_step r \<le> n | None \<Rightarrow> True)) rs)"

lemma observations_simps:
  "observations through [] = []"
  "observations through (r # rs) =
     (if ev_kind (sr_event r) = ''external_effect'' \<and> (case through of Some n \<Rightarrow> sr_step r \<le> n | None \<Rightarrow> True)
      then ev_payload (sr_event r) # observations through rs else observations through rs)"
  by (simp_all add: observations_def)

text \<open>
  The list of effects is the quotient of the observations: each exact identifier stands at one
  place, the others are all there, the counts add up.
\<close>

definition ledger_inv :: "payload list \<Rightarrow> (string, nat) dict \<Rightarrow> payload list \<Rightarrow> bool" where
  "ledger_inv obs exact effects \<longleftrightarrow>
     (\<forall>i n. dget exact i = Some n \<longleftrightarrow> n < length effects \<and> effect_key (effects ! n) = Some i)
     \<and> (\<forall>i. (\<exists>p \<in> set effects. effect_key p = Some i) \<longleftrightarrow> (\<exists>p \<in> set obs. effect_key p = Some i))
     \<and> list_all dict_ok effects
     \<and> sum_list (map observation_count effects) = sum_list (map observation_count obs)
     \<and> length (filter (\<lambda>p. effect_key p = None) effects) = length (filter (\<lambda>p. effect_key p = None) obs)"

lemma sum_update: "n < length xs \<Longrightarrow> sum_list (map f (xs[n := y])) = sum_list (map f xs) - f (xs ! n) + (f y :: int)"
  by (induction xs arbitrary: n) (auto split: nat.split)

lemma filter_length_update:
  "n < length xs \<Longrightarrow> P y = P (xs ! n) \<Longrightarrow> length (filter P (xs[n := y])) = length (filter P xs)"
  by (induction xs arbitrary: n) (auto split: nat.split)

lemma ledger_inv_append:
  assumes "ledger_inv obs exact effects" and "dict_ok p" and "effect_key p = None"
  shows "ledger_inv (obs @ [p]) exact (effects @ [p])"
  using assms unfolding ledger_inv_def by (auto simp: nth_append less_Suc_eq)

lemma ledger_inv_new:
  assumes "ledger_inv obs exact effects" and "dict_ok p" and "effect_key p = Some i" and "dget exact i = None"
  shows "ledger_inv (obs @ [p]) (dset i (length effects) exact) (effects @ [p])"
proof -
  have "effect_key (effects ! n) \<noteq> Some i" if "n < length effects" for n
  proof
    assume "effect_key (effects ! n) = Some i"
    with assms(1) that have "dget exact i = Some n" unfolding ledger_inv_def by blast
    with assms(4) show False by simp
  qed
  with assms show ?thesis unfolding ledger_inv_def by (auto simp: nth_append less_Suc_eq)
qed

lemma ledger_inv_merge:
  assumes inv: "ledger_inv obs exact effects" and p: "dict_ok p" "effect_key p = Some i" and n: "dget exact i = Some n"
    and m: "merge_observations (effects ! n) p = Inr m"
  shows "ledger_inv (obs @ [p]) exact (effects[n := m])"
proof -
  have old: "n < length effects" "effect_key (effects ! n) = Some i" "dict_ok (effects ! n)"
    using inv n by (auto simp: ledger_inv_def list_all_length)
  have key: "effect_key m = Some i" and ok: "dict_ok m"
    using merge_key [OF m old(3) p(1) old(2) p(2)] merge_dict_ok [OF old(3) p(1) m] by auto
  have "effect_key (effects[n := m] ! j) = effect_key (effects ! j)" if "j < length effects" for j
    using key old by (cases "j = n") simp_all
  then have keys: "(\<exists>q \<in> set (effects[n := m]). effect_key q = Some j) \<longleftrightarrow> (\<exists>q \<in> set effects. effect_key q = Some j)" for j
    by (metis in_set_conv_nth length_list_update)
  have "sum_list (map observation_count (effects[n := m])) = sum_list (map observation_count (obs @ [p]))"
    using inv merge_facts(1) [OF m] old(1) by (simp add: ledger_inv_def sum_update)
  moreover have "length (filter (\<lambda>p. effect_key p = None) (effects[n := m])) = length (filter (\<lambda>p. effect_key p = None) (obs @ [p]))"
    using inv key old p(2) by (simp add: ledger_inv_def filter_length_update)
  moreover have "list_all dict_ok (effects[n := m])"
    using inv ok old(1) by (auto simp: ledger_inv_def list_all_length nth_list_update)
  ultimately show ?thesis
    using inv old p(2) key keys unfolding ledger_inv_def by (auto simp: nth_list_update)
qed

lemma note_effect_inv:
  assumes "ledger_inv obs (ef_exact f) (ef_effects f)" and "dict_ok p" and "note_effect f p = Inr f'"
  shows "ledger_inv (obs @ [p]) (ef_exact f') (ef_effects f')"
proof (cases "effect_key p")
  case None
  then have "f' = f\<lparr>ef_effects := ef_effects f @ [p]\<rparr>"
    using assms(3) by (auto simp: note_effect_def effect_key_def split: bool.splits if_splits)
  then show ?thesis using ledger_inv_append [OF assms(1,2) None] by simp
next
  case (Some i)
  then have *: "get p ''correlation_quality'' = PStr ''exact''" "optional_identifier (get p ''effect_id'') = Some i"
    by (auto simp: effect_key_def split: if_splits)
  show ?thesis
  proof (cases "dget (ef_exact f) i")
    case None
    then show ?thesis using assms(3) ledger_inv_new [OF assms(1,2) Some None] by (auto simp: note_effect_def *)
  next
    case (Some n)
    then show ?thesis using assms(3) ledger_inv_merge [OF assms(1,2) \<open>effect_key p = Some i\<close> Some]
      by (auto simp: note_effect_def *)
  qed
qed

lemma effect_steps_inv:
  assumes "ledger_inv obs (ef_exact f) (ef_effects f)" and "list_all dict_ok (observations through rs)"
    and "effect_steps through f rs = Inr f'"
  shows "ledger_inv (obs @ observations through rs) (ef_exact f') (ef_effects f')"
  using assms
proof (induction rs arbitrary: obs f)
  case (Cons r rs)
  then obtain f1 where f1: "effect_step through f r = Inr f1" "effect_steps through f1 rs = Inr f'" by auto
  let ?read = "ev_kind (sr_event r) = ''external_effect'' \<and> (case through of Some n \<Rightarrow> sr_step r \<le> n | None \<Rightarrow> True)"
  show ?case
  proof (cases ?read)
    case True
    then have "note_effect f (ev_payload (sr_event r)) = Inr f1"
      using f1(1) by (auto simp: effect_step_def split: option.splits if_splits)
    with Cons.prems True have "ledger_inv (obs @ [ev_payload (sr_event r)]) (ef_exact f1) (ef_effects f1)"
      by (intro note_effect_inv) (auto simp: observations_simps)
    from Cons.IH [OF this _ f1(2)] Cons.prems(2) True show ?thesis by (simp add: observations_simps)
  next
    case False
    then have "ef_exact f1 = ef_exact f" "ef_effects f1 = ef_effects f"
      using f1(1) by (auto simp: effect_step_def split: option.splits if_splits)
    then show ?thesis using Cons.IH [of obs f1] Cons.prems f1(2) False by (auto simp: observations_simps)
  qed
qed (simp add: observations_simps)

lemma resolve_one_inv:
  assumes "ledger_inv obs exact effects" and "resolve_one exact effects r = Inr effects'"
  shows "ledger_inv obs exact effects'"
proof (cases "Option.bind (optional_identifier (get r ''effect_id'')) (dget exact)")
  case (Some n)
  then obtain m where m: "apply_resolution (effects ! n) r (dkeys exact) = Inr m" "effects' = effects[n := m]"
    using assms(2) by (auto simp: resolve_one_def)
  have n: "n < length effects" using Some assms(1) by (auto simp: ledger_inv_def bind_eq_Some_conv)
  have same: "effect_key (effects' ! j) = effect_key (effects ! j)" for j
    using apply_resolution_facts(1) [OF m(1)] n by (simp add: m(2) nth_list_update)
  have "(\<exists>q \<in> set effects'. effect_key q = Some j) \<longleftrightarrow> (\<exists>q \<in> set effects. effect_key q = Some j)" for j
    using same m(2) by (metis in_set_conv_nth length_list_update)
  moreover have "sum_list (map observation_count effects') = sum_list (map observation_count effects)"
    using n apply_resolution_facts(2) [OF m(1)] by (simp add: m(2) sum_update)
  moreover have "length (filter (\<lambda>p. effect_key p = None) effects') = length (filter (\<lambda>p. effect_key p = None) effects)"
    using n apply_resolution_facts(1) [OF m(1)] by (simp add: m(2) filter_length_update)
  moreover have "list_all dict_ok effects'"
    using assms(1) n apply_resolution_facts(4) [OF m(1)] by (auto simp: m(2) ledger_inv_def list_all_length nth_list_update)
  ultimately show ?thesis using assms(1) same unfolding ledger_inv_def by (simp add: m(2))
qed (use assms in \<open>simp add: resolve_one_def\<close>)

lemma resolve_all_inv: "ledger_inv obs exact effects \<Longrightarrow> resolve_all exact effects rs = Inr effects' \<Longrightarrow> ledger_inv obs exact effects'"
  by (induction rs arbitrary: effects) (auto intro: resolve_one_inv)

lemma distinct_map_filter:
  "(\<And>i j. i < j \<Longrightarrow> j < length xs \<Longrightarrow> f (xs ! i) = f (xs ! j) \<Longrightarrow> f (xs ! i) = None) \<Longrightarrow> distinct (List.map_filter f xs)"
proof (induction xs)
  case (Cons x xs)
  have "f (xs ! i) = None" if "i < j" "j < length xs" "f (xs ! i) = f (xs ! j)" for i j
    using Cons.prems [of "Suc i" "Suc j"] that by simp
  then have "distinct (List.map_filter f xs)" by (rule Cons.IH)
  moreover have "k \<notin> set (List.map_filter f xs)" if "f x = Some k" for k
  proof
    assume "k \<in> set (List.map_filter f xs)"
    then obtain j where "j < length xs" "f (xs ! j) = Some k"
      by (auto simp: List.map_filter_def in_set_conv_nth)
    with Cons.prems [of 0 "Suc j"] that show False by simp
  qed
  ultimately show ?case by (auto simp: List.map_filter_simps split: option.split)
qed (simp add: List.map_filter_simps)

lemma ledger_inv_distinct:
  assumes inv: "ledger_inv obs exact effects" shows "distinct (List.map_filter effect_key effects)"
proof (rule distinct_map_filter)
  fix i j assume *: "i < j" "j < length effects" "effect_key (effects ! i) = effect_key (effects ! j)"
  show "effect_key (effects ! i) = None"
  proof (cases "effect_key (effects ! i)")
    case (Some k)
    with * have "dget exact k = Some i" "dget exact k = Some j"
      using inv unfolding ledger_inv_def by auto
    with * show ?thesis by simp
  qed
qed

text \<open>C36: Reconstruction loses nothing and repeats nothing: the exactly correlated identifiers are
  listed once each and are those observed, every observation without one keeps an entry of its
  own, and the observation counts of the list add up to those of the log.\<close>

theorem effects_identified_once:
  assumes "external_effects records through = Inr effects" and "list_all dict_ok (observations through records)"
  shows "distinct (List.map_filter effect_key effects)
    \<and> set (List.map_filter effect_key effects) = set (List.map_filter effect_key (observations through records))
    \<and> length (filter (\<lambda>p. effect_key p = None) effects) = length (filter (\<lambda>p. effect_key p = None) (observations through records))
    \<and> sum_list (map observation_count effects) = sum_list (map observation_count (observations through records))"
proof -
  let ?f = "\<lparr>ef_effects = [], ef_exact = [], ef_resolutions = []\<rparr>"
  obtain f where f: "effect_steps through ?f records = Inr f" "resolve_all (ef_exact f) (ef_effects f) (ef_resolutions f) = Inr effects"
    using assms(1) by (auto simp: external_effects_def)
  have "ledger_inv [] (ef_exact ?f) (ef_effects ?f)" by (simp add: ledger_inv_def)
  from resolve_all_inv [OF effect_steps_inv [OF this assms(2) f(1)] f(2)]
  have inv: "ledger_inv (observations through records) (ef_exact f) effects" by simp
  moreover have "i \<in> set (List.map_filter effect_key ps) \<longleftrightarrow> (\<exists>p \<in> set ps. effect_key p = Some i)" for i ps
    by (force simp: List.map_filter_def)
  ultimately show ?thesis using ledger_inv_distinct [OF inv] unfolding ledger_inv_def by auto
qed

section \<open>Outcomes\<close>

text \<open>An observation as \<open>effect_event\<close> writes it.\<close>

definition recorded :: "payload \<Rightarrow> bool" where
  "recorded q \<longleftrightarrow> dict_ok q \<and> dget q ''outcome_evidence'' \<noteq> None
     \<and> (\<exists>o1. dget q ''outcome'' = Some (PStr o1) \<and> o1 \<noteq> [] \<and> (\<not> observation_ends q \<longrightarrow> o1 = ''unknown''))
     \<and> get q ''lifecycle'' = PStr (if observation_ends q then ''completed'' else ''attempted'')
     \<and> dget q ''observed_outcomes'' = None \<and> dget q ''resolved'' = None"

lemma effect_outcome_words: "effect_outcome p = (o1, ev) \<Longrightarrow> o1 \<noteq> [] \<and> ev \<noteq> ''operation_started''"
  by (auto simp: effect_outcome_def Let_def split: if_splits)

lemma recorded_effect_payload: "recorded (effect_payload e)"
proof -
  obtain i q where i: "effect_identity e = (i, q)" by (cases "effect_identity e")
  obtain o1 ev where o1: "effect_outcome (ev_payload e) = (o1, ev)" by (cases "effect_outcome (ev_payload e)")
  note words = effect_outcome_words [OF o1]
  show ?thesis
    using words
    by (simp add: recorded_def effect_payload_def i o1 Let_def dict_ok_def dict_eval get_def observation_ends_def)
qed

lemma effect_event_recorded: "effect_event e = Some x \<Longrightarrow> ev_kind x = ''external_effect'' \<and> recorded (ev_payload x)"
  by (auto simp: effect_event_def plain_event_def recorded_effect_payload split: if_splits)

definition two :: "'a set \<Rightarrow> bool" where
  "two S \<longleftrightarrow> (\<exists>x \<in> S. \<exists>y \<in> S. x \<noteq> y)"

lemma two_simps [simp]: "\<not> two {}" "\<not> two {x}" "two {x, y} \<longleftrightarrow> x \<noteq> y"
  by (auto simp: two_def)

lemma two_mono: "two S \<Longrightarrow> S \<subseteq> T \<Longrightarrow> two T"
  by (auto simp: two_def)

lemma two_cases: obtains (none) "S = {}" | (one) x where "S = {x}" | (several) "two S"
  unfolding two_def by blast

lemma two_sorted: "length (sorted_set xs) > 1 \<longleftrightarrow> two (set xs)"
proof -
  have "length (sorted_set xs) = card (set xs)" by (simp add: sorted_set_def length_remdups_card_conv)
  then show ?thesis using card_le_Suc0_iff_eq [of "set xs"] by (auto simp: two_def not_le [symmetric])
qed

text \<open>What the list says of an effect whose completions showed the outcomes \<open>E\<close>.\<close>

definition effect_state :: "string set \<Rightarrow> payload \<Rightarrow> bool" where
  "effect_state E p \<longleftrightarrow> dict_ok p \<and> dget p ''resolved'' = None \<and> [] \<notin> E
     \<and> get p ''lifecycle'' = PStr (if E = {} then ''attempted'' else ''completed'')
     \<and> (\<exists>ev o1. dget p ''outcome_evidence'' = Some ev \<and> dget p ''outcome'' = Some (PStr o1)
          \<and> (ev = PStr ''operation_started'' \<longleftrightarrow> E = {}) \<and> (two E \<longrightarrow> ev = PStr ''conflicting_observations'')
          \<and> (if two E \<or> E = {} then o1 = ''unknown'' else E = {o1}))
     \<and> (let seen = set (identifier_list (get p ''observed_outcomes'')) in
          if two E then two seen \<and> seen \<subseteq> E else seen = {})"

definition own_outcome :: "payload \<Rightarrow> string set" where
  "own_outcome q = {o1. observation_ends q \<and> dget q ''outcome'' = Some (PStr o1)}"

lemma recorded_state: "recorded q \<Longrightarrow> effect_state (own_outcome q) q"
  by (auto simp: recorded_def effect_state_def own_outcome_def get_def identifier_list_def observation_ends_def)

lemma effect_state_ends: "effect_state E p \<Longrightarrow> observation_ends p \<longleftrightarrow> E \<noteq> {}"
  by (auto simp: effect_state_def observation_ends_def get_def)

lemma identifier_list_map: "[] \<notin> set xs \<Longrightarrow> identifier_list (PList (map PStr xs)) = xs"
  by (induction xs) (auto simp: identifier_list_def optional_identifier_def List.map_filter_simps)

lemma strings_of_append [simp]: "strings_of (xs @ ys) = strings_of xs @ strings_of ys"
  by (simp add: strings_of_def List.map_filter_def)

lemma strings_of_PStr [simp]: "strings_of (map PStr xs) = xs"
  by (induction xs) simp_all

text \<open>The outcomes a merge compares.\<close>

lemma seen_set:
  assumes st: "effect_state E p" and q: "recorded q" and o1: "get p ''outcome'' = PStr o1" and o2: "get q ''outcome'' = PStr o2"
  shows "\<exists>xs. seen_outcomes p q = Inr xs
    \<and> set xs = (if two E then set (identifier_list (get p ''observed_outcomes'')) else {o1}) \<union> {o2}
        - (if E = {} then {o1} else {}) - (if observation_ends q then {} else {o2})"
proof -
  let ?seen = "identifier_list (get p ''observed_outcomes'')"
  have "?seen \<noteq> [] \<longleftrightarrow> two E" using st by (auto simp: effect_state_def Let_def split: if_splits)
  then show ?thesis
    using o1 o2 effect_state_ends [OF st]
    by (auto simp: seen_outcomes_def Let_def discard_def hashable_def)
qed

text \<open>Which conflict a merge finds, and what it keeps.\<close>

definition base_value :: "payload \<Rightarrow> payload \<Rightarrow> string \<Rightarrow> pyval option" where
  "base_value p q k =
     (if observation_ends p \<and> \<not> observation_ends q
      then (case dget p k of Some v \<Rightarrow> Some v | None \<Rightarrow> dget q k)
      else (case dget q k of Some v \<Rightarrow> Some v | None \<Rightarrow> dget p k))"

lemma merge_values:
  assumes "merge_observations p q = Inr m" and "dict_ok p" and "dict_ok q" and "seen_outcomes p q = Inr xs"
  shows "dget m ''outcome'' = (if two (set xs) then Some (PStr ''unknown'') else base_value p q ''outcome'')"
    and "dget m ''outcome_evidence'' = (if two (set xs) then Some (PStr ''conflicting_observations'') else base_value p q ''outcome_evidence'')"
    and "dget m ''observed_outcomes'' = (if two (set xs) then Some (PList (map PStr (sorted_set xs))) else base_value p q ''observed_outcomes'')"
    and "dget m ''resolved'' = base_value p q ''resolved''"
  using assms by (auto simp: merge_observations_def base_value_def Let_def dget_dict_merge two_sorted [unfolded One_nat_def])

lemma recordedD: "recorded q \<Longrightarrow> dget q ''outcome'' = Some (PStr o2) \<Longrightarrow> o2 \<noteq> []
    \<and> (\<not> observation_ends q \<longrightarrow> o2 = ''unknown'') \<and> dget q ''observed_outcomes'' = None \<and> dget q ''resolved'' = None"
  unfolding recorded_def by fastforce

lemma recordedE:
  assumes q: "recorded q"
  obtains ev2 o2 where "dget q ''outcome_evidence'' = Some ev2" "dget q ''outcome'' = Some (PStr o2)" "o2 \<noteq> []"
    "ev2 = PStr ''operation_started'' \<longleftrightarrow> \<not> observation_ends q" "\<not> observation_ends q \<longrightarrow> o2 = ''unknown''"
    "dget q ''observed_outcomes'' = None" "dget q ''resolved'' = None" "own_outcome q = (if observation_ends q then {o2} else {})"
proof -
  obtain ev2 o2 where *: "dget q ''outcome_evidence'' = Some ev2" "dget q ''outcome'' = Some (PStr o2)"
    using q unfolding recorded_def by blast
  then have "own_outcome q = (if observation_ends q then {o2} else {})"
    "observation_ends q \<longleftrightarrow> ev2 \<noteq> PStr ''operation_started''"
    by (simp_all add: own_outcome_def observation_ends_def get_def)
  then show thesis using * recordedD [OF q, of o2] by (intro that) blast+
qed

lemma effect_stateE:
  assumes st: "effect_state E p"
  obtains ev o1 where "dget p ''outcome_evidence'' = Some ev" "dget p ''outcome'' = Some (PStr o1)"
    "ev = PStr ''operation_started'' \<longleftrightarrow> E = {}" "two E \<longrightarrow> ev = PStr ''conflicting_observations''"
    "if two E \<or> E = {} then o1 = ''unknown'' else E = {o1}" "dget p ''resolved'' = None" "[] \<notin> E"
    "if two E then two (set (identifier_list (get p ''observed_outcomes''))) \<and> set (identifier_list (get p ''observed_outcomes'')) \<subseteq> E
     else set (identifier_list (get p ''observed_outcomes'')) = {}"
  using st unfolding effect_state_def Let_def by (elim conjE exE) (rule that)

text \<open>A merge sees a conflict when the completions differ; a start never adds one.\<close>

lemma conflict_iff:
  assumes o1: "if two E \<or> E = {} then o1 = u else E = {o1}" and seen: "if two E then two seen \<and> seen \<subseteq> E else seen = {}"
    and own: "own = (if ends then {o2} else {})"
    and xs: "xs = (if two E then seen else {o1}) \<union> {o2} - (if E = {} then {o1} else {}) - (if ends then {} else {o2})"
  shows "(two xs \<longrightarrow> two (E \<union> own) \<and> xs \<subseteq> E \<union> own) \<and> (\<not> two xs \<and> two (E \<union> own) \<longrightarrow> two E \<and> \<not> ends)"
proof (cases E rule: two_cases)
  case none
  then have "xs \<subseteq> {o2}" "E \<union> own \<subseteq> {o2}" using xs own by (auto split: if_splits)
  then have "\<not> two xs" "\<not> two (E \<union> own)" using two_mono two_simps(2) by metis+
  then show ?thesis by simp
next
  case (one x)
  then have "o1 = x" using o1 by simp
  with one xs own have "if ends then xs = {x, o2} \<and> E \<union> own = {x, o2} else xs \<subseteq> {x} \<and> E \<union> own = {x}"
    by auto
  then show ?thesis using two_mono [of xs "{x}"] by (auto split: if_splits)
next
  case several
  then have s: "two seen" "seen \<subseteq> E" using seen by auto
  moreover have "E \<noteq> {}" using several by auto
  ultimately have "if ends then xs = seen \<union> {o2} \<and> E \<union> own = E \<union> {o2} else xs \<subseteq> E \<and> E \<union> own = E"
    using xs own several by auto
  then show ?thesis using two_mono [OF s(1), of xs] two_mono [OF several, of "E \<union> own"] s(2) several
    by (auto split: if_splits)
qed

lemma merge_state:
  assumes st: "effect_state E p" and q: "recorded q" and m: "merge_observations p q = Inr m"
  shows "effect_state (E \<union> own_outcome q) m"
proof -
  let ?F = "E \<union> own_outcome q" and ?seen = "set (identifier_list (get p ''observed_outcomes''))"
  have ok: "dict_ok p" "dict_ok q" using st q by (auto simp: effect_state_def recorded_def)
  obtain ev o1 where p: "dget p ''outcome_evidence'' = Some ev" "dget p ''outcome'' = Some (PStr o1)"
    "ev = PStr ''operation_started'' \<longleftrightarrow> E = {}" "two E \<longrightarrow> ev = PStr ''conflicting_observations''"
    "if two E \<or> E = {} then o1 = ''unknown'' else E = {o1}" "dget p ''resolved'' = None" "[] \<notin> E"
    "if two E then two ?seen \<and> ?seen \<subseteq> E else ?seen = {}"
    by (rule effect_stateE [OF st])
  obtain ev2 o2 where q': "dget q ''outcome_evidence'' = Some ev2" "dget q ''outcome'' = Some (PStr o2)" "o2 \<noteq> []"
    "ev2 = PStr ''operation_started'' \<longleftrightarrow> \<not> observation_ends q" "\<not> observation_ends q \<longrightarrow> o2 = ''unknown''"
    "dget q ''observed_outcomes'' = None" "dget q ''resolved'' = None" "own_outcome q = (if observation_ends q then {o2} else {})"
    by (rule recordedE [OF q])
  obtain xs where xs: "seen_outcomes p q = Inr xs" "set xs = (if two E then ?seen else {o1}) \<union> {o2}
        - (if E = {} then {o1} else {}) - (if observation_ends q then {} else {o2})"
    using seen_set [OF st q, of o1 o2] p(2) q'(2) by (auto simp: get_def)
  note vals = merge_values [OF m ok xs(1)]
  have ends: "observation_ends p \<longleftrightarrow> E \<noteq> {}" by (rule effect_state_ends [OF st])
  have "[] \<notin> set xs" using xs(2) p(5,7,8) q'(3) by (auto split: if_splits)
  then have names: "identifier_list (PList (map PStr (sorted_set xs))) = sorted_set xs"
    by (intro identifier_list_map) simp
  have frame: "dict_ok m" "get m ''lifecycle'' = PStr (if ?F = {} then ''attempted'' else ''completed'')" "[] \<notin> ?F"
    "dget m ''resolved'' = None"
    using merge_dict_ok [OF ok m] merge_facts(2) [OF m] p(6,7) q'(3,7,8) vals(4)
    by (auto simp: ends base_value_def split: if_splits)
  note conflict = conflict_iff [OF p(5,8) q'(8) xs(2)]
  show ?thesis
  proof (cases "two (set xs)")
    case True
    then show ?thesis
      using frame conflict names unfolding effect_state_def Let_def
      by (auto simp: vals get_def)
  next
    case False
    show ?thesis
    proof (cases "observation_ends q")
      case True
      have one: "\<not> two ?F" using conflict False True by blast
      moreover have "o2 \<in> ?F" using q'(8) True by simp
      ultimately have F: "?F = {o2}" unfolding two_def by blast
      have E: "\<not> two E" using one two_mono [of E ?F] by blast
      have "get m ''observed_outcomes'' = get p ''observed_outcomes''"
        using True q'(6) by (simp add: vals False base_value_def get_def)
      then show ?thesis
        using frame F E p(8) q'(1,2,4) True unfolding effect_state_def Let_def
        by (simp add: vals False base_value_def)
    next
      case starts: False
      then have F: "?F = E" using q'(8) by simp
      have "get m ''observed_outcomes'' = get p ''observed_outcomes''"
        using starts q'(6) by (auto simp: vals False base_value_def get_def split: option.split)
      moreover have "dget m ''outcome'' = Some (PStr o1)" "dget m ''outcome_evidence'' = Some (if E = {} then ev2 else ev)"
        using starts p(1,2,5) q'(1,2,5) ends by (auto simp: vals False base_value_def)
      ultimately show ?thesis
        using frame p(3-5,8) q'(4) starts unfolding effect_state_def Let_def F
        by (cases "E = {}") (simp_all only: if_True if_False simp_thms get_def option.case, blast+)
    qed
  qed
qed

text \<open>The outcomes the completions of an identifier showed.\<close>

definition completions :: "string \<Rightarrow> payload list \<Rightarrow> string set" where
  "completions i obs = (\<Union>q \<in> {q \<in> set obs. effect_key q = Some i}. own_outcome q)"

lemma completions_snoc: "completions i (obs @ [q]) = completions i obs \<union> (if effect_key q = Some i then own_outcome q else {})"
  by (auto simp: completions_def)

definition outcomes_inv :: "payload list \<Rightarrow> payload list \<Rightarrow> bool" where
  "outcomes_inv obs effects \<longleftrightarrow>
     (\<forall>p \<in> set effects. dget p ''resolved'' = None \<and> (\<forall>i. effect_key p = Some i \<longrightarrow> effect_state (completions i obs) p))"

lemma outcomes_inv_append:
  assumes inv: "outcomes_inv obs effects" and q: "recorded q" and new: "\<And>i. effect_key q = Some i \<Longrightarrow> completions i obs = {}"
    and fresh: "\<And>i p. effect_key q = Some i \<Longrightarrow> p \<in> set effects \<Longrightarrow> effect_key p \<noteq> Some i"
  shows "outcomes_inv (obs @ [q]) (effects @ [q])"
proof -
  have "effect_state (completions i (obs @ [q])) q" if "effect_key q = Some i" for i
    using recorded_state [OF q] new [OF that] that by (simp add: completions_snoc)
  moreover have "effect_state (completions i (obs @ [q])) p" if "p \<in> set effects" "effect_key p = Some i" for i p
    using inv that fresh [of i p] by (auto simp: outcomes_inv_def completions_snoc)
  ultimately show ?thesis using inv q by (auto simp: outcomes_inv_def recorded_def)
qed

lemma outcomes_inv_merge:
  assumes inv: "outcomes_inv obs effects" and keys: "ledger_inv obs exact effects" and q: "recorded q" "effect_key q = Some i"
    and n: "dget exact i = Some n" and m: "merge_observations (effects ! n) q = Inr m"
  shows "outcomes_inv (obs @ [q]) (effects[n := m])"
proof -
  have old: "n < length effects" "effect_key (effects ! n) = Some i" "dict_ok (effects ! n)"
    using keys n by (auto simp: ledger_inv_def list_all_length)
  have "effect_state (completions i obs) (effects ! n)" using inv old(1,2) by (auto simp: outcomes_inv_def)
  from merge_state [OF this q(1) m] have st: "effect_state (completions i (obs @ [q])) m"
    using q(2) by (simp add: completions_snoc)
  have key: "effect_key m = Some i" using merge_key [OF m old(3) _ old(2) q(2)] q(1) by (simp add: recorded_def)
  have "dget p ''resolved'' = None \<and> (\<forall>j. effect_key p = Some j \<longrightarrow> effect_state (completions j (obs @ [q])) p)"
    if p: "p \<in> set (effects[n := m])" for p
  proof -
    obtain j where j: "j < length effects" "p = effects[n := m] ! j"
      using p by (metis in_set_conv_nth length_list_update)
    show ?thesis
    proof (cases "j = n")
      case True
      then show ?thesis using st key j by (simp add: effect_state_def)
    next
      case False
      then have "p = effects ! j" using j by simp
      moreover have "effect_key (effects ! j) \<noteq> Some i"
      proof
        assume "effect_key (effects ! j) = Some i"
        then have "dget exact i = Some j" using keys j(1) unfolding ledger_inv_def by blast
        with n False show False by simp
      qed
      ultimately show ?thesis using inv j(1) q(2) by (auto simp: outcomes_inv_def completions_snoc)
    qed
  qed
  then show ?thesis unfolding outcomes_inv_def by blast
qed

lemma note_effect_outcomes:
  assumes keys: "ledger_inv obs (ef_exact f) (ef_effects f)" and inv: "outcomes_inv obs (ef_effects f)" and q: "recorded q"
    and r: "note_effect f q = Inr f'"
  shows "outcomes_inv (obs @ [q]) (ef_effects f')"
proof (cases "effect_key q")
  case None
  then have "f' = f\<lparr>ef_effects := ef_effects f @ [q]\<rparr>"
    using r by (auto simp: note_effect_def effect_key_def split: bool.splits if_splits)
  then show ?thesis using outcomes_inv_append [OF inv q] None by simp
next
  case (Some i)
  then have *: "get q ''correlation_quality'' = PStr ''exact''" "optional_identifier (get q ''effect_id'') = Some i"
    by (auto simp: effect_key_def split: if_splits)
  show ?thesis
  proof (cases "dget (ef_exact f) i")
    case None
    have fresh: "effect_key p \<noteq> Some i" if "p \<in> set (ef_effects f)" for p
      using keys None that unfolding ledger_inv_def by (metis in_set_conv_nth option.distinct(1))
    then have "completions i obs = {}" using keys unfolding ledger_inv_def completions_def by blast
    then have "outcomes_inv (obs @ [q]) (ef_effects f @ [q])"
      by (intro outcomes_inv_append [OF inv q]) (use Some fresh in auto)
    moreover have "f' = f\<lparr>ef_exact := dset i (length (ef_effects f)) (ef_exact f), ef_effects := ef_effects f @ [q]\<rparr>"
      using r None by (simp add: note_effect_def *)
    ultimately show ?thesis by simp
  next
    case (Some n)
    then show ?thesis using r outcomes_inv_merge [OF inv keys q \<open>effect_key q = Some i\<close> Some] by (auto simp: note_effect_def *)
  qed
qed

lemma effect_steps_outcomes:
  assumes "ledger_inv obs (ef_exact f) (ef_effects f)" and "outcomes_inv obs (ef_effects f)"
    and "list_all recorded (observations through rs)" and "effect_steps through f rs = Inr f'"
  shows "outcomes_inv (obs @ observations through rs) (ef_effects f')"
  using assms
proof (induction rs arbitrary: obs f)
  case (Cons r rs)
  then obtain f1 where f1: "effect_step through f r = Inr f1" "effect_steps through f1 rs = Inr f'" by auto
  let ?read = "ev_kind (sr_event r) = ''external_effect'' \<and> (case through of Some n \<Rightarrow> sr_step r \<le> n | None \<Rightarrow> True)"
  let ?q = "ev_payload (sr_event r)"
  show ?case
  proof (cases ?read)
    case True
    then have noted: "note_effect f ?q = Inr f1" and q: "recorded ?q"
      using f1(1) Cons.prems(3) by (auto simp: effect_step_def observations_simps split: option.splits if_splits)
    have "dict_ok ?q" using q by (simp add: recorded_def)
    from Cons.IH [OF note_effect_inv [OF Cons.prems(1) this noted] note_effect_outcomes [OF Cons.prems(1,2) q noted] _ f1(2)]
    show ?thesis using Cons.prems(3) True by (simp add: observations_simps)
  next
    case False
    then have "ef_exact f1 = ef_exact f" "ef_effects f1 = ef_effects f"
      using f1(1) by (auto simp: effect_step_def split: option.splits if_splits)
    then show ?thesis using Cons.IH [of obs f1] Cons.prems f1(2) False by (auto simp: observations_simps)
  qed
qed (simp add: observations_simps)

section \<open>Resolved effects\<close>

definition outcome_said :: "string set \<Rightarrow> payload \<Rightarrow> bool" where
  "outcome_said E p \<longleftrightarrow> get p ''lifecycle'' = PStr (if E = {} then ''attempted'' else ''completed'')
     \<and> (\<forall>o1. E = {o1} \<longrightarrow> get p ''outcome'' = PStr o1) \<and> (E = {} \<or> two E \<longrightarrow> get p ''outcome'' = PStr ''unknown'')
     \<and> (two E \<longrightarrow> get p ''outcome_evidence'' = PStr ''conflicting_observations'')"

lemma said_of_state:
  assumes st: "effect_state E p" shows "outcome_said E p"
proof -
  have "get p ''lifecycle'' = PStr (if E = {} then ''attempted'' else ''completed'')"
    using st by (simp add: effect_state_def)
  moreover obtain ev o1 where p: "get p ''outcome_evidence'' = ev" "get p ''outcome'' = PStr o1"
    "two E \<longrightarrow> ev = PStr ''conflicting_observations''" "if two E \<or> E = {} then o1 = ''unknown'' else E = {o1}"
    by (rule effect_stateE [OF st]) (simp add: get_def)
  ultimately show ?thesis by (cases E rule: two_cases) (auto simp: outcome_said_def)
qed

lemma said_resolution: "apply_resolution p r ids = Inr p' \<Longrightarrow> outcome_said E p' = outcome_said E p"
  by (erule apply_resolution_cases) (simp_all add: outcome_said_def)

definition resolved_by :: "string list \<Rightarrow> payload \<Rightarrow> payload \<Rightarrow> bool" where
  "resolved_by ids r p \<longleftrightarrow> (\<exists>i w. effect_key p = Some i \<and> optional_identifier (get r ''effect_id'') = Some i
     \<and> get r ''resolution'' = PStr w \<and> w \<in> set [''reversed'', ''compensated'', ''reconciled_absent''] \<and> verified_by w r ids)"

definition resolved_inv :: "string list \<Rightarrow> payload list \<Rightarrow> payload list \<Rightarrow> bool" where
  "resolved_inv ids applied effects \<longleftrightarrow>
     (\<forall>p \<in> set effects. get p ''resolved'' = PBool True \<longrightarrow> (\<exists>r \<in> set applied. resolved_by ids r p))"

lemma resolve_one_resolved:
  assumes keys: "ledger_inv obs exact effects" and inv: "resolved_inv (dkeys exact) applied effects"
    and r: "resolve_one exact effects r = Inr effects'"
  shows "resolved_inv (dkeys exact) (applied @ [r]) effects'"
proof (cases "Option.bind (optional_identifier (get r ''effect_id'')) (dget exact)")
  case None
  then show ?thesis using r inv by (auto simp: resolve_one_def resolved_inv_def)
next
  case (Some n)
  then obtain i m where i: "optional_identifier (get r ''effect_id'') = Some i" "dget exact i = Some n"
    and m: "apply_resolution (effects ! n) r (dkeys exact) = Inr m" "effects' = effects[n := m]"
    using r by (auto simp: resolve_one_def bind_eq_Some_conv)
  have n: "n < length effects" "effect_key (effects ! n) = Some i" using keys i(2) by (auto simp: ledger_inv_def)
  have "\<exists>r' \<in> set (applied @ [r]). resolved_by (dkeys exact) r' m" if "get m ''resolved'' = PBool True"
    using m(1)
  proof (cases rule: apply_resolution_cases)
    case kept
    then show ?thesis using inv n(1) that by (auto simp: resolved_inv_def)
  next
    case (applied w history)
    have "effect_key m = Some i" using apply_resolution_facts(1) [OF m(1)] n(2) by simp
    then have "resolved_by (dkeys exact) r m" using applied that i(1) by (auto simp: resolved_by_def)
    then show ?thesis by simp
  qed
  then show ?thesis using inv set_update_subset_insert [of effects n m] by (auto simp: resolved_inv_def m(2))
qed

lemma resolve_all_resolved:
  "ledger_inv obs exact effects \<Longrightarrow> resolved_inv (dkeys exact) applied effects \<Longrightarrow> resolve_all exact effects rs = Inr effects'
    \<Longrightarrow> resolved_inv (dkeys exact) (applied @ rs) effects'"
proof (induction rs arbitrary: applied effects)
  case (Cons r rs)
  then obtain es where es: "resolve_one exact effects r = Inr es" "resolve_all exact es rs = Inr effects'" by auto
  from Cons.IH [OF resolve_one_inv [OF Cons.prems(1) es(1)] resolve_one_resolved [OF Cons.prems(1,2) es(1)] es(2)]
  show ?case by simp
qed simp

definition said_inv :: "payload list \<Rightarrow> payload list \<Rightarrow> bool" where
  "said_inv obs effects \<longleftrightarrow> (\<forall>p \<in> set effects. \<forall>i. effect_key p = Some i \<longrightarrow> outcome_said (completions i obs) p)"

lemma resolve_one_said:
  assumes keys: "ledger_inv obs exact effects" and inv: "said_inv obs effects" and r: "resolve_one exact effects r = Inr effects'"
  shows "said_inv obs effects'"
proof (cases "Option.bind (optional_identifier (get r ''effect_id'')) (dget exact)")
  case (Some n)
  then obtain m where m: "apply_resolution (effects ! n) r (dkeys exact) = Inr m" "effects' = effects[n := m]"
    using r by (auto simp: resolve_one_def)
  have n: "n < length effects" using keys Some by (auto simp: ledger_inv_def bind_eq_Some_conv)
  have "\<forall>i. effect_key m = Some i \<longrightarrow> outcome_said (completions i obs) m"
    using inv n said_resolution [OF m(1)] apply_resolution_facts(1) [OF m(1)] by (simp add: said_inv_def)
  then show ?thesis using inv set_update_subset_insert [of effects n m] by (auto simp: said_inv_def m(2))
qed (use r inv in \<open>simp add: resolve_one_def\<close>)

lemma resolve_all_said:
  "ledger_inv obs exact effects \<Longrightarrow> said_inv obs effects \<Longrightarrow> resolve_all exact effects rs = Inr effects' \<Longrightarrow> said_inv obs effects'"
  by (induction rs arbitrary: effects) (auto intro: resolve_one_inv resolve_one_said)

definition resolution_records :: "int option \<Rightarrow> step_record list \<Rightarrow> payload list" where
  "resolution_records through rs = map (\<lambda>r. ev_payload (sr_event r))
     (filter (\<lambda>r. ev_kind (sr_event r) = ''effect_resolution'' \<and> (case through of Some n \<Rightarrow> sr_step r \<le> n | None \<Rightarrow> True)) rs)"

lemma note_effect_resolutions: "note_effect f p = Inr f' \<Longrightarrow> ef_resolutions f' = ef_resolutions f"
  by (auto simp: note_effect_def split: bool.splits option.splits if_splits)

lemma effect_steps_resolutions:
  "effect_steps through f rs = Inr f' \<Longrightarrow> ef_resolutions f' = ef_resolutions f @ resolution_records through rs"
proof (induction rs arbitrary: f)
  case (Cons r rs)
  then obtain f1 where f1: "effect_step through f r = Inr f1" "effect_steps through f1 rs = Inr f'" by auto
  have "ef_resolutions f1 = ef_resolutions f @ resolution_records through [r]"
    using f1(1) note_effect_resolutions by (auto simp: effect_step_def resolution_records_def split: option.splits if_splits)
  with Cons.IH [OF f1(2)] show ?case by (simp add: resolution_records_def)
qed (simp add: resolution_records_def)

text \<open>What a reconstruction of recorded observations ends with.\<close>

lemma external_effects_inv:
  assumes run: "external_effects records through = Inr effects" and rec: "list_all recorded (observations through records)"
  shows "\<exists>exact. ledger_inv (observations through records) exact effects \<and> said_inv (observations through records) effects
    \<and> resolved_inv (dkeys exact) (resolution_records through records) effects"
proof -
  let ?f = "\<lparr>ef_effects = [], ef_exact = [], ef_resolutions = []\<rparr>" and ?obs = "observations through records"
  obtain f where f: "effect_steps through ?f records = Inr f" "resolve_all (ef_exact f) (ef_effects f) (ef_resolutions f) = Inr effects"
    using run by (auto simp: external_effects_def)
  have ok: "list_all dict_ok ?obs" using rec by (auto simp: list_all_iff recorded_def)
  have start: "ledger_inv [] (ef_exact ?f) (ef_effects ?f)" "outcomes_inv [] (ef_effects ?f)"
    by (simp_all add: ledger_inv_def outcomes_inv_def)
  have keys: "ledger_inv ?obs (ef_exact f) (ef_effects f)" using effect_steps_inv [OF start(1) ok f(1)] by simp
  have states: "outcomes_inv ?obs (ef_effects f)" using effect_steps_outcomes [OF start rec f(1)] by simp
  have "resolved_inv (dkeys (ef_exact f)) [] (ef_effects f)" using states by (auto simp: resolved_inv_def outcomes_inv_def get_def)
  from resolve_all_resolved [OF keys this f(2)] have "resolved_inv (dkeys (ef_exact f)) (resolution_records through records) effects"
    using effect_steps_resolutions [OF f(1)] by simp
  moreover have "said_inv ?obs (ef_effects f)" using states said_of_state by (auto simp: said_inv_def outcomes_inv_def)
  ultimately show ?thesis using resolve_all_inv [OF keys f(2)] resolve_all_said [OF keys _ f(2)] by blast
qed

text \<open>C37: An effect says what its completions said, in whatever order starts and completions were
  recorded: it is completed when one of them is, its outcome is the one all completions agree
  on, and unknown when there is none or they contradict each other, which is then marked.\<close>

theorem effect_outcome_agrees:
  assumes "external_effects records through = Inr effects" and "list_all recorded (observations through records)"
    and "p \<in> set effects" and "effect_key p = Some i" and "E = completions i (observations through records)"
  shows "get p ''lifecycle'' = PStr (if E = {} then ''attempted'' else ''completed'')
    \<and> (\<forall>o1. E = {o1} \<longrightarrow> get p ''outcome'' = PStr o1) \<and> (E = {} \<or> two E \<longrightarrow> get p ''outcome'' = PStr ''unknown'')
    \<and> (two E \<longrightarrow> get p ''outcome_evidence'' = PStr ''conflicting_observations'')"
  using external_effects_inv [OF assms(1,2)] assms(3-5) unfolding said_inv_def outcome_said_def by blast

text \<open>An effect is resolved only on the word of a resolution record for its identifier, and a
  compensation counts only when the compensating effect was itself observed.\<close>

theorem resolved_only_on_record:
  assumes "external_effects records through = Inr effects" and "list_all recorded (observations through records)"
    and "p \<in> set effects" and "get p ''resolved'' = PBool True"
  shows "\<exists>r \<in> set (resolution_records through records). \<exists>i w. effect_key p = Some i
    \<and> get r ''effect_id'' = PStr i \<and> get r ''resolution'' = PStr w \<and> w \<in> set [''reversed'', ''compensated'', ''reconciled_absent'']
    \<and> (w = ''compensated'' \<longrightarrow> (\<exists>j. get r ''related_effect_id'' = PStr j
         \<and> (\<exists>q \<in> set (observations through records). effect_key q = Some j)))"
proof -
  obtain exact where keys: "ledger_inv (observations through records) exact effects"
    and res: "resolved_inv (dkeys exact) (resolution_records through records) effects"
    using external_effects_inv [OF assms(1,2)] by blast
  have "\<exists>q \<in> set (observations through records). effect_key q = Some j" if "j \<in> set (dkeys exact)" for j
  proof -
    have "dget exact j \<noteq> None" using that unfolding dict.set_keys by simp
    then obtain n where "dget exact j = Some n" by blast
    then have "n < length effects" "effect_key (effects ! n) = Some j" using keys unfolding ledger_inv_def by blast+
    then show ?thesis using keys unfolding ledger_inv_def by (metis nth_mem)
  qed
  moreover obtain r i w where "r \<in> set (resolution_records through records)" "effect_key p = Some i"
    "optional_identifier (get r ''effect_id'') = Some i" "get r ''resolution'' = PStr w"
    "w \<in> set [''reversed'', ''compensated'', ''reconciled_absent'']" "verified_by w r (dkeys exact)"
    using res assms(3,4) unfolding resolved_inv_def resolved_by_def by blast
  ultimately show ?thesis unfolding verified_by_def optional_identifier_Some by blast
qed

section \<open>Reconstruction succeeds\<close>

lemma merge_total: "effect_state E p \<Longrightarrow> recorded q \<Longrightarrow> \<exists>m. merge_observations p q = Inr m"
proof -
  assume st: "effect_state E p" and q: "recorded q"
  obtain o1 where "get p ''outcome'' = PStr o1" by (rule effect_stateE [OF st]) (simp add: get_def)
  moreover obtain o2 where "get q ''outcome'' = PStr o2" by (rule recordedE [OF q]) (simp add: get_def)
  ultimately obtain xs where "seen_outcomes p q = Inr xs" using seen_set [OF st q] by blast
  then show ?thesis by (simp add: merge_observations_def Let_def)
qed

lemma note_effect_total:
  assumes "ledger_inv obs (ef_exact f) (ef_effects f)" and "outcomes_inv obs (ef_effects f)" and "recorded q"
  shows "\<exists>f'. note_effect f q = Inr f'"
proof (cases "effect_key q")
  case (Some i)
  then have *: "get q ''correlation_quality'' = PStr ''exact''" "optional_identifier (get q ''effect_id'') = Some i"
    by (auto simp: effect_key_def split: if_splits)
  show ?thesis
  proof (cases "dget (ef_exact f) i")
    case None
    then show ?thesis by (simp add: note_effect_def *)
  next
    case (Some n)
    then have n: "n < length (ef_effects f)" "effect_key (ef_effects f ! n) = Some i" using assms(1) unfolding ledger_inv_def by blast+
    then have "effect_state (completions i obs) (ef_effects f ! n)" using assms(2) by (auto simp: outcomes_inv_def)
    then show ?thesis using merge_total [OF _ assms(3)] Some by (fastforce simp: note_effect_def *)
  qed
qed (auto simp: note_effect_def effect_key_def split: bool.splits if_splits)

lemma effect_steps_total:
  assumes "ledger_inv obs (ef_exact f) (ef_effects f)" and "outcomes_inv obs (ef_effects f)"
    and "list_all recorded (observations through rs)"
  shows "\<exists>f'. effect_steps through f rs = Inr f'"
  using assms
proof (induction rs arbitrary: obs f)
  case (Cons r rs)
  let ?read = "ev_kind (sr_event r) = ''external_effect'' \<and> (case through of Some n \<Rightarrow> sr_step r \<le> n | None \<Rightarrow> True)"
  let ?q = "ev_payload (sr_event r)"
  show ?case
  proof (cases ?read)
    case True
    then have q: "recorded ?q" using Cons.prems(3) by (simp add: observations_simps)
    obtain f1 where f1: "note_effect f ?q = Inr f1" using note_effect_total [OF Cons.prems(1,2) q] by blast
    have "dict_ok ?q" using q by (simp add: recorded_def)
    from Cons.IH [OF note_effect_inv [OF Cons.prems(1) this f1] note_effect_outcomes [OF Cons.prems(1,2) q f1]]
    show ?thesis using f1 Cons.prems(3) True by (auto simp: effect_step_def observations_simps split: option.splits)
  next
    case False
    then have "\<exists>f1. effect_step through f r = Inr f1 \<and> ef_exact f1 = ef_exact f \<and> ef_effects f1 = ef_effects f"
      by (auto simp: effect_step_def not_le split: option.split)
    then obtain f1 where f1: "effect_step through f r = Inr f1" "ef_exact f1 = ef_exact f" "ef_effects f1 = ef_effects f"
      by blast
    then show ?thesis using Cons.IH [of obs f1] Cons.prems False by (auto simp: observations_simps split: if_splits)
  qed
qed simp

lemma resolve_all_total: "list_all (\<lambda>r. hashable (get r ''resolution'')) rs \<Longrightarrow> \<exists>es. resolve_all exact effects rs = Inr es"
proof (induction rs arbitrary: effects)
  case (Cons r rs)
  have "\<exists>es. resolve_one exact effects r = Inr es"
    using Cons.prems by (auto simp: resolve_one_def apply_resolution_def Let_def split: option.split pyval.split)
  then show ?case using Cons.IH Cons.prems by fastforce
qed simp

lemma external_effects_returns:
  assumes "list_all recorded (observations through records)"
    and "list_all (\<lambda>r. hashable (get r ''resolution'')) (resolution_records through records)"
  shows "\<exists>effects. external_effects records through = Inr effects"
proof -
  let ?f = "\<lparr>ef_effects = [], ef_exact = [], ef_resolutions = []\<rparr>"
  have "ledger_inv [] (ef_exact ?f) (ef_effects ?f)" "outcomes_inv [] (ef_effects ?f)"
    by (simp_all add: ledger_inv_def outcomes_inv_def)
  then obtain f where f: "effect_steps through ?f records = Inr f" using effect_steps_total assms(1) by blast
  moreover have "ef_resolutions f = resolution_records through records" using effect_steps_resolutions [OF f] by simp
  ultimately show ?thesis using resolve_all_total [OF assms(2)] by (simp add: external_effects_def)
qed

text \<open>C40: Whatever log of effects the module's own functions write can be read back: a log whose
  observations come from \<open>effect_event\<close> and whose resolutions from \<open>effect_resolution_event\<close>
  is reconstructed without an exception.\<close>

theorem reconstruction_total:
  assumes "\<And>r. r \<in> set records \<Longrightarrow> ev_kind (sr_event r) = ''external_effect'' \<Longrightarrow> \<exists>e. effect_event e = Some (sr_event r)"
    and "\<And>r. r \<in> set records \<Longrightarrow> ev_kind (sr_event r) = ''effect_resolution'' \<Longrightarrow>
      \<exists>fresh i w evidence related. effect_resolution_event fresh i w evidence related = Inr (sr_event r)"
  shows "\<exists>effects. external_effects records through = Inr effects"
proof (rule external_effects_returns)
  show "list_all recorded (observations through records)"
    using assms(1) effect_event_recorded by (fastforce simp: list_all_iff observations_def)
  have "hashable (get (ev_payload x) ''resolution'')" if "effect_resolution_event fresh i w evidence related = Inr x"
    for fresh i w evidence related x
    using that by (auto simp: effect_resolution_event_def Let_def get_def dict_eval hashable_def split: if_splits)
  then show "list_all (\<lambda>r. hashable (get r ''resolution'')) (resolution_records through records)"
    using assms(2) by (fastforce simp: list_all_iff resolution_records_def)
qed

section \<open>The coverage report\<close>

definition unknown_total :: "coverage_report \<Rightarrow> nat" where
  "unknown_total c = cr_family c + cr_shell c + cr_mcp c + cr_adapter c"

definition report_ok :: "nat \<Rightarrow> coverage_report \<Rightarrow> bool" where
  "report_ok n c \<longleftrightarrow> cr_total c = n \<and> cr_total c = cr_exact c + cr_bounded c + cr_missing c + unknown_total c
     \<and> sum_list (map snd (cr_reasons c)) = unknown_total c \<and> cr_conservative c \<le> unknown_total c"

lemma sum_dset: "sum_list (map snd (dset k v d)) + (case dget d k of Some w \<Rightarrow> w | None \<Rightarrow> 0) = sum_list (map snd d) + (v :: nat)"
  by (induction d) (auto simp: dict_eval split: option.splits)

lemma count_reason_facts:
  "sum_list (map snd (cr_reasons (count_reason p c))) = sum_list (map snd (cr_reasons c)) + 1"
  "cr_conservative (count_reason p c) \<le> cr_conservative c + 1"
  "unknown_total (count_reason p c) = unknown_total c" "cr_total (count_reason p c) = cr_total c"
  "cr_exact (count_reason p c) = cr_exact c" "cr_bounded (count_reason p c) = cr_bounded c"
  "cr_missing (count_reason p c) = cr_missing c"
  using sum_dset [of "reason_name p" "(case dget (cr_reasons c) (reason_name p) of Some n \<Rightarrow> n | None \<Rightarrow> 0) + 1" "cr_reasons c"]
  by (simp_all add: count_reason_def Let_def unknown_total_def)

lemma count_bucket_facts:
  "cr_reasons (count_bucket p c) = cr_reasons c" "cr_conservative (count_bucket p c) = cr_conservative c"
  "unknown_total (count_bucket p c) = unknown_total c + 1" "cr_total (count_bucket p c) = cr_total c"
  "cr_exact (count_bucket p c) = cr_exact c" "cr_bounded (count_bucket p c) = cr_bounded c"
  "cr_missing (count_bucket p c) = cr_missing c"
  by (simp_all add: count_bucket_def unknown_total_def)

lemma unknown_total_frame [simp]:
  "unknown_total (c\<lparr>cr_total := n\<rparr>) = unknown_total c" "unknown_total (c\<lparr>cr_exact := n\<rparr>) = unknown_total c"
  "unknown_total (c\<lparr>cr_bounded := n\<rparr>) = unknown_total c" "unknown_total (c\<lparr>cr_missing := n\<rparr>) = unknown_total c"
  "unknown_total (c\<lparr>cr_reasons := d\<rparr>) = unknown_total c"
  by (simp_all add: unknown_total_def)

lemma coverage_step_ok:
  "report_ok n c \<Longrightarrow> report_ok (if ev_kind e = ''tool_proposal'' then n + 1 else n) (coverage_step c e)"
  using count_reason_facts [of "ev_payload e" "c\<lparr>cr_total := cr_total c + 1\<rparr>"]
  by (auto simp: coverage_step_def report_ok_def Let_def count_bucket_facts)

lemma coverage_fold_ok:
  "report_ok n c \<Longrightarrow> report_ok (n + length (filter (\<lambda>e. ev_kind e = ''tool_proposal'') es)) (foldl coverage_step c es)"
proof (induction es arbitrary: n c)
  case (Cons e es)
  from Cons.IH [OF coverage_step_ok [OF Cons.prems, of e]] show ?case by (simp split: if_splits)
qed simp

text \<open>The coverage report adds up: every proposal is counted once, as exact, bounded, without
  provenance or in one bucket of the unknown ones; the reasons count exactly the unknown ones,
  in order, and no more of them than there are were conservatively class C.\<close>

theorem coverage_adds_up:
  "report_ok (length (filter (\<lambda>r. ev_kind (sr_event r) = ''tool_proposal'') records)) (measure_effect_coverage records)
   \<and> sorted (map fst (cr_reasons (measure_effect_coverage records)))"
proof -
  have "report_ok 0 empty_report" by (simp add: report_ok_def empty_report_def unknown_total_def)
  from coverage_fold_ok [OF this, of "map sr_event records"]
  have "report_ok (length (filter (\<lambda>r. ev_kind (sr_event r) = ''tool_proposal'') records)) (foldl coverage_step empty_report (map sr_event records))"
    by (simp add: filter_map comp_def)
  moreover have "sum_list (map snd (sort_key fst d)) = sum_list (map snd d)" for d :: "(string \<times> nat) list"
    by (metis mset_map mset_sort sum_mset_sum_list)
  ultimately show ?thesis by (simp add: report_ok_def measure_effect_coverage_def Let_def)
qed

section \<open>Samples\<close>

definition push_event :: "string \<Rightarrow> payload \<Rightarrow> trace_event" where
  "push_event kind p = (plain_event kind)\<lparr>ev_operation := Some ''op'',
     ev_payload := (''reversibility_class'', PStr ''C'') # p\<rparr>"

definition ledger_record :: "trace_event \<Rightarrow> step_record" where
  "ledger_record e = \<lparr>sr_step = 1, sr_event = e, sr_snapshot = None, sr_at = None, sr_version = 1\<rparr>"

definition push_started :: trace_event where
  "push_started = the (effect_event (push_event ''command_started'' []))"

definition push_done :: trace_event where
  "push_done = the (effect_event (push_event ''command_result'' [(''success'', PBool True)]))"

definition push_id :: string where
  "push_id = fst (effect_identity (push_event ''command_started'' []))"

lemma push_facts:
  "effect_event (push_event ''command_started'' []) = Some push_started"
  "effect_event (push_event ''command_result'' [(''success'', PBool True)]) = Some push_done"
  "effect_identity (push_event kind p) = (push_id, ''exact'')"
  by (simp_all add: push_started_def push_done_def push_id_def effect_event_def push_event_def plain_event_def started_kinds_def
      completed_kinds_def get_def dict_eval effect_identity_def operation_of_def str_value_def optional_identifier_def)

lemma push_id_name: "push_id \<noteq> []"
  by (simp add: push_id_def effect_identity_def operation_of_def push_event_def plain_event_def str_value_def optional_identifier_def)

lemma effect_event_fields: "effect_event e = Some x \<Longrightarrow> ev_payload x = effect_payload e \<and> ev_kind x = ''external_effect''"
  by (auto simp: effect_event_def plain_event_def split: if_splits)

lemma push_payloads:
  "ev_payload push_started = effect_payload (push_event ''command_started'' [])"
  "ev_payload push_done = effect_payload (push_event ''command_result'' [(''success'', PBool True)])"
  "ev_kind push_started = ''external_effect''" "ev_kind push_done = ''external_effect''"
  using effect_event_fields [OF push_facts(1)] effect_event_fields [OF push_facts(2)] by auto

lemma push_outcome: "effect_outcome (ev_payload (push_event ''command_result'' [(''success'', PBool True)])) = (''succeeded'', ''explicit_success'')"
  by code_simp

lemma push_values:
  "dget (ev_payload push_started) ''outcome_evidence'' = Some (PStr ''operation_started'')"
  "dget (ev_payload push_done) ''outcome_evidence'' = Some (PStr ''explicit_success'')"
  "dget (ev_payload push_done) ''outcome'' = Some (PStr ''succeeded'')"
  "dget (ev_payload push_started) ''correlation_quality'' = Some (PStr ''exact'')"
  "dget (ev_payload push_done) ''correlation_quality'' = Some (PStr ''exact'')"
  "dget (ev_payload push_started) ''effect_id'' = Some (PStr push_id)"
  "dget (ev_payload push_done) ''effect_id'' = Some (PStr push_id)"
  unfolding push_payloads effect_payload_def
  by (simp_all add: push_facts(3) push_outcome Let_def dict_eval)
    (simp_all add: push_event_def plain_event_def started_kinds_def)

lemma push_keys:
  "effect_key (ev_payload push_started) = Some push_id" "effect_key (ev_payload push_done) = Some push_id"
  "own_outcome (ev_payload push_started) = {}" "own_outcome (ev_payload push_done) = {''succeeded''}"
  by (simp_all add: effect_key_Some push_values push_id_name own_outcome_def observation_ends_def get_def)

text \<open>The completion is recorded before the start, then a resolution.\<close>

definition push_resolution :: payload where
  "push_resolution = [(''effect_id'', PStr push_id), (''resolution'', PStr ''reversed'')]"

definition push_log :: "step_record list" where
  "push_log = map ledger_record [push_done, push_started, (plain_event ''effect_resolution'')\<lparr>ev_payload := push_resolution\<rparr>]"

lemma push_log_facts:
  "observations None push_log = [ev_payload push_done, ev_payload push_started]"
  "resolution_records None push_log = [push_resolution]"
  by (simp_all add: push_log_def observations_def resolution_records_def ledger_record_def push_payloads plain_event_def)

lemma push_recorded: "list_all recorded (observations None push_log)"
  using effect_event_recorded push_facts(1,2) by (simp add: push_log_facts)

lemma push_run: "\<exists>effects. external_effects push_log None = Inr effects"
  by (rule external_effects_returns [OF push_recorded]) (simp add: push_log_facts push_resolution_def get_def dict_eval hashable_def)

lemma push_effect:
  assumes "external_effects push_log None = Inr effects" shows "\<exists>p \<in> set effects. effect_key p = Some push_id"
proof -
  obtain exact where "ledger_inv (observations None push_log) exact effects"
    using external_effects_inv [OF assms push_recorded] by blast
  moreover have "\<exists>q \<in> set (observations None push_log). effect_key q = Some push_id" by (simp add: push_log_facts push_keys)
  ultimately show ?thesis unfolding ledger_inv_def by blast
qed

theorem effects_identified_once_witness:
  "\<exists>effects. external_effects push_log None = Inr effects \<and> sum_list (map observation_count effects) = 2
     \<and> set (List.map_filter effect_key effects) = {push_id}"
proof -
  obtain effects where run: "external_effects push_log None = Inr effects" using push_run by blast
  have "list_all dict_ok (observations None push_log)" using push_recorded by (auto simp: list_all_iff recorded_def)
  moreover have "dget (ev_payload push_done) ''observation_count'' = None" "dget (ev_payload push_started) ''observation_count'' = None"
    by (simp_all add: push_payloads effect_payload_def Let_def dict_eval split: prod.split)
  then have "observation_count (ev_payload push_done) = 1" "observation_count (ev_payload push_started) = 1"
    by (simp_all add: observation_count_def)
  ultimately show ?thesis using effects_identified_once [OF run] run
    by (simp add: push_log_facts push_keys List.map_filter_simps)
qed

theorem effect_outcome_agrees_witness:
  "\<exists>effects. external_effects push_log None = Inr effects \<and> (\<exists>p \<in> set effects. get p ''outcome'' = PStr ''succeeded'')"
proof -
  obtain effects where run: "external_effects push_log None = Inr effects" using push_run by blast
  obtain p where p: "p \<in> set effects" "effect_key p = Some push_id" using push_effect [OF run] by blast
  have "completions push_id (observations None push_log) = {''succeeded''}"
    by (auto simp: completions_def push_log_facts push_keys)
  with effect_outcome_agrees [OF run push_recorded p refl] run p(1) show ?thesis by auto
qed

definition resolved_log :: "step_record list" where
  "resolved_log = map ledger_record [push_done, (plain_event ''effect_resolution'')\<lparr>ev_payload := push_resolution\<rparr>]"

lemma resolved_log_facts:
  "observations None resolved_log = [ev_payload push_done]" "resolution_records None resolved_log = [push_resolution]"
  by (simp_all add: resolved_log_def observations_def resolution_records_def ledger_record_def push_payloads plain_event_def)

lemma resolved_run: "\<exists>p. external_effects resolved_log None = Inr [p] \<and> get p ''resolved'' = PBool True"
proof -
  have "get (ev_payload push_done) ''correlation_quality'' = PStr ''exact''"
    "optional_identifier (get (ev_payload push_done) ''effect_id'') = Some push_id"
    by (simp_all add: get_def push_values optional_identifier_Some push_id_name)
  moreover have "optional_identifier (get push_resolution ''effect_id'') = Some push_id" "get push_resolution ''resolution'' = PStr ''reversed''"
    by (simp_all add: push_resolution_def get_def dict_eval optional_identifier_Some push_id_name)
  ultimately show ?thesis
    by (simp add: external_effects_def resolved_log_def ledger_record_def plain_event_def effect_step_def push_payloads(3,4)
        note_effect_def resolve_one_def apply_resolution_def hashable_def resolutions_def dict_eval Let_def)
qed

theorem resolved_only_on_record_witness:
  "\<exists>r \<in> set (resolution_records None resolved_log). get r ''resolution'' = PStr ''reversed''"
proof -
  obtain p where run: "external_effects resolved_log None = Inr [p]" "get p ''resolved'' = PBool True" using resolved_run by blast
  have "list_all recorded (observations None resolved_log)"
    using effect_event_recorded push_facts(2) by (simp add: resolved_log_facts)
  from resolved_only_on_record [OF run(1) this _ run(2)] show ?thesis
    by (auto simp: resolved_log_facts push_resolution_def get_def dict_eval)
qed

lemma push_id_short: "startswith push_id ''effect-''" "\<not> 80 < length push_id"
  by (simp_all add: push_id_def effect_identity_def operation_of_def push_event_def plain_event_def str_value_def
      optional_identifier_def startswith_iff length_uuid5_hex)

theorem reconstruction_total_witness:
  "\<exists>x effects. effect_resolution_event ''f'' push_id ''reversed'' ''undone'' None = Inr x
     \<and> external_effects (map ledger_record [push_started, x, push_done]) None = Inr effects"
proof -
  have "strip ''undone'' = ''undone''" by code_simp
  then obtain x where x: "effect_resolution_event ''f'' push_id ''reversed'' ''undone'' None = Inr x" "ev_kind x = ''effect_resolution''"
    by (simp add: effect_resolution_event_def push_id_short resolutions_def plain_event_def Let_def)
  have "\<exists>effects. external_effects (map ledger_record [push_started, x, push_done]) None = Inr effects"
  proof (rule reconstruction_total)
    fix r assume "r \<in> set (map ledger_record [push_started, x, push_done])"
    then consider "sr_event r = push_started" | "sr_event r = x" | "sr_event r = push_done" by (auto simp: ledger_record_def)
    note cases = this
    show "ev_kind (sr_event r) = ''external_effect'' \<Longrightarrow> \<exists>e. effect_event e = Some (sr_event r)"
      using cases by cases (use push_facts(1,2) x(2) in auto)
    show "ev_kind (sr_event r) = ''effect_resolution'' \<Longrightarrow>
        \<exists>fresh i w evidence related. effect_resolution_event fresh i w evidence related = Inr (sr_event r)"
      using cases x(1) push_payloads(3,4) by cases (simp, metis, simp)
  qed
  with x(1) show ?thesis by blast
qed

end
