(* ===== verification/Py_Regex.thy ===== *)
theory Py_Regex
  imports Py_Url
begin

text \<open>
  The part of Python's \<open>re\<close> the sources use, as a backtracking matcher: \<open>ends r c\<close> lists the
  configurations a pattern can end in, in the order the engine tries them, so that the first
  one is the match it reports. On it \<open>search\<close>, \<open>subn\<close> and the translation of shell
  patterns by \<open>fnmatch\<close>.
\<close>

section \<open>Patterns\<close>

datatype regex =
    Epsilon
  | Class "char \<Rightarrow> bool"
  | Seq regex regex
  | Alt regex regex
  | Greedy regex
  | Lazy regex
  | Boundary
  | AtEnd
  | NotAhead regex
  | Group nat regex

text \<open>A configuration: what is read already (latest character first), what is left, and what the groups took.\<close>

record config =
  passed :: string
  ahead :: string
  groups :: "(nat \<times> string) list"

text \<open>\<open>\w\<close> and \<open>\b\<close>.\<close>

definition word_char :: "char \<Rightarrow> bool" where
  "word_char c = (is_alpha c \<or> is_digit c \<or> c = CHR ''_'' \<or> code c \<in> set [178, 179, 185, 188, 189, 190])"

definition edge_word :: "string \<Rightarrow> bool" where
  "edge_word s = (case s of [] \<Rightarrow> False | c # _ \<Rightarrow> word_char c)"

text \<open>
  Repetition: at most \<open>n\<close> rounds, each of which must make progress. As many rounds as characters
  are left are therefore all there can be.
\<close>

fun repeated :: "bool \<Rightarrow> nat \<Rightarrow> (config \<Rightarrow> config list) \<Rightarrow> config \<Rightarrow> config list" where
  "repeated few 0 f c = [c]"
| "repeated few (Suc n) f c =
     (let longer = concat (map (repeated few n f) (filter (\<lambda>d. length (ahead d) < length (ahead c)) (f c)))
      in if few then c # longer else longer @ [c])"

primrec ends :: "regex \<Rightarrow> config \<Rightarrow> config list" where
  "ends Epsilon c = [c]"
| "ends (Class P) c = 
     (case ahead c of [] \<Rightarrow> [] | x # s \<Rightarrow> if P x then [c\<lparr>passed := x # passed c, ahead := s\<rparr>] else [])"
| "ends (Seq r1 r2) c = concat (map (ends r2) (ends r1 c))"
| "ends (Alt r1 r2) c = ends r1 c @ ends r2 c"
| "ends (Greedy r) c = repeated False (length (ahead c)) (ends r) c"
| "ends (Lazy r) c = repeated True (length (ahead c)) (ends r) c"
| "ends Boundary c = (if edge_word (passed c) \<noteq> edge_word (ahead c) then [c] else [])"
| "ends AtEnd c = (if ahead c = [] \<or> ahead c = [newline] then [c] else [])"
| "ends (NotAhead r) c = (if ends r c = [] then [c] else [])"
| "ends (Group n r) c =
     map (\<lambda>d. d\<lparr>groups := (n, rev (take (length (passed d) - length (passed c)) (passed d))) # groups d\<rparr>) (ends r c)"

text \<open>The match at a position, and the first position from the left that has one.\<close>

definition match_here :: "regex \<Rightarrow> string \<Rightarrow> string \<Rightarrow> config option" where
  "match_here r p s = (case ends r \<lparr>passed = p, ahead = s, groups = []\<rparr> of [] \<Rightarrow> None | c # _ \<Rightarrow> Some c)"

fun search_from :: "regex \<Rightarrow> string \<Rightarrow> string \<Rightarrow> bool" where
  "search_from r p [] = (match_here r p [] \<noteq> None)"
| "search_from r p (x # s) = (match_here r p (x # s) \<noteq> None \<or> search_from r (x # p) s)"

definition search :: "regex \<Rightarrow> string \<Rightarrow> bool" where
  "search r s = search_from r [] s"

section \<open>Notation of patterns\<close>

abbreviation Opt :: "regex \<Rightarrow> regex" where
  "Opt r \<equiv> Alt r Epsilon"

abbreviation Plus :: "regex \<Rightarrow> regex" where
  "Plus r \<equiv> Seq r (Greedy r)"

primrec Times :: "nat \<Rightarrow> regex \<Rightarrow> regex" where
  "Times 0 r = Epsilon"
| "Times (Suc n) r = Seq r (Times n r)"

abbreviation At_least :: "nat \<Rightarrow> regex \<Rightarrow> regex" where
  "At_least n r \<equiv> Seq (Times n r) (Greedy r)"

primrec Chars :: "string \<Rightarrow> regex" where
  "Chars [] = Epsilon"
| "Chars (c # cs) = Seq (Class (\<lambda>x. x = c)) (Chars cs)"

text \<open>The same without regard to case, under the flag \<open>(?i)\<close>; the argument is in lower case.\<close>

primrec Chars_i :: "string \<Rightarrow> regex" where
  "Chars_i [] = Epsilon"
| "Chars_i (c # cs) = Seq (Class (\<lambda>x. lower_char x = c)) (Chars_i cs)"

fun Seqs :: "regex list \<Rightarrow> regex" where
  "Seqs [] = Epsilon"
| "Seqs [r] = r"
| "Seqs (r # r' # rs) = Seq r (Seqs (r' # rs))"

fun Alts :: "regex list \<Rightarrow> regex" where
  "Alts [] = Epsilon"
| "Alts [r] = r"
| "Alts (r # r' # rs) = Alt r (Alts (r' # rs))"

abbreviation Blank :: regex where
  "Blank \<equiv> Class is_space"

abbreviation Ink :: regex where
  "Ink \<equiv> Class (\<lambda>c. \<not> is_space c)"

section \<open>Substitution\<close>

definition group_text :: "config \<Rightarrow> nat \<Rightarrow> string" where
  "group_text c n = (case map_of (groups c) n of None \<Rightarrow> [] | Some w \<Rightarrow> w)"

text \<open>\<open>pattern.subn(replacement, text)\<close>: every match from the left, none overlapping another.\<close>

function subn_from :: "regex \<Rightarrow> (config \<Rightarrow> string) \<Rightarrow> string \<Rightarrow> string \<Rightarrow> string \<times> nat" where
  "subn_from r new p s =
     (case s of [] \<Rightarrow> ([], 0)
      | x # t \<Rightarrow>
          (case match_here r p s of
             None \<Rightarrow> (let (u, n) = subn_from r new (x # p) t in (x # u, n))
           | Some c \<Rightarrow>
               if length (ahead c) < length s
               then let (u, n) = subn_from r new (passed c) (ahead c) in (new c @ u, Suc n)
               else let (u, n) = subn_from r new (x # p) t in (x # u, n)))"
  by pat_completeness auto
termination by (relation "measure (\<lambda>(_, _, _, s). length s)") auto

declare subn_from.simps [simp del]

definition subn :: "regex \<Rightarrow> (config \<Rightarrow> string) \<Rightarrow> string \<Rightarrow> string \<times> nat" where
  "subn r new s = subn_from r new [] s"

end
