(* ===== verification/Py_Posix.thy ===== *)
theory Py_Posix
  imports Py_Text
begin

text \<open>
  The functions of \<open>posixpath\<close> and \<open>fnmatch\<close> the path gates use. A path is a string; the
  home directories \<open>expanduser\<close> looks up are an argument.
\<close>

section \<open>posixpath\<close>

definition slash :: char where
  "slash = CHR ''/''"

definition isabs :: "string \<Rightarrow> bool" where
  "isabs path = startswith path [slash]"

definition basename :: "string \<Rightarrow> string" where
  "basename path = after_last [slash] path"

text \<open>One component of \<open>normpath\<close>: the components kept so far are held latest first.\<close>

definition norm_step :: "bool \<Rightarrow> string list \<Rightarrow> string \<Rightarrow> string list" where
  "norm_step absolute kept part =
     (if part = [] \<or> part = ''.'' then kept
      else if part \<noteq> ''..'' \<or> (\<not> absolute \<and> kept = []) \<or> (kept \<noteq> [] \<and> hd kept = ''..'') then part # kept
      else tl kept)"

definition initial_slashes :: "string \<Rightarrow> nat" where
  "initial_slashes path =
     (if startswith path ''//'' \<and> \<not> startswith path ''///'' then 2 else if isabs path then 1 else 0)"

definition norm_components :: "bool \<Rightarrow> string list \<Rightarrow> string list" where
  "norm_components absolute comps = rev (foldl (norm_step absolute) [] comps)"

definition normpath :: "string \<Rightarrow> string" where
  "normpath path =
     (let n = initial_slashes path;
          result = replicate n slash @ join [slash] (norm_components (0 < n) (split_on slash path))
      in if result = [] then ''.'' else result)"

definition path_join :: "string \<Rightarrow> string \<Rightarrow> string" where
  "path_join a b = (if isabs b then b else if a = [] \<or> last a = slash then a @ b else a @ slash # b)"

fun common_prefix :: "'a list \<Rightarrow> 'a list \<Rightarrow> nat" where
  "common_prefix (x # xs) (y # ys) = (if x = y then Suc (common_prefix xs ys) else 0)"
| "common_prefix _ _ = 0"

definition components_of :: "string \<Rightarrow> string list" where
  "components_of path = filter (\<lambda>w. w \<noteq> []) (split_on slash path)"

text \<open>\<open>relpath\<close> of two absolute paths; relative ones would be completed by the working directory first.\<close>

definition relpath :: "string \<Rightarrow> string \<Rightarrow> string" where
  "relpath path start =
     (let path_list = components_of (normpath path); start_list = components_of (normpath start);
          i = common_prefix start_list path_list;
          rel_list = replicate (length start_list - i) ''..'' @ drop i path_list
      in if rel_list = [] then ''.'' else join [slash] rel_list)"

text \<open>\<open>expanduser\<close>: \<open>home\<close> answers for a user name, the empty one for the caller's own.\<close>

definition expanduser :: "(string \<Rightarrow> string option) \<Rightarrow> string \<Rightarrow> string" where
  "expanduser home path =
     (if \<not> startswith path ''~'' then path
      else let user = takeWhile (\<lambda>c. c \<noteq> slash) (tl path); others = dropWhile (\<lambda>c. c \<noteq> slash) (tl path)
        in case home user of
             None \<Rightarrow> path
           | Some dir \<Rightarrow>
               (let result = rstrip_when (\<lambda>c. c = slash) dir @ others in if result = [] then [slash] else result))"

section \<open>Normal paths\<close>

text \<open>What a component that names a directory entry looks like.\<close>

definition entry :: "string \<Rightarrow> bool" where
  "entry w \<longleftrightarrow> w \<noteq> [] \<and> w \<noteq> ''.'' \<and> w \<noteq> ''..'' \<and> slash \<notin> set w"

lemma split_on_sep: "split_on sep (a @ sep # b) = split_on sep a @ split_on sep b"
  by (induction a) (auto split: list.splits)

lemma split_on_word: "sep \<notin> set w \<Longrightarrow> split_on sep w = [w]"
  by (induction w) auto

lemma split_on_join: "ws \<noteq> [] \<Longrightarrow> (\<And>w. w \<in> set ws \<Longrightarrow> sep \<notin> set w) \<Longrightarrow> split_on sep (join [sep] ws) = ws"
proof (induction ws)
  case (Cons w ws)
  then show ?case by (cases ws) (auto simp: split_on_word split_on_sep)
qed simp

lemma in_set_tl: "x \<in> set (tl xs) \<Longrightarrow> x \<in> set xs"
  by (cases xs) auto

lemma entries_absolute:
  assumes "\<And>w. w \<in> set kept \<Longrightarrow> entry w" and "\<And>w. w \<in> set comps \<Longrightarrow> slash \<notin> set w"
  shows "w \<in> set (foldl (norm_step True) kept comps) \<Longrightarrow> entry w"
  using assms
proof (induction comps arbitrary: kept)
  case (Cons c cs)
  have "\<And>v. v \<in> set (norm_step True kept c) \<Longrightarrow> entry v"
    using Cons.prems(2,3) by (auto simp: norm_step_def split: if_splits dest: in_set_tl) (auto simp: entry_def)
  then show ?case using Cons.IH [of "norm_step True kept c"] Cons.prems(1,3) by simp
qed simp

text \<open>Entries are kept as they are.\<close>

lemma norm_entries: "(\<And>w. w \<in> set ws \<Longrightarrow> entry w) \<Longrightarrow> foldl (norm_step a) kept ws = rev ws @ kept"
  by (induction ws arbitrary: kept) (auto simp: norm_step_def entry_def)

text \<open>The relative normal form climbs first and then descends; normalizing it again under an
  absolute directory changes nothing.\<close>

inductive climbs :: "string list \<Rightarrow> bool" where
  climbs_up: "climbs (replicate k ''..'')"
| climbs_down: "climbs kept \<Longrightarrow> entry w \<Longrightarrow> climbs (w # kept)"

lemma climbs_step:
  assumes "climbs kept" and c: "slash \<notin> set c"
  shows "climbs (norm_step False kept c)"
  using assms(1)
proof (cases rule: climbs.cases)
  case (climbs_up k)
  show ?thesis
  proof (cases "entry c")
    case True
    then have "climbs (c # replicate k ''..'')" by (intro climbs_down climbs.climbs_up)
    then show ?thesis using True climbs_up by (auto simp: norm_step_def entry_def)
  next
    case False
    then show ?thesis using c climbs_up climbs.climbs_up [of k] climbs.climbs_up [of "Suc k"]
      by (cases k) (auto simp: norm_step_def entry_def)
  qed
next
  case (climbs_down ws w)
  moreover have "climbs (c # kept)" if "entry c"
    using that assms(1) by (rule climbs.climbs_down [rotated])
  ultimately show ?thesis using c assms(1) by (auto simp: norm_step_def entry_def)
qed

lemma climbs_comps: "(\<And>w. w \<in> set comps \<Longrightarrow> slash \<notin> set w) \<Longrightarrow> climbs kept \<Longrightarrow> climbs (foldl (norm_step False) kept comps)"
  by (induction comps arbitrary: kept) (auto intro: climbs_step)

text \<open>Normalizing a relative spelling before resolving it makes no difference.\<close>

lemma norm_up: "(\<And>w. w \<in> set kept \<Longrightarrow> entry w) \<Longrightarrow> norm_step True kept ''..'' = tl kept"
  by (cases kept) (auto simp: norm_step_def entry_def)

lemma norm_twice:
  assumes "\<And>w. w \<in> set st \<Longrightarrow> entry w" and "\<And>w. w \<in> set comps \<Longrightarrow> slash \<notin> set w"
  shows "foldl (norm_step True) st (norm_components False comps) = foldl (norm_step True) st comps"
  using assms(2)
proof (induction comps rule: rev_induct)
  case (snoc c cs)
  define kept where "kept = foldl (norm_step False) [] cs"
  have IH: "foldl (norm_step True) st (rev kept) = foldl (norm_step True) st cs"
    using snoc by (simp add: norm_components_def kept_def)
  have entries: "\<And>w. w \<in> set (foldl (norm_step True) st cs) \<Longrightarrow> entry w"
    using entries_absolute assms(1) snoc.prems by (metis butlast_snoc in_set_butlastD)
  have "climbs kept" unfolding kept_def
    by (intro climbs_comps) (use snoc.prems climbs.climbs_up [of 0] in auto)
  show ?case
  proof (cases "c = ''..''")
    case False
    then have "norm_step False kept c = kept \<and> norm_step True s c = s
        \<or> norm_step False kept c = c # kept \<and> norm_step True s c = c # s" for s
      by (simp add: norm_step_def)
    then have "foldl (norm_step True) st (rev (norm_step False kept c)) = norm_step True (foldl (norm_step True) st cs) c"
      using IH by (metis (no_types, lifting) foldl_Cons foldl_Nil foldl_append rev.simps(2))
    then show ?thesis by (simp add: norm_components_def kept_def)
  next
    case up: True
    have top: "norm_step True (foldl (norm_step True) st cs) c = tl (foldl (norm_step True) st cs)"
      using norm_up [OF entries] up by simp
    from \<open>climbs kept\<close> have "foldl (norm_step True) st (rev (norm_step False kept c)) = tl (foldl (norm_step True) st cs)"
    proof (cases rule: climbs.cases)
      case (climbs_up k)
      then have "norm_step False kept c = c # kept" using up by (cases k) (simp_all add: norm_step_def)
      then show ?thesis using IH top by simp
    next
      case (climbs_down ks w)
      then have "norm_step False kept c = ks" using up by (simp add: norm_step_def entry_def)
      moreover have "foldl (norm_step True) st cs = w # foldl (norm_step True) st (rev ks)"
        using IH climbs_down by (simp add: norm_step_def entry_def)
      ultimately show ?thesis by simp
    qed
    then show ?thesis using top by (simp add: norm_components_def kept_def)
  qed
qed (simp add: norm_components_def)

text \<open>A normal absolute path: one or two slashes and entries.\<close>

definition spell :: "nat \<Rightarrow> string list \<Rightarrow> string" where
  "spell n ws = replicate n slash @ join [slash] ws"

definition normal_abs :: "nat \<Rightarrow> string list \<Rightarrow> bool" where
  "normal_abs n ws \<longleftrightarrow> (n = 1 \<or> n = 2) \<and> (\<forall>w \<in> set ws. entry w)"

lemma startswith_Cons [simp]: "startswith (c # s) (d # p) \<longleftrightarrow> c = d \<and> startswith s p" "\<not> startswith [] (d # p)"
  by (auto simp: startswith_def)

lemma join_entry: "(\<forall>w \<in> set ws. entry w) \<Longrightarrow> ws \<noteq> [] \<Longrightarrow> \<exists>c t. join [slash] ws = c # t \<and> c \<noteq> slash"
  by (cases ws; cases "tl ws") (auto simp: entry_def neq_Nil_conv)

lemma initial_spell: "normal_abs n ws \<Longrightarrow> ws \<noteq> [] \<Longrightarrow> initial_slashes (spell n ws @ s) = n"
  using join_entry [of ws] by (auto simp: normal_abs_def initial_slashes_def spell_def isabs_def slash_def numeral_2_eq_2)

lemma split_slashes: "split_on c (replicate n c @ s) = replicate n [] @ split_on c s"
  by (induction n) auto

lemma split_spell: "normal_abs n ws \<Longrightarrow> ws \<noteq> [] \<Longrightarrow> split_on slash (spell n ws) = replicate n [] @ ws"
  by (auto simp: spell_def split_slashes normal_abs_def entry_def intro!: split_on_join)

lemma norm_skip [simp]: "foldl (norm_step a) kept (replicate n []) = kept"
  by (induction n) (auto simp: norm_step_def)

text \<open>Resolving a relative spelling under a normal absolute directory.\<close>

lemma normpath_under:
  assumes "normal_abs n ws" "ws \<noteq> []"
  shows "normpath (spell n ws @ slash # s) = spell n (rev (foldl (norm_step True) (rev ws) (split_on slash s)))"
proof -
  have "foldl (norm_step True) [] ws = rev ws"
    using assms norm_entries [of ws True "[]"] by (simp add: normal_abs_def)
  then have "foldl (norm_step True) [] (split_on slash (spell n ws @ slash # s))
      = foldl (norm_step True) (rev ws) (split_on slash s)"
    by (simp add: split_on_sep split_spell [OF assms])
  then show ?thesis using assms initial_spell [OF assms, of "slash # s"]
    by (auto simp: normpath_def norm_components_def spell_def normal_abs_def)
qed

lemma normpath_spell:
  assumes "normal_abs n ws"
  shows "normpath (spell n ws) = spell n ws"
proof (cases "ws = []")
  case True
  then show ?thesis using assms by (auto simp: normal_abs_def spell_def) code_simp+
next
  case False
  then have "foldl (norm_step True) [] (split_on slash (spell n ws)) = rev ws"
    using assms norm_entries [of ws True "[]"] by (simp add: split_spell normal_abs_def)
  moreover have "initial_slashes (spell n ws) = n" using initial_spell [OF assms False, of "[]"] by simp
  ultimately show ?thesis using assms
    unfolding normpath_def norm_components_def Let_def by (simp add: normal_abs_def spell_def) force
qed

lemma normpath_absolute:
  assumes "isabs p"
  obtains n ws where "normal_abs n ws" "normpath p = spell n ws"
proof
  have n: "initial_slashes p = 1 \<or> initial_slashes p = 2" using assms by (simp add: initial_slashes_def)
  show "normal_abs (initial_slashes p) (norm_components True (split_on slash p))"
    using n entries_absolute [of "[]" "split_on slash p"] split_on_no_sep [of _ slash p]
    by (auto simp: normal_abs_def norm_components_def)
  show "normpath p = spell (initial_slashes p) (norm_components True (split_on slash p))"
    using n by (auto simp: normpath_def spell_def)
qed

lemma spell_absolute [simp]: "normal_abs n ws \<Longrightarrow> isabs (spell n ws)"
  by (auto simp: normal_abs_def spell_def isabs_def numeral_2_eq_2)

text \<open>A relative spelling is the list of its components.\<close>

lemma climbs_words: "climbs kept \<Longrightarrow> \<forall>w \<in> set kept. w \<noteq> [] \<and> slash \<notin> set w"
  by (induction rule: climbs.induct) (auto simp: entry_def slash_def)

lemma join_empty: "\<forall>w \<in> set ws. w \<noteq> [] \<and> P w \<Longrightarrow> join s ws = [] \<Longrightarrow> ws = []"
  by (cases ws; cases "tl ws") auto

lemma normpath_relative:
  assumes "\<not> isabs p"
  shows "normpath p = (if norm_components False (split_on slash p) = [] then ''.''
    else join [slash] (norm_components False (split_on slash p)))"
proof -
  have n: "initial_slashes p = 0" using assms by (auto simp: initial_slashes_def isabs_def slash_def startswith_iff)
  have "climbs (rev (norm_components False (split_on slash p)))"
    using climbs_comps [of "split_on slash p" "[]"] climbs_up [of 0] split_on_no_sep [of _ slash p]
    by (simp add: norm_components_def)
  then have "join [slash] (norm_components False (split_on slash p)) = [] \<longleftrightarrow> norm_components False (split_on slash p) = []"
    using climbs_words [of "rev (norm_components False (split_on slash p))"]
      join_empty [of "norm_components False (split_on slash p)" "\<lambda>w. slash \<notin> set w" "[slash]"] by auto
  then show ?thesis using n by (simp add: normpath_def)
qed

lemma isabs_normpath [simp]: "isabs (normpath p) \<longleftrightarrow> isabs p"
proof (cases "isabs p")
  case True
  then show ?thesis by (metis normpath_absolute spell_absolute)
next
  case False
  have "\<forall>w \<in> set (norm_components False (split_on slash p)). w \<noteq> [] \<and> slash \<notin> set w"
    using climbs_words [of "rev (norm_components False (split_on slash p))"]
      climbs_comps [of "split_on slash p" "[]"] climbs_up [of 0] split_on_no_sep [of _ slash p]
    by (simp add: norm_components_def)
  then have "\<not> isabs (join [slash] (norm_components False (split_on slash p)))"
    by (cases "norm_components False (split_on slash p)"; cases "tl (norm_components False (split_on slash p))")
      (auto simp: isabs_def neq_Nil_conv)
  then show ?thesis using False by (simp add: normpath_relative) (simp add: isabs_def slash_def)
qed

lemma last_spell: "normal_abs n ws \<Longrightarrow> ws \<noteq> [] \<Longrightarrow> last (spell n ws) \<noteq> slash"
proof -
  have "ws \<noteq> [] \<Longrightarrow> \<forall>w \<in> set ws. entry w \<Longrightarrow> join [slash] ws \<noteq> [] \<and> last (join [slash] ws) \<noteq> slash"
    by (induction "[slash]" ws rule: join.induct) (auto simp: entry_def dest: last_in_set)
  then show "normal_abs n ws \<Longrightarrow> ws \<noteq> [] \<Longrightarrow> ?thesis" by (simp add: normal_abs_def spell_def)
qed

lemma climbs_flat: "climbs kept \<Longrightarrow> kept = [] \<or> last kept = ''..'' \<or> (\<forall>w \<in> set kept. entry w)"
proof (induction rule: climbs.induct)
  case (climbs_up k)
  then show ?case by (cases k) simp_all
next
  case (climbs_down kept w)
  then show ?case by (cases "kept = []") auto
qed

lemma join_starts: "ws \<noteq> [] \<Longrightarrow> hd ws = w \<Longrightarrow> startswith (join s ws) w"
  by (cases ws; cases "tl ws") (auto simp: startswith_def)

lemma components_split: "norm_components False (split_on slash p) \<noteq> []
  \<Longrightarrow> split_on slash (join [slash] (norm_components False (split_on slash p))) = norm_components False (split_on slash p)"
  using climbs_words [of "rev (norm_components False (split_on slash p))"]
    climbs_comps [of "split_on slash p" "[]"] climbs_up [of 0] split_on_no_sep [of _ slash p]
  by (intro split_on_join) (auto simp: norm_components_def)

lemma components_spell:
  assumes "normal_abs n ws"
  shows "components_of (spell n ws) = ws"
proof (cases "ws = []")
  case True
  then show ?thesis using assms by (auto simp: normal_abs_def spell_def) code_simp+
next
  case False
  then show ?thesis using assms
    by (auto simp: components_of_def split_spell normal_abs_def entry_def intro!: filter_True)
qed

lemma common_prefix_append: "common_prefix ws (ws @ vs) = length ws"
  by (induction ws) auto

text \<open>A path below a directory, relative to it.\<close>

lemma relpath_below:
  assumes "normal_abs n (ws @ vs)"
  shows "relpath (spell n (ws @ vs)) (spell n ws) = (if vs = [] then ''.'' else join [slash] vs)"
proof -
  have "normal_abs n ws" using assms by (auto simp: normal_abs_def)
  then show ?thesis using assms
    by (simp add: relpath_def normpath_spell components_spell common_prefix_append)
qed

lemma spell_append: "ws \<noteq> [] \<Longrightarrow> vs \<noteq> [] \<Longrightarrow> spell n (ws @ vs) = spell n ws @ slash # join [slash] vs"
proof -
  have "ws \<noteq> [] \<Longrightarrow> vs \<noteq> [] \<Longrightarrow> join [slash] (ws @ vs) = join [slash] ws @ slash # join [slash] vs"
    by (induction ws) (case_tac ws, auto simp: join_Cons)+
  then show "ws \<noteq> [] \<Longrightarrow> vs \<noteq> [] \<Longrightarrow> ?thesis" by (simp add: spell_def)
qed

text \<open>A normal path has no character its spelling had not, but slashes and dots.\<close>

lemma set_norm_steps: "set (foldl (norm_step a) kept comps) \<subseteq> set kept \<union> set comps"
proof (induction comps arbitrary: kept)
  case (Cons c cs)
  have "set (norm_step a kept c) \<subseteq> set kept \<union> {c}" by (auto simp: norm_step_def dest: in_set_tl)
  then show ?case using Cons.IH [of "norm_step a kept c"] by auto
qed simp

lemma set_join: "set (join s ws) \<subseteq> set s \<union> \<Union> (set ` set ws)"
  by (induction s ws rule: join.induct) auto

lemma set_split_on: "w \<in> set (split_on c s) \<Longrightarrow> set w \<subseteq> set s"
  by (induction s arbitrary: w) (fastforce split: if_splits list.splits)+

lemma set_normpath: "set (normpath p) \<subseteq> set p \<union> {slash, CHR ''.''}"
proof -
  have "set w \<subseteq> set p" if "w \<in> set (norm_components a (split_on slash p))" for a w
    using that set_norm_steps [of a "[]" "split_on slash p"] set_split_on [of w slash p]
    by (simp add: norm_components_def) blast
  then have "set (join [slash] (norm_components a (split_on slash p))) \<subseteq> set p \<union> {slash}" for a
    using set_join [of "[slash]" "norm_components a (split_on slash p)"] by fastforce
  then show ?thesis unfolding normpath_def Let_def by (auto split: if_splits)
qed

section \<open>fnmatch\<close>

text \<open>The items of a bracket expression: characters and ranges; a range that runs backwards is empty.\<close>

fun in_set_items :: "string \<Rightarrow> char \<Rightarrow> bool" where
  "in_set_items [] c = False"
| "in_set_items (a # d # b # items) c =
     (if d = CHR ''-'' then (code a \<le> code c \<and> code c \<le> code b) \<or> in_set_items items c
      else a = c \<or> in_set_items (d # b # items) c)"
| "in_set_items (a # items) c = (a = c \<or> in_set_items items c)"

datatype glob = Any | One | One_of bool string | Literal char

text \<open>The body of a bracket: up to the first closing bracket that is not its first character.\<close>

definition bracket :: "string \<Rightarrow> (bool \<times> string \<times> string) option" where
  "bracket pat =
     (let negated = startswith pat ''!''; body = (if negated then tl pat else pat) in
      case body of
        [] \<Rightarrow> None
      | c # cs \<Rightarrow>
          (let inside = takeWhile (\<lambda>x. x \<noteq> CHR '']'') cs; after = dropWhile (\<lambda>x. x \<noteq> CHR '']'') cs in
           if after = [] then None else Some (negated, c # inside, tl after)))"

lemma bracket_shorter: "bracket pat = Some (negated, body, others) \<Longrightarrow> length others < length pat"
proof -
  assume found: "bracket pat = Some (negated, body, others)"
  define b where "b = (if startswith pat ''!'' then tl pat else pat)"
  from found obtain c cs where b: "b = c # cs" and o: "others = tl (dropWhile (\<lambda>x. x \<noteq> CHR '']'') cs)"
    unfolding bracket_def Let_def b_def by (auto split: list.splits if_splits)
  have "length b \<le> length pat" by (simp add: b_def)
  with b o show ?thesis using length_dropWhile_le [of "\<lambda>x. x \<noteq> CHR '']''" cs] by simp
qed

function parse_glob :: "string \<Rightarrow> glob list" where
  "parse_glob [] = []"
| "parse_glob (c # cs) =
     (if c = CHR ''*'' then Any # parse_glob cs
      else if c = CHR ''?'' then One # parse_glob cs
      else if c = CHR ''['' then
        (case bracket cs of
           None \<Rightarrow> Literal c # parse_glob cs
         | Some (negated, body, others) \<Rightarrow> One_of negated body # parse_glob others)
      else Literal c # parse_glob cs)"
  by pat_completeness auto
termination by (relation "measure length") (auto dest: bracket_shorter)

fun glob_match :: "glob list \<Rightarrow> string \<Rightarrow> bool" where
  "glob_match [] s = (s = [])"
| "glob_match (Any # ps) [] = glob_match ps []"
| "glob_match (Any # ps) (c # s) = (glob_match ps (c # s) \<or> glob_match (Any # ps) s)"
| "glob_match (p # ps) [] = False"
| "glob_match (p # ps) (c # s) =
     ((case p of One \<Rightarrow> True | One_of negated body \<Rightarrow> in_set_items body c \<noteq> negated | Literal d \<Rightarrow> c = d | Any \<Rightarrow> True)
      \<and> glob_match ps s)"

definition fnmatch :: "string \<Rightarrow> string \<Rightarrow> bool" where
  "fnmatch name pat = glob_match (parse_glob pat) name"

end
