(* ===== verification/Gates.thy ===== *)
theory Gates
  imports Py_Shlex Py_Regex Py_Posix Trace_Events
begin

text \<open>
  Model of \<open>src/spotter/gates.py\<close>: the deterministic gates that judge a pending action
  before it runs. Commands are judged on their tokens and, where the tokenizer gives up, by
  regular expressions; files are judged by their place relative to the workspace.
  The scratch directories, which the module computes at import from the temporary directory,
  and the home directories are arguments.
\<close>

section \<open>Decisions\<close>

record gate_decision =
  gd_allowed :: bool
  gd_rule :: "string option"
  gd_reason :: "string option"

definition allow :: gate_decision where
  "allow = \<lparr>gd_allowed = True, gd_rule = None, gd_reason = None\<rparr>"

definition block :: "string \<Rightarrow> string \<Rightarrow> gate_decision" where
  "block rule reason = \<lparr>gd_allowed = False, gd_rule = Some rule, gd_reason = Some reason\<rparr>"

definition annotate :: "string \<Rightarrow> string \<Rightarrow> gate_decision" where
  "annotate rule reason = \<lparr>gd_allowed = True, gd_rule = Some rule, gd_reason = Some reason\<rparr>"

definition gate_rule_version :: int where
  "gate_rule_version = 1"

text \<open>A loop that returns the first decision that does not allow.\<close>

fun first_block :: "('a \<Rightarrow> gate_decision) \<Rightarrow> 'a list \<Rightarrow> gate_decision" where
  "first_block judge [] = allow"
| "first_block judge (x # xs) = (let d = judge x in if \<not> gd_allowed d then d else first_block judge xs)"

lemma first_block_cong [fundef_cong]:
  "xs = ys \<Longrightarrow> (\<And>x. x \<in> set ys \<Longrightarrow> f x = g x) \<Longrightarrow> first_block f xs = first_block g ys"
  by (induction ys arbitrary: xs) (auto simp: Let_def)

section \<open>Words of a command\<close>

definition shells :: "string list" where
  "shells = [''sh'', ''bash'', ''zsh'', ''dash'']"

definition chain_separators :: "string list" where
  "chain_separators = ['';'', ''&'', ''&&'', ''||'', ''('', '')'']"

definition pipe_separators :: "string list" where
  "pipe_separators = [''|'', ''|&'']"

definition rm_targets :: "string list" where
  "rm_targets = [''~'', ''$HOME'', ''${HOME}'', ''..'']"

definition git_value_opts :: "string list" where
  "git_value_opts = [''-c'', ''-C'', ''--exec-path'', ''--git-dir'', ''--work-tree'', ''--namespace'']"

definition gate_tokens :: "string \<Rightarrow> string list option" where
  "gate_tokens command = shlex_list ''();<>|&'' command"

fun groups_of :: "string list \<Rightarrow> string list \<Rightarrow> string list list" where
  "groups_of seps [] = [[]]"
| "groups_of seps (t # ts) =
     (if t \<in> set seps then [] # groups_of seps ts
      else case groups_of seps ts of [] \<Rightarrow> [[t]] | g # gs \<Rightarrow> (t # g) # gs)"

definition split_tokens :: "string list \<Rightarrow> string list \<Rightarrow> string list list" where
  "split_tokens seps tokens = filter (\<lambda>g. g \<noteq> []) (groups_of seps tokens)"

text \<open>Every token of a stage with the tokens after it.\<close>

fun positions :: "'a list \<Rightarrow> ('a \<times> 'a list) list" where
  "positions [] = []"
| "positions (x # xs) = (x, xs) # positions xs"

definition rm_hits_catastrophic_target :: "string list \<Rightarrow> bool" where
  "rm_hits_catastrophic_target others =
     list_ex (\<lambda>token. \<not> startswith token ''-''
       \<and> (token \<noteq> [] \<and> strip_when (\<lambda>c. c = slash) token = [] \<or> rstrip_when (\<lambda>c. c = slash) token \<in> set rm_targets))
       others"

text \<open>The arguments of \<open>git\<close> from its subcommand on.\<close>

fun after_git_options :: "string list \<Rightarrow> string list" where
  "after_git_options [] = []"
| "after_git_options (arg # args) =
     (if \<not> startswith arg ''-'' then arg # args
      else if arg \<in> set git_value_opts then after_git_options (drop 1 args)
      else after_git_options args)"

definition git_verdict :: "string list \<Rightarrow> gate_decision option" where
  "git_verdict args =
     (case after_git_options args of
        [] \<Rightarrow> None
      | subcommand # others \<Rightarrow>
          if subcommand = ''reset'' \<and> ''--hard'' \<in> set others
          then Some (block ''git_reset_hard'' ''destructive command matched git_reset_hard'')
          else if subcommand = ''clean''
            \<and> list_ex (\<lambda>arg. arg = ''--force'' \<or> startswith arg ''-'' \<and> \<not> startswith arg ''--'' \<and> contains ''f'' arg) others
          then Some (block ''git_clean_force'' ''destructive command matched git_clean_force'')
          else if subcommand = ''push'' \<and> list_ex (\<lambda>arg. arg \<in> set [''--force'', ''-f'']) others
          then Some (block ''git_push_force'' ''destructive command matched git_push_force'')
          else None)"

section \<open>Patterns for commands that do not parse\<close>

definition not_operator :: regex where
  "not_operator = Class (\<lambda>c. c \<notin> set ''&|;'')"

definition destructive_patterns :: "(string \<times> regex) list" where
  "destructive_patterns =
     [(''rm_root'', Seqs [Boundary, Chars ''rm'', Plus Blank,
         Greedy (Seqs [Chars ''-'', Opt (Chars ''-''), Plus Ink, Plus Blank]),
         Alts [Chars ''/'', Chars ''~'', Chars ''$HOME'', Chars ''..''], Opt (Chars ''/''), Alt Blank AtEnd]),
      (''git_reset_hard'', Seqs [Boundary, Chars ''git'', Plus Blank, Chars ''reset'', Plus Blank, Chars ''--hard'', Boundary]),
      (''git_clean_force'', Seqs [Boundary, Chars ''git'', Plus Blank, Chars ''clean'', Boundary, Greedy not_operator,
         Chars ''-'', Greedy (Class (\<lambda>c. is_alnum c \<and> \<not> is_digit c)), Chars ''f'']),
      (''git_push_force'', Seqs [Boundary, Chars ''git'', Plus Blank, Chars ''push'', Boundary, Greedy not_operator,
         Alt (Seq (Chars ''--force'') Boundary) (Seqs [Blank, Chars ''-f'', Boundary])]),
      (''pipe_to_shell'', Seqs [Boundary, Alt (Chars ''curl'') (Chars ''wget''), Boundary, Greedy not_operator,
         Chars ''|'', Greedy Blank, Opt (Alts [Chars ''ba'', Chars ''z'', Chars ''da'']), Chars ''sh'', Boundary]),
      (''dd_device'', Seqs [Boundary, Chars ''dd'', Boundary, Greedy not_operator, Boundary, Chars ''of=/dev/'']),
      (''mkfs'', Seqs [Boundary, Chars ''mkfs'', Boundary])]"

definition unparseable :: "string \<Rightarrow> gate_decision" where
  "unparseable command =
     (case find (\<lambda>(_, pattern). search pattern command) destructive_patterns of
        Some (rule, _) \<Rightarrow> block rule (''destructive command matched '' @ rule)
      | None \<Rightarrow> annotate ''unparseable_command'' ''fail-open: could not parse'')"

section \<open>Commands\<close>

text \<open>What \<open>bash -c\<close> runs: the word after the first \<open>-c\<close> that has one.\<close>

definition script_of :: "string list \<Rightarrow> string option" where
  "script_of others = (case dropWhile (\<lambda>arg. arg \<noteq> ''-c'') others of _ # script # _ \<Rightarrow> Some script | _ \<Rightarrow> None)"

definition judge_script :: "(string \<Rightarrow> gate_decision) \<Rightarrow> string \<Rightarrow> string list \<Rightarrow> gate_decision" where
  "judge_script judge token others =
     (if basename token \<in> set shells
      then case script_of others of Some script \<Rightarrow> judge script | None \<Rightarrow> allow
      else allow)"

definition judge_token :: "(string \<Rightarrow> gate_decision) \<Rightarrow> string \<times> string list \<Rightarrow> gate_decision" where
  "judge_token judge tr =
     (let (token, others) = tr; base = basename token in
      if base = ''rm'' \<and> rm_hits_catastrophic_target others then block ''rm_root'' ''rm targeting /, ~ or ..''
      else case (if base = ''git'' then git_verdict others else None) of
        Some verdict \<Rightarrow> verdict
      | None \<Rightarrow>
          let inner = judge_script judge token others in
          if \<not> gd_allowed inner then inner
          else if base = ''mkfs'' \<or> startswith base ''mkfs.'' then block ''mkfs'' ''filesystem creation''
          else if startswith token ''of=/dev/'' then block ''dd_device'' ''writing to a raw device''
          else allow)"

definition check_stage :: "(string \<Rightarrow> gate_decision) \<Rightarrow> string list \<Rightarrow> gate_decision" where
  "check_stage judge stage = first_block (judge_token judge) (positions stage)"

definition judge_stage :: "(string \<Rightarrow> gate_decision) \<Rightarrow> string list \<times> string list list \<Rightarrow> gate_decision" where
  "judge_stage judge sl =
     (if basename (hd (fst sl)) \<in> set [''curl'', ''wget''] \<and> list_ex (\<lambda>l. basename (hd l) \<in> set shells) (snd sl)
      then block ''pipe_to_shell'' ''downloaded content piped into a shell''
      else check_stage judge (fst sl))"

definition check_pipeline :: "(string \<Rightarrow> gate_decision) \<Rightarrow> string list list \<Rightarrow> gate_decision" where
  "check_pipeline judge stages = first_block (judge_stage judge) (positions stages)"

text \<open>A script is shorter than the command it stands in, so judging scripts within scripts ends.\<close>

definition scripts_in :: "string list \<Rightarrow> string set" where
  "scripts_in stage =
     {s. \<exists>token others. (token, others) \<in> set (positions stage) \<and> basename token \<in> set shells \<and> script_of others = Some s}"

lemma scripts_inI:
  "tr \<in> set (positions stage) \<Longrightarrow> basename (fst tr) \<in> set shells \<Longrightarrow> script_of (snd tr) = Some s \<Longrightarrow> s \<in> scripts_in stage"
  unfolding scripts_in_def mem_Collect_eq by (metis prod.collapse)

lemma check_stage_cong [fundef_cong]:
  assumes "stage = stage'" and "\<And>s. s \<in> scripts_in stage' \<Longrightarrow> f s = g s"
  shows "check_stage f stage = check_stage g stage'"
  unfolding check_stage_def
proof (rule first_block_cong)
  fix tr assume "tr \<in> set (positions stage')"
  then have "judge_script f (fst tr) (snd tr) = judge_script g (fst tr) (snd tr)"
    using assms(2) scripts_inI by (simp add: judge_script_def split: option.split)
  then show "judge_token f tr = judge_token g tr" by (simp only: judge_token_def Let_def prod.case_eq_if)
qed (simp add: assms(1))

lemma set_positions: "(x, xs) \<in> set (positions ys) \<longleftrightarrow> (\<exists>zs. ys = zs @ x # xs)"
proof (induction ys)
  case (Cons y ys)
  then show ?case by (auto simp: Cons_eq_append_conv)
qed simp

lemma positions_fst: "x \<in> set (positions ys) \<Longrightarrow> fst x \<in> set ys"
  by (induction ys) auto

lemma check_pipeline_cong [fundef_cong]:
  assumes "stages = stages'" and "\<And>stage s. stage \<in> set stages' \<Longrightarrow> s \<in> scripts_in stage \<Longrightarrow> f s = g s"
  shows "check_pipeline f stages = check_pipeline g stages'"
  unfolding check_pipeline_def
proof (rule first_block_cong)
  fix sl assume "sl \<in> set (positions stages')"
  then have "fst sl \<in> set stages'" by (rule positions_fst)
  then have "check_stage f (fst sl) = check_stage g (fst sl)" using assms(2) by (intro check_stage_cong) auto
  then show "judge_stage f sl = judge_stage g sl" by (simp only: judge_stage_def)
qed (simp add: assms(1))

lemma script_of_set: "script_of others = Some s \<Longrightarrow> s \<in> set others"
proof -
  assume "script_of others = Some s"
  then obtain x xs where "dropWhile (\<lambda>arg. arg \<noteq> ''-c'') others = x # s # xs"
    unfolding script_of_def by (auto split: list.splits)
  then have "s \<in> set (dropWhile (\<lambda>arg. arg \<noteq> ''-c'') others)" by simp
  then show ?thesis by (metis set_dropWhileD)
qed

definition weight :: "string list \<Rightarrow> nat" where
  "weight tokens = sum_list (map length tokens)"

lemma script_shorter: "s \<in> scripts_in stage \<Longrightarrow> length s < weight stage"
proof -
  assume "s \<in> scripts_in stage"
  then obtain token others zs where stage: "stage = zs @ token # others" and "basename token \<in> set shells"
    and "s \<in> set others" unfolding scripts_in_def set_positions by (blast dest: script_of_set)
  moreover have "token \<noteq> []" using calculation(2) by (auto simp: basename_def shells_def)
  moreover have "length s \<le> weight others" using \<open>s \<in> set others\<close>
    by (auto simp: weight_def dest!: split_list)
  ultimately show ?thesis by (cases token) (auto simp: weight_def)
qed

lemma group_weight: "g \<in> set (split_tokens seps tokens) \<Longrightarrow> weight g \<le> weight tokens"
proof -
  have "g \<in> set (groups_of seps tokens) \<Longrightarrow> weight g \<le> weight tokens" for g
    by (induction tokens arbitrary: g) (fastforce simp: weight_def split: if_splits list.splits)+
  then show "g \<in> set (split_tokens seps tokens) \<Longrightarrow> ?thesis" by (simp add: split_tokens_def)
qed

function check_command :: "string \<Rightarrow> gate_decision" where
  "check_command command =
     (case gate_tokens command of
        None \<Rightarrow> unparseable command
      | Some tokens \<Rightarrow>
          first_block (\<lambda>chain. check_pipeline check_command (split_tokens pipe_separators chain))
            (split_tokens chain_separators tokens))"
  by pat_completeness auto
termination
proof (relation "measure length")
  fix command tokens chain stage s
  assume "gate_tokens command = Some tokens" "chain \<in> set (split_tokens chain_separators tokens)"
    "stage \<in> set (split_tokens pipe_separators chain)" "s \<in> scripts_in stage"
  then have "length s < weight stage" "weight stage \<le> weight chain" "weight chain \<le> weight tokens"
    "weight tokens \<le> length command"
    by (simp_all add: script_shorter group_weight) (simp add: gate_tokens_def weight_def shlex_size)
  then show "(s, command) \<in> measure length" by simp
qed simp

declare check_command.simps [simp del]

section \<open>Paths\<close>

record gate =
  forbidden_paths :: "string list"
  block_dependency_changes :: bool
  gate_root :: "string option"
  workspace_roots :: "string list"

definition plain_gate :: gate where
  "plain_gate = \<lparr>forbidden_paths = [], block_dependency_changes = False, gate_root = None, workspace_roots = []\<rparr>"

text \<open>The machine a gate runs on: its home directories and its scratch directories.\<close>

record machine =
  home_of :: "string \<Rightarrow> string option"
  scratch_dirs :: "string list"

definition dependency_manifests :: "string list" where
  "dependency_manifests =
     [''package.json'', ''package-lock.json'', ''pnpm-lock.yaml'', ''yarn.lock'', ''pyproject.toml'',
      ''requirements.txt'', ''uv.lock'', ''poetry.lock'', ''Cargo.toml'', ''Cargo.lock'', ''go.mod'', ''go.sum'',
      ''Gemfile'', ''Gemfile.lock'']"

definition with_slashes :: "string \<Rightarrow> string" where
  "with_slashes path = map (\<lambda>c. if c = backslash then slash else c) path"

text \<open>\<open>_scratch_roots\<close>, given the temporary directory and the resolution of symbolic links.\<close>

definition scratch_roots :: "string \<Rightarrow> (string \<Rightarrow> string) \<Rightarrow> string list" where
  "scratch_roots tempdir realpath =
     (let declared = [''/tmp'', ''/var/tmp'', tempdir]
      in map (\<lambda>dir. normpath (with_slashes dir)) (declared @ map realpath declared))"

definition under :: "string \<Rightarrow> string \<Rightarrow> bool" where
  "under dir path = (path = dir \<or> startswith path (dir @ [slash]))"

definition is_scratch :: "machine \<Rightarrow> string \<Rightarrow> bool" where
  "is_scratch m path = list_ex (\<lambda>dir. under dir path) (scratch_dirs m)"

definition sibling_of :: "machine \<Rightarrow> string \<Rightarrow> string \<Rightarrow> string option" where
  "sibling_of m path raw_root =
     (let parent = normpath (if raw_root = [] then raw_root else expanduser (home_of m) (with_slashes raw_root)) in
      if parent = [] \<or> \<not> isabs parent \<or> \<not> startswith path (parent @ [slash]) then None
      else let remainder = drop (length parent + 1) path; project = takeWhile (\<lambda>c. c \<noteq> slash) remainder
        in if project \<noteq> [] \<and> slash \<in> set remainder then Some (path_join parent project) else None)"

fun first_some :: "('a \<Rightarrow> 'b option) \<Rightarrow> 'a list \<Rightarrow> 'b option" where
  "first_some f [] = None"
| "first_some f (x # xs) = (case f x of None \<Rightarrow> first_some f xs | Some y \<Rightarrow> Some y)"

definition sibling_workspace :: "machine \<Rightarrow> gate \<Rightarrow> string \<Rightarrow> string option" where
  "sibling_workspace m g path = first_some (sibling_of m path) (workspace_roots g)"

definition root_of :: "gate \<Rightarrow> string option" where
  "root_of g =
     (case gate_root g of None \<Rightarrow> None | Some r \<Rightarrow> if r = [] then None else Some (normpath (with_slashes r)))"

text \<open>The path as it is judged: a spelling that climbs out of the workspace is resolved against its root.\<close>

definition resolved_path :: "gate \<Rightarrow> string \<Rightarrow> string" where
  "resolved_path g raw =
     (let path = normpath (with_slashes raw) in
      case root_of g of
        None \<Rightarrow> path
      | Some base \<Rightarrow> if startswith path ''..'' then normpath (path_join base path) else path)"

text \<open>Where an absolute path lies: relative to the workspace or a sibling, or as it is in a scratch directory.\<close>

definition placed :: "machine \<Rightarrow> gate \<Rightarrow> string \<Rightarrow> string \<Rightarrow> string option" where
  "placed m g base path =
     (if under base path then Some (relpath path base)
      else case sibling_workspace m g path of
        Some sibling \<Rightarrow> Some (relpath path sibling)
      | None \<Rightarrow> if is_scratch m path then Some path else None)"

definition escape :: "string \<Rightarrow> gate_decision" where
  "escape raw = block ''workspace_escape'' (''path leaves workspace: '' @ raw)"

definition judge_placed :: "gate \<Rightarrow> string \<Rightarrow> string \<Rightarrow> gate_decision" where
  "judge_placed g raw path =
     (if startswith path ''..'' then escape raw
      else if block_dependency_changes g \<and> basename path \<in> set dependency_manifests
      then block ''dependency_change'' (''manifest edit: '' @ path)
      else case find (fnmatch path) (forbidden_paths g) of
        Some pattern \<Rightarrow> block ''forbidden_path'' (path @ '' matches '' @ pattern)
      | None \<Rightarrow> allow)"

definition judge_path :: "machine \<Rightarrow> gate \<Rightarrow> string \<Rightarrow> gate_decision" where
  "judge_path m g raw =
     (let path = resolved_path g raw in
      if \<not> isabs path then judge_placed g raw path
      else case root_of g of
        None \<Rightarrow> annotate ''unknown_workspace'' (''fail-open: cannot judge absolute path: '' @ raw)
      | Some base \<Rightarrow> (case placed m g base path of None \<Rightarrow> escape raw | Some p \<Rightarrow> judge_placed g raw p))"

fun check_paths_from :: "machine \<Rightarrow> gate \<Rightarrow> gate_decision option \<Rightarrow> string list \<Rightarrow> gate_decision" where
  "check_paths_from m g uncertain [] = (case uncertain of None \<Rightarrow> allow | Some d \<Rightarrow> d)"
| "check_paths_from m g uncertain (raw # paths) =
     (let d = judge_path m g raw in
      if \<not> gd_allowed d then d
      else check_paths_from m g (if gd_rule d = None then uncertain else Some d) paths)"

definition check_paths :: "machine \<Rightarrow> gate \<Rightarrow> string list \<Rightarrow> gate_decision" where
  "check_paths m g paths = check_paths_from m g None paths"

section \<open>Events\<close>

definition check_event :: "machine \<Rightarrow> gate \<Rightarrow> trace_event \<Rightarrow> gate_decision" where
  "check_event m g e =
     (if ev_kind e \<noteq> ''tool_proposal'' then allow
      else let decision = (case get (ev_payload e) ''command'' of PStr command \<Rightarrow> check_command command | _ \<Rightarrow> allow) in
        if \<not> gd_allowed decision then decision
        else case get (ev_payload e) ''files'' of
            PList files \<Rightarrow>
              (let d = check_paths m g (map py_str files) in
               if \<not> gd_allowed d \<or> gd_rule d \<noteq> None then d else decision)
          | _ \<Rightarrow> decision)"

end
