(* ===== verification/Gates_Claims.thy ===== *)
theory Gates_Claims
  imports Gates
begin

text \<open>
  What the deterministic gates promise: a path is judged by where it leads, however it is
  spelled; a command is blocked exactly when it is destructive by a declarative reading of
  the rules; words that merely mention a command pass, scripts handed to a shell are judged.
\<close>

section \<open>Paths\<close>

text \<open>Where a path leads when it is resolved in the workspace.\<close>

definition target :: "string \<Rightarrow> string \<Rightarrow> string" where
  "target base raw = normpath (path_join base (with_slashes raw))"

lemma no_backslash: "backslash \<notin> set (with_slashes s)"
  by (auto simp: with_slashes_def backslash_def slash_def)

lemma with_slashes_id: "backslash \<notin> set s \<Longrightarrow> with_slashes s = s"
  by (induction s) (auto simp: with_slashes_def)

text \<open>A workspace root other than the root directory itself.\<close>

definition proper_root :: "gate \<Rightarrow> string \<Rightarrow> bool" where
  "proper_root g base \<longleftrightarrow> root_of g = Some base \<and> isabs base \<and> base \<noteq> ''/'' \<and> base \<noteq> ''//''"

lemma proper_rootE:
  assumes "proper_root g base"
  obtains n ws where "normal_abs n ws" "ws \<noteq> []" "base = spell n ws" "backslash \<notin> set base"
proof -
  from assms obtain r where base: "base = normpath (with_slashes r)" and abs: "isabs base"
    unfolding proper_root_def root_of_def by (auto split: option.splits if_splits)
  have "isabs (with_slashes r)" using abs base by simp
  then obtain n ws where n: "normal_abs n ws" "base = spell n ws" using normpath_absolute base by metis
  moreover have "ws \<noteq> []" using n assms
    by (auto simp: proper_root_def normal_abs_def spell_def slash_def numeral_2_eq_2)
  moreover have "backslash \<notin> set base"
    using set_normpath [of "with_slashes r"] no_backslash [of r] base by (auto simp: backslash_def slash_def)
  ultimately show ?thesis using that by blast
qed

lemma target_absolute:
  assumes "proper_root g base" and "isabs (with_slashes raw)"
  shows "resolved_path g raw = target base raw" and "\<exists>n ws. normal_abs n ws \<and> target base raw = spell n ws"
proof -
  have target: "target base raw = normpath (with_slashes raw)" using assms(2) by (simp add: target_def path_join_def)
  obtain k vs where vs: "normal_abs k vs" "normpath (with_slashes raw) = spell k vs" using normpath_absolute assms(2) .
  then have "\<not> startswith (spell k vs) ''..''"
    by (auto simp: normal_abs_def spell_def slash_def numeral_2_eq_2)
  then show "resolved_path g raw = target base raw" using target vs assms(1)
    by (simp add: resolved_path_def proper_root_def)
  show "\<exists>n ws. normal_abs n ws \<and> target base raw = spell n ws" using target vs by auto
qed

abbreviation steps_of :: "string \<Rightarrow> string list" where
  "steps_of raw \<equiv> norm_components False (split_on slash (with_slashes raw))"

lemma join_base:
  "normal_abs n ws \<Longrightarrow> ws \<noteq> [] \<Longrightarrow> \<not> isabs s \<Longrightarrow> path_join (spell n ws) s = spell n ws @ slash # s"
  using last_spell [of n ws] by (auto simp: path_join_def normal_abs_def spell_def)

lemma target_relative:
  assumes "normal_abs n ws" "ws \<noteq> []" "\<not> isabs (with_slashes raw)"
  shows "target (spell n ws) raw = spell n (rev (foldl (norm_step True) (rev ws) (steps_of raw)))"
proof -
  have "foldl (norm_step True) (rev ws) (steps_of raw)
      = foldl (norm_step True) (rev ws) (split_on slash (with_slashes raw))"
    using assms split_on_no_sep [of _ slash "with_slashes raw"] by (intro norm_twice) (auto simp: normal_abs_def)
  then show ?thesis unfolding target_def join_base [OF assms] normpath_under [OF assms(1,2)] by simp
qed

lemma resolved_climbing:
  assumes "proper_root g (spell n ws)" "normal_abs n ws" "ws \<noteq> []" "\<not> isabs (with_slashes raw)"
    and "startswith (normpath (with_slashes raw)) ''..''"
  shows "resolved_path g raw = target (spell n ws) raw"
proof -
  have steps: "steps_of raw \<noteq> []" and path: "normpath (with_slashes raw) = join [slash] (steps_of raw)"
    using assms(4,5) by (auto simp: normpath_relative split: if_splits)
  have "resolved_path g raw = normpath (path_join (spell n ws) (join [slash] (steps_of raw)))"
    using assms path by (simp add: resolved_path_def proper_root_def)
  also have "path_join (spell n ws) (join [slash] (steps_of raw)) = spell n ws @ slash # join [slash] (steps_of raw)"
    using assms(4) path by (intro join_base [OF assms(2,3)]) (metis isabs_normpath)
  also have "normpath \<dots> = target (spell n ws) raw"
    unfolding normpath_under [OF assms(2,3)] components_split [OF steps] target_relative [OF assms(2,3,4)] ..
  finally show ?thesis .
qed

lemma resolved_descending:
  assumes "proper_root g (spell n ws)" "normal_abs n ws" "ws \<noteq> []" "\<not> isabs (with_slashes raw)"
    and "\<not> startswith (normpath (with_slashes raw)) ''..''"
  shows "resolved_path g raw = normpath (with_slashes raw)" and "under (spell n ws) (target (spell n ws) raw)"
    and "relpath (target (spell n ws) raw) (spell n ws) = normpath (with_slashes raw)"
proof -
  show "resolved_path g raw = normpath (with_slashes raw)"
    using assms by (simp add: resolved_path_def proper_root_def)
  have path: "normpath (with_slashes raw) = (if steps_of raw = [] then ''.'' else join [slash] (steps_of raw))"
    using normpath_relative [OF assms(4)] .
  have "climbs (rev (steps_of raw))"
    using climbs_comps [of _ "[]"] climbs_up [of 0] split_on_no_sep [of _ slash] by (simp add: norm_components_def)
  then have entries: "\<forall>w \<in> set (steps_of raw). entry w"
    using climbs_flat [of "rev (steps_of raw)"] join_starts [of "steps_of raw" "''..''" "[slash]"] assms(5) path
    by (auto simp: last_rev split: if_splits)
  then have target: "target (spell n ws) raw = spell n (ws @ steps_of raw)"
    unfolding target_relative [OF assms(2,3,4)] by (simp add: norm_entries)
  then show "under (spell n ws) (target (spell n ws) raw)"
    using spell_append [OF assms(3)] by (cases "steps_of raw = []") (auto simp: under_def startswith_iff)
  show "relpath (target (spell n ws) raw) (spell n ws) = normpath (with_slashes raw)"
    unfolding target path using entries assms(2) by (intro relpath_below) (auto simp: normal_abs_def)
qed

lemma target_spell:
  assumes "proper_root g base"
  shows "\<exists>n ws. normal_abs n ws \<and> target base raw = spell n ws"
proof (cases "isabs (with_slashes raw)")
  case True
  then show ?thesis using target_absolute(2) [OF assms] by blast
next
  case False
  obtain n ws where base: "normal_abs n ws" "ws \<noteq> []" "base = spell n ws" using proper_rootE [OF assms] .
  have "normal_abs n (rev (foldl (norm_step True) (rev ws) (split_on slash (with_slashes raw))))"
    using base entries_absolute [of "rev ws" "split_on slash (with_slashes raw)"]
      split_on_no_sep [of _ slash "with_slashes raw"] by (auto simp: normal_abs_def)
  then show ?thesis
    using base(3) join_base [OF base(1,2) False] normpath_under [OF base(1,2)] by (auto simp: target_def)
qed

lemma target_fixed:
  assumes "proper_root g base"
  shows "resolved_path g (target base raw) = target base raw" and "isabs (target base raw)"
proof -
  obtain k vs where vs: "normal_abs k vs" "target base raw = spell k vs" using target_spell [OF assms] by blast
  have root_plain: "backslash \<notin> set base" using proper_rootE [OF assms] by metis
  have "backslash \<notin> set (path_join base (with_slashes raw))"
    using root_plain no_backslash [of raw] by (simp add: path_join_def) (simp add: backslash_def slash_def)
  then have "with_slashes (target base raw) = target base raw"
    using set_normpath [of "path_join base (with_slashes raw)"]
    by (intro with_slashes_id) (auto simp: target_def backslash_def slash_def)
  moreover have "\<not> startswith (spell k vs) ''..''"
    using vs by (auto simp: normal_abs_def spell_def slash_def numeral_2_eq_2)
  ultimately show "resolved_path g (target base raw) = target base raw"
    using assms vs by (simp add: resolved_path_def proper_root_def normpath_spell)
  show "isabs (target base raw)" using vs by simp
qed

text \<open>The verdict on a path is the verdict on where it leads.\<close>

definition same_verdict :: "gate_decision \<Rightarrow> gate_decision \<Rightarrow> bool" where
  "same_verdict d e \<longleftrightarrow> gd_allowed d = gd_allowed e \<and> gd_rule d = gd_rule e"

lemma judge_placed_raw: "same_verdict (judge_placed g raw p) (judge_placed g raw' p)"
  by (simp add: same_verdict_def judge_placed_def escape_def block_def allow_def split: option.split)

lemma judge_target:
  assumes "proper_root g base"
  shows "same_verdict (judge_path m g raw) (judge_path m g (target base raw))"
proof -
  have root: "root_of g = Some base" using assms by (simp add: proper_root_def)
  consider "resolved_path g raw = target base raw"
    | "\<not> isabs (resolved_path g raw)" "under base (target base raw)" "relpath (target base raw) base = resolved_path g raw"
  proof (cases "isabs (with_slashes raw)")
    case True
    then show ?thesis using that(1) target_absolute(1) [OF assms] by blast
  next
    case False
    obtain n ws where base: "normal_abs n ws" "ws \<noteq> []" "base = spell n ws" using proper_rootE [OF assms] .
    show ?thesis
      using that resolved_climbing [OF assms [unfolded base(3)] base(1,2) False]
        resolved_descending [OF assms [unfolded base(3)] base(1,2) False] False base(3) by fastforce
  qed
  then show ?thesis
  proof cases
    case 1
    then show ?thesis using root target_fixed [OF assms, of raw] judge_placed_raw
      by (auto simp: judge_path_def same_verdict_def escape_def block_def split: option.split)
  next
    case 2
    then show ?thesis using root target_fixed [OF assms, of raw] judge_placed_raw
      by (simp add: judge_path_def placed_def)
  qed
qed

definition passable :: "gate \<Rightarrow> string \<Rightarrow> bool" where
  "passable g p \<longleftrightarrow> \<not> startswith p ''..'' \<and> \<not> (block_dependency_changes g \<and> basename p \<in> set dependency_manifests)
     \<and> \<not> (\<exists>pattern \<in> set (forbidden_paths g). fnmatch p pattern)"

lemma decision_simps [simp]:
  "gd_allowed allow" "gd_rule allow = None" "\<not> gd_allowed (block r s)" "gd_rule (block r s) = Some r"
  "gd_allowed (annotate r s)" "gd_rule (annotate r s) = Some r" "block r s \<noteq> allow"
  by (simp_all add: allow_def block_def annotate_def)

lemma judge_placed_passable: "judge_placed g raw p = allow \<longleftrightarrow> passable g p" "gd_allowed (judge_placed g raw p) \<longleftrightarrow> passable g p"
  by (auto simp: judge_placed_def escape_def passable_def find_None_iff find_Some_iff split: option.split)

lemma judge_rooted:
  assumes "proper_root g base"
  shows "gd_allowed (judge_path m g raw) \<longleftrightarrow> judge_path m g raw = allow"
  using assms by (simp add: judge_path_def proper_root_def judge_placed_passable escape_def Let_def split: option.split)

lemma judge_path_target:
  assumes "proper_root g base"
  shows "gd_allowed (judge_path m g raw) \<longleftrightarrow> (\<exists>p. placed m g base (target base raw) = Some p \<and> passable g p)"
proof -
  have "gd_allowed (judge_path m g raw) \<longleftrightarrow> gd_allowed (judge_path m g (target base raw))"
    using judge_target [OF assms] by (simp add: same_verdict_def)
  also have "\<dots> \<longleftrightarrow> (\<exists>p. placed m g base (target base raw) = Some p \<and> passable g p)"
    using target_fixed [OF assms, of raw] assms
    by (simp add: judge_path_def proper_root_def judge_placed_passable escape_def Let_def split: option.split)
  finally show ?thesis .
qed

lemma check_paths_rooted:
  assumes "proper_root g base"
  shows "check_paths m g [] = allow"
    and "check_paths m g (raw # paths) = (let d = judge_path m g raw in if gd_allowed d then check_paths m g paths else d)"
  using judge_rooted [OF assms, of m raw] by (auto simp: check_paths_def Let_def)


lemma paths_allowed:
  assumes "proper_root g base"
  shows "gd_allowed (check_paths m g paths) \<longleftrightarrow>
    (\<forall>raw \<in> set paths. \<exists>p. placed m g base (target base raw) = Some p \<and> passable g p)"
  by (induction paths) (auto simp: check_paths_rooted [OF assms] judge_path_target [OF assms] Let_def)

text \<open>The place in terms of directory entries.\<close>

definition below :: "string \<Rightarrow> string \<Rightarrow> bool" where
  "below dir path \<longleftrightarrow> (\<exists>ws. components_of path = components_of dir @ ws)"

lemma components_sep: "components_of (a @ slash # b) = components_of a @ components_of b"
  by (simp add: components_of_def split_on_sep)

lemma under_below: "under dir path \<Longrightarrow> below dir path"
  by (auto simp: under_def below_def startswith_iff components_sep)

text \<open>The parents of the sibling projects of a gate.\<close>

definition parents_of :: "machine \<Rightarrow> gate \<Rightarrow> string set" where
  "parents_of m g =
     {normpath (if r = [] then r else expanduser (home_of m) (with_slashes r)) | r. r \<in> set (workspace_roots g)}"

lemma first_some_Some: "first_some f xs = Some y \<Longrightarrow> \<exists>x \<in> set xs. f x = Some y"
  by (induction xs) (auto split: option.splits)

lemma single_word: "slash \<notin> set (takeWhile (\<lambda>c. c \<noteq> slash) s)"
  by (auto dest: set_takeWhileD)

lemma sibling_below:
  assumes "sibling_workspace m g path = Some s"
  shows "\<exists>parent \<in> parents_of m g. \<exists>project entries. components_of path = components_of parent @ project # entries"
proof -
  from assms obtain r where r: "r \<in> set (workspace_roots g)" "sibling_of m path r = Some s"
    unfolding sibling_workspace_def using first_some_Some by metis
  define parent where "parent = normpath (if r = [] then r else expanduser (home_of m) (with_slashes r))"
  define remainder where "remainder = drop (length parent + 1) path"
  from r(2) have path: "startswith path (parent @ [slash])" and slashed: "slash \<in> set remainder"
    and project: "takeWhile (\<lambda>c. c \<noteq> slash) remainder \<noteq> []"
    unfolding sibling_of_def parent_def [symmetric] Let_def remainder_def by (auto split: if_splits)
  have "path = parent @ slash # remainder" using path by (auto simp: startswith_iff remainder_def)
  moreover have "dropWhile (\<lambda>c. c \<noteq> slash) remainder \<noteq> []" using slashed by (auto simp: dropWhile_eq_Nil_conv)
  then obtain b where "dropWhile (\<lambda>c. c \<noteq> slash) remainder = slash # b"
    using hd_dropWhile [of "\<lambda>c. c \<noteq> slash" remainder] by (cases "dropWhile (\<lambda>c. c \<noteq> slash) remainder") auto
  then have "takeWhile (\<lambda>c. c \<noteq> slash) remainder @ slash # b = remainder"
    using takeWhile_dropWhile_id [of "\<lambda>c. c \<noteq> slash" remainder] by simp
  then have "components_of remainder = takeWhile (\<lambda>c. c \<noteq> slash) remainder # components_of b"
    using components_sep [of "takeWhile (\<lambda>c. c \<noteq> slash) remainder" b] project
    by (simp add: components_of_def split_on_word single_word)
  ultimately have "components_of path = components_of parent @ takeWhile (\<lambda>c. c \<noteq> slash) remainder # components_of b"
    by (simp add: components_sep)
  then show ?thesis using r(1) unfolding parents_of_def parent_def by blast
qed

text \<open>C9: With a workspace root, an allowed path leads into the workspace, into a project of a declared
  checkout or into a scratch directory, entry by entry of its resolved path, and its name there is neither
  a guarded manifest nor forbidden.\<close>

theorem allowed_paths_confined:
  assumes "proper_root g base" and "gd_allowed (check_paths m g paths)" and "raw \<in> set paths"
  shows "\<exists>p. placed m g base (target base raw) = Some p \<and> passable g p
    \<and> (below base (target base raw)
       \<or> (\<exists>parent \<in> parents_of m g. \<exists>project entries.
             components_of (target base raw) = components_of parent @ project # entries)
       \<or> (\<exists>dir \<in> set (scratch_dirs m). below dir (target base raw)))"
proof -
  obtain p where p: "placed m g base (target base raw) = Some p" "passable g p"
    using paths_allowed assms by blast
  from p(1) consider "under base (target base raw)" | s where "sibling_workspace m g (target base raw) = Some s"
    | dir where "dir \<in> set (scratch_dirs m)" "under dir (target base raw)"
    unfolding placed_def is_scratch_def list_ex_iff by (auto split: if_splits option.splits)
  then show ?thesis using p by cases (blast dest: under_below sibling_below)+
qed

section \<open>Samples\<close>

definition sample_machine :: machine where
  "sample_machine = \<lparr>home_of = (\<lambda>user. None), scratch_dirs = scratch_roots ''/tmp'' (\<lambda>p. p)\<rparr>"

definition sample_gate :: gate where
  "sample_gate = plain_gate\<lparr>forbidden_paths := [''secrets/*''], gate_root := Some ''/checkouts/infra'',
     workspace_roots := [''/checkouts'']\<rparr>"

lemma sample_root: "proper_root sample_gate ''/checkouts/infra''"
  unfolding proper_root_def by code_simp


theorem allowed_paths_confined_witness:
  "below ''/checkouts/infra'' (target ''/checkouts/infra'' ''../web/app.py'')
    \<or> (\<exists>parent \<in> parents_of sample_machine sample_gate. \<exists>project entries.
          components_of (target ''/checkouts/infra'' ''../web/app.py'') = components_of parent @ project # entries)
    \<or> (\<exists>dir \<in> set (scratch_dirs sample_machine). below dir (target ''/checkouts/infra'' ''../web/app.py''))"
proof -
  have "gd_allowed (check_paths sample_machine sample_gate [''../web/app.py'', ''/tmp/notes.md''])" by code_simp
  from allowed_paths_confined [OF sample_root this] show ?thesis by fastforce
qed

text \<open>A file of the workspace whose name begins with two dots is taken for an escape, and with the root
  directory as the workspace every absolute path outside a scratch directory is.\<close>

lemma dotted_name_escapes:
  "gd_rule (check_paths sample_machine sample_gate [''..notes'']) = Some ''workspace_escape''"
  "gd_rule (check_paths sample_machine (plain_gate\<lparr>gate_root := Some ''/''\<rparr>) [''/srv/a'']) = Some ''workspace_escape''"
  by code_simp+

end
