(* ===== verification/Command_Claims.thy ===== *)
theory Command_Claims
  imports Gates_Claims
begin

text \<open>
  What the gates promise about commands: they block exactly the commands a declarative
  reading of the rules calls destructive, their decisions are well formed, words that merely
  mention a command pass and scripts handed to a shell are judged as commands.
\<close>

section \<open>Decisions\<close>

definition block_rules :: "string list" where
  "block_rules = [''rm_root'', ''git_reset_hard'', ''git_clean_force'', ''git_push_force'', ''pipe_to_shell'',
     ''dd_device'', ''mkfs'', ''workspace_escape'', ''dependency_change'', ''forbidden_path'']"

definition blind_rules :: "string list" where
  "blind_rules = [''unparseable_command'', ''unknown_workspace'']"

lemma rules_known:
  "''rm_root'' \<in> set block_rules" "''git_reset_hard'' \<in> set block_rules" "''git_clean_force'' \<in> set block_rules"
  "''git_push_force'' \<in> set block_rules" "''pipe_to_shell'' \<in> set block_rules" "''dd_device'' \<in> set block_rules"
  "''mkfs'' \<in> set block_rules" "''workspace_escape'' \<in> set block_rules" "''dependency_change'' \<in> set block_rules"
  "''forbidden_path'' \<in> set block_rules" "''unparseable_command'' \<in> set blind_rules"
  "''unknown_workspace'' \<in> set blind_rules"
  by (simp_all add: block_rules_def blind_rules_def)

inductive decision_ok :: "gate_decision \<Rightarrow> bool" where
  plain: "decision_ok allow"
| blocked: "rule \<in> set block_rules \<Longrightarrow> decision_ok (block rule reason)"
| blind: "rule \<in> set blind_rules \<Longrightarrow> decision_ok (annotate rule reason)"

lemma first_block_ok: "(\<And>x. x \<in> set xs \<Longrightarrow> decision_ok (f x)) \<Longrightarrow> decision_ok (first_block f xs)"
  by (induction xs) (auto simp: Let_def intro: plain)

lemma first_block_allowed: "gd_allowed (first_block f xs) \<longleftrightarrow> (\<forall>x \<in> set xs. gd_allowed (f x))"
  by (induction xs) (auto simp: Let_def)

lemma find_member: "find P xs = Some x \<Longrightarrow> x \<in> set xs \<and> P x"
  by (auto simp: find_Some_iff)

lemma unparseable_ok: "decision_ok (unparseable command)"
proof (cases "find (\<lambda>(_, pattern). search pattern command) destructive_patterns")
  case None
  then show ?thesis by (simp add: unparseable_def blind rules_known)
next
  case (Some rp)
  then have "fst rp \<in> fst ` set destructive_patterns" by (auto dest!: find_member)
  then have "fst rp \<in> set block_rules" by (auto simp: destructive_patterns_def block_rules_def)
  then show ?thesis using Some by (cases rp) (simp add: unparseable_def blocked)
qed

lemma git_verdict_block: "git_verdict args = Some d \<Longrightarrow> \<exists>rule reason. d = block rule reason \<and> rule \<in> set block_rules"
  by (auto simp: git_verdict_def rules_known split: list.splits if_splits)

lemma judge_token_ok:
  assumes "decision_ok (judge_script f (fst tr) (snd tr))"
  shows "decision_ok (judge_token f tr)"
proof -
  have "decision_ok v" if "git_verdict (snd tr) = Some v" for v
    using git_verdict_block [OF that] by (auto intro: blocked)
  then show ?thesis using assms
    by (simp add: judge_token_def Let_def prod.case_eq_if plain blocked rules_known split: option.split)
qed

lemma check_stage_ok:
  assumes "\<And>s. s \<in> scripts_in stage \<Longrightarrow> decision_ok (f s)"
  shows "decision_ok (check_stage f stage)"
  unfolding check_stage_def
proof (intro first_block_ok judge_token_ok)
  fix tr assume "tr \<in> set (positions stage)"
  then show "decision_ok (judge_script f (fst tr) (snd tr))"
    using assms scripts_inI by (auto simp: judge_script_def intro: plain split: option.split)
qed

lemma check_command_ok: "decision_ok (check_command command)"
proof (induction command rule: check_command.induct)
  case (1 command)
  show ?case
  proof (cases "gate_tokens command")
    case None
    then show ?thesis using unparseable_ok by (simp add: check_command.simps)
  next
    case (Some tokens)
    have "decision_ok (judge_stage check_command sl)"
      if "chain \<in> set (split_tokens chain_separators tokens)" "sl \<in> set (positions (split_tokens pipe_separators chain))"
      for chain sl
      using 1 [OF Some that(1) positions_fst [OF that(2)]]
      by (simp add: judge_stage_def blocked rules_known check_stage_ok)
    then show ?thesis
      using Some by (auto simp: check_command.simps [of command] check_pipeline_def intro!: first_block_ok)
  qed
qed

lemma judge_path_ok: "decision_ok (judge_path m g raw)"
  by (simp add: judge_path_def judge_placed_def escape_def Let_def plain blocked blind rules_known split: option.split)

lemma check_paths_ok: "u = None \<or> (\<exists>d. u = Some d \<and> decision_ok d) \<Longrightarrow> decision_ok (check_paths_from m g u paths)"
  by (induction paths arbitrary: u) (auto simp: Let_def judge_path_ok intro: plain)


section \<open>Destructive commands\<close>

text \<open>The stages of a command, each with the stages its output goes on to, and its words in place.\<close>

definition pipes :: "string \<Rightarrow> string list \<Rightarrow> string list list \<Rightarrow> bool" where
  "pipes command stage later \<longleftrightarrow>
     (\<exists>tokens chain. gate_tokens command = Some tokens \<and> chain \<in> set (split_tokens chain_separators tokens)
        \<and> (stage, later) \<in> set (positions (split_tokens pipe_separators chain)))"

definition runs :: "string \<Rightarrow> string \<Rightarrow> string list \<Rightarrow> bool" where
  "runs command token others \<longleftrightarrow> (\<exists>stage later. pipes command stage later \<and> (token, others) \<in> set (positions stage))"

definition catastrophic :: "string \<Rightarrow> bool" where
  "catastrophic t \<longleftrightarrow> \<not> startswith t ''-''
     \<and> (t \<noteq> [] \<and> strip_when (\<lambda>c. c = slash) t = [] \<or> rstrip_when (\<lambda>c. c = slash) t \<in> set rm_targets)"

text \<open>The rules read declaratively.\<close>

inductive destructive :: "string \<Rightarrow> bool" where
  unparsed: "gate_tokens c = None \<Longrightarrow> (rule, pattern) \<in> set destructive_patterns \<Longrightarrow> search pattern c \<Longrightarrow> destructive c"
| download: "pipes c stage later \<Longrightarrow> basename (hd stage) \<in> {''curl'', ''wget''} \<Longrightarrow> l \<in> set later
    \<Longrightarrow> basename (hd l) \<in> set shells \<Longrightarrow> destructive c"
| removal: "runs c token others \<Longrightarrow> basename token = ''rm'' \<Longrightarrow> t \<in> set others \<Longrightarrow> catastrophic t \<Longrightarrow> destructive c"
| history: "runs c token others \<Longrightarrow> basename token = ''git'' \<Longrightarrow> git_verdict others \<noteq> None \<Longrightarrow> destructive c"
| script: "runs c token others \<Longrightarrow> basename token \<in> set shells \<Longrightarrow> script_of others = Some s \<Longrightarrow> destructive s
    \<Longrightarrow> destructive c"
| filesystem: "runs c token others \<Longrightarrow> basename token = ''mkfs'' \<or> startswith (basename token) ''mkfs.''
    \<Longrightarrow> destructive c"
| device: "runs c token others \<Longrightarrow> startswith token ''of=/dev/'' \<Longrightarrow> destructive c"

lemma rm_hits_iff: "rm_hits_catastrophic_target others \<longleftrightarrow> (\<exists>t \<in> set others. catastrophic t)"
  by (simp add: rm_hits_catastrophic_target_def catastrophic_def list_ex_iff)

lemma unparseable_allowed: "gd_allowed (unparseable c) \<longleftrightarrow> \<not> (\<exists>rule pattern. (rule, pattern) \<in> set destructive_patterns \<and> search pattern c)"
  by (auto simp: unparseable_def find_None_iff dest!: find_member split: option.split)

lemma parsed_allowed:
  assumes "gate_tokens c \<noteq> None"
  shows "gd_allowed (check_command c) \<longleftrightarrow> (\<forall>stage later. pipes c stage later \<longrightarrow> gd_allowed (judge_stage check_command (stage, later)))"
proof -
  obtain tokens where "gate_tokens c = Some tokens" using assms by blast
  then show ?thesis
    by (simp add: check_command.simps [of c] first_block_allowed check_pipeline_def pipes_def) fast
qed

lemma judge_stage_blocked: "\<not> gd_allowed (judge_stage judge (stage, later)) \<longleftrightarrow>
    basename (hd stage) \<in> {''curl'', ''wget''} \<and> (\<exists>l \<in> set later. basename (hd l) \<in> set shells)
    \<or> (\<exists>tr \<in> set (positions stage). \<not> gd_allowed (judge_token judge tr))"
  by (auto simp: judge_stage_def check_stage_def first_block_allowed list_ex_iff)

lemma judge_token_blocked: "\<not> gd_allowed (judge_token judge (token, others)) \<longleftrightarrow>
    basename token = ''rm'' \<and> rm_hits_catastrophic_target others
    \<or> basename token = ''git'' \<and> git_verdict others \<noteq> None
    \<or> (\<exists>s. basename token \<in> set shells \<and> script_of others = Some s \<and> \<not> gd_allowed (judge s))
    \<or> basename token = ''mkfs'' \<or> startswith (basename token) ''mkfs.'' \<or> startswith token ''of=/dev/''"
  using git_verdict_block [of others]
  by (auto simp: judge_token_def judge_script_def Let_def split: option.split)

lemma blocked_stage: "pipes c stage later \<Longrightarrow> \<not> gd_allowed (judge_stage check_command (stage, later)) \<Longrightarrow> \<not> gd_allowed (check_command c)"
  using parsed_allowed [of c] by (auto simp: pipes_def)

lemma blocked_token: "runs c token others \<Longrightarrow> \<not> gd_allowed (judge_token check_command (token, others)) \<Longrightarrow> \<not> gd_allowed (check_command c)"
  unfolding runs_def using blocked_stage judge_stage_blocked by blast

lemma destructive_blocked: "destructive c \<Longrightarrow> \<not> gd_allowed (check_command c)"
proof (induction rule: destructive.induct)
  case (unparsed c rule pattern)
  then show ?case by (auto simp: check_command.simps [of c] unparseable_allowed)
next
  case (download c stage later l)
  then show ?case using blocked_stage by (auto simp: judge_stage_blocked)
qed (rule blocked_token, assumption, unfold judge_token_blocked rm_hits_iff, blast)+

lemma script_length:
  assumes "runs c token others" "basename token \<in> set shells" "script_of others = Some s"
  shows "length s < length c"
proof -
  from assms obtain tokens chain stage later where t: "gate_tokens c = Some tokens"
    "chain \<in> set (split_tokens chain_separators tokens)" "stage \<in> set (split_tokens pipe_separators chain)"
    "s \<in> scripts_in stage"
    unfolding runs_def pipes_def by (metis fst_conv positions_fst scripts_inI snd_conv)
  then show ?thesis using script_shorter [OF t(4)] group_weight [OF t(3)] group_weight [OF t(2)] shlex_size
    by (fastforce simp: gate_tokens_def weight_def)
qed

lemma blocked_destructive: "\<not> gd_allowed (check_command c) \<Longrightarrow> destructive c"
proof (induction "length c" arbitrary: c rule: less_induct)
  case less
  show ?case
  proof (cases "gate_tokens c")
    case None
    then show ?thesis using less.prems
      by (auto simp: check_command.simps [of c] unparseable_allowed intro: destructive.unparsed)
  next
    case (Some tokens)
    then obtain stage later where pipe: "pipes c stage later" and "\<not> gd_allowed (judge_stage check_command (stage, later))"
      using less.prems parsed_allowed [of c] by auto
    then consider "basename (hd stage) \<in> {''curl'', ''wget''}" "\<exists>l \<in> set later. basename (hd l) \<in> set shells"
      | token others where "runs c token others" "\<not> gd_allowed (judge_token check_command (token, others))"
      unfolding judge_stage_blocked runs_def by fastforce
    then show ?thesis
    proof cases
      case 1
      then show ?thesis using pipe by (blast intro: destructive.download)
    next
      case 2
      have "destructive s" if "basename token \<in> set shells" "script_of others = Some s" "\<not> gd_allowed (check_command s)" for s
        using less.hyps [of s] script_length [OF 2(1) that(1,2)] that(3) by blast
      then show ?thesis using 2 unfolding judge_token_blocked rm_hits_iff
        by (blast intro: destructive.intros)
    qed
  qed
qed


section \<open>Mentions and scripts\<close>

text \<open>A word no rule looks at.\<close>

definition harmless :: "string \<Rightarrow> bool" where
  "harmless w \<longleftrightarrow> basename w \<notin> set ([''rm'', ''git'', ''mkfs''] @ shells) \<and> \<not> startswith (basename w) ''mkfs.''
     \<and> \<not> startswith w ''of=/dev/''"

definition quoted_command :: "string list \<Rightarrow> string" where
  "quoted_command ws = join '' '' (map single_quoted ws)"

lemma quoted_tokens: "(\<And>w. w \<in> set ws \<Longrightarrow> single_quote \<notin> set w) \<Longrightarrow> gate_tokens (quoted_command ws) = Some ws"
  unfolding gate_tokens_def quoted_command_def shlex_list_def
  by (rule lex_quoted_words) (simp_all add: single_quote_def)

lemma set_split_tokens: "g \<in> set (split_tokens seps ts) \<Longrightarrow> set g \<subseteq> set ts \<and> g \<noteq> []"
proof -
  have "g \<in> set (groups_of seps ts) \<Longrightarrow> set g \<subseteq> set ts"
    by (induction ts arbitrary: g) (fastforce split: if_splits list.splits)+
  then show "g \<in> set (split_tokens seps ts) \<Longrightarrow> ?thesis" by (simp add: split_tokens_def)
qed

lemma pipes_words:
  assumes "pipes c stage later" "gate_tokens c = Some ws"
  shows "set stage \<subseteq> set ws" and "l \<in> set later \<Longrightarrow> hd l \<in> set ws"
proof -
  obtain chain where chain: "chain \<in> set (split_tokens chain_separators ws)"
    "(stage, later) \<in> set (positions (split_tokens pipe_separators chain))"
    using assms unfolding pipes_def by auto
  then have "insert stage (set later) \<subseteq> set (split_tokens pipe_separators chain)" by (auto simp: set_positions)
  then have "g = stage \<or> g \<in> set later \<Longrightarrow> set g \<subseteq> set ws \<and> g \<noteq> []" for g
    using set_split_tokens [OF chain(1)] set_split_tokens [of g pipe_separators chain] by blast
  then show "set stage \<subseteq> set ws" and "l \<in> set later \<Longrightarrow> hd l \<in> set ws" using list.set_sel(1) by blast+
qed

lemma runs_words: "runs c token others \<Longrightarrow> gate_tokens c = Some ws \<Longrightarrow> token \<in> set ws"
  unfolding runs_def using pipes_words(1) by (fastforce dest: positions_fst)

lemma parsed_plain: "gate_tokens c \<noteq> None \<Longrightarrow> gd_allowed (check_command c) \<Longrightarrow> check_command c = allow"
proof -
  have "gd_allowed (first_block f xs) \<Longrightarrow> first_block f xs = allow" for f and xs :: "string list list"
    by (induction xs) (auto simp: Let_def split: if_splits)
  then show "gate_tokens c \<noteq> None \<Longrightarrow> gd_allowed (check_command c) \<Longrightarrow> ?thesis"
    by (auto simp: check_command.simps [of c])
qed

text \<open>Quoted text is no command: a command of quoted words none of which is itself the name of a judged
  command, whatever they mention, passes without annotation.\<close>

theorem mentions_pass:
  assumes "\<And>w. w \<in> set ws \<Longrightarrow> single_quote \<notin> set w" and "\<And>w. w \<in> set ws \<Longrightarrow> harmless w"
  shows "check_command (quoted_command ws) = allow"
proof -
  have tokens: "gate_tokens (quoted_command ws) = Some ws" using quoted_tokens assms(1) .
  have "\<not> destructive (quoted_command ws)"
  proof
    assume "destructive (quoted_command ws)"
    then show False
    proof cases
      case (download stage later l)
      then show ?thesis using pipes_words(2) [OF _ tokens] assms(2) by (fastforce simp: harmless_def)
    qed (use tokens runs_words [OF _ tokens] assms(2) in \<open>auto simp: harmless_def\<close>)
  qed
  then have "gd_allowed (check_command (quoted_command ws))" using blocked_destructive by blast
  then show ?thesis using parsed_plain tokens by simp
qed

text \<open>A script handed to a shell is judged as a command: when the script is blocked, so is the shell
  that runs it, for the same rule and reason.\<close>

theorem script_judged:
  assumes "basename sh \<in> set shells" "single_quote \<notin> set sh" "single_quote \<notin> set s"
    and "\<not> gd_allowed (check_command s)"
  shows "check_command (quoted_command [sh, ''-c'', s]) = check_command s"
proof -
  have tokens: "gate_tokens (quoted_command [sh, ''-c'', s]) = Some [sh, ''-c'', s]"
    using assms(2,3) by (intro quoted_tokens) (auto simp: single_quote_def)
  have "s \<notin> set (chain_separators @ pipe_separators)"
  proof
    assume "s \<in> set (chain_separators @ pipe_separators)"
    moreover have "list_all (\<lambda>s. gd_allowed (check_command s)) (chain_separators @ pipe_separators)" by code_simp
    ultimately show False using assms(4) by (auto simp: list_all_iff)
  qed
  moreover have "list_all (\<lambda>s. basename s \<notin> set shells \<and> s \<noteq> ''-c'') (chain_separators @ pipe_separators)" by code_simp
  then have "sh \<notin> set (chain_separators @ pipe_separators)" "''-c'' \<notin> set (chain_separators @ pipe_separators)"
    using assms(1) by (auto simp: list_all_iff)
  ultimately have "split_tokens chain_separators [sh, ''-c'', s] = [[sh, ''-c'', s]]"
    "split_tokens pipe_separators [sh, ''-c'', s] = [[sh, ''-c'', s]]"
    by (simp_all add: split_tokens_def)
  moreover have "judge_token check_command (sh, [''-c'', s]) = check_command s"
    using assms(1,4) by (auto simp: judge_token_def judge_script_def script_of_def Let_def shells_def)
  moreover have "basename sh \<notin> {''curl'', ''wget''}" using assms(1) by (auto simp: shells_def)
  ultimately show ?thesis using tokens assms(4)
    by (simp add: check_command.simps [of "quoted_command [sh, ''-c'', s]"] check_pipeline_def judge_stage_def check_stage_def Let_def)
qed

section \<open>Samples\<close>

theorem mentions_pass_witness:
  "check_command (quoted_command [''gh'', ''pr'', ''review'', ''--body'', ''core issue: git reset --hard or rm -rf /'']) = allow"
proof -
  have "list_all (\<lambda>w. single_quote \<notin> set w \<and> harmless w)
    [''gh'', ''pr'', ''review'', ''--body'', ''core issue: git reset --hard or rm -rf /'']" by code_simp
  then show ?thesis unfolding list_all_iff by (intro mentions_pass) blast+
qed

theorem script_judged_witness:
  "check_command (quoted_command [''/bin/bash'', ''-c'', ''cd x && rm -rf /'']) = block ''rm_root'' ''rm targeting /, ~ or ..''"
proof -
  have verdict: "check_command ''cd x && rm -rf /'' = block ''rm_root'' ''rm targeting /, ~ or ..''" by code_simp
  have "basename ''/bin/bash'' \<in> set shells" "single_quote \<notin> set ''/bin/bash''" "single_quote \<notin> set ''cd x && rm -rf /''"
    by code_simp+
  from script_judged [OF this] show ?thesis unfolding verdict by simp
qed

text \<open>Downloads piped into a shell that pass without annotation: on the second line of a command, from a
  subshell, through another command.\<close>

lemma downloads_missed:
  "list_all (\<lambda>command. check_command command = allow)
     [''cd x'' @ newline # ''curl u | sh'', ''(curl u)|sh'', ''sudo curl u | sh'', ''curl u | sudo sh'', ''sh -ec '' @ single_quoted ''rm -rf /'']"
  by code_simp

text \<open>A quoted mention that is a judged name by itself is blocked like the command.\<close>

lemma mention_blocked: "\<not> gd_allowed (check_command (quoted_command [''grep'', ''-rn'', ''mkfs'', ''docs'']))"
  by code_simp

end
