(* ===== verification/Redact.thy ===== *)
theory Redact
  imports Py_Regex Py_Value
begin

text \<open>
  Model of \<open>src/spotter/redact.py\<close>: the credential patterns, in order, and the recursive
  redaction of a payload before it is written.
\<close>

definition placeholder :: string where
  "placeholder = ''[REDACTED]''"

section \<open>Patterns\<close>

definition alnum :: "char \<Rightarrow> bool" where
  "alnum c = is_alnum c"

definition key_char :: "char \<Rightarrow> bool" where
  "key_char c = (is_alnum c \<or> c = CHR ''_'' \<or> c = CHR ''-'')"

definition slack_char :: "char \<Rightarrow> bool" where
  "slack_char c = (is_alnum c \<or> c = CHR ''-'')"

definition upper_alnum :: "char \<Rightarrow> bool" where
  "upper_alnum c = (is_digit c \<or> 65 \<le> code c \<and> code c \<le> 90)"

definition pem_char :: "char \<Rightarrow> bool" where
  "pem_char c = (65 \<le> code c \<and> code c \<le> 90 \<or> c = CHR '' '')"

definition header_char :: "char \<Rightarrow> bool" where
  "header_char c = (is_alnum c \<or> c \<in> set ''._~+/=-'')"

definition bare_char :: "char \<Rightarrow> bool" where
  "bare_char c = (\<not> is_space c \<and> c \<notin> set [CHR '';'', CHR ''&'', CHR ''|'', CHR 0x27, CHR 0x22])"

definition name_char :: "char \<Rightarrow> bool" where
  "name_char c = (is_alnum c \<or> c = CHR ''_'')"

definition not_redacted :: regex where
  "not_redacted = NotAhead (Chars_i ''[redacted]'')"

definition joint :: regex where
  "joint = Opt (Class (\<lambda>c. c = CHR ''_'' \<or> c = CHR ''-''))"

definition in_quotes :: "nat \<Rightarrow> char \<Rightarrow> regex" where
  "in_quotes n q = Seqs [Chars [q], At_least n (Class (\<lambda>c. c \<noteq> q)), Chars [q]]"

definition openai_key :: regex where
  "openai_key = Seqs [Boundary, Chars ''sk-'', At_least 16 (Class key_char)]"

definition github_token :: regex where
  "github_token = Seqs [Boundary, Chars ''gh'', Class (\<lambda>c. c \<in> set ''pousr''), Chars ''_'', At_least 16 (Class alnum)]"

definition slack_token :: regex where
  "slack_token = Seqs [Boundary, Chars ''xox'', Class (\<lambda>c. c \<in> set ''abprs''), Chars ''-'', At_least 10 (Class slack_char)]"

definition aws_key_id :: regex where
  "aws_key_id = Seqs [Boundary, Alt (Chars ''AKIA'') (Chars ''ASIA''), Times 16 (Class upper_alnum), Boundary]"

definition jwt :: regex where
  "jwt = Seqs [Boundary, Chars ''eyJ'', At_least 8 (Class key_char), Chars ''.'', At_least 8 (Class key_char),
     Chars ''.'', At_least 8 (Class key_char)]"

definition private_key :: regex where
  "private_key = Seqs [Chars ''-----BEGIN '', Greedy (Class pem_char), Chars ''PRIVATE KEY-----'', Lazy (Class (\<lambda>c. True)),
     Chars ''-----END '', Greedy (Class pem_char), Chars ''PRIVATE KEY-----'']"

definition auth_header :: regex where
  "auth_header = Seqs
     [Group 1 (Seqs [Chars_i ''authorization'', Greedy Blank, Chars '':'', Greedy Blank]),
      Opt (Group 2 (Alts [Chars_i ''bearer'', Chars_i ''basic'', Chars_i ''token''])),
      Greedy Blank, not_redacted, At_least 8 (Class header_char)]"

definition secret_name :: regex where
  "secret_name = Alts
     [Seqs [Chars_i ''api'', joint, Chars_i ''key''], Seqs [Chars_i ''secret'', joint, Greedy (Class word_char)],
      Seqs [Chars_i ''access'', joint, Chars_i ''token''], Seqs [Chars_i ''auth'', joint, Chars_i ''token''],
      Chars_i ''password'', Chars_i ''passwd'', Chars_i ''token'', Seqs [Chars_i ''client'', joint, Chars_i ''secret'']]"

definition assignment :: regex where
  "assignment = Seqs
     [Boundary, Group 1 (Seqs [secret_name, Greedy Blank, Class (\<lambda>c. c = CHR ''='' \<or> c = CHR '':''), Greedy Blank]),
      not_redacted,
      Group 2 (Alts [in_quotes 4 CHR 0x22, in_quotes 4 CHR 0x27, At_least 4 (Class bare_char)])]"

definition env_export :: regex where
  "env_export = Seqs
     [Boundary,
      Group 1 (Seqs [Chars_i ''export'', Plus Blank, Greedy (Class name_char),
        Alts [Chars_i ''key'', Chars_i ''secret'', Chars_i ''token'', Chars_i ''password''],
        Greedy (Class name_char), Greedy Blank, Chars ''='', Greedy Blank]),
      not_redacted,
      Group 2 (Alts [in_quotes 1 CHR 0x22, in_quotes 1 CHR 0x27, Plus Ink])]"

definition keep_header :: "config \<Rightarrow> string" where
  "keep_header c = group_text c 1 @ group_text c 2 @ '' '' @ placeholder"

definition keep_name :: "config \<Rightarrow> string" where
  "keep_name c = group_text c 1 @ placeholder"

definition drop_all :: "config \<Rightarrow> string" where
  "drop_all c = placeholder"

definition redact_patterns :: "(string \<times> regex \<times> (config \<Rightarrow> string)) list" where
  "redact_patterns =
     [(''openai_key'', openai_key, drop_all), (''github_token'', github_token, drop_all),
      (''slack_token'', slack_token, drop_all), (''aws_key_id'', aws_key_id, drop_all), (''jwt'', jwt, drop_all),
      (''private_key'', private_key, drop_all), (''auth_header'', auth_header, keep_header),
      (''assignment'', assignment, keep_name), (''env_export'', env_export, keep_name)]"

section \<open>Redaction\<close>

definition redact_step :: "string \<times> string list \<Rightarrow> string \<times> regex \<times> (config \<Rightarrow> string) \<Rightarrow> string \<times> string list" where
  "redact_step tf rule =
     (let (text, fired) = tf; (name, pattern, new) = rule; (text', count) = subn pattern new text
      in (text', if count = 0 then fired else fired @ [name]))"

definition redact_text :: "string \<Rightarrow> string \<times> string list" where
  "redact_text text = foldl redact_step (text, []) redact_patterns"

function redact :: "pyval \<Rightarrow> pyval \<times> string list" where
  "redact PNone = (PNone, [])"
| "redact (PBool b) = (PBool b, [])"
| "redact (PInt i) = (PInt i, [])"
| "redact (PFloat x) = (PFloat x, [])"
| "redact (PStr s) = (let (text, fired) = redact_text s in (PStr text, fired))"
| "redact (PList vs) = (let rs = map redact vs in (PList (map fst rs), concat (map snd rs)))"
| "redact (PDict d) = (let rs = map (\<lambda>kv. (fst kv, redact (snd kv))) d
     in (PDict (map (\<lambda>kr. (fst kr, fst (snd kr))) rs), concat (map (\<lambda>kr. snd (snd kr)) rs)))"
  by pat_completeness auto
termination
  by (relation "measure size") (simp_all add: size_item size_entry)

end
