(* ===== verification/Redact_Claims.thy ===== *)
theory Redact_Claims
  imports Redact
begin

text \<open>
  What redaction promises: a provider token that its pattern recognises never survives, in
  whatever text it stands and whatever the later patterns rewrite, and a payload keeps its shape.
\<close>

section \<open>Matches\<close>

text \<open>A configuration a pattern ends in splits the text where it stands.\<close>

definition reaches :: "config \<Rightarrow> config \<Rightarrow> bool" where
  "reaches c d \<longleftrightarrow> (\<exists>m. ahead c = m @ ahead d \<and> passed d = rev m @ passed c)"

lemma reaches_refl [simp]: "reaches c c"
  by (simp add: reaches_def)

lemma reaches_trans: "reaches b c \<Longrightarrow> reaches c d \<Longrightarrow> reaches b d"
  by (auto simp: reaches_def)

lemma repeated_reaches:
  assumes "\<And>c d. d \<in> set (f c) \<Longrightarrow> reaches c d" and "d \<in> set (repeated few n f c)"
  shows "reaches c d"
  using assms
proof (induction few n f c arbitrary: d rule: repeated.induct)
  case (2 few n f c)
  from 2(3) consider "d = c"
    | x where "x \<in> set (f c)" "length (ahead x) < length (ahead c)" "d \<in> set (repeated few n f x)"
    by (auto simp: Let_def split: if_splits)
  then show ?case
  proof cases
    case (2 x)
    then have "reaches c x" "reaches x d" using "2.IH" "2.prems"(1) by auto
    then show ?thesis by (rule reaches_trans)
  qed simp
qed simp

lemma ends_reaches: "d \<in> set (ends r c) \<Longrightarrow> reaches c d"
proof (induction r arbitrary: c d)
  case (Class P)
  then show ?case by (auto simp: reaches_def split: list.splits if_splits)
next
  case (Seq r1 r2)
  then obtain b where "b \<in> set (ends r1 c)" "d \<in> set (ends r2 b)" by auto
  then show ?case using Seq.IH reaches_trans by blast
next
  case (Greedy r)
  from Greedy.prems show ?case unfolding ends.simps by (rule repeated_reaches [rotated]) (rule Greedy.IH)
next
  case (Lazy r)
  from Lazy.prems show ?case unfolding ends.simps by (rule repeated_reaches [rotated]) (rule Lazy.IH)
next
  case (Group n r)
  then obtain b where "b \<in> set (ends r c)" "ahead d = ahead b" "passed d = passed b" by auto
  then show ?case using Group.IH [of b c] by (simp add: reaches_def)
qed (auto split: if_splits)

text \<open>The configuration a pattern reports is its first one.\<close>

definition first :: "regex \<Rightarrow> config \<Rightarrow> config \<Rightarrow> bool" where
  "first r c d \<longleftrightarrow> (\<exists>ds. ends r c = d # ds)"

lemma match_here_first: "match_here r p s = Some d \<longleftrightarrow> first r \<lparr>passed = p, ahead = s, groups = []\<rparr> d"
  by (auto simp: match_here_def first_def split: list.splits)

lemma first_ends: "first r c d \<Longrightarrow> d \<in> set (ends r c)"
  by (auto simp: first_def)

lemma first_Seq: "first (Seq r1 r2) c d \<Longrightarrow> \<exists>b. b \<in> set (ends r1 c) \<and> first r2 b d"
proof -
  have "concat (map f bs) = d # ds \<Longrightarrow> \<exists>b \<in> set bs. \<exists>ds. f b = d # ds" for f :: "config \<Rightarrow> config list" and bs ds
  proof (induction bs)
    case (Cons b bs)
    then show ?case by (cases "f b") auto
  qed simp
  then show "first (Seq r1 r2) c d \<Longrightarrow> ?thesis" unfolding first_def ends.simps by metis
qed

lemma first_Alt: "first (Alt r1 r2) c d \<Longrightarrow> first r1 c d \<or> first r2 c d"
  by (cases "ends r1 c") (auto simp: first_def)

section \<open>Where a match ends\<close>

text \<open>After a match no provider token can begin that did not begin before: the text is at its end, or what
  was matched last is no word character, or what comes next is not the first letter of a token.\<close>

definition closed :: "config \<Rightarrow> bool" where
  "closed d \<longleftrightarrow> ahead d = [] \<or> \<not> edge_word (passed d) \<or> hd (ahead d) \<notin> set ''sgx''"

definition closing :: "regex \<Rightarrow> bool" where
  "closing r \<longleftrightarrow> (\<forall>c d. first r c d \<longrightarrow> closed d)"

lemma closing_Seq: "closing r2 \<Longrightarrow> closing (Seq r1 r2)"
  unfolding closing_def using first_Seq by blast

lemma closing_Alt: "closing r1 \<Longrightarrow> closing r2 \<Longrightarrow> closing (Alt r1 r2)"
  unfolding closing_def using first_Alt by blast

lemma closing_Group: "closing r \<Longrightarrow> closing (Group n r)"
  unfolding closing_def
proof (intro allI impI)
  fix c d assume closing: "\<forall>c d. first r c d \<longrightarrow> closed d" and "first (Group n r) c d"
  then obtain b where "first r c b" "ahead d = ahead b" "passed d = passed b"
    by (cases "ends r c") (auto simp: first_def)
  then show "closed d" using closing by (auto simp: closed_def)
qed

text \<open>A greedy run of a class takes every character of the class.\<close>

definition eat :: "(char \<Rightarrow> bool) \<Rightarrow> config \<Rightarrow> config list" where
  "eat P c = ends (Class P) c"

lemma eat_simps:
  "ahead c = [] \<or> \<not> P (hd (ahead c)) \<Longrightarrow> eat P c = []"
  "ahead c = x # t \<Longrightarrow> P x \<Longrightarrow> eat P c = [c\<lparr>passed := x # passed c, ahead := t\<rparr>]"
  by (auto simp: eat_def split: list.splits)

lemma first_run:
  "length (ahead c) \<le> n \<Longrightarrow> repeated False n (eat P) c = d # ds \<Longrightarrow> ahead d = [] \<or> \<not> P (hd (ahead d))"
proof (induction n arbitrary: c d ds)
  case (Suc n)
  show ?case
  proof (cases "ahead c = [] \<or> \<not> P (hd (ahead c))")
    case True
    then show ?thesis using Suc.prems(2) eat_simps(1) [of c P] by auto
  next
    case False
    then obtain x t where s: "ahead c = x # t" "P x" by (cases "ahead c") auto
    define c' where "c' = c\<lparr>passed := x # passed c, ahead := t\<rparr>"
    have "repeated False n (eat P) c' @ [c] = d # ds"
      using Suc.prems(2) s eat_simps(2) [of c x t P] by (simp add: c'_def)
    moreover have "repeated False n (eat P) c' \<noteq> []" by (cases n) (simp_all add: Let_def)
    ultimately obtain es where "repeated False n (eat P) c' = d # es" by (cases "repeated False n (eat P) c'") auto
    then show ?thesis using Suc.IH [of c'] Suc.prems(1) s by (simp add: c'_def)
  qed
qed simp

lemma closing_run: "list_all P ''sgx'' \<Longrightarrow> closing (Greedy (Class P))"
proof -
  assume P: "list_all P ''sgx''"
  have "closed d" if "first (Greedy (Class P)) c d" for c d
  proof -
    have "\<exists>ds. repeated False (length (ahead c)) (eat P) c = d # ds"
      using that unfolding first_def ends.simps(5) eat_def [abs_def] .
    then show ?thesis using first_run [of c "length (ahead c)" P d] P by (auto simp: closed_def)
  qed
  then show ?thesis by (simp add: closing_def)
qed

lemma closing_Boundary: "closing Boundary"
  by (auto simp: closing_def first_def closed_def edge_word_def split: if_splits list.splits) code_simp+

lemma closing_char: "\<not> word_char c \<Longrightarrow> closing (Chars [c])"
  by (auto simp: closing_def first_def closed_def edge_word_def split: list.splits if_splits)

section \<open>Provider tokens\<close>

text \<open>A token as a list of character classes, where it begins, and whether a text has one.\<close>

fun fits :: "(char \<Rightarrow> bool) list \<Rightarrow> string \<Rightarrow> bool" where
  "fits [] s = True"
| "fits (P # Ps) [] = False"
| "fits (P # Ps) (x # s) = (P x \<and> fits Ps s)"

fun occurs :: "(char \<Rightarrow> bool) list \<Rightarrow> bool \<Rightarrow> string \<Rightarrow> bool" where
  "occurs tok e [] = False"
| "occurs tok e (x # s) = ((\<not> e \<and> fits tok (x # s)) \<or> occurs tok (word_char x) s)"

text \<open>Its classes hold no blank and no bracket, and its first one only the letters s, g and x.\<close>

definition token_classes :: "(char \<Rightarrow> bool) list \<Rightarrow> bool" where
  "token_classes tok \<longleftrightarrow> tok \<noteq> [] \<and> (\<forall>P \<in> set tok. \<not> P CHR '' '' \<and> \<not> P CHR ''['') \<and> (\<forall>x. hd tok x \<longrightarrow> x \<in> set ''sgx'')"

lemma fits_append: "fits tok s \<Longrightarrow> fits tok (s @ t)"
  by (induction tok s rule: fits.induct) auto

text \<open>A token that stops before a bracket or a blank lies wholly before it.\<close>

lemma fits_before:
  "\<forall>P \<in> set tok. \<not> P c \<Longrightarrow> fits tok (g @ c # t) \<Longrightarrow> fits tok g"
  by (induction tok g rule: fits.induct) auto

lemma occurs_before:
  assumes "\<forall>P \<in> set tok. \<not> P c" and "tok \<noteq> []"
  shows "occurs tok e (g @ c # t) \<Longrightarrow> occurs tok e g \<or> occurs tok (word_char c) t"
proof (induction g arbitrary: e)
  case Nil
  then show ?case using assms by (cases tok) auto
next
  case (Cons x g)
  then show ?case using fits_before [OF assms(1), of "x # g"] by fastforce
qed

lemma occurs_suffix: "occurs tok (edge_word (rev m @ p)) s \<Longrightarrow> occurs tok (edge_word p) (m @ s)"
proof (induction m arbitrary: p)
  case (Cons x m)
  then show ?case using Cons.IH [of "x # p"] by (simp add: edge_word_def)
qed simp

lemma occurs_append: "occurs tok e s \<Longrightarrow> occurs tok e (s @ t)"
proof (induction s arbitrary: e)
  case (Cons x s)
  then show ?case using fits_append [of tok "x # s" t] by auto
qed simp

lemma occurs_edge: "occurs tok e s \<Longrightarrow> fits tok s \<or> occurs tok e' s"
  by (cases s) auto

lemma occurs_skip: "token_classes tok \<Longrightarrow> c \<notin> set ''sgx'' \<Longrightarrow> occurs tok e (c # s) = occurs tok (word_char c) s"
  by (cases tok) (auto simp: token_classes_def)

lemma fits_first: "token_classes tok \<Longrightarrow> fits tok s \<Longrightarrow> s \<noteq> [] \<and> hd s \<in> set ''sgx''"
  by (cases tok; cases s) (auto simp: token_classes_def)

lemma occurs_placeholder: "token_classes tok \<Longrightarrow> occurs tok e (placeholder @ s) = occurs tok False s"
proof -
  have "\<not> word_char CHR '']''" by code_simp
  then show "token_classes tok \<Longrightarrow> ?thesis" by (simp add: placeholder_def occurs_skip del: occurs.simps)
qed

text \<open>What a rule that blanks out a match writes: the beginning of the match, perhaps a blank, the placeholder.\<close>

definition blanks :: "string \<Rightarrow> string \<Rightarrow> bool" where
  "blanks m w \<longleftrightarrow> (\<exists>g t sep. m = g @ t \<and> sep \<in> {[], '' ''} \<and> w = g @ sep @ placeholder)"

lemma fits_blanks:
  assumes "token_classes tok" "blanks m w" "set Ps \<subseteq> set tok" "fits Ps (w @ u)"
  shows "fits Ps (m @ v)"
proof -
  obtain g t sep where gt: "m = g @ t" "sep \<in> {[], '' ''}" and w: "w = g @ sep @ placeholder"
    using assms(2) unfolding blanks_def by blast
  then obtain c z where wz: "w = g @ c # z" and c: "c = CHR '' '' \<or> c = CHR ''[''" by (auto simp: placeholder_def)
  have "fits Ps g" using assms(1,3,4) wz c
    by (intro fits_before [of Ps c g "z @ u"]) (auto simp: token_classes_def)
  then show ?thesis using gt fits_append by simp
qed

lemma occurs_blanks:
  assumes "token_classes tok" "blanks m w" "occurs tok e (w @ u)"
  shows "occurs tok e m \<or> occurs tok False u"
proof -
  obtain g t sep where gt: "m = g @ t" "sep \<in> {[], '' ''}" and w: "w = g @ sep @ placeholder"
    using assms(2) by (auto simp: blanks_def)
  then obtain c z where cz: "sep @ placeholder = c # z" "c = CHR '' '' \<or> c = CHR ''[''"
    by (auto simp: placeholder_def)
  have "\<forall>P \<in> set tok. \<not> P c" "tok \<noteq> []" using assms(1) cz(2) unfolding token_classes_def by blast+
  moreover have "occurs tok e (g @ c # z @ u)" using assms(3) w cz(1) by simp
  ultimately have "occurs tok e g \<or> occurs tok (word_char c) (z @ u)" by (rule occurs_before)
  moreover have "occurs tok (word_char c) (z @ u) = occurs tok e (c # z @ u)"
    using occurs_skip [OF assms(1), of c] cz(2) by auto
  moreover have "occurs tok e (sep @ placeholder @ u) = occurs tok False u"
    using gt(2) assms(1) by (auto simp: occurs_placeholder occurs_skip simp del: occurs.simps)
  ultimately show ?thesis using gt(1) cz(1) occurs_append by (metis append_Cons append_assoc)
qed

locale redaction_rule =
  fixes r :: regex and new :: "config \<Rightarrow> string"
  assumes matched: "match_here r p s = Some c \<Longrightarrow>
    closed c \<and> (\<exists>m. s = m @ ahead c \<and> passed c = rev m @ p \<and> m \<noteq> [] \<and> blanks m (new c))"
begin

abbreviation rewritten :: "string \<Rightarrow> string \<Rightarrow> string" where
  "rewritten p s \<equiv> fst (subn_from r new p s)"

lemma rewritten_cases:
  obtains "s = []" "rewritten p s = []"
  | x t where "s = x # t" "rewritten p s = x # rewritten (x # p) t" "match_here r p s = None"
  | c m where "match_here r p s = Some c" "closed c" "s = m @ ahead c" "m \<noteq> []" "passed c = rev m @ p" "blanks m (new c)"
      "rewritten p s = new c @ rewritten (passed c) (ahead c)"
proof (cases s)
  case Nil
  then show ?thesis using that(1) by (simp add: subn_from.simps)
next
  case (Cons x t)
  show ?thesis
  proof (cases "match_here r p s")
    case None
    then show ?thesis using that(2) Cons by (simp add: subn_from.simps [of r new p "x # t"] split: prod.split)
  next
    case (Some c)
    from matched [OF Some] obtain m where m: "s = m @ ahead c" "passed c = rev m @ p" "m \<noteq> []" "blanks m (new c)"
      and closed: "closed c" by blast
    then have "length (ahead c) < length s" by simp
    then have "rewritten p s = new c @ rewritten (passed c) (ahead c)"
      using Some Cons by (simp add: subn_from.simps [of r new p "x # t"] split: prod.split)
    then show ?thesis using that(3) [OF Some closed m(1,3,2,4)] by blast
  qed
qed

text \<open>No token begins the new text that did not begin the old one.\<close>

lemma fits_rewritten:
  assumes "token_classes tok" 
  shows "set Ps \<subseteq> set tok \<Longrightarrow> fits Ps (rewritten p s) \<Longrightarrow> fits Ps s"
proof (induction "length s" arbitrary: Ps p s rule: less_induct)
  case less
  show ?case
  proof (cases rule: rewritten_cases [of s p])
    case (2 x t)
    show ?thesis
    proof (cases Ps)
      case (Cons P Qs)
      then show ?thesis using less.hyps [of t Qs "x # p"] less.prems 2 by simp
    qed simp
  next
    case (3 c m)
    then show ?thesis using less.prems fits_blanks [OF assms] by metis
  qed (use less.prems in simp)
qed

text \<open>Substitution creates no token: neither inside what it keeps nor across a placeholder.\<close>

lemma no_new_token:
  assumes tok: "token_classes tok"
  shows "e = edge_word p \<or> \<not> fits tok s \<Longrightarrow> \<not> occurs tok (edge_word p) s \<Longrightarrow> \<not> occurs tok e (rewritten p s)"
proof (induction "length s" arbitrary: p s e rule: less_induct)
  case less
  have start: "\<not> e \<Longrightarrow> \<not> fits tok s"
    using less.prems occurs.simps tok by (cases s) (auto simp: token_classes_def neq_Nil_conv)
  show ?case
  proof (cases rule: rewritten_cases [of s p])
    case (2 x t)
    then have "\<not> occurs tok (word_char x) (rewritten (x # p) t)"
      using less.hyps [of t "word_char x" "x # p"] less.prems(2) by (simp add: edge_word_def)
    moreover have "\<not> (\<not> e \<and> fits tok (rewritten p s))" using start fits_rewritten [OF tok subset_refl] by blast
    ultimately show ?thesis using 2 by simp
  next
    case (3 c m)
    have "\<not> occurs tok (edge_word (passed c)) (ahead c)"
      using less.prems(2) 3 occurs_suffix [of tok m p "ahead c"] by auto
    moreover have "False = edge_word (passed c) \<or> \<not> fits tok (ahead c)"
      using 3(2) fits_first [OF tok] unfolding closed_def by blast
    ultimately have "\<not> occurs tok False (rewritten (passed c) (ahead c))"
      using less.hyps [of "ahead c" False "passed c"] 3 by (simp add: length_append)
    moreover have "\<not> occurs tok e m"
      using less.prems occurs_append [of tok _ m "ahead c"] occurs_edge [of tok e m "edge_word p"]
        fits_append [of tok m "ahead c"] 3(3) by auto
    ultimately show ?thesis using occurs_blanks [OF tok 3(6)] 3(7) by auto
  qed simp
qed

text \<open>A rule that matches every token and keeps nothing of it leaves none.\<close>

lemma no_token_left:
  assumes tok: "token_classes tok" and "\<And>p s. \<not> edge_word p \<Longrightarrow> fits tok s \<Longrightarrow> match_here r p s \<noteq> None"
    and "\<And>c. new c = placeholder"
  shows "e = edge_word p \<or> \<not> fits tok s \<Longrightarrow> \<not> occurs tok e (rewritten p s)"
proof (induction "length s" arbitrary: p s e rule: less_induct)
  case less
  show ?case
  proof (cases rule: rewritten_cases [of s p])
    case (2 x t)
    then have "\<not> occurs tok (word_char x) (rewritten (x # p) t)"
      using less.hyps [of t "word_char x" "x # p"] by (simp add: edge_word_def)
    moreover have "\<not> (\<not> e \<and> fits tok (rewritten p s))"
      using assms(2) 2 less.prems fits_rewritten [OF tok subset_refl] by blast
    ultimately show ?thesis using 2 by simp
  next
    case (3 c m)
    have "False = edge_word (passed c) \<or> \<not> fits tok (ahead c)"
      using 3(2) fits_first [OF tok] unfolding closed_def by blast
    then have "\<not> occurs tok False (rewritten (passed c) (ahead c))"
      using less.hyps [of "ahead c" False "passed c"] 3 by (simp add: length_append)
    then show ?thesis using 3(7) assms(3) occurs_placeholder [OF tok] by simp
  qed simp
qed

end

section \<open>The rules\<close>

text \<open>A pattern that takes at least one character, and one without groups.\<close>

definition consumes :: "regex \<Rightarrow> bool" where
  "consumes r \<longleftrightarrow> (\<forall>c d. d \<in> set (ends r c) \<longrightarrow> length (ahead d) < length (ahead c))"

lemma reaches_length: "reaches c d \<Longrightarrow> length (ahead d) \<le> length (ahead c)"
  by (auto simp: reaches_def)

lemma consumes_Class: "consumes (Class P)"
  unfolding consumes_def
proof (intro allI impI)
  fix c d assume "d \<in> set (ends (Class P) c)"
  then show "length (ahead d) < length (ahead c)" by (cases "ahead c") (auto split: if_splits)
qed

lemma consumes_Seq: "consumes r1 \<or> consumes r2 \<Longrightarrow> consumes (Seq r1 r2)"
  unfolding consumes_def
proof (intro allI impI)
  fix c d
  assume c: "(\<forall>c d. d \<in> set (ends r1 c) \<longrightarrow> length (ahead d) < length (ahead c))
      \<or> (\<forall>c d. d \<in> set (ends r2 c) \<longrightarrow> length (ahead d) < length (ahead c))" and "d \<in> set (ends (Seq r1 r2) c)"
  then obtain b where b: "b \<in> set (ends r1 c)" "d \<in> set (ends r2 b)" by auto
  then show "length (ahead d) < length (ahead c)"
    using c reaches_length [OF ends_reaches [OF b(1)]] reaches_length [OF ends_reaches [OF b(2)]]
    by (metis le_less_trans less_le_trans)
qed

lemma consumes_Group: "consumes r \<Longrightarrow> consumes (Group n r)"
  by (auto simp: consumes_def)

primrec group_free :: "regex \<Rightarrow> bool" where
  "group_free Epsilon = True"
| "group_free (Class P) = True"
| "group_free (Seq r1 r2) = (group_free r1 \<and> group_free r2)"
| "group_free (Alt r1 r2) = (group_free r1 \<and> group_free r2)"
| "group_free (Greedy r) = group_free r"
| "group_free (Lazy r) = group_free r"
| "group_free Boundary = True"
| "group_free AtEnd = True"
| "group_free (NotAhead r) = True"
| "group_free (Group n r) = False"

lemma repeated_groups:
  assumes "\<And>c d. d \<in> set (f c) \<Longrightarrow> groups d = groups c" and "d \<in> set (repeated few n f c)"
  shows "groups d = groups c"
  using assms
proof (induction few n f c arbitrary: d rule: repeated.induct)
  case (2 few n f c)
  from 2(3) consider "d = c"
    | x where "x \<in> set (f c)" "length (ahead x) < length (ahead c)" "d \<in> set (repeated few n f x)"
    by (auto simp: Let_def split: if_splits)
  then show ?case
  proof cases
    case (2 x)
    then show ?thesis using "2.IH" "2.prems"(1) by fastforce
  qed simp
qed simp

lemma ends_groups: "group_free r \<Longrightarrow> d \<in> set (ends r c) \<Longrightarrow> groups d = groups c"
proof (induction r arbitrary: c d)
  case (Greedy r)
  show ?case by (rule repeated_groups [of "ends r" d False "length (ahead c)"]) (use Greedy in auto)
next
  case (Lazy r)
  show ?case by (rule repeated_groups [of "ends r" d True "length (ahead c)"]) (use Lazy in auto)
qed (auto split: list.splits if_splits, fastforce?)

lemma ends_Group:
  assumes "d \<in> set (ends (Group n r) c)" "group_free r"
  shows "\<exists>m. ahead c = m @ ahead d \<and> passed d = rev m @ passed c \<and> groups d = (n, m) # groups c"
proof -
  obtain b where b: "b \<in> set (ends r c)" and d: "d = b\<lparr>groups := (n, rev (take (length (passed b) - length (passed c)) (passed b))) # groups b\<rparr>"
    using assms(1) by auto
  obtain m where "ahead c = m @ ahead b" "passed b = rev m @ passed c" using ends_reaches [OF b] by (auto simp: reaches_def)
  then show ?thesis using d ends_groups [OF assms(2) b] by simp
qed

lemma rule_drops: "closing r \<Longrightarrow> consumes r \<Longrightarrow> redaction_rule r drop_all"
proof
  fix p s c assume r: "closing r" "consumes r" and "match_here r p s = Some c"
  then have f: "first r \<lparr>passed = p, ahead = s, groups = []\<rparr> c" by (simp add: match_here_first)
  have "blanks m (drop_all c)" for m by (auto simp: blanks_def drop_all_def)
  then show "closed c \<and> (\<exists>m. s = m @ ahead c \<and> passed c = rev m @ p \<and> m \<noteq> [] \<and> blanks m (drop_all c))"
    using f r ends_reaches [OF first_ends [OF f]] first_ends [OF f] unfolding closing_def consumes_def reaches_def
    by fastforce
qed

lemma rule_names:
  assumes "group_free A" "group_free B" "consumes A" "closing B"
  shows "redaction_rule (Seqs [Boundary, Group 1 A, not_redacted, Group 2 B]) keep_name"
proof
  fix p s d
  define c where "c = \<lparr>passed = p, ahead = s, groups = []\<rparr>"
  assume "match_here (Seqs [Boundary, Group 1 A, not_redacted, Group 2 B]) p s = Some d"
  then have f: "first (Seqs [Boundary, Group 1 A, not_redacted, Group 2 B]) c d" by (simp add: match_here_first c_def)
  then have "closed d" using assms(4) closing_Seq closing_Group unfolding closing_def by (metis Seqs.simps(2,3))
  obtain b where b: "b \<in> set (ends (Group 1 A) c)" "d \<in> set (ends (Group 2 B) b)"
    using first_ends [OF f] by (auto simp: not_redacted_def simp del: ends.simps(10) split: if_splits)
  obtain m1 where m1: "ahead c = m1 @ ahead b" "passed b = rev m1 @ passed c" "groups b = (1, m1) # groups c"
    using ends_Group [OF b(1) assms(1)] by blast
  obtain m2 where m2: "ahead b = m2 @ ahead d" "passed d = rev m2 @ passed b" "groups d = (2, m2) # groups b"
    using ends_Group [OF b(2) assms(2)] by blast
  have "length (ahead b) < length (ahead c)" using consumes_Group [OF assms(3)] b(1) unfolding consumes_def by blast
  then have "m1 \<noteq> []" using m1(1) by auto
  moreover have "blanks (m1 @ m2) (keep_name d)"
    using m1 m2 by (auto simp: blanks_def keep_name_def group_text_def c_def)
  ultimately show "closed d \<and> (\<exists>m. s = m @ ahead d \<and> passed d = rev m @ p \<and> m \<noteq> [] \<and> blanks m (keep_name d))"
    using \<open>closed d\<close> m1 m2 by (intro conjI exI [of _ "m1 @ m2"]) (simp_all add: c_def)
qed

lemma rule_header:
  assumes "group_free A" "group_free B" "group_free C" "group_free D" "consumes A" "closing D"
  shows "redaction_rule (Seqs [Group 1 A, Opt (Group 2 B), C, not_redacted, D]) keep_header"
proof
  fix p s d
  define c where "c = \<lparr>passed = p, ahead = s, groups = []\<rparr>"
  assume "match_here (Seqs [Group 1 A, Opt (Group 2 B), C, not_redacted, D]) p s = Some d"
  then have f: "first (Seqs [Group 1 A, Opt (Group 2 B), C, not_redacted, D]) c d" by (simp add: match_here_first c_def)
  then have "closed d" using assms(6) closing_Seq unfolding closing_def by (metis Seqs.simps(2,3))
  obtain b1 b2 b3 where b: "b1 \<in> set (ends (Group 1 A) c)" "b2 \<in> set (ends (Opt (Group 2 B)) b1)"
      "b3 \<in> set (ends C b2)" "d \<in> set (ends D b3)"
    using first_ends [OF f] by (auto simp: not_redacted_def simp del: ends.simps(4,10) split: if_splits)
  obtain m1 where m1: "ahead c = m1 @ ahead b1" "passed b1 = rev m1 @ passed c" "groups b1 = (1, m1) # groups c"
    using ends_Group [OF b(1) assms(1)] by blast
  have "b2 = b1 \<or> b2 \<in> set (ends (Group 2 B) b1)" using b(2) by (auto simp del: ends.simps(10))
  then obtain m2 where m2: "ahead b1 = m2 @ ahead b2" "passed b2 = rev m2 @ passed b1"
      "groups b2 = groups b1 \<and> m2 = [] \<or> groups b2 = (2, m2) # groups b1"
    using ends_Group [OF _ assms(2)] by fastforce
  obtain m3 where m3: "ahead b2 = m3 @ ahead d" "passed d = rev m3 @ passed b2"
    using ends_reaches [OF b(3)] ends_reaches [OF b(4)] reaches_trans by (fastforce simp: reaches_def)
  have "groups d = groups b2" using ends_groups b(3,4) assms(3,4) by metis
  then have new: "keep_header d = (m1 @ m2) @ '' '' @ placeholder"
    using m1(3) m2(3) by (auto simp: keep_header_def group_text_def c_def)
  then have "blanks (m1 @ m2 @ m3) (keep_header d)" unfolding blanks_def by (metis append_assoc insertI1 insert_commute)
  moreover have "length (ahead b1) < length (ahead c)" using consumes_Group [OF assms(5)] b(1) unfolding consumes_def by blast
  then have "m1 \<noteq> []" using m1(1) by auto
  ultimately show "closed d \<and> (\<exists>m. s = m @ ahead d \<and> passed d = rev m @ p \<and> m \<noteq> [] \<and> blanks m (keep_header d))"
    using \<open>closed d\<close> m1 m2 m3 by (intro conjI exI [of _ "m1 @ m2 @ m3"]) (simp_all add: c_def)
qed

lemma closing_chars: "\<not> word_char c \<Longrightarrow> closing (Chars (w @ [c]))"
proof (induction w)
  case Nil
  then show ?case using closing_char by simp
next
  case (Cons a w)
  then show ?case by (auto intro: closing_Seq)
qed

lemma consumes_chars: "w \<noteq> [] \<Longrightarrow> consumes (Chars w)" "w \<noteq> [] \<Longrightarrow> consumes (Chars_i w)"
  by (cases w; auto intro!: consumes_Seq consumes_Class)+

lemma consumes_rules: "consumes r1 \<Longrightarrow> consumes (Seq r1 r2)" "consumes r2 \<Longrightarrow> consumes (Seq r1 r2)"
  using consumes_Seq by blast+

lemma class_closing:
  "list_all key_char ''sgx''" "list_all alnum ''sgx''" "list_all slack_char ''sgx''" "list_all header_char ''sgx''"
  "list_all bare_char ''sgx''" "list_all (\<lambda>c. \<not> is_space c) ''sgx''"
  by code_simp+

interpretation openai: redaction_rule openai_key drop_all
  unfolding openai_key_def Seqs.simps
  by (intro rule_drops closing_Seq closing_run class_closing) (simp add: consumes_rules consumes_Class)

interpretation github: redaction_rule github_token drop_all
  unfolding github_token_def Seqs.simps
  by (intro rule_drops closing_Seq closing_run class_closing) (simp add: consumes_rules consumes_Class)

interpretation slack: redaction_rule slack_token drop_all
  unfolding slack_token_def Seqs.simps
  by (intro rule_drops closing_Seq closing_run class_closing) (simp add: consumes_rules consumes_Class)

interpretation aws: redaction_rule aws_key_id drop_all
  unfolding aws_key_id_def Seqs.simps
  by (intro rule_drops closing_Seq closing_Boundary) (simp add: consumes_rules consumes_Class numeral_eq_Suc)

interpretation web_token: redaction_rule jwt drop_all
  unfolding jwt_def Seqs.simps
  by (intro rule_drops closing_Seq closing_run class_closing) (simp add: consumes_rules consumes_Class)

interpretation pem: redaction_rule private_key drop_all
proof (rule rule_drops)
  have "\<not> word_char CHR ''-''" by code_simp
  then have "closing (Chars ''PRIVATE KEY-----'')" using closing_chars [of "CHR ''-''" "''PRIVATE KEY----''"] by simp
  then show "closing private_key" unfolding private_key_def Seqs.simps by (intro closing_Seq)
  show "consumes private_key" unfolding private_key_def Seqs.simps by (simp add: consumes_rules consumes_chars del: Chars.simps)
qed

lemma closing_quotes: "\<not> word_char q \<Longrightarrow> closing (in_quotes n q)"
  unfolding in_quotes_def Seqs.simps by (intro closing_Seq closing_char)

lemma quotes_closing: "closing (in_quotes n CHR 0x22)" "closing (in_quotes n CHR 0x27)"
  by (rule closing_quotes; code_simp)+

lemma group_free_Times: "group_free (Times n r) = (n = 0 \<or> group_free r)"
  by (induction n) auto

lemma group_free_Chars: "group_free (Chars w)" "group_free (Chars_i w)"
  by (induction w) auto

lemmas group_free_rules = group_free_Times group_free_Chars joint_def secret_name_def in_quotes_def

interpretation header: redaction_rule auth_header keep_header
  unfolding auth_header_def
proof (rule rule_header)
  show "consumes (Seqs [Chars_i ''authorization'', Greedy Blank, Chars '':'', Greedy Blank])"
    by (simp add: consumes_rules consumes_Class)
  show "closing (At_least 8 (Class header_char))" by (intro closing_Seq closing_run class_closing)
qed (simp_all add: group_free_rules)

interpretation assignment: redaction_rule assignment keep_name
  unfolding assignment_def
proof (rule rule_names)
  show "consumes (Seqs [secret_name, Greedy Blank, Class (\<lambda>c. c = CHR ''='' \<or> c = CHR '':''), Greedy Blank])"
    by (simp add: consumes_rules consumes_Class)
  show "closing (Alts [in_quotes 4 CHR 0x22, in_quotes 4 CHR 0x27, At_least 4 (Class bare_char)])"
    unfolding Alts.simps by (intro closing_Alt quotes_closing closing_Seq closing_run class_closing)
qed (simp_all add: group_free_rules)

interpretation env: redaction_rule env_export keep_name
  unfolding env_export_def
proof (rule rule_names)
  show "consumes (Seqs [Chars_i ''export'', Plus Blank, Greedy (Class name_char),
        Alts [Chars_i ''key'', Chars_i ''secret'', Chars_i ''token'', Chars_i ''password''],
        Greedy (Class name_char), Greedy Blank, Chars ''='', Greedy Blank])"
    by (simp add: consumes_rules consumes_Class)
  show "closing (Alts [in_quotes 1 CHR 0x22, in_quotes 1 CHR 0x27, Plus Ink])"
    unfolding Alts.simps by (intro closing_Alt quotes_closing closing_Seq closing_run class_closing)
qed (simp_all add: group_free_rules)

section \<open>No token survives\<close>

text \<open>When a pattern made of classes in a row matches.\<close>

definition needs :: "regex \<Rightarrow> (char \<Rightarrow> bool) list \<Rightarrow> bool" where
  "needs r qs \<longleftrightarrow> (\<forall>c. ends r c \<noteq> [] \<longleftrightarrow> fits qs (ahead c))"

lemma needs_Greedy: "needs (Greedy r) []"
proof -
  have "repeated False n f c \<noteq> []" for n f c by (cases n) (simp_all add: Let_def)
  then show ?thesis by (simp add: needs_def)
qed

lemma needs_Class: "needs r qs \<Longrightarrow> needs (Seq (Class P) r) (P # qs)"
  unfolding needs_def
proof (intro allI)
  fix c assume "\<forall>c. (ends r c \<noteq> []) = fits qs (ahead c)"
  then show "(ends (Seq (Class P) r) c \<noteq> []) = fits (P # qs) (ahead c)" by (cases "ahead c") auto
qed

lemma needs_assoc: "needs (Seq r1 (Seq r2 r3)) qs \<Longrightarrow> needs (Seq (Seq r1 r2) r3) qs"
  by (simp add: needs_def)

lemma needs_Epsilon: "needs r qs \<Longrightarrow> needs (Seq Epsilon r) qs"
  by (simp add: needs_def)

lemma needs_Chars: "needs r qs \<Longrightarrow> needs (Seq (Chars w) r) (map (\<lambda>c x. x = c) w @ qs)"
  by (induction w) (auto intro: needs_assoc needs_Class needs_Epsilon)

lemma needs_Times: "needs r qs \<Longrightarrow> needs (Seq (Times n (Class P)) r) (replicate n P @ qs)"
  by (induction n) (auto intro: needs_assoc needs_Class needs_Epsilon)

lemma needs_At_least: "needs (At_least n (Class P)) (replicate n P)"
  using needs_Times [OF needs_Greedy] by simp

definition openai_shape :: "(char \<Rightarrow> bool) list" where
  "openai_shape = map (\<lambda>c x. x = c) ''sk-'' @ replicate 16 key_char"

definition github_shape :: "(char \<Rightarrow> bool) list" where
  "github_shape = map (\<lambda>c x. x = c) ''gh'' @ (\<lambda>c. c \<in> set ''pousr'') # map (\<lambda>c x. x = c) ''_'' @ replicate 16 alnum"

definition slack_shape :: "(char \<Rightarrow> bool) list" where
  "slack_shape = map (\<lambda>c x. x = c) ''xox'' @ (\<lambda>c. c \<in> set ''abprs'') # map (\<lambda>c x. x = c) ''-'' @ replicate 10 slack_char"

lemma shape_classes: "token_classes openai_shape" "token_classes github_shape" "token_classes slack_shape"
proof -
  have "\<not> key_char CHR '' ''" "\<not> key_char CHR ''[''" "\<not> alnum CHR '' ''" "\<not> alnum CHR ''[''"
    "\<not> slack_char CHR '' ''" "\<not> slack_char CHR ''[''" by code_simp+
  then show "token_classes openai_shape" "token_classes github_shape" "token_classes slack_shape"
    by (simp_all add: token_classes_def openai_shape_def github_shape_def slack_shape_def)
qed

lemma token_match:
  assumes "needs r tok" "token_classes tok"
  shows "match_here (Seq Boundary r) p s \<noteq> None \<longleftrightarrow> \<not> edge_word p \<and> fits tok s"
proof -
  have "fits tok s \<Longrightarrow> edge_word s"
  proof -
    assume "fits tok s"
    then have "s \<noteq> []" "hd s \<in> set ''sgx''" using fits_first assms(2) by blast+
    moreover have "list_all word_char ''sgx''" by code_simp
    ultimately show "edge_word s" by (cases s) (auto simp: edge_word_def list_all_iff)
  qed
  moreover have "match_here (Seq Boundary r) p s \<noteq> None \<longleftrightarrow>
      edge_word p \<noteq> edge_word s \<and> ends r \<lparr>passed = p, ahead = s, groups = []\<rparr> \<noteq> []"
    by (simp add: match_here_def split: list.split)
  ultimately show ?thesis using assms(1) unfolding needs_def by auto
qed

text \<open>Searching for a token is asking whether it occurs.\<close>

lemma search_token:
  assumes "needs r tok" "token_classes tok"
  shows "search_from (Seq Boundary r) p s \<longleftrightarrow> occurs tok (edge_word p) s"
proof (induction s arbitrary: p)
  case Nil
  then show ?case using token_match [OF assms, of p "[]"] fits_first [OF assms(2), of "[]"] by auto
next
  case (Cons x s)
  then show ?case using token_match [OF assms, of p "x # s"] Cons.IH [of "x # p"]
    by (simp add: edge_word_def)
qed

lemma token_patterns:
  "\<exists>r. openai_key = Seq Boundary r \<and> needs r openai_shape" "\<exists>r. github_token = Seq Boundary r \<and> needs r github_shape"
  "\<exists>r. slack_token = Seq Boundary r \<and> needs r slack_shape"
  unfolding openai_key_def github_token_def slack_token_def openai_shape_def github_shape_def slack_shape_def Seqs.simps
  by (blast intro: needs_Chars needs_Class needs_At_least)+

definition provider_tokens :: "(regex \<times> (char \<Rightarrow> bool) list) list" where
  "provider_tokens = [(openai_key, openai_shape), (github_token, github_shape), (slack_token, slack_shape)]"

lemma redaction_rules: "\<forall>(name, r, new) \<in> set redact_patterns. redaction_rule r new"
  unfolding redact_patterns_def
  by (simp add: openai.redaction_rule_axioms github.redaction_rule_axioms slack.redaction_rule_axioms
      aws.redaction_rule_axioms web_token.redaction_rule_axioms pem.redaction_rule_axioms
      header.redaction_rule_axioms assignment.redaction_rule_axioms env.redaction_rule_axioms)

lemma redact_step_text: "fst (redact_step tf (name, r, new)) = fst (subn_from r new [] (fst tf))"
  by (simp add: redact_step_def subn_def Let_def split: prod.split)

lemma rules_keep_absent:
  assumes "token_classes tok" "\<forall>(name, r, new) \<in> set rules. redaction_rule r new" "\<not> occurs tok False (fst tf)"
  shows "\<not> occurs tok False (fst (foldl redact_step tf rules))"
  using assms(2,3)
proof (induction rules arbitrary: tf)
  case (Cons rule rules)
  obtain name r new where rule: "rule = (name, r, new)" by (metis prod_cases3)
  have "redaction_rule r new" using Cons.prems(1) rule by simp
  from redaction_rule.no_new_token [OF this assms(1), of False "[]" "fst tf"]
  have "\<not> occurs tok False (fst (redact_step tf rule))"
    using Cons.prems(2) by (simp add: rule redact_step_text edge_word_def)
  then show ?case using Cons.IH Cons.prems(1) by simp
qed simp

lemma token_gone:
  assumes "redact_patterns = before @ (name, Seq Boundary r, drop_all) # after"
    and tok: "token_classes tok" "needs r tok"
  shows "\<not> search (Seq Boundary r) (fst (redact_text s))"
proof -
  have rule: "redaction_rule (Seq Boundary r) drop_all" and after: "\<forall>(name, r, new) \<in> set after. redaction_rule r new"
    using redaction_rules unfolding assms(1) by auto
  define tf where "tf = foldl redact_step (s, []) before"
  have "match_here (Seq Boundary r) p t \<noteq> None" if "\<not> edge_word p" "fits tok t" for p t
    using that token_match [OF tok(2,1)] by blast
  then have "\<not> occurs tok False (fst (redact_step tf (name, Seq Boundary r, drop_all)))"
    using redaction_rule.no_token_left [OF rule tok(1), of False "[]" "fst tf"]
    by (simp add: redact_step_text edge_word_def drop_all_def)
  then have "\<not> occurs tok False (fst (redact_text s))"
    using rules_keep_absent [OF tok(1) after] by (simp add: redact_text_def assms(1) tf_def)
  then show ?thesis using search_token [OF tok(2,1), of "[]"] by (simp add: search_def edge_word_def)
qed

definition token_free :: "string \<Rightarrow> bool" where
  "token_free s \<longleftrightarrow> \<not> search openai_key s \<and> \<not> search github_token s \<and> \<not> search slack_token s"

lemma redact_text_token_free: "token_free (fst (redact_text s))"
proof -
  obtain r1 r2 r3 where r: "openai_key = Seq Boundary r1" "needs r1 openai_shape"
    "github_token = Seq Boundary r2" "needs r2 github_shape" "slack_token = Seq Boundary r3" "needs r3 slack_shape"
    using token_patterns by blast
  have "redact_patterns = [] @ (''openai_key'', Seq Boundary r1, drop_all) # tl redact_patterns"
    and "redact_patterns = take 1 redact_patterns @ (''github_token'', Seq Boundary r2, drop_all) # drop 2 redact_patterns"
    and "redact_patterns = take 2 redact_patterns @ (''slack_token'', Seq Boundary r3, drop_all) # drop 3 redact_patterns"
    by (simp_all add: redact_patterns_def r)
  then show ?thesis unfolding token_free_def r(1,3,5) using token_gone shape_classes r(2,4,6) by metis
qed

section \<open>Payloads\<close>

text \<open>Every string value of a payload, and two payloads of one shape.\<close>

function strings_in :: "pyval \<Rightarrow> string list" where
  "strings_in (PStr s) = [s]"
| "strings_in (PList vs) = concat (map strings_in vs)"
| "strings_in (PDict d) = concat (map (\<lambda>kv. strings_in (snd kv)) d)"
| "strings_in PNone = []"
| "strings_in (PBool b) = []"
| "strings_in (PInt i) = []"
| "strings_in (PFloat x) = []"
  by pat_completeness auto
termination by (relation "measure size") (simp_all add: size_item size_entry)

inductive same_shape :: "pyval \<Rightarrow> pyval \<Rightarrow> bool" where
  same: "same_shape v v"
| words: "same_shape (PStr s) (PStr t)"
| items: "list_all2 same_shape vs ws \<Longrightarrow> same_shape (PList vs) (PList ws)"
| entries: "list_all2 (\<lambda>a b. fst a = fst b \<and> same_shape (snd a) (snd b)) d e \<Longrightarrow> same_shape (PDict d) (PDict e)"

lemma redact_sound: "same_shape v (fst (redact v)) \<and> (\<forall>s \<in> set (strings_in (fst (redact v))). token_free s)"
proof (induction v rule: redact.induct)
  case (5 s)
  then show ?case using redact_text_token_free [of s] by (auto simp: split: prod.split intro: same_shape.words)
next
  case (6 vs)
  then show ?case by (auto simp: list_all2_conv_all_nth o_def intro!: same_shape.items)
next
  case (7 d)
  have redacted: "fst (redact (PDict d)) = PDict (map (\<lambda>kv. (fst kv, fst (redact (snd kv)))) d)" by (simp add: o_def)
  have "list_all2 (\<lambda>a b. fst a = fst b \<and> same_shape (snd a) (snd b)) d (map (\<lambda>kv. (fst kv, fst (redact (snd kv)))) d)"
    using 7 by (simp add: list_all2_conv_all_nth)
  then have "same_shape (PDict d) (fst (redact (PDict d)))" unfolding redacted by (rule same_shape.entries)
  moreover have "\<forall>s \<in> set (strings_in (fst (redact (PDict d)))). token_free s" unfolding redacted using 7 by auto
  ultimately show ?case ..
qed (auto intro: same_shape.same)

text \<open>C13: After redaction no string of a payload, at any depth, matches the pattern of a provider token,
  whatever the later rules rewrote, and keys, lengths and every other value are as they were.\<close>

theorem redaction_keeps_no_token:
  "same_shape v (fst (redact v))
   \<and> list_all (\<lambda>s. \<not> search openai_key s \<and> \<not> search github_token s \<and> \<not> search slack_token s)
       (strings_in (fst (redact v)))"
  using redact_sound [of v] by (simp add: list_all_iff token_free_def)

end
