(* ===== verification/Supervision.thy ===== *)
theory Supervision
  imports Gates Effect_Ledger
begin

text \<open>
  Model of \<open>src/spotter/core.py\<close>, of the adapter boundary \<open>src/spotter/adapters.py\<close> and of the
  in-memory adapter \<open>src/spotter/codex.py\<close>: one event is judged, recorded, and in
  observation-only mode a block is recorded instead of enforced. The operation that records an
  event is an argument; what every adapter promises about it is the locale \<open>event_sink\<close>.
  The random identifier of a block event is an argument.
\<close>

section \<open>Observing an event\<close>

definition gate_payload :: "gate_decision \<Rightarrow> trace_event \<Rightarrow> payload" where
  "gate_payload d e =
     (let p = ev_payload e in
      [(''rule'', str_value (gd_rule d)), (''rule_version'', PInt gate_rule_version), (''reason'', str_value (gd_reason d)),
       (''tool_use_id'', get p ''tool_use_id''), (''tool'', get p ''tool''),
       (''reversibility_class'', get p ''reversibility_class''), (''effect_kind'', get p ''effect_kind''),
       (''resource'', get p ''resource''), (''effect_classifier'', get p ''effect_classifier''),
       (''effect_reason'', get p ''effect_reason''), (''effect_confidence'', get p ''effect_confidence''),
       (''semantic_operation'', get p ''semantic_operation'')])"

definition block_event :: "string \<Rightarrow> string \<Rightarrow> payload \<Rightarrow> trace_event" where
  "block_event hex kind p =
     (let supervision = ''spt-block-'' @ take 12 hex in
      (plain_event kind)\<lparr>ev_payload := dset ''supervision_event_id'' (PStr supervision) p,
        ev_id := Some (''spotter:supervision:'' @ supervision)\<rparr>)"

definition named_rule :: "gate_decision \<Rightarrow> bool" where
  "named_rule d = (case gd_rule d of Some rule \<Rightarrow> rule \<noteq> [] | None \<Rightarrow> False)"

definition observe ::
  "(trace_event \<Rightarrow> 's \<Rightarrow> 's result) \<Rightarrow> machine \<Rightarrow> gate \<Rightarrow> bool \<Rightarrow> string \<Rightarrow> trace_event \<Rightarrow> gate_decision option \<Rightarrow> 's
   \<Rightarrow> (gate_decision \<times> 's) result" where
  "observe put_event m g observation_only hex e decision s =
     (let d = (case decision of None \<Rightarrow> check_event m g e | Some d \<Rightarrow> d) in
      rbind (put_event e s) (\<lambda>s1.
      rbind (case effect_event e of None \<Rightarrow> Inr s1 | Some effect \<Rightarrow> put_event effect s1) (\<lambda>s2.
      if gd_allowed d then
        if named_rule d
        then rbind (put_event ((plain_event ''gate_fail_open'')\<lparr>ev_payload := gate_payload d e\<rparr>) s2) (\<lambda>s3. Inr (d, s3))
        else Inr (d, s2)
      else if observation_only
      then rbind (put_event (block_event hex ''gate_shadow_block'' (gate_payload d e)) s2) (\<lambda>s3. Inr (allow, s3))
      else rbind (put_event (block_event hex ''gate_block'' (gate_payload d e)) s2) (\<lambda>s3. Inr (d, s3)))))"

section \<open>Adapters\<close>

text \<open>
  The boundary \<open>AgentAdapter\<close>: recording an event an adapter takes succeeds, keeps everything recorded
  before and adds one event of the same kind and identifier.
\<close>

locale event_sink =
  fixes put_event :: "trace_event \<Rightarrow> 's \<Rightarrow> 's result"
    and seen :: "'s \<Rightarrow> trace_event list"
    and ok :: "'s \<Rightarrow> bool"
    and takes :: "trace_event \<Rightarrow> bool"
  assumes record_law: "ok s \<Longrightarrow> takes e \<Longrightarrow>
      \<exists>s' e'. put_event e s = Inr s' \<and> ok s' \<and> seen s' = seen s @ [e'] \<and> ev_kind e' = ev_kind e \<and> ev_id e' = ev_id e"
    and takes_unstamped: "ev_arrival e = None \<Longrightarrow> ev_monotonic e = None \<Longrightarrow> takes e"
begin

definition mark :: "trace_event \<Rightarrow> string \<times> string option" where
  "mark e = (ev_kind e, ev_id e)"

lemma recordE:
  assumes "ok s" "takes e"
  obtains s' where "put_event e s = Inr s'" "ok s'" "map mark (seen s') = map mark (seen s) @ [mark e]"
  using record_law [OF assms] by (auto simp: mark_def)

lemma takes_unstamped_events:
  "takes (block_event hex kind p)" "takes ((plain_event kind)\<lparr>ev_payload := p\<rparr>)" "effect_event e = Some f \<Longrightarrow> takes f"
  by (auto intro!: takes_unstamped simp: block_event_def plain_event_def effect_event_def Let_def split: if_splits)

end

text \<open>What observing an event leaves behind, as kinds and identifiers: the event, its effect, and the gate's
  verdict when there is one to tell.\<close>

definition verdict_marks :: "bool \<Rightarrow> string \<Rightarrow> gate_decision \<Rightarrow> (string \<times> string option) list" where
  "verdict_marks observation_only hex d =
     (if gd_allowed d then if named_rule d then [(''gate_fail_open'', None)] else []
      else [(if observation_only then ''gate_shadow_block'' else ''gate_block'',
             Some (''spotter:supervision:spt-block-'' @ take 12 hex))])"

definition observed_marks :: "bool \<Rightarrow> string \<Rightarrow> gate_decision \<Rightarrow> trace_event \<Rightarrow> (string \<times> string option) list" where
  "observed_marks observation_only hex d e =
     [(ev_kind e, ev_id e)] @ (case effect_event e of None \<Rightarrow> [] | Some f \<Rightarrow> [(ev_kind f, ev_id f)])
     @ verdict_marks observation_only hex d"

context event_sink
begin

lemma observe_returns:
  assumes "ok s" "takes e" and d_def: "d = (case decision of None \<Rightarrow> check_event m g e | Some d \<Rightarrow> d)"
  shows "\<exists>s'. observe put_event m g observation_only hex e decision s =
      Inr (if gd_allowed d \<or> \<not> observation_only then d else allow, s')
    \<and> ok s' \<and> map mark (seen s') = map mark (seen s) @ observed_marks observation_only hex d e"
proof -
  obtain s1 where s1: "put_event e s = Inr s1" "ok s1" "map mark (seen s1) = map mark (seen s) @ [mark e]"
    using recordE assms(1,2) .
  obtain s2 where s2: "(case effect_event e of None \<Rightarrow> Inr s1 | Some f \<Rightarrow> put_event f s1) = Inr s2" "ok s2"
    "map mark (seen s2) = map mark (seen s1) @ (case effect_event e of None \<Rightarrow> [] | Some f \<Rightarrow> [mark f])"
  proof (cases "effect_event e")
    case (Some f)
    then show ?thesis using recordE [OF s1(2) takes_unstamped_events(3) [OF Some]] that by auto
  qed (use s1 that in auto)
  have marks: "observed_marks observation_only hex d e
      = [mark e] @ (case effect_event e of None \<Rightarrow> [] | Some f \<Rightarrow> [mark f]) @ verdict_marks observation_only hex d"
    by (simp add: observed_marks_def mark_def split: option.split)
  let ?event = "if gd_allowed d then (plain_event ''gate_fail_open'')\<lparr>ev_payload := gate_payload d e\<rparr>
    else block_event hex (if observation_only then ''gate_shadow_block'' else ''gate_block'') (gate_payload d e)"
  have "takes ?event" using takes_unstamped_events(1,2) by (cases "gd_allowed d") (simp_all only: if_True if_False)
  then obtain s3 where s3: "put_event ?event s2 = Inr s3" "ok s3" "map mark (seen s3) = map mark (seen s2) @ [mark ?event]"
    using recordE [OF s2(2)] by blast
  show ?thesis
  proof (cases "gd_allowed d \<and> \<not> named_rule d")
    case True
    then have "observe put_event m g observation_only hex e decision s = Inr (d, s2)"
      using s1(1) s2(1) unfolding observe_def d_def [symmetric] Let_def by simp
    then show ?thesis using True s1 s2 marks by (simp add: verdict_marks_def)
  next
    case False
    then have "observe put_event m g observation_only hex e decision s =
        Inr (if gd_allowed d \<or> \<not> observation_only then d else allow, s3)"
      using s1(1) s2(1) s3(1) unfolding observe_def d_def [symmetric] Let_def by (simp split: if_splits)
    moreover have "[mark ?event] = verdict_marks observation_only hex d"
      using False by (simp add: verdict_marks_def mark_def block_event_def plain_event_def Let_def)
    ultimately show ?thesis using s1 s2 s3 marks by simp
  qed
qed

end

text \<open>\<open>CodexAdapter\<close>: the events in a list.\<close>

definition codex_record :: "trace_event \<Rightarrow> trace_event list \<Rightarrow> trace_event list result" where
  "codex_record e events = Inr (events @ [e])"

interpretation codex: event_sink codex_record "\<lambda>events. events" "\<lambda>_. True" "\<lambda>_. True"
  by unfold_locales (auto simp: codex_record_def)

end
