(* ===== verification/Journal.thy ===== *)
theory Journal
  imports Redact Thread_State
begin

text \<open>
  Model of the journal in \<open>src/spotter/snapshot.py\<close>: the append-only file of step records,
  its sidecar that caches the counts, and the reader that keeps the prefix before a torn tail.
  A line of the file is what \<open>json.loads\<close> reads there, with its length in bytes and whether it is
  ended by a newline; that a written value reads back as itself is assumed. The clock readings
  and the length of an encoded line are arguments.
\<close>

section \<open>Files\<close>

text \<open>Blank, a JSON value, text that is no JSON, bytes that are no UTF-8.\<close>

datatype content = White | Json pyval | Garbage | Undecodable

record line =
  l_content :: content
  l_bytes :: nat
  l_ended :: bool

definition file_size :: "line list \<Rightarrow> nat" where
  "file_size f = sum_list (map l_bytes f)"

text \<open>Appending a JSON object to a file continues its last line when that one is not ended. A value
  followed by an object is no JSON, nor is an unfinished text continued by one.\<close>

definition continued :: "content \<Rightarrow> pyval \<Rightarrow> content" where
  "continued c v = (case c of White \<Rightarrow> Json v | Json _ \<Rightarrow> Garbage | Garbage \<Rightarrow> Garbage | Undecodable \<Rightarrow> Undecodable)"

definition append_line :: "pyval \<Rightarrow> nat \<Rightarrow> line list \<Rightarrow> line list" where
  "append_line v n f =
     (if f = [] \<or> l_ended (last f) then f @ [\<lparr>l_content = Json v, l_bytes = n, l_ended = True\<rparr>]
      else butlast f @ [\<lparr>l_content = continued (l_content (last f)) v, l_bytes = l_bytes (last f) + n, l_ended = True\<rparr>])"

section \<open>Events as JSON\<close>

definition schema_version :: int where
  "schema_version = 1"

definition journal_schema :: string where
  "journal_schema = ''spotter.trace_event''"

definition optional_entry :: "string \<Rightarrow> pyval option \<Rightarrow> payload" where
  "optional_entry name v = (case v of None \<Rightarrow> [] | Some x \<Rightarrow> [(name, x)])"

definition opt_str :: "string option \<Rightarrow> pyval" where
  "opt_str s = (case s of None \<Rightarrow> PNone | Some t \<Rightarrow> PStr t)"

definition identity_metadata :: "runtime_identity \<Rightarrow> payload" where
  "identity_metadata i =
     (let p = ri_provenance i in
      [(''thread_id'', opt_str (map_option thread_value (ri_thread i))),
       (''turn_id'', opt_str (map_option turn_value (ri_turn i))),
       (''attachment_id'', opt_str (map_option attachment_value (ri_attachment i))),
       (''agent'', PStr (prov_agent p)), (''agent_thread_id'', opt_str (prov_thread p)),
       (''agent_turn_id'', opt_str (prov_turn p)), (''agent_attachment_id'', opt_str (prov_attachment p)),
       (''legacy_session_id'', opt_str (prov_legacy_session p))])"

definition trace_metadata :: "trace_event \<Rightarrow> payload" where
  "trace_metadata e =
     optional_entry ''event_id'' (map_option PStr (ev_id e)) @ optional_entry ''occurred_at'' (map_option PFloat (ev_at e))
     @ optional_entry ''operation_id'' (map_option PStr (ev_operation e)) @ optional_entry ''item_id'' (map_option PStr (ev_item e))
     @ optional_entry ''connection_epoch'' (map_option PInt (ev_epoch e)) @ optional_entry ''arrival_seq'' (map_option PInt (ev_arrival e))
     @ optional_entry ''observed_monotonic_ns'' (map_option PInt (ev_monotonic e))
     @ optional_entry ''monotonic_clock_id'' (map_option PStr (ev_clock e))
     @ optional_entry ''config_generation'' (map_option PStr (ev_config e))
     @ optional_entry ''provenance'' (map_option (\<lambda>p. PDict [(''source'', PStr (tp_source p)), (''method'', opt_str (tp_method p))])
         (ev_provenance e))
     @ optional_entry ''identity'' (map_option (\<lambda>i. PDict (identity_metadata i)) (ev_identity e))"

definition dict_or_empty :: "pyval \<Rightarrow> payload" where
  "dict_or_empty v = (case v of PDict d \<Rightarrow> d | _ \<Rightarrow> [])"

definition read_identity :: "pyval \<Rightarrow> runtime_identity option" where
  "read_identity v =
     (case v of
        PDict d \<Rightarrow>
          (case get d ''agent'' of
             PStr agent \<Rightarrow>
               Some \<lparr>ri_thread = map_option ThreadId (as_str (get d ''thread_id'')),
                 ri_turn = map_option TurnId (as_str (get d ''turn_id'')),
                 ri_attachment = map_option AttachmentId (as_str (get d ''attachment_id'')),
                 ri_provenance = \<lparr>prov_agent = agent, prov_thread = as_str (get d ''agent_thread_id''),
                   prov_turn = as_str (get d ''agent_turn_id''), prov_attachment = as_str (get d ''agent_attachment_id''),
                   prov_legacy_session = as_str (get d ''legacy_session_id'')\<rparr>\<rparr>
           | _ \<Rightarrow> None)
      | _ \<Rightarrow> None)"

definition read_provenance :: "pyval \<Rightarrow> trace_provenance option" where
  "read_provenance v =
     (case v of
        PDict d \<Rightarrow> (case get d ''source'' of PStr source \<Rightarrow> Some \<lparr>tp_source = source, tp_method = as_str (get d ''method'')\<rparr>
                    | _ \<Rightarrow> None)
      | _ \<Rightarrow> None)"

text \<open>\<open>float(v) if isinstance(v, int | float) else None\<close>.\<close>

definition read_float :: "pyval \<Rightarrow> float64 option result" where
  "read_float v =
     (case v of
        PFloat x \<Rightarrow> Inr (Some x)
      | PInt i \<Rightarrow> rbind (float_of_int i) (\<lambda>x. Inr (Some x))
      | PBool b \<Rightarrow> Inr (Some (Fin (if b then 1 else 0)))
      | _ \<Rightarrow> Inr None)"

text \<open>\<open>dict(v or {})\<close> of a JSON value; of the lists only the empty one is taken for a mapping.\<close>

definition read_payload :: "pyval \<Rightarrow> payload result" where
  "read_payload v = (if \<not> truthy v then Inr [] else case v of PDict d \<Rightarrow> Inr d | _ \<Rightarrow> Inl TypeError)"

definition only :: "(int \<Rightarrow> bool) \<Rightarrow> int option \<Rightarrow> int option" where
  "only P v = (case v of Some i \<Rightarrow> if P i then Some i else None | None \<Rightarrow> None)"

definition read_event :: "payload \<Rightarrow> trace_event result" where
  "read_event raw =
     (let m = dict_or_empty (get raw ''trace'') in
      case dget raw ''kind'' of
        None \<Rightarrow> Inl KeyError
      | Some kind \<Rightarrow>
          rbind (read_payload (get raw ''payload'')) (\<lambda>p.
          rbind (read_float (get m ''occurred_at'')) (\<lambda>occurred.
          Inr \<lparr>ev_kind = py_str kind, ev_payload = p, ev_id = as_str (get m ''event_id''), ev_at = occurred,
            ev_identity = read_identity (get m ''identity''), ev_operation = as_str (get m ''operation_id''),
            ev_item = as_str (get m ''item_id''), ev_provenance = read_provenance (get m ''provenance''),
            ev_epoch = as_int (get m ''connection_epoch''), ev_arrival = only (\<lambda>i. 0 < i) (as_int (get m ''arrival_seq'')),
            ev_monotonic = only (\<lambda>i. 0 \<le> i) (as_int (get m ''observed_monotonic_ns'')),
            ev_clock = as_str (get m ''monotonic_clock_id''), ev_config = as_str (get m ''config_generation'')\<rparr>)))"

section \<open>Reading\<close>

definition at_byte :: "nat \<Rightarrow> string" where
  "at_byte offset = '' at byte '' @ dec_nat offset"

definition as_version :: "pyval \<Rightarrow> nat \<Rightarrow> int result" where
  "as_version v offset =
     (case v of
        PNone \<Rightarrow> Inr 0
      | PInt i \<Rightarrow>
          if i > schema_version
          then Inl (SnapshotError (''journal record'' @ at_byte offset @ '' was written by schema v'' @ dec_int i
            @ ''; this build understands up to v'' @ dec_int schema_version))
          else Inr i
      | _ \<Rightarrow> Inl (SnapshotError (''journal record'' @ at_byte offset @ '' has a non-integer version'')))"

definition record_version :: "payload \<Rightarrow> nat \<Rightarrow> int result" where
  "record_version raw offset =
     rbind (as_version (get raw ''v'') offset) (\<lambda>version.
       let schema = get raw ''schema''; sv = get raw ''schema_version'' in
       if schema = PNone \<and> sv = PNone then Inr version
       else if schema \<noteq> PStr journal_schema
       then Inl (SnapshotError (''journal record'' @ at_byte offset @ '' uses unsupported schema '' @ py_repr schema))
       else case as_int sv of
         None \<Rightarrow> Inl (SnapshotError (''journal record'' @ at_byte offset @ '' has a non-integer schema version''))
       | Some i \<Rightarrow>
           if i \<noteq> version
           then Inl (SnapshotError (''journal record'' @ at_byte offset @ '' has mismatched schema versions''))
           else Inr version)"

definition read_record :: "nat \<Rightarrow> nat \<Rightarrow> pyval \<Rightarrow> step_record result" where
  "read_record offset step v =
     (case v of
        PDict raw \<Rightarrow>
          if \<not> num_eq (get raw ''step'') (int step)
          then Inl (SnapshotError (''journal step mismatch: expected '' @ dec_nat step @ '', got '' @ py_repr (get raw ''step'')))
          else
            rbind (record_version raw offset) (\<lambda>version.
            rbind (read_event raw) (\<lambda>event.
            rbind (read_float (get raw ''at'')) (\<lambda>at_time.
            Inr \<lparr>sr_step = int step, sr_event = event, sr_snapshot = as_str (get raw ''snapshot''), sr_at = at_time,
              sr_version = version\<rparr>)))
      | _ \<Rightarrow> Inl (SnapshotError (''invalid journal record'' @ at_byte offset)))"

text \<open>\<open>StepJournal.load\<close>: the records, and the lines the file keeps (all of them, but for a torn tail that
  \<open>repair_tail\<close> truncates).\<close>

fun load_from :: "bool \<Rightarrow> bool \<Rightarrow> nat \<Rightarrow> nat \<Rightarrow> line list \<Rightarrow> (step_record list \<times> line list) result" where
  "load_from repair strict offset step [] = Inr ([], [])"
| "load_from repair strict offset step (l # f) =
     (case l_content l of
        Undecodable \<Rightarrow> Inl UnicodeDecodeError
      | White \<Rightarrow>
          rbind (load_from repair strict (offset + l_bytes l) step f) (\<lambda>(rs, kept). Inr (rs, l # kept))
      | Garbage \<Rightarrow>
          if strict then Inl (SnapshotError (''undecodable journal content'' @ at_byte offset @ '' (torn tail?)''))
          else if l_ended l then Inl (SnapshotError (''invalid journal record'' @ at_byte offset))
          else Inr ([], if repair then [] else l # f)
      | Json v \<Rightarrow>
          rbind (read_record offset step v) (\<lambda>r.
          rbind (load_from repair strict (offset + l_bytes l) (Suc step) f) (\<lambda>(rs, kept). Inr (r # rs, l # kept))))"

definition load_journal :: "bool \<Rightarrow> bool \<Rightarrow> line list \<Rightarrow> (step_record list \<times> line list) result" where
  "load_journal repair strict f = load_from repair strict 0 0 f"

definition journal_prefix :: "step_record list \<Rightarrow> int \<Rightarrow> step_record list" where
  "journal_prefix records branch = filter (\<lambda>r. sr_step r < branch) records"

section \<open>The sidecar\<close>

record counts =
  n_steps :: int
  n_proposals :: int
  n_snapshot :: "string option"

definition journal_state_schema :: string where
  "journal_state_schema = ''spotter.journal_state''"

definition state_schema_version :: int where
  "state_schema_version = 1"

definition count_value :: "pyval \<Rightarrow> int option" where
  "count_value v = only (\<lambda>i. 0 \<le> i) (as_int v)"

text \<open>\<open>_load_state_cache\<close>: what the sidecar holds, if it is well formed and of this size; \<open>None\<close> stands for
  a sidecar that cannot be read.\<close>

definition load_state_cache :: "pyval option \<Rightarrow> nat \<Rightarrow> counts option" where
  "load_state_cache sidecar bytes =
     (case sidecar of
        Some (PDict d) \<Rightarrow>
          if \<not> num_eq (get d ''size'') (int bytes) then None
          else if get d ''schema'' \<noteq> PStr journal_state_schema \<or> \<not> num_eq (get d ''schema_version'') state_schema_version
            \<or> \<not> num_eq (get d ''journal_schema_version'') schema_version then None
          else case (count_value (get d ''steps''), count_value (get d ''proposals''), get d ''last_snapshot'') of
            (Some n, Some k, PNone) \<Rightarrow> Some \<lparr>n_steps = n, n_proposals = k, n_snapshot = None\<rparr>
          | (Some n, Some k, PStr sha) \<Rightarrow> Some \<lparr>n_steps = n, n_proposals = k, n_snapshot = Some sha\<rparr>
          | _ \<Rightarrow> None
      | _ \<Rightarrow> None)"

definition state_value :: "counts \<Rightarrow> nat \<Rightarrow> pyval" where
  "state_value c bytes =
     PDict [(''schema'', PStr journal_state_schema), (''schema_version'', PInt state_schema_version),
       (''journal_schema_version'', PInt schema_version), (''steps'', PInt (n_steps c)), (''proposals'', PInt (n_proposals c)),
       (''last_snapshot'', opt_str (n_snapshot c)), (''size'', PInt (int bytes))]"

definition is_proposal :: "step_record \<Rightarrow> bool" where
  "is_proposal r = (ev_kind (sr_event r) = ''tool_proposal'')"

definition held_snapshot :: "step_record \<Rightarrow> string option" where
  "held_snapshot r = (case sr_snapshot r of Some sha \<Rightarrow> if sha = [] then None else Some sha | None \<Rightarrow> None)"

fun latest_snapshot :: "step_record list \<Rightarrow> string option" where
  "latest_snapshot [] = None"
| "latest_snapshot (r # rs) = (case latest_snapshot rs of Some sha \<Rightarrow> Some sha | None \<Rightarrow> held_snapshot r)"

definition recount :: "step_record list \<Rightarrow> counts" where
  "recount records = \<lparr>n_steps = int (length records), n_proposals = int (length (filter is_proposal records)),
     n_snapshot = latest_snapshot records\<rparr>"

section \<open>Recording\<close>

text \<open>The journal file, if it exists, and its sidecar.\<close>

record journal =
  j_file :: "line list option"
  j_state :: "pyval option"

record receipt =
  rc_wall :: float64
  rc_monotonic :: int
  rc_clock :: string

definition journal_size :: "journal \<Rightarrow> nat" where
  "journal_size j = (case j_file j of None \<Rightarrow> 0 | Some f \<Rightarrow> file_size f)"

text \<open>The counts a record starts from, and the file after a torn tail is repaired.\<close>

definition current_counts :: "journal \<Rightarrow> (counts \<times> line list) result" where
  "current_counts j =
     (case j_file j of
        None \<Rightarrow> Inr (recount [], [])
      | Some f \<Rightarrow>
          (case load_state_cache (j_state j) (file_size f) of
             Some c \<Rightarrow> Inr (c, f)
           | None \<Rightarrow> rbind (load_journal True False f) (\<lambda>(records, kept). Inr (recount records, kept))))"

definition stored_payload :: "trace_event \<Rightarrow> int \<Rightarrow> payload" where
  "stored_payload e proposals =
     (let (redacted, fired) = redact (PDict (ev_payload e));
          p = dict_or_empty redacted;
          p' = (if fired = [] then p else dset ''redacted'' (PList (map PStr (sorted_set fired))) p)
      in if ev_kind e = ''tool_proposal'' then dset ''proposal_number'' (PInt (proposals + 1)) p' else p')"

definition stored_event :: "receipt \<Rightarrow> trace_event \<Rightarrow> int \<Rightarrow> trace_event" where
  "stored_event clock e proposals =
     (let (mono, domain) =
        (case (ev_monotonic e, ev_clock e) of (Some n, Some c) \<Rightarrow> (n, c) | _ \<Rightarrow> (rc_monotonic clock, rc_clock clock))
      in e\<lparr>ev_payload := stored_payload e proposals, ev_monotonic := Some mono, ev_clock := Some domain\<rparr>)"

definition record_value :: "step_record \<Rightarrow> pyval" where
  "record_value r =
     PDict [(''schema'', PStr journal_schema), (''schema_version'', PInt schema_version), (''v'', PInt (sr_version r)),
       (''step'', PInt (sr_step r)), (''at'', (case sr_at r of None \<Rightarrow> PNone | Some x \<Rightarrow> PFloat x)),
       (''kind'', PStr (ev_kind (sr_event r))), (''payload'', PDict (ev_payload (sr_event r))),
       (''trace'', PDict (trace_metadata (sr_event r))), (''snapshot'', opt_str (sr_snapshot r))]"

definition bump :: "trace_event \<Rightarrow> string option \<Rightarrow> counts \<Rightarrow> counts" where
  "bump e snap c =
     \<lparr>n_steps = n_steps c + 1,
      n_proposals = (if ev_kind e = ''tool_proposal'' then n_proposals c + 1 else n_proposals c),
      n_snapshot = (case snap of Some sha \<Rightarrow> if sha = [] then n_snapshot c else Some sha | None \<Rightarrow> n_snapshot c)\<rparr>"

definition record_event ::
  "(pyval \<Rightarrow> nat) \<Rightarrow> receipt \<Rightarrow> trace_event \<Rightarrow> string option \<Rightarrow> float64 option \<Rightarrow> journal \<Rightarrow> (journal \<times> step_record) result" where
  "record_event bytes clock e snap observed_at j =
     rbind (current_counts j) (\<lambda>(c, f).
       let r = \<lparr>sr_step = n_steps c, sr_event = stored_event clock e (n_proposals c), sr_snapshot = snap,
                 sr_at = Some (case observed_at of Some x \<Rightarrow> x | None \<Rightarrow> rc_wall clock), sr_version = schema_version\<rparr>;
           f' = append_line (record_value r) (bytes (record_value r)) f
       in Inr (\<lparr>j_file = Some f', j_state = Some (state_value (bump e snap c) (file_size f'))\<rparr>, r))"

text \<open>\<open>last_snapshot\<close>: from a fresh sidecar, nothing otherwise.\<close>

definition last_snapshot :: "journal \<Rightarrow> string option" where
  "last_snapshot j =
     (case j_file j of
        None \<Rightarrow> None
      | Some f \<Rightarrow>
          (case load_state_cache (j_state j) (file_size f) of
             None \<Rightarrow> None
           | Some c \<Rightarrow> (case n_snapshot c of Some sha \<Rightarrow> if sha = [] then None else Some sha | None \<Rightarrow> None)))"

section \<open>Snapshots the journals hold\<close>

definition checkpoint_of :: "string \<Rightarrow> step_record \<Rightarrow> string list result" where
  "checkpoint_of name r =
     (case get (ev_payload (sr_event r)) ''checkpoint'' of
        PNone \<Rightarrow> Inr []
      | PStr sha \<Rightarrow>
          if sha = [] then Inl (SnapshotError (''invalid recovery checkpoint in '' @ name @ '' step '' @ dec_int (sr_step r)))
          else Inr [sha]
      | _ \<Rightarrow> Inl (SnapshotError (''invalid recovery checkpoint in '' @ name @ '' step '' @ dec_int (sr_step r))))"

text \<open>The roots one record holds, if it may belong to the repository asked for.\<close>

definition record_roots :: "(string \<Rightarrow> string) \<Rightarrow> string option \<Rightarrow> string \<Rightarrow> step_record \<Rightarrow> string list result" where
  "record_roots resolve repo name r =
     rbind (checkpoint_of name r) (\<lambda>checkpoint.
       let roots = dedup ((case held_snapshot r of Some sha \<Rightarrow> [sha] | None \<Rightarrow> []) @ checkpoint) in
       Inr (case (repo, get (ev_payload (sr_event r)) ''cwd'') of
          (Some target, PStr cwd) \<Rightarrow> if cwd = [] \<or> resolve cwd = target then roots else []
        | _ \<Rightarrow> roots))"

definition hold :: "string \<Rightarrow> string \<Rightarrow> int \<Rightarrow> (string, (string \<times> int) list) dict \<Rightarrow> (string, (string \<times> int) list) dict" where
  "hold session sha step d = dset sha ((case dget d sha of None \<Rightarrow> [] | Some hs \<Rightarrow> hs) @ [(session, step)]) d"

fun note_records ::
  "(string \<Rightarrow> string) \<Rightarrow> string option \<Rightarrow> string \<Rightarrow> string \<Rightarrow> (string, (string \<times> int) list) dict \<Rightarrow> step_record list
   \<Rightarrow> (string, (string \<times> int) list) dict result" where
  "note_records resolve repo name session d [] = Inr d"
| "note_records resolve repo name session d (r # rs) =
     rbind (record_roots resolve repo name r) (\<lambda>roots.
       note_records resolve repo name session (foldl (\<lambda>d sha. hold session sha (sr_step r) d) d roots) rs)"

text \<open>\<open>snapshot_references\<close>: the journals in order as (file name, stem, resolved path, lines), those being
  deleted left out; a journal that cannot be read to its end makes the whole scan fail.\<close>

fun snapshot_references ::
  "(string \<Rightarrow> string) \<Rightarrow> string option \<Rightarrow> string list \<Rightarrow> (string, (string \<times> int) list) dict
   \<Rightarrow> (string \<times> string \<times> string \<times> line list) list \<Rightarrow> (string, (string \<times> int) list) dict result" where
  "snapshot_references resolve repo skip d [] = Inr d"
| "snapshot_references resolve repo skip d ((name, session, path, f) # js) =
     (if path \<in> set skip then snapshot_references resolve repo skip d js
      else rbind (load_journal False True f) (\<lambda>(records, _).
           rbind (note_records resolve repo name session d records) (\<lambda>d'.
             snapshot_references resolve repo skip d' js)))"

text \<open>\<open>prune_snapshots\<close>: the verdict on one line (reference, sha, date) of \<open>git for-each-ref\<close>; the references
  it answers with are deleted in one transaction.\<close>

definition steps_ref :: string where
  "steps_ref = ''refs/spotter/steps/''"

definition prune_verdict :: "string list \<Rightarrow> string list \<Rightarrow> int option \<Rightarrow> string \<times> string \<times> string \<Rightarrow> (string \<times> string \<times> string) option" where
  "prune_verdict referenced protected cutoff l =
     (let (refname, sha, committed) = l in
      if \<not> startswith refname steps_ref \<or> sha = [] then None
      else if sha \<in> set protected then None
      else if sha \<notin> set referenced then Some (refname, sha, ''unreferenced'')
      else case cutoff of
          Some c \<Rightarrow> if committed \<noteq> [] \<and> list_all is_digit committed \<and> int_of_dec committed < c
                    then Some (refname, sha, ''expired'') else None
        | None \<Rightarrow> None)"

definition prune_snapshots ::
  "(string \<times> string \<times> string) list \<Rightarrow> string list \<Rightarrow> string list \<Rightarrow> int option \<Rightarrow> int \<Rightarrow> (string \<times> string \<times> string) list" where
  "prune_snapshots refs referenced protected max_age_days now =
     List.map_filter (prune_verdict referenced protected (map_option (\<lambda>days. now - days * 86400) max_age_days)) refs"

end
