(* ===== verification/Journal_Claims.thy ===== *)
theory Journal_Claims
  imports Journal
begin

text \<open>
  What the journal promises: a recorded step reads back as it was stored, the sidecar never
  changes what is recorded, a torn tail costs nothing but the torn record, and proposals are
  numbered without gaps. Last, the two tears that are not repaired.
\<close>

section \<open>Round trip of a record\<close>

lemma get_Cons [simp]: "get ((k, v) # d) k' = (if k = k' then v else get d k')"
  by (simp add: get_def dget_def)

lemma get_Nil [simp]: "get [] k = PNone"
  by (simp add: get_def dget_def)

lemma get_entry: "get (optional_entry a v @ d) k = (if a = k then (case v of Some x \<Rightarrow> x | None \<Rightarrow> get d k) else get d k)"
  by (auto simp: optional_entry_def split: option.split)

lemma get_last_entry: "get (optional_entry a v) k = (if a = k then (case v of Some x \<Rightarrow> x | None \<Rightarrow> PNone) else PNone)"
  using get_entry [of a v "[]" k] by (cases v) simp_all

lemma as_str_opt [simp]: "as_str (opt_str s) = s"
  by (cases s) (simp_all add: opt_str_def as_str_def)

lemma as_none [simp]: "as_str PNone = None" "as_int PNone = None"
  by (simp_all add: as_str_def as_int_def)

lemma map_option_id: "map_option ThreadId (map_option thread_value t) = t"
  "map_option TurnId (map_option turn_value u) = u" "map_option AttachmentId (map_option attachment_value a) = a"
  by (simp_all add: option.map_comp o_def option.map_ident)

lemma read_identity_metadata: "read_identity (PDict (identity_metadata i)) = Some i"
  by (simp add: read_identity_def identity_metadata_def Let_def map_option_id)

lemma read_provenance_metadata: "read_provenance (PDict [(''source'', PStr (tp_source p)), (''method'', opt_str (tp_method p))]) = Some p"
  by (simp add: read_provenance_def)

text \<open>Only a positive arrival number and a clock reading that is not negative come back.\<close>

definition normal_event :: "trace_event \<Rightarrow> bool" where
  "normal_event e \<longleftrightarrow> only (\<lambda>i. 0 < i) (ev_arrival e) = ev_arrival e \<and> only (\<lambda>i. 0 \<le> i) (ev_monotonic e) = ev_monotonic e"

lemma read_event_value:
  assumes "normal_event e" and "get raw ''trace'' = PDict (trace_metadata e)" and "dget raw ''kind'' = Some (PStr (ev_kind e))"
    and "get raw ''payload'' = PDict (ev_payload e)"
  shows "read_event raw = Inr e"
proof -
  have "read_payload (PDict (ev_payload e)) = Inr (ev_payload e)" by (simp add: read_payload_def truthy_def)
  moreover have "as_str (get (trace_metadata e) ''event_id'') = ev_id e"
    "as_str (get (trace_metadata e) ''operation_id'') = ev_operation e"
    "as_str (get (trace_metadata e) ''item_id'') = ev_item e"
    "as_int (get (trace_metadata e) ''connection_epoch'') = ev_epoch e"
    "as_int (get (trace_metadata e) ''arrival_seq'') = ev_arrival e"
    "as_int (get (trace_metadata e) ''observed_monotonic_ns'') = ev_monotonic e"
    "as_str (get (trace_metadata e) ''monotonic_clock_id'') = ev_clock e"
    "as_str (get (trace_metadata e) ''config_generation'') = ev_config e"
    by (simp_all add: trace_metadata_def get_entry get_last_entry split: option.split)
  moreover have "read_float (get (trace_metadata e) ''occurred_at'') = Inr (ev_at e)"
    by (simp add: trace_metadata_def get_entry get_last_entry read_float_def split: option.split)
  moreover have "read_provenance (get (trace_metadata e) ''provenance'') = ev_provenance e"
    by (simp add: trace_metadata_def get_entry get_last_entry read_provenance_metadata split: option.split)
      (simp add: read_provenance_def)
  moreover have "read_identity (get (trace_metadata e) ''identity'') = ev_identity e"
    by (simp add: trace_metadata_def get_entry get_last_entry read_identity_metadata split: option.split)
      (simp add: read_identity_def)
  ultimately show ?thesis using assms
    by (simp add: read_event_def dict_or_empty_def normal_event_def py_str_def)
qed

lemma read_record_value:
  assumes "normal_event (sr_event r)" "sr_version r = schema_version" "sr_step r = int step" "sr_at r \<noteq> None"
  shows "read_record offset step (record_value r) = Inr r"
proof -
  obtain d where d: "record_value r = PDict d" by (simp add: record_value_def)
  have got: "get d ''step'' = PInt (sr_step r)" "get d ''v'' = PInt (sr_version r)" "get d ''schema'' = PStr journal_schema"
    "get d ''schema_version'' = PInt schema_version" "get d ''trace'' = PDict (trace_metadata (sr_event r))"
    "dget d ''kind'' = Some (PStr (ev_kind (sr_event r)))" "get d ''payload'' = PDict (ev_payload (sr_event r))"
    "get d ''snapshot'' = opt_str (sr_snapshot r)" "read_float (get d ''at'') = Inr (sr_at r)"
    using d assms(4) by (auto simp: record_value_def dget_def read_float_def)
  then show ?thesis using assms read_event_value [of "sr_event r" d]
    by (simp add: d read_record_def record_version_def as_version_def num_eq_def)
qed

section \<open>Appending\<close>

lemma file_size_append [simp]: "file_size (f @ g) = file_size f + file_size g"
  by (simp add: file_size_def)

lemma load_append:
  "load_from False True offset step f = Inr (rs, kept) \<Longrightarrow>
   load_from r s offset step (f @ g) =
     rbind (load_from r s (offset + file_size f) (step + length rs) g) (\<lambda>(rs', kept'). Inr (rs @ rs', f @ kept'))"
proof (induction f arbitrary: offset step rs kept)
  case Nil
  then show ?case by (cases "load_from r s offset step g") (simp_all add: file_size_def)
next
  case (Cons l f)
  show ?case
  proof (cases "l_content l")
    case White
    with Cons obtain ks where "load_from False True (offset + l_bytes l) step f = Inr (rs, ks)" by auto
    from Cons.IH [OF this] White show ?thesis
      by (cases "load_from r s (offset + file_size (l # f)) (step + length rs) g") (auto simp: file_size_def add.assoc)
  next
    case (Json v)
    with Cons obtain r1 rs1 ks where *: "read_record offset step v = Inr r1" "rs = r1 # rs1"
      "load_from False True (offset + l_bytes l) (Suc step) f = Inr (rs1, ks)" by auto
    from Cons.IH [OF *(3)] *(1,2) Json show ?thesis
      by (cases "load_from r s (offset + file_size (l # f)) (step + length rs) g") (auto simp: file_size_def add.assoc)
  qed (use Cons in auto)
qed

text \<open>A file read to its end, every line ended.\<close>

definition sound :: "line list \<Rightarrow> step_record list \<Rightarrow> bool" where
  "sound f rs \<longleftrightarrow> list_all l_ended f \<and> load_journal False True f = Inr (rs, f)"

lemma sound_Nil: "sound [] []"
  by (simp add: sound_def load_journal_def)

lemma sound_load: "sound f rs \<Longrightarrow> load_journal repair strict f = Inr (rs, f)"
  using load_append [of 0 0 f rs f repair strict "[]"] by (simp add: sound_def load_journal_def)

lemma sound_append:
  assumes "sound f rs" "normal_event (sr_event r)" "sr_version r = schema_version" "sr_step r = int (length rs)" "sr_at r \<noteq> None"
  shows "sound (f @ [\<lparr>l_content = Json (record_value r), l_bytes = n, l_ended = True\<rparr>]) (rs @ [r])"
  using assms load_append [of 0 0 f rs f False True "[\<lparr>l_content = Json (record_value r), l_bytes = n, l_ended = True\<rparr>]"]
    read_record_value [of r "length rs"]
  by (simp add: sound_def load_journal_def)

lemma append_ended: "list_all l_ended f \<Longrightarrow> append_line v n f = f @ [\<lparr>l_content = Json v, l_bytes = n, l_ended = True\<rparr>]"
  by (auto simp: append_line_def list_all_iff)

section \<open>The sidecar\<close>

lemma load_state_value:
  assumes "0 \<le> n_steps c" "0 \<le> n_proposals c"
  shows "load_state_cache (Some (state_value c bytes)) size' = (if bytes = size' then Some c else None)"
  using assms
  by (cases c) (auto simp: load_state_cache_def state_value_def num_eq_def count_value_def only_def as_int_def opt_str_def
      split: option.split)

text \<open>A sidecar that is absent, or was written for a file no longer than this one, and agrees with the records
  when it was written for this one.\<close>

definition sidecar_ok :: "pyval option \<Rightarrow> nat \<Rightarrow> step_record list \<Rightarrow> bool" where
  "sidecar_ok v bytes rs \<longleftrightarrow>
     v = None \<or> (\<exists>c b. v = Some (state_value c b) \<and> 0 \<le> n_steps c \<and> 0 \<le> n_proposals c \<and> b \<le> bytes \<and> (b = bytes \<longrightarrow> c = recount rs))"

definition well_formed :: "journal \<Rightarrow> step_record list \<Rightarrow> bool" where
  "well_formed j rs \<longleftrightarrow> (\<exists>f. sound f rs \<and> (j_file j = Some f \<or> j_file j = None \<and> f = []) \<and> sidecar_ok (j_state j) (file_size f) rs)"

lemma recount_counts: "0 \<le> n_steps (recount rs)" "0 \<le> n_proposals (recount rs)"
  by (simp_all add: recount_def)

lemma sidecar_counts: "sidecar_ok v bytes rs \<Longrightarrow> load_state_cache v bytes = None \<or> load_state_cache v bytes = Some (recount rs)"
proof -
  have "load_state_cache None bytes = None" by (simp add: load_state_cache_def)
  then show "sidecar_ok v bytes rs \<Longrightarrow> ?thesis" by (auto simp: sidecar_ok_def load_state_value)
qed

text \<open>Fresh, stale or lost, the sidecar makes no difference to the counts.\<close>

lemma current_counts_sound:
  "sound f rs \<Longrightarrow> sidecar_ok v (file_size f) rs \<Longrightarrow> current_counts \<lparr>j_file = Some f, j_state = v\<rparr> = Inr (recount rs, f)"
  using sidecar_counts [of v "file_size f" rs] by (auto simp: current_counts_def sound_load)

lemma latest_snapshot_snoc: "latest_snapshot (rs @ [r]) = (case held_snapshot r of Some sha \<Rightarrow> Some sha | None \<Rightarrow> latest_snapshot rs)"
  by (induction rs) (auto split: option.split)

section \<open>Recording\<close>

text \<open>A journal that a crash may have left: what precedes a torn piece is sound, and the sidecar is older than
  the piece.\<close>

definition recoverable :: "journal \<Rightarrow> step_record list \<Rightarrow> bool" where
  "recoverable j rs \<longleftrightarrow> well_formed j rs
     \<or> (\<exists>f t. sound f rs \<and> j_file j = Some (f @ [t]) \<and> l_content t \<in> {White, Garbage} \<and> \<not> l_ended t \<and> 0 < l_bytes t
          \<and> sidecar_ok (j_state j) (file_size f) rs)"

text \<open>The file a record is appended to: ready for it, whatever the tail was.\<close>

definition ready :: "pyval option \<Rightarrow> line list \<Rightarrow> step_record list \<Rightarrow> bool" where
  "ready v f rs \<longleftrightarrow> sound f rs \<and> sidecar_ok v (file_size f) rs
     \<or> (\<exists>g t. f = g @ [t] \<and> sound g rs \<and> l_content t = White \<and> \<not> l_ended t \<and> 0 < l_bytes t \<and> sidecar_ok v (file_size g) rs)"

lemma torn_stale: "sidecar_ok v bytes rs \<Longrightarrow> 0 < n \<Longrightarrow> load_state_cache v (bytes + n) = None"
proof -
  have "load_state_cache None k = None" for k by (simp add: load_state_cache_def)
  then show "sidecar_ok v bytes rs \<Longrightarrow> 0 < n \<Longrightarrow> ?thesis" by (auto simp: sidecar_ok_def load_state_value)
qed

lemma recoverable_counts:
  assumes "recoverable j rs"
  shows "\<exists>f. current_counts j = Inr (recount rs, f) \<and> ready (j_state j) f rs"
  using assms unfolding recoverable_def
proof
  assume "well_formed j rs"
  then obtain f where f: "sound f rs" "j_file j = Some f \<or> j_file j = None \<and> f = []" "sidecar_ok (j_state j) (file_size f) rs"
    by (auto simp: well_formed_def)
  show ?thesis
  proof (cases "j_file j")
    case None
    then have "rs = []" using f(1,2) by (simp add: sound_def load_journal_def)
    then show ?thesis using None f by (auto simp: current_counts_def ready_def)
  next
    case (Some g)
    then show ?thesis using f current_counts_sound [of f rs "j_state j"] by (cases j) (auto simp: ready_def)
  qed
next
  assume "\<exists>f t. sound f rs \<and> j_file j = Some (f @ [t]) \<and> l_content t \<in> {White, Garbage} \<and> \<not> l_ended t \<and> 0 < l_bytes t
      \<and> sidecar_ok (j_state j) (file_size f) rs"
  then obtain f t where t: "sound f rs" "j_file j = Some (f @ [t])" "l_content t \<in> {White, Garbage}" "\<not> l_ended t"
    "0 < l_bytes t" "sidecar_ok (j_state j) (file_size f) rs" by blast
  have "load_state_cache (j_state j) (file_size (f @ [t])) = None"
    using torn_stale [OF t(6,5)] by (simp add: file_size_def)
  moreover have "load_journal True False (f @ [t]) = Inr (rs, if l_content t = White then f @ [t] else f)"
    using t load_append [of 0 0 f rs f True False "[t]"] by (auto simp: sound_def load_journal_def)
  ultimately have "current_counts j = Inr (recount rs, if l_content t = White then f @ [t] else f)"
    using t(2) by (simp add: current_counts_def)
  moreover have "ready (j_state j) (if l_content t = White then f @ [t] else f) rs" using t by (auto simp: ready_def)
  ultimately show ?thesis by blast
qed

lemma ready_append:
  assumes "ready v f rs" "normal_event (sr_event r)" "sr_version r = schema_version" "sr_step r = int (length rs)" "sr_at r \<noteq> None"
  shows "sound (append_line (record_value r) n f) (rs @ [r])"
  using assms(1) unfolding ready_def
proof
  assume "sound f rs \<and> sidecar_ok v (file_size f) rs"
  then show ?thesis using sound_append [OF _ assms(2-5)] by (simp add: append_ended sound_def)
next
  assume "\<exists>g t. f = g @ [t] \<and> sound g rs \<and> l_content t = White \<and> \<not> l_ended t \<and> 0 < l_bytes t \<and> sidecar_ok v (file_size g) rs"
  then obtain g t where "f = g @ [t]" "sound g rs" "l_content t = White" "\<not> l_ended t" by blast
  then show ?thesis using sound_append [OF _ assms(2-5), of g "l_bytes t + n"] by (simp add: append_line_def continued_def)
qed

text \<open>What is recorded: the event with its redacted and numbered payload, stamped, at the next step.\<close>

definition new_record :: "receipt \<Rightarrow> trace_event \<Rightarrow> string option \<Rightarrow> float64 option \<Rightarrow> step_record list \<Rightarrow> step_record" where
  "new_record clock e snap observed_at rs =
     \<lparr>sr_step = int (length rs), sr_event = stored_event clock e (int (length (filter is_proposal rs))), sr_snapshot = snap,
      sr_at = Some (case observed_at of Some x \<Rightarrow> x | None \<Rightarrow> rc_wall clock), sr_version = schema_version\<rparr>"

lemma stored_event_kind [simp]: "ev_kind (stored_event clock e k) = ev_kind e"
  by (simp add: stored_event_def split: option.split)

lemma stored_event_normal: "normal_event e \<Longrightarrow> 0 \<le> rc_monotonic clock \<Longrightarrow> normal_event (stored_event clock e k)"
  by (auto simp: normal_event_def stored_event_def only_def split: option.splits if_splits)

lemma bump_recount: "bump e snap (recount rs) = recount (rs @ [new_record clock e snap observed_at rs])"
  by (cases snap) (auto simp: bump_def recount_def latest_snapshot_snoc new_record_def is_proposal_def held_snapshot_def)

lemma record_event_recoverable:
  assumes "recoverable j rs" "normal_event e" "0 \<le> rc_monotonic clock"
  shows "\<exists>j'. record_event bytes clock e snap observed_at j = Inr (j', new_record clock e snap observed_at rs)
    \<and> well_formed j' (rs @ [new_record clock e snap observed_at rs])"
proof -
  define r where "r = new_record clock e snap observed_at rs"
  obtain f where f: "current_counts j = Inr (recount rs, f)" "ready (j_state j) f rs" using recoverable_counts [OF assms(1)] by blast
  define f' where "f' = append_line (record_value r) (bytes (record_value r)) f"
  have "sound f' (rs @ [r])" unfolding f'_def
    by (rule ready_append [OF f(2)]) (simp_all add: r_def new_record_def stored_event_normal assms)
  moreover have r: "\<lparr>sr_step = n_steps (recount rs), sr_event = stored_event clock e (n_proposals (recount rs)), sr_snapshot = snap,
      sr_at = Some (case observed_at of Some x \<Rightarrow> x | None \<Rightarrow> rc_wall clock), sr_version = schema_version\<rparr> = r"
    by (simp add: r_def new_record_def recount_def)
  have "record_event bytes clock e snap observed_at j =
      Inr (\<lparr>j_file = Some f', j_state = Some (state_value (recount (rs @ [r])) (file_size f'))\<rparr>, r)"
    by (simp only: record_event_def f(1) rbind.simps prod.case r bump_recount [of e snap rs clock observed_at] Let_def
        f'_def r_def [symmetric])
  ultimately show ?thesis
    unfolding r_def [symmetric] well_formed_def sidecar_ok_def using recount_counts [of "rs @ [r]"] by auto
qed

section \<open>Crashes\<close>

text \<open>A write cut off in the middle: the piece joins an unended blank tail or stands alone.\<close>

definition tear :: "line \<Rightarrow> line list \<Rightarrow> line list" where
  "tear t f = (if f = [] \<or> l_ended (last f) then f @ [t] else butlast f @ [t\<lparr>l_bytes := l_bytes (last f) + l_bytes t\<rparr>])"

definition torn_piece :: "line \<Rightarrow> bool" where
  "torn_piece t \<longleftrightarrow> l_content t \<in> {White, Garbage} \<and> \<not> l_ended t \<and> 0 < l_bytes t"

text \<open>
  What can happen to a journal: a step is recorded; a crash cuts the write off, before its first byte, in the
  middle (not inside a character nor just before the newline) or before the sidecar follows; the sidecar is lost.
\<close>

inductive journal_step :: "(pyval \<Rightarrow> nat) \<Rightarrow> journal \<times> step_record list \<Rightarrow> journal \<times> step_record list \<Rightarrow> bool"
  for bytes where
  recorded: "record_event bytes clock e snap observed_at j = Inr (j', r) \<Longrightarrow> normal_event e \<Longrightarrow> 0 \<le> rc_monotonic clock
    \<Longrightarrow> journal_step bytes (j, rs) (j', rs @ [r])"
| repaired: "current_counts j = Inr (c, f) \<Longrightarrow> journal_step bytes (j, rs) (j\<lparr>j_file := Some f\<rparr>, rs)"
| torn: "current_counts j = Inr (c, f) \<Longrightarrow> torn_piece t \<Longrightarrow> journal_step bytes (j, rs) (j\<lparr>j_file := Some (tear t f)\<rparr>, rs)"
| unsynced: "record_event bytes clock e snap observed_at j = Inr (j', r) \<Longrightarrow> normal_event e \<Longrightarrow> 0 \<le> rc_monotonic clock
    \<Longrightarrow> journal_step bytes (j, rs) (j'\<lparr>j_state := j_state j\<rparr>, rs @ [r])"
| lost: "journal_step bytes (j, rs) (j\<lparr>j_state := None\<rparr>, rs)"

definition new_journal :: journal where
  "new_journal = \<lparr>j_file = None, j_state = None\<rparr>"

inductive reachable :: "(pyval \<Rightarrow> nat) \<Rightarrow> journal \<times> step_record list \<Rightarrow> bool" for bytes where
  fresh: "reachable bytes (new_journal, [])"
| step: "reachable bytes s \<Longrightarrow> journal_step bytes s s' \<Longrightarrow> reachable bytes s'"

text \<open>The numbers the proposals of a journal carry.\<close>

definition proposal_numbers :: "step_record list \<Rightarrow> pyval list" where
  "proposal_numbers rs = map (\<lambda>r. get (ev_payload (sr_event r)) ''proposal_number'') (filter is_proposal rs)"

definition numbered :: "step_record list \<Rightarrow> bool" where
  "numbered rs \<longleftrightarrow> proposal_numbers rs = map (\<lambda>i. PInt (int i)) [1..<Suc (length (filter is_proposal rs))]"

lemma get_of_dset: "get (dset k v d) k = v"
  by (simp add: get_def)

lemma numbered_snoc: "numbered rs \<Longrightarrow> numbered (rs @ [new_record clock e snap observed_at rs])"
  by (auto simp: numbered_def proposal_numbers_def is_proposal_def new_record_def stored_event_def stored_payload_def
      get_of_dset Let_def split: prod.split option.split)

lemma sidecar_grows: "sidecar_ok v b rs \<Longrightarrow> b < b' \<Longrightarrow> sidecar_ok v b' rs'"
  unfolding sidecar_ok_def by (metis leD less_imp_le order.trans)

lemma ready_recoverable: "ready (j_state j) f rs \<Longrightarrow> recoverable (j\<lparr>j_file := Some f\<rparr>) rs"
  by (auto simp: ready_def recoverable_def well_formed_def)

lemma ready_tear: "ready (j_state j) f rs \<Longrightarrow> torn_piece t \<Longrightarrow> recoverable (j\<lparr>j_file := Some (tear t f)\<rparr>) rs"
  unfolding ready_def
proof (elim disjE exE conjE)
  assume f: "sound f rs" "sidecar_ok (j_state j) (file_size f) rs" and t: "torn_piece t"
  then have "tear t f = f @ [t]" by (cases f rule: rev_cases) (auto simp: tear_def sound_def)
  then show ?thesis using f t by (auto simp: recoverable_def torn_piece_def)
next
  fix g u
  assume f: "f = g @ [u]" "sound g rs" "l_content u = White" "\<not> l_ended u" "sidecar_ok (j_state j) (file_size g) rs"
    and t: "torn_piece t"
  then have "tear t f = g @ [t\<lparr>l_bytes := l_bytes u + l_bytes t\<rparr>]" by (simp add: tear_def)
  then show ?thesis using f t unfolding recoverable_def torn_piece_def by (intro disjI2 exI [of _ g]) auto
qed

lemma append_longer: "0 < n \<Longrightarrow> file_size f < file_size (append_line v n f)"
  by (cases f rule: rev_cases) (auto simp: append_line_def file_size_def)

lemma record_event_file:
  assumes "record_event bytes clock e snap observed_at j = Inr (j', r)" "current_counts j = Inr (c, f)"
  shows "j_file j' = Some (append_line (record_value r) (bytes (record_value r)) f)"
  using assms by (auto simp: record_event_def Let_def)

lemma ready_sidecar: "ready v f rs \<Longrightarrow> 0 < n \<Longrightarrow> sidecar_ok v (file_size (append_line w n f)) rs'"
proof -
  assume n: "0 < n" and r: "ready v f rs"
  then obtain b where "sidecar_ok v b rs" "b \<le> file_size f" by (auto simp: ready_def)
  then show ?thesis using append_longer [OF n, of f w] sidecar_grows by (meson le_less_trans)
qed

lemma step_recoverable:
  assumes bytes: "\<And>v. 0 < bytes v" and "journal_step bytes s s'" "recoverable (fst s) (snd s)" "numbered (snd s)"
  shows "recoverable (fst s') (snd s') \<and> numbered (snd s')"
  using assms(2,3,4)
proof (cases rule: journal_step.cases)
  case (recorded clock e snap observed_at j j' r rs)
  then show ?thesis using assms(3,4) record_event_recoverable [of j rs e clock bytes snap observed_at] numbered_snoc
    by (auto simp: recoverable_def)
next
  case (repaired j c f rs)
  then show ?thesis using assms(3,4) recoverable_counts [of j rs] ready_recoverable by fastforce
next
  case (torn j c f t rs)
  then show ?thesis using assms(3,4) recoverable_counts [of j rs] ready_tear by fastforce
next
  case (unsynced clock e snap observed_at j j' r rs)
  obtain f where f: "current_counts j = Inr (recount rs, f)" "ready (j_state j) f rs"
    using recoverable_counts assms(3) unsynced(1) by force
  have r: "r = new_record clock e snap observed_at rs" "well_formed j' (rs @ [r])"
    using record_event_recoverable [of j rs e clock bytes snap observed_at] unsynced assms(3) by auto
  then have "well_formed (j'\<lparr>j_state := j_state j\<rparr>) (rs @ [r])"
    using ready_sidecar [OF f(2) bytes] record_event_file [OF unsynced(3) f(1)] by (auto simp: well_formed_def)
  then show ?thesis using unsynced r(1) assms(4) numbered_snoc by (auto simp: recoverable_def)
next
  case (lost j rs)
  then show ?thesis using assms(3,4) by (auto simp: recoverable_def well_formed_def sidecar_ok_def)
qed

lemma reachable_recoverable:
  assumes "\<And>v. 0 < bytes v"
  shows "reachable bytes s \<Longrightarrow> recoverable (fst s) (snd s) \<and> numbered (snd s)"
proof (induction rule: reachable.induct)
  case fresh
  show ?case by (simp add: new_journal_def recoverable_def well_formed_def sound_Nil sidecar_ok_def numbered_def proposal_numbers_def)
next
  case (step s s')
  then show ?case using step_recoverable [of bytes s s'] assms by blast
qed

definition journal_lines :: "journal \<Rightarrow> line list" where
  "journal_lines j = (case j_file j of None \<Rightarrow> [] | Some f \<Rightarrow> f)"

lemma recoverable_load:
  assumes "recoverable j rs"
  shows "\<exists>kept. load_journal False False (journal_lines j) = Inr (rs, kept)"
  using assms unfolding recoverable_def
proof
  assume "well_formed j rs"
  then obtain f where "sound f rs" "j_file j = Some f \<or> j_file j = None \<and> f = []" by (auto simp: well_formed_def)
  then show ?thesis using sound_load [of f rs False False] by (auto simp: journal_lines_def)
next
  assume "\<exists>f t. sound f rs \<and> j_file j = Some (f @ [t]) \<and> l_content t \<in> {White, Garbage} \<and> \<not> l_ended t \<and> 0 < l_bytes t
      \<and> sidecar_ok (j_state j) (file_size f) rs"
  then obtain f t where "sound f rs" "j_file j = Some (f @ [t])" "l_content t \<in> {White, Garbage}" "\<not> l_ended t" by blast
  then show ?thesis using load_append [of 0 0 f rs f False False "[t]"]
    by (auto simp: journal_lines_def sound_def load_journal_def)
qed



text \<open>C30: Two tears are not repaired. Cut off inside a character, the journal refuses every later step. Cut off
  just before its newline, the last record is accepted, but the next one joins its line and no reader gets past it.\<close>

theorem tears_not_repaired:
  assumes "sound f rs" and "\<not> l_ended t"
  shows "(l_content t = Undecodable \<and> load_state_cache (j_state j) (file_size (f @ [t])) = None \<and> j_file j = Some (f @ [t])
      \<longrightarrow> record_event bytes clock e snap observed_at j = Inl UnicodeDecodeError)
    \<and> (l_content t = Json v \<longrightarrow> (\<exists>err. load_journal repair strict (append_line w n (f @ [t])) = Inl (SnapshotError err)))"
proof (intro conjI impI)
  assume "l_content t = Undecodable \<and> load_state_cache (j_state j) (file_size (f @ [t])) = None \<and> j_file j = Some (f @ [t])"
  then show "record_event bytes clock e snap observed_at j = Inl UnicodeDecodeError"
    using load_append [of 0 0 f rs f True False "[t]"] assms(1)
    by (simp add: record_event_def current_counts_def sound_def load_journal_def)
next
  assume "l_content t = Json v"
  then show "\<exists>err. load_journal repair strict (append_line w n (f @ [t])) = Inl (SnapshotError err)"
    using load_append [of 0 0 f rs f repair strict] assms
    by (simp add: append_line_def continued_def sound_def load_journal_def)
qed

section \<open>Pruning\<close>

definition holds :: "(string, (string \<times> int) list) dict \<Rightarrow> string \<Rightarrow> string \<times> int \<Rightarrow> bool" where
  "holds d sha h \<longleftrightarrow> (\<exists>hs. dget d sha = Some hs \<and> h \<in> set hs)"

lemma hold_holds: "holds (hold session sha step d) sha (session, step)" "holds d t h \<Longrightarrow> holds (hold session sha step d) t h"
  by (auto simp: holds_def hold_def split: option.split)

lemma fold_holds:
  "holds d t h \<Longrightarrow> holds (foldl (\<lambda>d sha. hold session sha step d) d roots) t h"
  "t \<in> set roots \<Longrightarrow> holds (foldl (\<lambda>d sha. hold session sha step d) d roots) t (session, step)"
proof -
  show keep: "holds d t h \<Longrightarrow> holds (foldl (\<lambda>d sha. hold session sha step d) d roots) t h" for d t h roots
    by (induction roots arbitrary: d) (auto intro: hold_holds)
  show "t \<in> set roots \<Longrightarrow> holds (foldl (\<lambda>d sha. hold session sha step d) d roots) t (session, step)"
    by (induction roots arbitrary: d) (auto intro: keep hold_holds(1))
qed

lemma note_holds:
  "note_records resolve repo name session d rs = Inr d' \<Longrightarrow> holds d t h \<Longrightarrow> holds d' t h"
  "note_records resolve repo name session d rs = Inr d' \<Longrightarrow> r \<in> set rs \<Longrightarrow> record_roots resolve repo name r = Inr roots \<Longrightarrow>
    t \<in> set roots \<Longrightarrow> holds d' t (session, sr_step r)"
proof -
  show keep: "note_records resolve repo name session d rs = Inr d' \<Longrightarrow> holds d t h \<Longrightarrow> holds d' t h" for d rs h
    by (induction rs arbitrary: d) (auto intro: fold_holds(1))
  show "note_records resolve repo name session d rs = Inr d' \<Longrightarrow> r \<in> set rs \<Longrightarrow> record_roots resolve repo name r = Inr roots \<Longrightarrow>
      t \<in> set roots \<Longrightarrow> holds d' t (session, sr_step r)"
    by (induction rs arbitrary: d) (auto intro: keep [OF _ fold_holds(2)])
qed

text \<open>One journal of the scan.\<close>

lemma references_Cons:
  assumes "snapshot_references resolve repo skip d ((name, session, path, f) # js) = Inr d'"
  obtains "path \<in> set skip" "snapshot_references resolve repo skip d js = Inr d'"
  | rs kept d1 where "path \<notin> set skip" "load_journal False True f = Inr (rs, kept)"
      "note_records resolve repo name session d rs = Inr d1" "snapshot_references resolve repo skip d1 js = Inr d'"
  using assms by (auto split: if_splits)

lemma references_keep: "snapshot_references resolve repo skip d js = Inr d' \<Longrightarrow> holds d t h \<Longrightarrow> holds d' t h"
proof (induction js arbitrary: d)
  case (Cons j js)
  obtain name session path f where j: "j = (name, session, path, f)" by (metis prod_cases4)
  show ?case using Cons.prems(1) [unfolded j]
    by (cases rule: references_Cons) (use Cons.IH Cons.prems(2) note_holds(1) in blast)+
qed simp

text \<open>A record the scan must count: its directory is unknown or the repository's.\<close>

definition counts_for :: "(string \<Rightarrow> string) \<Rightarrow> string option \<Rightarrow> step_record \<Rightarrow> bool" where
  "counts_for resolve repo r \<longleftrightarrow>
     (case (repo, get (ev_payload (sr_event r)) ''cwd'') of (Some target, PStr cwd) \<Rightarrow> cwd = [] \<or> resolve cwd = target | _ \<Rightarrow> True)"

definition roots_of :: "step_record \<Rightarrow> string set" where
  "roots_of r = {sha. sha \<noteq> [] \<and> (sr_snapshot r = Some sha \<or> get (ev_payload (sr_event r)) ''checkpoint'' = PStr sha)}"

lemma record_roots_all:
  "record_roots resolve repo name r = Inr roots \<Longrightarrow> counts_for resolve repo r \<Longrightarrow> sha \<in> roots_of r \<Longrightarrow> sha \<in> set roots"
  by (auto simp: record_roots_def checkpoint_of_def counts_for_def roots_of_def held_snapshot_def Let_def
      split: pyval.splits option.splits if_splits)

lemma note_roots: "note_records resolve repo name session d rs = Inr d' \<Longrightarrow> r \<in> set rs \<Longrightarrow>
    \<exists>roots. record_roots resolve repo name r = Inr roots"
  by (induction rs arbitrary: d) auto

lemma references_all:
  assumes "counts_for resolve repo r" "sha \<in> roots_of r" "path \<notin> set skip"
    and "load_journal False True f = Inr (rs, kept)" "r \<in> set rs"
  shows "snapshot_references resolve repo skip d js = Inr d' \<Longrightarrow> (name, session, path, f) \<in> set js \<Longrightarrow> holds d' sha (session, sr_step r)"
proof (induction js arbitrary: d)
  case (Cons j js)
  obtain n1 s1 p1 f1 where j: "j = (n1, s1, p1, f1)" by (metis prod_cases4)
  show ?case using Cons.prems(1) [unfolded j]
  proof (cases rule: references_Cons)
    case 1
    then show ?thesis using Cons j assms(3) by auto
  next
    case (2 rs1 kept1 d1)
    show ?thesis
    proof (cases "(name, session, path, f) = j")
      case True
      then have here: "note_records resolve repo name session d rs = Inr d1" using 2(2,3) j assms(4) by auto
      obtain roots where roots: "record_roots resolve repo name r = Inr roots" using note_roots [OF here assms(5)] by blast
      have "holds d1 sha (session, sr_step r)"
        using note_holds(2) [OF here assms(5) roots] record_roots_all [OF roots assms(1,2)] .
      then show ?thesis using references_keep [OF 2(4)] by blast
    next
      case False
      then show ?thesis using Cons 2(4) by auto
    qed
  qed
qed simp

text \<open>C26: When every journal can be read to its end, a snapshot or checkpoint that a step of a kept journal holds is
  listed with that step, and pruning without an age limit does not delete it.\<close>

theorem held_snapshots_kept:
  assumes "snapshot_references resolve repo skip [] js = Inr references"
    and "(name, session, path, f) \<in> set js" and "path \<notin> set skip" and "load_journal False True f = Inr (rs, kept)"
    and "r \<in> set rs" and "counts_for resolve repo r" and "sha \<in> roots_of r"
  shows "(\<exists>holders. dget references sha = Some holders \<and> (session, sr_step r) \<in> set holders)
    \<and> (refname, sha, reason) \<notin> set (prune_snapshots refs (dkeys references) protected None now)"
proof -
  have "holds references sha (session, sr_step r)" by (rule references_all [OF assms(6,7,3,4,5,1,2)])
  then have held: "\<exists>holders. dget references sha = Some holders \<and> (session, sr_step r) \<in> set holders"
    by (auto simp: holds_def)
  then have "sha \<in> set (dkeys references)" by (auto simp: dict.set_keys)
  then have "prune_verdict (dkeys references) protected None l \<noteq> Some (refname, sha, reason)" for l
    by (cases l) (auto simp: prune_verdict_def split: if_splits)
  then show ?thesis using held by (auto simp: prune_snapshots_def map_filter_def)
qed

section \<open>Samples\<close>

definition sample_clock :: receipt where
  "sample_clock = \<lparr>rc_wall = Fin 10, rc_monotonic = 7, rc_clock = ''c''\<rparr>"

definition sample_proposal :: trace_event where
  "sample_proposal = (plain_event ''tool_proposal'')\<lparr>ev_payload := [(''command'', PStr ''ls'')]\<rparr>"

definition torn_line :: line where
  "torn_line = \<lparr>l_content = Garbage, l_bytes = 3, l_ended = False\<rparr>"

lemma sample_reachable: "reachable (\<lambda>v. 1) (new_journal\<lparr>j_file := Some [torn_line]\<rparr>, [])"
proof -
  have "journal_step (\<lambda>v. 1) (new_journal, []) (new_journal\<lparr>j_file := Some (tear torn_line [])\<rparr>, [])"
    by (rule journal_step.torn [where c = "recount []"])
      (simp_all add: current_counts_def new_journal_def torn_piece_def torn_line_def)
  then show ?thesis using reachable.step [OF reachable.fresh] by (simp add: tear_def)
qed



lemma sample_references:
  "snapshot_references (\<lambda>p. p) None [] []
     [(''s.jsonl'', ''s'', ''/j/s.jsonl'', [\<lparr>l_content = Json (record_value
        \<lparr>sr_step = 0, sr_event = plain_event ''sessionstart'', sr_snapshot = Some ''abc'', sr_at = Some (Fin 1), sr_version = 1\<rparr>),
        l_bytes = 1, l_ended = True\<rparr>])]
   = Inr [(''abc'', [(''s'', 0)])]"
  by code_simp

theorem held_snapshots_kept_witness:
  "(''refs/spotter/steps/1'', ''abc'', ''unreferenced'') \<notin> set (prune_snapshots [(''refs/spotter/steps/1'', ''abc'', ''17'')] [''abc''] [] None 0)"
proof -
  define r where "r = \<lparr>sr_step = 0, sr_event = plain_event ''sessionstart'', sr_snapshot = Some ''abc'', sr_at = Some (Fin 1), sr_version = 1\<rparr>"
  have loaded: "load_journal False True [\<lparr>l_content = Json (record_value r), l_bytes = 1, l_ended = True\<rparr>]
      = Inr ([r], [\<lparr>l_content = Json (record_value r), l_bytes = 1, l_ended = True\<rparr>])" unfolding r_def by code_simp
  have "counts_for (\<lambda>p. p) None r" "''abc'' \<in> roots_of r" by (simp_all add: counts_for_def roots_of_def r_def)
  from held_snapshots_kept [OF sample_references [folded r_def] _ _ loaded _ this] show ?thesis
    by (simp add: dict_eval)
qed

theorem tears_not_repaired_witness:
  "record_event (\<lambda>v. 1) sample_clock sample_proposal None None
     (new_journal\<lparr>j_file := Some [\<lparr>l_content = Undecodable, l_bytes = 3, l_ended = False\<rparr>]\<rparr>) = Inl UnicodeDecodeError"
  using tears_not_repaired [OF sound_Nil, of "\<lparr>l_content = Undecodable, l_bytes = 3, l_ended = False\<rparr>"
      "new_journal\<lparr>j_file := Some [\<lparr>l_content = Undecodable, l_bytes = 3, l_ended = False\<rparr>]\<rparr>"]
  by (simp add: new_journal_def load_state_cache_def)

end
