(* ===== verification/Hook.thy ===== *)
theory Hook
  imports Supervision Journal_Claims Budget
begin

text \<open>
  Model of \<open>src/spotter/hook.py\<close>: one hook invocation turns the runtime's JSON into an event, has it
  judged by the daemon or, when that does not answer, by the local gate, journals it with the
  verdict, fires a shadow review at its cadence when the budget grants a slot, and answers with a
  denial or with nothing. Environment variables, clock readings, random identifiers, the daemon's
  answer, the snapshot taken and the outcome of starting a process are arguments.
\<close>

section \<open>Events from hook payloads\<close>

definition classification_entries :: "classification \<Rightarrow> payload" where
  "classification_entries c =
     [(''reversibility_class'', PStr (class_name (cl_class c))), (''effect_kind'', PStr (cl_kind c)),
      (''resource'', PStr (cl_resource c)), (''reversible'', PBool (cl_reversible c)),
      (''effect_classifier'', PStr (cl_classifier c)), (''effect_reason'', PStr (cl_reason c)),
      (''effect_confidence'', PStr (confidence_name (cl_confidence c))), (''semantic_operation'', opt_str (cl_semantic c))]"

text \<open>The lines of a patch that name a file.\<close>

definition patch_headers :: "string list" where
  "patch_headers = [''*** Add File: '', ''*** Update File: '', ''*** Delete File: '', ''*** Move to: '']"

definition patch_path :: "string \<Rightarrow> string option" where
  "patch_path l =
     (case find (startswith l) patch_headers of
        None \<Rightarrow> None
      | Some header \<Rightarrow> let name = drop (length header) l in if name = [] then None else Some name)"

definition patch_paths :: "string \<Rightarrow> string list" where
  "patch_paths patch = List.map_filter patch_path (split_on newline patch)"

definition input_files :: "payload \<Rightarrow> string list" where
  "input_files tool_input =
     List.map_filter (\<lambda>(k, v). if k \<in> set [''path'', ''file_path''] then as_str v else None) tool_input
     @ (case get tool_input ''files'' of PList items \<Rightarrow> map py_str items | _ \<Rightarrow> [])"

definition proposal_event :: "payload \<Rightarrow> mcp_rule list \<Rightarrow> trace_event" where
  "proposal_event p rules =
     (let operation = as_str (get p ''tool_use_id''); tool_input = dict_or_empty (get p ''tool_input'');
          command = get tool_input ''command'';
          patch = (if get p ''tool_name'' = PStr ''apply_patch'' then as_str command else None);
          files = input_files tool_input @ (case patch of Some text \<Rightarrow> patch_paths text | None \<Rightarrow> [])
      in (plain_event ''tool_proposal'')\<lparr>
        ev_payload :=
          [(''tool'', get p ''tool_name''), (''command'', if patch = None then command else PNone), (''patch'', opt_str patch),
           (''files'', PList (map PStr files)), (''tool_use_id'', get p ''tool_use_id''), (''turn_id'', get p ''turn_id''),
           (''cwd'', get p ''cwd'')]
          @ classification_entries (classify (get p ''tool_name'') (PDict tool_input) rules),
        ev_operation := operation, ev_item := operation\<rparr>)"

definition result_event :: "payload \<Rightarrow> mcp_rule list \<Rightarrow> trace_event" where
  "result_event p rules =
     (let operation = as_str (get p ''tool_use_id'') in
      (plain_event ''tool_result'')\<lparr>
        ev_payload :=
          [(''tool'', get p ''tool_name''), (''tool_use_id'', get p ''tool_use_id''), (''turn_id'', get p ''turn_id''),
           (''tool_input'', get p ''tool_input''), (''tool_response'', get p ''tool_response'')]
          @ classification_entries (classify (get p ''tool_name'') (get p ''tool_input'') rules),
        ev_operation := operation, ev_item := operation\<rparr>)"

definition event_from_hook :: "payload \<Rightarrow> mcp_rule list \<Rightarrow> trace_event" where
  "event_from_hook p rules =
     (let name = get p ''hook_event_name'' in
      if name = PStr ''PreToolUse'' then proposal_event p rules
      else if name = PStr ''PostToolUse'' then result_event p rules
      else if name = PStr ''UserPromptSubmit''
      then (plain_event ''user_prompt'')\<lparr>ev_payload := [(''prompt'', get p ''prompt'')]\<rparr>
      else plain_event (lower (py_str (py_or name (PStr ''unknown'')))))"

section \<open>The journal adapter\<close>

record journal_adapter =
  ja_journal :: journal
  ja_identity :: "runtime_identity option"
  ja_provenance :: "trace_provenance option"
  ja_next :: "string option"
  ja_last :: int
  ja_clock :: "nat \<Rightarrow> receipt"
  ja_calls :: nat

definition adopted :: "journal_adapter \<Rightarrow> trace_event \<Rightarrow> trace_event" where
  "adopted a e =
     (if ev_identity e = None then e\<lparr>ev_identity := ja_identity a, ev_provenance := ja_provenance a\<rparr> else e)"

definition proposal_number :: "step_record \<Rightarrow> int" where
  "proposal_number r = (case get (ev_payload (sr_event r)) ''proposal_number'' of PInt n \<Rightarrow> n | _ \<Rightarrow> 0)"

definition adapter_record :: "(pyval \<Rightarrow> nat) \<Rightarrow> trace_event \<Rightarrow> journal_adapter \<Rightarrow> journal_adapter result" where
  "adapter_record bytes e a =
     rbind (record_event bytes (ja_clock a (ja_calls a)) (adopted a e) (ja_next a) None (ja_journal a)) (\<lambda>(j, r).
       Inr (a\<lparr>ja_journal := j, ja_next := None, ja_calls := Suc (ja_calls a),
              ja_last := (if ev_kind e = ''tool_proposal'' then proposal_number r else ja_last a)\<rparr>))"

section \<open>Judging over the daemon\<close>

text \<open>The daemon's answer: a decision with its telemetry, or how the exchange failed.\<close>

datatype ipc_answer =
    Answered gate_decision "float64 option" "payload option"
  | Timed_out string
  | Protocol_error string
  | Unavailable string

definition protocol_version :: int where
  "protocol_version = 1"

definition telemetry ::
  "string \<Rightarrow> float64 \<Rightarrow> pyval \<Rightarrow> trace_event \<Rightarrow> string \<Rightarrow> payload" where
  "telemetry status ipc_ms evaluation e generation =
     [(''status'', PStr status), (''protocol'', PInt protocol_version), (''ipc_ms'', PFloat ipc_ms),
      (''daemon_evaluation_ms'', evaluation), (''tool_use_id'', get (ev_payload e) ''tool_use_id''),
      (''tool'', get (ev_payload e) ''tool''), (''config_generation'', PStr generation)]"

definition gate_over_ipc ::
  "bool \<Rightarrow> machine \<Rightarrow> gate \<Rightarrow> ipc_answer \<Rightarrow> float64 \<Rightarrow> trace_event \<Rightarrow> string \<Rightarrow> gate_decision \<times> payload" where
  "gate_over_ipc capture_only m fallback answer ipc_ms e generation =
     (if capture_only
      then (check_event m fallback e, telemetry ''capture_only'' (Fin 0) PNone e generation)
      else case answer of
        Answered d ms sample \<Rightarrow>
          (d, telemetry ''ok'' ipc_ms (case ms of Some x \<Rightarrow> PFloat x | None \<Rightarrow> PNone) e generation
              @ optional_entry ''runtime_sample'' (map_option PDict sample))
      | Timed_out text \<Rightarrow>
          (check_event m fallback e, telemetry ''timeout'' ipc_ms PNone e generation @ [(''error'', PStr (take 300 text))])
      | Protocol_error text \<Rightarrow>
          (annotate ''daemon_protocol_error'' (''fail-open: '' @ text),
           telemetry ''protocol_error'' ipc_ms PNone e generation @ [(''error'', PStr (take 300 text))])
      | Unavailable text \<Rightarrow>
          (check_event m fallback e, telemetry ''unavailable'' ipc_ms PNone e generation @ [(''error'', PStr (take 300 text))]))"

section \<open>Configuration and environment\<close>

record hook_config =
  hc_agent :: string
  hc_every :: int
  hc_per_session :: int
  hc_per_day :: int
  hc_forbidden :: "string list"
  hc_workspaces :: "string list"
  hc_block_dependencies :: bool
  hc_observation_only :: bool
  hc_snapshot_on_patch :: bool
  hc_mcp :: "mcp_rule list"

record hook_env =
  he_capture_only :: bool
  he_disabled :: bool
  he_machine :: machine
  he_answer :: ipc_answer
  he_ipc_ms :: float64
  he_hook_ms :: float64
  he_hex :: string
  he_snapshot :: "string option"
  he_spawn_error :: "string option"
  he_clock :: "nat \<Rightarrow> receipt"
  he_ledger_clock :: clock
  he_token :: string
  he_sessions :: pyval

text \<open>What a hook invocation changes: the journal, the review ledger, the review processes started.\<close>

record world =
  wd_journal :: journal
  wd_ledger :: ledger
  wd_started :: "string list"

section \<open>Shadow reviews\<close>

text \<open>\<open>with suppress(SnapshotError, OSError)\<close> around a journal note.\<close>

definition journal_note :: "(pyval \<Rightarrow> nat) \<Rightarrow> receipt \<Rightarrow> trace_event \<Rightarrow> journal \<Rightarrow> journal result" where
  "journal_note bytes clock e j =
     (case record_event bytes clock e None None j of
        Inr (j', _) \<Rightarrow> Inr j'
      | Inl (SnapshotError _) \<Rightarrow> Inr j
      | Inl err \<Rightarrow> Inl err)"

definition refusal_event :: "string \<Rightarrow> trace_event" where
  "refusal_event text =
     (if contains ''unreadable'' text
      then (plain_event ''reviewer_error'')\<lparr>ev_payload := [(''error'', PStr text)]\<rparr>
      else (plain_event ''reviewer_capped'')\<lparr>ev_payload := [(''reason'', PStr text)]\<rparr>)"

definition review_job_id :: "int \<Rightarrow> string" where
  "review_job_id n = ''proposal:'' @ dec_int n"

definition queued_event :: "int \<Rightarrow> trace_event" where
  "queued_event n = (plain_event ''review_job_queued'')\<lparr>ev_payload :=
     [(''review_job_id'', PStr (review_job_id n)), (''review_trigger'', PStr ''periodic'')]\<rparr>"

definition spawn_failed_event :: "string \<Rightarrow> trace_event" where
  "spawn_failed_event text =
     (plain_event ''reviewer_error'')\<lparr>ev_payload := [(''error'', PStr (take 300 (''review process failed: '' @ text)))]\<rparr>"

text \<open>Reserve, announce, start; a process that does not start gives its slot back.\<close>

definition start_review ::
  "(pyval \<Rightarrow> nat) \<Rightarrow> hook_config \<Rightarrow> hook_env \<Rightarrow> (nat \<Rightarrow> receipt) \<Rightarrow> string \<Rightarrow> int \<Rightarrow> world \<Rightarrow> world result" where
  "start_review bytes cfg env clocks session n w =
     (case reserve session (hc_per_session cfg) (hc_per_day cfg) (he_ledger_clock env) (he_token env) (wd_ledger w) of
        (_, Inl err) \<Rightarrow> Inl err
      | (ledger, Inr (None, text)) \<Rightarrow>
          rbind (journal_note bytes (clocks 0) (refusal_event text) (wd_journal w)) (\<lambda>j.
            Inr (w\<lparr>wd_journal := j, wd_ledger := ledger\<rparr>))
      | (ledger, Inr (Some token, _)) \<Rightarrow>
          rbind (journal_note bytes (clocks 0) (queued_event n) (wd_journal w)) (\<lambda>j.
            case he_spawn_error env of
              None \<Rightarrow> Inr (w\<lparr>wd_journal := j, wd_ledger := ledger, wd_started := wd_started w @ [review_job_id n]\<rparr>)
            | Some text \<Rightarrow>
                (case cancel session (Some token) (he_ledger_clock env) ledger of
                   (_, Inl err) \<Rightarrow> Inl err
                 | (ledger', Inr _) \<Rightarrow>
                     rbind (record_event bytes (clocks 1) (spawn_failed_event text) None None j) (\<lambda>(j', _).
                       Inr (w\<lparr>wd_journal := j', wd_ledger := ledger'\<rparr>)))))"

definition spawn_shadow_review ::
  "(pyval \<Rightarrow> nat) \<Rightarrow> hook_config \<Rightarrow> hook_env \<Rightarrow> (nat \<Rightarrow> receipt) \<Rightarrow> payload \<Rightarrow> int \<Rightarrow> world \<Rightarrow> world result" where
  "spawn_shadow_review bytes cfg env clocks p n w =
     (if hc_every cfg = 0 \<or> he_disabled env \<or> he_capture_only env then Inr w
      else if n = 0 \<or> n mod hc_every cfg \<noteq> 0 then Inr w
      else let session = py_str (py_or (get p ''session_id'') (PStr [])) in
        if session = [] then Inr w else start_review bytes cfg env clocks session n w)"

section \<open>One invocation\<close>

text \<open>Capturing only: no reviewer, and nothing is enforced.\<close>

definition effective_config :: "hook_env \<Rightarrow> hook_config \<Rightarrow> hook_config" where
  "effective_config env cfg = (if he_capture_only env then cfg\<lparr>hc_every := 0, hc_observation_only := True\<rparr> else cfg)"

definition gate_of :: "hook_config \<Rightarrow> payload \<Rightarrow> gate" where
  "gate_of cfg p =
     \<lparr>forbidden_paths = hc_forbidden cfg, block_dependency_changes = hc_block_dependencies cfg,
      gate_root = as_str (get p ''cwd''), workspace_roots = hc_workspaces cfg\<rparr>"

definition hook_event :: "hook_config \<Rightarrow> payload \<Rightarrow> journal \<Rightarrow> trace_event" where
  "hook_event cfg p j =
     (let e = (event_from_hook p (hc_mcp cfg))\<lparr>ev_identity := Some (legacy_hook (hc_agent cfg) (as_str (get p ''session_id''))),
            ev_provenance := Some \<lparr>tp_source = ''codex_hook'', tp_method = as_str (get p ''hook_event_name'')\<rparr>\<rparr>
      in if ev_kind e = ''tool_result''
         then e\<lparr>ev_payload := dset ''checkpoint'' (opt_str (last_snapshot j)) (ev_payload e)\<rparr> else e)"

definition wants_snapshot :: "hook_config \<Rightarrow> payload \<Rightarrow> trace_event \<Rightarrow> bool" where
  "wants_snapshot cfg p e =
     (hc_snapshot_on_patch cfg \<and> as_str (get p ''cwd'') \<noteq> None
      \<and> (ev_kind e = ''sessionstart''
         \<or> ev_kind e \<in> set [''tool_proposal'', ''tool_result''] \<and> get (ev_payload e) ''reversibility_class'' = PStr ''B''))"

definition hook_adapter :: "hook_config \<Rightarrow> hook_env \<Rightarrow> payload \<Rightarrow> trace_event \<Rightarrow> journal \<Rightarrow> journal_adapter" where
  "hook_adapter cfg env p e j =
     \<lparr>ja_journal = j, ja_identity = ev_identity e, ja_provenance = ev_provenance e,
      ja_next = (if wants_snapshot cfg p e then he_snapshot env else None), ja_last = 0, ja_clock = he_clock env, ja_calls = 0\<rparr>"

definition denial :: "gate_decision \<Rightarrow> pyval" where
  "denial d = PDict [(''hookSpecificOutput'', PDict
     [(''hookEventName'', PStr ''PreToolUse''), (''permissionDecision'', PStr ''deny''),
      (''permissionDecisionReason'', PStr (''[spotter:'' @ py_str (str_value (gd_rule d)) @ ''] '' @ py_str (str_value (gd_reason d))))])]"

definition live_warning :: "hook_env \<Rightarrow> payload \<Rightarrow> pyval option" where
  "live_warning env p =
     (if he_disabled env \<or> he_capture_only env then None
      else case get p ''session_id'' of
        PStr session \<Rightarrow>
          if session = [] then None
          else if list_ex (\<lambda>row. case row of PDict r \<Rightarrow> get r ''id'' = PStr session \<and> get r ''observing'' = PBool True | _ \<Rightarrow> False)
              (case he_sessions env of PList rows \<Rightarrow> take 50 rows | _ \<Rightarrow> [])
          then None
          else Some (PDict [(''systemMessage'', PStr
            ''[spotter] Hook supervision is active, but live App Server observation is not confirmed for this session. Relaunch with `spotter codex`; run `spotter doctor` for details.'')])
      | _ \<Rightarrow> None)"

text \<open>After the verdict on a proposal: the shadow review, then the telemetry of the gate.\<close>

definition after_proposal ::
  "(pyval \<Rightarrow> nat) \<Rightarrow> hook_config \<Rightarrow> hook_env \<Rightarrow> payload \<Rightarrow> payload \<Rightarrow> journal_adapter \<Rightarrow> world \<Rightarrow> world result" where
  "after_proposal bytes cfg env p gate_telemetry a w =
     (let clocks = (\<lambda>n. he_clock env (ja_calls a + n)) in
      rbind (spawn_shadow_review bytes cfg env clocks p (ja_last a) (w\<lparr>wd_journal := ja_journal a\<rparr>)) (\<lambda>w1.
      rbind (adapter_record bytes ((plain_event ''gate_ipc'')\<lparr>ev_payload := dset ''hook_ms'' (PFloat (he_hook_ms env)) gate_telemetry\<rparr>)
          (a\<lparr>ja_journal := wd_journal w1, ja_calls := ja_calls a + 2\<rparr>)) (\<lambda>a1.
        Inr (w1\<lparr>wd_journal := ja_journal a1\<rparr>))))"

definition run_hook ::
  "(pyval \<Rightarrow> nat) \<Rightarrow> hook_config \<Rightarrow> hook_env \<Rightarrow> string \<Rightarrow> bool \<Rightarrow> payload \<Rightarrow> world \<Rightarrow> (pyval option \<times> world) result" where
  "run_hook bytes cfg0 env generation report_live p w =
     (let cfg = effective_config env cfg0; g = gate_of cfg p; e = hook_event cfg p (wd_journal w);
          judged = (if ev_kind e = ''tool_proposal''
             then Some (gate_over_ipc (he_capture_only env) (he_machine env) g (he_answer env) (he_ipc_ms env) e generation)
             else None)
      in rbind (observe (adapter_record bytes) (he_machine env) g (hc_observation_only cfg) (he_hex env) e
             (map_option fst judged) (hook_adapter cfg env p e (wd_journal w))) (\<lambda>(d, a).
         rbind (case judged of None \<Rightarrow> Inr (w\<lparr>wd_journal := ja_journal a\<rparr>)
                | Some (_, gate_telemetry) \<Rightarrow> after_proposal bytes cfg env p gate_telemetry a w) (\<lambda>w'.
         Inr (if gd_allowed d
              then if report_live \<and> ev_kind e = ''sessionstart'' then live_warning env p else None
              else Some (denial d), w'))))"

text \<open>The boundary of \<open>spotter hook\<close> (\<open>cli.py\<close>): an error prints a note and answers nothing, which allows.\<close>

definition hook_answer :: "(pyval option \<times> world) result \<Rightarrow> pyval option" where
  "hook_answer r = (case r of Inr (out, _) \<Rightarrow> out | Inl _ \<Rightarrow> None)"

end
