(* ===== verification/Hook_Claims.thy ===== *)
theory Hook_Claims
  imports Hook
begin

text \<open>
  What a hook invocation promises: in observation-only mode it denies nothing, it denies only
  blocked proposals, what happened is journaled before the answer, and a review starts only on its
  cadence and once for a proposal. Last, what a journal that cannot be read does to the gate.
\<close>

section \<open>The journal as an adapter\<close>

definition adapter_events :: "journal_adapter \<Rightarrow> trace_event list" where
  "adapter_events a =
     (case load_journal False False (journal_lines (ja_journal a)) of Inr (rs, _) \<Rightarrow> map sr_event rs | Inl _ \<Rightarrow> [])"

definition proposals :: "step_record list \<Rightarrow> nat" where
  "proposals rs = length (filter is_proposal rs)"

text \<open>The adapter's own count of proposals is the journal's, or it has seen none.\<close>

definition adapter_ok :: "journal_adapter \<Rightarrow> bool" where
  "adapter_ok a \<longleftrightarrow> (\<exists>rs. recoverable (ja_journal a) rs \<and> (ja_last a = 0 \<or> ja_last a = int (proposals rs)))
     \<and> (\<forall>n. 0 \<le> rc_monotonic (ja_clock a n))"

lemma recoverable_events: "recoverable (ja_journal a) rs \<Longrightarrow> adapter_events a = map sr_event rs"
  using recoverable_load [of "ja_journal a" rs] by (auto simp: adapter_events_def)

lemma adapted_simps [simp]: "normal_event (adopted a e) = normal_event e" "ev_kind (adopted a e) = ev_kind e" "ev_id (adopted a e) = ev_id e"
  by (simp_all add: adopted_def normal_event_def)

lemma new_record_simps [simp]:
  "ev_kind (sr_event (new_record clock e snap observed_at rs)) = ev_kind e"
  "ev_id (sr_event (new_record clock e snap observed_at rs)) = ev_id e"
  "is_proposal (new_record clock e snap observed_at rs) = (ev_kind e = ''tool_proposal'')"
  by (simp_all add: new_record_def stored_event_def is_proposal_def split: option.split)

lemma new_proposal_number:
  "ev_kind e = ''tool_proposal'' \<Longrightarrow> proposal_number (new_record clock e snap observed_at rs) = int (proposals rs) + 1"
  by (simp add: proposal_number_def new_record_def stored_event_def stored_payload_def proposals_def get_of_dset Let_def
      split: prod.split option.split)

lemma proposals_snoc [simp]: "proposals (rs @ [r]) = proposals rs + (if is_proposal r then 1 else 0)"
  by (simp add: proposals_def)

lemma adapter_record_law:
  assumes "adapter_ok a" "normal_event e"
  shows "\<exists>a' e'. adapter_record bytes e a = Inr a' \<and> adapter_ok a' \<and> adapter_events a' = adapter_events a @ [e']
    \<and> ev_kind e' = ev_kind e \<and> ev_id e' = ev_id e"
proof -
  obtain rs where rs: "recoverable (ja_journal a) rs" "ja_last a = 0 \<or> ja_last a = int (proposals rs)"
    and clock: "\<And>n. 0 \<le> rc_monotonic (ja_clock a n)"
    using assms(1) by (auto simp: adapter_ok_def)
  define r where "r = new_record (ja_clock a (ja_calls a)) (adopted a e) (ja_next a) None rs"
  from record_event_recoverable [OF rs(1), of "adopted a e" "ja_clock a (ja_calls a)" bytes "ja_next a" None] assms(2) clock
  obtain j where j: "record_event bytes (ja_clock a (ja_calls a)) (adopted a e) (ja_next a) None (ja_journal a) = Inr (j, r)"
    "well_formed j (rs @ [r])"
    unfolding r_def by auto
  define a' where "a' = a\<lparr>ja_journal := j, ja_next := None, ja_calls := Suc (ja_calls a),
    ja_last := (if ev_kind e = ''tool_proposal'' then proposal_number r else ja_last a)\<rparr>"
  have "recoverable (ja_journal a') (rs @ [r])" using j(2) by (simp add: a'_def recoverable_def)
  moreover from this have "adapter_events a' = adapter_events a @ [sr_event r]"
    using recoverable_events [of a'] recoverable_events [OF rs(1)] by simp
  moreover have "ja_last a' = 0 \<or> ja_last a' = int (proposals (rs @ [r]))"
    using rs(2) by (auto simp: a'_def r_def new_proposal_number)
  moreover have "adapter_record bytes e a = Inr a'" using j(1) by (simp add: adapter_record_def a'_def)
  moreover have "ev_kind (sr_event r) = ev_kind e" "ev_id (sr_event r) = ev_id e" by (simp_all add: r_def)
  moreover have "ja_clock a' = ja_clock a" by (simp add: a'_def)
  ultimately show ?thesis using clock unfolding adapter_ok_def by metis
qed

interpretation journaled: event_sink "adapter_record bytes" adapter_events adapter_ok normal_event for bytes
proof
  show "adapter_ok a \<Longrightarrow> normal_event e \<Longrightarrow> \<exists>a' e'. adapter_record bytes e a = Inr a' \<and> adapter_ok a'
      \<and> adapter_events a' = adapter_events a @ [e'] \<and> ev_kind e' = ev_kind e \<and> ev_id e' = ev_id e" for a e
    using adapter_record_law .
qed (simp add: normal_event_def only_def)

section \<open>Denials\<close>

lemma observe_verdict:
  assumes "observe put_event m g observation_only hex e decision s = Inr (d', s')"
  shows "gd_allowed d' \<or> \<not> observation_only \<and> d' = (case decision of None \<Rightarrow> check_event m g e | Some d \<Rightarrow> d)"
  using assms by (auto simp: observe_def Let_def rbind_Inr allow_def split: if_splits)

lemma no_decision_allows:
  "ev_kind e \<noteq> ''tool_proposal'' \<Longrightarrow> observe put_event m g observation_only hex e None s = Inr (d', s') \<Longrightarrow> gd_allowed d'"
  using observe_verdict [of put_event m g observation_only hex e None s d' s'] by (auto simp: check_event_def allow_def)

text \<open>The verdict an invocation acts on.\<close>

definition hook_verdict :: "hook_config \<Rightarrow> hook_env \<Rightarrow> string \<Rightarrow> payload \<Rightarrow> world \<Rightarrow> gate_decision" where
  "hook_verdict cfg env generation p w =
     (let e = hook_event (effective_config env cfg) p (wd_journal w) in
      if ev_kind e = ''tool_proposal''
      then fst (gate_over_ipc (he_capture_only env) (he_machine env) (gate_of (effective_config env cfg) p) (he_answer env)
             (he_ipc_ms env) e generation)
      else allow)"

section \<open>What an invocation leaves behind\<close>

lemma hook_event_normal: "normal_event (hook_event cfg p j)"
  by (simp add: hook_event_def event_from_hook_def proposal_event_def result_event_def plain_event_def normal_event_def
      only_def Let_def)

lemma effect_not_proposal: "effect_event e = Some f \<Longrightarrow> ev_kind f \<noteq> ''tool_proposal''"
  by (auto simp: effect_event_def plain_event_def Let_def split: if_splits)

definition proposal_marks :: "(string \<times> string option) list \<Rightarrow> nat" where
  "proposal_marks ms = length (filter (\<lambda>m. fst m = ''tool_proposal'') ms)"

lemma proposal_marks_append [simp]: "proposal_marks (xs @ ys) = proposal_marks xs + proposal_marks ys"
  by (simp add: proposal_marks_def)

lemma observed_proposals:
  "proposal_marks (observed_marks observation_only hex d e) = (if ev_kind e = ''tool_proposal'' then 1 else 0)"
  by (auto simp: observed_marks_def proposal_marks_def verdict_marks_def dest: effect_not_proposal split: option.split)

lemma marks_proposals: "proposal_marks (map journaled.mark (map sr_event rs)) = proposals rs"
  by (simp add: proposals_def proposal_marks_def is_proposal_def [abs_def] journaled.mark_def filter_map o_def)

lemma hook_adapter_ok:
  "recoverable j rs \<Longrightarrow> \<forall>n. 0 \<le> rc_monotonic (he_clock env n) \<Longrightarrow> adapter_ok (hook_adapter cfg env p e j)"
  by (auto simp: adapter_ok_def hook_adapter_def)

text \<open>Observing the event of an invocation.\<close>

lemma hook_observes:
  assumes "recoverable j rs" "\<forall>n. 0 \<le> rc_monotonic (he_clock env n)" "normal_event e"
    and d: "d = (case decision of None \<Rightarrow> check_event m g e | Some d \<Rightarrow> d)"
  shows "\<exists>a rs'. observe (adapter_record bytes) m g observation_only hex e decision (hook_adapter cfg env p e j) =
      Inr (if gd_allowed d \<or> \<not> observation_only then d else allow, a)
    \<and> recoverable (ja_journal a) rs' \<and> (ja_last a = 0 \<or> ja_last a = int (proposals rs'))
    \<and> (\<forall>n. 0 \<le> rc_monotonic (ja_clock a n))
    \<and> map journaled.mark (map sr_event rs') = map journaled.mark (map sr_event rs) @ observed_marks observation_only hex d e"
proof -
  let ?a = "hook_adapter cfg env p e j"
  have ok: "adapter_ok ?a" using hook_adapter_ok [OF assms(1,2)] .
  obtain a where a: "observe (adapter_record bytes) m g observation_only hex e decision ?a =
      Inr (if gd_allowed d \<or> \<not> observation_only then d else allow, a)" "adapter_ok a"
    "map journaled.mark (adapter_events a) = map journaled.mark (adapter_events ?a) @ observed_marks observation_only hex d e"
    using journaled.observe_returns [OF ok assms(3) d] by blast
  obtain rs' where rs': "recoverable (ja_journal a) rs'" "ja_last a = 0 \<or> ja_last a = int (proposals rs')"
    "\<forall>n. 0 \<le> rc_monotonic (ja_clock a n)" using a(2) unfolding adapter_ok_def by blast
  have "recoverable (ja_journal ?a) rs" using assms(1) by (simp add: hook_adapter_def)
  then have "adapter_events ?a = map sr_event rs" "adapter_events a = map sr_event rs'"
    using recoverable_events rs'(1) by blast+
  then show ?thesis using a(1,3) rs' by metis
qed

lemma note_recoverable:
  assumes "recoverable j rs" "normal_event e" "0 \<le> rc_monotonic clock"
  shows "\<exists>j' r. record_event bytes clock e None None j = Inr (j', r) \<and> journal_note bytes clock e j = Inr j'
    \<and> recoverable j' (rs @ [r]) \<and> is_proposal r = (ev_kind e = ''tool_proposal'')"
proof -
  obtain j' where "record_event bytes clock e None None j = Inr (j', new_record clock e None None rs)"
    "well_formed j' (rs @ [new_record clock e None None rs])"
    using record_event_recoverable [OF assms] by blast
  then show ?thesis by (auto simp: journal_note_def recoverable_def)
qed

lemma notes_normal:
  "normal_event (refusal_event text)" "normal_event (queued_event n)" "normal_event (spawn_failed_event text)"
  "ev_kind (refusal_event text) \<noteq> ''tool_proposal''" "ev_kind (queued_event n) \<noteq> ''tool_proposal''"
  "ev_kind (spawn_failed_event text) \<noteq> ''tool_proposal''"
  by (simp_all add: refusal_event_def queued_event_def spawn_failed_event_def plain_event_def normal_event_def only_def)

text \<open>Starting a review adds notes to the journal and starts at most the one process.\<close>

lemma start_review_effect:
  assumes "recoverable (wd_journal w) rs" "\<And>n. 0 \<le> rc_monotonic (clocks n)"
    and "start_review bytes cfg env clocks session n w = Inr w'"
  shows "\<exists>rs'. recoverable (wd_journal w') rs' \<and> proposals rs' = proposals rs
    \<and> (wd_started w' = wd_started w \<or> wd_started w' = wd_started w @ [review_job_id n])"
proof -
  obtain ledger res where res: "reserve session (hc_per_session cfg) (hc_per_day cfg) (he_ledger_clock env) (he_token env) (wd_ledger w)
    = (ledger, res)" by fastforce
  consider (refused) msg where "res = Inr (None, msg)" | (granted) token msg where "res = Inr (Some token, msg)"
    using assms(3) res by (auto simp: start_review_def split: sum.splits option.splits)
  then show ?thesis
  proof cases
    case refused
    obtain j r where "journal_note bytes (clocks 0) (refusal_event msg) (wd_journal w) = Inr j"
      "recoverable j (rs @ [r])" "\<not> is_proposal r"
      using note_recoverable [OF assms(1) notes_normal(1) assms(2)] notes_normal(4) by metis
    moreover from this have "w' = w\<lparr>wd_journal := j, wd_ledger := ledger\<rparr>"
      using assms(3) by (simp add: start_review_def res refused)
    ultimately show ?thesis by (intro exI [of _ "rs @ [r]"]) simp
  next
    case granted
    obtain j r where j: "journal_note bytes (clocks 0) (queued_event n) (wd_journal w) = Inr j"
      "recoverable j (rs @ [r])" "\<not> is_proposal r"
      using note_recoverable [OF assms(1) notes_normal(2) assms(2)] notes_normal(5) by metis
    show ?thesis
    proof (cases "he_spawn_error env")
      case None
      then have "w' = w\<lparr>wd_journal := j, wd_ledger := ledger, wd_started := wd_started w @ [review_job_id n]\<rparr>"
        using assms(3) by (simp add: start_review_def res granted j(1))
      then show ?thesis using j by (intro exI [of _ "rs @ [r]"]) simp
    next
      case (Some msg)
      obtain j2 r2 where j2: "record_event bytes (clocks (Suc 0)) (spawn_failed_event msg) None None j = Inr (j2, r2)"
        "recoverable j2 ((rs @ [r]) @ [r2])" "\<not> is_proposal r2"
        using note_recoverable [OF j(2) notes_normal(3) assms(2)] notes_normal(6) by metis
      have "wd_journal w' = j2 \<and> wd_started w' = wd_started w"
        using assms(3) by (auto simp: start_review_def res granted j(1) Some j2(1) split: prod.splits sum.splits)
      then show ?thesis using j(3) j2 by (intro exI [of _ "(rs @ [r]) @ [r2]"]) (simp add: proposals_def)
    qed
  qed
qed

lemma spawn_effect:
  assumes "recoverable (wd_journal w) rs" "\<And>n. 0 \<le> rc_monotonic (clocks n)"
    and "spawn_shadow_review bytes cfg env clocks p n w = Inr w'"
  shows "\<exists>rs'. recoverable (wd_journal w') rs' \<and> proposals rs' = proposals rs
    \<and> (wd_started w' = wd_started w \<or> wd_started w' = wd_started w @ [review_job_id n] \<and> n \<noteq> 0 \<and> hc_every cfg dvd n)"
proof (cases "wd_started w' = wd_started w \<and> wd_journal w' = wd_journal w")
  case True
  then show ?thesis using assms(1) by metis
next
  case False
  then have "n \<noteq> 0" "hc_every cfg dvd n" "\<exists>session. start_review bytes cfg env clocks session n w = Inr w'"
    using assms(3) by (auto simp: spawn_shadow_review_def Let_def dvd_eq_mod_eq_0 split: if_splits)
  then show ?thesis using start_review_effect [where clocks = clocks, OF assms(1,2)] by blast
qed

lemma after_proposal_effect:
  assumes "recoverable (ja_journal a) rs" "ja_last a = 0 \<or> ja_last a = int (proposals rs)"
    and "\<forall>n. 0 \<le> rc_monotonic (ja_clock a n)" "\<forall>n. 0 \<le> rc_monotonic (he_clock env n)"
    and "after_proposal bytes cfg env p gate_telemetry a w = Inr w'"
  shows "\<exists>rs'. recoverable (wd_journal w') rs' \<and> proposals rs' = proposals rs
    \<and> (wd_started w' = wd_started w
       \<or> wd_started w' = wd_started w @ [review_job_id (int (proposals rs))] \<and> proposals rs \<noteq> 0 \<and> hc_every cfg dvd int (proposals rs))"
proof -
  let ?e = "(plain_event ''gate_ipc'')\<lparr>ev_payload := dset ''hook_ms'' (PFloat (he_hook_ms env)) gate_telemetry\<rparr>"
  let ?clocks = "\<lambda>n. he_clock env (ja_calls a + n)"
  obtain w1 a1 where w1: "spawn_shadow_review bytes cfg env ?clocks p (ja_last a) (w\<lparr>wd_journal := ja_journal a\<rparr>) = Inr w1"
    and a1: "adapter_record bytes ?e (a\<lparr>ja_journal := wd_journal w1, ja_calls := ja_calls a + 2\<rparr>) = Inr a1"
    and w': "w' = w1\<lparr>wd_journal := ja_journal a1\<rparr>"
    using assms(5) by (auto simp: after_proposal_def Let_def rbind_Inr)
  obtain rs1 where rs1: "recoverable (wd_journal w1) rs1" "proposals rs1 = proposals rs"
    "wd_started w1 = wd_started w \<or> wd_started w1 = wd_started w @ [review_job_id (ja_last a)] \<and> ja_last a \<noteq> 0
      \<and> hc_every cfg dvd ja_last a"
    using spawn_effect [OF _ _ w1, of rs] assms(1,4) by auto
  obtain j r where r: "record_event bytes (ja_clock a (ja_calls a + 2)) (adopted a ?e) (ja_next a) None (wd_journal w1) = Inr (j, r)"
    "recoverable j (rs1 @ [r])" "\<not> is_proposal r"
  proof -
    have "normal_event ?e" by (simp add: plain_event_def normal_event_def only_def)
    then have "normal_event (adopted a ?e)" by simp
    from record_event_recoverable [OF rs1(1) this, of "ja_clock a (ja_calls a + 2)" bytes "ja_next a" None] assms(3) that
    show thesis by (auto simp: recoverable_def plain_event_def)
  qed
  have "adopted (a\<lparr>ja_journal := wd_journal w1, ja_calls := ja_calls a + 2\<rparr>) ?e = adopted a ?e" by (simp add: adopted_def)
  then have "ja_journal a1 = j" using a1 r(1) by (auto simp: adapter_record_def)
  then show ?thesis using rs1(2,3) r(2,3) assms(2) w' by (intro exI [of _ "rs1 @ [r]"]) auto
qed

section \<open>Properties\<close>

text \<open>The parts of one invocation.\<close>

lemma run_hook_parts:
  assumes "run_hook bytes cfg env generation live p w = Inr (out, w')"
    and "recoverable (wd_journal w) rs" "\<forall>n. 0 \<le> rc_monotonic (he_clock env n)"
  shows "\<exists>rs'. recoverable (wd_journal w') rs'
    \<and> proposals rs' = proposals rs + (if ev_kind (hook_event (effective_config env cfg) p (wd_journal w)) = ''tool_proposal'' then 1 else 0)
    \<and> (wd_started w' = wd_started w
       \<or> wd_started w' = wd_started w @ [review_job_id (int (proposals rs'))] \<and> proposals rs < proposals rs' \<and> hc_every cfg dvd int (proposals rs'))"
proof -
  define cfg' where "cfg' = effective_config env cfg"
  define e where "e = hook_event cfg' p (wd_journal w)"
  define judged where "judged = (if ev_kind e = ''tool_proposal''
    then Some (gate_over_ipc (he_capture_only env) (he_machine env) (gate_of cfg' p) (he_answer env) (he_ipc_ms env) e generation)
    else None)"
  define d where "d = (case map_option fst judged of None \<Rightarrow> check_event (he_machine env) (gate_of cfg' p) e | Some d \<Rightarrow> d)"
  have "normal_event e" by (simp add: e_def hook_event_normal)
  from hook_observes [OF assms(2,3) this d_def] obtain a rs1 where
    a: "observe (adapter_record bytes) (he_machine env) (gate_of cfg' p) (hc_observation_only cfg')
      (he_hex env) e (map_option fst judged) (hook_adapter cfg' env p e (wd_journal w))
      = Inr (if gd_allowed d \<or> \<not> hc_observation_only cfg' then d else allow, a)"
    and rs1: "recoverable (ja_journal a) rs1" "ja_last a = 0 \<or> ja_last a = int (proposals rs1)"
      "\<forall>n. 0 \<le> rc_monotonic (ja_clock a n)"
      "map journaled.mark (map sr_event rs1)
        = map journaled.mark (map sr_event rs) @ observed_marks (hc_observation_only cfg') (he_hex env) d e" by blast
  have count: "proposals rs1 = proposals rs + (if ev_kind e = ''tool_proposal'' then 1 else 0)"
    using arg_cong [OF rs1(4), of proposal_marks] by (simp only: proposal_marks_append marks_proposals observed_proposals)
  have run: "(case judged of None \<Rightarrow> Inr (w\<lparr>wd_journal := ja_journal a\<rparr>)
      | Some (_, gate_telemetry) \<Rightarrow> after_proposal bytes cfg' env p gate_telemetry a w) = Inr w'"
    using assms(1) [unfolded run_hook_def Let_def, folded cfg'_def, folded e_def, folded judged_def]
    unfolding a rbind.simps prod.case rbind_Inr by blast
  show ?thesis
  proof (cases "ev_kind e = ''tool_proposal''")
    case True
    then obtain gate_telemetry where "after_proposal bytes cfg' env p gate_telemetry a w = Inr w'"
      using run by (auto simp: judged_def rbind_Inr split: prod.splits)
    from after_proposal_effect [OF rs1(1-3) assms(3) this] obtain rs' where rs': "recoverable (wd_journal w') rs'"
      "proposals rs' = proposals rs1" "wd_started w' = wd_started w \<or> wd_started w' = wd_started w @ [review_job_id (int (proposals rs1))]
        \<and> proposals rs1 \<noteq> 0 \<and> hc_every cfg' dvd int (proposals rs1)" by blast
    have every: "hc_every cfg dvd int k" if "hc_every cfg' dvd int k" "k \<noteq> 0" for k
      using that by (auto simp: cfg'_def effective_config_def split: if_splits)
    have less: "proposals rs < proposals rs1" using count True by simp
    have "wd_started w' = wd_started w \<or> wd_started w' = wd_started w @ [review_job_id (int (proposals rs'))]
        \<and> proposals rs < proposals rs' \<and> hc_every cfg dvd int (proposals rs')"
      using rs'(3) every [of "proposals rs1"] less unfolding rs'(2) by blast
    moreover have "proposals rs' = proposals rs + (if ev_kind (hook_event (effective_config env cfg) p (wd_journal w)) = ''tool_proposal'' then 1 else 0)"
      using count rs'(2) by (simp add: e_def cfg'_def)
    ultimately show ?thesis using rs'(1) by blast
  next
    case False
    then have "w' = w\<lparr>wd_journal := ja_journal a\<rparr>" using run by (simp add: judged_def)
    then show ?thesis using rs1(1) count False by (intro exI [of _ rs1]) (simp add: e_def cfg'_def)
  qed
qed

text \<open>
  Invocations one after another, from an empty journal; in between, other processes may change the review ledger.
\<close>

inductive hook_run :: "(pyval \<Rightarrow> nat) \<Rightarrow> hook_config \<Rightarrow> world \<Rightarrow> bool" for bytes cfg where
  begun: "hook_run bytes cfg \<lparr>wd_journal = new_journal, wd_ledger = ledger, wd_started = []\<rparr>"
| elsewhere: "hook_run bytes cfg w \<Longrightarrow> hook_run bytes cfg (w\<lparr>wd_ledger := ledger\<rparr>)"
| invoked: "hook_run bytes cfg w \<Longrightarrow> \<forall>n. 0 \<le> rc_monotonic (he_clock env n)
    \<Longrightarrow> run_hook bytes cfg env generation live p w = Inr (out, w') \<Longrightarrow> hook_run bytes cfg w'"

lemma hook_run_cadence:
  "hook_run bytes cfg w \<Longrightarrow> \<exists>rs ns. recoverable (wd_journal w) rs \<and> wd_started w = map (\<lambda>n. review_job_id (int n)) ns
     \<and> sorted_wrt (<) ns \<and> (\<forall>n \<in> set ns. n \<le> proposals rs \<and> hc_every cfg dvd int n)"
proof (induction rule: hook_run.induct)
  case (begun ledger)
  show ?case by (intro exI [of _ "[]"]) (simp add: new_journal_def recoverable_def well_formed_def sound_Nil sidecar_ok_def)
next
  case (elsewhere w ledger)
  then show ?case by simp
next
  case (invoked w env generation live p out w')
  then obtain rs ns where ns: "recoverable (wd_journal w) rs" "wd_started w = map (\<lambda>n. review_job_id (int n)) ns"
    "sorted_wrt (<) ns" "\<forall>n \<in> set ns. n \<le> proposals rs \<and> hc_every cfg dvd int n" by blast
  obtain rs' where rs': "recoverable (wd_journal w') rs'" "proposals rs \<le> proposals rs'"
    "wd_started w' = wd_started w
       \<or> wd_started w' = wd_started w @ [review_job_id (int (proposals rs'))] \<and> proposals rs < proposals rs' \<and> hc_every cfg dvd int (proposals rs')"
    using run_hook_parts [OF invoked(3) ns(1) invoked(2)] by (metis le_add1)
  from rs'(3) show ?case
  proof
    assume "wd_started w' = wd_started w"
    then show ?thesis using ns(2-4) rs'(1,2) by (intro exI [of _ rs'] exI [of _ ns]) auto
  next
    assume "wd_started w' = wd_started w @ [review_job_id (int (proposals rs'))] \<and> proposals rs < proposals rs' \<and> hc_every cfg dvd int (proposals rs')"
    then show ?thesis using ns(2-4) rs'(1,2)
      by (intro exI [of _ rs'] exI [of _ "ns @ [proposals rs']"]) (auto simp: sorted_wrt_append)
  qed
qed

text \<open>Without a review to start, an invocation on a recoverable journal returns.\<close>

lemma after_proposal_quiet:
  assumes "recoverable (ja_journal a) rs" "\<forall>n. 0 \<le> rc_monotonic (ja_clock a n)" "hc_every cfg = 0"
  shows "\<exists>j r. after_proposal bytes cfg env p gate_telemetry a w = Inr (w\<lparr>wd_journal := j\<rparr>)
    \<and> recoverable j (rs @ [r]) \<and> journaled.mark (sr_event r) = (''gate_ipc'', None)"
proof -
  define a0 where "a0 = a\<lparr>ja_calls := ja_calls a + 2\<rparr>"
  define e where "e = (plain_event ''gate_ipc'')\<lparr>ev_payload := dset ''hook_ms'' (PFloat (he_hook_ms env)) gate_telemetry\<rparr>"
  have e: "normal_event e" "ev_kind e = ''gate_ipc''" "ev_id e = None"
    by (simp_all add: e_def plain_event_def normal_event_def only_def)
  then have "normal_event (adopted a0 e)" by simp
  from record_event_recoverable [OF assms(1) this, of "ja_clock a (ja_calls a0)" bytes "ja_next a0" None] assms(2)
  obtain j where j: "record_event bytes (ja_clock a (ja_calls a0)) (adopted a0 e) (ja_next a0) None (ja_journal a)
      = Inr (j, new_record (ja_clock a (ja_calls a0)) (adopted a0 e) (ja_next a0) None rs)"
    "well_formed j (rs @ [new_record (ja_clock a (ja_calls a0)) (adopted a0 e) (ja_next a0) None rs])" by blast
  have "adapter_record bytes e (a\<lparr>ja_journal := ja_journal a, ja_calls := ja_calls a + 2\<rparr>)
      = Inr (a0\<lparr>ja_journal := j, ja_next := None, ja_calls := Suc (ja_calls a0)\<rparr>)"
    using j(1) e(2) by (simp add: adapter_record_def a0_def)
  then have "after_proposal bytes cfg env p gate_telemetry a w = Inr (w\<lparr>wd_journal := j\<rparr>)"
    using assms(3) by (simp add: after_proposal_def spawn_shadow_review_def e_def)
  moreover have "recoverable j (rs @ [new_record (ja_clock a (ja_calls a0)) (adopted a0 e) (ja_next a0) None rs])"
    using j(2) unfolding recoverable_def by blast
  ultimately show ?thesis using e(2,3)
    by (intro exI [of _ j] exI [of _ "new_record (ja_clock a (ja_calls a0)) (adopted a0 e) (ja_next a0) None rs"])
      (simp add: journaled.mark_def)
qed

text \<open>The kinds and identifiers a journal holds.\<close>

definition journal_marks :: "step_record list \<Rightarrow> (string \<times> string option) list" where
  "journal_marks rs = map (\<lambda>r. (ev_kind (sr_event r), ev_id (sr_event r))) rs"

lemma journal_marks_eq: "map journaled.mark (map sr_event rs) = journal_marks rs"
  by (simp add: journal_marks_def journaled.mark_def)

text \<open>The judgement of an invocation's event, and what the gate says of it.\<close>

definition judged_event :: "hook_config \<Rightarrow> hook_env \<Rightarrow> payload \<Rightarrow> world \<Rightarrow> trace_event" where
  "judged_event cfg env p w = hook_event (effective_config env cfg) p (wd_journal w)"

text \<open>What the invocation journals: the event, its effect, the verdict, and the telemetry of the gate.\<close>

definition hook_marks :: "hook_config \<Rightarrow> hook_env \<Rightarrow> string \<Rightarrow> payload \<Rightarrow> world \<Rightarrow> (string \<times> string option) list" where
  "hook_marks cfg env generation p w =
     (let e = judged_event cfg env p w in
      observed_marks (hc_observation_only (effective_config env cfg)) (he_hex env) (hook_verdict cfg env generation p w) e
      @ (if ev_kind e = ''tool_proposal'' then [(''gate_ipc'', None)] else []))"

lemma quiet_invocation:
  assumes "recoverable (wd_journal w) rs" "\<forall>n. 0 \<le> rc_monotonic (he_clock env n)" "hc_every (effective_config env cfg) = 0"
  shows "\<exists>j rs'. run_hook bytes cfg env generation False p w =
      Inr (if gd_allowed (hook_verdict cfg env generation p w) \<or> hc_observation_only (effective_config env cfg) then None
           else Some (denial (hook_verdict cfg env generation p w)), w\<lparr>wd_journal := j\<rparr>)
    \<and> recoverable j rs' \<and> journal_marks rs' = journal_marks rs @ hook_marks cfg env generation p w"
proof -
  define cfg' where "cfg' = effective_config env cfg"
  define e where "e = hook_event cfg' p (wd_journal w)"
  define judged where "judged = (if ev_kind e = ''tool_proposal''
    then Some (gate_over_ipc (he_capture_only env) (he_machine env) (gate_of cfg' p) (he_answer env) (he_ipc_ms env) e generation)
    else None)"
  have d: "hook_verdict cfg env generation p w
      = (case map_option fst judged of None \<Rightarrow> check_event (he_machine env) (gate_of cfg' p) e | Some d \<Rightarrow> d)"
    by (simp add: hook_verdict_def cfg'_def [symmetric] e_def [symmetric] judged_def Let_def check_event_def)
  define d where "d = hook_verdict cfg env generation p w"
  have "normal_event e" by (simp add: e_def hook_event_normal)
  from hook_observes [OF assms(1,2) this d [folded d_def]] obtain a rs1 where
    a: "observe (adapter_record bytes) (he_machine env) (gate_of cfg' p) (hc_observation_only cfg')
      (he_hex env) e (map_option fst judged) (hook_adapter cfg' env p e (wd_journal w))
      = Inr (if gd_allowed d \<or> \<not> hc_observation_only cfg' then d else allow, a)"
    and rs1: "recoverable (ja_journal a) rs1" "\<forall>n. 0 \<le> rc_monotonic (ja_clock a n)"
      "journal_marks rs1 = journal_marks rs @ observed_marks (hc_observation_only cfg') (he_hex env) d e"
    unfolding journal_marks_eq by blast
  have marks: "hook_marks cfg env generation p w = observed_marks (hc_observation_only cfg') (he_hex env) d e
      @ (if ev_kind e = ''tool_proposal'' then [(''gate_ipc'', None)] else [])"
    by (simp add: hook_marks_def judged_event_def cfg'_def e_def d_def)
  obtain j rs2 where j: "(case judged of None \<Rightarrow> Inr (w\<lparr>wd_journal := ja_journal a\<rparr>)
      | Some (_, gate_telemetry) \<Rightarrow> after_proposal bytes cfg' env p gate_telemetry a w) = Inr (w\<lparr>wd_journal := j\<rparr>)"
    "recoverable j rs2" "journal_marks rs2 = journal_marks rs1 @ (if ev_kind e = ''tool_proposal'' then [(''gate_ipc'', None)] else [])"
  proof (cases judged)
    case None
    then show thesis using that [of "ja_journal a" rs1] rs1(1) by (simp add: judged_def split: if_splits)
  next
    case (Some v)
    obtain j r where "after_proposal bytes cfg' env p (snd v) a w = Inr (w\<lparr>wd_journal := j\<rparr>)" "recoverable j (rs1 @ [r])"
      "journaled.mark (sr_event r) = (''gate_ipc'', None)"
      using after_proposal_quiet [OF rs1(1,2) assms(3) [folded cfg'_def]] by blast
    then show thesis using that [of j "rs1 @ [r]"] Some
      by (simp add: case_prod_unfold judged_def journal_marks_def journaled.mark_def split: if_splits)
  qed
  have "run_hook bytes cfg env generation False p w = Inr (if gd_allowed d \<or> hc_observation_only cfg' then None else Some (denial d), w\<lparr>wd_journal := j\<rparr>)"
    unfolding run_hook_def Let_def cfg'_def [symmetric] e_def [symmetric] judged_def [symmetric] a rbind.simps prod.case j(1)
    by (simp add: allow_def)
  moreover have "journal_marks rs2 = journal_marks rs @ hook_marks cfg env generation p w" using j(3) rs1(3) marks by simp
  ultimately show ?thesis using j(2) unfolding cfg'_def d_def by blast
qed




text \<open>A journal torn inside a character disarms the gate: whatever is proposed, the invocation ends in an error
  before any answer, and the hook answers nothing, which allows.\<close>

theorem torn_journal_disarms_gate:
  assumes "sound f rs" and "l_content t = content.Undecodable"
    and "j_file (wd_journal w) = Some (f @ [t])" and "load_state_cache (j_state (wd_journal w)) (file_size (f @ [t])) = None"
  shows "run_hook bytes cfg env generation live p w = Inl UnicodeDecodeError
    \<and> hook_answer (run_hook bytes cfg env generation live p w) = None"
proof -
  have "record_event bytes clock e snap observed_at (wd_journal w) = Inl UnicodeDecodeError" for clock e snap observed_at
    using load_append [of 0 0 f rs f True False "[t]"] assms
    by (simp add: record_event_def current_counts_def sound_def load_journal_def)
  then have "observe (adapter_record bytes) m g observation_only hex e decision (hook_adapter cfg' env p e' (wd_journal w))
      = Inl UnicodeDecodeError" for m g observation_only hex e decision cfg' e'
    by (simp add: observe_def adapter_record_def hook_adapter_def Let_def)
  then show ?thesis by (simp add: run_hook_def Let_def hook_answer_def)
qed

section \<open>Samples\<close>

definition sample_config :: hook_config where
  "sample_config =
     \<lparr>hc_agent = ''codex'', hc_every = 0, hc_per_session = 5, hc_per_day = 9, hc_forbidden = [], hc_workspaces = [],
      hc_block_dependencies = False, hc_observation_only = False, hc_snapshot_on_patch = False, hc_mcp = []\<rparr>"

definition sample_block :: gate_decision where
  "sample_block = block ''catastrophic_rm'' ''no''"

definition sample_env :: hook_env where
  "sample_env =
     \<lparr>he_capture_only = False, he_disabled = False, he_machine = \<lparr>home_of = (\<lambda>user. None), scratch_dirs = scratch_roots ''/tmp'' (\<lambda>p. p)\<rparr>,
      he_answer = Answered sample_block None None, he_ipc_ms = Fin 1, he_hook_ms = Fin 2,
      he_hex = ''0123456789abcdef'', he_snapshot = None, he_spawn_error = None, he_clock = (\<lambda>n. sample_clock),
      he_ledger_clock = \<lparr>ck_now = Some (Fin 5), ck_wall = Fin 5\<rparr>, he_token = ''t'', he_sessions = PNone\<rparr>"

definition sample_input :: payload where
  "sample_input = [(''hook_event_name'', PStr ''PreToolUse''), (''session_id'', PStr ''s'')]"

definition sample_world :: world where
  "sample_world = \<lparr>wd_journal = new_journal, wd_ledger = Absent, wd_started = []\<rparr>"

lemma sample_setting:
  "recoverable (wd_journal sample_world) []" "\<forall>n. 0 \<le> rc_monotonic (he_clock sample_env n)"
  "effective_config sample_env sample_config = sample_config" "hc_every sample_config = 0" "\<not> hc_observation_only sample_config"
  by (simp_all add: sample_world_def new_journal_def recoverable_def well_formed_def sound_Nil sidecar_ok_def sample_env_def
      sample_clock_def effective_config_def sample_config_def)

lemma sample_verdict: "hook_verdict sample_config sample_env ''g'' sample_input sample_world = sample_block"
proof -
  have "ev_kind (hook_event sample_config sample_input (wd_journal sample_world)) = ''tool_proposal''"
    by (simp add: hook_event_def event_from_hook_def sample_input_def proposal_event_def plain_event_def Let_def)
  then show ?thesis by (simp add: hook_verdict_def sample_setting gate_over_ipc_def) (simp add: sample_env_def)
qed

lemma sample_invocation:
  "\<exists>j. run_hook bytes sample_config sample_env ''g'' False sample_input sample_world
      = Inr (Some (denial sample_block), sample_world\<lparr>wd_journal := j\<rparr>)"
  using quiet_invocation [OF sample_setting(1,2), of sample_config bytes "''g''" sample_input]
  by (auto simp: sample_setting sample_verdict sample_block_def block_def)




definition torn_world :: world where
  "torn_world = sample_world\<lparr>wd_journal := \<lparr>j_file = Some [\<lparr>l_content = content.Undecodable, l_bytes = 4, l_ended = False\<rparr>],
     j_state = None\<rparr>\<rparr>"

theorem torn_journal_disarms_gate_witness:
  "hook_answer (run_hook (\<lambda>v. 1) sample_config sample_env ''g'' False sample_input torn_world) = None"
proof -
  let ?t = "\<lparr>l_content = content.Undecodable, l_bytes = 4, l_ended = False\<rparr>"
  have "j_file (wd_journal torn_world) = Some ([] @ [?t])" "load_state_cache (j_state (wd_journal torn_world)) (file_size ([] @ [?t])) = None"
    by (simp_all add: torn_world_def load_state_cache_def)
  from torn_journal_disarms_gate [OF sound_Nil _ this] show ?thesis by (rule conjunct2) simp
qed

end
