(* ===== verification/Py_Json.thy ===== *)
theory Py_Json
  imports Py_Value
begin

text \<open>
  Python's \<open>json\<close> as the line-oriented stores use it: \<open>dumps\<close> with its default separators, with and
  without \<open>ensure_ascii\<close>, and \<open>loads\<close>. The parser runs on fuel; a text never needs more than one unit
  for each of its characters (\<open>parse_fuel\<close>). An escape beyond code point 255 is outside the model and
  read as an error.
\<close>

section \<open>dumps\<close>

definition dquote :: char where "dquote = char_of (34::int)"
definition bslash :: char where "bslash = char_of (92::int)"

definition ascii_escape :: "char \<Rightarrow> string" where
  "ascii_escape c =
     (if code c < 127 then json_escape c
      else bslash # ''u00'' @ [hex_digit (code c div 16), hex_digit (code c mod 16)])"

definition escape_char :: "bool \<Rightarrow> char \<Rightarrow> string" where
  "escape_char ascii c = (if ascii then ascii_escape c else json_escape c)"

definition json_quote :: "bool \<Rightarrow> string \<Rightarrow> string" where
  "json_quote ascii s = dquote # concat (map (escape_char ascii) s) @ [dquote]"

function json_text :: "bool \<Rightarrow> pyval \<Rightarrow> string" where
  "json_text ascii PNone = ''null''"
| "json_text ascii (PBool b) = (if b then ''true'' else ''false'')"
| "json_text ascii (PInt i) = dec_int i"
| "json_text ascii (PFloat x) =
     (case x of Fin a \<Rightarrow> float_repr a | PosInf \<Rightarrow> ''Infinity'' | NegInf \<Rightarrow> ''-Infinity'' | NaN \<Rightarrow> ''NaN'')"
| "json_text ascii (PStr s) = json_quote ascii s"
| "json_text ascii (PList vs) = ''['' @ join '', '' (map (json_text ascii) vs) @ '']''"
| "json_text ascii (PDict d) =
     ''{'' @ join '', '' (map (\<lambda>kv. json_quote ascii (fst kv) @ '': '' @ json_text ascii (snd kv)) d) @ ''}''"
  by pat_completeness auto
termination
  by (relation "measure (\<lambda>av. size (snd av))") (simp_all add: size_item size_entry)

section \<open>loads\<close>

definition json_space :: "char \<Rightarrow> bool" where
  "json_space c \<longleftrightarrow> code c \<in> {32, 9, 10, 13}"

definition skip :: "string \<Rightarrow> string" where
  "skip s = dropWhile json_space s"

definition ascii_digit :: "char \<Rightarrow> bool" where
  "ascii_digit c \<longleftrightarrow> 48 \<le> code c \<and> code c \<le> 57"

definition hex_value :: "char \<Rightarrow> int option" where
  "hex_value c =
     (let n = code c in
      if ascii_digit c then Some (n - 48)
      else if 97 \<le> n \<and> n \<le> 102 then Some (n - 87)
      else if 65 \<le> n \<and> n \<le> 70 then Some (n - 55) else None)"

definition char_of_hex :: "string \<Rightarrow> char option" where
  "char_of_hex hs =
     (case those (map hex_value hs) of
        None \<Rightarrow> None
      | Some ds \<Rightarrow> let n = foldl (\<lambda>n d. n * 16 + d) 0 ds in if n < 256 then Some (char_of n) else None)"

definition simple_escape :: "char \<Rightarrow> char option" where
  "simple_escape e =
     map_of [(dquote, dquote), (bslash, bslash), (CHR ''/'', CHR ''/''), (CHR ''b'', char_of (8::int)),
       (CHR ''f'', char_of (12::int)), (CHR ''n'', char_of (10::int)), (CHR ''r'', char_of (13::int)),
       (CHR ''t'', char_of (9::int))] e"

abbreviation with_char :: "char \<Rightarrow> (string \<times> string) option \<Rightarrow> (string \<times> string) option" where
  "with_char c \<equiv> map_option (apfst ((#) c))"

text \<open>The characters of a string, after its opening quote.\<close>

fun parse_chars :: "string \<Rightarrow> (string \<times> string) option" where
  "parse_chars [] = None"
| "parse_chars (c # s) =
     (if c = dquote then Some ([], s)
      else if c = bslash then
        (case s of
           [] \<Rightarrow> None
         | e # s1 \<Rightarrow>
             if e = CHR ''u'' then
               (case s1 of
                  h1 # h2 # h3 # h4 # s2 \<Rightarrow>
                    (case char_of_hex [h1, h2, h3, h4] of Some d \<Rightarrow> with_char d (parse_chars s2) | None \<Rightarrow> None)
                | _ \<Rightarrow> None)
             else (case simple_escape e of Some d \<Rightarrow> with_char d (parse_chars s1) | None \<Rightarrow> None))
      else if code c < 32 then None
      else with_char c (parse_chars s))"

text \<open>An optional fraction or exponent: its digits and what follows.\<close>

definition fraction :: "string \<Rightarrow> (string \<times> string) option" where
  "fraction s =
     (case s of
        c # r \<Rightarrow>
          let ds = takeWhile ascii_digit r in
          if c = CHR ''.'' \<and> ds \<noteq> [] then Some (ds, dropWhile ascii_digit r) else None
      | [] \<Rightarrow> None)"

definition exponent :: "string \<Rightarrow> (int \<times> string) option" where
  "exponent s =
     (case s of
        c # r \<Rightarrow>
          let signed = r \<noteq> [] \<and> hd r \<in> {CHR ''+'', CHR ''-''}; r1 = (if signed then tl r else r);
              ds = takeWhile ascii_digit r1; i = int_of_dec ds
          in if (c = CHR ''e'' \<or> c = CHR ''E'') \<and> ds \<noteq> []
             then Some (if signed \<and> hd r = CHR ''-'' then - i else i, dropWhile ascii_digit r1) else None
      | [] \<Rightarrow> None)"

definition number_from :: "int \<Rightarrow> string \<Rightarrow> (pyval \<times> string) option" where
  "number_from sign s =
     (let whole = (if startswith s ''0'' then ''0'' else takeWhile ascii_digit s); s2 = drop (length whole) s;
          (point, s3) = (case fraction s2 of Some (ds, r) \<Rightarrow> (ds, r) | None \<Rightarrow> ([], s2));
          (e, s4) = (case exponent s3 of Some (i, r) \<Rightarrow> (Some i, r) | None \<Rightarrow> (None, s3))
      in if whole = [] then None
         else if point = [] \<and> e = None then Some (PInt (sign * int_of_dec whole), s4)
         else Some (PFloat (fl_round (of_int (sign * int_of_dec (whole @ point))
                * 10 powi ((case e of Some i \<Rightarrow> i | None \<Rightarrow> 0) - int (length point)))), s4))"

definition parse_number :: "string \<Rightarrow> (pyval \<times> string) option" where
  "parse_number s = (if startswith s ''-'' then number_from (- 1) (tl s) else number_from 1 s)"

definition literals :: "(string \<times> pyval) list" where
  "literals = [(''null'', PNone), (''true'', PBool True), (''false'', PBool False), (''NaN'', PFloat NaN),
     (''Infinity'', PFloat PosInf), (''-Infinity'', PFloat NegInf)]"

definition parse_literal :: "string \<Rightarrow> (pyval \<times> string) option" where
  "parse_literal s =
     (case find (\<lambda>(w, v). startswith s w) literals of
        Some (w, v) \<Rightarrow> Some (v, drop (length w) s)
      | None \<Rightarrow> parse_number s)"

fun parse_value :: "nat \<Rightarrow> string \<Rightarrow> (pyval \<times> string) option"
  and parse_items :: "nat \<Rightarrow> string \<Rightarrow> (pyval list \<times> string) option"
  and parse_members :: "nat \<Rightarrow> payload \<Rightarrow> string \<Rightarrow> (payload \<times> string) option" where
  "parse_value 0 s = None"
| "parse_value (Suc n) s =
     (case s of
        [] \<Rightarrow> None
      | c # r \<Rightarrow>
          if c = dquote then map_option (apfst PStr) (parse_chars r)
          else if c = CHR ''{'' then
            (if startswith (skip r) ''}'' then Some (PDict [], tl (skip r))
             else map_option (apfst PDict) (parse_members n [] (skip r)))
          else if c = CHR ''['' then
            (if startswith (skip r) '']'' then Some (PList [], tl (skip r))
             else map_option (apfst PList) (parse_items n (skip r)))
          else parse_literal s)"
| "parse_items 0 s = None"
| "parse_items (Suc n) s =
     (case parse_value n s of
        None \<Rightarrow> None
      | Some (v, r) \<Rightarrow>
          (case skip r of
             [] \<Rightarrow> None
           | c # r1 \<Rightarrow>
               if c = CHR '']'' then Some ([v], r1)
               else if c = CHR '','' then map_option (apfst ((#) v)) (parse_items n (skip r1))
               else None))"
| "parse_members 0 d s = None"
| "parse_members (Suc n) d s =
     (if \<not> startswith s [dquote] then None
      else case parse_chars (tl s) of
        None \<Rightarrow> None
      | Some (k, r) \<Rightarrow>
          if \<not> startswith (skip r) '':'' then None
          else case parse_value n (skip (tl (skip r))) of
            None \<Rightarrow> None
          | Some (v, r1) \<Rightarrow>
              (case skip r1 of
                 [] \<Rightarrow> None
               | c # r2 \<Rightarrow>
                   if c = CHR ''}'' then Some (dset k v d, r2)
                   else if c = CHR '','' then parse_members n (dset k v d) (skip r2)
                   else None))"

definition json_loads :: "string \<Rightarrow> pyval option" where
  "json_loads s =
     (case parse_value (Suc (length s)) (skip s) of
        Some (v, r) \<Rightarrow> if skip r = [] then Some v else None
      | None \<Rightarrow> None)"

end
