(* ===== verification/Json_Roundtrip.thy ===== *)
theory Json_Roundtrip
  imports Py_Json
begin

text \<open>
  Reading back what \<open>json.dumps\<close> wrote: for every value without floats and with distinct keys, with and
  without \<open>ensure_ascii\<close>. Fuel: one unit per character is always enough.
\<close>

section \<open>Strings\<close>

lemma code_char_of: "0 \<le> n \<Longrightarrow> n < 256 \<Longrightarrow> code (char_of n) = n"
  by (simp add: code_def of_char_of)

lemma code_bounds: "0 \<le> code c" "code c < 256"
proof -
  have "code c = int (of_char c)" by (simp add: code_def of_nat_of_char)
  then show "0 \<le> code c" "code c < 256" using nat_of_char_less_256 [of c] by simp_all
qed

lemma char_of_code [simp]: "char_of (code c) = c"
  by (simp add: code_def)

lemma code_eq [simp]: "code c = code d \<longleftrightarrow> c = d"
  by (metis char_of_code)

lemma quote_codes [simp]: "code dquote = 34" "code bslash = 92" "bslash \<noteq> dquote" "dquote \<noteq> bslash"
  by (simp_all add: bslash_def dquote_def code_char_of)

lemma hex_value_digit: "0 \<le> d \<Longrightarrow> d < 16 \<Longrightarrow> hex_value (hex_digit d) = Some d"
  by (simp add: hex_value_def hex_digit_def ascii_digit_def code_char_of Let_def)

lemma hex_value_zero: "hex_value (CHR ''0'') = Some 0"
  by (simp add: hex_value_def ascii_digit_def code_def)

lemma char_of_hex_code:
  "char_of_hex [CHR ''0'', CHR ''0'', hex_digit (code c div 16), hex_digit (code c mod 16)] = Some c"
proof -
  have "hex_value (hex_digit (code c div 16)) = Some (code c div 16)"
    using code_bounds [of c] by (intro hex_value_digit) auto
  moreover have "hex_value (hex_digit (code c mod 16)) = Some (code c mod 16)" by (intro hex_value_digit) auto
  ultimately show ?thesis using code_bounds [of c] by (simp add: char_of_hex_def hex_value_zero)
qed

lemma simple_escapes:
  "simple_escape dquote = Some dquote" "simple_escape bslash = Some bslash" "simple_escape CHR ''b'' = Some (char_of (8::int))"
  "simple_escape CHR ''f'' = Some (char_of (12::int))" "simple_escape CHR ''n'' = Some (char_of (10::int))"
  "simple_escape CHR ''r'' = Some (char_of (13::int))" "simple_escape CHR ''t'' = Some (char_of (9::int))"
  by code_simp+

lemma escape_not_u: "CHR ''b'' \<noteq> CHR ''u''" "dquote \<noteq> CHR ''u''" "bslash \<noteq> CHR ''u''"
  by code_simp+

text \<open>An escaped character is read back, whichever form it has.\<close>

lemma parse_hex_escape:
  "parse_chars (bslash # ''u00'' @ [hex_digit (code c div 16), hex_digit (code c mod 16)] @ s) = with_char c (parse_chars s)"
  by (simp add: char_of_hex_code)

lemma parse_simple_escape: "e \<noteq> CHR ''u'' \<Longrightarrow> simple_escape e = Some c \<Longrightarrow> parse_chars (bslash # e # s) = with_char c (parse_chars s)"
  by simp

lemma parse_plain: "c \<noteq> dquote \<Longrightarrow> c \<noteq> bslash \<Longrightarrow> 32 \<le> code c \<Longrightarrow> parse_chars (c # s) = with_char c (parse_chars s)"
  by simp

lemma parse_escaped: "parse_chars (escape_char ascii c @ s) = with_char c (parse_chars s)"
proof -
  have *: "parse_chars (json_escape c @ s) = with_char c (parse_chars s)"
  proof -
    have named: "code c = n \<Longrightarrow> c = char_of n" for n by (metis char_of_code)
    consider "c = dquote" | "c = bslash" | "code c \<in> {8, 12, 10, 13, 9}"
      | "code c < 32" "code c \<notin> {8, 12, 10, 13, 9}" | "32 \<le> code c" "c \<noteq> dquote" "c \<noteq> bslash" by linarith
    then show ?thesis
    proof cases
      case 1
      then have "json_escape c = [bslash, dquote]" by (simp add: json_escape_def bslash_def [symmetric] Let_def)
      then show ?thesis using 1 parse_simple_escape [OF escape_not_u(2) simple_escapes(1)] by simp
    next
      case 2
      then have "json_escape c = [bslash, bslash]" by (simp add: json_escape_def bslash_def [symmetric] Let_def)
      then show ?thesis using 2 parse_simple_escape [OF escape_not_u(3) simple_escapes(2)] by simp
    next
      case 3
      then show ?thesis
        by (elim insertE emptyE) (simp_all add: json_escape_def bslash_def [symmetric] Let_def simple_escapes named [symmetric])
    next
      case 4
      then have "json_escape c = bslash # ''u00'' @ [hex_digit (code c div 16), hex_digit (code c mod 16)]"
        by (auto simp: json_escape_def bslash_def [symmetric] Let_def)
      then show ?thesis using parse_hex_escape [of c s] by simp
    next
      case 5
      then have "code c \<noteq> 34" "code c \<noteq> 92" by (metis code_eq quote_codes(1,2))+
      then have "json_escape c = [c]" using 5(1) by (simp add: json_escape_def Let_def)
      then show ?thesis using parse_plain [of c s] 5 by simp
    qed
  qed
  then show ?thesis using parse_hex_escape [of c s] by (simp add: escape_char_def ascii_escape_def del: parse_chars.simps)
qed

lemma parse_escaped_all:
  "parse_chars (concat (map (escape_char ascii) s) @ t) = map_option (apfst ((@) s)) (parse_chars t)"
proof (induction s)
  case (Cons c s)
  have "parse_chars (concat (map (escape_char ascii) (c # s)) @ t)
      = with_char c (parse_chars (concat (map (escape_char ascii) s) @ t))"
    using parse_escaped [of ascii c "concat (map (escape_char ascii) s) @ t"] by simp
  then show ?case using Cons by (cases "parse_chars t") auto
qed (simp add: option.map_ident apfst_def map_prod_def)

lemma parse_quoted: "parse_chars (concat (map (escape_char ascii) s) @ dquote # t) = Some (s, t)"
  by (simp add: parse_escaped_all)

text \<open>A string that is not closed is no string.\<close>

lemma parse_unclosed: "parse_chars (concat (map (escape_char ascii) s)) = None"
  using parse_escaped_all [of ascii s "[]"] by simp

section \<open>Numbers\<close>

text \<open>What can follow a value inside a text.\<close>

definition ends_value :: "string \<Rightarrow> bool" where
  "ends_value r \<longleftrightarrow> r = [] \<or> hd r \<in> {CHR '','', CHR '']'', CHR ''}''}"

lemma closed_no_number: "ends_value r \<Longrightarrow> fraction r = None" "ends_value r \<Longrightarrow> exponent r = None"
  by (auto simp: ends_value_def fraction_def exponent_def Let_def split: list.split)

lemma dec_pos_ascii: "0 \<le> n \<Longrightarrow> list_all ascii_digit (dec_pos n)"
  using dec_pos_digits by (auto simp: list_all_iff ascii_digit_def is_digit_def)

lemma dec_pos_zero: "dec_pos 0 = ''0''"
  by code_simp

lemma dec_pos_head: "0 < n \<Longrightarrow> hd (dec_pos n) \<noteq> CHR ''0''"
proof (induction n rule: dec_pos.induct)
  case (1 n)
  show ?case
  proof (cases "n < 10")
    case True
    then have "code (digit_char n) \<noteq> code CHR ''0''" using 1 code_digit_char [of n] by (simp add: code_def)
    then show ?thesis using True 1 by (subst dec_pos.simps) auto
  next
    case False
    then have "hd (dec_pos (n div 10)) \<noteq> CHR ''0''" using 1 by simp
    then show ?thesis using False by (subst dec_pos.simps) simp
  qed
qed

lemma digits_before: "list_all ascii_digit ds \<Longrightarrow> ends_value r \<Longrightarrow> takeWhile ascii_digit (ds @ r) = ds"
  by (induction ds) (auto simp: ends_value_def ascii_digit_def code_def takeWhile_eq_Nil_iff)

lemma number_from_dec:
  assumes "0 \<le> n" "ends_value r"
  shows "number_from sign (dec_pos n @ r) = Some (PInt (sign * n), r)"
proof -
  have "(if startswith (dec_pos n @ r) ''0'' then ''0'' else takeWhile ascii_digit (dec_pos n @ r)) = dec_pos n"
  proof (cases "n = 0")
    case False
    then obtain c ds where "dec_pos n = c # ds" "c \<noteq> CHR ''0''"
      using dec_pos_head [of n] assms(1) by (cases "dec_pos n") auto
    then have "\<not> startswith (dec_pos n @ r) ''0''" by (simp add: startswith_def)
    then show ?thesis using digits_before [OF dec_pos_ascii assms(2)] assms(1) by simp
  qed (simp add: dec_pos_zero startswith_def)
  then show ?thesis
    using assms closed_no_number [OF assms(2)] unfolding number_from_def by (simp add: Let_def int_of_dec_dec_pos)
qed

lemma parse_number_pos:
  assumes "0 \<le> n" "ends_value r"
  shows "parse_number (dec_pos n @ r) = Some (PInt n, r)" "parse_number (CHR ''-'' # dec_pos n @ r) = Some (PInt (- n), r)"
proof -
  have "\<not> startswith (dec_pos n @ r) ''-''"
    using dec_pos_no_minus [OF assms(1)] by (cases "dec_pos n") (auto simp: startswith_def)
  then show "parse_number (dec_pos n @ r) = Some (PInt n, r)"
    using number_from_dec [OF assms] by (simp add: parse_number_def)
  show "parse_number (CHR ''-'' # dec_pos n @ r) = Some (PInt (- n), r)"
    using number_from_dec [OF assms] by (simp add: parse_number_def startswith_def)
qed

lemma parse_int:
  assumes "ends_value r"
  shows "parse_literal (dec_int i @ r) = Some (PInt i, r)"
proof (cases "i < 0")
  case True
  obtain c ds where "dec_pos (- i) = c # ds" by (cases "dec_pos (- i)") auto
  moreover have "ascii_digit c" using dec_pos_ascii [of "- i"] True \<open>dec_pos (- i) = c # ds\<close> by simp
  then have "c \<noteq> CHR ''I''" by (auto simp: ascii_digit_def code_def)
  ultimately have "find (\<lambda>(w, v). startswith (dec_int i @ r) w) literals = None"
    using True by (simp add: literals_def startswith_def dec_int_def)
  then show ?thesis using True parse_number_pos(2) [of "- i" r] assms by (simp add: parse_literal_def dec_int_def)
next
  case False
  obtain c ds where c: "dec_pos i = c # ds" by (cases "dec_pos i") auto
  moreover have "ascii_digit c" using dec_pos_ascii [of i] False c by simp
  then have "c \<notin> {CHR ''n'', CHR ''t'', CHR ''f'', CHR ''N'', CHR ''I'', CHR ''-''}" by (auto simp: ascii_digit_def code_def)
  ultimately have "find (\<lambda>(w, v). startswith (dec_int i @ r) w) literals = None"
    using False by (simp add: literals_def startswith_def dec_int_def)
  then show ?thesis using False parse_number_pos(1) [of i r] assms by (simp add: parse_literal_def dec_int_def)
qed

lemma int_head: "hd (dec_int i @ r) \<notin> {dquote, CHR ''{'', CHR ''[''} \<and> \<not> json_space (hd (dec_int i @ r)) \<and> dec_int i \<noteq> []"
proof (cases "i < 0")
  case True
  then show ?thesis by (simp add: dec_int_def dquote_def json_space_def code_def) code_simp
next
  case False
  obtain c ds where c: "dec_pos i = c # ds" by (cases "dec_pos i") auto
  moreover have "ascii_digit c" using dec_pos_ascii [of i] False c by simp
  then have "c \<noteq> dquote" "c \<noteq> CHR ''{''" "c \<noteq> CHR ''[''" "\<not> json_space c"
    by (auto simp: ascii_digit_def json_space_def) (auto simp: code_def)
  ultimately show ?thesis using False by (simp add: dec_int_def)
qed

section \<open>Values\<close>

text \<open>Values whose text is exact: no floats, no key twice.\<close>

function exact_json :: "pyval \<Rightarrow> bool" where
  "exact_json PNone = True"
| "exact_json (PBool b) = True"
| "exact_json (PInt i) = True"
| "exact_json (PFloat x) = False"
| "exact_json (PStr s) = True"
| "exact_json (PList vs) = list_all exact_json vs"
| "exact_json (PDict d) = (distinct (map fst d) \<and> list_all (\<lambda>kv. exact_json (snd kv)) d)"
  by pat_completeness auto
termination
  by (relation "measure size") (simp_all add: size_item size_entry)

lemma text_head:
  assumes "exact_json v"
  obtains c t where "json_text ascii v = c # t" "\<not> json_space c" "c \<noteq> CHR '']''"
proof (cases v)
  case (PBool b)
  then show thesis using that by (cases b) (auto simp: json_space_def code_def)
next
  case (PInt i)
  then have i: "json_text ascii v = dec_int i" by simp
  obtain c t where c: "dec_int i = c # t" using int_head [of i "[]"] by (cases "dec_int i") auto
  moreover have "c \<noteq> CHR '']''"
  proof (cases "i < 0")
    case False
    then have "ascii_digit c" using dec_pos_ascii [of i] c by (simp add: dec_int_def)
    then show ?thesis by (auto simp: ascii_digit_def code_def)
  qed (use c in \<open>auto simp: dec_int_def\<close>)
  ultimately show thesis using that int_head [of i "[]"] i by auto
next
  case (PStr s)
  have "dquote \<noteq> CHR '']''" "\<not> json_space dquote" by code_simp+
  then show thesis using PStr that by (auto simp: json_quote_def)
qed (use assms that in \<open>auto simp: json_space_def code_def split: if_splits\<close>)

lemma skip_text: "exact_json v \<Longrightarrow> skip (json_text ascii v @ r) = json_text ascii v @ r"
  using text_head [of v ascii] by (metis append_Cons dropWhile.simps(2) skip_def)

lemma skip_sep: "skip (CHR '','' # s) = CHR '','' # s" "skip (CHR '']'' # s) = CHR '']'' # s" "skip (CHR ''}'' # s) = CHR ''}'' # s"
  "skip (CHR '':'' # s) = CHR '':'' # s" "skip (CHR '' '' # s) = skip s" "skip (dquote # s) = dquote # s"
  by (simp_all add: skip_def json_space_def code_def dquote_def of_char_of)

lemma closed_sep: "ends_value (CHR '','' # s)" "ends_value (CHR '']'' # s)" "ends_value (CHR ''}'' # s)" "ends_value []"
  by (simp_all add: ends_value_def)

lemma parse_items_text:
  assumes "\<And>v n r. v \<in> set vs \<Longrightarrow> ends_value r \<Longrightarrow> length (json_text ascii v) < n \<Longrightarrow> parse_value n (json_text ascii v @ r) = Some (v, r)"
    and "list_all exact_json vs" "vs \<noteq> []" "Suc (length (join '', '' (map (json_text ascii) vs))) < n"
  shows "parse_items n (join '', '' (map (json_text ascii) vs) @ CHR '']'' # r) = Some (vs, r)"
  using assms
proof (induction vs arbitrary: n)
  case (Cons v vs)
  obtain m where n: "n = Suc m" using Cons.prems(4) by (cases n) auto
  show ?case
  proof (cases "vs = []")
    case True
    then show ?thesis using Cons.prems(1) [of v "CHR '']'' # r" m] Cons.prems(4) n closed_sep(2) by (simp add: skip_sep)
  next
    case False
    then have joined: "join '', '' (map (json_text ascii) (v # vs)) = json_text ascii v @ '', '' @ join '', '' (map (json_text ascii) vs)"
      by (simp add: join_Cons)
    obtain w ws where "vs = w # ws" using False by (cases vs) auto
    then have "skip (join '', '' (map (json_text ascii) vs) @ CHR '']'' # r) = join '', '' (map (json_text ascii) vs) @ CHR '']'' # r"
      using skip_text [of w ascii] Cons.prems(2) by (cases ws) simp_all
    moreover have "parse_items m (join '', '' (map (json_text ascii) vs) @ CHR '']'' # r) = Some (vs, r)"
      using Cons.prems False n joined by (intro Cons.IH) auto
    ultimately show ?thesis
      using Cons.prems(1) [of v "'', '' @ join '', '' (map (json_text ascii) vs) @ CHR '']'' # r" m] Cons.prems(4) n joined closed_sep(1)
      by (simp add: skip_sep)
  qed
qed simp

abbreviation member_text :: "bool \<Rightarrow> string \<times> pyval \<Rightarrow> string" where
  "member_text ascii kv \<equiv> json_quote ascii (fst kv) @ '': '' @ json_text ascii (snd kv)"

text \<open>One member: its key, then what is read as its value.\<close>

lemma parse_member_key:
  assumes "exact_json v"
  shows "parse_members (Suc n) d (member_text ascii (k, v) @ s) =
     (case parse_value n (json_text ascii v @ s) of
        None \<Rightarrow> None
      | Some (v', r1) \<Rightarrow>
          (case skip r1 of
             [] \<Rightarrow> None
           | c # r2 \<Rightarrow>
               if c = CHR ''}'' then Some (dset k v' d, r2)
               else if c = CHR '','' then parse_members n (dset k v' d) (skip r2)
               else None))"
proof -
  have "parse_chars (tl (member_text ascii (k, v) @ s)) = Some (k, '': '' @ json_text ascii v @ s)"
    using parse_quoted [of ascii k "'': '' @ json_text ascii v @ s"] by (simp add: json_quote_def)
  moreover have "startswith (member_text ascii (k, v) @ s) [dquote]" by (simp add: json_quote_def startswith_def)
  ultimately show ?thesis using skip_text [OF assms, of ascii s] by (simp add: skip_sep startswith_def)
qed

lemma parse_members_text:
  assumes "\<And>kv n r. kv \<in> set d \<Longrightarrow> ends_value r \<Longrightarrow> length (json_text ascii (snd kv)) < n \<Longrightarrow>
      parse_value n (json_text ascii (snd kv) @ r) = Some (snd kv, r)"
    and "list_all (\<lambda>kv. exact_json (snd kv)) d" "distinct (map fst (acc @ d))" "d \<noteq> []"
    and "Suc (length (join '', '' (map (member_text ascii) d))) < n"
  shows "parse_members n acc (join '', '' (map (member_text ascii) d) @ CHR ''}'' # r) = Some (acc @ d, r)"
  using assms
proof (induction d arbitrary: n acc)
  case (Cons kv d)
  obtain k v where kv: "kv = (k, v)" by fastforce
  obtain m where n: "n = Suc m" using Cons.prems(5) by (cases n) auto
  have new: "dset k v acc = acc @ [(k, v)]" using Cons.prems(3) kv by (intro dset_new) (auto simp: dget_def map_of_eq_None_iff)
  have exact: "exact_json v" using Cons.prems(2) kv by simp
  show ?case
  proof (cases "d = []")
    case True
    then show ?thesis
      using Cons.prems(1) [of kv "CHR ''}'' # r" m] Cons.prems(5) n kv closed_sep(3) new
        parse_member_key [OF exact, of m acc ascii k "CHR ''}'' # r"]
      by (simp add: skip_sep)
  next
    case False
    then have joined: "join '', '' (map (member_text ascii) (kv # d)) = member_text ascii kv @ '', '' @ join '', '' (map (member_text ascii) d)"
      by (simp add: join_Cons)
    obtain e es where "d = e # es" using False by (cases d) auto
    then have "skip (join '', '' (map (member_text ascii) d) @ CHR ''}'' # r) = join '', '' (map (member_text ascii) d) @ CHR ''}'' # r"
      by (cases es) (simp_all add: json_quote_def skip_sep)
    moreover have "parse_members m (acc @ [(k, v)]) (join '', '' (map (member_text ascii) d) @ CHR ''}'' # r) = Some ((acc @ [(k, v)]) @ d, r)"
      using Cons.prems False n joined kv by (intro Cons.IH) auto
    ultimately show ?thesis
      using Cons.prems(1) [of kv "'', '' @ join '', '' (map (member_text ascii) d) @ CHR ''}'' # r" m] Cons.prems(5) n kv joined closed_sep(1) new
        parse_member_key [OF exact, of m acc ascii k "'', '' @ join '', '' (map (member_text ascii) d) @ CHR ''}'' # r"]
      by (simp add: skip_sep)
  qed
qed simp

lemma not_dquote: "CHR ''n'' \<noteq> dquote" "CHR ''t'' \<noteq> dquote" "CHR ''f'' \<noteq> dquote" "CHR ''{'' \<noteq> dquote" "CHR ''['' \<noteq> dquote"
  "dquote \<noteq> CHR ''}''" "\<not> json_space dquote"
  by code_simp+

lemma parse_text:
  "exact_json v \<Longrightarrow> ends_value r \<Longrightarrow> length (json_text ascii v) < n \<Longrightarrow> parse_value n (json_text ascii v @ r) = Some (v, r)"
proof (induction ascii v arbitrary: n r rule: json_text.induct)
  case (1 ascii)
  then show ?case by (cases n) (simp_all add: not_dquote parse_literal_def literals_def startswith_def)
next
  case (2 ascii b)
  then show ?case by (cases n; cases b) (simp_all add: not_dquote parse_literal_def literals_def startswith_def)
next
  case (3 ascii i)
  obtain m where n: "n = Suc m" using 3 by (cases n) auto
  obtain c t where "dec_int i = c # t" "c \<notin> {dquote, CHR ''{'', CHR ''[''}" using int_head [of i "[]"] by (cases "dec_int i") auto
  then show ?case using parse_int [OF 3(2), of i] n by simp
next
  case (5 ascii s)
  then show ?case using parse_quoted [of ascii s r] by (cases n) (simp_all add: json_quote_def)
next
  case (6 ascii vs)
  obtain m where n: "n = Suc m" using 6(4) by (cases n) auto
  show ?case
  proof (cases "vs = []")
    case True
    then show ?thesis using n by (simp add: skip_sep startswith_def not_dquote)
  next
    case False
    then obtain w ws where ws: "vs = w # ws" by (cases vs) auto
    obtain c t where c: "json_text ascii w = c # t" "\<not> json_space c" "c \<noteq> CHR '']''"
      using text_head [of w ascii] 6(2) ws by auto
    have "parse_items m (join '', '' (map (json_text ascii) vs) @ CHR '']'' # r) = Some (vs, r)"
      using 6(1,2,4) n False by (intro parse_items_text) (auto simp: list_all_iff)
    moreover have "\<exists>u. join '', '' (map (json_text ascii) vs) = c # u" using ws c by (cases ws) simp_all
    ultimately show ?thesis using n c by (auto simp: skip_def startswith_def not_dquote)
  qed
next
  case (7 ascii d)
  obtain m where n: "n = Suc m" using 7(4) by (cases n) auto
  show ?case
  proof (cases "d = []")
    case True
    then show ?thesis using n by (simp add: skip_sep startswith_def not_dquote)
  next
    case False
    then obtain e es where es: "d = e # es" by (cases d) auto
    have "parse_members m [] (join '', '' (map (member_text ascii) d) @ CHR ''}'' # r) = Some ([] @ d, r)"
      using 7(1,2,4) n False by (intro parse_members_text) (auto simp: list_all_iff)
    moreover have "\<exists>u. join '', '' (map (member_text ascii) d) = dquote # u" using es by (cases es) (simp_all add: json_quote_def)
    ultimately show ?thesis using n by (auto simp: skip_def startswith_def not_dquote)
  qed
qed simp

theorem loads_dumps: "exact_json v \<Longrightarrow> json_loads (json_text ascii v) = Some v"
  using parse_text [of v "[]" ascii "Suc (length (json_text ascii v))"] skip_text [of v ascii "[]"]
  by (simp add: json_loads_def closed_sep skip_def)

section \<open>Fuel\<close>

text \<open>Whatever is read consumes a character per unit of fuel: what some fuel reads, fuel for the length of the text reads.\<close>

lemma with_char_Some: "with_char c x = Some (t, r) \<longleftrightarrow> (\<exists>t'. x = Some (t', r) \<and> t = c # t')"
  by (cases x) auto

lemma parse_chars_less: "parse_chars s = Some (t, r) \<Longrightarrow> length r < length s"
proof (induction s arbitrary: t r rule: parse_chars.induct)
  case (2 c s)
  then show ?case
    by (auto simp: with_char_Some split: if_splits list.splits option.splits) fastforce+
qed simp

lemma skip_le: "length (skip s) \<le> length s"
  by (simp add: skip_def length_dropWhile_le)

lemma fraction_le: "fraction s = Some (ds, r) \<Longrightarrow> length r \<le> length s"
  using length_dropWhile_le [of ascii_digit "tl s"] by (auto simp: fraction_def Let_def split: list.splits if_splits)

lemma exponent_le: "exponent s = Some (i, r) \<Longrightarrow> length r \<le> length s"
  using length_dropWhile_le [of ascii_digit "tl s"] length_dropWhile_le [of ascii_digit "tl (tl s)"]
  by (auto simp: exponent_def Let_def split: list.splits if_splits)

lemma number_from_less: "number_from sign s = Some (v, r) \<Longrightarrow> length r < length s"
proof -
  assume *: "number_from sign s = Some (v, r)"
  define whole where "whole = (if startswith s ''0'' then ''0'' else takeWhile ascii_digit s)"
  have "whole \<noteq> []" using * by (auto simp: number_from_def whole_def Let_def split: prod.splits if_splits)
  moreover have "length whole \<le> length s"
    by (auto simp: whole_def startswith_iff length_takeWhile_le)
  ultimately have "length (drop (length whole) s) < length s" by (cases whole) auto
  moreover have "length r \<le> length (drop (length whole) s)"
  proof -
    obtain point s3 where s3: "(case fraction (drop (length whole) s) of Some (ds, r) \<Rightarrow> (ds, r)
        | None \<Rightarrow> ([], drop (length whole) s)) = (point, s3)" by fastforce
    obtain e s4 where s4: "(case exponent s3 of Some (i, r) \<Rightarrow> (Some i, r) | None \<Rightarrow> (None, s3)) = (e, s4)" by fastforce
    have "r = s4" using * s3 s4 unfolding number_from_def whole_def [symmetric] Let_def by (auto split: if_splits)
    moreover have "length s4 \<le> length s3" using s4 exponent_le [of s3] by (auto split: option.splits)
    moreover have "length s3 \<le> length (drop (length whole) s)"
      using s3 fraction_le [of "drop (length whole) s"] by (auto split: option.splits)
    ultimately show ?thesis by simp
  qed
  ultimately show ?thesis by simp
qed

lemma parse_literal_less: "parse_literal s = Some (v, r) \<Longrightarrow> length r < length s"
proof -
  assume *: "parse_literal s = Some (v, r)"
  show ?thesis
  proof (cases "find (\<lambda>(w, v). startswith s w) literals")
    case None
    then show ?thesis using * number_from_less [of 1 s v r] number_from_less [of "- 1" "tl s" v r]
      by (auto simp: parse_literal_def parse_number_def startswith_iff split: if_splits)
  next
    case (Some wv)
    then have "wv \<in> set literals" "startswith s (fst wv)" by (auto simp: find_Some_iff in_set_conv_nth)
    moreover have "r = drop (length (fst wv)) s" using * Some by (auto simp: parse_literal_def split: prod.splits)
    ultimately show ?thesis by (auto simp: literals_def startswith_iff)
  qed
qed

lemma starts_Cons: "startswith s [c] \<Longrightarrow> s \<noteq> [] \<and> hd s = c"
  by (auto simp: startswith_iff)

lemma fuel_Suc:
  fixes k l :: nat
  assumes "k < l \<and> (\<forall>m. l \<le> Suc m + k \<longrightarrow> P (Suc m))"
  shows "k < l \<and> (\<forall>m. l \<le> m + k \<longrightarrow> P m)"
  using assms by (metis add_0 leD not0_implies_Suc)

lemma parse_fuel:
  "parse_value n s = Some (v, r) \<Longrightarrow> length r < length s \<and> (\<forall>m. length s \<le> m + length r \<longrightarrow> parse_value m s = Some (v, r))"
  "parse_items n s = Some (vs, r) \<Longrightarrow> length r < length s \<and> (\<forall>m. length s \<le> m + length r \<longrightarrow> parse_items m s = Some (vs, r))"
  "parse_members n d s = Some (d', r) \<Longrightarrow> length r < length s \<and> (\<forall>m. length s \<le> m + length r \<longrightarrow> parse_members m d s = Some (d', r))"
proof (induction n s and n s and n d s arbitrary: v r and vs r and d' r rule: parse_value_parse_items_parse_members.induct)
  case (2 n s)
  obtain c t where s: "s = c # t" using 2(3) by (cases s) auto
  consider (str) u where "c = dquote" "parse_chars t = Some (u, r)" "v = PStr u"
    | (braces) "c = CHR ''{''" "startswith (skip t) ''}''" "r = tl (skip t)" "v = PDict []"
    | (members) d where "c = CHR ''{''" "\<not> startswith (skip t) ''}''" "parse_members n [] (skip t) = Some (d, r)" "v = PDict d"
    | (brackets) "c = CHR ''[''" "startswith (skip t) '']''" "r = tl (skip t)" "v = PList []"
    | (items) vs where "c = CHR ''[''" "\<not> startswith (skip t) '']''" "parse_items n (skip t) = Some (vs, r)" "v = PList vs"
    | (literal) "c \<notin> {dquote, CHR ''{'', CHR ''[''}" "parse_literal s = Some (v, r)"
    using 2(3) s by (auto split: if_splits)
  then have "length r < length s \<and> (\<forall>m. length s \<le> Suc m + length r \<longrightarrow> parse_value (Suc m) s = Some (v, r))"
  proof cases
    case str
    then show ?thesis using s parse_chars_less [of t u r] by simp
  next
    case braces
    then show ?thesis using s skip_le [of t] starts_Cons [of "skip t" "CHR ''}''"] by (cases "skip t") (auto simp: not_dquote)
  next
    case members
    then show ?thesis using s skip_le [of t] 2(1) [OF s _ _ members(2,3)] by (auto simp: not_dquote)
  next
    case brackets
    then show ?thesis using s skip_le [of t] starts_Cons [of "skip t" "CHR '']''"] by (cases "skip t") (auto simp: not_dquote)
  next
    case items
    then show ?thesis using s skip_le [of t] 2(2) [OF s _ _ _ items(2,3)] by (auto simp: not_dquote)
  next
    case literal
    then show ?thesis using s parse_literal_less [of s v r] by simp
  qed
  then show ?case by (rule fuel_Suc)
next
  case (4 n s)
  from 4(3) obtain v1 r1 c r2 where v1: "parse_value n s = Some (v1, r1)" "skip r1 = c # r2"
    "c = CHR '']'' \<and> vs = [v1] \<and> r = r2
     \<or> c = CHR '','' \<and> (\<exists>vs'. parse_items n (skip r2) = Some (vs', r) \<and> vs = v1 # vs')"
    by (auto split: option.splits list.splits if_splits)
  have r1: "length r1 < length s" "\<And>m. length s \<le> m + length r1 \<Longrightarrow> parse_value m s = Some (v1, r1)" using 4(1) [OF v1(1)] by blast+
  have r2: "length r2 < length r1" using skip_le [of r1] v1(2) by simp
  from v1(3) have "length r < length s \<and> (\<forall>m. length s \<le> Suc m + length r \<longrightarrow> parse_items (Suc m) s = Some (vs, r))"
  proof
    assume "c = CHR '']'' \<and> vs = [v1] \<and> r = r2"
    then show ?thesis using r1 r2 v1(2) by simp
  next
    assume "c = CHR '','' \<and> (\<exists>vs'. parse_items n (skip r2) = Some (vs', r) \<and> vs = v1 # vs')"
    then obtain vs' where vs': "c = CHR '',''" "parse_items n (skip r2) = Some (vs', r)" "vs = v1 # vs'" by blast
    have "length r < length (skip r2)" "\<And>m. length (skip r2) \<le> m + length r \<Longrightarrow> parse_items m (skip r2) = Some (vs', r)"
      using 4(2) [OF v1(1) refl v1(2) _ vs'(1) vs'(2)] vs'(1) by auto
    then show ?thesis using r1 r2 v1(2) vs' skip_le [of r2] by simp
  qed
  then show ?case by (rule fuel_Suc)
next
  case (6 n d s)
  from 6(3) obtain k r0 v1 r1 c r2 where k: "startswith s [dquote]" "parse_chars (tl s) = Some (k, r0)" "startswith (skip r0) '':''"
    "parse_value n (skip (tl (skip r0))) = Some (v1, r1)" "skip r1 = c # r2"
    "c = CHR ''}'' \<and> d' = dset k v1 d \<and> r = r2 \<or> c = CHR '','' \<and> parse_members n (dset k v1 d) (skip r2) = Some (d', r)"
    by (auto split: option.splits list.splits if_splits)
  have "length r0 < length s - 1" using parse_chars_less [OF k(2)] by simp
  moreover have "length (skip (tl (skip r0))) < length r0"
    using skip_le [of "tl (skip r0)"] skip_le [of r0] starts_Cons [OF k(3)] by (cases "skip r0") auto
  ultimately have len: "length (skip (tl (skip r0))) < length s" by simp
  have r1: "length r1 < length (skip (tl (skip r0)))"
    "\<And>m. length (skip (tl (skip r0))) \<le> m + length r1 \<Longrightarrow> parse_value m (skip (tl (skip r0))) = Some (v1, r1)"
    using 6(1) [OF _ k(2) refl _ k(4)] k(1,3) by auto
  have r2: "length r2 < length r1" using skip_le [of r1] k(5) by simp
  from k(6) have "length r < length s \<and> (\<forall>m. length s \<le> Suc m + length r \<longrightarrow> parse_members (Suc m) d s = Some (d', r))"
  proof
    assume "c = CHR ''}'' \<and> d' = dset k v1 d \<and> r = r2"
    then show ?thesis using k(1-5) len r1 r2 by simp
  next
    assume *: "c = CHR '','' \<and> parse_members n (dset k v1 d) (skip r2) = Some (d', r)"
    then have "length r < length (skip r2)"
      "\<And>m. length (skip r2) \<le> m + length r \<Longrightarrow> parse_members m (dset k v1 d) (skip r2) = Some (d', r)"
      using 6(2) [OF _ k(2) refl _ k(4) refl k(5), of d' r] k(1,3) by auto
    then show ?thesis using k(1-5) len r1 r2 * skip_le [of r2] by simp
  qed
  then show ?case by (rule fuel_Suc)
qed simp_all

text \<open>So the parser fails only on texts that no amount of fuel reads.\<close>

theorem loads_fuel:
  assumes "parse_value n (skip s) = Some (v, r)" "skip r = []"
  shows "json_loads s = Some v"
  using assms(2) parse_fuel(1) [OF assms(1)] skip_le [of s] by (simp add: json_loads_def del: parse_value.simps)

section \<open>Objects cut off inside a string\<close>

lemma parse_value_exact:
  assumes "exact_json v" "ends_value r" "parse_value n (json_text ascii v @ r) = Some (v', r')"
  shows "v' = v \<and> r' = r"
proof -
  let ?n = "Suc (length (json_text ascii v @ r))"
  have "length (json_text ascii v @ r) \<le> ?n + length r'" by simp
  then have "parse_value ?n (json_text ascii v @ r) = Some (v', r')" using parse_fuel(1) [OF assms(3)] by blast
  moreover have "parse_value ?n (json_text ascii v @ r) = Some (v, r)" by (rule parse_text [OF assms(1,2)]) simp
  ultimately show ?thesis by simp
qed

lemma parse_unclosed_member:
  "parse_members n d (json_quote ascii k @ '': '' @ dquote # concat (map (escape_char ascii) s)) = None"
proof (cases n)
  case (Suc m)
  have "parse_chars (tl (json_quote ascii k @ '': '' @ dquote # concat (map (escape_char ascii) s)))
      = Some (k, '': '' @ dquote # concat (map (escape_char ascii) s))"
    using parse_quoted [of ascii k "'': '' @ dquote # concat (map (escape_char ascii) s)"] by (simp add: json_quote_def)
  moreover have "parse_value m (dquote # concat (map (escape_char ascii) s)) = None"
    using parse_unclosed [of ascii s] by (cases m) simp_all
  ultimately show ?thesis using Suc by (simp add: skip_sep startswith_def)
qed simp

lemma parse_members_unclosed:
  assumes "list_all (\<lambda>kv. exact_json (snd kv)) d"
  shows "parse_members n acc (concat (map (\<lambda>kv. member_text ascii kv @ '', '') d) @
     json_quote ascii k @ '': '' @ dquote # concat (map (escape_char ascii) s)) = None"
  using assms
proof (induction d arbitrary: n acc)
  case Nil
  show ?case using parse_unclosed_member by simp
next
  case (Cons kv d)
  obtain k' v where kv: "kv = (k', v)" by fastforce
  have exact: "exact_json v" using Cons.prems kv by simp
  define rest where "rest = concat (map (\<lambda>kv. member_text ascii kv @ '', '') d) @
     json_quote ascii k @ '': '' @ dquote # concat (map (escape_char ascii) s)"
  have none: "parse_members m acc' rest = None" for m acc' using Cons unfolding rest_def by simp
  have skip: "skip rest = rest"
    unfolding rest_def by (cases d) (simp_all add: json_quote_def skip_sep)
  show ?case
  proof (cases n)
    case (Suc m)
    have "parse_members n acc (member_text ascii (k', v) @ '', '' @ rest) = None"
    proof (cases "parse_value m (json_text ascii v @ '', '' @ rest)")
      case None
      then show ?thesis using Suc parse_member_key [OF exact, of m acc ascii k' "'', '' @ rest"] by simp
    next
      case (Some w)
      obtain v' r' where w: "w = (v', r')" by fastforce
      then have "v' = v \<and> r' = '', '' @ rest"
        using Some closed_sep(1) by (intro parse_value_exact [OF exact]) auto
      then show ?thesis
        using Suc Some w none skip parse_member_key [OF exact, of m acc ascii k' "'', '' @ rest"] by (simp add: skip_sep)
    qed
    then show ?thesis using kv by (simp add: rest_def)
  qed simp
qed

theorem loads_unclosed:
  assumes "list_all (\<lambda>kv. exact_json (snd kv)) d"
  shows "json_loads (''{'' @ concat (map (\<lambda>kv. member_text ascii kv @ '', '') d) @
     json_quote ascii k @ '': '' @ dquote # concat (map (escape_char ascii) s)) = None"
proof -
  define rest where "rest = concat (map (\<lambda>kv. member_text ascii kv @ '', '') d) @
     json_quote ascii k @ '': '' @ dquote # concat (map (escape_char ascii) s)"
  obtain t where head: "rest = dquote # t"
    unfolding rest_def by (cases d) (auto simp: json_quote_def)
  then have "skip rest = rest" "\<not> startswith rest ''}''" by (simp_all add: skip_sep startswith_def not_dquote)
  moreover have "parse_members m [] rest = None" for m
    unfolding rest_def by (rule parse_members_unclosed [OF assms])
  moreover have "skip (CHR ''{'' # rest) = CHR ''{'' # rest" by (simp add: skip_def json_space_def code_def)
  ultimately have "json_loads (CHR ''{'' # rest) = None"
    using not_dquote(4) by (simp add: json_loads_def)
  then show ?thesis by (simp add: rest_def)
qed

end
