(* ===== verification/Evidence_Store.thy ===== *)
theory Evidence_Store
  imports Json_Roundtrip
begin

text \<open>
  The append-only stores of human and sampled evidence (\<open>feedback.py\<close>, \<open>opportunities.py\<close>,
  \<open>labels.py\<close>): a text file, one JSON object a line, read with \<open>splitlines\<close>. The locale
  \<open>line_store\<close> states what makes such a store keep everything it is given; the schema checks the
  readers share are here too.
\<close>

section \<open>Text files\<close>

text \<open>A file that is not there, that is no UTF-8, or its text.\<close>

datatype store = NoFile | BadBytes | Contents string

definition line_feed :: char where "line_feed = char_of (10::int)"
definition next_line :: char where "next_line = char_of (133::int)"

text \<open>\<open>str.splitlines\<close>; code points beyond 255 that also end a line are outside the model.\<close>

definition line_break :: "char \<Rightarrow> bool" where
  "line_break c \<longleftrightarrow> code c \<in> {10, 11, 12, 13, 28, 29, 30, 133}"

fun splitlines :: "string \<Rightarrow> string list" where
  "splitlines [] = []"
| "splitlines (c # s) =
     (if code c = 13 \<and> s \<noteq> [] \<and> hd s = line_feed then [] # splitlines (tl s)
      else if line_break c then [] # splitlines s
      else (case splitlines s of [] \<Rightarrow> [[c]] | w # ws \<Rightarrow> (c # w) # ws))"

definition one_line :: "string \<Rightarrow> bool" where
  "one_line s \<longleftrightarrow> list_all (\<lambda>c. \<not> line_break c) s"

definition ended :: "string \<Rightarrow> bool" where
  "ended s \<longleftrightarrow> s = [] \<or> last s = line_feed"

fun read_lines :: "(nat \<Rightarrow> string \<Rightarrow> 'a result) \<Rightarrow> nat \<Rightarrow> string list \<Rightarrow> 'a list result" where
  "read_lines read n [] = Inr []"
| "read_lines read n (l # ls) =
     (if strip l = [] then read_lines read (Suc n) ls
      else rbind (read n l) (\<lambda>x. rbind (read_lines read (Suc n) ls) (\<lambda>xs. Inr (x # xs))))"

definition load_store :: "(nat \<Rightarrow> string \<Rightarrow> 'a result) \<Rightarrow> store \<Rightarrow> 'a list result" where
  "load_store read st =
     (case st of NoFile \<Rightarrow> Inr [] | BadBytes \<Rightarrow> Inl UnicodeDecodeError | Contents s \<Rightarrow> read_lines read 1 (splitlines s))"

definition append_text :: "string \<Rightarrow> store \<Rightarrow> store" where
  "append_text t st = (case st of NoFile \<Rightarrow> Contents t | BadBytes \<Rightarrow> BadBytes | Contents s \<Rightarrow> Contents (s @ t))"

section \<open>Schema checks\<close>

definition line_error :: "string \<Rightarrow> nat \<Rightarrow> string \<Rightarrow> string" where
  "line_error name n what = name @ '' line '' @ dec_nat n @ what"

definition checked_version ::
  "(string \<Rightarrow> exc) \<Rightarrow> string \<Rightarrow> string \<Rightarrow> nat \<Rightarrow> payload \<Rightarrow> pyval \<Rightarrow> int result" where
  "checked_version err schema name n raw v =
     (case as_int v of
        None \<Rightarrow> Inl (err (line_error name n '' has a non-integer version''))
      | Some version \<Rightarrow>
          if get raw ''schema'' = PNone \<and> get raw ''schema_version'' = PNone then Inr version
          else if get raw ''schema'' \<noteq> PStr schema
          then Inl (err (line_error name n ('' uses unsupported schema '' @ py_repr (get raw ''schema''))))
          else case as_int (get raw ''schema_version'') of
            None \<Rightarrow> Inl (err (line_error name n '' has a non-integer schema version''))
          | Some i \<Rightarrow>
              if i \<noteq> version then Inl (err (line_error name n '' has mismatched schema versions'')) else Inr version)"

text \<open>The text of a line, as the object it must be; the detail of an error message is not kept.\<close>

definition unreadable :: "(string \<Rightarrow> exc) \<Rightarrow> string \<Rightarrow> nat \<Rightarrow> exc" where
  "unreadable err name n = err (line_error name n '' is unreadable'')"

definition read_object :: "(string \<Rightarrow> exc) \<Rightarrow> string \<Rightarrow> (nat \<Rightarrow> payload \<Rightarrow> 'a result) \<Rightarrow> nat \<Rightarrow> string \<Rightarrow> 'a result" where
  "read_object err name read n l =
     (case json_loads l of Some (PDict raw) \<Rightarrow> read n raw | _ \<Rightarrow> Inl (unreadable err name n))"

section \<open>Lines\<close>

lemma splitlines_append: "ended s \<Longrightarrow> splitlines (s @ t) = splitlines s @ splitlines t"
proof (induction s rule: splitlines.induct)
  case (2 c s)
  consider "s = []" | "s \<noteq> []" "code c = 13" "hd s = line_feed" | "s \<noteq> []" "\<not> (code c = 13 \<and> hd s = line_feed)" by blast
  then show ?case
  proof cases
    case 1
    then have "c = line_feed" using 2(4) by (simp add: ended_def)
    then have "code c = 10" "line_break c" by (simp_all add: line_feed_def code_char_of line_break_def)
    then show ?thesis using 1 by simp
  next
    case 2
    then have "ended (tl s)" using "2.prems" by (cases s) (auto simp: ended_def split: if_splits)
    then show ?thesis using 2 "2.IH"(1) by (cases s) auto
  next
    case 3
    then have e: "ended s" using "2.prems" by (auto simp: ended_def)
    show ?thesis
    proof (cases "line_break c")
      case True
      then show ?thesis using 3 e "2.IH"(2) by (auto simp: hd_append)
    next
      case False
      have "splitlines s \<noteq> []" using 3(1) by (cases s) (auto split: list.splits)
      then show ?thesis using False 3 e "2.IH"(3) by (auto simp: hd_append split: list.splits)
    qed
  qed
qed simp

lemma splitlines_first:
  assumes "one_line w" "line_break c" "c \<noteq> line_feed \<or> w = [] \<or> code (last w) \<noteq> 13" "code c \<noteq> 13"
  shows "splitlines (w @ c # s) = w # splitlines s"
  using assms
proof (induction w)
  case Nil
  then show ?case by simp
next
  case (Cons d w)
  have "\<not> line_break d" "one_line w" using Cons.prems(1) by (auto simp: one_line_def)
  moreover have "code d \<noteq> 13" using \<open>\<not> line_break d\<close> by (auto simp: line_break_def)
  moreover have "w = [] \<or> code (last w) \<noteq> 13"
    using \<open>one_line w\<close> last_in_set by (fastforce simp: one_line_def line_break_def list_all_iff)
  ultimately show ?case using Cons by simp
qed

lemma splitlines_line: "one_line w \<Longrightarrow> splitlines (w @ [line_feed]) = [w]"
proof -
  assume w: "one_line w"
  have "w = [] \<or> code (last w) \<noteq> 13"
    using w last_in_set by (fastforce simp: one_line_def line_break_def list_all_iff)
  moreover have "line_break line_feed" "code line_feed \<noteq> 13" by (simp_all add: line_feed_def line_break_def code_char_of)
  ultimately show ?thesis using splitlines_first [OF w, of line_feed "[]"] by auto
qed

lemma read_lines_append:
  "read_lines read n (ls @ ls') =
     rbind (read_lines read n ls) (\<lambda>xs. rbind (read_lines read (n + length ls) ls') (\<lambda>ys. Inr (xs @ ys)))"
proof (induction ls arbitrary: n)
  case Nil
  then show ?case by (cases "read_lines read n ls'") auto
next
  case (Cons l ls)
  then show ?case
    by (cases "strip l = []"; cases "read n l"; cases "read_lines read (Suc n) ls";
        cases "read_lines read (Suc (n + length ls)) ls'") auto
qed

lemma append_cases:
  assumes "load_store read st = Inr xs"
  obtains "st = NoFile" "xs = []" | s where "st = Contents s" "read_lines read 1 (splitlines s) = Inr xs"
  using assms by (cases st) (auto simp: load_store_def)

section \<open>JSON on one line\<close>

text \<open>Without \<open>ensure_ascii\<close> the only character that ends a line and is not escaped is NEL.\<close>

function no_nel :: "pyval \<Rightarrow> bool" where
  "no_nel PNone = True"
| "no_nel (PBool b) = True"
| "no_nel (PInt i) = True"
| "no_nel (PFloat x) = True"
| "no_nel (PStr s) = (next_line \<notin> set s)"
| "no_nel (PList vs) = list_all no_nel vs"
| "no_nel (PDict d) = list_all (\<lambda>kv. next_line \<notin> set (fst kv) \<and> no_nel (snd kv)) d"
  by pat_completeness auto
termination
  by (relation "measure size") (simp_all add: size_item size_entry)

lemma one_line_append [simp]: "one_line (s @ t) \<longleftrightarrow> one_line s \<and> one_line t"
  by (auto simp: one_line_def)

lemma one_line_Cons [simp]: "one_line (c # s) \<longleftrightarrow> \<not> line_break c \<and> one_line s"
  by (simp add: one_line_def)

lemma one_line_Nil [simp]: "one_line []"
  by (simp add: one_line_def)

lemma one_line_join: "one_line sep \<Longrightarrow> list_all one_line ws \<Longrightarrow> one_line (join sep ws)"
  by (induction sep ws rule: join.induct) simp_all

lemma no_breaks: "\<not> line_break dquote" "\<not> line_break bslash" "\<not> line_break CHR ''u''" "\<not> line_break CHR ''0''"
  "\<not> line_break CHR '',''" "\<not> line_break CHR '' ''" "\<not> line_break CHR '':''" "\<not> line_break CHR ''{''" "\<not> line_break CHR ''}''"
  "\<not> line_break CHR ''[''" "\<not> line_break CHR '']''" "\<not> line_break CHR ''-''" "\<not> line_break CHR ''b''" "\<not> line_break CHR ''f''"
  "\<not> line_break CHR ''n''" "\<not> line_break CHR ''r''" "\<not> line_break CHR ''t''"
  by code_simp+

lemma one_line_constants: "one_line ''null''" "one_line ''true''" "one_line ''false''"
  by code_simp+

lemma hex_digit_no_break: "0 \<le> d \<Longrightarrow> d < 16 \<Longrightarrow> \<not> line_break (hex_digit d)"
  by (auto simp: hex_digit_def line_break_def code_char_of)

lemma escape_one_line: "code c \<noteq> 133 \<Longrightarrow> one_line (json_escape c)"
proof -
  assume c: "code c \<noteq> 133"
  have "\<not> line_break (hex_digit (code c div 16))" "\<not> line_break (hex_digit (code c mod 16))"
    using code_bounds [of c] by (simp_all add: hex_digit_no_break div_less_iff_less_mult)
  moreover have "\<not> line_break c" if "\<not> code c < 32" using that c by (auto simp: line_break_def)
  ultimately show ?thesis using c
    by (auto simp: json_escape_def Let_def no_breaks bslash_def [symmetric])
qed

lemma code_next_line [simp]: "code next_line = 133"
  by (simp add: next_line_def code_char_of)

lemma quote_one_line: "next_line \<notin> set s \<Longrightarrow> one_line (concat (map (escape_char False) s))"
proof (induction s)
  case (Cons c s)
  then have "code c \<noteq> 133" by (metis code_eq code_next_line list.set_intros(1))
  then show ?case using Cons escape_one_line [of c] by (simp add: escape_char_def)
qed simp

lemma dec_one_line: "one_line (dec_int i)"
proof -
  have "one_line (dec_pos n)" if "0 \<le> n" for n
    using dec_pos_ascii [OF that] by (auto simp: one_line_def list_all_iff ascii_digit_def line_break_def)
  then show ?thesis by (simp add: dec_int_def no_breaks)
qed

lemma text_one_line: "exact_json v \<Longrightarrow> no_nel v \<Longrightarrow> one_line (json_text False v)"
proof (induction v rule: no_nel.induct)
  case (2 b)
  show ?case by (simp add: one_line_constants del: one_line_Cons)
next
  case (6 vs)
  then show ?case by (auto intro!: one_line_join simp: no_breaks list_all_iff)
next
  case (7 d)
  then have "list_all one_line (map (\<lambda>kv. json_quote False (fst kv) @ '': '' @ json_text False (snd kv)) d)"
    by (fastforce simp: list_all_iff json_quote_def no_breaks quote_one_line)
  then show ?case by (auto intro!: one_line_join simp: no_breaks)
next
  case 1
  show ?case by (simp add: one_line_constants del: one_line_Cons)
qed (simp_all add: json_quote_def no_breaks quote_one_line dec_one_line)

lemma dropWhile_keeps: "c \<in> set s \<Longrightarrow> \<not> P c \<Longrightarrow> c \<in> set (dropWhile P s)"
  by (induction s) auto

lemma strip_not_Nil: "c \<in> set s \<Longrightarrow> \<not> is_space c \<Longrightarrow> strip s \<noteq> []"
proof -
  assume c: "c \<in> set s" "\<not> is_space c"
  have "c \<in> set (strip s)" unfolding strip_def strip_when_def rstrip_when_def
    using c by (simp add: dropWhile_keeps)
  then show ?thesis by auto
qed

lemma dict_not_blank: "strip (json_text ascii (PDict d)) \<noteq> []"
  by (rule strip_not_Nil [of "CHR ''{''"]) (simp_all add: is_space_def code_def)

section \<open>Stores that keep what they are given\<close>

locale line_store =
  fixes read :: "nat \<Rightarrow> string \<Rightarrow> 'a result"
    and line :: "'a \<Rightarrow> string"
    and ok :: "'a \<Rightarrow> bool"
  assumes reads: "ok x \<Longrightarrow> read n (line x) = Inr x"
    and single: "ok x \<Longrightarrow> one_line (line x)"
    and not_blank: "ok x \<Longrightarrow> strip (line x) \<noteq> []"
begin

text \<open>A store whose every line is ended, and what it reads as.\<close>

definition keeps :: "store \<Rightarrow> 'a list \<Rightarrow> bool" where
  "keeps st xs \<longleftrightarrow> load_store read st = Inr xs \<and> (\<forall>s. st = Contents s \<longrightarrow> ended s)"

lemma keeps_none: "keeps NoFile []"
  by (simp add: keeps_def load_store_def)

lemma keeps_load: "keeps st xs \<Longrightarrow> load_store read st = Inr xs"
  by (simp add: keeps_def)

lemma keeps_append:
  assumes "keeps st xs" "ok x"
  shows "keeps (append_text (line x @ [line_feed]) st) (xs @ [x])"
proof -
  have one: "read_lines read n (splitlines (line x @ [line_feed])) = Inr [x]" for n
    using splitlines_line [OF single [OF assms(2)]] reads [OF assms(2)] not_blank [OF assms(2)] by simp
  show ?thesis
  proof (cases st)
    case NoFile
    then show ?thesis using assms(1) one by (auto simp: keeps_def load_store_def append_text_def ended_def)
  next
    case BadBytes
    then show ?thesis using assms(1) by (simp add: keeps_def load_store_def)
  next
    case (Contents s)
    then have s: "ended s" "read_lines read 1 (splitlines s) = Inr xs" using assms(1) by (auto simp: keeps_def load_store_def)
    then have "read_lines read 1 (splitlines (s @ line x @ [line_feed])) = Inr (xs @ [x])"
      using one by (simp add: splitlines_append read_lines_append)
    then show ?thesis using Contents by (auto simp: keeps_def load_store_def append_text_def ended_def)
  qed
qed

text \<open>A first line that cannot be read spoils the store for good.\<close>

lemma keeps_spoiled:
  assumes "keeps st xs" "one_line w" "line_break c" "code c \<noteq> 13" "c \<noteq> line_feed" "strip w \<noteq> []"
    and "\<And>n. read n w = Inl (err n)"
  shows "\<exists>n. load_store read (append_text (w @ c # t) st) = Inl (err n)"
proof -
  have first: "splitlines (w @ c # t) = w # splitlines t" using splitlines_first assms(2-5) by blast
  show ?thesis
  proof (cases st)
    case NoFile
    then show ?thesis using first assms(6,7) by (auto simp: load_store_def append_text_def)
  next
    case BadBytes
    then show ?thesis using assms(1) by (simp add: keeps_def load_store_def)
  next
    case (Contents s)
    then have s: "ended s" "read_lines read 1 (splitlines s) = Inr xs" using assms(1) by (auto simp: keeps_def load_store_def)
    then show ?thesis using Contents first assms(6,7)
      by (auto simp: splitlines_append read_lines_append load_store_def append_text_def)
  qed
qed

end

end
