(* ===== verification/Feedback.thy ===== *)
theory Feedback
  imports Evidence_Store Redact Py_Url
begin

text \<open>
  Human feedback on supervision events (\<open>feedback.py\<close>): validation, the append-only history and its
  reader. The random part of an identifier, the clock and the name of the user are arguments; the
  lock makes an addition one step.
\<close>

section \<open>Data\<close>

record human_feedback =
  fb_id :: string
  fb_event :: string
  fb_category :: string
  fb_created :: string
  fb_note :: string
  fb_rater :: string
  fb_version :: int

definition feedback_schema :: string where "feedback_schema = ''spotter.intervention_feedback''"
definition feedback_version :: int where "feedback_version = 1"
definition feedback_file :: string where "feedback_file = ''interventions.jsonl''"

definition feedback_categories :: "string list" where
  "feedback_categories = [''USEFUL'', ''WRONG'', ''UNNECESSARY'', ''TOO_LATE'', ''TOO_EARLY'', ''TOO_DISRUPTIVE'',
     ''CORRECT_BUT_POORLY_WORDED'', ''BLOCK_SHOULD_HAVE_ALLOWED'', ''BLOCK_CORRECT'', ''STALE_OR_DUPLICATE'', ''OTHER'']"

section \<open>Reading\<close>

definition required_value :: "(string \<Rightarrow> exc) \<Rightarrow> string \<Rightarrow> nat \<Rightarrow> payload \<Rightarrow> string \<Rightarrow> pyval result" where
  "required_value err name n raw key =
     (case dget raw key of Some v \<Rightarrow> Inr v | None \<Rightarrow> Inl (unreadable err name n))"

definition or_empty :: "pyval \<Rightarrow> string" where
  "or_empty v = (if truthy v then py_str v else [])"

definition feedback_item :: "nat \<Rightarrow> payload \<Rightarrow> int \<Rightarrow> human_feedback result" where
  "feedback_item n raw version =
     rbind (required_value FeedbackError feedback_file n raw ''feedback_id'') (\<lambda>i.
     rbind (required_value FeedbackError feedback_file n raw ''supervision_event_id'') (\<lambda>e.
     rbind (required_value FeedbackError feedback_file n raw ''category'') (\<lambda>c.
       if py_str c \<notin> set feedback_categories then Inl (unreadable FeedbackError feedback_file n)
       else rbind (required_value FeedbackError feedback_file n raw ''created_at'') (\<lambda>t.
         Inr \<lparr>fb_id = py_str i, fb_event = py_str e, fb_category = py_str c, fb_created = py_str t,
              fb_note = or_empty (get raw ''note''), fb_rater = or_empty (get raw ''rater''), fb_version = version\<rparr>))))"

definition feedback_record :: "nat \<Rightarrow> payload \<Rightarrow> human_feedback result" where
  "feedback_record n raw =
     rbind (required_value FeedbackError feedback_file n raw ''version'') (\<lambda>v.
     rbind (checked_version FeedbackError feedback_schema feedback_file n raw v) (\<lambda>version.
       if feedback_version < version
       then Inl (FeedbackError (line_error feedback_file n ('' uses schema v'' @ dec_int version @
              ''; this build understands up to v'' @ dec_int feedback_version)))
       else if version < 1
       then Inl (FeedbackError (line_error feedback_file n ('' uses unsupported schema v'' @ dec_int version)))
       else feedback_item n raw version))"

definition read_feedback :: "nat \<Rightarrow> string \<Rightarrow> human_feedback result" where
  "read_feedback = read_object FeedbackError feedback_file feedback_record"

definition load_feedback :: "string option \<Rightarrow> store \<Rightarrow> human_feedback list result" where
  "load_feedback event_id st =
     rbind (load_store read_feedback st) (\<lambda>items.
       Inr (case event_id of None \<Rightarrow> items | Some e \<Rightarrow> filter (\<lambda>i. fb_event i = e) items))"

section \<open>Adding\<close>

record feedback_request =
  rq_event :: string
  rq_category :: string
  rq_note :: string
  rq_rater :: "string option"
  rq_user :: string
  rq_hex :: string
  rq_now :: string

definition identity_ok :: "string \<Rightarrow> bool" where
  "identity_ok s \<longleftrightarrow> s \<noteq> [] \<and> length s \<le> 200"

definition rater_of :: "string \<Rightarrow> string option \<Rightarrow> string" where
  "rater_of user rater = (case rater of None \<Rightarrow> user | Some r \<Rightarrow> strip r)"

definition new_feedback :: "feedback_request \<Rightarrow> human_feedback result" where
  "new_feedback q =
     (let event = strip (rq_event q); category = upper (rq_category q); rater = rater_of (rq_user q) (rq_rater q) in
      if \<not> identity_ok event then Inl (FeedbackError ''intervention id must be non-empty and at most 200 characters'')
      else if category \<notin> set feedback_categories
      then Inl (FeedbackError (''category must be one of: '' @ join '', '' feedback_categories))
      else if \<not> identity_ok rater then Inl (FeedbackError ''rater must be a non-empty identity of at most 200 characters'')
      else Inr \<lparr>fb_id = ''feedback-'' @ rq_hex q, fb_event = event, fb_category = category, fb_created = rq_now q,
             fb_note = take 2000 (fst (redact_text (strip (rq_note q)))), fb_rater = rater, fb_version = feedback_version\<rparr>)"

definition feedback_value :: "human_feedback \<Rightarrow> payload" where
  "feedback_value f =
     [(''schema'', PStr feedback_schema), (''schema_version'', PInt feedback_version), (''feedback_id'', PStr (fb_id f)),
      (''supervision_event_id'', PStr (fb_event f)), (''category'', PStr (fb_category f)), (''created_at'', PStr (fb_created f)),
      (''note'', PStr (fb_note f)), (''rater'', PStr (fb_rater f)), (''version'', PInt (fb_version f))]"

definition feedback_line :: "human_feedback \<Rightarrow> string" where
  "feedback_line f = json_text False (PDict (feedback_value f))"

definition add_feedback :: "feedback_request \<Rightarrow> store \<Rightarrow> (human_feedback \<times> store) result" where
  "add_feedback q st =
     rbind (new_feedback q) (\<lambda>f.
     rbind (load_store read_feedback st) (\<lambda>_.
       Inr (f, append_text (feedback_line f @ [line_feed]) st)))"

text \<open>A history of requests, refused ones included.\<close>

definition feedback_after :: "feedback_request list \<Rightarrow> store \<Rightarrow> store" where
  "feedback_after qs st = foldl (\<lambda>st q. case add_feedback q st of Inl _ \<Rightarrow> st | Inr (_, st') \<Rightarrow> st') st qs"

definition accepted_feedback :: "feedback_request list \<Rightarrow> human_feedback list" where
  "accepted_feedback qs = List.map_filter (\<lambda>q. case new_feedback q of Inr f \<Rightarrow> Some f | Inl _ \<Rightarrow> None) qs"

definition feedback_plain :: "human_feedback \<Rightarrow> bool" where
  "feedback_plain f \<longleftrightarrow> next_line \<notin> set (fb_id f @ fb_event f @ fb_created f @ fb_note f @ fb_rater f)"

section \<open>The store keeps the history\<close>

definition feedback_valid :: "human_feedback \<Rightarrow> bool" where
  "feedback_valid f \<longleftrightarrow> fb_category f \<in> set feedback_categories \<and> fb_version f = feedback_version"

lemma new_feedback_valid: "new_feedback q = Inr f \<Longrightarrow> feedback_valid f"
  by (auto simp: new_feedback_def feedback_valid_def Let_def split: if_splits)

lemma feedback_value_exact: "exact_json (PDict (feedback_value f))"
  by (simp add: feedback_value_def)

lemma feedback_read:
  assumes "feedback_valid f"
  shows "read_feedback n (feedback_line f) = Inr f"
proof -
  have "feedback_record n (feedback_value f) = Inr f"
    using assms by (simp add: feedback_record_def feedback_item_def required_value_def checked_version_def feedback_value_def
        dget_eval get_def feedback_valid_def feedback_version_def or_empty_def truthy_def py_str_def as_int_def)
  then show ?thesis
    by (simp add: read_feedback_def read_object_def feedback_line_def loads_dumps [OF feedback_value_exact] del: json_text.simps)
qed

lemma categories_plain: "c \<in> set feedback_categories \<Longrightarrow> next_line \<notin> set c"
proof -
  have "list_all (\<lambda>c. next_line \<notin> set c) feedback_categories" by code_simp
  then show "c \<in> set feedback_categories \<Longrightarrow> next_line \<notin> set c" by (simp add: list_all_iff)
qed

lemma feedback_keys: "map fst (feedback_value f) = [''schema'', ''schema_version'', ''feedback_id'', ''supervision_event_id'',
    ''category'', ''created_at'', ''note'', ''rater'', ''version'']"
  by (simp add: feedback_value_def)

lemma feedback_keys_plain: "kv \<in> set (feedback_value f) \<Longrightarrow> next_line \<notin> set (fst kv)"
proof -
  have "list_all (\<lambda>k. next_line \<notin> set k) (map fst (feedback_value f))" unfolding feedback_keys by code_simp
  then show "kv \<in> set (feedback_value f) \<Longrightarrow> next_line \<notin> set (fst kv)" by (auto simp: list_all_iff)
qed

lemma feedback_values_plain:
  assumes "feedback_valid f" "feedback_plain f"
  shows "list_all no_nel (map snd (feedback_value f))"
proof -
  have "next_line \<notin> set feedback_schema" by code_simp
  then show ?thesis using assms by (simp add: feedback_value_def feedback_valid_def feedback_plain_def categories_plain)
qed

lemma feedback_one_line: "feedback_valid f \<Longrightarrow> feedback_plain f \<Longrightarrow> one_line (feedback_line f)"
  unfolding feedback_line_def
  using feedback_keys_plain [of _ f] feedback_values_plain [of f]
  by (intro text_one_line feedback_value_exact) (auto simp: list_all_iff)

lemma feedback_not_blank: "strip (feedback_line f) \<noteq> []"
  by (simp add: feedback_line_def dict_not_blank del: json_text.simps)

interpretation fbs: line_store read_feedback feedback_line "\<lambda>f. feedback_valid f \<and> feedback_plain f"
  by unfold_locales (simp_all add: feedback_read feedback_one_line feedback_not_blank)

section \<open>Histories\<close>

lemma add_valid:
  assumes "fbs.keeps st xs" "new_feedback q = Inr f"
  shows "add_feedback q st = Inr (f, append_text (feedback_line f @ [line_feed]) st)"
  using fbs.keeps_load [OF assms(1)] assms(2) by (simp add: add_feedback_def)

lemma history_keeps:
  assumes "fbs.keeps st xs" "list_all feedback_plain (accepted_feedback qs)"
  shows "fbs.keeps (feedback_after qs st) (xs @ accepted_feedback qs)"
  using assms
proof (induction qs arbitrary: st xs)
  case (Cons q qs)
  show ?case
  proof (cases "new_feedback q")
    case (Inl e)
    then show ?thesis using Cons by (simp add: feedback_after_def accepted_feedback_def add_feedback_def map_filter_simps)
  next
    case (Inr f)
    then have "fbs.keeps (append_text (feedback_line f @ [line_feed]) st) (xs @ [f])"
      using Cons.prems new_feedback_valid
      by (intro fbs.keeps_append) (auto simp: accepted_feedback_def map_filter_simps)
    from Cons.IH [OF this] show ?thesis
      using Cons.prems Inr add_valid [OF Cons.prems(1) Inr]
      by (simp add: feedback_after_def accepted_feedback_def map_filter_simps)
  qed
qed (simp add: feedback_after_def accepted_feedback_def map_filter_simps)

text \<open>A note with NEL inside is written as two lines, and the first is no JSON.\<close>

definition before_note :: "human_feedback \<Rightarrow> payload" where
  "before_note f =
     [(''schema'', PStr feedback_schema), (''schema_version'', PInt feedback_version), (''feedback_id'', PStr (fb_id f)),
      (''supervision_event_id'', PStr (fb_event f)), (''category'', PStr (fb_category f)), (''created_at'', PStr (fb_created f))]"

definition first_half :: "human_feedback \<Rightarrow> string \<Rightarrow> string" where
  "first_half f s = ''{'' @ concat (map (\<lambda>kv. member_text False kv @ '', '') (before_note f)) @
     json_quote False ''note'' @ '': '' @ dquote # concat (map (escape_char False) s)"

lemma nel_not_escaped: "escape_char False next_line = [next_line]"
  by code_simp

lemma feedback_line_halves:
  assumes "fb_note f = s @ next_line # t"
  shows "\<exists>u. feedback_line f = first_half f s @ next_line # u"
  using nel_not_escaped
  by (simp add: feedback_line_def first_half_def feedback_value_def before_note_def assms json_quote_def)

lemma first_half_unreadable: "read_feedback n (first_half f s) = Inl (unreadable FeedbackError feedback_file n)"
proof -
  have "list_all (\<lambda>kv. exact_json (snd kv)) (before_note f)" by (simp add: before_note_def)
  from loads_unclosed [OF this, of False "''note''" s] show ?thesis
    by (simp add: read_feedback_def read_object_def first_half_def)
qed

lemma first_half_one_line:
  assumes "feedback_valid f" "feedback_plain (f\<lparr>fb_note := []\<rparr>)" "next_line \<notin> set s"
  shows "one_line (first_half f s)"
proof -
  have member: "one_line (member_text False kv)" if "kv \<in> set (before_note f)" for kv
  proof -
    have "kv \<in> set (feedback_value f)" using that by (auto simp: before_note_def feedback_value_def)
    then have "next_line \<notin> set (fst kv)" by (rule feedback_keys_plain)
    moreover have "no_nel (snd kv)" "exact_json (snd kv)"
      using that assms feedback_values_plain [of "f\<lparr>fb_note := []\<rparr>"]
      by (auto simp: before_note_def feedback_value_def feedback_valid_def)
    ultimately show ?thesis by (simp add: json_quote_def no_breaks quote_one_line text_one_line)
  qed
  have "one_line (concat (map (\<lambda>kv. member_text False kv @ '', '') d))" if "set d \<subseteq> set (before_note f)" for d
    using that member by (induction d) (simp_all add: no_breaks)
  moreover have "one_line (json_quote False ''note'')" by code_simp
  ultimately show ?thesis using assms(3) by (simp add: first_half_def no_breaks quote_one_line)
qed

lemma first_half_not_blank: "strip (first_half f s) \<noteq> []"
  by (rule strip_not_Nil [of "CHR ''{''"]) (simp_all add: first_half_def is_space_def code_def)

lemma split_note:
  assumes "x \<in> set s"
  obtains a b where "s = a @ x # b" "x \<notin> set a"
  using assms by (meson split_list_first)

lemma nel_spoils:
  assumes "fbs.keeps st xs" "feedback_valid f" "feedback_plain (f\<lparr>fb_note := []\<rparr>)" "next_line \<in> set (fb_note f)"
  shows "\<exists>n. load_store read_feedback (append_text (feedback_line f @ t) st) = Inl (unreadable FeedbackError feedback_file n)"
proof -
  obtain a b where a: "fb_note f = a @ next_line # b" "next_line \<notin> set a" using assms(4) by (rule split_note)
  obtain u where u: "feedback_line f = first_half f a @ next_line # u" using feedback_line_halves [OF a(1)] by blast
  have "line_break next_line" "code next_line \<noteq> 13" "next_line \<noteq> line_feed" by code_simp+
  then show ?thesis
    using fbs.keeps_spoiled [OF assms(1) first_half_one_line [OF assms(2,3) a(2)], of next_line
        "\<lambda>n. unreadable FeedbackError feedback_file n" "u @ t"] first_half_not_blank first_half_unreadable
    by (simp add: u)
qed

lemma unreadable_is_final:
  assumes "load_store read_feedback st = Inl e"
  shows "feedback_after qs st = st"
proof (induction qs)
  case (Cons q qs)
  have "\<not> (\<exists>x. add_feedback q st = Inr x)" using assms by (auto simp: add_feedback_def)
  then show ?case using Cons by (cases "add_feedback q st") (auto simp: feedback_after_def)
qed (simp add: feedback_after_def)

lemma feedback_after_append: "feedback_after (ps @ qs) st = feedback_after qs (feedback_after ps st)"
  by (simp add: feedback_after_def)

end
