(* ===== verification/Evidence_Claims.thy ===== *)
theory Evidence_Claims
  imports Feedback
begin

text \<open>
  Claims on the evidence stores: what is added is read back, and what stops a store from being read.
\<close>

section \<open>Feedback\<close>


definition sample_request :: "string \<Rightarrow> feedback_request" where
  "sample_request note =
     \<lparr>rq_event = '' e1 '', rq_category = ''useful'', rq_note = note, rq_rater = None, rq_user = ''u'', rq_hex = ''0'', rq_now = ''t''\<rparr>"

definition sample_feedback :: "string \<Rightarrow> human_feedback" where
  "sample_feedback note =
     \<lparr>fb_id = ''feedback-0'', fb_event = ''e1'', fb_category = ''USEFUL'', fb_created = ''t'', fb_note = note, fb_rater = ''u'',
      fb_version = 1\<rparr>"

lemma sample_accepted: "new_feedback (sample_request ''ok'') = Inr (sample_feedback ''ok'')"
  by code_simp

lemma sample_nel_accepted:
  "new_feedback (sample_request [CHR ''a'', next_line, CHR ''b'']) = Inr (sample_feedback [CHR ''a'', next_line, CHR ''b''])"
  by code_simp


text \<open>C31: One accepted note with the character NEL inside makes the whole history unreadable: every
  later load raises FeedbackError and no later request, whatever it is, adds anything.\<close>

theorem nel_note_spoils_feedback:
  assumes "list_all feedback_plain (accepted_feedback ps)" "new_feedback q = Inr f"
    and "feedback_plain (f\<lparr>fb_note := []\<rparr>)" "next_line \<in> set (fb_note f)"
  shows "\<exists>st n. add_feedback q (feedback_after ps NoFile) = Inr (f, st) \<and>
     (\<forall>qs sel. feedback_after qs st = st \<and> load_feedback sel st = Inl (unreadable FeedbackError feedback_file n))"
proof -
  have kept: "fbs.keeps (feedback_after ps NoFile) (accepted_feedback ps)"
    using history_keeps [OF fbs.keeps_none assms(1)] by simp
  obtain n where "load_store read_feedback (append_text (feedback_line f @ [line_feed]) (feedback_after ps NoFile))
      = Inl (unreadable FeedbackError feedback_file n)"
    using nel_spoils [OF kept new_feedback_valid [OF assms(2)] assms(3,4)] by blast
  then show ?thesis using add_valid [OF kept assms(2)] unreadable_is_final by (fastforce simp: load_feedback_def)
qed

theorem nel_note_spoils_feedback_witness:
  "\<exists>st n. load_feedback None st = Inl (unreadable FeedbackError feedback_file n) \<and>
     feedback_after [sample_request ''ok''] st = st \<and> new_feedback (sample_request ''ok'') = Inr (sample_feedback ''ok'')"
proof -
  have "feedback_plain (sample_feedback [CHR ''a'', next_line, CHR ''b'']\<lparr>fb_note := []\<rparr>)" by code_simp
  moreover have "next_line \<in> set (fb_note (sample_feedback [CHR ''a'', next_line, CHR ''b'']))"
    by (simp add: sample_feedback_def)
  ultimately show ?thesis
    using nel_note_spoils_feedback [of "[]", OF _ sample_nel_accepted] sample_accepted
    by (auto simp: accepted_feedback_def map_filter_simps)
qed

end
