(* ===== verification/Ingestion.thy ===== *)
theory Ingestion
  imports Journal_Claims Effect_Ledger
begin

text \<open>
  Model of \<open>src/spotter/ingestion.py\<close>: the normalizer of App Server notifications
  (\<open>CodexTraceNormalizer\<close>) and the ingestor that journals each event once and rebuilds its indexes
  from the journals (\<open>AppServerTraceIngestor\<close>). Clock readings, the encoded length of a line and the
  snapshot taken of a repository are arguments. The source audit (field shapes only, its failures
  swallowed) is left out. Thread identifiers are taken to hold no path separator.
\<close>

section \<open>Reading a notification\<close>

definition agent_name :: string where "agent_name = ''codex''"
definition source_name :: string where "source_name = ''codex_app_server''"

definition replay_safe_methods :: "string list" where
  "replay_safe_methods = [''thread/started'', ''turn/started'', ''turn/completed'', ''item/started'', ''item/completed'']"

definition known_fields :: "pyval \<Rightarrow> string list \<Rightarrow> payload" where
  "known_fields v keys =
     (case v of PDict d \<Rightarrow> List.map_filter (\<lambda>k. if get d k = PNone then None else Some (k, get d k)) keys | _ \<Rightarrow> [])"

definition object_of :: "pyval \<Rightarrow> string \<Rightarrow> payload result" where
  "object_of v name = (case v of PDict d \<Rightarrow> Inr d | _ \<Rightarrow> Inl (IngestionError (name @ '' must be an object'')))"

definition optional_string :: "pyval \<Rightarrow> string option" where
  "optional_string v = (case v of PStr s \<Rightarrow> if s = [] then None else Some s | _ \<Rightarrow> None)"

definition required_string :: "pyval \<Rightarrow> string \<Rightarrow> string result" where
  "required_string v name =
     (case optional_string v of Some s \<Rightarrow> Inr s | None \<Rightarrow> Inl (IngestionError (name @ '' must be a non-empty string'')))"

definition seconds :: "pyval \<Rightarrow> float64 option result" where
  "seconds v =
     (case v of PFloat x \<Rightarrow> Inr (Some x) | PInt i \<Rightarrow> rbind (float_of_int i) (\<lambda>x. Inr (Some x)) | _ \<Rightarrow> Inr None)"

definition milliseconds :: "pyval \<Rightarrow> float64 option result" where
  "milliseconds v = rbind (seconds v) (\<lambda>x. Inr (map_option (\<lambda>x. fl_div x (Fin 1000)) x))"

text \<open>\<open>json.dumps\<close> with sorted keys, compact separators and without \<open>ensure_ascii\<close>.\<close>

function sorted_json :: "pyval \<Rightarrow> string" where
  "sorted_json PNone = ''null''"
| "sorted_json (PBool b) = (if b then ''true'' else ''false'')"
| "sorted_json (PInt i) = dec_int i"
| "sorted_json (PFloat x) =
     (case x of Fin a \<Rightarrow> float_repr a | PosInf \<Rightarrow> ''Infinity'' | NegInf \<Rightarrow> ''-Infinity'' | NaN \<Rightarrow> ''NaN'')"
| "sorted_json (PStr s) = json_string s"
| "sorted_json (PList vs) = ''['' @ join '','' (map sorted_json vs) @ '']''"
| "sorted_json (PDict d) =
     ''{'' @ join '','' (map snd (sort_key fst (map (\<lambda>kv. (fst kv, json_string (fst kv) @ '':'' @ sorted_json (snd kv))) d))) @ ''}''"
  by pat_completeness auto
termination
  by (relation "measure size") (simp_all add: size_item size_entry)

definition event_id :: "string \<Rightarrow> payload \<Rightarrow> string option" where
  "event_id method params =
     (if method \<notin> set replay_safe_methods then None
      else Some (''codex:'' @ sha256_hex (sorted_json (PDict [(''method'', PStr method), (''params'', PDict params)]))))"

section \<open>Items\<close>

definition classification_payload :: "classification \<Rightarrow> payload" where
  "classification_payload c =
     (if cl_class c = ClassB then
        [(''reversibility_class'', PStr ''C''), (''expected_reversibility_class'', PStr ''B''),
         (''effect_kind'', PStr (''uncheckpointed_'' @ cl_kind c)), (''resource'', PStr (cl_resource c)),
         (''reversible'', PBool False), (''checkpoint_required'', PBool True), (''checkpoint_observed'', PBool False),
         (''effect_classifier'', PStr (cl_classifier c)), (''effect_reason'', PStr ''checkpoint_unavailable''),
         (''effect_confidence'', PStr (confidence_name (cl_confidence c))), (''semantic_operation'', opt_str (cl_semantic c))]
      else
        [(''reversibility_class'', PStr (class_name (cl_class c))), (''effect_kind'', PStr (cl_kind c)),
         (''resource'', PStr (cl_resource c)), (''reversible'', PBool (cl_reversible c)),
         (''effect_classifier'', PStr (cl_classifier c)), (''effect_reason'', PStr (cl_reason c)),
         (''effect_confidence'', PStr (confidence_name (cl_confidence c))), (''semantic_operation'', opt_str (cl_semantic c))])"

definition user_content :: "pyval \<Rightarrow> pyval list" where
  "user_content v =
     (case v of
        PList parts \<Rightarrow> List.map_filter (\<lambda>p. case p of PDict _ \<Rightarrow> Some (PDict (known_fields p [''type'', ''text'', ''url'', ''path''])) | _ \<Rightarrow> None) parts
      | _ \<Rightarrow> [])"

definition token_group :: "payload \<Rightarrow> string \<Rightarrow> payload" where
  "token_group d name =
     (case get d name of
        PDict g \<Rightarrow> [(name, PDict (known_fields (PDict g) [''inputTokens'', ''cachedInputTokens'', ''cacheWriteInputTokens'',
          ''outputTokens'', ''reasoningOutputTokens'', ''totalTokens'']))]
      | _ \<Rightarrow> [])"

definition token_usage :: "pyval \<Rightarrow> payload" where
  "token_usage v =
     (case v of
        PDict d \<Rightarrow>
          token_group d ''last'' @ token_group d ''total''
          @ (case get d ''modelContextWindow'' of PInt i \<Rightarrow> [(''modelContextWindow'', PInt i)]
             | PBool b \<Rightarrow> [(''modelContextWindow'', PBool b)] | _ \<Rightarrow> [])
      | _ \<Rightarrow> [])"

definition file_changes :: "pyval \<Rightarrow> payload list" where
  "file_changes v =
     (case v of
        PList cs \<Rightarrow> List.map_filter (\<lambda>c. case c of PDict _ \<Rightarrow> Some (known_fields c [''path'', ''kind'', ''diff'']) | _ \<Rightarrow> None) cs
      | _ \<Rightarrow> [])"

definition file_change_payload :: "payload \<Rightarrow> payload" where
  "file_change_payload entry =
     (let changes = file_changes (get entry ''changes'');
          files = PList (List.map_filter (\<lambda>c. dget c ''path'') changes)
      in [(''status'', get entry ''status''), (''files'', files), (''changes'', PList (map PDict changes))]
         @ classification_payload (classify (PStr ''apply_patch'') (PDict [(''files'', files)]) []))"

text \<open>A call of a tool: what is known of it, with the classification of its name and arguments.\<close>

definition tool_payload :: "payload \<Rightarrow> string list \<Rightarrow> string \<Rightarrow> string \<Rightarrow> mcp_rule list \<Rightarrow> payload" where
  "tool_payload entry keys prefix owner rules =
     (let p = known_fields (PDict entry) keys;
          part = (\<lambda>k. case optional_string (get p k) of Some s \<Rightarrow> s | None \<Rightarrow> ''unknown'');
          arguments = (case get p ''arguments'' of PDict d \<Rightarrow> d | _ \<Rightarrow> [])
      in dict_merge p (classification_payload
           (classify (PStr (prefix @ ''__'' @ part owner @ ''__'' @ part ''tool'')) (PDict arguments) rules)))"

definition command_payload :: "payload \<Rightarrow> payload" where
  "command_payload entry =
     (let p = known_fields (PDict entry)
            [''command'', ''cwd'', ''status'', ''aggregatedOutput'', ''exitCode'', ''durationMs'', ''source'']
      in dict_merge p (classification_payload
           (classify (PStr ''Bash'') (PDict [(''command'', get p ''command''), (''cwd'', get p ''cwd'')]) [])))"

definition normalize_item :: "payload \<Rightarrow> bool \<Rightarrow> mcp_rule list \<Rightarrow> string \<times> payload" where
  "normalize_item entry completed rules =
     (let kind = (case optional_string (get entry ''type'') of Some s \<Rightarrow> s | None \<Rightarrow> ''unknown'') in
      if kind = ''userMessage'' then
        (''user_prompt'', (''content'', PList (user_content (get entry ''content'')))
           # (case optional_string (get entry ''clientId'') of Some s \<Rightarrow> [(''client_user_message_id'', PStr s)] | None \<Rightarrow> []))
      else if kind = ''agentMessage'' then (''agent_message'', known_fields (PDict entry) [''text'', ''phase''])
      else if kind = ''plan'' then (''plan'', known_fields (PDict entry) [''text''])
      else if kind = ''reasoning'' then
        (''reasoning_summary'', [(''summary'', (case get entry ''summary'' of PList xs \<Rightarrow> PList xs | _ \<Rightarrow> PList []))])
      else if kind = ''commandExecution'' then (if completed then ''command_result'' else ''command_started'', command_payload entry)
      else if kind = ''fileChange'' then (if completed then ''file_edit'' else ''file_change_started'', file_change_payload entry)
      else if kind = ''mcpToolCall'' then
        (if completed then ''tool_result'' else ''tool_started'',
         tool_payload entry [''server'', ''tool'', ''arguments'', ''status'', ''result'', ''error'', ''durationMs''] ''mcp'' ''server'' rules)
      else if kind = ''dynamicToolCall'' then
        (if completed then ''tool_result'' else ''tool_started'',
         tool_payload entry [''namespace'', ''tool'', ''arguments'', ''status'', ''success'', ''contentItems'', ''durationMs'']
           ''dynamic'' ''namespace'' [])
      else if kind = ''webSearch'' then
        (if completed then ''search'' else ''search_started'', known_fields (PDict entry) [''query'', ''action'', ''results''])
      else (if completed then ''item_completed'' else ''item_started'', [(''item_type'', PStr kind)]))"

section \<open>Notifications\<close>

text \<open>\<open>_identity\<close> and \<open>_finish_turn\<close>: the registry keeps what was observed before an exception.\<close>

definition agent_only :: runtime_identity where
  "agent_only = \<lparr>ri_thread = None, ri_turn = None, ri_attachment = None,
     ri_provenance = \<lparr>prov_agent = agent_name, prov_thread = None, prov_turn = None, prov_attachment = None,
       prov_legacy_session = None\<rparr>\<rparr>"

definition identity_for :: "registry \<Rightarrow> string option \<Rightarrow> string option \<Rightarrow> bool \<Rightarrow> (registry, runtime_identity) attempt" where
  "identity_for r thread_name turn_name observed_start =
     (case thread_name of
        None \<Rightarrow> (r, Inr agent_only)
      | Some name \<Rightarrow>
          attempt_bind (attempt_on r (observe_thread r agent_name name)) (\<lambda>r1 t.
          case turn_name of
            None \<Rightarrow> (r1, Inr \<lparr>ri_thread = Some (at_id t), ri_turn = None, ri_attachment = None, ri_provenance = at_provenance t\<rparr>)
          | Some turn_id \<Rightarrow>
              attempt_bind (attempt_on r1 (start_turn r1 (at_id t) turn_id None observed_start)) (\<lambda>r2 u.
                (r2, address_turn r2 (tn_id u)))))"

definition finished_identity :: "registry \<Rightarrow> string \<Rightarrow> string \<Rightarrow> turn_status \<Rightarrow> (registry, runtime_identity \<times> bool) attempt" where
  "finished_identity r thread_name turn_name status =
     attempt_bind (attempt_on r (observe_thread r agent_name thread_name)) (\<lambda>r1 t.
     attempt_bind (attempt_on r1 (finish_turn r1 (at_id t) turn_name status)) (\<lambda>r2 u.
       (r2, rbind (address_turn r2 (tn_id u)) (\<lambda>i. Inr (i, tn_observed_start u)))))"

text \<open>The event of a method, with what every event carries.\<close>

definition notified :: "string \<Rightarrow> payload \<Rightarrow> string \<Rightarrow> payload \<Rightarrow> runtime_identity \<Rightarrow> trace_event" where
  "notified method params kind p identity =
     (plain_event kind)\<lparr>ev_payload := p, ev_id := event_id method params, ev_identity := Some identity,
       ev_provenance := Some \<lparr>tp_source = source_name, tp_method = Some method\<rparr>\<rparr>"

definition outcome_status :: "pyval \<Rightarrow> turn_status" where
  "outcome_status v = (if v = PStr ''interrupted'' then TurnInterrupted else TurnCompleted)"

definition thread_started :: "registry \<Rightarrow> payload \<Rightarrow> (registry, trace_event) attempt" where
  "thread_started r params =
     (let method = ''thread/started'' in
      attempt_bind (r, rbind (object_of (get params ''thread'') ''thread'') (\<lambda>t.
          rbind (required_string (get t ''id'') ''thread.id'') (\<lambda>i. Inr (t, i)))) (\<lambda>r (t, name).
      attempt_bind (identity_for r (Some name) None False) (\<lambda>r1 identity.
        (r1, rbind (seconds (get t ''createdAt'')) (\<lambda>at_time.
           Inr ((notified method params ''thread_started'' (known_fields (PDict t) [''cwd'', ''sessionId'', ''status'', ''name'']) identity)
             \<lparr>ev_at := at_time\<rparr>))))))"

definition turn_completed :: "registry \<Rightarrow> payload \<Rightarrow> string option \<Rightarrow> string option \<Rightarrow> (registry, trace_event) attempt" where
  "turn_completed r params thread_name turn_name =
     (case (thread_name, turn_name) of
        (Some tn, Some un) \<Rightarrow>
          attempt_bind (r, object_of (get params ''turn'') ''turn'') (\<lambda>r t.
          attempt_bind (finished_identity r tn un (outcome_status (get t ''status''))) (\<lambda>r1 (identity, observed_start).
            (r1, rbind (seconds (get t ''completedAt'')) (\<lambda>at_time.
               Inr ((notified ''turn/completed'' params ''turn_completed''
                   (known_fields (PDict t) [''status'', ''durationMs'', ''error''] @ [(''observed_start'', PBool observed_start)]) identity)
                 \<lparr>ev_at := at_time\<rparr>)))))
      | _ \<Rightarrow> (r, Inl (IngestionError ''turn/completed omitted thread or turn identity'')))"

definition turn_started :: "payload \<Rightarrow> runtime_identity \<Rightarrow> trace_event result" where
  "turn_started params identity =
     (case get params ''turn'' of
        PDict t \<Rightarrow> rbind (seconds (get t ''startedAt'')) (\<lambda>at_time.
          Inr ((notified ''turn/started'' params ''turn_started'' (known_fields (PDict t) [''status'']) identity)\<lparr>ev_at := at_time\<rparr>))
      | _ \<Rightarrow> Inl (IngestionError ''turn/started omitted turn''))"

definition item_event :: "string \<Rightarrow> payload \<Rightarrow> mcp_rule list \<Rightarrow> runtime_identity \<Rightarrow> trace_event result" where
  "item_event method params rules identity =
     rbind (object_of (get params ''item'') ''item'') (\<lambda>entry.
     rbind (required_string (get entry ''id'') ''item.id'') (\<lambda>item_id.
     let completed = (method = ''item/completed''); (kind, p) = normalize_item entry completed rules;
         p' = dset ''lifecycle'' (PStr (if completed then ''completed'' else ''started'')) p
     in rbind (milliseconds (get params (if completed then ''completedAtMs'' else ''startedAtMs''))) (\<lambda>at_time.
          Inr ((notified method params kind p' identity)
            \<lparr>ev_at := at_time, ev_operation := Some item_id, ev_item := Some item_id\<rparr>))))"

definition plan_payload :: "payload \<Rightarrow> payload" where
  "plan_payload params =
     (case get params ''plan'' of
        PList steps \<Rightarrow> [(''steps'', PList (List.map_filter
          (\<lambda>s. case s of PDict _ \<Rightarrow> Some (PDict (known_fields s [''step'', ''status''])) | _ \<Rightarrow> None) steps))]
      | _ \<Rightarrow> [])
     @ (case get params ''explanation'' of PStr s \<Rightarrow> [(''explanation'', PStr s)] | _ \<Rightarrow> [])"

definition other_event :: "string \<Rightarrow> payload \<Rightarrow> mcp_rule list \<Rightarrow> runtime_identity \<Rightarrow> trace_event result" where
  "other_event method params rules identity =
     (let event = (\<lambda>kind p. notified method params kind p identity) in
      if method = ''turn/started'' then turn_started params identity
      else if method = ''thread/status/changed'' then Inr (event ''thread_status'' (known_fields (PDict params) [''status'']))
      else if method \<in> set [''thread/archived'', ''thread/unarchived'', ''thread/closed'', ''thread/deleted''] then
        Inr (event (map (\<lambda>c. if c = CHR ''/'' then CHR ''_'' else c) method) [])
      else if method = ''item/started'' \<or> method = ''item/completed'' then item_event method params rules identity
      else if method = ''turn/diff/updated'' then Inr (event ''diff_updated'' (known_fields (PDict params) [''diff'']))
      else if method = ''turn/plan/updated'' then Inr (event ''plan'' (plan_payload params))
      else if method = ''thread/tokenUsage/updated'' then Inr (event ''token_usage'' (token_usage (get params ''tokenUsage'')))
      else if method = ''error'' then Inr (event ''runtime_error'' (known_fields (PDict params) [''error'', ''willRetry'']))
      else Inr ((event ''runtime_event_unknown'' [(''method'', PStr method)])
             \<lparr>ev_item := optional_string (get params ''itemId'')\<rparr>))"

definition normalize :: "registry \<Rightarrow> mcp_rule list \<Rightarrow> string \<Rightarrow> payload \<Rightarrow> (registry, trace_event) attempt" where
  "normalize r rules method raw =
     (case get raw ''params'' of
        PDict params \<Rightarrow>
          if method = ''thread/started'' then thread_started r params
          else
            let thread_name = optional_string (get params ''threadId'');
                turn_name = (case get params ''turn'' of
                    PDict t \<Rightarrow> (case optional_string (get t ''id'') of
                      Some u \<Rightarrow> Some u | None \<Rightarrow> optional_string (get params ''turnId''))
                  | _ \<Rightarrow> optional_string (get params ''turnId''))
            in if method = ''turn/completed'' then turn_completed r params thread_name turn_name
               else attempt_bind (identity_for r thread_name turn_name (method = ''turn/started'')) (\<lambda>r1 identity.
                 (r1, other_event method params rules identity))
      | _ \<Rightarrow> (r, Inl (IngestionError (method @ '' notification has no object params''))))"

section \<open>The ingestor\<close>

type_synonym operation_key = "string \<times> string \<times> string \<times> string"
type_synonym ordering_key = "string \<times> string \<times> string"

record indexes =
  ix_seen :: "string set"
  ix_operations :: "(operation_key, string \<times> string option) dict"
  ix_terminal :: "string set"
  ix_last_at :: "(ordering_key, float64) dict"
  ix_last_arrival :: "(int, int) dict"
  ix_repositories :: "(string, string) dict"
  ix_last_epoch :: int

definition no_indexes :: indexes where
  "no_indexes = \<lparr>ix_seen = {}, ix_operations = [], ix_terminal = {}, ix_last_at = [], ix_last_arrival = [],
     ix_repositories = [], ix_last_epoch = 0\<rparr>"

text \<open>The journals by file name, the registry of the normalizer, and the indexes.\<close>

record ingestor =
  ig_journals :: "(string, journal) dict"
  ig_registry :: registry
  ig_indexes :: indexes

text \<open>What an append depends on besides the state: the length of an encoded line, the clock of each of
  the two records, the commit a snapshot yields (\<open>None\<close> for \<open>SnapshotError\<close>).\<close>

record append_env =
  ae_bytes :: "pyval \<Rightarrow> nat"
  ae_first :: receipt
  ae_second :: receipt
  ae_take :: "string \<Rightarrow> string option \<Rightarrow> string option"

definition thread_of_event :: "trace_event \<Rightarrow> string option" where
  "thread_of_event e = Option.bind (ev_identity e) (\<lambda>i. map_option thread_value (ri_thread i))"

definition turn_of_event :: "trace_event \<Rightarrow> string option" where
  "turn_of_event e = Option.bind (ev_identity e) (\<lambda>i. map_option turn_value (ri_turn i))"

definition or_blank :: "string option \<Rightarrow> string" where
  "or_blank s = (case s of Some x \<Rightarrow> x | None \<Rightarrow> [])"

definition route :: "trace_event \<Rightarrow> string" where
  "route e = (case thread_of_event e of Some t \<Rightarrow> ''app-server-'' @ t @ ''.jsonl'' | None \<Rightarrow> ''app-server-unscoped.jsonl'')"

definition epoch_text :: "trace_event \<Rightarrow> string" where
  "epoch_text e = (case ev_epoch e of Some i \<Rightarrow> if i = 0 then [] else dec_int i | None \<Rightarrow> [])"

definition operation_key :: "trace_event \<Rightarrow> string \<Rightarrow> string \<Rightarrow> operation_key" where
  "operation_key e path operation = (path, or_blank (turn_of_event e), epoch_text e, operation)"

definition ordering_key :: "trace_event \<Rightarrow> string \<Rightarrow> ordering_key" where
  "ordering_key e path = (path, or_blank (turn_of_event e), epoch_text e)"

text \<open>\<open>a < b\<close> and \<open>max(a, b)\<close> of two doubles.\<close>

definition fl_less :: "float64 \<Rightarrow> float64 \<Rightarrow> bool" where
  "fl_less a b \<longleftrightarrow> fl_le a b \<and> \<not> fl_le b a"

definition fl_max :: "float64 \<Rightarrow> float64 \<Rightarrow> float64" where
  "fl_max a b = (if fl_less a b then b else a)"

definition lifecycle :: "trace_event \<Rightarrow> string option" where
  "lifecycle e = optional_string (get (ev_payload e) ''lifecycle'')"

definition status :: "trace_event \<Rightarrow> string option" where
  "status e = optional_string (get (ev_payload e) ''status'')"

definition last_arrival :: "indexes \<Rightarrow> int \<Rightarrow> int" where
  "last_arrival ix epoch = (case dget (ix_last_arrival ix) epoch of Some n \<Rightarrow> n | None \<Rightarrow> 0)"

text \<open>\<open>_remember\<close>, index by index.\<close>

definition note_repository :: "trace_event \<Rightarrow> string \<Rightarrow> indexes \<Rightarrow> indexes" where
  "note_repository e path ix =
     (case optional_string (get (ev_payload e) ''cwd'') of
        Some cwd \<Rightarrow> if ev_kind e = ''thread_started'' then ix\<lparr>ix_repositories := dset path cwd (ix_repositories ix)\<rparr> else ix
      | None \<Rightarrow> ix)"

definition note_seen :: "trace_event \<Rightarrow> indexes \<Rightarrow> indexes" where
  "note_seen e ix = (case ev_id e of Some i \<Rightarrow> ix\<lparr>ix_seen := insert i (ix_seen ix)\<rparr> | None \<Rightarrow> ix)"

definition note_operation :: "trace_event \<Rightarrow> string \<Rightarrow> indexes \<Rightarrow> indexes" where
  "note_operation e path ix =
     (case (ev_operation e, lifecycle e) of
        (Some operation, Some phase) \<Rightarrow>
          ix\<lparr>ix_operations := dset (operation_key e path operation) (phase, status e) (ix_operations ix)\<rparr>
      | _ \<Rightarrow> ix)"

definition note_terminal :: "trace_event \<Rightarrow> indexes \<Rightarrow> indexes" where
  "note_terminal e ix =
     (case turn_of_event e of
        Some u \<Rightarrow> if ev_kind e = ''turn_completed'' then ix\<lparr>ix_terminal := insert u (ix_terminal ix)\<rparr> else ix
      | None \<Rightarrow> ix)"

definition note_time :: "trace_event \<Rightarrow> string \<Rightarrow> indexes \<Rightarrow> indexes" where
  "note_time e path ix =
     (case ev_at e of
        Some x \<Rightarrow>
          let key = ordering_key e path; before = (case dget (ix_last_at ix) key of Some y \<Rightarrow> y | None \<Rightarrow> x)
          in ix\<lparr>ix_last_at := dset key (fl_max before x) (ix_last_at ix)\<rparr>
      | None \<Rightarrow> ix)"

definition note_arrival :: "trace_event \<Rightarrow> indexes \<Rightarrow> indexes" where
  "note_arrival e ix =
     (case ev_epoch e of
        Some epoch \<Rightarrow>
          let ix1 = ix\<lparr>ix_last_epoch := max (ix_last_epoch ix) epoch\<rparr>
          in (case ev_arrival e of
                Some n \<Rightarrow> ix1\<lparr>ix_last_arrival := dset epoch (max (last_arrival ix epoch) n) (ix_last_arrival ix)\<rparr>
              | None \<Rightarrow> ix1)
      | None \<Rightarrow> ix)"

definition remember :: "string \<Rightarrow> trace_event \<Rightarrow> indexes \<Rightarrow> indexes" where
  "remember path e ix =
     note_arrival e (note_time e path (note_terminal e (note_operation e path (note_seen e (note_repository e path ix)))))"

text \<open>\<open>record\<close>: what is dropped, what is refused, and the event as it will be journaled.\<close>

definition with_entry :: "string \<Rightarrow> pyval \<Rightarrow> trace_event \<Rightarrow> trace_event" where
  "with_entry k v e = e\<lparr>ev_payload := dset k v (ev_payload e)\<rparr>"

definition repeated_event :: "indexes \<Rightarrow> trace_event \<Rightarrow> bool" where
  "repeated_event ix e \<longleftrightarrow> (case ev_id e of Some i \<Rightarrow> i \<in> ix_seen ix | None \<Rightarrow> False)"

definition restarted_turn :: "indexes \<Rightarrow> trace_event \<Rightarrow> bool" where
  "restarted_turn ix e \<longleftrightarrow>
     ev_kind e = ''turn_started'' \<and> (case turn_of_event e of Some u \<Rightarrow> u \<in> ix_terminal ix | None \<Rightarrow> False)"

definition changed_outcome :: "string \<Rightarrow> string option \<Rightarrow> string option \<Rightarrow> exc" where
  "changed_outcome operation before now =
     IngestionError (''operation '' @ operation @ '' changed terminal outcome from '' @ py_repr (opt_str before)
       @ '' to '' @ py_repr (opt_str now))"

text \<open>A completion, by what the index says of the operation.\<close>

definition settled :: "string \<Rightarrow> (string \<times> string option) option \<Rightarrow> trace_event \<Rightarrow> trace_event option result" where
  "settled operation previous e =
     (case previous of
        Some (phase, outcome) \<Rightarrow>
          if phase = ''completed''
          then (if outcome \<noteq> status e then Inl (changed_outcome operation outcome (status e)) else Inr None)
          else Inr (Some (with_entry ''observed_start'' (PBool True) e))
      | None \<Rightarrow> Inr (Some (with_entry ''observed_start'' (PBool False) e)))"

definition reconciled :: "indexes \<Rightarrow> trace_event \<Rightarrow> trace_event option result" where
  "reconciled ix e =
     (case ev_operation e of
        None \<Rightarrow> Inr (Some e)
      | Some operation \<Rightarrow>
          let previous = dget (ix_operations ix) (operation_key e (route e) operation)
          in if lifecycle e = Some ''started'' \<and> previous \<noteq> None then Inr None
             else if lifecycle e = Some ''completed'' then settled operation previous e
             else Inr (Some e))"

definition time_checked :: "indexes \<Rightarrow> trace_event \<Rightarrow> trace_event" where
  "time_checked ix e =
     (case (ev_at e, dget (ix_last_at ix) (ordering_key e (route e))) of
        (Some x, Some y) \<Rightarrow> if fl_less x y then with_entry ''out_of_order'' (PBool True) e else e
      | _ \<Rightarrow> e)"

definition stale_arrival :: "int \<Rightarrow> int \<Rightarrow> exc" where
  "stale_arrival n epoch =
     IngestionError (''arrival sequence '' @ dec_int n @ '' did not advance connection epoch '' @ dec_int epoch)"

definition sequenced :: "indexes \<Rightarrow> trace_event \<Rightarrow> trace_event result" where
  "sequenced ix e =
     (case ev_epoch e of
        None \<Rightarrow> Inr e
      | Some epoch \<Rightarrow>
          let previous = last_arrival ix epoch
          in (case ev_arrival e of
                Some n \<Rightarrow>
                  if n \<le> previous then Inl (stale_arrival n epoch)
                  else Inr (e\<lparr>ev_arrival := Some (if n = 0 then previous + 1 else n)\<rparr>)
              | None \<Rightarrow> Inr (e\<lparr>ev_arrival := Some (previous + 1)\<rparr>)))"

definition admitted :: "indexes \<Rightarrow> trace_event \<Rightarrow> trace_event option result" where
  "admitted ix e =
     (if repeated_event ix e \<or> restarted_turn ix e then Inr None
      else rbind (reconciled ix e) (\<lambda>x. case x of
          None \<Rightarrow> Inr None
        | Some e1 \<Rightarrow> rbind (sequenced ix (time_checked ix e1)) (\<lambda>e2. Inr (Some e2))))"

definition snapshot_repository :: "bool \<Rightarrow> indexes \<Rightarrow> trace_event \<Rightarrow> string option" where
  "snapshot_repository on_patch ix e =
     (if \<not> on_patch then None
      else if ev_kind e = ''thread_started'' then optional_string (get (ev_payload e) ''cwd'')
      else if get (ev_payload e) ''expected_reversibility_class'' \<noteq> PStr ''B'' then None
      else if ev_kind e \<notin> set [''command_result'', ''file_edit'', ''tool_result''] then None
      else dget (ix_repositories ix) (route e))"

definition journal_of :: "(string, journal) dict \<Rightarrow> string \<Rightarrow> journal" where
  "journal_of js path = (case dget js path of Some j \<Rightarrow> j | None \<Rightarrow> new_journal)"

text \<open>Journal one event and remember it.\<close>

definition append_event ::
  "(pyval \<Rightarrow> nat) \<Rightarrow> receipt \<Rightarrow> string option \<Rightarrow> float64 option \<Rightarrow> trace_event \<Rightarrow> ingestor \<Rightarrow> (ingestor, step_record) attempt" where
  "append_event bytes clock snap observed_at e st =
     attempt_on st (rbind (record_event bytes clock e snap observed_at (journal_of (ig_journals st) (route e))) (\<lambda>(j, r).
       Inr (st\<lparr>ig_journals := dset (route e) j (ig_journals st)\<rparr>, r)))"

definition remember_in :: "trace_event \<Rightarrow> string \<Rightarrow> ingestor \<Rightarrow> ingestor" where
  "remember_in e path st = st\<lparr>ig_indexes := remember path e (ig_indexes st)\<rparr>"

definition record_admitted :: "append_env \<Rightarrow> bool \<Rightarrow> trace_event \<Rightarrow> ingestor \<Rightarrow> (ingestor, step_record) attempt" where
  "record_admitted env on_patch e st =
     (let snap = Option.bind (snapshot_repository on_patch (ig_indexes st) e)
            (\<lambda>repo. ae_take env repo (last_snapshot (journal_of (ig_journals st) (route e)))) in
      attempt_bind (append_event (ae_bytes env) (ae_first env) snap None e st) (\<lambda>st1 r.
      let st2 = remember_in (sr_event r) (route e) st1 in
      case effect_event e of
        None \<Rightarrow> (st2, Inr r)
      | Some f \<Rightarrow>
          attempt_bind (append_event (ae_bytes env) (ae_second env) None None f st2) (\<lambda>st3 r'.
            (remember_in (sr_event r') (route e) st3, Inr r))))"

definition record_once :: "append_env \<Rightarrow> bool \<Rightarrow> trace_event \<Rightarrow> ingestor \<Rightarrow> (ingestor, step_record option) attempt" where
  "record_once env on_patch e st =
     (case admitted (ig_indexes st) e of
        Inl err \<Rightarrow> (st, Inl err)
      | Inr None \<Rightarrow> (st, Inr None)
      | Inr (Some e') \<Rightarrow> attempt_bind (record_admitted env on_patch e' st) (\<lambda>st' r. (st', Inr (Some r))))"

definition at_epoch :: "int option \<Rightarrow> trace_event \<Rightarrow> trace_event" where
  "at_epoch epoch e = (case epoch of Some i \<Rightarrow> e\<lparr>ev_epoch := Some i\<rparr> | None \<Rightarrow> e)"

definition ingest ::
  "append_env \<Rightarrow> bool \<Rightarrow> mcp_rule list \<Rightarrow> string \<Rightarrow> payload \<Rightarrow> int option \<Rightarrow> ingestor \<Rightarrow> (ingestor, step_record option) attempt" where
  "ingest env on_patch rules method raw epoch st =
     (case normalize (ig_registry st) rules method raw of
        (r, Inl err) \<Rightarrow> (st\<lparr>ig_registry := r\<rparr>, Inl err)
      | (r, Inr e) \<Rightarrow>
          record_once env on_patch (at_epoch epoch e) (st\<lparr>ig_registry := r\<rparr>))"

text \<open>Telemetry journaled by a worker thread, and indexed afterwards.\<close>

definition append_operational :: "append_env \<Rightarrow> float64 \<Rightarrow> trace_event \<Rightarrow> ingestor \<Rightarrow> (ingestor, step_record) attempt" where
  "append_operational env observed_at e st = append_event (ae_bytes env) (ae_first env) None (Some observed_at) e st"

definition index_operational :: "step_record \<Rightarrow> ingestor \<Rightarrow> ingestor" where
  "index_operational r st = remember_in (sr_event r) (route (sr_event r)) st"

section \<open>Recovery\<close>

definition restore_identity :: "trace_event \<Rightarrow> registry \<Rightarrow> registry result" where
  "restore_identity e r =
     (case ev_identity e of
        None \<Rightarrow> Inr r
      | Some i \<Rightarrow>
          (case prov_thread (ri_provenance i) of
             None \<Rightarrow> Inr r
           | Some name \<Rightarrow>
               rbind (observe_thread r (prov_agent (ri_provenance i)) name) (\<lambda>(r1, t).
               case prov_turn (ri_provenance i) of
                 None \<Rightarrow> Inr r1
               | Some turn_name \<Rightarrow>
                   if ev_kind e = ''turn_completed''
                   then rbind (finish_turn r1 (at_id t) turn_name (outcome_status (get (ev_payload e) ''status''))) (\<lambda>(r2, _). Inr r2)
                   else rbind (start_turn r1 (at_id t) turn_name None (ev_kind e = ''turn_started'')) (\<lambda>(r2, _). Inr r2))))"

fun recover_records :: "string \<Rightarrow> step_record list \<Rightarrow> ingestor \<Rightarrow> ingestor result" where
  "recover_records path [] st = Inr st"
| "recover_records path (r # rs) st =
     rbind (restore_identity (sr_event r) (ig_registry st)) (\<lambda>reg.
       recover_records path rs (remember_in (sr_event r) path (st\<lparr>ig_registry := reg\<rparr>)))"

definition journal_path :: "string \<Rightarrow> bool" where
  "journal_path path \<longleftrightarrow> length path \<ge> 17 \<and> startswith path ''app-server-'' \<and> drop (length path - 6) path = ''.jsonl''"

text \<open>The journals of a directory in the order of their names.\<close>

definition journal_paths :: "(string, journal) dict \<Rightarrow> string list" where
  "journal_paths js = sort (filter (\<lambda>path. journal_path path \<and> j_file (journal_of js path) \<noteq> None) (dkeys js))"

fun recover_journals :: "string list \<Rightarrow> ingestor \<Rightarrow> ingestor result" where
  "recover_journals [] st = Inr st"
| "recover_journals (path # paths) st =
     (let j = journal_of (ig_journals st) path in
      rbind (load_journal True False (journal_lines j)) (\<lambda>(rs, kept).
      rbind (recover_records path rs (st\<lparr>ig_journals := dset path (j\<lparr>j_file := Some kept\<rparr>) (ig_journals st)\<rparr>)) (\<lambda>st'.
        recover_journals paths st')))"

definition recover :: "(string, journal) dict \<Rightarrow> ingestor result" where
  "recover js = recover_journals (journal_paths js) \<lparr>ig_journals = js, ig_registry = empty_registry, ig_indexes = no_indexes\<rparr>"

end
