(* ===== verification/Ingestion_Invariants.thy ===== *)
theory Ingestion_Invariants
  imports Ingestion
begin

text \<open>
  What the indexes of the ingestor are in terms of the journals: \<open>indexed\<close> says it for every index,
  \<open>indexed_remember\<close> that remembering a record keeps it, and \<open>recover_indexed\<close> that a restart
  reaches it again, whatever order the journals are read in.
\<close>

section \<open>Contents of the journals\<close>

type_synonym contents = "string \<Rightarrow> step_record list"

definition add_record :: "string \<Rightarrow> step_record \<Rightarrow> contents \<Rightarrow> contents" where
  "add_record path r R = R(path := R path @ [r])"

definition holds_event :: "contents \<Rightarrow> trace_event \<Rightarrow> bool" where
  "holds_event R e \<longleftrightarrow> (\<exists>path. e \<in> sr_event ` set (R path))"

lemma holds_add [simp]: "holds_event (add_record path r R) e \<longleftrightarrow> holds_event R e \<or> e = sr_event r"
  by (auto simp: holds_event_def add_record_def split: if_splits)

lemma holds_none [simp]: "\<not> holds_event (\<lambda>_. []) e"
  by (simp add: holds_event_def)

section \<open>The indexes a content stands for\<close>

definition operation_entry :: "string \<Rightarrow> operation_key \<Rightarrow> (string \<times> string option) option \<Rightarrow> step_record \<Rightarrow> (string \<times> string option) option" where
  "operation_entry path key v r =
     (let e = sr_event r in
      case (ev_operation e, lifecycle e) of
        (Some operation, Some phase) \<Rightarrow> if operation_key e path operation = key then Some (phase, status e) else v
      | _ \<Rightarrow> v)"

definition content_operation :: "contents \<Rightarrow> operation_key \<Rightarrow> (string \<times> string option) option" where
  "content_operation R key = foldl (operation_entry (fst key) key) None (R (fst key))"

definition time_entry :: "string \<Rightarrow> ordering_key \<Rightarrow> float64 option \<Rightarrow> step_record \<Rightarrow> float64 option" where
  "time_entry path key v r =
     (case ev_at (sr_event r) of
        Some x \<Rightarrow> if ordering_key (sr_event r) path = key then Some (fl_max (case v of Some y \<Rightarrow> y | None \<Rightarrow> x) x) else v
      | None \<Rightarrow> v)"

definition time_of :: "contents \<Rightarrow> ordering_key \<Rightarrow> float64 option" where
  "time_of R key = foldl (time_entry (fst key) key) None (R (fst key))"

definition repository_entry :: "string option \<Rightarrow> step_record \<Rightarrow> string option" where
  "repository_entry v r =
     (case optional_string (get (ev_payload (sr_event r)) ''cwd'') of
        Some cwd \<Rightarrow> if ev_kind (sr_event r) = ''thread_started'' then Some cwd else v
      | None \<Rightarrow> v)"

definition repository_of :: "contents \<Rightarrow> string \<Rightarrow> string option" where
  "repository_of R path = foldl repository_entry None (R path)"

definition ids_of :: "contents \<Rightarrow> string set" where
  "ids_of R = {i. \<exists>e. holds_event R e \<and> ev_id e = Some i}"

definition terminal_of :: "contents \<Rightarrow> string set" where
  "terminal_of R = {u. \<exists>e. holds_event R e \<and> ev_kind e = ''turn_completed'' \<and> turn_of_event e = Some u}"

definition arrivals_of :: "contents \<Rightarrow> int \<Rightarrow> int set" where
  "arrivals_of R epoch = {n. \<exists>e. holds_event R e \<and> ev_epoch e = Some epoch \<and> ev_arrival e = Some n}"

definition epochs_of :: "contents \<Rightarrow> int set" where
  "epochs_of R = {n. \<exists>e. holds_event R e \<and> ev_epoch e = Some n}"

text \<open>The greatest element of a set and zero, when there is one.\<close>

definition top_of :: "int set \<Rightarrow> int \<Rightarrow> bool" where
  "top_of A m \<longleftrightarrow> m \<in> insert 0 A \<and> (\<forall>a\<in>insert 0 A. a \<le> m)"

definition arrival_ok :: "int set \<Rightarrow> int option \<Rightarrow> bool" where
  "arrival_ok A v \<longleftrightarrow> (case v of None \<Rightarrow> A = {} | Some m \<Rightarrow> A \<noteq> {} \<and> top_of A m)"

definition indexed :: "contents \<Rightarrow> indexes \<Rightarrow> bool" where
  "indexed R ix \<longleftrightarrow> ix_seen ix = ids_of R \<and> ix_terminal ix = terminal_of R
     \<and> (\<forall>key. dget (ix_operations ix) key = content_operation R key) \<and> (\<forall>key. dget (ix_last_at ix) key = time_of R key)
     \<and> (\<forall>path. dget (ix_repositories ix) path = repository_of R path)
     \<and> (\<forall>epoch. arrival_ok (arrivals_of R epoch) (dget (ix_last_arrival ix) epoch))
     \<and> top_of (epochs_of R) (ix_last_epoch ix)"

lemma indexed_none: "indexed (\<lambda>_. []) no_indexes"
  by (auto simp: indexed_def no_indexes_def ids_of_def terminal_of_def content_operation_def time_of_def repository_of_def
      arrivals_of_def epochs_of_def arrival_ok_def top_of_def dget_def)

section \<open>Remembering one record\<close>

text \<open>Every note touches its own index.\<close>

lemma repository_only [simp]:
  "ix_seen (note_repository e path ix) = ix_seen ix" "ix_operations (note_repository e path ix) = ix_operations ix"
  "ix_terminal (note_repository e path ix) = ix_terminal ix" "ix_last_at (note_repository e path ix) = ix_last_at ix"
  "ix_last_arrival (note_repository e path ix) = ix_last_arrival ix" "ix_last_epoch (note_repository e path ix) = ix_last_epoch ix"
  by (simp_all add: note_repository_def split: option.split)

lemma seen_only [simp]:
  "ix_repositories (note_seen e ix) = ix_repositories ix" "ix_operations (note_seen e ix) = ix_operations ix"
  "ix_terminal (note_seen e ix) = ix_terminal ix" "ix_last_at (note_seen e ix) = ix_last_at ix"
  "ix_last_arrival (note_seen e ix) = ix_last_arrival ix" "ix_last_epoch (note_seen e ix) = ix_last_epoch ix"
  by (simp_all add: note_seen_def split: option.split)

lemma operation_only [simp]:
  "ix_seen (note_operation e path ix) = ix_seen ix" "ix_repositories (note_operation e path ix) = ix_repositories ix"
  "ix_terminal (note_operation e path ix) = ix_terminal ix" "ix_last_at (note_operation e path ix) = ix_last_at ix"
  "ix_last_arrival (note_operation e path ix) = ix_last_arrival ix" "ix_last_epoch (note_operation e path ix) = ix_last_epoch ix"
  by (simp_all add: note_operation_def split: option.split)

lemma terminal_only [simp]:
  "ix_seen (note_terminal e ix) = ix_seen ix" "ix_operations (note_terminal e ix) = ix_operations ix"
  "ix_repositories (note_terminal e ix) = ix_repositories ix" "ix_last_at (note_terminal e ix) = ix_last_at ix"
  "ix_last_arrival (note_terminal e ix) = ix_last_arrival ix" "ix_last_epoch (note_terminal e ix) = ix_last_epoch ix"
  by (simp_all add: note_terminal_def split: option.split)

lemma time_only [simp]:
  "ix_seen (note_time e path ix) = ix_seen ix" "ix_operations (note_time e path ix) = ix_operations ix"
  "ix_terminal (note_time e path ix) = ix_terminal ix" "ix_repositories (note_time e path ix) = ix_repositories ix"
  "ix_last_arrival (note_time e path ix) = ix_last_arrival ix" "ix_last_epoch (note_time e path ix) = ix_last_epoch ix"
  by (simp_all add: note_time_def Let_def split: option.split)

lemma arrival_only [simp]:
  "ix_seen (note_arrival e ix) = ix_seen ix" "ix_operations (note_arrival e ix) = ix_operations ix"
  "ix_terminal (note_arrival e ix) = ix_terminal ix" "ix_last_at (note_arrival e ix) = ix_last_at ix"
  "ix_repositories (note_arrival e ix) = ix_repositories ix"
  by (simp_all add: note_arrival_def Let_def split: option.split)

lemma remember_seen: "ix_seen (remember path e ix) = (case ev_id e of Some i \<Rightarrow> insert i (ix_seen ix) | None \<Rightarrow> ix_seen ix)"
  by (simp add: remember_def note_seen_def split: option.split)

lemma remember_terminal: "ix_terminal (remember path e ix) =
    (case turn_of_event e of Some u \<Rightarrow> if ev_kind e = ''turn_completed'' then insert u (ix_terminal ix) else ix_terminal ix
     | None \<Rightarrow> ix_terminal ix)"
  by (simp add: remember_def note_terminal_def split: option.split)

lemma remember_operations: "dget (ix_operations (remember path (sr_event r) ix)) key =
    (if path = fst key then operation_entry (fst key) key (dget (ix_operations ix) key) r else dget (ix_operations ix) key)"
  by (auto simp: remember_def note_operation_def operation_entry_def operation_key_def Let_def split: option.split)

lemma remember_times: "dget (ix_last_at (remember path (sr_event r) ix)) key =
    (if path = fst key then time_entry (fst key) key (dget (ix_last_at ix) key) r else dget (ix_last_at ix) key)"
  by (auto simp: remember_def note_time_def time_entry_def ordering_key_def Let_def split: option.split)

lemma remember_repositories: "dget (ix_repositories (remember path (sr_event r) ix)) q =
    (if q = path then repository_entry (dget (ix_repositories ix) q) r else dget (ix_repositories ix) q)"
  by (auto simp: remember_def note_repository_def repository_entry_def split: option.split)

lemma remember_epoch: "ix_last_epoch (remember path e ix) =
    (case ev_epoch e of Some n \<Rightarrow> max (ix_last_epoch ix) n | None \<Rightarrow> ix_last_epoch ix)"
  by (simp add: remember_def note_arrival_def Let_def split: option.split)

lemma remember_arrival: "dget (ix_last_arrival (remember path e ix)) epoch =
    (case (ev_epoch e, ev_arrival e) of
       (Some n, Some i) \<Rightarrow> if n = epoch then Some (max (last_arrival ix epoch) i) else dget (ix_last_arrival ix) epoch
     | _ \<Rightarrow> dget (ix_last_arrival ix) epoch)"
  by (auto simp: remember_def note_arrival_def last_arrival_def Let_def split: option.split)

text \<open>The content side.\<close>

lemma ids_add: "ids_of (add_record path r R) = (case ev_id (sr_event r) of Some i \<Rightarrow> insert i (ids_of R) | None \<Rightarrow> ids_of R)"
  by (auto simp: ids_of_def split: option.split)

lemma terminal_add: "terminal_of (add_record path r R) =
    (case turn_of_event (sr_event r) of
       Some u \<Rightarrow> if ev_kind (sr_event r) = ''turn_completed'' then insert u (terminal_of R) else terminal_of R
     | None \<Rightarrow> terminal_of R)"
  by (auto simp: terminal_of_def split: option.split)

lemma arrivals_add: "arrivals_of (add_record path r R) epoch =
    (case (ev_epoch (sr_event r), ev_arrival (sr_event r)) of
       (Some n, Some i) \<Rightarrow> if n = epoch then insert i (arrivals_of R epoch) else arrivals_of R epoch
     | _ \<Rightarrow> arrivals_of R epoch)"
  by (auto simp: arrivals_of_def split: option.split)

lemma epochs_add: "epochs_of (add_record path r R) = (case ev_epoch (sr_event r) of Some n \<Rightarrow> insert n (epochs_of R) | None \<Rightarrow> epochs_of R)"
  by (auto simp: epochs_of_def split: option.split)

lemma operation_add: "content_operation (add_record path r R) key =
    (if path = fst key then operation_entry (fst key) key (content_operation R key) r else content_operation R key)"
  by (simp add: content_operation_def add_record_def)

lemma time_add: "time_of (add_record path r R) key =
    (if path = fst key then time_entry (fst key) key (time_of R key) r else time_of R key)"
  by (simp add: time_of_def add_record_def)

lemma repository_add: "repository_of (add_record path r R) q =
    (if q = path then repository_entry (repository_of R q) r else repository_of R q)"
  by (simp add: repository_of_def add_record_def)

lemma top_insert: "top_of A m \<Longrightarrow> top_of (insert n A) (max m n)"
  by (auto simp: top_of_def max_def)

lemma arrival_insert: "arrival_ok A (dget (ix_last_arrival ix) epoch) \<Longrightarrow> arrival_ok (insert i A) (Some (max (last_arrival ix epoch) i))"
  by (auto simp: arrival_ok_def last_arrival_def top_of_def max_def split: option.splits)

lemma indexedD:
  assumes "indexed R ix"
  shows "ix_seen ix = ids_of R" "ix_terminal ix = terminal_of R" "dget (ix_operations ix) key = content_operation R key"
    "dget (ix_last_at ix) okey = time_of R okey" "dget (ix_repositories ix) path = repository_of R path"
    "arrival_ok (arrivals_of R epoch) (dget (ix_last_arrival ix) epoch)" "top_of (epochs_of R) (ix_last_epoch ix)"
  using assms unfolding indexed_def by blast+

lemma indexed_remember:
  assumes "indexed R ix"
  shows "indexed (add_record path r R) (remember path (sr_event r) ix)"
  unfolding indexed_def
proof (intro conjI allI)
  note now = indexedD [OF assms]
  show "ix_seen (remember path (sr_event r) ix) = ids_of (add_record path r R)" by (simp add: now remember_seen ids_add split: option.split)
  show "ix_terminal (remember path (sr_event r) ix) = terminal_of (add_record path r R)"
    by (simp add: now remember_terminal terminal_add split: option.split)
  show "dget (ix_operations (remember path (sr_event r) ix)) key = content_operation (add_record path r R) key" for key
    by (simp add: remember_operations operation_add now)
  show "dget (ix_last_at (remember path (sr_event r) ix)) key = time_of (add_record path r R) key" for key
    by (simp add: remember_times time_add now)
  show "dget (ix_repositories (remember path (sr_event r) ix)) q = repository_of (add_record path r R) q" for q
    by (simp add: remember_repositories repository_add now)
  show "arrival_ok (arrivals_of (add_record path r R) epoch) (dget (ix_last_arrival (remember path (sr_event r) ix)) epoch)" for epoch
    using now(6) [of epoch] arrival_insert [OF now(6) [of epoch]] by (simp add: remember_arrival arrivals_add split: option.split)
  show "top_of (epochs_of (add_record path r R)) (ix_last_epoch (remember path (sr_event r) ix))"
    using now(7) top_insert [OF now(7)] by (simp add: remember_epoch epochs_add split: option.split)
qed

text \<open>Two indexes for the same journals answer every lookup alike.\<close>

definition same_indexes :: "indexes \<Rightarrow> indexes \<Rightarrow> bool" where
  "same_indexes a b \<longleftrightarrow> ix_seen a = ix_seen b \<and> ix_terminal a = ix_terminal b
     \<and> dget (ix_operations a) = dget (ix_operations b) \<and> dget (ix_last_at a) = dget (ix_last_at b)
     \<and> dget (ix_repositories a) = dget (ix_repositories b) \<and> dget (ix_last_arrival a) = dget (ix_last_arrival b)
     \<and> ix_last_epoch a = ix_last_epoch b"

lemma top_unique: "top_of A m \<Longrightarrow> top_of A n \<Longrightarrow> m = n"
  by (meson antisym top_of_def)

lemma arrival_unique: "arrival_ok A v \<Longrightarrow> arrival_ok A w \<Longrightarrow> v = w"
  using top_unique by (auto simp: arrival_ok_def split: option.splits)

lemma indexed_unique: "indexed R a \<Longrightarrow> indexed R b \<Longrightarrow> same_indexes a b"
  unfolding same_indexes_def fun_eq_iff
  by (intro conjI allI) (metis indexedD(1), metis indexedD(2), metis indexedD(3), metis indexedD(4), metis indexedD(5),
    metis indexedD(6) arrival_unique, metis indexedD(7) top_unique)

end
