(* ===== verification/Ingestion_Registry.thy ===== *)
theory Ingestion_Registry
  imports Ingestion_Invariants
begin

text \<open>
  The identity registry as ingestion uses it. \<open>linked\<close> ties a journaled event to a registry: its names
  are registered, and its turn has ended there when the event ends it. What is linked can be replayed
  into an empty registry, and normalizing a further notification keeps the link.
\<close>

section \<open>Registries and names\<close>

definition name_ok :: "string \<Rightarrow> bool" where
  "name_ok v \<longleftrightarrow> strip v \<noteq> [] \<and> nul \<notin> set v"

definition thread_key :: "string \<Rightarrow> string \<Rightarrow> thread_id" where
  "thread_key agent name = ThreadId (stable_id ''thread'' [agent, name])"

definition turn_uid :: "thread_id \<times> string \<Rightarrow> string" where
  "turn_uid k = stable_id ''turn'' [thread_value (fst k), snd k]"

definition turn_keys :: "registry \<Rightarrow> (thread_id \<times> string) set" where
  "turn_keys r = {k. dget (r_turns_by_agent r) k \<noteq> None}"

definition ended_turn :: "registry \<Rightarrow> thread_id \<times> string \<Rightarrow> bool" where
  "ended_turn r k \<longleftrightarrow> (case dget (r_turns r) (TurnId (turn_uid k)) of Some t \<Rightarrow> tn_status t \<noteq> TurnActive | None \<Rightarrow> False)"

text \<open>What an identity names.\<close>

definition names_ok :: "identity_provenance \<Rightarrow> bool" where
  "names_ok p \<longleftrightarrow>
     (case prov_thread p of
        None \<Rightarrow> prov_turn p = None
      | Some n \<Rightarrow> name_ok (prov_agent p) \<and> name_ok n \<and> (case prov_turn p of None \<Rightarrow> True | Some u \<Rightarrow> name_ok u))"

definition named_thread :: "identity_provenance \<Rightarrow> thread_id option" where
  "named_thread p = map_option (thread_key (prov_agent p)) (prov_thread p)"

definition named_turn :: "identity_provenance \<Rightarrow> (thread_id \<times> string) option" where
  "named_turn p = (case (named_thread p, prov_turn p) of (Some tid, Some u) \<Rightarrow> Some (tid, u) | _ \<Rightarrow> None)"

definition thread_entry_ok :: "thread_id \<Rightarrow> identity_provenance \<Rightarrow> bool" where
  "thread_entry_ok tid p \<longleftrightarrow> names_ok p \<and> named_thread p = Some tid \<and> prov_turn p = None"

definition turn_entry_ok :: "registry \<Rightarrow> turn_id \<Rightarrow> turn \<Rightarrow> bool" where
  "turn_entry_ok r uid t \<longleftrightarrow> names_ok (tn_provenance t) \<and> tn_id t = uid
     \<and> (\<exists>k. named_turn (tn_provenance t) = Some k \<and> k \<in> turn_keys r \<and> TurnId (turn_uid k) = uid)"

text \<open>\<open>f\<close> tells how each turn ends.\<close>

definition ends_as :: "(string \<Rightarrow> turn_status) \<Rightarrow> turn_id \<Rightarrow> turn \<Rightarrow> bool" where
  "ends_as f uid t \<longleftrightarrow> tn_status t = TurnActive \<or> tn_status t = f (turn_value uid)"

definition registry_ok :: "(string \<Rightarrow> turn_status) \<Rightarrow> registry \<Rightarrow> bool" where
  "registry_ok f r \<longleftrightarrow>
     (\<forall>a n tid. dget (r_threads_by_agent r) (a, n) = Some tid \<longrightarrow> tid = thread_key a n \<and> dget (r_threads r) tid \<noteq> None)
     \<and> (\<forall>k uid. dget (r_turns_by_agent r) k = Some uid \<longrightarrow> uid = TurnId (turn_uid k) \<and> dget (r_turns r) uid \<noteq> None)
     \<and> (\<forall>tid p. dget (r_threads r) tid = Some p \<longrightarrow> thread_entry_ok tid p)
     \<and> (\<forall>uid t. dget (r_turns r) uid = Some t \<longrightarrow> turn_entry_ok r uid t \<and> ends_as f uid t)"

lemma registry_okI:
  assumes "\<And>a n tid. dget (r_threads_by_agent r) (a, n) = Some tid \<Longrightarrow> tid = thread_key a n \<and> dget (r_threads r) tid \<noteq> None"
    and "\<And>k uid. dget (r_turns_by_agent r) k = Some uid \<Longrightarrow> uid = TurnId (turn_uid k) \<and> dget (r_turns r) uid \<noteq> None"
    and "\<And>tid p. dget (r_threads r) tid = Some p \<Longrightarrow> thread_entry_ok tid p"
    and "\<And>uid t. dget (r_turns r) uid = Some t \<Longrightarrow> turn_entry_ok r uid t \<and> ends_as f uid t"
  shows "registry_ok f r"
  using assms unfolding registry_ok_def by blast

lemma registry_okD:
  assumes "registry_ok f r"
  shows "dget (r_threads_by_agent r) (a, n) = Some tid \<Longrightarrow> tid = thread_key a n \<and> dget (r_threads r) tid \<noteq> None"
    and "dget (r_turns_by_agent r) k = Some uid \<Longrightarrow> uid = TurnId (turn_uid k) \<and> dget (r_turns r) uid \<noteq> None"
    and "dget (r_threads r) tid = Some p \<Longrightarrow> thread_entry_ok tid p"
    and "dget (r_turns r) uid = Some t \<Longrightarrow> turn_entry_ok r uid t \<and> ends_as f uid t"
  using assms unfolding registry_ok_def by blast+

lemma registry_ok_empty: "registry_ok f empty_registry"
  by (intro registry_okI) (simp_all add: empty_registry_def)

lemma thread_with: "dget (r_threads r) tid = Some p \<Longrightarrow> \<exists>th. thread_of r tid = Inr th \<and> at_provenance th = p"
  by (simp add: thread_of_def Let_def)

lemma known_thread: "dget (r_threads r) tid \<noteq> None \<Longrightarrow> \<exists>th. thread_of r tid = Inr th \<and> at_id th = tid"
  by (auto simp: thread_of_def Let_def)

section \<open>Operations\<close>

lemma observe_thread_ok:
  assumes "registry_ok f r" "name_ok a" "name_ok n"
  shows "\<exists>r' t. observe_thread r a n = Inr (r', t)"
proof (cases "dget (r_threads_by_agent r) (a, n)")
  case None
  then show ?thesis using assms(2,3) known_thread [of "r\<lparr>r_threads := dset tid p (r_threads r), r_threads_by_agent := w\<rparr>" tid for tid p w]
    by (fastforce simp: observe_thread_def required_def name_ok_def Let_def)
next
  case (Some tid)
  then show ?thesis using assms registry_okD(1) [OF assms(1) Some] known_thread [of r tid]
    by (auto simp: observe_thread_def required_def name_ok_def Let_def)
qed

lemma observe_thread_result:
  assumes "registry_ok f r" "observe_thread r a n = Inr (r', t)"
  shows "name_ok a \<and> name_ok n \<and> at_id t = thread_key a n \<and> registry_ok f r' \<and> dget (r_threads r') (at_id t) = Some (at_provenance t)
    \<and> r_turns r' = r_turns r \<and> r_turns_by_agent r' = r_turns_by_agent r"
proof -
  have ok: "name_ok a" "name_ok n" using assms(2) by (auto simp: observe_thread_def name_ok_def)
  show ?thesis
  proof (cases "dget (r_threads_by_agent r) (a, n)")
    case None
    define p where "p = \<lparr>prov_agent = a, prov_thread = Some n, prov_turn = None, prov_attachment = None, prov_legacy_session = None\<rparr>"
    have new: "r_threads r' = dset (thread_key a n) p (r_threads r)"
      "r_threads_by_agent r' = dset (a, n) (thread_key a n) (r_threads_by_agent r)" "r_turns r' = r_turns r"
      "r_turns_by_agent r' = r_turns_by_agent r" "thread_of r' (thread_key a n) = Inr t"
      using None assms(2) by (auto simp: observe_thread_def Let_def thread_key_def p_def)
    have entry: "thread_entry_ok (thread_key a n) p"
      using ok by (simp add: p_def thread_entry_ok_def names_ok_def named_thread_def)
    have "registry_ok f r'"
      by (intro registry_okI)
        (auto simp: new entry turn_entry_ok_def turn_keys_def dest: registry_okD [OF assms(1)] split: if_splits)
    then show ?thesis using ok new thread_of_Inr [OF new(5)] by auto
  next
    case (Some tid)
    then have "r' = r" "thread_of r tid = Inr t" using assms(2) by (auto simp: observe_thread_def Let_def)
    then show ?thesis using ok assms(1) registry_okD(1) [OF assms(1) Some] thread_of_Inr [of r tid t] by auto
  qed
qed

lemma turn_entry_mono: "turn_entry_ok r uid t \<Longrightarrow> turn_keys r \<subseteq> turn_keys r' \<Longrightarrow> turn_entry_ok r' uid t"
  unfolding turn_entry_ok_def by blast

text \<open>Opening and ending a turn: the turn is registered, whatever had ended still has.\<close>

definition no_collision :: "(thread_id \<times> string) set \<Rightarrow> bool" where
  "no_collision S \<longleftrightarrow> inj_on turn_uid S"

lemma new_turn_ok:
  assumes "registry_ok f r" "thread_entry_ok tid p" "name_ok u"
    and "r' = r\<lparr>r_turns := dset (TurnId (turn_uid (tid, u))) t (r_turns r),
      r_turns_by_agent := dset (tid, u) (TurnId (turn_uid (tid, u))) (r_turns_by_agent r)\<rparr>"
    and "tn_id t = TurnId (turn_uid (tid, u))" "tn_status t = TurnActive \<or> tn_status t = f (turn_uid (tid, u))"
    and "prov_agent (tn_provenance t) = prov_agent p" "prov_thread (tn_provenance t) = prov_thread p" "prov_turn (tn_provenance t) = Some u"
  shows "registry_ok f r'"
proof -
  have turns: "r_turns r' = dset (TurnId (turn_uid (tid, u))) t (r_turns r)"
    "r_turns_by_agent r' = dset (tid, u) (TurnId (turn_uid (tid, u))) (r_turns_by_agent r)" using assms(4) by simp_all
  have keys: "turn_keys r' = insert (tid, u) (turn_keys r)" by (auto simp: turn_keys_def turns)
  have "named_turn (tn_provenance t) = Some (tid, u)"
    using assms(2,7-9) by (auto simp: named_turn_def named_thread_def thread_entry_ok_def)
  moreover have "names_ok (tn_provenance t)"
    using assms(2,3,7-9) by (auto simp: names_ok_def thread_entry_ok_def named_thread_def)
  ultimately have entry: "turn_entry_ok r' (TurnId (turn_uid (tid, u))) t" using assms(5) by (simp add: turn_entry_ok_def keys)
  show ?thesis
  proof (rule registry_okI)
    fix uid t0
    assume got: "dget (r_turns r') uid = Some t0"
    show "turn_entry_ok r' uid t0 \<and> ends_as f uid t0"
    proof (cases "uid = TurnId (turn_uid (tid, u))")
      case True
      then have "t0 = t" using got turns by simp
      then show ?thesis using True entry assms(6) by (simp add: ends_as_def)
    next
      case False
      then have "dget (r_turns r) uid = Some t0" using got turns by simp
      then show ?thesis using registry_okD(4) [OF assms(1)] turn_entry_mono [of r uid t0 r'] keys by blast
    qed
  next
    fix k uid
    assume "dget (r_turns_by_agent r') k = Some uid"
    then show "uid = TurnId (turn_uid k) \<and> dget (r_turns r') uid \<noteq> None"
      using registry_okD(2) [OF assms(1), of k uid] by (auto simp: turns split: if_splits)
  qed (use registry_okD(1,3) [OF assms(1)] assms(4) in auto)
qed

lemma changed_turn_ok:
  assumes "registry_ok f r" "dget (r_turns r) uid = Some t" "tn_id t' = tn_id t" "tn_provenance t' = tn_provenance t" "ends_as f uid t'"
  shows "registry_ok f (r\<lparr>r_turns := dset uid t' (r_turns r)\<rparr>)"
proof -
  define r' where "r' = r\<lparr>r_turns := dset uid t' (r_turns r)\<rparr>"
  have keys: "turn_keys r \<subseteq> turn_keys r'" by (simp add: turn_keys_def r'_def)
  have entry: "turn_entry_ok r' uid t'"
    using registry_okD(4) [OF assms(1,2)] assms(3,4) keys by (auto simp: turn_entry_ok_def)
  have "registry_ok f r'"
  proof (rule registry_okI)
    fix uid0 t0
    assume got: "dget (r_turns r') uid0 = Some t0"
    show "turn_entry_ok r' uid0 t0 \<and> ends_as f uid0 t0"
    proof (cases "uid0 = uid")
      case True
      then have "t0 = t'" using got by (simp add: r'_def)
      then show ?thesis using True entry assms(5) by simp
    next
      case False
      then have "dget (r_turns r) uid0 = Some t0" using got by (simp add: r'_def)
      then show ?thesis using registry_okD(4) [OF assms(1)] turn_entry_mono [of r uid0 t0 r'] keys by blast
    qed
  qed (use registry_okD(1-3) [OF assms(1)] in \<open>auto simp: r'_def\<close>)
  then show ?thesis by (simp add: r'_def)
qed

lemma start_turn_ok:
  assumes "registry_ok f r" "dget (r_threads r) tid = Some p" "name_ok u"
  shows "\<exists>r' t. start_turn r tid u None b = Inr (r', t)"
proof -
  obtain th where "thread_of r tid = Inr th" using known_thread [of r tid] assms(2) by auto
  then show ?thesis using assms(3) registry_okD(2) [OF assms(1), of "(tid, u)"]
    by (auto simp: start_turn_def required_def name_ok_def check_attachment_def Let_def split: option.split)
qed

lemma finish_turn_ok:
  assumes "registry_ok f r" "dget (r_threads r) tid = Some p" "name_ok u" "s \<noteq> TurnActive" "f (turn_uid (tid, u)) = s"
  shows "\<exists>r' t. finish_turn r tid u s = Inr (r', t)"
proof -
  obtain th where "thread_of r tid = Inr th" using known_thread [of r tid] assms(2) by auto
  then show ?thesis using assms(3-5) registry_okD(2) [OF assms(1), of "(tid, u)"] registry_okD(4) [OF assms(1)]
    by (fastforce simp: finish_turn_def required_def name_ok_def ends_as_def Let_def split: option.split)
qed

text \<open>A turn as it is after one of these operations, and the turns that had ended.\<close>

definition turn_step :: "registry \<Rightarrow> registry \<Rightarrow> thread_id \<times> string \<Rightarrow> turn \<Rightarrow> bool" where
  "turn_step r r' k t \<longleftrightarrow> name_ok (snd k) \<and> turn_keys r' = insert k (turn_keys r) \<and> tn_id t = TurnId (turn_uid k)
     \<and> dget (r_turns r') (tn_id t) = Some t
     \<and> (no_collision (turn_keys r') \<longrightarrow> (\<forall>j\<in>turn_keys r. ended_turn r j \<longrightarrow> ended_turn r' j))"

lemma turn_step_new:
  assumes "k \<notin> turn_keys r" "name_ok (snd k)" "r_turns r' = dset (TurnId (turn_uid k)) t (r_turns r)"
    "r_turns_by_agent r' = dset k (TurnId (turn_uid k)) (r_turns_by_agent r)" "tn_id t = TurnId (turn_uid k)"
  shows "turn_step r r' k t"
proof -
  have keys: "turn_keys r' = insert k (turn_keys r)" by (auto simp: turn_keys_def assms(4))
  moreover have "ended_turn r' j" if "no_collision (turn_keys r')" "j \<in> turn_keys r" "ended_turn r j" for j
  proof -
    have "turn_uid j \<noteq> turn_uid k" using that(1,2) assms(1) keys by (auto simp: no_collision_def inj_on_def)
    then show ?thesis using that(3) by (simp add: ended_turn_def assms(3))
  qed
  ultimately show ?thesis using assms by (simp add: turn_step_def)
qed

lemma turn_step_old:
  assumes "k \<in> turn_keys r" "name_ok (snd k)" "r_turns r' = dset (TurnId (turn_uid k)) t (r_turns r)"
    "r_turns_by_agent r' = r_turns_by_agent r" "tn_id t = TurnId (turn_uid k)" "ended_turn r k \<longrightarrow> tn_status t \<noteq> TurnActive"
  shows "turn_step r r' k t"
proof -
  have keys: "turn_keys r' = turn_keys r" by (simp add: turn_keys_def assms(4))
  moreover have "ended_turn r' j" if "no_collision (turn_keys r')" "j \<in> turn_keys r" "ended_turn r j" for j
    using that assms(1,6) by (cases "turn_uid j = turn_uid k")
      (auto simp: ended_turn_def assms(3) no_collision_def keys dest: inj_onD)
  ultimately show ?thesis using assms(1,2,3,5) by (simp add: turn_step_def insert_absorb)
qed

lemma start_turn_result:
  assumes ok: "registry_ok f r" and p: "dget (r_threads r) tid = Some p" and s: "start_turn r tid u None b = Inr (r', t)"
  shows "registry_ok f r' \<and> turn_step r r' (tid, u) t"
proof -
  obtain th where th: "thread_of r tid = Inr th" "at_provenance th = p" using thread_with [OF p] by blast
  have u: "name_ok u" using s th by (auto simp: start_turn_def name_ok_def)
  show ?thesis
  proof (cases "dget (r_turns_by_agent r) (tid, u)")
    case None
    then have new: "r' = r\<lparr>r_turns := dset (TurnId (turn_uid (tid, u))) t (r_turns r),
        r_turns_by_agent := dset (tid, u) (TurnId (turn_uid (tid, u))) (r_turns_by_agent r)\<rparr>"
      "tn_id t = TurnId (turn_uid (tid, u))" "tn_status t = TurnActive"
      "prov_agent (tn_provenance t) = prov_agent p" "prov_thread (tn_provenance t) = prov_thread p" "prov_turn (tn_provenance t) = Some u"
      using s th by (auto simp: start_turn_def check_attachment_def Let_def turn_uid_def)
    have "registry_ok f r'" using new_turn_ok [OF ok registry_okD(3) [OF ok p] u new(1,2)] new(3-6) by simp
    moreover have "turn_step r r' (tid, u) t" using None u new(1,2) by (intro turn_step_new) (simp_all add: turn_keys_def)
    ultimately show ?thesis by simp
  next
    case (Some uid)
    then have uid: "uid = TurnId (turn_uid (tid, u))" and "dget (r_turns r) uid \<noteq> None" using registry_okD(2) [OF ok Some] by blast+
    then obtain t0 where t0: "dget (r_turns r) uid = Some t0" by blast
    have id: "tn_id t0 = uid" "ends_as f uid t0" using registry_okD(4) [OF ok t0] by (simp_all add: turn_entry_ok_def)
    have new: "r' = r\<lparr>r_turns := dset uid t (r_turns r)\<rparr>" "tn_id t = tn_id t0" "tn_provenance t = tn_provenance t0"
      "tn_status t = tn_status t0"
      using s th Some t0 by (auto simp: start_turn_def check_attachment_def Let_def)
    have "registry_ok f r'" using changed_turn_ok [OF ok t0 new(2,3)] new(1,4) id(2) by (simp add: ends_as_def)
    moreover have "turn_step r r' (tid, u) t"
      using Some u new id uid t0 by (intro turn_step_old) (auto simp: turn_keys_def ended_turn_def)
    ultimately show ?thesis by simp
  qed
qed

lemma registry_ok_upd:
  assumes "registry_ok f r" "\<And>t. dget (r_turns r) (TurnId x) = Some t \<Longrightarrow> tn_status t = TurnActive \<or> tn_status t = s"
  shows "registry_ok (f(x := s)) r"
proof -
  have "ends_as (f(x := s)) uid t" if "dget (r_turns r) uid = Some t" for uid t
    using registry_okD(4) [OF assms(1) that] assms(2) [of t] that by (cases uid) (auto simp: ends_as_def)
  then show ?thesis using registry_okD [OF assms(1)] by (intro registry_okI) blast+
qed

lemma finish_turn_same:
  assumes ok: "registry_ok f r" and p: "dget (r_threads r) tid = Some p" and s: "finish_turn r tid u st = Inr (r', t)"
    and f: "f (turn_uid (tid, u)) = st"
  shows "registry_ok f r' \<and> turn_step r r' (tid, u) t \<and> ended_turn r' (tid, u)"
proof -
  obtain th where th: "thread_of r tid = Inr th" "at_provenance th = p" using thread_with [OF p] by blast
  have u: "name_ok u" "st \<noteq> TurnActive" using s th by (auto simp: finish_turn_def name_ok_def split: if_splits)
  show ?thesis
  proof (cases "dget (r_turns_by_agent r) (tid, u)")
    case None
    then have new: "r' = r\<lparr>r_turns := dset (TurnId (turn_uid (tid, u))) t (r_turns r),
        r_turns_by_agent := dset (tid, u) (TurnId (turn_uid (tid, u))) (r_turns_by_agent r)\<rparr>"
      "tn_id t = TurnId (turn_uid (tid, u))" "tn_status t = st"
      "prov_agent (tn_provenance t) = prov_agent p" "prov_thread (tn_provenance t) = prov_thread p" "prov_turn (tn_provenance t) = Some u"
      using s th u(2) by (auto simp: finish_turn_def Let_def turn_uid_def)
    have "turn_step r r' (tid, u) t" using None u new(1,2) by (intro turn_step_new) (simp_all add: turn_keys_def)
    moreover have "registry_ok f r'" using new_turn_ok [OF ok registry_okD(3) [OF ok p] u(1) new(1,2)] new(3-6) f by simp
    ultimately show ?thesis using new(1,3) u(2) by (simp add: ended_turn_def)
  next
    case (Some uid)
    then have uid: "uid = TurnId (turn_uid (tid, u))" and "dget (r_turns r) uid \<noteq> None" using registry_okD(2) [OF ok Some] by blast+
    then obtain t0 where t0: "dget (r_turns r) uid = Some t0" by blast
    have id: "tn_id t0 = uid" using registry_okD(4) [OF ok t0] by (simp add: turn_entry_ok_def)
    have new: "r' = r\<lparr>r_turns := dset uid t (r_turns r)\<rparr>" "tn_id t = tn_id t0" "tn_provenance t = tn_provenance t0" "tn_status t = st"
      using s th u(2) Some t0 by (auto simp: finish_turn_def Let_def split: if_splits)
    have "registry_ok f r'" using changed_turn_ok [OF ok t0 new(2,3)] new(1,4) uid f by (simp add: ends_as_def)
    moreover have "turn_step r r' (tid, u) t"
      using Some u new id uid t0 by (intro turn_step_old) (auto simp: turn_keys_def ended_turn_def)
    ultimately show ?thesis using new(1,4) u(2) uid by (simp add: ended_turn_def)
  qed
qed

text \<open>What finishing a turn says of the turn before.\<close>

lemma finish_turn_before:
  assumes ok: "registry_ok f r" and p: "dget (r_threads r) tid = Some p" and s: "finish_turn r tid u st = Inr (r', t)"
  shows "turn_keys r' = insert (tid, u) (turn_keys r) \<and>
    ((tid, u) \<in> turn_keys r \<longrightarrow> (\<forall>t0. dget (r_turns r) (TurnId (turn_uid (tid, u))) = Some t0 \<longrightarrow> tn_status t0 = TurnActive \<or> tn_status t0 = st))"
proof -
  obtain th where th: "thread_of r tid = Inr th" using thread_with [OF p] by blast
  show ?thesis
  proof (cases "dget (r_turns_by_agent r) (tid, u)")
    case None
    then show ?thesis using s th by (auto simp: finish_turn_def Let_def turn_keys_def split: if_splits)
  next
    case (Some uid)
    then show ?thesis using registry_okD(2) [OF ok Some] s th
      by (auto simp: finish_turn_def Let_def turn_keys_def split: if_splits)
  qed
qed

lemma finish_turn_result:
  assumes ok: "registry_ok f r" and p: "dget (r_threads r) tid = Some p" and s: "finish_turn r tid u st = Inr (r', t)"
    and apart: "no_collision (turn_keys r')"
  shows "registry_ok (f(turn_uid (tid, u) := st)) r' \<and> turn_step r r' (tid, u) t \<and> ended_turn r' (tid, u)
    \<and> (ended_turn r (tid, u) \<and> (tid, u) \<in> turn_keys r \<longrightarrow> f (turn_uid (tid, u)) = st)"
proof -
  note before = finish_turn_before [OF ok p s]
  have old: "tn_status t0 = TurnActive \<or> tn_status t0 = st" if t0: "dget (r_turns r) (TurnId (turn_uid (tid, u))) = Some t0" for t0
  proof -
    obtain k where k: "k \<in> turn_keys r" "turn_uid k = turn_uid (tid, u)"
      using registry_okD(4) [OF ok t0] unfolding turn_entry_ok_def by blast
    then have "k = (tid, u)" using inj_onD [OF apart [unfolded no_collision_def] k(2)] before by simp
    then show ?thesis using before k(1) t0 by simp
  qed
  then have "registry_ok (f(turn_uid (tid, u) := st)) r" by (rule registry_ok_upd [OF ok])
  from finish_turn_same [OF this p s] have "registry_ok (f(turn_uid (tid, u) := st)) r' \<and> turn_step r r' (tid, u) t \<and> ended_turn r' (tid, u)"
    by simp
  moreover have "f (turn_uid (tid, u)) = st" if ended: "ended_turn r (tid, u)"
  proof -
    obtain t0 where "dget (r_turns r) (TurnId (turn_uid (tid, u))) = Some t0" "tn_status t0 \<noteq> TurnActive"
      using ended by (auto simp: ended_turn_def split: option.splits)
    then show ?thesis using old registry_okD(4) [OF ok] by (fastforce simp: ends_as_def)
  qed
  ultimately show ?thesis by blast
qed

section \<open>Events and the registry\<close>

definition event_turn :: "trace_event \<Rightarrow> (thread_id \<times> string) option" where
  "event_turn e = Option.bind (ev_identity e) (\<lambda>i. named_turn (ri_provenance i))"

definition ends_turn :: "trace_event \<Rightarrow> bool" where
  "ends_turn e \<longleftrightarrow> ev_kind e = ''turn_completed''"

definition event_outcome :: "trace_event \<Rightarrow> turn_status" where
  "event_outcome e = outcome_status (get (ev_payload e) ''status'')"

definition linked :: "(string \<Rightarrow> turn_status) \<Rightarrow> registry \<Rightarrow> trace_event \<Rightarrow> bool" where
  "linked f r e \<longleftrightarrow> (\<forall>i. ev_identity e = Some i \<longrightarrow> names_ok (ri_provenance i))
     \<and> (\<forall>k. event_turn e = Some k \<longrightarrow> k \<in> turn_keys r \<and> (ends_turn e \<longrightarrow> ended_turn r k \<and> f (turn_uid k) = event_outcome e))"

lemma turn_step_linked:
  assumes "turn_step r r' k t" "no_collision (turn_keys r')" "linked f r e"
  shows "linked f r' e"
  using assms unfolding turn_step_def linked_def by blast

lemma no_collision_mono: "no_collision S \<Longrightarrow> T \<subseteq> S \<Longrightarrow> no_collision T"
  unfolding no_collision_def by (rule inj_on_subset)

lemma finish_linked:
  assumes "turn_step r r' k t" "no_collision (turn_keys r')" "linked f r e"
    and "ended_turn r k \<and> k \<in> turn_keys r \<longrightarrow> f (turn_uid k) = st"
  shows "linked (f(turn_uid k := st)) r' e"
proof -
  have "linked f r' e" using turn_step_linked [OF assms(1-3)] .
  moreover have "f (turn_uid j) = (f(turn_uid k := st)) (turn_uid j)" if "j \<in> turn_keys r" "ended_turn r j" for j
  proof (cases "turn_uid j = turn_uid k")
    case True
    have "turn_keys r' = insert k (turn_keys r)" using assms(1) by (simp add: turn_step_def)
    then have "j = k" using inj_onD [OF assms(2) [unfolded no_collision_def] True] that(1) by simp
    then show ?thesis using assms(4) that by simp
  qed simp
  ultimately show ?thesis using assms(3) unfolding linked_def by metis
qed

text \<open>Replaying the identity of a linked event.\<close>

lemma restore_identity_ok:
  assumes ok: "registry_ok f r" and e: "linked f r0 e"
  shows "\<exists>r'. restore_identity e r = Inr r' \<and> registry_ok f r' \<and> turn_keys r' = turn_keys r \<union> set_option (event_turn e)
    \<and> (no_collision (turn_keys r') \<longrightarrow> linked f r' e \<and> (\<forall>e0. linked f r e0 \<longrightarrow> linked f r' e0))"
proof (cases "ev_identity e")
  case None
  then show ?thesis using ok by (auto simp: restore_identity_def event_turn_def linked_def)
next
  case (Some i)
  then have names: "names_ok (ri_provenance i)" using e by (simp add: linked_def)
  show ?thesis
  proof (cases "prov_thread (ri_provenance i)")
    case None
    then show ?thesis using Some ok names by (auto simp: restore_identity_def event_turn_def named_turn_def named_thread_def linked_def)
  next
    case (Some n)
    define a where "a = prov_agent (ri_provenance i)"
    have an: "name_ok a" "name_ok n" using names Some by (simp_all add: names_ok_def a_def)
    obtain r1 t where t: "observe_thread r a n = Inr (r1, t)" using observe_thread_ok [OF ok an] by blast
    note got = observe_thread_result [OF ok t]
    have keys1: "turn_keys r1 = turn_keys r" using got by (simp add: turn_keys_def)
    have same: "linked f r e0 \<Longrightarrow> linked f r1 e0" for e0
      using got keys1 by (auto simp: linked_def ended_turn_def)
    show ?thesis
    proof (cases "prov_turn (ri_provenance i)")
      case None
      then have "event_turn e = None" using \<open>ev_identity e = Some i\<close> by (auto simp: event_turn_def named_turn_def split: option.split)
      then have "linked f r1 e" using \<open>ev_identity e = Some i\<close> names by (simp add: linked_def)
      then show ?thesis using \<open>ev_identity e = Some i\<close> Some None t got keys1 same \<open>event_turn e = None\<close>
        by (simp add: restore_identity_def a_def)
    next
      case u: (Some u)
      define k where "k = (thread_key a n, u)"
      have turn: "event_turn e = Some k"
        using \<open>ev_identity e = Some i\<close> Some u by (simp add: event_turn_def named_turn_def named_thread_def k_def a_def)
      have uok: "name_ok u" using names Some u by (simp add: names_ok_def)
      have th: "dget (r_threads r1) (thread_key a n) = Some (at_provenance t)" using got by metis
      have ok1: "registry_ok f r1" using got by simp
      have here: "restore_identity e r = (if ends_turn e
          then rbind (finish_turn r1 (thread_key a n) u (event_outcome e)) (\<lambda>(r2, _). Inr r2)
          else rbind (start_turn r1 (thread_key a n) u None (ev_kind e = ''turn_started'')) (\<lambda>(r2, _). Inr r2))"
        using \<open>ev_identity e = Some i\<close> Some u t got by (simp add: restore_identity_def a_def ends_turn_def event_outcome_def)
      show ?thesis
      proof (cases "ends_turn e")
        case True
        then have f: "f (turn_uid k) = event_outcome e" using e turn by (simp add: linked_def)
        moreover have "event_outcome e \<noteq> TurnActive" by (simp add: event_outcome_def outcome_status_def)
        ultimately obtain r2 t2 where r2: "finish_turn r1 (thread_key a n) u (event_outcome e) = Inr (r2, t2)"
          using finish_turn_ok [OF ok1 th uok, of "event_outcome e"] unfolding k_def by blast
        note got2 = finish_turn_same [OF ok1 th r2 f [unfolded k_def]]
        have step: "turn_step r1 r2 k t2" using got2 by (simp add: k_def)
        have "linked f r2 e" using f turn step got2 names \<open>ev_identity e = Some i\<close> by (simp add: linked_def turn_step_def k_def)
        then show ?thesis
          using True here r2 got2 turn keys1 same turn_step_linked [OF step] step
          by (auto simp: turn_step_def)
      next
        case False
        then obtain r2 t2 where r2: "start_turn r1 (thread_key a n) u None (ev_kind e = ''turn_started'') = Inr (r2, t2)"
          using start_turn_ok [OF ok1 th uok] by blast
        note got2 = start_turn_result [OF ok1 th r2]
        have step: "turn_step r1 r2 k t2" using got2 by (simp add: k_def)
        have "linked f r2 e" using False turn step names \<open>ev_identity e = Some i\<close> by (simp add: linked_def turn_step_def)
        then show ?thesis
          using False here r2 got2 turn keys1 same turn_step_linked [OF step] step
          by (auto simp: turn_step_def)
      qed
    qed
  qed
qed

section \<open>Normalizing keeps the link\<close>

lemma attempt_on_cases:
  assumes "attempt_on s x = (s', y)"
  obtains err where "x = Inl err" "s' = s" "y = Inl err" | z where "x = Inr (s', z)" "y = Inr z"
  using assms by (cases x) (auto simp: attempt_on_def)

lemma attempt_bind_cases:
  assumes "attempt_bind m f = (s', y)"
  obtains err where "m = (s', Inl err)" "y = Inl err" | s1 z where "m = (s1, Inr z)" "f s1 z = (s', y)"
  using assms by (cases m; cases "snd m") (auto simp: attempt_bind_def)

text \<open>What a registry operation leaves: a sound registry in which every linked event is still linked.\<close>

definition keeps_links :: "(string \<Rightarrow> turn_status) \<Rightarrow> registry \<Rightarrow> (string \<Rightarrow> turn_status) \<Rightarrow> registry \<Rightarrow> bool" where
  "keeps_links f r f' r' \<longleftrightarrow> registry_ok f' r' \<and> (\<forall>e. linked f r e \<longrightarrow> linked f' r' e)"

lemma keeps_links_refl: "registry_ok f r \<Longrightarrow> keeps_links f r f r"
  by (simp add: keeps_links_def)

lemma keeps_links_trans: "keeps_links f r f1 r1 \<Longrightarrow> keeps_links f1 r1 f2 r2 \<Longrightarrow> keeps_links f r f2 r2"
  by (simp add: keeps_links_def)

lemma observe_keeps:
  assumes "registry_ok f r" "observe_thread r a n = Inr (r', t)"
  shows "keeps_links f r f r'" "turn_keys r' = turn_keys r" "dget (r_threads r') (thread_key a n) = Some (at_provenance t)"
    "thread_entry_ok (at_id t) (at_provenance t)" "at_id t = thread_key a n"
proof -
  note got = observe_thread_result [OF assms]
  show keys: "turn_keys r' = turn_keys r" using got by (simp add: turn_keys_def)
  show "keeps_links f r f r'" using got keys by (auto simp: keeps_links_def linked_def ended_turn_def)
  show "dget (r_threads r') (thread_key a n) = Some (at_provenance t)" "at_id t = thread_key a n" using got by metis+
  then show "thread_entry_ok (at_id t) (at_provenance t)" using got registry_okD(3) [of f r'] by metis
qed

lemma addressed_turn:
  assumes "registry_ok f r" "dget (r_turns r) uid = Some t" "address_turn r uid = Inr i"
  shows "names_ok (ri_provenance i) \<and> (\<forall>k. named_turn (ri_provenance i) = Some k \<longrightarrow> k \<in> turn_keys r \<and> TurnId (turn_uid k) = uid)"
  using registry_okD(4) [OF assms(1,2)] assms(2,3) by (auto simp: address_turn_def turn_of_def turn_entry_ok_def)

lemma identity_for_keeps:
  assumes ok: "registry_ok f r" and run: "identity_for r tn un b = (r', res)" and apart: "no_collision (turn_keys r')"
  shows "keeps_links f r f r' \<and> (\<forall>i. res = Inr i \<longrightarrow> names_ok (ri_provenance i)
    \<and> (\<forall>k. named_turn (ri_provenance i) = Some k \<longrightarrow> k \<in> turn_keys r'))"
proof (cases tn)
  case None
  then show ?thesis using run ok keeps_links_refl [OF ok]
    by (auto simp: identity_for_def agent_only_def names_ok_def named_turn_def named_thread_def)
next
  case (Some n)
  from run [unfolded identity_for_def Some option.case] show ?thesis
  proof (cases rule: attempt_bind_cases)
    case (1 err)
    then have "r' = r" by (auto elim: attempt_on_cases)
    then show ?thesis using 1 keeps_links_refl [OF ok] by simp
  next
    case (2 r1 t)
    then have t: "observe_thread r agent_name n = Inr (r1, t)" by (auto elim: attempt_on_cases)
    note one = observe_keeps [OF ok t]
    have ok1: "registry_ok f r1" using one(1) by (simp add: keeps_links_def)
    show ?thesis
    proof (cases un)
      case None
      then show ?thesis using 2(2) one(1,4) by (auto simp: thread_entry_ok_def named_turn_def split: option.splits)
    next
      case (Some u)
      from 2(2) [unfolded Some option.case] show ?thesis
      proof (cases rule: attempt_bind_cases)
        case (1 err)
        then have "r' = r1" by (auto elim: attempt_on_cases)
        then show ?thesis using 1 one(1) by simp
      next
        case (2 r2 t2)
        then have t2: "start_turn r1 (thread_key agent_name n) u None b = Inr (r2, t2)" and r2: "r' = r2" "res = address_turn r2 (tn_id t2)"
          using one(5) by (auto elim: attempt_on_cases)
        note two = start_turn_result [OF ok1 one(3) t2]
        have "keeps_links f r1 f r2" using two turn_step_linked apart r2(1) by (auto simp: keeps_links_def)
        moreover have "dget (r_turns r2) (tn_id t2) = Some t2" using two unfolding turn_step_def by blast
        ultimately show ?thesis using r2 two addressed_turn [of f r2] keeps_links_trans [OF one(1)] by auto
      qed
    qed
  qed
qed

lemma finished_identity_keeps:
  assumes ok: "registry_ok f r" and run: "finished_identity r tn un st = (r', res)" and apart: "no_collision (turn_keys r')"
  shows "\<exists>f'. keeps_links f r f' r' \<and> (\<forall>i b. res = Inr (i, b) \<longrightarrow> names_ok (ri_provenance i)
    \<and> (\<forall>k. named_turn (ri_provenance i) = Some k \<longrightarrow> k \<in> turn_keys r' \<and> ended_turn r' k \<and> f' (turn_uid k) = st))"
  using run unfolding finished_identity_def
proof (cases rule: attempt_bind_cases)
  case (1 err)
  then have "r' = r" by (auto elim: attempt_on_cases)
  then show ?thesis using 1 keeps_links_refl [OF ok] by auto
next
  case (2 r1 t)
  then have t: "observe_thread r agent_name tn = Inr (r1, t)" by (auto elim: attempt_on_cases)
  note one = observe_keeps [OF ok t]
  have ok1: "registry_ok f r1" using one(1) by (simp add: keeps_links_def)
  from 2(2) show ?thesis
  proof (cases rule: attempt_bind_cases)
    case (1 err)
    then have "r' = r1" by (auto elim: attempt_on_cases)
    then show ?thesis using 1 one(1) by auto
  next
    case (2 r2 t2)
    then have t2: "finish_turn r1 (thread_key agent_name tn) un st = Inr (r2, t2)" and r2: "r' = r2"
      "res = rbind (address_turn r2 (tn_id t2)) (\<lambda>i. Inr (i, tn_observed_start t2))"
      using one(5) by (auto elim: attempt_on_cases)
    define k where "k = (thread_key agent_name tn, un)"
    define f' where "f' = f(turn_uid k := st)"
    have two: "registry_ok f' r2" "turn_step r1 r2 k t2" "ended_turn r2 k" "ended_turn r1 k \<and> k \<in> turn_keys r1 \<longrightarrow> f (turn_uid k) = st"
      using finish_turn_result [OF ok1 one(3) t2] apart r2(1) by (simp_all add: k_def f'_def)
    have "keeps_links f r1 f' r2"
      using two(1) finish_linked [where f = f and k = k and st = st, OF two(2) _ _ two(4)] apart r2(1) by (simp add: keeps_links_def f'_def)
    then have "keeps_links f r f' r2" by (rule keeps_links_trans [OF one(1)])
    moreover have id: "dget (r_turns r2) (tn_id t2) = Some t2" "tn_id t2 = TurnId (turn_uid k)" using two(2) unfolding turn_step_def by blast+
    moreover have "ended_turn r2 j \<and> f' (turn_uid j) = st" if "turn_uid j = turn_uid k" for j
      using two(3) that by (simp add: ended_turn_def f'_def)
    ultimately show ?thesis using r2 addressed_turn [OF two(1) id(1)] by (intro exI [of _ f']) auto
  qed
qed

section \<open>Normalized events\<close>

text \<open>What every normalized event has in common, whichever method it came from.\<close>

definition plainly :: "runtime_identity \<Rightarrow> trace_event \<Rightarrow> bool" where
  "plainly identity e \<longleftrightarrow> ev_identity e = Some identity \<and> ev_arrival e = None \<and> ev_monotonic e = None \<and> ev_epoch e = None"

lemma notified_plain [simp]:
  "ev_identity (notified m p k q i) = Some i" "ev_arrival (notified m p k q i) = None" "ev_monotonic (notified m p k q i) = None"
  "ev_epoch (notified m p k q i) = None" "ev_kind (notified m p k q i) = k" "ev_payload (notified m p k q i) = q"
  "ev_id (notified m p k q i) = event_id m p" "ev_operation (notified m p k q i) = None"
  by (simp_all add: notified_def plain_event_def)

lemma timed_notified: "plainly i ((notified m p k q i)\<lparr>ev_at := x\<rparr>)" "ev_payload ((notified m p k q i)\<lparr>ev_at := x\<rparr>) = q"
  "ev_kind ((notified m p k q i)\<lparr>ev_at := x\<rparr>) = k"
  by (simp_all add: plainly_def)

definition item_kinds :: "string list" where
  "item_kinds = [''user_prompt'', ''agent_message'', ''plan'', ''reasoning_summary'', ''command_result'', ''command_started'',
     ''file_edit'', ''file_change_started'', ''tool_result'', ''tool_started'', ''search'', ''search_started'',
     ''item_completed'', ''item_started'']"

lemma item_kind_members:
  "''user_prompt'' \<in> set item_kinds" "''agent_message'' \<in> set item_kinds" "''plan'' \<in> set item_kinds"
  "''reasoning_summary'' \<in> set item_kinds" "''command_result'' \<in> set item_kinds" "''command_started'' \<in> set item_kinds"
  "''file_edit'' \<in> set item_kinds" "''file_change_started'' \<in> set item_kinds" "''tool_result'' \<in> set item_kinds"
  "''tool_started'' \<in> set item_kinds" "''search'' \<in> set item_kinds" "''search_started'' \<in> set item_kinds"
  "''item_completed'' \<in> set item_kinds" "''item_started'' \<in> set item_kinds"
  unfolding item_kinds_def list.set by (intro insertI1 insertI2)+

lemma if_in: "a \<in> S \<Longrightarrow> b \<in> S \<Longrightarrow> (if c then a else b) \<in> S" "fst x \<in> S \<Longrightarrow> fst y \<in> S \<Longrightarrow> fst (if c then x else y) \<in> S"
  "a \<in> S \<Longrightarrow> fst (a, z) \<in> S"
  by simp_all

lemma normalize_item_kind: "fst (normalize_item d completed rules) \<in> set item_kinds"
  unfolding normalize_item_def Let_def by (intro if_in; rule item_kind_members)

definition method_kinds :: "string list" where
  "method_kinds = [''turn_started'', ''thread_status'', ''thread_archived'', ''thread_unarchived'', ''thread_closed'', ''thread_deleted'',
     ''diff_updated'', ''plan'', ''token_usage'', ''runtime_error'', ''runtime_event_unknown'']"

lemma method_kind_members:
  "''turn_started'' \<in> set method_kinds" "''thread_status'' \<in> set method_kinds" "''diff_updated'' \<in> set method_kinds"
  "''plan'' \<in> set method_kinds" "''token_usage'' \<in> set method_kinds" "''runtime_error'' \<in> set method_kinds"
  "''runtime_event_unknown'' \<in> set method_kinds"
  unfolding method_kinds_def list.set by (intro insertI1 insertI2)+

lemma rbind_InrE:
  assumes "rbind x f = Inr y"
  obtains z where "x = Inr z" "f z = Inr y"
  using assms by (cases x) simp_all

lemma item_event_kind:
  assumes "item_event m params rules i = Inr e"
  shows "ev_kind e \<in> set item_kinds \<and> plainly i e"
  using assms unfolding item_event_def
proof (elim rbind_InrE)
  fix d item_id
  define completed where "completed = (m = ''item/completed'')"
  obtain k q where kq: "normalize_item d completed rules = (k, q)" by fastforce
  assume "(let completed = m = ''item/completed''; (kind, p) = normalize_item d completed rules;
      p' = dset ''lifecycle'' (PStr (if completed then ''completed'' else ''started'')) p
      in rbind (milliseconds (get params (if completed then ''completedAtMs'' else ''startedAtMs'')))
        (\<lambda>at_time. Inr ((notified m params kind p' i)\<lparr>ev_at := at_time, ev_operation := Some item_id, ev_item := Some item_id\<rparr>))) = Inr e"
  then show ?thesis unfolding Let_def completed_def [symmetric] kq prod.case
  proof (elim rbind_InrE)
    fix at_time
    assume "Inr ((notified m params k (dset ''lifecycle'' (PStr (if completed then ''completed'' else ''started'')) q) i)
      \<lparr>ev_at := at_time, ev_operation := Some item_id, ev_item := Some item_id\<rparr>) = Inr e"
    then have "ev_kind e = k" "plainly i e" by (auto simp: plainly_def)
    then show ?thesis using normalize_item_kind [of d completed rules] kq by simp
  qed
qed

lemma turn_started_kind: "turn_started params i = Inr e \<Longrightarrow> ev_kind e = ''turn_started'' \<and> plainly i e"
  by (auto simp: turn_started_def plainly_def split: pyval.splits)

lemma archived_kinds:
  "m \<in> set [''thread/archived'', ''thread/unarchived'', ''thread/closed'', ''thread/deleted''] \<Longrightarrow>
   map (\<lambda>c. if c = CHR ''/'' then CHR ''_'' else c) m \<in> set [''thread_archived'', ''thread_unarchived'', ''thread_closed'', ''thread_deleted'']"
  by auto

lemma if_InrE:
  assumes "(if c then a else b) = Inr e"
  obtains "c" "a = Inr e" | "b = Inr e"
  using assms by (cases c) simp_all

lemma notified_kind:
  "Inr (notified m params k q i) = Inr e \<Longrightarrow> k \<in> set ks \<Longrightarrow> ev_kind e \<in> set ks \<and> plainly i e"
  by (auto simp: plainly_def)

lemma other_event_kind:
  assumes "other_event m params rules i = Inr e"
  shows "ev_kind e \<in> set (method_kinds @ item_kinds) \<and> plainly i e"
proof -
  have listed: "k \<in> set method_kinds \<Longrightarrow> k \<in> set (method_kinds @ item_kinds)" for k by simp
  have archived: "set [''thread_archived'', ''thread_unarchived'', ''thread_closed'', ''thread_deleted''] \<subseteq> set method_kinds"
    unfolding method_kinds_def list.set by (intro insert_subsetI empty_subsetI insertI1 insertI2)
  from assms [unfolded other_event_def Let_def] show ?thesis
  proof (elim if_InrE)
    assume "turn_started params i = Inr e"
    then show ?thesis using turn_started_kind listed [OF method_kind_members(1)] by metis
  next
    assume "item_event m params rules i = Inr e"
    then show ?thesis using item_event_kind by fastforce
  next
    assume "m \<in> set [''thread/archived'', ''thread/unarchived'', ''thread/closed'', ''thread/deleted'']"
      and e: "Inr (notified m params (map (\<lambda>c. if c = CHR ''/'' then CHR ''_'' else c) m) [] i) = Inr e"
    from archived_kinds [OF this(1)] archived listed show ?thesis by (intro notified_kind [OF e]) blast
  next
    assume "Inr ((notified m params ''runtime_event_unknown'' [(''method'', PStr m)] i)\<lparr>ev_item := optional_string (get params ''itemId'')\<rparr>) = Inr e"
    then show ?thesis using listed [OF method_kind_members(7)] by (auto simp: plainly_def)
  qed (erule notified_kind, rule listed, rule method_kind_members)+
qed

lemma kinds_end_no_turn: "k \<in> set (method_kinds @ item_kinds) \<Longrightarrow> k \<noteq> ''turn_completed''" "''thread_started'' \<noteq> ''turn_completed''"
proof -
  have "list_all (\<lambda>k. k \<noteq> ''turn_completed'') (method_kinds @ item_kinds)" by code_simp
  then show "k \<in> set (method_kinds @ item_kinds) \<Longrightarrow> k \<noteq> ''turn_completed''" by (auto simp: list_all_iff)
qed simp

lemma other_linked:
  assumes "plainly i e" "ev_kind e \<noteq> ''turn_completed''" "names_ok (ri_provenance i)"
    and "\<forall>k. named_turn (ri_provenance i) = Some k \<longrightarrow> k \<in> turn_keys r"
  shows "linked f r e"
  using assms by (simp add: linked_def plainly_def event_turn_def ends_turn_def)

lemma thread_started_keeps:
  assumes ok: "registry_ok f r" and run: "thread_started r params = (r', res)" and apart: "no_collision (turn_keys r')"
  shows "keeps_links f r f r' \<and> (\<forall>e. res = Inr e \<longrightarrow> linked f r' e \<and> (\<exists>i. plainly i e))"
  using run [unfolded thread_started_def Let_def]
proof (cases rule: attempt_bind_cases)
  case (1 err)
  then show ?thesis using keeps_links_refl [OF ok] by simp
next
  case (2 s1 z)
  obtain t name where z: "z = (t, name)" by fastforce
  have s1: "s1 = r" using 2(1) by simp
  from 2(2) [unfolded z prod.case s1] show ?thesis
  proof (cases rule: attempt_bind_cases)
    case (1 err)
    then show ?thesis using identity_for_keeps [OF ok 1(1) apart] by simp
  next
    case (2 r1 i)
    then have r1: "r1 = r'" by simp
    note got = identity_for_keeps [OF ok 2(1) [unfolded r1] apart]
    have "linked f r' e \<and> (\<exists>i. plainly i e)" if e: "res = Inr e" for e
    proof -
      have "plainly i e" "ev_kind e = ''thread_started''" using 2(2) e by (auto simp: plainly_def)
      then show ?thesis using got other_linked [of i e] by auto
    qed
    then show ?thesis using got by blast
  qed
qed

lemma get_skip: "k \<notin> fst ` set d \<Longrightarrow> get (d @ d') k = get d' k"
  by (induction d) (auto simp: get_def dget_def)

lemma known_status: "get (known_fields (PDict t) (''status'' # ks) @ [(''observed_start'', v)]) ''status'' = get t ''status''"
proof (cases "get t ''status'' = PNone")
  case True
  then have "''status'' \<notin> fst ` set (known_fields (PDict t) (''status'' # ks))"
    by (auto simp: known_fields_def map_filter_def split: if_splits)
  from get_skip [OF this] show ?thesis using True by simp
qed (simp add: known_fields_def map_filter_simps)

lemma turn_completed_keeps:
  assumes ok: "registry_ok f r" and run: "turn_completed r params tn un = (r', res)" and apart: "no_collision (turn_keys r')"
  shows "\<exists>f'. keeps_links f r f' r' \<and> (\<forall>e. res = Inr e \<longrightarrow> linked f' r' e \<and> (\<exists>i. plainly i e))"
proof (cases "tn = None \<or> un = None")
  case True
  then show ?thesis using run keeps_links_refl [OF ok] by (auto simp: turn_completed_def split: option.splits)
next
  case False
  then obtain a b where ab: "tn = Some a" "un = Some b" by (cases tn; cases un) auto
  from run [unfolded turn_completed_def ab prod.case option.case] show ?thesis
  proof (cases rule: attempt_bind_cases)
    case (1 err)
    then show ?thesis using keeps_links_refl [OF ok] by auto
  next
    case (2 s1 t)
    have s1: "s1 = r" using 2(1) by simp
    define st where "st = outcome_status (get t ''status'')"
    from 2(2) [unfolded s1, folded st_def] show ?thesis
    proof (cases rule: attempt_bind_cases)
      case (1 err)
      then show ?thesis using finished_identity_keeps [OF ok 1(1) apart] by auto
    next
      case (2 r1 z)
      obtain i seen where z: "z = (i, seen)" by fastforce
      then have r1: "r1 = r'" using 2(2) by simp
      from finished_identity_keeps [OF ok 2(1) [unfolded r1] apart] obtain f' where "keeps_links f r f' r'"
        "\<forall>i b. (Inr z :: _ result) = Inr (i, b) \<longrightarrow> names_ok (ri_provenance i)
          \<and> (\<forall>k. named_turn (ri_provenance i) = Some k \<longrightarrow> k \<in> turn_keys r' \<and> ended_turn r' k \<and> f' (turn_uid k) = st)"
        by (elim exE conjE)
      then have got: "keeps_links f r f' r'" "names_ok (ri_provenance i)"
        "\<forall>k. named_turn (ri_provenance i) = Some k \<longrightarrow> k \<in> turn_keys r' \<and> ended_turn r' k \<and> f' (turn_uid k) = st"
        using z by simp_all
      have "linked f' r' e \<and> (\<exists>i. plainly i e)" if e: "res = Inr e" for e
      proof -
        obtain at_time where e_is: "e = (notified ''turn/completed'' params ''turn_completed''
            (known_fields (PDict t) [''status'', ''durationMs'', ''error''] @ [(''observed_start'', PBool seen)]) i)\<lparr>ev_at := at_time\<rparr>"
          using 2(2) e z by (cases "seconds (get t ''completedAt'')") auto
        have "plainly i e" "event_outcome e = st"
          by (simp_all only: e_is timed_notified event_outcome_def known_status st_def)
        then show ?thesis using got(2,3) by (auto simp: linked_def plainly_def event_turn_def)
      qed
      then show ?thesis using got(1) by blast
    qed
  qed
qed

lemma normalize_keeps:
  assumes ok: "registry_ok f r" and run: "normalize r rules m raw = (r', res)" and apart: "no_collision (turn_keys r')"
  shows "\<exists>f'. keeps_links f r f' r' \<and> (\<forall>e. res = Inr e \<longrightarrow> linked f' r' e \<and> (\<exists>i. plainly i e))"
proof (cases "get raw ''params''")
  case (PDict params)
  define tn where "tn = optional_string (get params ''threadId'')"
  define un where "un = (case get params ''turn'' of
      PDict t \<Rightarrow> (case optional_string (get t ''id'') of Some u \<Rightarrow> Some u | None \<Rightarrow> optional_string (get params ''turnId''))
    | _ \<Rightarrow> optional_string (get params ''turnId''))"
  note run = run [unfolded normalize_def PDict pyval.case Let_def, folded tn_def un_def]
  show ?thesis
  proof (cases "m = ''thread/started''")
    case True
    have "thread_started r params = (r', res)" using run unfolding if_P [OF True] .
    from thread_started_keeps [OF ok this apart] show ?thesis by (rule exI [of _ f])
  next
    case False
    show ?thesis
    proof (cases "m = ''turn/completed''")
      case True
      have "turn_completed r params tn un = (r', res)" using run unfolding if_not_P [OF False] if_P [OF True] .
      from turn_completed_keeps [OF ok this apart] show ?thesis .
    next
      case no: False
      have "attempt_bind (identity_for r tn un (m = ''turn/started'')) (\<lambda>r1 i. (r1, other_event m params rules i)) = (r', res)"
        using run unfolding if_not_P [OF False] if_not_P [OF no] .
      then show ?thesis
      proof (cases rule: attempt_bind_cases)
        case (1 err)
        then show ?thesis using identity_for_keeps [OF ok 1(1) apart] by auto
      next
        case (2 r1 i)
        then have r1: "r1 = r'" "res = other_event m params rules i" by simp_all
        note got = identity_for_keeps [OF ok 2(1) [unfolded r1(1)] apart]
        have "linked f r' e \<and> (\<exists>i. plainly i e)" if e: "res = Inr e" for e
        proof -
          have kind: "ev_kind e \<in> set (method_kinds @ item_kinds)" "plainly i e"
            using other_event_kind [of m params rules i e] e r1(2) by simp_all
          have "linked f r' e" using got other_linked [OF kind(2) kinds_end_no_turn(1) [OF kind(1)]] by simp
          then show ?thesis using kind(2) by blast
        qed
        then show ?thesis using got by blast
      qed
    qed
  qed
qed (use run keeps_links_refl [OF ok] in \<open>auto simp: normalize_def\<close>)

end
