(* ===== verification/Ingestion_World.thy ===== *)
theory Ingestion_World
  imports Ingestion_Registry
begin

text \<open>
  The ingestor in its world: notifications come in, the process crashes in the middle of a write and
  is restarted, journals lose their sidecars. \<open>good\<close> is what every reachable state satisfies with
  respect to the complete records of the journals; \<open>recover_good\<close> that a restart succeeds and leads
  to the same indexes.
\<close>

section \<open>Redaction does not invent words\<close>

lemma subn_marks:
  assumes "\<And>c. CHR ''['' \<in> set (new c)"
  shows "fst (subn_from r new p s) = s \<or> CHR ''['' \<in> set (fst (subn_from r new p s))"
proof (induction "length s" arbitrary: p s rule: less_induct)
  case less
  show ?case
  proof (cases s)
    case Nil
    then show ?thesis by (simp add: subn_from.simps)
  next
    case (Cons x t)
    have tail: "fst (subn_from r new (x # p) t) = t \<or> CHR ''['' \<in> set (fst (subn_from r new (x # p) t))"
      using less [of t "x # p"] Cons by simp
    show ?thesis
    proof (cases "match_here r p s")
      case None
      then show ?thesis using tail Cons by (auto simp: subn_from.simps [of r new p "x # t"] split: prod.split)
    next
      case (Some c)
      then show ?thesis using tail Cons assms by (auto simp: subn_from.simps [of r new p "x # t"] split: prod.split)
    qed
  qed
qed

lemma redact_text_marks: "fst (redact_text s) = s \<or> CHR ''['' \<in> set (fst (redact_text s))"
proof -
  have marks: "CHR ''['' \<in> set (drop_all c)" "CHR ''['' \<in> set (keep_name c)" "CHR ''['' \<in> set (keep_header c)" for c
    by (simp_all add: drop_all_def keep_name_def keep_header_def placeholder_def)
  have step: "fst (redact_step tf (name, r, new)) = s \<or> CHR ''['' \<in> set (fst (redact_step tf (name, r, new)))"
    if "fst tf = s \<or> CHR ''['' \<in> set (fst tf)" "\<And>c. CHR ''['' \<in> set (new c)" for tf name r new
    using subn_marks [where r = r and new = new and p = "[]" and s = "fst tf"] that(2) that(1)
    by (cases tf) (auto simp: redact_step_def subn_def split: prod.splits)
  show ?thesis unfolding redact_text_def redact_patterns_def foldl.simps by (intro step marks disjI1) simp
qed

text \<open>A word no rule touches is found in a redacted payload exactly where it was.\<close>

definition untouched :: "string \<Rightarrow> bool" where
  "untouched w \<longleftrightarrow> CHR ''['' \<notin> set w \<and> fst (redact_text w) = w"

lemma redact_untouched: "untouched w \<Longrightarrow> fst (redact v) = PStr w \<longleftrightarrow> v = PStr w"
proof (cases v)
  case (PStr s)
  assume "untouched w"
  then show ?thesis using PStr redact_text_marks [of s] by (auto simp: untouched_def split: prod.splits)
qed (auto simp: Let_def)

lemma get_mapped: "get (map (\<lambda>kv. (fst kv, g (snd kv))) d) k = (case dget d k of None \<Rightarrow> PNone | Some v \<Rightarrow> g v)"
  by (induction d) (auto simp: get_def dget_def)

lemma stored_word:
  assumes "untouched w" "k \<noteq> ''redacted''" "k \<noteq> ''proposal_number''"
  shows "get (ev_payload (stored_event clock e n)) k = PStr w \<longleftrightarrow> get (ev_payload e) k = PStr w"
proof -
  have "get (dict_or_empty (fst (redact (PDict (ev_payload e))))) k = PStr w \<longleftrightarrow> get (ev_payload e) k = PStr w"
    using redact_untouched [OF assms(1)] get_mapped [of "\<lambda>v. fst (redact v)" "ev_payload e" k]
    by (simp add: dict_or_empty_def Let_def o_def) (simp add: get_def split: option.split)
  moreover have "get (dset j v d) k = get d k" if "k \<noteq> j" for j v d using that by (simp add: get_def)
  ultimately show ?thesis using assms(2,3)
    by (auto simp: stored_event_def stored_payload_def Let_def split: prod.splits option.splits)
qed

lemma untouched_interrupted: "untouched ''interrupted''"
  unfolding untouched_def by code_simp

section \<open>Journaled events\<close>

definition alike :: "trace_event \<Rightarrow> trace_event \<Rightarrow> bool" where
  "alike a b \<longleftrightarrow> ev_identity a = ev_identity b \<and> ev_kind a = ev_kind b \<and> event_outcome a = event_outcome b"

lemma alike_linked: "alike a b \<Longrightarrow> linked f r b \<Longrightarrow> linked f r a"
  by (simp add: alike_def linked_def event_turn_def ends_turn_def)

lemma stored_fields [simp]:
  "ev_identity (stored_event clock e n) = ev_identity e" "ev_id (stored_event clock e n) = ev_id e"
  "ev_epoch (stored_event clock e n) = ev_epoch e" "ev_arrival (stored_event clock e n) = ev_arrival e"
  "ev_operation (stored_event clock e n) = ev_operation e" "ev_at (stored_event clock e n) = ev_at e"
  by (simp_all add: stored_event_def Let_def split: option.split)

lemma stored_alike: "alike (stored_event clock e n) e"
  using stored_word [OF untouched_interrupted, of "''status''" clock e n]
  by (simp add: alike_def event_outcome_def outcome_status_def)

lemma with_entry_fields [simp]:
  "ev_identity (with_entry k v e) = ev_identity e" "ev_kind (with_entry k v e) = ev_kind e" "ev_id (with_entry k v e) = ev_id e"
  "ev_epoch (with_entry k v e) = ev_epoch e" "ev_arrival (with_entry k v e) = ev_arrival e" "ev_operation (with_entry k v e) = ev_operation e"
  "ev_at (with_entry k v e) = ev_at e" "ev_monotonic (with_entry k v e) = ev_monotonic e"
  by (simp_all add: with_entry_def)

lemma with_entry_other: "k \<noteq> k' \<Longrightarrow> get (ev_payload (with_entry k v e)) k' = get (ev_payload e) k'"
  by (simp add: with_entry_def get_def)

text \<open>What is admitted differs from what was normalized in two entries and the arrival number.\<close>

definition mark_keys :: "string list" where
  "mark_keys = [''observed_start'', ''out_of_order'']"

lemma mark_keys: "''observed_start'' \<in> set mark_keys" "''out_of_order'' \<in> set mark_keys" "''status'' \<notin> set mark_keys"
    "''lifecycle'' \<notin> set mark_keys"
  by (simp_all add: mark_keys_def)

definition same_but_marks :: "trace_event \<Rightarrow> trace_event \<Rightarrow> bool" where
  "same_but_marks a b \<longleftrightarrow> ev_identity a = ev_identity b \<and> ev_kind a = ev_kind b \<and> ev_id a = ev_id b \<and> ev_epoch a = ev_epoch b
     \<and> ev_operation a = ev_operation b \<and> ev_at a = ev_at b \<and> ev_monotonic a = ev_monotonic b
     \<and> (\<forall>k. k \<notin> set mark_keys \<longrightarrow> get (ev_payload a) k = get (ev_payload b) k)"

lemma same_but_marks_refl: "same_but_marks e e"
  by (simp add: same_but_marks_def)

lemma same_but_marks_entry:
  "same_but_marks e b \<Longrightarrow> k \<in> set mark_keys \<Longrightarrow> same_but_marks (with_entry k v e) b"
proof -
  assume b: "same_but_marks e b" and k: "k \<in> set mark_keys"
  have "get (ev_payload (with_entry k v e)) j = get (ev_payload e) j" if "j \<notin> set mark_keys" for j
    using that k by (intro with_entry_other) auto
  then show ?thesis using b by (simp add: same_but_marks_def)
qed

lemma settled_cases:
  assumes "settled operation previous e = Inr (Some e1)"
  obtains v where "e1 = with_entry ''observed_start'' v e"
proof (cases previous)
  case None
  from assms [unfolded settled_def None option.case] have "e1 = with_entry ''observed_start'' (PBool False) e" by simp
  then show thesis by (rule that)
next
  case (Some po)
  obtain phase outcome where po: "po = (phase, outcome)" by fastforce
  from assms [unfolded settled_def Some po option.case prod.case] have "e1 = with_entry ''observed_start'' (PBool True) e"
    by (elim if_InrE) simp_all
  then show thesis by (rule that)
qed

lemma reconciled_cases:
  assumes "reconciled ix e = Inr (Some e1)"
  obtains "e1 = e" | v where "e1 = with_entry ''observed_start'' v e"
proof (cases "ev_operation e")
  case None
  then show thesis using that(1) assms by (simp add: reconciled_def)
next
  case (Some operation)
  define key where "key = operation_key e (route e) operation"
  from assms [unfolded reconciled_def Some option.case Let_def, folded key_def] show thesis
  proof (elim if_InrE)
    assume "settled operation (dget (ix_operations ix) key) e = Inr (Some e1)"
    then show thesis by (rule settled_cases) (rule that(2))
  qed (auto intro: that(1))
qed

lemma reconciled_same: "reconciled ix e = Inr (Some e1) \<Longrightarrow> same_but_marks e1 e \<and> ev_arrival e1 = ev_arrival e"
  by (erule reconciled_cases) (simp_all add: same_but_marks_refl same_but_marks_entry mark_keys)

lemma time_checked_cases: "time_checked ix e = e \<or> time_checked ix e = with_entry ''out_of_order'' (PBool True) e"
  by (simp add: time_checked_def split: option.split)

lemma time_checked_same: "same_but_marks e b \<Longrightarrow> same_but_marks (time_checked ix e) b \<and> ev_arrival (time_checked ix e) = ev_arrival e"
  using time_checked_cases [of ix e] same_but_marks_entry [of e b _ "PBool True", OF _ mark_keys(2)] by (elim disjE) simp_all

lemma sequenced_cases: "sequenced ix e = Inr e2 \<Longrightarrow> \<exists>n. e2 = e\<lparr>ev_arrival := n\<rparr>"
  unfolding sequenced_def Let_def by (cases e) (auto split: option.splits if_splits)

lemma sequenced_same: "sequenced ix e = Inr e2 \<Longrightarrow> same_but_marks e b \<Longrightarrow> same_but_marks e2 b"
  by (drule sequenced_cases) (auto simp: same_but_marks_def)

lemma sequenced_arrival:
  assumes "sequenced ix e = Inr e2" "ev_epoch e = Some epoch" "ev_arrival e = None"
  shows "ev_arrival e2 = Some (last_arrival ix epoch + 1)"
  using assms by (auto simp: sequenced_def)

lemma sequenced_none: "sequenced ix e = Inr e2 \<Longrightarrow> ev_epoch e = None \<Longrightarrow> e2 = e"
  by (simp add: sequenced_def)

lemma admitted_same:
  assumes "admitted ix e = Inr (Some e')" "ev_arrival e = None"
  shows "same_but_marks e' e" "ev_arrival e' = map_option (\<lambda>n. last_arrival ix n + 1) (ev_epoch e)"
    "\<not> repeated_event ix e"
proof -
  obtain e1 where e1: "reconciled ix e = Inr (Some e1)" "sequenced ix (time_checked ix e1) = Inr e'"
    using assms(1) by (auto simp: admitted_def split: if_splits option.splits)
  note same = reconciled_same [OF e1(1)]
  have t: "same_but_marks (time_checked ix e1) e" "ev_arrival (time_checked ix e1) = None"
    using time_checked_same [of e1 e ix] same assms(2) by simp_all
  show "same_but_marks e' e" by (rule sequenced_same [OF e1(2) t(1)])
  have "ev_epoch (time_checked ix e1) = ev_epoch e" using t(1) by (simp add: same_but_marks_def)
  then show "ev_arrival e' = map_option (\<lambda>n. last_arrival ix n + 1) (ev_epoch e)"
    using sequenced_arrival [OF e1(2) _ t(2)] sequenced_none [OF e1(2)] t(2) by (cases "ev_epoch e") auto
  show "\<not> repeated_event ix e" using assms(1) by (auto simp: admitted_def split: if_splits)
qed

lemma same_but_marks_alike: "same_but_marks a b \<Longrightarrow> alike a b"
  using mark_keys(3) by (simp add: same_but_marks_def alike_def event_outcome_def)

lemma same_route: "ev_identity a = ev_identity b \<Longrightarrow> route a = route b"
  by (simp add: route_def thread_of_event_def)

section \<open>Keys that occur once\<close>

definition unique_key :: "(trace_event \<Rightarrow> 'k option) \<Rightarrow> contents \<Rightarrow> bool" where
  "unique_key key R \<longleftrightarrow> (\<forall>p q i j x. i < length (R p) \<and> j < length (R q) \<and> key (sr_event (R p ! i)) = Some x
     \<and> key (sr_event (R q ! j)) = Some x \<longrightarrow> p = q \<and> i = j)"

definition arrival_key :: "trace_event \<Rightarrow> (int \<times> int) option" where
  "arrival_key e = (case (ev_epoch e, ev_arrival e) of (Some a, Some b) \<Rightarrow> Some (a, b) | _ \<Rightarrow> None)"

lemma unique_none: "unique_key key (\<lambda>_. [])"
  by (simp add: unique_key_def)

lemma add_record_nth:
  "i < length (add_record p r R q) \<Longrightarrow> (q = p \<and> i = length (R p) \<and> add_record p r R q ! i = r) \<or> (i < length (R q) \<and> add_record p r R q ! i = R q ! i)"
  by (auto simp: add_record_def nth_append split: if_splits)

lemma holds_nth: "i < length (R p) \<Longrightarrow> holds_event R (sr_event (R p ! i))"
  unfolding holds_event_def by (metis imageI nth_mem)

lemma unique_add:
  assumes "unique_key key R" "\<And>x e. key (sr_event r) = Some x \<Longrightarrow> holds_event R e \<Longrightarrow> key e \<noteq> Some x"
  shows "unique_key key (add_record p r R)"
  unfolding unique_key_def
proof (intro allI impI, elim conjE)
  fix q1 q2 i j x
  assume ij: "i < length (add_record p r R q1)" "j < length (add_record p r R q2)"
    and x: "key (sr_event (add_record p r R q1 ! i)) = Some x" "key (sr_event (add_record p r R q2 ! j)) = Some x"
  from add_record_nth [OF ij(1)] add_record_nth [OF ij(2)] show "q1 = q2 \<and> i = j"
  proof (elim disjE conjE)
    assume "i < length (R q1)" "add_record p r R q1 ! i = R q1 ! i" "j < length (R q2)" "add_record p r R q2 ! j = R q2 ! j"
    then show ?thesis using assms(1) x unfolding unique_key_def by metis
  qed (use x assms(2) holds_nth in metis)+
qed

section \<open>Operations\<close>

definition finished :: "trace_event \<Rightarrow> bool" where
  "finished e \<longleftrightarrow> lifecycle e = Some ''completed''"

definition started_only :: "trace_event \<Rightarrow> bool" where
  "started_only e \<longleftrightarrow> lifecycle e = Some ''started''"

definition is_effect :: "trace_event \<Rightarrow> bool" where
  "is_effect e \<longleftrightarrow> ev_kind e = ''external_effect''"

definition event_operation :: "trace_event \<Rightarrow> operation_key option" where
  "event_operation e = map_option (operation_key e (route e)) (ev_operation e)"

text \<open>The operation an event completes, effects journaled beside a completion aside.\<close>

definition completion_key :: "trace_event \<Rightarrow> operation_key option" where
  "completion_key e = (if is_effect e \<or> \<not> finished e then None else event_operation e)"

definition completed_in :: "contents \<Rightarrow> operation_key \<Rightarrow> bool" where
  "completed_in R x \<longleftrightarrow> (\<exists>d. holds_event R d \<and> completion_key d = Some x)"

definition completions_known :: "contents \<Rightarrow> bool" where
  "completions_known R \<longleftrightarrow> (\<forall>x. completed_in R x \<longrightarrow> (\<exists>out. content_operation R x = Some (''completed'', out)))"

text \<open>What a normalized item says of its operation.\<close>

definition tame :: "trace_event \<Rightarrow> bool" where
  "tame e \<longleftrightarrow> \<not> is_effect e \<and> (ev_operation e \<noteq> None \<longrightarrow> (finished e \<or> started_only e) \<and> (ev_kind e \<in> set started_kinds \<longrightarrow> \<not> finished e))"

lemma untouched_completed: "untouched ''completed''"
  unfolding untouched_def by code_simp

lemma optional_string_word: "w \<noteq> [] \<Longrightarrow> optional_string v = Some w \<longleftrightarrow> v = PStr w"
  by (auto simp: optional_string_def split: pyval.split)

lemma finished_stored: "finished (stored_event clock e n) = finished e"
  unfolding finished_def lifecycle_def
  using stored_word [OF untouched_completed, of "''lifecycle''" clock e n] optional_string_word [of "''completed''"] by simp

lemma operation_key_stored [simp]: "operation_key (stored_event clock e n) path op = operation_key e path op"
  by (simp add: operation_key_def turn_of_event_def epoch_text_def)

lemma operation_stored: "event_operation (stored_event clock e n) = event_operation e"
  using same_route [of "stored_event clock e n" e] operation_key_stored [of clock e n, abs_def]
  by (cases "ev_operation e") (simp_all add: event_operation_def)

lemma completion_stored: "completion_key (stored_event clock e n) = completion_key e"
  by (simp add: completion_key_def finished_stored operation_stored is_effect_def)

lemma completionD: "completion_key e = Some x \<Longrightarrow> event_operation e = Some x \<and> finished e \<and> \<not> is_effect e"
  by (auto simp: completion_key_def split: if_splits)

lemma completed_add [simp]:
  "completed_in (add_record p r R) x \<longleftrightarrow> completed_in R x \<or> completion_key (sr_event r) = Some x"
  by (auto simp: completed_in_def)

lemma operation_fst: "event_operation e = Some x \<Longrightarrow> fst x = route e"
  by (auto simp: event_operation_def operation_key_def)

text \<open>An event that does not finish its operation must find it unfinished.\<close>

lemma completions_add:
  assumes known: "completions_known R" and apart: "\<And>x. event_operation e = Some x \<Longrightarrow> \<not> finished e \<Longrightarrow> \<not> completed_in R x"
    and r: "sr_event r = stored_event clock e n"
  shows "completions_known (add_record (route e) r R)"
  unfolding completions_known_def
proof (intro allI impI)
  fix x
  assume c: "completed_in (add_record (route e) r R) x"
  have hit: "operation_entry (fst x) x v r = (if event_operation e = Some x \<and> lifecycle (sr_event r) \<noteq> None
      then Some (the (lifecycle (sr_event r)), status (sr_event r)) else v)" if "route e = fst x" for v
    using that by (auto simp: operation_entry_def r event_operation_def Let_def split: option.split)
  have done_now: "the (lifecycle (sr_event r)) = ''completed''" if "finished e"
    using that finished_stored [of clock e n] by (simp add: finished_def r)
  show "\<exists>out. content_operation (add_record (route e) r R) x = Some (''completed'', out)"
  proof (cases "event_operation e = Some x \<and> lifecycle (sr_event r) \<noteq> None")
    case True
    have "finished e"
    proof (rule ccontr)
      assume no: "\<not> finished e"
      then have "completion_key (sr_event r) = None" using finished_stored [of clock e n] by (simp add: completion_key_def r)
      then show False using c apart [of x] True no by simp
    qed
    then show ?thesis using True operation_fst [of e x] hit done_now by (simp add: operation_add)
  next
    case False
    have "completion_key (sr_event r) \<noteq> Some x"
    proof
      assume k: "completion_key (sr_event r) = Some x"
      then have "event_operation e = Some x" "finished e"
        using operation_stored [of clock e n] finished_stored [of clock e n] by (auto simp: completion_key_def r split: if_splits)
      then show False using False finished_stored [of clock e n] by (simp add: finished_def r)
    qed
    then have "completed_in R x" using c by simp
    then obtain out where "content_operation R x = Some (''completed'', out)" using known [unfolded completions_known_def] by blast
    then show ?thesis using False hit by (auto simp: operation_add)
  qed
qed

text \<open>What is admitted finds its operation unfinished.\<close>

lemma same_operation:
  assumes "same_but_marks a b"
  shows "event_operation a = event_operation b" "lifecycle a = lifecycle b" "finished a = finished b" "is_effect a = is_effect b"
proof -
  show l: "lifecycle a = lifecycle b" using assms mark_keys(4) by (simp add: lifecycle_def same_but_marks_def)
  have "route a = route b" using assms by (intro same_route) (simp add: same_but_marks_def)
  then show "event_operation a = event_operation b"
    using assms by (simp add: event_operation_def operation_key_def [abs_def] turn_of_event_def epoch_text_def same_but_marks_def)
  show "finished a = finished b" using l by (simp add: finished_def)
  show "is_effect a = is_effect b" using assms by (simp add: is_effect_def same_but_marks_def)
qed

lemma admitted_unfinished:
  assumes ix: "indexed R ix" and known: "completions_known R" and a: "admitted ix e = Inr (Some e')" "ev_arrival e = None"
    and t: "tame e" and x: "event_operation e' = Some x"
  shows "\<not> completed_in R x"
proof
  assume "completed_in R x"
  then obtain out where "content_operation R x = Some (''completed'', out)"
    using known [unfolded completions_known_def] by blast
  then have prev: "dget (ix_operations ix) x = Some (''completed'', out)" using indexedD(3) [OF ix] by simp
  have "event_operation e = Some x" using x same_operation(1) [OF admitted_same(1) [OF a]] by simp
  then obtain op where op: "ev_operation e = Some op" "operation_key e (route e) op = x" by (auto simp: event_operation_def)
  obtain e1 where "reconciled ix e = Inr (Some e1)" using a(1) by (auto simp: admitted_def split: if_splits option.splits)
  note e1 = this [unfolded reconciled_def op(1) option.case Let_def op(2) prev]
  have "finished e \<or> started_only e" using t op(1) by (simp add: tame_def)
  then show False
  proof
    assume "finished e"
    then have "lifecycle e \<noteq> Some ''started''" "lifecycle e = Some ''completed''" by (simp_all add: finished_def)
    then have "settled op (Some (''completed'', out)) e = Inr (Some e1)" using e1 by simp
    then show False by (simp add: settled_def split: if_splits)
  next
    assume "started_only e"
    then show False using e1 by (simp add: started_only_def)
  qed
qed

section \<open>Normalized items\<close>

definition opening_kinds :: "string list" where
  "opening_kinds = [''user_prompt'', ''agent_message'', ''plan'', ''reasoning_summary'', ''command_started'',
     ''file_change_started'', ''tool_started'', ''search_started'', ''item_started'']"

definition closing_kinds :: "string list" where
  "closing_kinds = [''user_prompt'', ''agent_message'', ''plan'', ''reasoning_summary'', ''command_result'', ''file_edit'',
     ''tool_result'', ''search'', ''item_completed'']"

lemma opening_kind_members:
  "''user_prompt'' \<in> set opening_kinds" "''agent_message'' \<in> set opening_kinds" "''plan'' \<in> set opening_kinds"
  "''reasoning_summary'' \<in> set opening_kinds" "''command_started'' \<in> set opening_kinds" "''file_change_started'' \<in> set opening_kinds"
  "''tool_started'' \<in> set opening_kinds" "''search_started'' \<in> set opening_kinds" "''item_started'' \<in> set opening_kinds"
  unfolding opening_kinds_def list.set by (intro insertI1 insertI2)+

lemma closing_kind_members:
  "''user_prompt'' \<in> set closing_kinds" "''agent_message'' \<in> set closing_kinds" "''plan'' \<in> set closing_kinds"
  "''reasoning_summary'' \<in> set closing_kinds" "''command_result'' \<in> set closing_kinds" "''file_edit'' \<in> set closing_kinds"
  "''tool_result'' \<in> set closing_kinds" "''search'' \<in> set closing_kinds" "''item_completed'' \<in> set closing_kinds"
  unfolding closing_kinds_def list.set by (intro insertI1 insertI2)+

lemma normalize_item_phase:
  "fst (normalize_item d True rules) \<in> set closing_kinds" "fst (normalize_item d False rules) \<in> set opening_kinds"
  unfolding normalize_item_def Let_def if_True if_False
  by ((intro if_in; rule closing_kind_members), (intro if_in; rule opening_kind_members))

lemma phase_kinds:
  "k \<in> set closing_kinds \<Longrightarrow> k \<notin> set started_kinds" "k \<in> set (closing_kinds @ opening_kinds) \<Longrightarrow> k \<noteq> ''external_effect''"
  "k \<in> set method_kinds \<Longrightarrow> k \<noteq> ''external_effect''"
proof -
  have "list_all (\<lambda>k. k \<notin> set started_kinds) closing_kinds" "list_all (\<lambda>k. k \<noteq> ''external_effect'') (closing_kinds @ opening_kinds)"
    "list_all (\<lambda>k. k \<noteq> ''external_effect'') method_kinds" by code_simp+
  then show "k \<in> set closing_kinds \<Longrightarrow> k \<notin> set started_kinds" "k \<in> set (closing_kinds @ opening_kinds) \<Longrightarrow> k \<noteq> ''external_effect''"
    "k \<in> set method_kinds \<Longrightarrow> k \<noteq> ''external_effect''" by (auto simp: list_all_iff)
qed

lemma lifecycle_entry: "ev_payload e = dset ''lifecycle'' (PStr w) q \<Longrightarrow> w \<noteq> [] \<Longrightarrow> lifecycle e = Some w"
  by (simp add: lifecycle_def get_of_dset optional_string_def)

lemma item_event_tame:
  assumes "item_event m params rules i = Inr e"
  shows "tame e"
  using assms unfolding item_event_def
proof (elim rbind_InrE)
  fix d item_id
  define completed where "completed = (m = ''item/completed'')"
  obtain k q where kq: "normalize_item d completed rules = (k, q)" by fastforce
  assume "(let completed = m = ''item/completed''; (kind, p) = normalize_item d completed rules;
      p' = dset ''lifecycle'' (PStr (if completed then ''completed'' else ''started'')) p
      in rbind (milliseconds (get params (if completed then ''completedAtMs'' else ''startedAtMs'')))
        (\<lambda>at_time. Inr ((notified m params kind p' i)\<lparr>ev_at := at_time, ev_operation := Some item_id, ev_item := Some item_id\<rparr>))) = Inr e"
  then show ?thesis unfolding Let_def completed_def [symmetric] kq prod.case
  proof (elim rbind_InrE)
    fix at_time
    assume "Inr ((notified m params k (dset ''lifecycle'' (PStr (if completed then ''completed'' else ''started'')) q) i)
      \<lparr>ev_at := at_time, ev_operation := Some item_id, ev_item := Some item_id\<rparr>) = Inr e"
    then have e: "ev_kind e = k" "ev_payload e = dset ''lifecycle'' (PStr (if completed then ''completed'' else ''started'')) q" by auto
    show ?thesis
    proof (cases completed)
      case True
      then have "finished e" using lifecycle_entry [OF e(2)] by (simp add: finished_def)
      moreover have "k \<in> set closing_kinds" using normalize_item_phase(1) [of d rules] kq True by simp
      ultimately show ?thesis using phase_kinds [of k] e(1) by (simp add: tame_def is_effect_def)
    next
      case False
      then have "started_only e" "\<not> finished e" using lifecycle_entry [OF e(2)] by (simp_all add: started_only_def finished_def)
      moreover have "k \<in> set opening_kinds" using normalize_item_phase(2) [of d rules] kq False by simp
      ultimately show ?thesis using phase_kinds(2) [of k] e(1) by (simp add: tame_def is_effect_def)
    qed
  qed
qed

lemma notified_tame: "Inr (notified m params k q i) = Inr e \<Longrightarrow> k \<noteq> ''external_effect'' \<Longrightarrow> tame e"
  by (auto simp: tame_def is_effect_def)

lemma timed_tame: "k \<noteq> ''external_effect'' \<Longrightarrow> tame ((notified m params k q i)\<lparr>ev_at := x\<rparr>)"
  by (simp add: tame_def is_effect_def)

lemma other_event_tame:
  assumes "other_event m params rules i = Inr e"
  shows "tame e"
  using assms unfolding other_event_def Let_def
proof (elim if_InrE)
  assume "turn_started params i = Inr e"
  then show ?thesis using phase_kinds(3) [OF method_kind_members(1)]
    by (auto simp: turn_started_def timed_tame split: pyval.splits)
next
  assume "item_event m params rules i = Inr e"
  then show ?thesis by (rule item_event_tame)
next
  assume "m \<in> set [''thread/archived'', ''thread/unarchived'', ''thread/closed'', ''thread/deleted'']"
    and e: "Inr (notified m params (map (\<lambda>c. if c = CHR ''/'' then CHR ''_'' else c) m) [] i) = Inr e"
  have archived: "set [''thread_archived'', ''thread_unarchived'', ''thread_closed'', ''thread_deleted''] \<subseteq> set method_kinds"
    unfolding method_kinds_def list.set by (intro insert_subsetI empty_subsetI insertI1 insertI2)
  from archived_kinds [OF \<open>m \<in> _\<close>] archived show ?thesis by (intro notified_tame [OF e] phase_kinds(3)) blast
next
  assume "Inr ((notified m params ''runtime_event_unknown'' [(''method'', PStr m)] i)\<lparr>ev_item := optional_string (get params ''itemId'')\<rparr>) = Inr e"
  then show ?thesis using phase_kinds(3) [OF method_kind_members(7)] by (auto simp: tame_def is_effect_def)
qed (erule notified_tame, rule phase_kinds(3), rule method_kind_members)+

lemma if_pairE:
  assumes "(if c then a else b) = (s, Inr e)"
  obtains "a = (s, Inr e)" | "b = (s, Inr e)"
  using assms by (cases c) simp_all

lemma attempt_pure:
  assumes "attempt_bind m f = (s', Inr y)"
  obtains s1 z where "m = (s1, Inr z)" "f s1 z = (s', Inr y)"
  using assms by (cases rule: attempt_bind_cases) auto

lemma thread_started_tame: "thread_started r params = (r', Inr e) \<Longrightarrow> tame e"
proof -
  have kind: "''thread_started'' \<noteq> ''external_effect''" by simp
  show "thread_started r params = (r', Inr e) \<Longrightarrow> tame e"
    unfolding thread_started_def Let_def by (auto elim!: attempt_pure simp: timed_tame [OF kind])
qed

lemma turn_completed_tame: "turn_completed r params tn un = (r', Inr e) \<Longrightarrow> tame e"
proof -
  have kind: "''turn_completed'' \<noteq> ''external_effect''" by simp
  show "turn_completed r params tn un = (r', Inr e) \<Longrightarrow> tame e"
    unfolding turn_completed_def by (auto elim!: attempt_pure simp: timed_tame [OF kind] split: option.splits)
qed

lemma normalize_tame:
  assumes "normalize r rules m raw = (r', Inr e)"
  shows "tame e"
proof (cases "get raw ''params''")
  case (PDict params)
  from assms [unfolded normalize_def PDict pyval.case Let_def] show ?thesis
  proof (elim if_pairE)
    assume "thread_started r params = (r', Inr e)"
    then show ?thesis by (rule thread_started_tame)
  next
    assume "turn_completed r params (optional_string (get params ''threadId''))
        (case get params ''turn'' of PDict t \<Rightarrow> (case optional_string (get t ''id'') of Some u \<Rightarrow> Some u | None \<Rightarrow> optional_string (get params ''turnId''))
         | _ \<Rightarrow> optional_string (get params ''turnId'')) = (r', Inr e)"
    then show ?thesis by (rule turn_completed_tame)
  qed (erule attempt_pure, drule prod.inject [THEN iffD1], auto dest: other_event_tame)
qed (use assms in \<open>auto simp: normalize_def\<close>)

section \<open>Journals and their contents\<close>

definition stored :: "(string, journal) dict \<Rightarrow> contents \<Rightarrow> bool" where
  "stored js R \<longleftrightarrow> dict_ok js \<and> (\<forall>path. recoverable (journal_of js path) (R path))
     \<and> (\<forall>path. R path \<noteq> [] \<longrightarrow> journal_path path \<and> j_file (journal_of js path) \<noteq> None)"

lemma new_journal_recoverable: "recoverable new_journal []"
  by (simp add: new_journal_def recoverable_def well_formed_def sound_Nil sidecar_ok_def)

lemma stored_none: "stored [] (\<lambda>_. [])"
  by (simp add: stored_def journal_of_def new_journal_recoverable)

lemma journal_of_dset [simp]: "journal_of (dset p j js) q = (if q = p then j else journal_of js q)"
  by (simp add: journal_of_def)

lemma stored_put:
  assumes "stored js R" "recoverable j rs" "rs \<noteq> [] \<longrightarrow> journal_path p \<and> j_file j \<noteq> None"
  shows "stored (dset p j js) (R(p := rs))"
  using assms by (simp add: stored_def)

lemma route_path: "journal_path (route e)"
proof -
  have "drop (length (a @ b) - 6) (a @ b) = b" if "length b = 6" for a b :: string using that by simp
  from this [of "''.jsonl''" "''app-server-'' @ t" for t] show ?thesis
    by (simp add: route_def journal_path_def startswith_def split: option.split)
qed

text \<open>Loading with repair.\<close>

lemma repaired_load:
  assumes "recoverable j rs"
  shows "\<exists>kept. load_journal True False (journal_lines j) = Inr (rs, kept) \<and> recoverable (j\<lparr>j_file := Some kept\<rparr>) rs"
  using assms unfolding recoverable_def [of j]
proof (elim disjE)
  assume w: "well_formed j rs"
  then obtain f where f: "sound f rs" "j_file j = Some f \<or> j_file j = None \<and> f = []" "sidecar_ok (j_state j) (file_size f) rs"
    by (auto simp: well_formed_def)
  then have "journal_lines j = f" by (auto simp: journal_lines_def)
  moreover have "well_formed (j\<lparr>j_file := Some f\<rparr>) rs" using f by (simp add: well_formed_def)
  ultimately show ?thesis using sound_load [OF f(1), of True False] by (auto simp: recoverable_def)
next
  assume "\<exists>f t. sound f rs \<and> j_file j = Some (f @ [t]) \<and> l_content t \<in> {White, Garbage} \<and> \<not> l_ended t \<and> 0 < l_bytes t
      \<and> sidecar_ok (j_state j) (file_size f) rs"
  then obtain f t where t: "sound f rs" "j_file j = Some (f @ [t])" "l_content t \<in> {White, Garbage}" "\<not> l_ended t"
    "0 < l_bytes t" "sidecar_ok (j_state j) (file_size f) rs" by blast
  have load: "load_journal True False (journal_lines j) = Inr (rs, if l_content t = White then f @ [t] else f)"
    using t load_append [of 0 0 f rs f True False "[t]"] by (auto simp: journal_lines_def sound_def load_journal_def)
  have "ready (j_state j) (if l_content t = White then f @ [t] else f) rs" using t by (auto simp: ready_def)
  then show ?thesis using load ready_recoverable by blast
qed

section \<open>Recovery\<close>

text \<open>What is rebuilt while the journals are read: the indexes and the registry of the records read so far.\<close>

definition rebuilt :: "(string \<Rightarrow> turn_status) \<Rightarrow> (thread_id \<times> string) set \<Rightarrow> contents \<Rightarrow> ingestor \<Rightarrow> bool" where
  "rebuilt f K R st \<longleftrightarrow> indexed R (ig_indexes st) \<and> registry_ok f (ig_registry st) \<and> turn_keys (ig_registry st) \<subseteq> K
     \<and> (\<forall>e. holds_event R e \<longrightarrow> linked f (ig_registry st) e)"

lemma recover_records_ok:
  assumes K: "no_collision K" and "rebuilt f K R st" and "\<And>r. r \<in> set rs \<Longrightarrow> linked f r0 (sr_event r) \<and> set_option (event_turn (sr_event r)) \<subseteq> K"
  shows "\<exists>st'. recover_records p rs st = Inr st' \<and> ig_journals st' = ig_journals st \<and> rebuilt f K (R(p := R p @ rs)) st'"
  using assms(2,3)
proof (induction rs arbitrary: st R)
  case Nil
  then show ?case by simp
next
  case (Cons r rs)
  note now = Cons.prems(1) [unfolded rebuilt_def]
  obtain reg where reg: "restore_identity (sr_event r) (ig_registry st) = Inr reg" "registry_ok f reg"
    "turn_keys reg = turn_keys (ig_registry st) \<union> set_option (event_turn (sr_event r))"
    "no_collision (turn_keys reg) \<longrightarrow> linked f reg (sr_event r) \<and> (\<forall>e0. linked f (ig_registry st) e0 \<longrightarrow> linked f reg e0)"
    using restore_identity_ok [of f "ig_registry st" r0 "sr_event r"] now Cons.prems(2) [of r] by auto
  have keys: "turn_keys reg \<subseteq> K" using reg(3) now Cons.prems(2) [of r] by auto
  then have apart: "no_collision (turn_keys reg)" by (rule no_collision_mono [OF K])
  have "rebuilt f K (add_record p r R) (remember_in (sr_event r) p (st\<lparr>ig_registry := reg\<rparr>))"
    using now keys reg(2,4) apart indexed_remember [of R "ig_indexes st" p r] by (auto simp: rebuilt_def remember_in_def)
  from Cons.IH [OF this Cons.prems(2)] obtain st' where
    "recover_records p rs (remember_in (sr_event r) p (st\<lparr>ig_registry := reg\<rparr>)) = Inr st'"
    "ig_journals st' = ig_journals (remember_in (sr_event r) p (st\<lparr>ig_registry := reg\<rparr>))"
    "rebuilt f K ((add_record p r R)(p := add_record p r R p @ rs)) st'" by (meson list.set_intros(2))
  moreover have "(add_record p r R)(p := add_record p r R p @ rs) = R(p := R p @ r # rs)" by (auto simp: add_record_def)
  ultimately show ?case using reg(1) by (intro exI [of _ st']) (simp add: remember_in_def fun_upd_def)
qed

definition part_of :: "string set \<Rightarrow> contents \<Rightarrow> contents" where
  "part_of D R = (\<lambda>p. if p \<in> D then R p else [])"

lemma part_holds: "holds_event (part_of D R) e \<Longrightarrow> holds_event R e"
  by (auto simp: holds_event_def part_of_def split: if_splits)

lemma recover_journals_ok:
  assumes K: "no_collision K" and links: "\<And>e. holds_event R e \<Longrightarrow> linked f r0 e \<and> set_option (event_turn e) \<subseteq> K"
    and "stored (ig_journals st) R" "rebuilt f K (part_of D R) st" "distinct ps" "D \<inter> set ps = {}"
    and "\<And>p. p \<in> set ps \<Longrightarrow> journal_path p"
  shows "\<exists>st'. recover_journals ps st = Inr st' \<and> stored (ig_journals st') R \<and> rebuilt f K (part_of (D \<union> set ps) R) st'"
  using assms(3-)
proof (induction ps arbitrary: st D)
  case Nil
  then show ?case by simp
next
  case (Cons p ps)
  obtain kept where kept: "load_journal True False (journal_lines (journal_of (ig_journals st) p)) = Inr (R p, kept)"
    "recoverable (journal_of (ig_journals st) p\<lparr>j_file := Some kept\<rparr>) (R p)"
    using repaired_load [of "journal_of (ig_journals st) p" "R p"] Cons.prems(1) by (auto simp: stored_def)
  define st1 where "st1 = st\<lparr>ig_journals := dset p (journal_of (ig_journals st) p\<lparr>j_file := Some kept\<rparr>) (ig_journals st)\<rparr>"
  have "stored (ig_journals st1) (R(p := R p))"
    using stored_put [OF Cons.prems(1) kept(2), of p] Cons.prems(5) [of p] by (simp add: st1_def)
  then have stored1: "stored (ig_journals st1) R" by simp
  have rebuilt1: "rebuilt f K (part_of D R) st1" using Cons.prems(2) by (simp add: rebuilt_def st1_def)
  have "linked f r0 (sr_event r) \<and> set_option (event_turn (sr_event r)) \<subseteq> K" if "r \<in> set (R p)" for r
    using links [of "sr_event r"] that unfolding holds_event_def by blast
  from recover_records_ok [OF K rebuilt1 this] obtain st2 where st2: "recover_records p (R p) st1 = Inr st2"
    "ig_journals st2 = ig_journals st1" "rebuilt f K ((part_of D R)(p := part_of D R p @ R p)) st2" by blast
  have "(part_of D R)(p := part_of D R p @ R p) = part_of (insert p D) R"
    using Cons.prems(4) by (auto simp: part_of_def fun_eq_iff)
  then have "\<exists>st'. recover_journals ps st2 = Inr st' \<and> stored (ig_journals st') R \<and> rebuilt f K (part_of (insert p D \<union> set ps) R) st'"
    using Cons.prems(3-5) st2 stored1 by (intro Cons.IH) auto
  then show ?case using kept(1) st2(1) by (simp add: st1_def)
qed

section \<open>The invariant\<close>

definition good :: "contents \<Rightarrow> ingestor \<Rightarrow> bool" where
  "good R st \<longleftrightarrow> stored (ig_journals st) R \<and> indexed R (ig_indexes st) \<and> no_collision (turn_keys (ig_registry st))
     \<and> (\<exists>f. registry_ok f (ig_registry st) \<and> (\<forall>e. holds_event R e \<longrightarrow> linked f (ig_registry st) e))
     \<and> unique_key ev_id R \<and> unique_key arrival_key R \<and> unique_key completion_key R \<and> completions_known R"

definition fresh_ingestor :: ingestor where
  "fresh_ingestor = \<lparr>ig_journals = [], ig_registry = empty_registry, ig_indexes = no_indexes\<rparr>"

lemma good_fresh: "good (\<lambda>_. []) fresh_ingestor"
proof -
  have "turn_keys empty_registry = {}" by (simp add: turn_keys_def empty_registry_def)
  then show ?thesis
    by (simp add: good_def fresh_ingestor_def stored_none indexed_none no_collision_def registry_ok_empty unique_none
        completions_known_def completed_in_def)
qed

text \<open>A restart succeeds and leads to the same contents.\<close>

lemma recover_good:
  assumes "good R st" "stored js R"
  shows "\<exists>st'. recover js = Inr st' \<and> good R st'"
proof -
  define K where "K = turn_keys (ig_registry st)"
  obtain f where f: "registry_ok f (ig_registry st)" "\<forall>e. holds_event R e \<longrightarrow> linked f (ig_registry st) e"
    using assms(1) by (auto simp: good_def)
  have K: "no_collision K" using assms(1) by (simp add: good_def K_def)
  have links: "linked f (ig_registry st) e \<and> set_option (event_turn e) \<subseteq> K" if "holds_event R e" for e
    using f(2) that by (auto simp: linked_def K_def)
  define st0 where "st0 = \<lparr>ig_journals = js, ig_registry = empty_registry, ig_indexes = no_indexes\<rparr>"
  have "part_of {} R = (\<lambda>_. [])" by (simp add: part_of_def)
  then have start: "rebuilt f K (part_of {} R) st0"
    using registry_ok_empty [of f] by (simp add: rebuilt_def st0_def indexed_none turn_keys_def empty_registry_def)
  have "distinct (journal_paths js)" using assms(2) by (simp add: journal_paths_def stored_def dict_ok_def dkeys_def)
  then have "\<exists>st'. recover_journals (journal_paths js) st0 = Inr st' \<and> stored (ig_journals st') R
      \<and> rebuilt f K (part_of ({} \<union> set (journal_paths js)) R) st'"
    using start assms(2) by (intro recover_journals_ok [OF K links]) (auto simp: st0_def journal_paths_def)
  then obtain st' where st': "recover_journals (journal_paths js) st0 = Inr st'" "stored (ig_journals st') R"
    "rebuilt f K (part_of (set (journal_paths js)) R) st'" by auto
  have "R p = []" if "p \<notin> set (journal_paths js)" for p
  proof (rule ccontr)
    assume "R p \<noteq> []"
    then have "journal_path p" "j_file (journal_of js p) \<noteq> None" using assms(2) by (auto simp: stored_def)
    moreover have "p \<in> set (dkeys js)"
      using calculation(2) by (cases "dget js p") (auto simp: journal_of_def new_journal_def dict.set_keys)
    ultimately show False using that by (simp add: journal_paths_def)
  qed
  then have "part_of (set (journal_paths js)) R = R" by (auto simp: part_of_def fun_eq_iff)
  then have "rebuilt f K R st'" using st'(3) by simp
  then have "good R st'"
    using st'(2) assms(1) no_collision_mono [OF K] unfolding good_def rebuilt_def by blast
  then show ?thesis using st'(1) by (simp add: recover_def st0_def)
qed

section \<open>Appending\<close>

lemma append_ok:
  assumes "stored (ig_journals st) R" "normal_event e" "0 \<le> rc_monotonic clock"
    and "append_event bytes clock snap observed_at e st = (st', res)"
  obtains j' where "st' = st\<lparr>ig_journals := dset (route e) j' (ig_journals st)\<rparr>"
    "res = Inr (new_record clock e snap observed_at (R (route e)))"
    "stored (ig_journals st') (add_record (route e) (new_record clock e snap observed_at (R (route e))) R)"
proof -
  define r where "r = new_record clock e snap observed_at (R (route e))"
  have "recoverable (journal_of (ig_journals st) (route e)) (R (route e))" using assms(1) by (simp add: stored_def)
  from record_event_recoverable [OF this assms(2,3), of bytes snap observed_at]
  obtain j' where j': "record_event bytes clock e snap observed_at (journal_of (ig_journals st) (route e)) = Inr (j', r)"
    "well_formed j' (R (route e) @ [r])" by (auto simp: r_def)
  have "j_file j' \<noteq> None" using j'(1) by (auto simp: record_event_def Let_def)
  then have "stored (dset (route e) j' (ig_journals st)) (add_record (route e) r R)"
    unfolding add_record_def using j'(2) route_path by (intro stored_put [OF assms(1)]) (simp_all add: recoverable_def)
  then show thesis using that [of j'] assms(4) j'(1) by (simp add: append_event_def attempt_on_def r_def)
qed

lemma record_of_new [simp]: "sr_event (new_record clock e snap observed_at rs) = stored_event clock e (int (length (filter is_proposal rs)))"
  by (simp add: new_record_def)

text \<open>One event, already admitted: journaled and remembered.\<close>

lemma good_append:
  assumes g: "good R st" and run: "append_event bytes clock snap None e st = (st1, res)"
    and e: "normal_event e" "0 \<le> rc_monotonic clock" and f: "registry_ok f (ig_registry st)" "\<forall>d. holds_event R d \<longrightarrow> linked f (ig_registry st) d"
    and link: "linked f (ig_registry st) e"
    and new: "\<And>x. ev_id e = Some x \<Longrightarrow> x \<notin> ids_of R" "\<And>n m. arrival_key e = Some (n, m) \<Longrightarrow> m \<notin> arrivals_of R n"
      "\<And>x. event_operation e = Some x \<Longrightarrow> \<not> finished e \<or> \<not> is_effect e \<Longrightarrow> \<not> completed_in R x"
  shows "\<exists>r R'. res = Inr r \<and> sr_event r = stored_event clock e (int (length (filter is_proposal (R (route e))))) \<and> R' = add_record (route e) r R
    \<and> stored (ig_journals st1) R' \<and> good R' (remember_in (sr_event r) (route e) st1)
    \<and> ig_registry st1 = ig_registry st \<and> ig_indexes st1 = ig_indexes st \<and> (\<forall>d. holds_event R' d \<longrightarrow> linked f (ig_registry st) d)"
proof -
  define r where "r = new_record clock e snap None (R (route e))"
  define R' where "R' = add_record (route e) r R"
  obtain j' where st1: "st1 = st\<lparr>ig_journals := dset (route e) j' (ig_journals st)\<rparr>" "res = Inr r" "stored (ig_journals st1) R'"
    using append_ok [OF _ e run] g unfolding good_def r_def R'_def by blast
  have ev: "sr_event r = stored_event clock e (int (length (filter is_proposal (R (route e)))))" by (simp add: r_def)
  have "linked f (ig_registry st) (sr_event r)" using alike_linked [OF stored_alike link] ev by simp
  then have links: "\<forall>d. holds_event R' d \<longrightarrow> linked f (ig_registry st) d" using f(2) by (simp add: R'_def)
  moreover have "unique_key ev_id R'" unfolding R'_def
    using g new(1) ev by (intro unique_add) (auto simp: good_def ids_of_def)
  moreover have "unique_key arrival_key R'" unfolding R'_def
    using g new(2) ev by (intro unique_add) (auto simp: good_def arrivals_of_def arrival_key_def split: option.splits)
  moreover have "unique_key completion_key R'" unfolding R'_def
  proof (rule unique_add)
    fix x d
    assume "completion_key (sr_event r) = Some x" and d: "holds_event R d"
    then have "completion_key e = Some x" using ev by (simp add: completion_stored)
    then have "\<not> completed_in R x" using new(3) [of x] completionD [of e x] by blast
    then show "completion_key d \<noteq> Some x" using d by (auto simp: completed_in_def)
  qed (use g in \<open>simp add: good_def\<close>)
  moreover have "completions_known R'" unfolding R'_def
    by (rule completions_add [OF _ _ ev]) (use g new(3) in \<open>auto simp: good_def\<close>)
  moreover have "indexed R' (remember (route e) (sr_event r) (ig_indexes st))"
    unfolding R'_def using g by (intro indexed_remember) (simp add: good_def)
  ultimately have "good R' (remember_in (sr_event r) (route e) st1)"
    using g st1 f(1) unfolding good_def remember_in_def by auto
  then show ?thesis using st1 ev R'_def links by (intro exI [of _ r] exI [of _ R']) simp
qed

section \<open>Steps\<close>

text \<open>The effect of an event is journaled beside it.\<close>

lemma if_None_SomeD: "(if c then None else Some z) = Some d \<Longrightarrow> d = z"
  by (cases c) simp_all

lemma plain_shape:
  assumes "d = (plain_event k)\<lparr>ev_payload := q, ev_identity := i, ev_operation := ev_operation e, ev_item := ev_item e,
    ev_provenance := ev_provenance e, ev_epoch := ev_epoch e, ev_config := ev_config e\<rparr>"
  shows "ev_identity d = i" "ev_id d = None" "ev_arrival d = None" "ev_monotonic d = None" "ev_kind d = k" "ev_payload d = q"
    "ev_operation d = ev_operation e" "ev_epoch d = ev_epoch e"
  unfolding assms plain_event_def by simp_all

lemma effect_fields:
  assumes "effect_event e = Some d"
  shows "ev_identity d = ev_identity e" "ev_id d = None" "ev_arrival d = None" "ev_monotonic d = None" "ev_kind d = ''external_effect''"
    "normal_event d" "route d = route e" "arrival_key d = None"
proof -
  note d = if_None_SomeD [OF assms [unfolded effect_event_def]]
  show "ev_identity d = ev_identity e" "ev_id d = None" "ev_arrival d = None" "ev_monotonic d = None" "ev_kind d = ''external_effect''"
    by (rule plain_shape [OF d])+
  then show "normal_event d" "route d = route e" "arrival_key d = None"
    using same_route [of d e] by (simp_all add: normal_event_def only_def arrival_key_def split: option.split)
qed

lemma effect_linked: "effect_event e = Some d \<Longrightarrow> linked f r e \<Longrightarrow> linked f r d"
  using effect_fields [of e d] by (simp add: linked_def event_turn_def ends_turn_def)

text \<open>The effect belongs to the same operation, and finishes it unless it was only started.\<close>

lemma effect_operation:
  assumes "effect_event e = Some d"
  shows "event_operation d = event_operation e" "\<not> finished d \<Longrightarrow> ev_kind e \<in> set started_kinds" "is_effect d"
proof -
  note d = if_None_SomeD [OF assms [unfolded effect_event_def]]
  have "operation_key d = operation_key e"
    using plain_shape(1,8) [OF d] by (simp add: operation_key_def [abs_def] turn_of_event_def epoch_text_def)
  then show "event_operation d = event_operation e"
    using plain_shape(7) [OF d] effect_fields(7) [OF assms] by (simp add: event_operation_def)
  have pay: "ev_payload d = effect_payload e" by (rule plain_shape(6) [OF d])
  have "get (effect_payload e) ''lifecycle'' = PStr (if ev_kind e \<in> set started_kinds then ''attempted'' else ''completed'')"
    by (simp add: effect_payload_def Let_def split: prod.split)
  then show "\<not> finished d \<Longrightarrow> ev_kind e \<in> set started_kinds"
    by (auto simp: finished_def lifecycle_def pay optional_string_def split: if_splits)
  show "is_effect d" using effect_fields(5) [OF assms] by (simp add: is_effect_def)
qed

definition clocks_ok :: "append_env \<Rightarrow> bool" where
  "clocks_ok env \<longleftrightarrow> 0 \<le> rc_monotonic (ae_first env) \<and> 0 \<le> rc_monotonic (ae_second env)"

text \<open>What is needed of an admitted event before it is appended.\<close>

definition appendable :: "(string \<Rightarrow> turn_status) \<Rightarrow> registry \<Rightarrow> contents \<Rightarrow> trace_event \<Rightarrow> bool" where
  "appendable f r R e \<longleftrightarrow> normal_event e \<and> linked f r e \<and> tame e \<and> (\<forall>x. ev_id e = Some x \<longrightarrow> x \<notin> ids_of R)
     \<and> (\<forall>n m. arrival_key e = Some (n, m) \<longrightarrow> m \<notin> arrivals_of R n)
     \<and> (\<forall>x. event_operation e = Some x \<longrightarrow> \<not> completed_in R x)"

lemma appendableD:
  assumes "appendable f r R e"
  shows "normal_event e" "linked f r e" "tame e" "ev_id e = Some x \<Longrightarrow> x \<notin> ids_of R"
    "arrival_key e = Some (n, m) \<Longrightarrow> m \<notin> arrivals_of R n" "event_operation e = Some y \<Longrightarrow> \<not> completed_in R y"
  using assms unfolding appendable_def by blast+

lemma good_admitted:
  assumes g: "good R st" and run: "record_admitted env on_patch e st = (st', res)"
    and e: "appendable f (ig_registry st) R e" "clocks_ok env"
    and f: "registry_ok f (ig_registry st)" "\<forall>d. holds_event R d \<longrightarrow> linked f (ig_registry st) d"
  shows "\<exists>R' r. res = Inr r \<and> good R' st' \<and> r \<in> set (R' (route e)) \<and> completion_key (sr_event r) = completion_key e"
proof -
  note ready = appendableD [OF e(1)]
  define snap where "snap = Option.bind (snapshot_repository on_patch (ig_indexes st) e)
    (\<lambda>repo. ae_take env repo (last_snapshot (journal_of (ig_journals st) (route e))))"
  obtain st1 res1 where one: "append_event (ae_bytes env) (ae_first env) snap None e st = (st1, res1)" by fastforce
  obtain r R1 where r: "res1 = Inr r" "good R1 (remember_in (sr_event r) (route e) st1)" "ig_registry st1 = ig_registry st"
    "\<forall>d. holds_event R1 d \<longrightarrow> linked f (ig_registry st) d" "R1 = add_record (route e) r R"
    "completion_key (sr_event r) = completion_key e"
    using good_append [OF g one ready(1) _ f ready(2,4-6)] e(2) by (auto simp: clocks_ok_def completion_stored)
  define st2 where "st2 = remember_in (sr_event r) (route e) st1"
  have reg2: "ig_registry st2 = ig_registry st" by (simp add: st2_def remember_in_def r(3))
  show ?thesis
  proof (cases "effect_event e")
    case None
    then have "st' = st2" "res = Inr r" using run one r(1) by (simp_all add: record_admitted_def Let_def snap_def attempt_bind_def st2_def)
    then show ?thesis using r(2,5,6) st2_def by (auto simp: add_record_def)
  next
    case (Some d)
    note eff = effect_fields [OF Some] effect_operation [OF Some]
    obtain st3 res3 where three: "append_event (ae_bytes env) (ae_second env) None None d st2 = (st3, res3)" by fastforce
    have free: "\<not> completed_in R1 x" if "event_operation d = Some x" "\<not> finished d \<or> \<not> is_effect d" for x
    proof -
      have "ev_kind e \<in> set started_kinds" "event_operation e = Some x" using that eff(9-11) by auto
      moreover from this have "completion_key e = None"
        using ready(3) by (auto simp: completion_key_def tame_def event_operation_def)
      ultimately show ?thesis using ready(6) r(5,6) by simp
    qed
    obtain r' R3 where r': "res3 = Inr r'" "good R3 (remember_in (sr_event r') (route d) st3)" "R3 = add_record (route d) r' R1"
      using good_append [OF r(2) [folded st2_def] three eff(6) _ _ _ _ _ _ free, of f] e(2) f(1) r(4) reg2
        effect_linked [OF Some ready(2)] eff by (auto simp: clocks_ok_def)
    have "st' = remember_in (sr_event r') (route e) st3" "res = Inr r"
      using run one r(1) Some three r'(1) by (simp_all add: record_admitted_def Let_def snap_def attempt_bind_def st2_def)
    then show ?thesis using r'(2,3) r(5,6) eff(7) by (auto simp: add_record_def)
  qed
qed

lemma last_arrival_top: "indexed R ix \<Longrightarrow> 0 \<le> last_arrival ix n \<and> (\<forall>i\<in>arrivals_of R n. i \<le> last_arrival ix n)"
  using indexedD(6) [of R ix n] by (auto simp: arrival_ok_def last_arrival_def top_of_def split: option.splits)

lemma admitted_new:
  assumes ix: "indexed R ix" and a: "admitted ix e = Inr (Some e')" "ev_arrival e = None"
  shows "ev_id e' = Some x \<Longrightarrow> x \<notin> ids_of R" "arrival_key e' = Some (n, m) \<Longrightarrow> m \<notin> arrivals_of R n"
proof -
  note same = admitted_same [OF a]
  show "x \<notin> ids_of R" if "ev_id e' = Some x"
  proof -
    have "ev_id e = Some x" using that same(1) by (simp add: same_but_marks_def)
    then show ?thesis using same(3) indexedD(1) [OF ix] by (simp add: repeated_event_def)
  qed
  show "m \<notin> arrivals_of R n" if "arrival_key e' = Some (n, m)"
  proof -
    have "m = last_arrival ix n + 1" using that same(1,2) by (auto simp: arrival_key_def same_but_marks_def split: option.splits)
    then show ?thesis using last_arrival_top [OF ix, of n] by fastforce
  qed
qed

lemma at_epoch_fields [simp]:
  "ev_identity (at_epoch epoch e) = ev_identity e" "ev_kind (at_epoch epoch e) = ev_kind e" "ev_arrival (at_epoch epoch e) = ev_arrival e"
  "ev_monotonic (at_epoch epoch e) = ev_monotonic e" "ev_payload (at_epoch epoch e) = ev_payload e"
  "ev_operation (at_epoch epoch e) = ev_operation e"
  by (simp_all add: at_epoch_def split: option.split)

lemma at_epoch_tame: "tame (at_epoch epoch e) = tame e"
  by (simp add: tame_def is_effect_def finished_def started_only_def lifecycle_def)

lemma admitted_appendable:
  assumes ix: "indexed R ix" "completions_known R" and a: "admitted ix (at_epoch epoch e) = Inr (Some e')"
    and e: "plainly i e" "linked f r e" "tame e"
  shows "appendable f r R e'"
proof -
  have none: "ev_arrival (at_epoch epoch e) = None" using e(1) by (simp add: plainly_def)
  note same = admitted_same [OF a none]
  have "alike (at_epoch epoch e) e" by (simp add: alike_def event_outcome_def)
  then have link: "linked f r e'" using alike_linked [OF same_but_marks_alike [OF same(1)]] alike_linked e(2) by blast
  have "0 < m" if "ev_arrival e' = Some m" for m
    using that same(2) last_arrival_top [OF ix(1)] by (auto simp: add_nonneg_pos split: option.splits)
  moreover have "ev_monotonic e' = None"
    using same(1) e(1) by (simp add: same_but_marks_def plainly_def)
  ultimately have "normal_event e'" by (auto simp: normal_event_def only_def split: option.split)
  moreover have t: "tame (at_epoch epoch e)" using e(3) by (simp add: at_epoch_tame)
  moreover have "tame e'"
    using t same_operation [OF same(1)] same(1) by (simp add: tame_def started_only_def same_but_marks_def)
  ultimately show ?thesis
    using link admitted_new [OF ix(1) a none] admitted_unfinished [OF ix a none t] unfolding appendable_def by blast
qed

text \<open>What is admitted is journaled, whatever state the journals are in.\<close>

lemma admitted_journaled:
  assumes g: "good R st" and run: "record_once env on_patch (at_epoch epoch e) st = (st', res)" and "plainly i e" "clocks_ok env"
    and f: "registry_ok f (ig_registry st)" "\<forall>d. holds_event R d \<longrightarrow> linked f (ig_registry st) d" "linked f (ig_registry st) e" "tame e"
    and a: "admitted (ig_indexes st) (at_epoch epoch e) = Inr (Some e')"
  shows "\<exists>R' r. res = Inr (Some r) \<and> good R' st' \<and> r \<in> set (R' (route e')) \<and> completion_key (sr_event r) = completion_key e'"
proof -
  have "indexed R (ig_indexes st)" "completions_known R" using g by (simp_all add: good_def)
  from admitted_appendable [OF this a assms(3) f(3,4)] have ready: "appendable f (ig_registry st) R e'" .
  obtain st1 res1 where one: "record_admitted env on_patch e' st = (st1, res1)" by fastforce
  from good_admitted [OF g one ready assms(4) f(1,2)] obtain R' r where r: "res1 = Inr r" "good R' st1"
    "r \<in> set (R' (route e'))" "completion_key (sr_event r) = completion_key e'" by blast
  then have "st' = st1" "res = Inr (Some r)" using run a one by (simp_all add: record_once_def attempt_bind_def)
  then show ?thesis using r by blast
qed

lemma good_record_once:
  assumes g: "good R st" and run: "record_once env on_patch (at_epoch epoch e) st = (st', res)" and "plainly i e" "clocks_ok env"
    and f: "registry_ok f (ig_registry st)" "\<forall>d. holds_event R d \<longrightarrow> linked f (ig_registry st) d" "linked f (ig_registry st) e" "tame e"
  shows "\<exists>R'. good R' st'"
proof (cases "\<exists>e'. admitted (ig_indexes st) (at_epoch epoch e) = Inr (Some e')")
  case True
  then obtain e' where "admitted (ig_indexes st) (at_epoch epoch e) = Inr (Some e')" by (elim exE)
  from admitted_journaled [OF assms this] show ?thesis by (elim exE conjE) (rule exI)
next
  case False
  then have "st' = st" using run [unfolded record_once_def] by (simp split: sum.splits option.splits)
  then show ?thesis using g by blast
qed

text \<open>A registry in which every link is kept is as good.\<close>

lemma good_registry:
  assumes "good R st" "\<And>e. linked f (ig_registry st) e \<Longrightarrow> linked f' r e" "registry_ok f' r" "no_collision (turn_keys r)"
    and "\<forall>d. holds_event R d \<longrightarrow> linked f (ig_registry st) d"
  shows "good R (st\<lparr>ig_registry := r\<rparr>)"
  using assms by (auto simp: good_def)

end
