(* ===== verification/Ingestion_Claims.thy ===== *)
theory Ingestion_Claims
  imports Ingestion_World
begin

text \<open>
  Claims on ingestion: in every state the process can reach, through notifications, crashes in the
  middle of a write, damaged or lost sidecars and restarts, each event is journaled once, arrival
  numbers are never given twice, and a restart succeeds and resumes where the process was.
\<close>

section \<open>What can happen\<close>

text \<open>
  A notification is ingested; the process dies after a line is written, with or without its sidecar;
  a journal is repaired, torn or loses its sidecar while the process is down; it restarts. That the
  registry gives two turns two identifiers is required of the names seen, the identifiers being hashes.
\<close>

inductive ingest_step :: "(pyval \<Rightarrow> nat) \<Rightarrow> ingestor \<Rightarrow> ingestor \<Rightarrow> bool" for bytes where
  ingested: "ingest env on_patch rules method raw epoch st = (st', res) \<Longrightarrow> clocks_ok env \<Longrightarrow>
    no_collision (turn_keys (ig_registry st')) \<Longrightarrow> ingest_step bytes st st'"
| crashed: "normalize (ig_registry st) rules method raw = (reg, Inr e) \<Longrightarrow> no_collision (turn_keys reg) \<Longrightarrow>
    admitted (ig_indexes st) (at_epoch epoch e) = Inr (Some e') \<Longrightarrow> 0 \<le> rc_monotonic clock \<Longrightarrow>
    record_event bytes clock e' snap None (journal_of (ig_journals st) (route e')) = Inr (j', r) \<Longrightarrow>
    sidecar = j_state j' \<or> sidecar = j_state (journal_of (ig_journals st) (route e')) \<Longrightarrow>
    recover (dset (route e') (j'\<lparr>j_state := sidecar\<rparr>) (ig_journals st)) = Inr st' \<Longrightarrow> ingest_step bytes st st'"
| damaged: "journal_step bytes (journal_of (ig_journals st) path, rs) (j', rs) \<Longrightarrow>
    recover (dset path j' (ig_journals st)) = Inr st' \<Longrightarrow> ingest_step bytes st st'"
| restarted: "recover (ig_journals st) = Inr st' \<Longrightarrow> ingest_step bytes st st'"

inductive ingest_reachable :: "(pyval \<Rightarrow> nat) \<Rightarrow> ingestor \<Rightarrow> bool" for bytes where
  begin_empty: "ingest_reachable bytes fresh_ingestor"
| step_on: "ingest_reachable bytes st \<Longrightarrow> ingest_step bytes st st' \<Longrightarrow> ingest_reachable bytes st'"

text \<open>The complete records of a journal, as its reader gives them.\<close>

definition journaled :: "ingestor \<Rightarrow> string \<Rightarrow> step_record list" where
  "journaled st path =
     (case load_journal False False (journal_lines (journal_of (ig_journals st) path)) of Inr (rs, _) \<Rightarrow> rs | Inl _ \<Rightarrow> [])"

section \<open>The invariant is kept\<close>

lemma damage_recoverable:
  assumes "journal_step bytes (j, rs) (j', rs)" "\<And>v. 0 < bytes v" "recoverable j R"
  shows "recoverable j' R"
  using assms(1)
proof (cases rule: journal_step.cases)
  case (repaired c f)
  then show ?thesis using recoverable_counts [OF assms(3)] ready_recoverable by auto
next
  case (torn c f t)
  then show ?thesis using recoverable_counts [OF assms(3)] ready_tear by auto
next
  case lost
  then show ?thesis using assms(3) by (auto simp: recoverable_def well_formed_def sidecar_ok_def)
qed auto

text \<open>One notification: its events are normalized and linked, and what is admitted is journaled.\<close>

lemma ingest_normalized:
  assumes g: "good R st" and n: "normalize (ig_registry st) rules method raw = (reg, Inr e)" and apart: "no_collision (turn_keys reg)"
  obtains f i where "good R (st\<lparr>ig_registry := reg\<rparr>)" "registry_ok f reg" "\<forall>d. holds_event R d \<longrightarrow> linked f reg d"
    "linked f reg e" "plainly i e" "tame e"
proof -
  obtain f0 where f0: "registry_ok f0 (ig_registry st)" "\<forall>d. holds_event R d \<longrightarrow> linked f0 (ig_registry st) d"
    using g by (auto simp: good_def)
  obtain f i where f: "keeps_links f0 (ig_registry st) f reg" "linked f reg e" "plainly i e"
    using normalize_keeps [OF f0(1) n apart] by blast
  have "good R (st\<lparr>ig_registry := reg\<rparr>)"
    using f apart f0(2) by (intro good_registry [OF g, of f0 f]) (auto simp: keeps_links_def)
  then show thesis using that f f0(2) normalize_tame [OF n] by (auto simp: keeps_links_def)
qed

lemma good_ingest:
  assumes g: "good R st" and run: "ingest env on_patch rules method raw epoch st = (st', res)" and "clocks_ok env"
    and apart: "no_collision (turn_keys (ig_registry st'))"
  shows "\<exists>R'. good R' st'"
proof -
  obtain reg x where n: "normalize (ig_registry st) rules method raw = (reg, x)" by fastforce
  obtain f where f: "registry_ok f (ig_registry st)" "\<forall>d. holds_event R d \<longrightarrow> linked f (ig_registry st) d"
    using g by (auto simp: good_def)
  have reg: "ig_registry st' = reg"
    using run n by (auto simp: ingest_def record_once_def record_admitted_def append_event_def attempt_bind_def attempt_on_def
        remember_in_def Let_def split: sum.splits option.splits prod.splits)
  obtain f' where f': "keeps_links f (ig_registry st) f' reg" "\<forall>e. x = Inr e \<longrightarrow> linked f' reg e \<and> (\<exists>i. plainly i e)"
    using normalize_keeps [OF f(1) n] apart reg by blast
  have g': "good R (st\<lparr>ig_registry := reg\<rparr>)"
    using f' apart reg f(2) by (intro good_registry [OF g, of f f']) (auto simp: keeps_links_def)
  show ?thesis
  proof (cases x)
    case (Inl err)
    then show ?thesis using run n g' by (auto simp: ingest_def)
  next
    case (Inr e)
    then have run': "record_once env on_patch (at_epoch epoch e) (st\<lparr>ig_registry := reg\<rparr>) = (st', res)"
      using run n by (simp add: ingest_def)
    obtain i where "plainly i e" "linked f' reg e" using f'(2) Inr by blast
    then show ?thesis using f' f(2)
      using normalize_tame n Inr by (intro good_record_once [OF g' run' _ assms(3), of i f']) (auto simp: keeps_links_def)
  qed
qed

lemma good_crash:
  assumes g: "good R st" and n: "normalize (ig_registry st) rules method raw = (reg, Inr e)" and apart: "no_collision (turn_keys reg)"
    and a: "admitted (ig_indexes st) (at_epoch epoch e) = Inr (Some e')" and clock: "0 \<le> rc_monotonic clock" and bytes: "\<And>v. 0 < bytes v"
    and rec: "record_event bytes clock e' snap None (journal_of (ig_journals st) (route e')) = Inr (j', r)"
    and side: "sidecar = j_state j' \<or> sidecar = j_state (journal_of (ig_journals st) (route e'))"
    and st': "recover (dset (route e') (j'\<lparr>j_state := sidecar\<rparr>) (ig_journals st)) = Inr st'"
  shows "\<exists>R'. good R' st'"
proof -
  define j where "j = journal_of (ig_journals st) (route e')"
  obtain f where f: "registry_ok f (ig_registry st)" "\<forall>d. holds_event R d \<longrightarrow> linked f (ig_registry st) d"
    using g by (auto simp: good_def)
  obtain f' i where f': "keeps_links f (ig_registry st) f' reg" "linked f' reg e" "plainly i e"
    using normalize_keeps [OF f(1) n apart] by blast
  define st0 where "st0 = st\<lparr>ig_registry := reg\<rparr>"
  have g0: "good R st0" unfolding st0_def
    using f' apart f(2) by (intro good_registry [OF g, of f f']) (auto simp: keeps_links_def)
  have ready: "appendable f' reg R e'"
    using admitted_appendable [OF _ _ a f'(3,2) normalize_tame [OF n]] g by (simp add: good_def)
  have app: "append_event bytes clock snap None e' st0 = (st0\<lparr>ig_journals := dset (route e') j' (ig_journals st)\<rparr>, Inr r)"
    using rec by (simp add: append_event_def attempt_on_def st0_def)
  obtain R' where R': "R' = add_record (route e') r R" "good R' (remember_in (sr_event r) (route e') (st0\<lparr>ig_journals := dset (route e') j' (ig_journals st)\<rparr>))"
    using good_append [OF g0 app appendableD(1) [OF ready] clock, of f'] appendableD(2,4-6) [OF ready] f' f(2)
    by (auto simp: keeps_links_def st0_def)
  have old: "recoverable j (R (route e'))" using g by (simp add: good_def stored_def j_def)
  have new: "r = new_record clock e' snap None (R (route e'))" "well_formed j' (R (route e') @ [r])"
    using record_event_recoverable [OF old _ clock, of e' bytes snap None] rec ready by (auto simp: appendable_def j_def)
  have "recoverable (j'\<lparr>j_state := sidecar\<rparr>) (R (route e') @ [r])"
  proof (cases "sidecar = j_state j'")
    case True
    then show ?thesis using new(2) by (simp add: recoverable_def)
  next
    case False
    obtain g0 where g0: "current_counts j = Inr (recount (R (route e')), g0)" "Journal_Claims.ready (j_state j) g0 (R (route e'))"
      using recoverable_counts [OF old] by blast
    have "well_formed (j'\<lparr>j_state := j_state j\<rparr>) (R (route e') @ [r])"
      using new(2) ready_sidecar [OF g0(2) bytes] record_event_file [OF rec [folded j_def] g0(1)] by (auto simp: well_formed_def)
    then show ?thesis using False side by (simp add: recoverable_def j_def)
  qed
  moreover have "j_file j' \<noteq> None" using rec by (auto simp: record_event_def Let_def)
  ultimately have "stored (dset (route e') (j'\<lparr>j_state := sidecar\<rparr>) (ig_journals st)) R'"
    unfolding R'(1) add_record_def using g route_path [of e'] by (intro stored_put) (simp_all add: good_def)
  from recover_good [OF R'(2) this] show ?thesis using st' by auto
qed

lemma step_good:
  assumes "ingest_step bytes st st'" "\<And>v. 0 < bytes v" "good R st"
  shows "\<exists>R'. good R' st'"
  using assms(1)
proof (cases rule: ingest_step.cases)
  case (ingested env on_patch rules m n epoch res)
  then show ?thesis using good_ingest [OF assms(3)] by blast
next
  case (crashed rules m n reg e epoch e' clock snap j' r sidecar)
  then show ?thesis using good_crash [OF assms(3) crashed(1-4) assms(2) crashed(5-7)] by blast
next
  case (damaged path rs j')
  have old: "stored (ig_journals st) R" using assms(3) by (simp add: good_def)
  then have "recoverable (journal_of (ig_journals st) path) (R path)" by (simp add: stored_def)
  from damage_recoverable [OF damaged(1) assms(2) this] have "recoverable j' (R path)" .
  moreover have "R path \<noteq> [] \<longrightarrow> journal_path path \<and> j_file j' \<noteq> None"
    using old damaged(1) by (auto simp: stored_def elim!: journal_step.cases)
  ultimately have "stored (dset path j' (ig_journals st)) (R(path := R path))" by (intro stored_put [OF old])
  then have "stored (dset path j' (ig_journals st)) R" by simp
  from recover_good [OF assms(3) this] show ?thesis using damaged(2) by auto
next
  case restarted
  then show ?thesis using recover_good [OF assms(3), of "ig_journals st"] assms(3) by (auto simp: good_def)
qed

lemma reachable_good:
  assumes "ingest_reachable bytes st" "\<And>v. 0 < bytes v"
  shows "\<exists>R. good R st"
  using assms(1)
proof (induction rule: ingest_reachable.induct)
  case begin_empty
  show ?case using good_fresh by blast
next
  case (step_on st st')
  then show ?case using step_good [OF step_on(2) assms(2)] by blast
qed

lemma journaled_contents: "stored (ig_journals st) R \<Longrightarrow> journaled st = R"
proof
  fix path
  assume "stored (ig_journals st) R"
  then have "recoverable (journal_of (ig_journals st) path) (R path)" by (simp add: stored_def)
  from recoverable_load [OF this] show "journaled st path = R path" by (auto simp: journaled_def)
qed

lemma reachable_journaled:
  assumes "ingest_reachable bytes st" "\<And>v. 0 < bytes v"
  shows "good (journaled st) st"
proof -
  obtain R where R: "good R st" using reachable_good [OF assms] by blast
  then have "journaled st = R" by (intro journaled_contents) (simp add: good_def)
  then show ?thesis using R by simp
qed

section \<open>Claims\<close>

text \<open>C4: Over any history of notifications, crashes in the middle of a write, damage and restarts no two
  journaled records carry the same event identifier, in whatever journals they are, and none of the
  arrival numbers of a connection is journaled twice.\<close>

theorem events_journaled_once:
  assumes "ingest_reachable bytes st" and "\<And>v. 0 < bytes v"
    and "i < length (journaled st p)" "j < length (journaled st q)"
    and "(\<exists>x. ev_id (sr_event (journaled st p ! i)) = Some x \<and> ev_id (sr_event (journaled st q ! j)) = Some x)
      \<or> (\<exists>x. arrival_key (sr_event (journaled st p ! i)) = Some x \<and> arrival_key (sr_event (journaled st q ! j)) = Some x)"
  shows "p = q \<and> i = j"
proof -
  have "unique_key ev_id (journaled st)" "unique_key arrival_key (journaled st)"
    using reachable_journaled [OF assms(1,2)] by (simp_all add: good_def)
  then show ?thesis using assms(3-5) unfolding unique_key_def by blast
qed




text \<open>What an appended event leaves in the index of operations.\<close>

lemma stored_missing:
  assumes "dget (ev_payload e) k = None" "k \<noteq> ''redacted''" "k \<noteq> ''proposal_number''"
  shows "get (ev_payload (stored_event clock e n)) k = PNone"
proof -
  have "get (dict_or_empty (fst (redact (PDict (ev_payload e))))) k = PNone"
    using get_mapped [of "\<lambda>v. fst (redact v)" "ev_payload e" k] assms(1)
    by (simp add: dict_or_empty_def Let_def o_def)
  moreover have "get (dset j v d) k = get d k" if "k \<noteq> j" for j v d using that by (simp add: get_def)
  ultimately show ?thesis using assms(2,3)
    by (auto simp: stored_event_def stored_payload_def Let_def split: prod.splits option.splits)
qed

lemma append_record:
  assumes "append_event bytes clock snap observed_at e st = (st', Inr r)"
  shows "\<exists>n. sr_event r = stored_event clock e n"
  using assms by (auto simp: append_event_def attempt_on_def record_event_def Let_def split: rbind_split sum.splits prod.splits)

lemma effect_entry:
  assumes f: "effect_event e = Some f" "ev_operation e = Some op" "ev_kind e \<in> set completed_kinds"
    and r: "sr_event (r :: step_record) = stored_event clock f n"
  shows "dget (ix_operations (remember (route e) (sr_event r) ix)) (operation_key e (route e) op) = Some (''completed'', None)"
proof -
  note d = if_None_SomeD [OF f(1) [unfolded effect_event_def]]
  have pay: "ev_payload f = effect_payload e" by (rule plain_shape(6) [OF d])
  have op: "ev_operation (sr_event r) = Some op" using plain_shape(7) [OF d] f(2) by (simp add: r)
  have "ev_kind e \<notin> set started_kinds" using f(3) by (auto simp: completed_kinds_def started_kinds_def)
  then have "finished f" using effect_operation(2) [OF f(1)] by blast
  then have "lifecycle (sr_event r) = Some ''completed''"
    using finished_stored [of clock f n] by (simp add: finished_def r)
  moreover have "dget (effect_payload e) ''status'' = None" by (simp add: effect_payload_def dget_def Let_def split: prod.split)
  then have "status (sr_event r) = None"
    using stored_missing [of f "''status''" clock n] by (simp add: status_def optional_string_def pay r)
  moreover have "operation_key (sr_event r) = operation_key e"
    using plain_shape(1,8) [OF d] by (simp add: operation_key_def [abs_def] turn_of_event_def epoch_text_def r)
  moreover have "fst (operation_key e (route e) op) = route e" by (simp add: operation_key_def)
  ultimately show ?thesis using op by (simp add: remember_operations operation_entry_def)
qed

lemma recorded_effect:
  assumes "record_once env on_patch e st = (st', Inr (Some r))" "ev_arrival e = None"
    and "ev_kind e \<in> set completed_kinds" "get (ev_payload e) ''reversibility_class'' = PStr ''C''" "ev_operation e = Some op"
  shows "dget (ix_operations (ig_indexes st')) (operation_key e (route e) op) = Some (''completed'', None)"
proof -
  obtain e' where e': "admitted (ig_indexes st) e = Inr (Some e')" "record_admitted env on_patch e' st = (st', Inr r)"
    using assms(1) by (auto simp: record_once_def attempt_bind_def split: sum.splits option.splits prod.splits)
  note same = admitted_same(1) [OF e'(1) assms(2)]
  have "''reversibility_class'' \<notin> set mark_keys" by (simp add: mark_keys_def)
  then have cls: "get (ev_payload e') ''reversibility_class'' = PStr ''C''" using same assms(4) by (simp add: same_but_marks_def)
  have kind: "ev_kind e' \<in> set completed_kinds" "ev_operation e' = Some op" using same assms(3,5) by (simp_all add: same_but_marks_def)
  obtain f where f: "effect_event e' = Some f" using kind(1) cls by (simp add: effect_event_def)
  obtain st3 clock r' st2 where r': "append_event (ae_bytes env) clock None None f st2 = (st3, Inr r')"
    "st' = remember_in (sr_event r') (route e') st3"
    using e'(2) f by (auto simp: record_admitted_def attempt_bind_def Let_def split: sum.splits prod.splits)
  obtain n where n: "sr_event r' = stored_event clock f n" using append_record [OF r'(1)] by blast
  then have "dget (ix_operations (ig_indexes st')) (operation_key e' (route e') op) = Some (''completed'', None)"
    using effect_entry [OF f kind(2,1) n] r'(2) by (simp add: remember_in_def)
  moreover have "route e' = route e" using same by (intro same_route) (simp add: same_but_marks_def)
  moreover have "operation_key e' = operation_key e"
    using same by (simp add: operation_key_def [abs_def] turn_of_event_def epoch_text_def same_but_marks_def)
  ultimately show ?thesis by simp
qed

text \<open>C32: The effect record journaled beside a completion hides its outcome: when the completion of an irreversible
  command or tool call with status \<open>s\<close> is reported again under another event identifier, with the same
  status, the ingestor raises that the operation changed its outcome from \<open>None\<close> to \<open>s\<close>, where it drops
  the repetition of any other completion.\<close>

theorem repeated_completion_refused:
  assumes "record_once env on_patch e st = (st', Inr (Some r))" "ev_arrival e = None"
    and "ev_kind e \<in> set completed_kinds" "get (ev_payload e) ''reversibility_class'' = PStr ''C''" "ev_operation e = Some op"
    and "ev_identity d = ev_identity e" "ev_epoch d = ev_epoch e" "ev_operation d = Some op" "ev_kind d = ev_kind e"
    and "lifecycle d = Some ''completed''" "status d = Some s" "\<not> repeated_event (ig_indexes st') d"
  shows "record_once env' on_patch' d st' = (st', Inl (changed_outcome op None (Some s)))"
proof -
  have key: "operation_key d (route d) op = operation_key e (route e) op"
    using same_route [OF assms(6)] assms(6,7) by (simp add: operation_key_def turn_of_event_def epoch_text_def)
  have "ev_kind d \<noteq> ''turn_started''" using assms(3,9) by (auto simp: completed_kinds_def)
  then have "admitted (ig_indexes st') d = rbind (reconciled (ig_indexes st') d) (\<lambda>x. case x of None \<Rightarrow> Inr None
      | Some e1 \<Rightarrow> rbind (sequenced (ig_indexes st') (time_checked (ig_indexes st') e1)) (\<lambda>e2. Inr (Some e2)))"
    using assms(12) by (simp add: admitted_def restarted_turn_def)
  moreover have "reconciled (ig_indexes st') d = Inl (changed_outcome op None (Some s))"
    unfolding reconciled_def assms(8) option.case Let_def key recorded_effect [OF assms(1-5)] settled_def
    using assms(10,11) by simp
  ultimately show ?thesis by (simp add: record_once_def)
qed

text \<open>A notification outside every thread, in the first connection.\<close>

definition sample_env :: append_env where
  "sample_env = \<lparr>ae_bytes = \<lambda>_. 1, ae_first = \<lparr>rc_wall = Fin 0, rc_monotonic = 0, rc_clock = ''c''\<rparr>,
     ae_second = \<lparr>rc_wall = Fin 0, rc_monotonic = 0, rc_clock = ''c''\<rparr>, ae_take = \<lambda>_ _. None\<rparr>"

definition sample_ingestor :: ingestor where
  "sample_ingestor = fst (ingest sample_env False [] ''error'' [(''params'', PDict [])] (Some 1) fresh_ingestor)"

lemma sample_registry: "ig_registry sample_ingestor = empty_registry"
  by code_simp

lemma sample_journaled: "length (journaled sample_ingestor ''app-server-unscoped.jsonl'') = 1
    \<and> arrival_key (sr_event (journaled sample_ingestor ''app-server-unscoped.jsonl'' ! 0)) = Some (1, 1)"
  by code_simp

lemma notified_reachable: "ingest_reachable (\<lambda>_. 1) sample_ingestor"
proof -
  have "ingest sample_env False [] ''error'' [(''params'', PDict [])] (Some 1) fresh_ingestor
      = (sample_ingestor, snd (ingest sample_env False [] ''error'' [(''params'', PDict [])] (Some 1) fresh_ingestor))"
    by (simp add: sample_ingestor_def)
  moreover have "clocks_ok sample_env" by code_simp
  moreover have "no_collision (turn_keys (ig_registry sample_ingestor))"
    by (simp add: sample_registry turn_keys_def empty_registry_def no_collision_def)
  ultimately have "ingest_step (\<lambda>_. 1) fresh_ingestor sample_ingestor" by (rule ingested)
  then show ?thesis using begin_empty step_on by blast
qed

theorem events_journaled_once_witness:
  "\<exists>st p i. i < length (journaled st p) \<and> (\<forall>j < length (journaled st p).
     arrival_key (sr_event (journaled st p ! j)) = Some (1, 1) \<longrightarrow> i = j)"
proof -
  let ?p = "''app-server-unscoped.jsonl''"
  have "0 = j" if "j < length (journaled sample_ingestor ?p)" "arrival_key (sr_event (journaled sample_ingestor ?p ! j)) = Some (1, 1)" for j
    using events_journaled_once [OF notified_reachable, of 0 ?p j ?p] that sample_journaled by simp
  then show ?thesis using sample_journaled by (intro exI [of _ sample_ingestor] exI [of _ ?p] exI [of _ 0]) simp
qed


text \<open>A completed message outside every thread.\<close>

definition sample_params :: payload where
  "sample_params = [(''item'', PDict [(''id'', PStr ''a''), (''type'', PStr ''agentMessage'')])]"

definition sample_item :: trace_event where
  "sample_item = (notified ''item/completed'' sample_params ''agent_message'' [(''lifecycle'', PStr ''completed'')] agent_only)
     \<lparr>ev_at := None, ev_operation := Some ''a'', ev_item := Some ''a''\<rparr>"

lemma sample_item_event: "item_event ''item/completed'' sample_params [] agent_only = Inr sample_item"
  by (simp add: item_event_def seconds_def sample_params_def get_def dget_def object_of_def required_string_def optional_string_def
      normalize_item_def known_fields_def milliseconds_def sample_item_def dset_def map_filter_simps)

lemma sample_normalized:
  "normalize empty_registry [] ''item/completed'' [(''params'', PDict sample_params)] = (empty_registry, Inr sample_item)"
proof -
  have "get [(''params'', PDict sample_params)] ''params'' = PDict sample_params" by (simp add: get_def dget_def)
  moreover have "optional_string (get sample_params ''threadId'') = None" "get sample_params ''turn'' = PNone" "optional_string (get sample_params ''turnId'') = None"
    by code_simp+
  moreover have "other_event ''item/completed'' sample_params [] agent_only = Inr sample_item"
    by (simp add: other_event_def sample_item_event)
  ultimately show ?thesis by (simp add: normalize_def identity_for_def attempt_bind_def)
qed

lemma sample_admitted: "\<exists>e'. admitted no_indexes (at_epoch (Some 1) sample_item) = Inr (Some e') \<and> same_but_marks e' (at_epoch (Some 1) sample_item)"
proof -
  have "\<exists>e'. admitted no_indexes (at_epoch (Some 1) sample_item) = Inr (Some e')"
    by (simp add: admitted_def repeated_event_def restarted_turn_def reconciled_def settled_def no_indexes_def sample_item_def
        sequenced_def time_checked_def at_epoch_def notified_def plain_event_def dget_def with_entry_def Let_def lifecycle_def
        optional_string_def get_def split: option.split)
  then show ?thesis using admitted_same(1) [of no_indexes "at_epoch (Some 1) sample_item"] 
    by (auto simp: sample_item_def notified_def plain_event_def)
qed


definition sample_done :: ingestor where
  "sample_done = fst (ingest sample_env False [] ''item/completed'' [(''params'', PDict sample_params)] (Some 1) fresh_ingestor)"

lemma empty_apart: "no_collision (turn_keys empty_registry)"
  by (simp add: turn_keys_def empty_registry_def no_collision_def)

lemma fresh_parts: "ig_registry fresh_ingestor = empty_registry" "ig_indexes fresh_ingestor = no_indexes"
  by (simp_all add: fresh_ingestor_def)

lemma sample_fresh:
  "normalize (ig_registry fresh_ingestor) [] ''item/completed'' [(''params'', PDict sample_params)] = (empty_registry, Inr sample_item)"
  using sample_normalized by (simp add: fresh_parts)

lemma sample_clocks: "clocks_ok sample_env"
  by code_simp

lemma sample_done_ingested:
  obtains r where "ingest sample_env False [] ''item/completed'' [(''params'', PDict sample_params)] (Some 1) fresh_ingestor
    = (sample_done, Inr (Some r))" "\<exists>p. r \<in> set (journaled sample_done p)" "completion_key (sr_event r) \<noteq> None" "ig_registry sample_done = empty_registry"
proof -
  obtain e' where e': "admitted no_indexes (at_epoch (Some 1) sample_item) = Inr (Some e')" "same_but_marks e' (at_epoch (Some 1) sample_item)"
    using sample_admitted by blast
  obtain f i where f: "good (\<lambda>_. []) (fresh_ingestor\<lparr>ig_registry := empty_registry\<rparr>)" "registry_ok f empty_registry"
    "\<forall>d. holds_event (\<lambda>_. []) d \<longrightarrow> linked f empty_registry d" "linked f empty_registry sample_item" "plainly i sample_item" "tame sample_item"
    by (rule ingest_normalized [OF good_fresh sample_fresh empty_apart]) blast
  obtain st' res where run: "record_once sample_env False (at_epoch (Some 1) sample_item) (fresh_ingestor\<lparr>ig_registry := empty_registry\<rparr>) = (st', res)"
    by fastforce
  from admitted_journaled [OF f(1) run f(5) sample_clocks, of f e'] f(2-4,6) e'(1) obtain R' r where
    r: "res = Inr (Some r)" "good R' st'" "r \<in> set (R' (route e'))" "completion_key (sr_event r) = completion_key e'"
    by (auto simp: fresh_parts)
  have go: "ingest sample_env False [] ''item/completed'' [(''params'', PDict sample_params)] (Some 1) fresh_ingestor = (st', Inr (Some r))"
    using run r(1) sample_normalized by (simp add: ingest_def fresh_parts)
  then have ran: "st' = sample_done" by (simp add: sample_done_def)
  have "journaled st' = R'" using r(2) by (intro journaled_contents) (simp add: good_def)
  moreover have "completion_key e' = completion_key (at_epoch (Some 1) sample_item)"
    using same_operation [OF e'(2)] by (simp add: completion_key_def)
  moreover have "completion_key (at_epoch (Some 1) sample_item) \<noteq> None"
    by (simp add: completion_key_def is_effect_def finished_def lifecycle_def sample_item_def notified_def plain_event_def get_def dget_def
        optional_string_def event_operation_def)
  moreover have "ig_registry st' = empty_registry"
    using run by (auto simp: record_once_def record_admitted_def append_event_def attempt_bind_def attempt_on_def
        remember_in_def Let_def split: sum.splits option.splits prod.splits)
  ultimately show thesis using that go r ran by metis
qed


lemma sample_done_reachable: "ingest_reachable (\<lambda>_. 1) sample_done"
proof -
  obtain r where r: "ingest sample_env False [] ''item/completed'' [(''params'', PDict sample_params)] (Some 1) fresh_ingestor
      = (sample_done, Inr (Some r))" "ig_registry sample_done = empty_registry"
    by (rule sample_done_ingested)
  have "no_collision (turn_keys (ig_registry sample_done))" by (simp add: r(2) empty_apart)
  then show ?thesis using ingested [OF r(1) sample_clocks] begin_empty step_on by blast
qed



text \<open>An irreversible command that completed.\<close>

definition sample_command :: trace_event where
  "sample_command = (plain_event ''command_result'')\<lparr>ev_identity := Some agent_only, ev_operation := Some ''op'', ev_payload :=
     [(''lifecycle'', PStr ''completed''), (''status'', PStr ''completed''), (''reversibility_class'', PStr ''C'')]\<rparr>"

lemma sample_command_entries:
  "get (ev_payload sample_command) ''lifecycle'' = PStr ''completed''" "get (ev_payload sample_command) ''status'' = PStr ''completed''"
  "get (ev_payload sample_command) ''reversibility_class'' = PStr ''C''" "ev_operation sample_command = Some ''op''"
  "ev_kind sample_command = ''command_result''" "ev_arrival sample_command = None" "ev_id sample_command = None"
  "ev_identity sample_command = Some agent_only" "ev_monotonic sample_command = None" "ev_epoch sample_command = None"
  by code_simp+

lemma sample_command_recorded: "\<exists>st' r. record_once sample_env False sample_command fresh_ingestor = (st', Inr (Some r))"
proof -
  have epoch: "at_epoch None sample_command = sample_command" by (simp add: at_epoch_def)
  have "dget (ix_operations no_indexes) k = None" "dget (ix_last_at no_indexes) k' = None" "ix_seen no_indexes = {}" for k k'
    by (simp_all add: no_indexes_def dget_def)
  then have a: "\<exists>e'. admitted no_indexes sample_command = Inr (Some e')"
    using sample_command_entries
    by (simp add: admitted_def repeated_event_def restarted_turn_def reconciled_def settled_def sequenced_def time_checked_def
        with_entry_def Let_def lifecycle_def optional_string_def split: option.split)
  then obtain e' where e': "admitted (ig_indexes fresh_ingestor) (at_epoch None sample_command) = Inr (Some e')"
    by (auto simp: fresh_parts epoch)
  have tame: "tame sample_command"
    by (simp add: tame_def is_effect_def finished_def lifecycle_def sample_command_entries optional_string_def) code_simp
  have link: "linked f (ig_registry fresh_ingestor) sample_command" for f
    by (simp add: linked_def event_turn_def sample_command_entries agent_only_def names_ok_def named_turn_def named_thread_def)
  have plain: "plainly agent_only sample_command" by (simp add: plainly_def sample_command_entries)
  obtain f where f: "registry_ok f (ig_registry fresh_ingestor)" using good_fresh by (auto simp: good_def)
  obtain st' res where run: "record_once sample_env False (at_epoch None sample_command) fresh_ingestor = (st', res)" by fastforce
  from admitted_journaled [OF good_fresh run plain sample_clocks f _ link tame e'] show ?thesis
    using run by (auto simp: epoch holds_event_def)
qed

theorem repeated_completion_refused_witness:
  "\<exists>st'. record_once sample_env False sample_command st' = (st', Inl (changed_outcome ''op'' None (Some ''completed'')))"
proof -
  obtain st' r where r: "record_once sample_env False sample_command fresh_ingestor = (st', Inr (Some r))"
    using sample_command_recorded by blast
  have "record_once sample_env False sample_command st' = (st', Inl (changed_outcome ''op'' None (Some ''completed'')))"
    using sample_command_entries
    by (intro repeated_completion_refused [OF r]) (simp_all add: completed_kinds_def lifecycle_def status_def repeated_event_def optional_string_def)
  then show ?thesis by blast
qed

end
