(* ===== verification/Review_Executor.thy ===== *)
theory Review_Executor
  imports Review_Scheduler Budget
begin

text \<open>
  Model of \<open>src/spotter/review_executor.py\<close>: jobs are submitted to a priority queue and run one at a
  time by a task; a review is paid from the ledger of \<open>Budget\<close>. What happens between two
  suspensions of the task is one operation. The recorder of events, the freshness of a job, the
  answer of the reviewer and of the delivery, clocks and tokens are arguments. A recorder may raise;
  its state is kept either way.
\<close>

section \<open>Data\<close>

record reviewer_config =
  vc_model :: string
  vc_on_signals :: bool
  vc_deliver :: bool
  vc_interrupt :: bool
  vc_per_session :: int
  vc_per_day :: int

record reviewer_decision =
  vd_decision :: string
  vd_failure_class :: string
  vd_reason :: string
  vd_confidence :: float64
  vd_hypothesis :: string

text \<open>An entry of the queue: the job pinned to the configuration it was submitted under.\<close>

record queue_entry =
  qe_priority :: float64
  qe_sequence :: int
  qe_queued :: int
  qe_job :: reviewer_job
  qe_config :: reviewer_config
  qe_generation :: string

text \<open>Where the task is suspended: on the queue, on the reviewer with a token, on a delivery.\<close>

datatype phase =
    Waiting
  | Reviewing queue_entry string float64 int
  | Delivering queue_entry reviewer_decision

datatype runner = NoRunner | Alive phase | Finished

record 's executor =
  xe_config :: reviewer_config
  xe_generation :: string
  xe_delivers :: bool
  xe_queue :: "queue_entry list"
  xe_runner :: runner
  xe_sequence :: int
  xe_submitted :: "string set"
  xe_ledger :: ledger
  xe_sink :: 's

text \<open>
  What the surroundings supply to one operation: \<open>time.time()\<close> when the event of a kind is made,
  \<open>perf_counter_ns()\<close> now and when the inference starts, the clocks of the two ledger operations,
  a token, and the text of an exception.
\<close>

record exec_env =
  xv_time :: "string \<Rightarrow> float64"
  xv_ns :: int
  xv_started :: int
  xv_clock :: clock
  xv_clock2 :: clock
  xv_token :: string
  xv_text :: "exc \<Rightarrow> string"

type_synonym 's recorder = "trace_event \<Rightarrow> 's \<Rightarrow> ('s, unit) attempt"

section \<open>Events\<close>

definition job_event :: "reviewer_job \<Rightarrow> string \<Rightarrow> payload \<Rightarrow> string \<Rightarrow> float64 \<Rightarrow> trace_event" where
  "job_event job kind p generation at_time =
     (plain_event kind)\<lparr>
       ev_payload := dset ''config_generation'' (PStr generation) (dset ''review_trigger'' (PStr ''signal'') p),
       ev_id := Some (''spotter:review-job:'' @ rj_id job @ '':'' @ kind), ev_at := Some at_time,
       ev_identity := Some (ts_identity (rj_snapshot job)),
       ev_provenance := Some \<lparr>tp_source = ''spotterd'', tp_method = Some ''review_executor''\<rparr>,
       ev_epoch := rj_epoch job, ev_config := Some generation\<rparr>"

definition record_in :: "'s recorder \<Rightarrow> trace_event \<Rightarrow> 's executor \<Rightarrow> ('s executor, unit) attempt" where
  "record_in put e x = (case put e (xe_sink x) of (s, r) \<Rightarrow> (x\<lparr>xe_sink := s\<rparr>, r))"

definition tell :: "'s recorder \<Rightarrow> exec_env \<Rightarrow> queue_entry \<Rightarrow> string \<Rightarrow> payload \<Rightarrow> 's executor \<Rightarrow> ('s executor, unit) attempt" where
  "tell put env q kind p x = record_in put (job_event (qe_job q) kind p (qe_generation q) (xv_time env kind)) x"

definition priority :: "reviewer_job \<Rightarrow> float64 result" where
  "priority job =
     (case rv_severity (rj_input job) of
        Some (PInt i) \<Rightarrow> float_of_int i
      | Some (PFloat (Fin r)) \<Rightarrow> Inr (Fin r)
      | _ \<Rightarrow> Inr (Fin 0))"

definition elapsed_ms :: "int \<Rightarrow> int \<Rightarrow> float64" where
  "elapsed_ms now started = (if now \<le> started then Fin 0 else fl_round (of_int (now - started) / 1000000))"

definition spend_value :: "spend \<Rightarrow> pyval" where
  "spend_value s = PDict [(''session_reviews'', PInt (sp_reviews s)), (''session_tokens'', PInt (sp_tokens s))]"

definition timing_value :: "float64 \<Rightarrow> float64 \<Rightarrow> pyval" where
  "timing_value queue_ms inference_ms = PDict [(''queue_ms'', PFloat queue_ms), (''inference_ms'', PFloat inference_ms)]"

definition shadow_interrupt_id :: "string \<Rightarrow> string" where
  "shadow_interrupt_id job_id = ''spt-int-'' @ take 12 (sha256_hex job_id)"

section \<open>Submitting\<close>

definition pinned_entry :: "exec_env \<Rightarrow> reviewer_job \<Rightarrow> 's executor \<Rightarrow> float64 \<Rightarrow> queue_entry" where
  "pinned_entry env job x p =
     \<lparr>qe_priority = p, qe_sequence = xe_sequence x, qe_queued = xv_ns env, qe_job = job,
      qe_config = xe_config x, qe_generation = xe_generation x\<rparr>"

definition start_runner :: "runner \<Rightarrow> runner" where
  "start_runner r = (case r of Alive p \<Rightarrow> Alive p | _ \<Rightarrow> Alive Waiting)"

definition enqueue :: "queue_entry \<Rightarrow> 's executor \<Rightarrow> 's executor" where
  "enqueue q x = x\<lparr>xe_queue := xe_queue x @ [q], xe_runner := start_runner (xe_runner x)\<rparr>"

definition submit :: "'s recorder \<Rightarrow> exec_env \<Rightarrow> reviewer_job \<Rightarrow> 's executor \<Rightarrow> ('s executor, unit) attempt" where
  "submit put env job x =
     (if \<not> vc_on_signals (xe_config x) \<or> rj_id job \<in> xe_submitted x then (x, Inr ())
      else
        let x1 = x\<lparr>xe_submitted := insert (rj_id job) (xe_submitted x), xe_sequence := xe_sequence x + 1\<rparr> in
        attempt_bind (record_in put (job_event job ''review_job_config_pinned''
            [(''review_job_id'', PStr (rj_id job)), (''model'', PStr (vc_model (xe_config x)))]
            (xe_generation x) (xv_time env ''review_job_config_pinned'')) x1) (\<lambda>x2 _.
        case priority job of
          Inl err \<Rightarrow> (x2, Inl err)
        | Inr p \<Rightarrow> (enqueue (pinned_entry env job x2 p) x2, Inr ())))"

definition update_config :: "reviewer_config \<Rightarrow> string \<Rightarrow> 's executor \<Rightarrow> 's executor" where
  "update_config config generation x = x\<lparr>xe_config := config, xe_generation := generation\<rparr>"

text \<open>The order of the heap: higher priority first, then the order of submission.\<close>

definition goes_before :: "queue_entry \<Rightarrow> queue_entry \<Rightarrow> bool" where
  "goes_before a b \<longleftrightarrow> \<not> fl_le (qe_priority a) (qe_priority b)
     \<or> (qe_priority a = qe_priority b \<and> qe_sequence a < qe_sequence b)"

fun next_entry :: "queue_entry \<Rightarrow> queue_entry list \<Rightarrow> queue_entry" where
  "next_entry best [] = best"
| "next_entry best (q # qs) = next_entry (if goes_before q best then q else best) qs"

section \<open>Running a job\<close>

definition session_of :: "queue_entry \<Rightarrow> string" where
  "session_of q = thread_value (rj_thread (qe_job q))"

text \<open>Up to the call of the reviewer; the result is where the task goes on.\<close>

definition refused :: "'s recorder \<Rightarrow> exec_env \<Rightarrow> queue_entry \<Rightarrow> string \<Rightarrow> 's executor \<Rightarrow> ('s executor, runner) attempt" where
  "refused put env q m x =
     (let kind = (if contains ''unreadable'' m then ''reviewer_error'' else ''reviewer_capped'');
          key = (if kind = ''reviewer_error'' then ''error'' else ''reason'')
      in attempt_bind (tell put env q kind
           [(key, PStr m), (''review_job_id'', PStr (rj_id (qe_job q))), (''priority'', PFloat (qe_priority q))] x)
         (\<lambda>x _. (x, Inr (Alive Waiting))))"

definition reserve_failed :: "'s recorder \<Rightarrow> exec_env \<Rightarrow> queue_entry \<Rightarrow> exc \<Rightarrow> 's executor \<Rightarrow> ('s executor, runner) attempt" where
  "reserve_failed put env q err x =
     attempt_bind (tell put env q ''reviewer_error''
       [(''review_job_id'', PStr (rj_id (qe_job q))),
        (''error'', PStr (take 300 (''review budget unavailable: '' @ xv_text env err))),
        (''priority'', PFloat (qe_priority q))] x)
     (\<lambda>x _. (x, Inr (Alive Waiting)))"

definition granted :: "'s recorder \<Rightarrow> exec_env \<Rightarrow> queue_entry \<Rightarrow> string \<Rightarrow> 's executor \<Rightarrow> ('s executor, runner) attempt" where
  "granted put env q token x =
     (let queue_ms = elapsed_ms (xv_ns env) (qe_queued q) in
      attempt_bind (tell put env q ''review_inference_started''
        [(''review_job_id'', PStr (rj_id (qe_job q))), (''queue_ms'', PFloat queue_ms), (''priority'', PFloat (qe_priority q))] x)
      (\<lambda>x _. (x, Inr (Alive (Reviewing q token queue_ms (xv_started env))))))"

definition begin_review :: "'s recorder \<Rightarrow> exec_env \<Rightarrow> bool \<Rightarrow> queue_entry \<Rightarrow> 's executor \<Rightarrow> ('s executor, runner) attempt" where
  "begin_review put env fresh q x =
     (if \<not> fresh then (x, Inr (Alive Waiting))
      else
        case reserve (session_of q) (vc_per_session (qe_config q)) (vc_per_day (qe_config q)) (xv_clock env) (xv_token env) (xe_ledger x) of
          (f, Inl err) \<Rightarrow> reserve_failed put env q err (x\<lparr>xe_ledger := f\<rparr>)
        | (f, Inr (None, m)) \<Rightarrow> refused put env q m (x\<lparr>xe_ledger := f\<rparr>)
        | (f, Inr (Some token, _)) \<Rightarrow> granted put env q token (x\<lparr>xe_ledger := f\<rparr>))"

text \<open>\<open>settle(...) or charge(...)\<close>.\<close>

definition pay :: "exec_env \<Rightarrow> string \<Rightarrow> string \<Rightarrow> int \<Rightarrow> 's executor \<Rightarrow> ('s executor, spend) attempt" where
  "pay env session token tokens x =
     (case settle session (Some token) tokens (xv_clock env) (xe_ledger x) of
        (f, Inl err) \<Rightarrow> (x\<lparr>xe_ledger := f\<rparr>, Inl err)
      | (f, Inr (Some s)) \<Rightarrow> (x\<lparr>xe_ledger := f\<rparr>, Inr s)
      | (f, Inr None) \<Rightarrow> (case charge session tokens (xv_clock2 env) f of (f', r) \<Rightarrow> (x\<lparr>xe_ledger := f'\<rparr>, r)))"

text \<open>How the reviewer ends: with a decision and what it cost, with an exception, cancelled.\<close>

datatype review_outcome = Decided reviewer_decision int | ReviewFailed string | ReviewCancelled

definition failed_payload :: "queue_entry \<Rightarrow> string \<Rightarrow> spend \<Rightarrow> float64 \<Rightarrow> float64 \<Rightarrow> payload" where
  "failed_payload q m s queue_ms inference_ms =
     [(''review_job_id'', PStr (rj_id (qe_job q))), (''error'', PStr m), (''spend'', spend_value s),
      (''timing'', timing_value queue_ms inference_ms)]"

definition decision_payload :: "queue_entry \<Rightarrow> reviewer_decision \<Rightarrow> bool \<Rightarrow> spend \<Rightarrow> float64 \<Rightarrow> float64 \<Rightarrow> payload" where
  "decision_payload q d stale s queue_ms inference_ms =
     (let job = qe_job q in
      [(''review_job_id'', PStr (rj_id job)), (''decision'', PStr (vd_decision d)), (''failure_class'', PStr (vd_failure_class d)),
       (''reason'', PStr (vd_reason d)), (''hypothesis'', PStr (vd_hypothesis d)), (''confidence'', PFloat (vd_confidence d)),
       (''model'', PStr (vc_model (qe_config q))), (''reviewed_state_version'', PInt (rj_version job)),
       (''target_turn_id'', PStr (turn_value (rj_turn job))), (''target_connection_epoch'', pv_epoch (rj_epoch job)),
       (''stale'', PBool stale), (''shadow'', PBool (\<not> vc_deliver (qe_config q))),
       (''inputs'', PDict (input_coverage (rj_input job))), (''timing'', timing_value queue_ms inference_ms),
       (''spend'', spend_value s)])"

definition interrupt_payload :: "queue_entry \<Rightarrow> bool \<Rightarrow> payload" where
  "interrupt_payload q stale =
     (let job = qe_job q in
      [(''review_job_id'', PStr (rj_id job)), (''interrupt_id'', PStr (shadow_interrupt_id (rj_id job))),
       (''cause'', PStr ''spotter_recovery''), (''lifecycle'', PStr ''would_interrupt''),
       (''target_turn_id'', PStr (turn_value (rj_turn job))), (''target_connection_epoch'', pv_epoch (rj_epoch job)),
       (''would_dispatch'', PBool (\<not> stale)), (''suppressed'', if stale then PStr ''stale_target'' else PNone)])"

definition delivery_error :: "queue_entry \<Rightarrow> string \<Rightarrow> payload" where
  "delivery_error q m = [(''review_job_id'', PStr (rj_id (qe_job q))), (''error'', PStr m)]"

definition deliverable :: "queue_entry \<Rightarrow> reviewer_decision \<Rightarrow> bool \<Rightarrow> bool" where
  "deliverable q d stale \<longleftrightarrow> \<not> stale \<and> vc_deliver (qe_config q) \<and> vd_decision d \<in> set [''verify'', ''nudge'']"

text \<open>After the decision was recorded.\<close>

definition hand_over :: "'s recorder \<Rightarrow> exec_env \<Rightarrow> queue_entry \<Rightarrow> reviewer_decision \<Rightarrow> bool \<Rightarrow> 's executor \<Rightarrow> ('s executor, runner) attempt" where
  "hand_over put env q d stale x =
     (if \<not> deliverable q d stale then (x, Inr (Alive Waiting))
      else if \<not> xe_delivers x then
        attempt_bind (tell put env q ''intervention_delivery_error''
          (delivery_error q ''live delivery is enabled but no delivery controller is available'') x)
        (\<lambda>x _. (x, Inr (Alive Waiting)))
      else (x, Inr (Alive (Delivering q d))))"

definition decided ::
  "'s recorder \<Rightarrow> exec_env \<Rightarrow> queue_entry \<Rightarrow> reviewer_decision \<Rightarrow> bool \<Rightarrow> spend \<Rightarrow> float64 \<Rightarrow> float64 \<Rightarrow> 's executor \<Rightarrow> ('s executor, runner) attempt" where
  "decided put env q d stale s queue_ms inference_ms x =
     attempt_bind (tell put env q ''reviewer_decision'' (decision_payload q d stale s queue_ms inference_ms) x) (\<lambda>x _.
     attempt_bind (if vc_interrupt (qe_config q) \<and> vd_decision d = ''nudge''
        then tell put env q ''would_interrupt'' (interrupt_payload q stale) x else (x, Inr ())) (\<lambda>x _.
     hand_over put env q d stale x))"

definition end_review ::
  "'s recorder \<Rightarrow> exec_env \<Rightarrow> bool \<Rightarrow> review_outcome \<Rightarrow> queue_entry \<Rightarrow> string \<Rightarrow> float64 \<Rightarrow> int \<Rightarrow> 's executor \<Rightarrow> ('s executor, runner) attempt" where
  "end_review put env fresh outcome q token queue_ms started x =
     (let inference_ms = elapsed_ms (xv_ns env) started in
      case outcome of
        Decided d tokens \<Rightarrow>
          attempt_bind (pay env (session_of q) token tokens x) (\<lambda>x s.
            decided put env q d (\<not> fresh) s queue_ms inference_ms x)
      | ReviewFailed m \<Rightarrow>
          attempt_bind (pay env (session_of q) token 0 x) (\<lambda>x s.
          attempt_bind (tell put env q ''reviewer_error'' (failed_payload q (take 300 m) s queue_ms inference_ms) x) (\<lambda>x _.
            (x, Inr (Alive Waiting))))
      | ReviewCancelled \<Rightarrow>
          attempt_bind (pay env (session_of q) token 0 x) (\<lambda>x s.
          attempt_bind (tell put env q ''reviewer_error''
             (failed_payload q ''review cancelled during daemon shutdown'' s queue_ms inference_ms) x) (\<lambda>x _.
            (x, Inr Finished))))"

datatype delivery_outcome = Delivered | DeliveryFailed string | DeliveryCancelled

definition end_delivery :: "'s recorder \<Rightarrow> exec_env \<Rightarrow> delivery_outcome \<Rightarrow> queue_entry \<Rightarrow> 's executor \<Rightarrow> ('s executor, runner) attempt" where
  "end_delivery put env outcome q x =
     (case outcome of
        Delivered \<Rightarrow> (x, Inr (Alive Waiting))
      | DeliveryCancelled \<Rightarrow> (x, Inr Finished)
      | DeliveryFailed m \<Rightarrow>
          attempt_bind (tell put env q ''intervention_delivery_error'' (delivery_error q (take 300 m)) x)
          (\<lambda>x _. (x, Inr (Alive Waiting))))"

section \<open>The task\<close>

text \<open>An exception that leaves \<open>_run\<close> ends the task.\<close>

definition ran :: "('s executor, runner) attempt \<Rightarrow> 's executor" where
  "ran a = (case a of (x, Inl _) \<Rightarrow> x\<lparr>xe_runner := Finished\<rparr> | (x, Inr r) \<Rightarrow> x\<lparr>xe_runner := r\<rparr>)"

text \<open>What the environment lets the task do next: take a job, get an answer, finish a delivery.\<close>

datatype wake = TakeJob bool | ReviewerAnswers bool review_outcome | DeliveryEnds delivery_outcome

definition work :: "'s recorder \<Rightarrow> exec_env \<Rightarrow> wake \<Rightarrow> 's executor \<Rightarrow> 's executor" where
  "work put env w x =
     (case (w, xe_runner x) of
        (TakeJob fresh, Alive Waiting) \<Rightarrow>
          (case xe_queue x of
             [] \<Rightarrow> x
           | q # qs \<Rightarrow>
               let best = next_entry q qs
               in ran (begin_review put env fresh best (x\<lparr>xe_queue := remove1 best (xe_queue x)\<rparr>)))
      | (ReviewerAnswers fresh outcome, Alive (Reviewing q token queue_ms started)) \<Rightarrow>
          ran (end_review put env fresh outcome q token queue_ms started x)
      | (DeliveryEnds outcome, Alive (Delivering q d)) \<Rightarrow> ran (end_delivery put env outcome q x)
      | _ \<Rightarrow> x)"

text \<open>\<open>close\<close>: the task is cancelled where it is suspended.\<close>

definition close_executor :: "'s recorder \<Rightarrow> exec_env \<Rightarrow> 's executor \<Rightarrow> 's executor" where
  "close_executor put env x =
     (case xe_runner x of
        Alive (Reviewing q token queue_ms started) \<Rightarrow>
          (fst (end_review put env False ReviewCancelled q token queue_ms started x))\<lparr>xe_runner := NoRunner\<rparr>
      | _ \<Rightarrow> x\<lparr>xe_runner := NoRunner\<rparr>)"

end
