(* ===== verification/Executor_Slots.thy ===== *)
theory Executor_Slots
  imports Review_Executor Budget_Claims
begin

text \<open>
  The executor and the ledger: the operations as step relations, on a ledger anything may happen to
  (\<open>exec_move\<close>) and on one that only ledger operations change (\<open>exec_step\<close>); and the invariant that
  a slot the executor reserved is open only while its task holds the token (\<open>run_slots\<close>).
\<close>

section \<open>The ledger of the executor\<close>

definition readable :: "ledger \<Rightarrow> bool" where
  "readable f \<longleftrightarrow> (\<exists>data. load f = Inr data)"

lemma write_readable: "write_ledger ts session r t n ck sl = Inr f' \<Longrightarrow> readable f'"
  by (auto simp: write_ledger_def readable_def load_written)

lemma reserve_readable: "reserve session ps pd ck token f = (f', r) \<Longrightarrow> readable f \<Longrightarrow> readable f'"
proof (cases "\<exists>tok m. r = Inr (Some tok, m)")
  case True
  assume "reserve session ps pd ck token f = (f', r)"
  then obtain tok m where "reserve session ps pd ck token f = (f', Inr (Some tok, m))" using True by blast
  then show ?thesis by (rule reserve_granted) (rule write_readable)
qed (use reserve_refused in blast)

lemma settle_readable: "settle session token tokens ck f = (f', r) \<Longrightarrow> readable f \<Longrightarrow> readable f'"
proof (cases "\<exists>c. r = Inr (Some c)")
  case True
  assume "settle session token tokens ck f = (f', r)"
  then obtain c where "settle session token tokens ck f = (f', Inr (Some c))" using True by blast
  then show ?thesis by (rule settle_granted) (rule write_readable)
qed (use settle_refused in blast)

lemma cancel_readable: "cancel session token ck f = (f', r) \<Longrightarrow> readable f \<Longrightarrow> readable f'"
proof (cases "r = Inr True")
  case True
  assume "cancel session token ck f = (f', r)"
  then have "cancel session token ck f = (f', Inr True)" using True by blast
  then show ?thesis by (rule cancel_granted) (rule write_readable)
qed (use cancel_refused in blast)

lemma charge_readable: "charge session tokens ck f = (f', r) \<Longrightarrow> readable f \<Longrightarrow> readable f'"
proof (cases r)
  case (Inr c)
  assume "charge session tokens ck f = (f', r)"
  then have "charge session tokens ck f = (f', Inr c)" using Inr by blast
  then show ?thesis by (rule charge_granted) (rule write_readable)
qed (use charge_refused in blast)

lemma step_readable: "readable f \<Longrightarrow> readable (ledger_step f op)"
  by (cases op) (auto intro: reserve_readable [OF surjective_pairing] settle_readable [OF surjective_pairing]
      cancel_readable [OF surjective_pairing] charge_readable [OF surjective_pairing])

text \<open>A slot another process leaves open is the slot it was.\<close>

lemma reserve_keeps_slot:
  assumes "reserve session ps pd ck token f = (f', r)" "dget (slots_in f') t = Some s" "t \<noteq> token"
  shows "dget (slots_in f) t = Some s"
proof (cases "\<exists>tok m. r = Inr (Some tok, m)")
  case True
  then obtain tok m where "reserve session ps pd ck token f = (f', Inr (Some tok, m))" using assms(1) by blast
  then show ?thesis
  proof (rule reserve_granted)
    fix data ts sl n sp stamp
    assume rc: "reclaim data (tallies_in f) (slots_in f) ck = Inr (ts, sl, n)" and d: "load f = Inr data"
      and ok: "dict_ok ts" "dict_ok sl"
      and w: "write_ledger ts session (sp_reviews sp + 1) (sp_tokens sp) (sp_day sp + 1) ck
        (dset token \<lparr>sl_session = sanitize_session session, sl_at = stamp\<rparr> sl) = Inr f'"
    have "dict_ok (tallies_in f)" "dict_ok (slots_in f)" by (simp_all add: loaded [OF d] tallies_ok slots_ok)
    note sub = reclaim_effect(5) [OF rc this]
    from write_effect(2) [OF w ok(1)] ok(2) assms(2,3) sub show ?thesis by auto
  qed
qed (use reserve_refused [OF assms(1)] assms(2) in blast)

lemma step_keeps_slot:
  assumes "dget (slots_in (ledger_step f op)) t = Some s" "opens op \<noteq> Some t"
  shows "dget (slots_in f) t = Some s"
proof (cases "closes f op")
  case (Some u)
  then show ?thesis using assms(1) closing_slots(1) [OF Some] by (auto split: if_splits)
next
  case None
  show ?thesis
  proof (cases op)
    case (Reserve session ps pd ck token)
    then show ?thesis using assms reserve_keeps_slot [OF surjective_pairing, of session ps pd ck token f t s] by simp
  next
    case (Cancel session token ck)
    obtain f' r where run: "cancel session token ck f = (f', r)" by fastforce
    have "r \<noteq> Inr True" using None Cancel run by (auto elim: cancel_granted)
    then show ?thesis using cancel_refused [OF run] Cancel run assms(1) by simp
  next
    case (Settle session token tokens ck)
    obtain f' r where run: "settle session token tokens ck f = (f', r)" by fastforce
    have "r \<noteq> Inr (Some c)" for c using None Settle run by (auto elim: settle_granted)
    then show ?thesis using settle_refused [OF run] Settle run assms(1) by simp
  next
    case (Charge session tokens ck)
    then show ?thesis using assms(1) by (simp add: charge_slots)
  qed
qed

text \<open>With a readable ledger and a clock that has a date, paying succeeds and closes the slot.\<close>

definition dated :: "clock \<Rightarrow> bool" where
  "dated ck \<longleftrightarrow> (\<exists>d. today ck = Inr d)"

lemma project_dated: "dated ck \<Longrightarrow> \<exists>s. project data session ck = Inr (tallies_of data, s)"
  by (auto simp: dated_def project_def Let_def day_reviews_def day_current_def split: pyval.split)

lemma write_dated: "dated ck \<Longrightarrow> \<exists>f'. write_ledger ts session r t n ck sl = Inr f'"
  by (auto simp: dated_def write_ledger_def)

lemma charge_dated:
  assumes "readable f" "dated ck"
  shows "\<exists>f' c. charge session tokens ck f = (f', Inr c)"
proof -
  obtain data where d: "load f = Inr data" using assms(1) by (auto simp: readable_def)
  obtain s where p: "project data session ck = Inr (tallies_of data, s)" using project_dated [OF assms(2)] by blast
  obtain f' where "write_ledger (tallies_of data) session (sp_reviews s + 1) (sp_tokens s + max 0 tokens) (sp_day s + 1) ck (slots_of data) = Inr f'"
    using write_dated [OF assms(2)] by blast
  then show ?thesis by (simp add: charge_def locked_def d p)
qed

lemma settle_dated:
  assumes "readable f" "dated ck" "token \<noteq> []"
  obtains f' c where "settle session (Some token) tokens ck f = (f', Inr c)"
    "c = None \<Longrightarrow> f' = f \<and> map_option sl_session (dget (slots_in f) token) \<noteq> Some (sanitize_session session)"
    "c \<noteq> None \<Longrightarrow> slots_in f' = dpop token (slots_in f)"
proof -
  obtain data where d: "load f = Inr data" using assms(1) by (auto simp: readable_def)
  show thesis
  proof (cases "own_slot data session token")
    case True
    obtain s where p: "project data session ck = Inr (tallies_of data, s)" using project_dated [OF assms(2)] by blast
    obtain f' where w: "write_ledger (tallies_of data) session (sp_reviews s) (sp_tokens s + max 0 tokens) (sp_day s) ck
        (dpop token (slots_of data)) = Inr f'" using write_dated [OF assms(2)] by blast
    have "settle session (Some token) tokens ck f = (f', Inr (Some (s\<lparr>sp_tokens := sp_tokens s + max 0 tokens\<rparr>)))"
      using True assms(3) by (simp add: settle_def settle_from_def locked_def d p w)
    moreover have "slots_in f' = dpop token (slots_in f)"
      using write_effect(2) [OF w] loaded [OF d] tallies_ok slots_ok by simp
    ultimately show thesis using that by blast
  next
    case False
    then have "settle session (Some token) tokens ck f = (f, Inr None)"
      using assms(3) by (simp add: settle_def settle_from_def locked_def d)
    moreover have "map_option sl_session (dget (slots_in f) token) \<noteq> Some (sanitize_session session)"
      using False by (auto simp: own_slot_def loaded [OF d])
    ultimately show thesis using that by blast
  qed
qed

lemma pay_dated:
  assumes "readable (xe_ledger x)" "dated (xv_clock env)" "dated (xv_clock2 env)" "token \<noteq> []"
    and held: "\<And>s. dget (slots_in (xe_ledger x)) token = Some s \<Longrightarrow> sl_session s = sanitize_session session"
  obtains f s where "pay env session token tokens x = (x\<lparr>xe_ledger := f\<rparr>, Inr s)" "readable f"
    "\<And>t. dget (slots_in f) t = (if t = token then None else dget (slots_in (xe_ledger x)) t)"
proof -
  obtain f c where settle: "settle session (Some token) tokens (xv_clock env) (xe_ledger x) = (f, Inr c)"
    "c = None \<Longrightarrow> f = xe_ledger x \<and> map_option sl_session (dget (slots_in (xe_ledger x)) token) \<noteq> Some (sanitize_session session)"
    "c \<noteq> None \<Longrightarrow> slots_in f = dpop token (slots_in (xe_ledger x))"
    using settle_dated [OF assms(1,2,4)] by metis
  note r = settle_readable [OF settle(1) assms(1)]
  show thesis
  proof (cases c)
    case None
    obtain f' s where charge: "charge session tokens (xv_clock2 env) f = (f', Inr s)" using charge_dated [OF r assms(3)] by blast
    have "dget (slots_in (xe_ledger x)) token = None" using settle(2) [OF None] held by (cases "dget (slots_in (xe_ledger x)) token") auto
    moreover have "slots_in f' = slots_in (xe_ledger x)" using charge_slots [of session tokens "xv_clock2 env" f] charge settle(2) [OF None] by simp
    ultimately show thesis using that [of f' s] charge_readable [OF charge r] settle(1) charge None by (simp add: pay_def)
  next
    case (Some s)
    then show thesis using that [of f s] r settle(1,3) by (simp add: pay_def)
  qed
qed

section \<open>What can happen\<close>

text \<open>
  One operation of the executor, whatever has become of the ledger file in the meantime. The clocks,
  tokens and answers in \<open>env\<close> and \<open>w\<close> are arbitrary.
\<close>

inductive exec_move :: "'s recorder \<Rightarrow> 's executor \<Rightarrow> 's executor \<Rightarrow> bool" for put where
  submitted: "submit put env job x = (x', r) \<Longrightarrow> exec_move put x x'"
| configured: "exec_move put x (update_config config generation x)"
| worked: "exec_move put x (work put env w x)"
| closed: "exec_move put x (close_executor put env x)"
| rewritten: "exec_move put x (x\<lparr>xe_ledger := f\<rparr>)"

definition new_executor :: "reviewer_config \<Rightarrow> string \<Rightarrow> bool \<Rightarrow> ledger \<Rightarrow> 's \<Rightarrow> 's executor" where
  "new_executor config generation delivers f s =
     \<lparr>xe_config = config, xe_generation = generation, xe_delivers = delivers, xe_queue = [], xe_runner = NoRunner,
      xe_sequence = 0, xe_submitted = {}, xe_ledger = f, xe_sink = s\<rparr>"

inductive exec_moves :: "'s recorder \<Rightarrow> 's executor \<Rightarrow> 's executor \<Rightarrow> bool" for put where
  still: "exec_moves put x x"
| further: "exec_moves put x y \<Longrightarrow> exec_move put y z \<Longrightarrow> exec_moves put x z"

text \<open>
  The same on a ledger only ledger operations change, with clocks that have a date. \<open>T\<close> collects the
  tokens drawn for reservations: they are new to the executor and to the ledger, and no other
  process draws them.
\<close>

definition draws :: "wake \<Rightarrow> bool" where
  "draws w \<longleftrightarrow> (case w of TakeJob fresh \<Rightarrow> fresh | _ \<Rightarrow> False)"

definition new_token :: "string \<Rightarrow> string set \<Rightarrow> ledger \<Rightarrow> bool" where
  "new_token t T f \<longleftrightarrow> t \<noteq> [] \<and> t \<notin> T \<and> dget (slots_in f) t = None"

definition clocks_dated :: "exec_env \<Rightarrow> bool" where
  "clocks_dated env \<longleftrightarrow> dated (xv_clock env) \<and> dated (xv_clock2 env)"

inductive exec_step :: "'s recorder \<Rightarrow> 's executor \<times> string set \<Rightarrow> 's executor \<times> string set \<Rightarrow> bool" for put where
  submitting: "submit put env job x = (x', r) \<Longrightarrow> exec_step put (x, T) (x', T)"
| configuring: "exec_step put (x, T) (update_config config generation x, T)"
| working: "clocks_dated env \<Longrightarrow> (draws w \<Longrightarrow> new_token (xv_token env) T (xe_ledger x)) \<Longrightarrow>
    exec_step put (x, T) (work put env w x, if draws w then insert (xv_token env) T else T)"
| closing: "clocks_dated env \<Longrightarrow> exec_step put (x, T) (close_executor put env x, T)"
| elsewhere: "opens op \<notin> Some ` T \<Longrightarrow> exec_step put (x, T) (x\<lparr>xe_ledger := ledger_step (xe_ledger x) op\<rparr>, T)"

inductive exec_run :: "'s recorder \<Rightarrow> 's \<Rightarrow> 's executor \<Rightarrow> string set \<Rightarrow> bool" for put s where
  launched: "readable f \<Longrightarrow> exec_run put s (new_executor config generation delivers f s) {}"
| continued: "exec_run put s x T \<Longrightarrow> exec_step put (x, T) (x', T') \<Longrightarrow> exec_run put s x' T'"

lemma step_move: "exec_step put (x, T) (x', T') \<Longrightarrow> exec_move put x x'"
  by (cases rule: exec_step.cases [of put "(x, T)" "(x', T')"]) (auto intro: exec_move.intros)

section \<open>Slots\<close>

definition reliable :: "'s recorder \<Rightarrow> bool" where
  "reliable put \<longleftrightarrow> (\<forall>e s. snd (put e s) = Inr ())"

lemma tell_reliable:
  assumes "reliable put"
  obtains s where "tell put env q kind p x = (x\<lparr>xe_sink := s\<rparr>, Inr ())"
  using assms by (cases "put (job_event (qe_job q) kind p (qe_generation q) (xv_time env kind)) (xe_sink x)")
    (auto simp: reliable_def tell_def record_in_def, metis snd_conv)

text \<open>What the task holds: a job under review and its token.\<close>

definition holding :: "runner \<Rightarrow> (queue_entry \<times> string) option" where
  "holding r = (case r of Alive (Reviewing q t queue_ms started) \<Rightarrow> Some (q, t) | _ \<Rightarrow> None)"

lemma holding_simps [simp]:
  "holding NoRunner = None" "holding Finished = None" "holding (Alive Waiting) = None" "holding (Alive (Delivering q d)) = None"
  "holding (Alive (Reviewing q t queue_ms started)) = Some (q, t)" "holding (start_runner r) = holding r"
  by (simp_all add: holding_def start_runner_def split: runner.split)

definition slots_ok_for :: "runner \<Rightarrow> ledger \<Rightarrow> string set \<Rightarrow> bool" where
  "slots_ok_for r f T \<longleftrightarrow> readable f \<and> (\<forall>q t. holding r = Some (q, t) \<longrightarrow> t \<in> T \<and> t \<noteq> [])
     \<and> (\<forall>t\<in>T. \<forall>s. dget (slots_in f) t = Some s \<longrightarrow> (\<exists>q. holding r = Some (q, t) \<and> sl_session s = sanitize_session (session_of q)))"

lemma slots_idle: "holding r = None \<Longrightarrow> slots_ok_for r f T \<longleftrightarrow> readable f \<and> (\<forall>t\<in>T. dget (slots_in f) t = None)"
  unfolding slots_ok_for_def by (metis not_Some_eq option.distinct(1))

lemma reserve_tells:
  assumes "reliable put"
  shows "\<exists>s. refused put env q m x = (x\<lparr>xe_sink := s\<rparr>, Inr (Alive Waiting))"
    "\<exists>s. reserve_failed put env q err x = (x\<lparr>xe_sink := s\<rparr>, Inr (Alive Waiting))"
    "\<exists>s. granted put env q token x = (x\<lparr>xe_sink := s\<rparr>, Inr (Alive (Reviewing q token (elapsed_ms (xv_ns env) (qe_queued q)) (xv_started env))))"
proof -
  have told: "\<exists>s. attempt_bind (tell put env q kind p x) (\<lambda>x _. (x, Inr (r::runner))) = (x\<lparr>xe_sink := s\<rparr>, Inr r)" for kind p r
  proof -
    obtain s where "tell put env q kind p x = (x\<lparr>xe_sink := s\<rparr>, Inr ())" by (rule tell_reliable [OF assms])
    then show ?thesis by (intro exI [of _ s]) (simp add: attempt_bind_def)
  qed
  show "\<exists>s. refused put env q m x = (x\<lparr>xe_sink := s\<rparr>, Inr (Alive Waiting))" unfolding refused_def Let_def by (rule told)
  show "\<exists>s. reserve_failed put env q err x = (x\<lparr>xe_sink := s\<rparr>, Inr (Alive Waiting))" unfolding reserve_failed_def by (rule told)
  show "\<exists>s. granted put env q token x = (x\<lparr>xe_sink := s\<rparr>, Inr (Alive (Reviewing q token (elapsed_ms (xv_ns env) (qe_queued q)) (xv_started env))))"
    unfolding granted_def Let_def by (rule told)
qed

lemma begin_review_slots:
  assumes rel: "reliable put" and ok: "readable (xe_ledger x)" "\<forall>t\<in>T. dget (slots_in (xe_ledger x)) t = None"
    and new: "fresh \<Longrightarrow> new_token (xv_token env) T (xe_ledger x)" and run: "begin_review put env fresh q x = (x', res)"
  shows "\<exists>r. res = Inr r \<and> slots_ok_for r (xe_ledger x') (if fresh then insert (xv_token env) T else T)"
proof (cases fresh)
  case False
  then show ?thesis using run ok by (auto simp: begin_review_def slots_idle)
next
  case True
  note fresh = new [OF True, unfolded new_token_def]
  obtain f r where rv: "reserve (session_of q) (vc_per_session (qe_config q)) (vc_per_day (qe_config q)) (xv_clock env) (xv_token env) (xe_ledger x) = (f, r)"
    by fastforce
  note f = reserve_readable [OF rv ok(1)]
  note told = tell_reliable [OF rel]
  show ?thesis
  proof (cases "\<exists>tok m. r = Inr (Some tok, m)")
    case False
    then have same: "f = xe_ledger x" using reserve_refused [OF rv] by blast
    have "\<exists>s. (x', res) = (x\<lparr>xe_ledger := f\<rparr>\<lparr>xe_sink := s\<rparr>, Inr (Alive Waiting))"
    proof (cases r)
      case (Inl err)
      then have "(x', res) = reserve_failed put env q err (x\<lparr>xe_ledger := f\<rparr>)" using run rv True by (simp add: begin_review_def)
      then show ?thesis using reserve_tells(2) [OF rel] by metis
    next
      case (Inr tm)
      then obtain m where "r = Inr (None, m)" using False by (cases tm; cases "fst tm") auto
      then have "(x', res) = refused put env q m (x\<lparr>xe_ledger := f\<rparr>)" using run rv True by (simp add: begin_review_def)
      then show ?thesis using reserve_tells(1) [OF rel] by metis
    qed
    then show ?thesis using same fresh ok True by (auto simp: slots_idle)
  next
    case got: True
    then obtain tok m where r: "r = Inr (Some tok, m)" by blast
    note e = reserve_reviews(6,7) [OF rv [unfolded r]]
    have "(x', res) = granted put env q tok (x\<lparr>xe_ledger := f\<rparr>)" using run rv True r by (simp add: begin_review_def)
    then obtain s where "x' = x\<lparr>xe_ledger := f\<rparr>\<lparr>xe_sink := s\<rparr>"
      "res = Inr (Alive (Reviewing q tok (elapsed_ms (xv_ns env) (qe_queued q)) (xv_started env)))"
      using reserve_tells(3) [OF rel] by (metis prod.inject)
    moreover have "dget (slots_in f) t = None" if "t \<in> T" for t
      using reserve_slots [OF rv, of t] ok(2) fresh that by metis
    ultimately show ?thesis using e f True fresh by (auto simp: slots_ok_for_def)
  qed
qed


text \<open>Every end of a review pays, and with a reliable recorder goes on.\<close>

lemma end_review_ledger:
  assumes rel: "reliable put" and ok: "slots_ok_for (Alive (Reviewing q t ms ns)) (xe_ledger x) T" and "clocks_dated env"
    and run: "end_review put env fresh outcome q t ms ns x = (x', res)"
  shows "\<exists>r. res = Inr r \<and> holding r = None \<and> readable (xe_ledger x') \<and> (\<forall>t\<in>T. dget (slots_in (xe_ledger x')) t = None)"
proof -
  note inv = ok [unfolded slots_ok_for_def]
  have "t \<in> T" "t \<noteq> []" using inv by simp_all
  have own: "dget (slots_in (xe_ledger x)) t = Some s \<Longrightarrow> sl_session s = sanitize_session (session_of q)" for s
    using inv \<open>t \<in> T\<close> by fastforce
  obtain f s where pay: "pay env (session_of q) t (case outcome of Decided d n \<Rightarrow> n | _ \<Rightarrow> 0) x = (x\<lparr>xe_ledger := f\<rparr>, Inr s)"
    "readable f" "\<And>u. dget (slots_in f) u = (if u = t then None else dget (slots_in (xe_ledger x)) u)"
  proof (rule pay_dated [of x env t "session_of q" "case outcome of Decided d n \<Rightarrow> n | _ \<Rightarrow> 0"])
    show "readable (xe_ledger x)" "dated (xv_clock env)" "dated (xv_clock2 env)" "t \<noteq> []"
      using inv assms(3) \<open>t \<noteq> []\<close> by (simp_all add: clocks_dated_def)
  qed (use own in blast)+
  have none: "\<forall>u\<in>T. dget (slots_in f) u = None"
  proof
    fix u assume "u \<in> T"
    show "dget (slots_in f) u = None"
    proof (cases "dget (slots_in (xe_ledger x)) u")
      case (Some sl)
      then have "u = t" using inv \<open>u \<in> T\<close> by auto
      then show ?thesis by (simp add: pay(3))
    qed (simp add: pay(3))
  qed
  have told: "\<exists>s. attempt_bind (tell put env q kind p y) (\<lambda>x _. (x, Inr (r0::runner))) = (y\<lparr>xe_sink := s\<rparr>, Inr r0)" for kind p y r0
  proof -
    obtain s where "tell put env q kind p y = (y\<lparr>xe_sink := s\<rparr>, Inr ())" by (rule tell_reliable [OF rel])
    then show ?thesis by (intro exI [of _ s]) (simp add: attempt_bind_def)
  qed
  have hand: "\<exists>s r. hand_over put env q d stale y = (y\<lparr>xe_sink := s\<rparr>, Inr r) \<and> holding r = None" for d stale y
  proof (cases "deliverable q d stale \<and> \<not> xe_delivers y")
    case True
    then show ?thesis using told [of "''intervention_delivery_error''"
      "delivery_error q ''live delivery is enabled but no delivery controller is available''" y "Alive Waiting"]
      unfolding hand_over_def by auto
  next
    case False
    then show ?thesis by (intro exI [of _ "xe_sink y"]) (auto simp: hand_over_def)
  qed
  have dec: "\<exists>s r. decided put env q d stale c ms im y = (y\<lparr>xe_sink := s\<rparr>, Inr r) \<and> holding r = None" for d stale c im y
  proof -
    obtain s1 where s1: "tell put env q ''reviewer_decision'' (decision_payload q d stale c ms im) y = (y\<lparr>xe_sink := s1\<rparr>, Inr ())"
      by (rule tell_reliable [OF rel])
    obtain s2 where s2: "tell put env q ''would_interrupt'' (interrupt_payload q stale) (y\<lparr>xe_sink := s1\<rparr>) = (y\<lparr>xe_sink := s1\<rparr>\<lparr>xe_sink := s2\<rparr>, Inr ())"
      by (rule tell_reliable [OF rel])
    show ?thesis using hand [of d stale "y\<lparr>xe_sink := s1\<rparr>"] hand [of d stale "y\<lparr>xe_sink := s2\<rparr>"]
      by (auto simp: decided_def attempt_bind_def s1 s2)
  qed
  have failed: ?thesis if res: "(x', res) = attempt_bind (tell put env q k p (x\<lparr>xe_ledger := f\<rparr>)) (\<lambda>x _. (x, Inr r0))" and "holding r0 = None" for k p r0
  proof -
    obtain s' where "attempt_bind (tell put env q k p (x\<lparr>xe_ledger := f\<rparr>)) (\<lambda>x _. (x, Inr r0)) = (x\<lparr>xe_ledger := f\<rparr>\<lparr>xe_sink := s'\<rparr>, Inr r0)"
      using told [of k p "x\<lparr>xe_ledger := f\<rparr>" r0] by (elim exE)
    from trans [OF res this] show ?thesis using that(2) pay(2) none by simp
  qed
  show ?thesis
  proof (cases outcome)
    case (Decided d n)
    then have "(x', res) = decided put env q d (\<not> fresh) s ms (elapsed_ms (xv_ns env) ns) (x\<lparr>xe_ledger := f\<rparr>)"
      using run pay(1) by (simp add: end_review_def attempt_bind_def Let_def)
    then show ?thesis using dec [of d "\<not> fresh" s "elapsed_ms (xv_ns env) ns" "x\<lparr>xe_ledger := f\<rparr>"] pay(2) none by auto
  next
    case (ReviewFailed m)
    show ?thesis
      by (rule failed [of "''reviewer_error''" "failed_payload q (take 300 m) s ms (elapsed_ms (xv_ns env) ns)" "Alive Waiting"])
        (use run pay(1) ReviewFailed in \<open>simp_all add: end_review_def attempt_bind_def Let_def\<close>)
  next
    case ReviewCancelled
    show ?thesis
      by (rule failed [of "''reviewer_error''" "failed_payload q ''review cancelled during daemon shutdown'' s ms (elapsed_ms (xv_ns env) ns)" Finished])
        (use run pay(1) ReviewCancelled in \<open>simp_all add: end_review_def attempt_bind_def Let_def\<close>)
  qed
qed


lemma slots_spare:
  assumes "holding r = holding r'" "slots_ok_for r f T"
  shows "slots_ok_for r' f T"
  using assms by (simp add: slots_ok_for_def)

lemma ran_parts: "ran (x, Inr r) = x\<lparr>xe_runner := r\<rparr>" "ran (x, Inl err) = x\<lparr>xe_runner := Finished\<rparr>"
  by (simp_all add: ran_def)

lemma end_delivery_runs:
  assumes "reliable put"
  shows "\<exists>s r. end_delivery put env outcome q x = (x\<lparr>xe_sink := s\<rparr>, Inr r) \<and> holding r = None"
proof (cases outcome)
  case (DeliveryFailed m)
  obtain s where "tell put env q ''intervention_delivery_error'' (delivery_error q (take 300 m)) x = (x\<lparr>xe_sink := s\<rparr>, Inr ())"
    by (rule tell_reliable [OF assms])
  then show ?thesis by (intro exI [of _ s]) (simp add: end_delivery_def DeliveryFailed attempt_bind_def)
qed (auto simp: end_delivery_def intro!: exI [of _ "xe_sink x"])

lemma work_slots:
  assumes rel: "reliable put" and ok: "slots_ok_for (xe_runner x) (xe_ledger x) T" and "clocks_dated env"
    and new: "draws w \<Longrightarrow> new_token (xv_token env) T (xe_ledger x)"
  shows "slots_ok_for (xe_runner (work put env w x)) (xe_ledger (work put env w x)) (if draws w then insert (xv_token env) T else T)"
proof -
  have grown: "slots_ok_for (xe_runner x) (xe_ledger x) (if draws w then insert (xv_token env) T else T)"
    using ok new by (auto simp: slots_ok_for_def new_token_def)
  show ?thesis
  proof (cases "work put env w x = x")
    case True
    then show ?thesis using grown by simp
  next
    case False
    then consider (take) fresh q qs where "w = TakeJob fresh" "xe_runner x = Alive Waiting" "xe_queue x = q # qs"
      | (answer) fresh outcome q t ms ns where "w = ReviewerAnswers fresh outcome" "xe_runner x = Alive (Reviewing q t ms ns)"
      | (deliver) outcome q d where "w = DeliveryEnds outcome" "xe_runner x = Alive (Delivering q d)"
      by (auto simp: work_def split: wake.splits runner.splits phase.splits list.splits)
    then show ?thesis
    proof cases
      case take
      define y where "y = x\<lparr>xe_queue := remove1 (next_entry q qs) (xe_queue x)\<rparr>"
      obtain x' res where run: "begin_review put env fresh (next_entry q qs) y = (x', res)" by fastforce
      have "readable (xe_ledger y)" "\<forall>t\<in>T. dget (slots_in (xe_ledger y)) t = None" using ok take(2) by (simp_all add: slots_idle y_def)
      from begin_review_slots [OF rel this _ run] new take(1) obtain r where
        r: "res = Inr r" "slots_ok_for r (xe_ledger x') (if fresh then insert (xv_token env) T else T)"
        by (auto simp: draws_def y_def)
      have "work put env w x = x'\<lparr>xe_runner := r\<rparr>"
        using take run r(1) by (simp add: work_def Let_def y_def ran_parts)
      then show ?thesis using r(2) take(1) by (simp add: draws_def)
    next
      case answer
      obtain x' res where run: "end_review put env fresh outcome q t ms ns x = (x', res)" by fastforce
      from end_review_ledger [OF rel ok [unfolded answer(2)] assms(3) run] obtain r where
        r: "res = Inr r" "holding r = None" "readable (xe_ledger x')" "\<forall>t\<in>T. dget (slots_in (xe_ledger x')) t = None" by blast
      have "work put env w x = x'\<lparr>xe_runner := r\<rparr>" using answer run r(1) by (simp add: work_def ran_parts)
      then show ?thesis using r(2-4) answer(1) by (simp add: draws_def slots_idle)
    next
      case deliver
      obtain s r where r: "end_delivery put env outcome q x = (x\<lparr>xe_sink := s\<rparr>, Inr r)" "holding r = None"
        using end_delivery_runs [OF rel] by blast
      have "work put env w x = x\<lparr>xe_sink := s\<rparr>\<lparr>xe_runner := r\<rparr>" using deliver r(1) by (simp add: work_def ran_parts)
      then show ?thesis using r(2) ok deliver by (simp add: draws_def slots_idle)
    qed
  qed
qed

lemma close_slots:
  assumes "reliable put" "slots_ok_for (xe_runner x) (xe_ledger x) T" "clocks_dated env"
  shows "slots_ok_for (xe_runner (close_executor put env x)) (xe_ledger (close_executor put env x)) T"
proof (cases "\<exists>q t ms ns. xe_runner x = Alive (Reviewing q t ms ns)")
  case True
  then obtain q t ms ns where r: "xe_runner x = Alive (Reviewing q t ms ns)" by blast
  obtain x' res where run: "end_review put env False ReviewCancelled q t ms ns x = (x', res)" by fastforce
  have "close_executor put env x = x'\<lparr>xe_runner := NoRunner\<rparr>" by (simp add: close_executor_def r run)
  then show ?thesis using end_review_ledger [OF assms(1) assms(2) [unfolded r] assms(3) run] by (auto simp: slots_idle)
next
  case False
  then have "close_executor put env x = x\<lparr>xe_runner := NoRunner\<rparr>" "holding (xe_runner x) = None"
    by (auto simp: close_executor_def holding_def split: runner.split phase.split)
  then show ?thesis using assms(2) by (simp add: slots_idle)
qed

lemma submit_parts:
  assumes "submit put env job x = (x', r)"
  shows "xe_ledger x' = xe_ledger x" "holding (xe_runner x') = holding (xe_runner x)"
  using assms by (auto simp: submit_def Let_def record_in_def attempt_bind_def enqueue_def split: if_splits prod.splits sum.splits)

lemma run_slots:
  assumes "exec_run put s x T" "reliable put"
  shows "slots_ok_for (xe_runner x) (xe_ledger x) T"
  using assms(1)
proof (induction rule: exec_run.induct)
  case (launched f config generation delivers)
  then show ?case by (simp add: new_executor_def slots_idle)
next
  case (continued x T x' T')
  show ?case using continued(2)
  proof (cases rule: exec_step.cases)
    case (submitting env job r)
    then show ?thesis using slots_spare [OF _ continued(3)] submit_parts [OF submitting(2)] by metis
  next
    case (configuring config generation)
    then show ?thesis using continued(3) by (simp add: update_config_def)
  next
    case (working env w)
    then show ?thesis using work_slots [OF assms(2) continued(3)] by simp
  next
    case (closing env)
    then show ?thesis using close_slots [OF assms(2) continued(3)] by simp
  next
    case (elsewhere op)
    have "dget (slots_in (xe_ledger x)) t = Some s" if "t \<in> T" "dget (slots_in (ledger_step (xe_ledger x) op)) t = Some s" for t s
      using step_keeps_slot [OF that(2)] elsewhere(3) that(1) by (metis imageI)
    then show ?thesis using continued(3) step_readable elsewhere(1,2) by (fastforce simp: slots_ok_for_def)
  qed
qed

end
