(* ===== verification/Executor_Events.thy ===== *)
theory Executor_Events
  imports Executor_Slots
begin

text \<open>
  What the executor records: every operation as the list of event kinds it records for one job
  (\<open>told\<close>), and the invariant that no event identifier is offered twice (\<open>events_ok\<close>).
\<close>

section \<open>Event identifiers\<close>

text \<open>A recorder that notes every event it is given, and raises when it likes.\<close>

definition noting :: "(trace_event \<Rightarrow> trace_event list \<Rightarrow> exc option) \<Rightarrow> trace_event list recorder" where
  "noting refuses e es = (es @ [e], case refuses e es of None \<Rightarrow> Inr () | Some err \<Rightarrow> Inl err)"

definition job_ref :: "string \<Rightarrow> string \<Rightarrow> string" where
  "job_ref j k = ''spotter:review-job:'' @ j @ '':'' @ k"

definition plain_kind :: "string \<Rightarrow> bool" where
  "plain_kind k \<longleftrightarrow> CHR '':'' \<notin> set k"

lemma split_at: "c \<notin> set a \<Longrightarrow> c \<notin> set b \<Longrightarrow> a @ c # r = b @ c # s \<Longrightarrow> a = b \<and> r = s"
proof (induction a arbitrary: b)
  case Nil
  then show ?case by (cases b) auto
next
  case (Cons x a)
  then show ?case by (cases b) auto
qed

lemma job_ref_inj:
  assumes "plain_kind k" "plain_kind k'" "job_ref j k = job_ref j' k'"
  shows "j = j'" "k = k'"
proof -
  have "j @ CHR '':'' # k = j' @ CHR '':'' # k'" using assms(3) by (simp add: job_ref_def)
  then have "rev (j @ CHR '':'' # k) = rev (j' @ CHR '':'' # k')" by (rule arg_cong)
  then have "rev k @ CHR '':'' # rev j = rev k' @ CHR '':'' # rev j'" by simp
  then have "rev k = rev k' \<and> rev j = rev j'" using assms(1,2) by (intro split_at) (simp_all add: plain_kind_def)
  then show "j = j'" "k = k'" by simp_all
qed

lemma job_event_ref [simp]: "ev_id (job_event job k p g t) = Some (job_ref (rj_id job) k)"
  by (simp add: job_event_def job_ref_def)

abbreviation job_of :: "queue_entry \<Rightarrow> string" where
  "job_of q \<equiv> rj_id (qe_job q)"

definition refs :: "trace_event list executor \<Rightarrow> string option list" where
  "refs x = map ev_id (xe_sink x)"

text \<open>Everything but the ledger and the recorded events is as it was; events of kinds \<open>ks\<close> were recorded for \<open>j\<close>.\<close>

definition told :: "string \<Rightarrow> string list \<Rightarrow> trace_event list executor \<Rightarrow> trace_event list executor \<Rightarrow> bool" where
  "told j ks x x' \<longleftrightarrow> refs x' = refs x @ map (\<lambda>k. Some (job_ref j k)) ks \<and> xe_queue x' = xe_queue x
     \<and> xe_submitted x' = xe_submitted x \<and> xe_runner x' = xe_runner x"

lemma told_none: "told j [] x x" "told j [] x (x\<lparr>xe_ledger := f\<rparr>)"
  by (simp_all add: told_def refs_def)

lemma told_trans: "told j ks x y \<Longrightarrow> told j ls y z \<Longrightarrow> told j (ks @ ls) x z"
  by (simp add: told_def)

lemma tell_told: "tell (noting refuses) env q k p x = (x', r) \<Longrightarrow> told (job_of q) [k] x x'"
  by (auto simp: tell_def record_in_def noting_def told_def refs_def)

lemma tell_bind:
  assumes "attempt_bind (tell (noting refuses) env q k p x) f = (x', r)"
  obtains (stops) err where "told (job_of q) [k] x x'" "r = Inl err"
  | (goes) y where "told (job_of q) [k] x y" "f y () = (x', r)"
proof -
  obtain y s where run: "tell (noting refuses) env q k p x = (y, s)" by fastforce
  note t = tell_told [OF run]
  show thesis using assms run t that by (cases s) (auto simp: attempt_bind_def)
qed

definition idle_end :: "(exc + runner) \<Rightarrow> bool" where
  "idle_end r \<longleftrightarrow> (\<exists>err. r = Inl err) \<or> r = Inr (Alive Waiting) \<or> r = Inr Finished"

definition began :: "queue_entry \<Rightarrow> string list \<Rightarrow> (exc + runner) \<Rightarrow> bool" where
  "began q ks r \<longleftrightarrow> idle_end r \<and> (ks = [] \<or> ks = [''reviewer_error''] \<or> ks = [''reviewer_capped''])
     \<or> ks = [''review_inference_started''] \<and> ((\<exists>err. r = Inl err) \<or> (\<exists>t ms ns. r = Inr (Alive (Reviewing q t ms ns))))"

lemma begin_review_told:
  assumes "begin_review (noting refuses) env fresh q x = (x', r)"
  shows "\<exists>ks. told (job_of q) ks x x' \<and> began q ks r"
proof (cases fresh)
  case False
  then show ?thesis using assms told_none by (intro exI [of _ "[]"]) (auto simp: begin_review_def began_def idle_end_def)
next
  case True
  obtain f v where rv: "reserve (session_of q) (vc_per_session (qe_config q)) (vc_per_day (qe_config q)) (xv_clock env) (xv_token env) (xe_ledger x) = (f, v)"
    by fastforce
  define y where "y = x\<lparr>xe_ledger := f\<rparr>"
  have y: "told j ks y z \<Longrightarrow> told j ks x z" for j ks z using told_trans [OF told_none(2)] by (fastforce simp: y_def)
  consider (failed) err where "v = Inl err" | (no) m where "v = Inr (None, m)" | (yes) t m where "v = Inr (Some t, m)"
    by (metis old.sum.exhaust option.exhaust surj_pair)
  then show ?thesis
  proof cases
    case failed
    then have run: "reserve_failed (noting refuses) env q err y = (x', r)" using assms True rv by (simp add: begin_review_def y_def)
    show ?thesis using run unfolding reserve_failed_def
      by (elim tell_bind) (auto simp: began_def idle_end_def dest!: y intro!: exI [of _ "[''reviewer_error'']"])
  next
    case no
    then have run: "refused (noting refuses) env q m y = (x', r)" using assms True rv by (simp add: begin_review_def y_def)
    define k where "k = (if contains ''unreadable'' m then ''reviewer_error'' else ''reviewer_capped'')"
    have k: "k = ''reviewer_error'' \<or> k = ''reviewer_capped''" by (simp add: k_def)
    show ?thesis using run k unfolding refused_def Let_def k_def [symmetric]
      by (elim tell_bind) (auto simp: began_def idle_end_def dest!: y intro!: exI [of _ "[k]"])
  next
    case yes
    then have run: "granted (noting refuses) env q t y = (x', r)" using assms True rv by (simp add: begin_review_def y_def)
    show ?thesis using run unfolding granted_def Let_def
      by (elim tell_bind) (auto simp: began_def idle_end_def dest!: y intro!: exI [of _ "[''review_inference_started'']"])
  qed
qed

lemma pay_told: "pay env session t n x = (x', r) \<Longrightarrow> told j [] x x'"
  by (auto simp: pay_def told_def refs_def split: prod.splits sum.splits option.splits)

definition handed :: "queue_entry \<Rightarrow> reviewer_decision \<Rightarrow> string list \<Rightarrow> (exc + runner) \<Rightarrow> bool" where
  "handed q d ks r \<longleftrightarrow> idle_end r \<and> (ks = [] \<or> ks = [''intervention_delivery_error''])
     \<or> r = Inr (Alive (Delivering q d)) \<and> ks = []"

lemma hand_over_told:
  assumes "hand_over (noting refuses) env q d stale x = (x', r)"
  shows "\<exists>ks. told (job_of q) ks x x' \<and> handed q d ks r"
proof (cases "deliverable q d stale \<and> \<not> xe_delivers x")
  case True
  then show ?thesis using assms unfolding hand_over_def
    by (auto elim!: tell_bind simp: handed_def idle_end_def intro!: exI [of _ "[''intervention_delivery_error'']"])
next
  case False
  then show ?thesis using assms told_none(1) [of "job_of q" x]
    by (intro exI [of _ "[]"]) (auto simp: hand_over_def handed_def idle_end_def split: if_splits)
qed

definition answer_kinds :: "string list" where
  "answer_kinds = [''reviewer_error'', ''reviewer_decision'', ''would_interrupt'', ''intervention_delivery_error'']"

text \<open>Whatever is recorded at the end of a review is recorded once; on a delivery, no failure of it yet.\<close>

definition answered :: "queue_entry \<Rightarrow> string list \<Rightarrow> (exc + runner) \<Rightarrow> bool" where
  "answered q ks r \<longleftrightarrow> distinct ks
     \<and> ((\<exists>err. r = Inl err) \<or> ''reviewer_decision'' \<in> set ks \<or> ''reviewer_error'' \<in> set ks)
     \<and> (idle_end r \<and> set ks \<subseteq> set answer_kinds
     \<or> (\<exists>d. r = Inr (Alive (Delivering q d))) \<and> set ks \<subseteq> {''reviewer_decision'', ''would_interrupt''})"

lemma answered_handed:
  assumes "handed q d ks r" "ks0 = [''reviewer_decision''] \<or> ks0 = [''reviewer_decision'', ''would_interrupt'']"
  shows "answered q (ks0 @ ks) r"
proof -
  have "ks = [] \<or> ks = [''intervention_delivery_error'']" using assms(1) by (auto simp: handed_def)
  then have "distinct (ks0 @ ks) \<and> set (ks0 @ ks) \<subseteq> set answer_kinds" using assms(2) by (elim disjE) (simp_all add: answer_kinds_def)
  moreover have "''reviewer_decision'' \<in> set (ks0 @ ks)" using assms(2) by (elim disjE) simp_all
  moreover have "set ks0 \<subseteq> {''reviewer_decision'', ''would_interrupt''}" using assms(2) by (elim disjE) simp_all
  ultimately show ?thesis using assms(1) unfolding handed_def answered_def by (elim disjE conjE) simp_all
qed

lemma decided_told:
  assumes "decided (noting refuses) env q d stale s ms im x = (x', r)"
  shows "\<exists>ks. told (job_of q) ks x x' \<and> answered q ks r"
  using assms unfolding decided_def
proof (cases rule: tell_bind)
  case (stops err)
  then show ?thesis by (intro exI [of _ "[''reviewer_decision'']"]) (simp add: answered_def answer_kinds_def idle_end_def)
next
  case (goes y)
  show ?thesis
  proof (cases "vc_interrupt (qe_config q) \<and> vd_decision d = ''nudge''")
    case True
    have "attempt_bind (tell (noting refuses) env q ''would_interrupt'' (interrupt_payload q stale) y)
        (\<lambda>x _. hand_over (noting refuses) env q d stale x) = (x', r)" using goes(2) True by simp
    then show ?thesis
    proof (cases rule: tell_bind)
      case (stops err)
      then show ?thesis using told_trans [OF goes(1) stops(1)]
        by (intro exI [of _ "[''reviewer_decision'', ''would_interrupt'']"]) (simp add: answered_def answer_kinds_def idle_end_def)
    next
      case (goes z)
      obtain ks where ks: "told (job_of q) ks z x'" "handed q d ks r" using hand_over_told [OF goes(2)] by blast
      have "told (job_of q) ([''reviewer_decision'', ''would_interrupt''] @ ks) x x'"
        using told_trans [OF told_trans [OF \<open>told (job_of q) [''reviewer_decision''] x y\<close> goes(1)] ks(1)] by simp
      moreover have "answered q ([''reviewer_decision'', ''would_interrupt''] @ ks) r" by (rule answered_handed [OF ks(2)]) simp
      ultimately show ?thesis by (intro exI conjI)
    qed
  next
    case False
    then have "hand_over (noting refuses) env q d stale y = (x', r)" using goes(2) by (auto simp: attempt_bind_def split: if_splits)
    from hand_over_told [OF this] obtain ks where ks: "told (job_of q) ks y x'" "handed q d ks r" by blast
    have "answered q ([''reviewer_decision''] @ ks) r" by (rule answered_handed [OF ks(2)]) simp
    then show ?thesis using told_trans [OF goes(1) ks(1)] by (intro exI conjI)
  qed
qed

lemma end_review_told:
  assumes "end_review (noting refuses) env fresh outcome q t ms ns x = (x', r)"
  shows "\<exists>ks. told (job_of q) ks x x' \<and> answered q ks r"
proof -
  obtain y v where pay: "pay env (session_of q) t (case outcome of Decided d n \<Rightarrow> n | _ \<Rightarrow> 0) x = (y, v)" by fastforce
  note y = pay_told [OF pay, of "job_of q"]
  show ?thesis
  proof (cases v)
    case (Inl err)
    then have "x' = y" "r = Inl err" using assms pay by (auto simp: end_review_def Let_def attempt_bind_def split: review_outcome.splits)
    then show ?thesis using y by (intro exI [of _ "[]"]) (simp add: answered_def idle_end_def)
  next
    case (Inr s)
    have err: ?thesis if "attempt_bind (tell (noting refuses) env q ''reviewer_error'' p y) (\<lambda>x _. (x, Inr r0)) = (x', r)" "idle_end (Inr r0)" for p r0
      using that(1)
    proof (cases rule: tell_bind)
      case (stops err)
      then show ?thesis using told_trans [OF y stops(1)]
        by (intro exI [of _ "[''reviewer_error'']"]) (simp add: answered_def answer_kinds_def idle_end_def)
    next
      case (goes z)
      then show ?thesis using told_trans [OF y goes(1)] that(2)
        by (intro exI [of _ "[''reviewer_error'']"]) (auto simp: answered_def answer_kinds_def)
    qed
    show ?thesis
    proof (cases outcome)
      case (Decided d n)
      then have "decided (noting refuses) env q d (\<not> fresh) s ms (elapsed_ms (xv_ns env) ns) y = (x', r)"
        using assms pay Inr by (simp add: end_review_def Let_def attempt_bind_def)
      from decided_told [OF this] obtain ks where "told (job_of q) ks y x'" "answered q ks r" by blast
      then show ?thesis using told_trans [OF y] by fastforce
    next
      case (ReviewFailed m)
      then show ?thesis using assms pay Inr
        by (intro err [of "failed_payload q (take 300 m) s ms (elapsed_ms (xv_ns env) ns)" "Alive Waiting"])
          (simp_all add: end_review_def Let_def attempt_bind_def idle_end_def)
    next
      case ReviewCancelled
      then show ?thesis using assms pay Inr
        by (intro err [of "failed_payload q ''review cancelled during daemon shutdown'' s ms (elapsed_ms (xv_ns env) ns)" Finished])
          (simp_all add: end_review_def Let_def attempt_bind_def idle_end_def)
    qed
  qed
qed

lemma end_delivery_told:
  assumes "end_delivery (noting refuses) env outcome q x = (x', r)"
  shows "\<exists>ks. told (job_of q) ks x x' \<and> idle_end r \<and> (ks = [] \<or> ks = [''intervention_delivery_error''])"
proof (cases outcome)
  case (DeliveryFailed m)
  have run: "attempt_bind (tell (noting refuses) env q ''intervention_delivery_error'' (delivery_error q (take 300 m)) x)
      (\<lambda>x _. (x, Inr (Alive Waiting))) = (x', r)" using assms by (simp add: end_delivery_def DeliveryFailed)
  then show ?thesis by (cases rule: tell_bind) (auto simp: idle_end_def intro!: exI [of _ "[''intervention_delivery_error'']"])
qed (use assms told_none(1) [of "job_of q" x] in \<open>auto simp: end_delivery_def idle_end_def intro!: exI [of _ "[]"]\<close>)

lemma submit_told:
  assumes "submit (noting refuses) env job x = (x', r)"
  obtains (kept) "x' = x"
  | (lost) "rj_id job \<notin> xe_submitted x" "refs x' = refs x @ [Some (job_ref (rj_id job) ''review_job_config_pinned'')]"
      "xe_submitted x' = insert (rj_id job) (xe_submitted x)" "xe_queue x' = xe_queue x" "xe_runner x' = xe_runner x"
  | (queued) q where "rj_id job \<notin> xe_submitted x" "refs x' = refs x @ [Some (job_ref (rj_id job) ''review_job_config_pinned'')]"
      "xe_submitted x' = insert (rj_id job) (xe_submitted x)" "xe_queue x' = xe_queue x @ [q]" "job_of q = rj_id job"
      "xe_runner x' = start_runner (xe_runner x)"
proof (cases "\<not> vc_on_signals (xe_config x) \<or> rj_id job \<in> xe_submitted x")
  case True
  then show thesis using that(1) assms by (simp add: submit_def)
next
  case False
  define x1 where "x1 = x\<lparr>xe_submitted := insert (rj_id job) (xe_submitted x), xe_sequence := xe_sequence x + 1\<rparr>"
  obtain x2 v where rec: "record_in (noting refuses) (job_event job ''review_job_config_pinned''
      [(''review_job_id'', PStr (rj_id job)), (''model'', PStr (vc_model (xe_config x)))] (xe_generation x)
      (xv_time env ''review_job_config_pinned'')) x1 = (x2, v)" by fastforce
  have x2: "refs x2 = refs x @ [Some (job_ref (rj_id job) ''review_job_config_pinned'')]"
    "xe_submitted x2 = insert (rj_id job) (xe_submitted x)" "xe_queue x2 = xe_queue x" "xe_runner x2 = xe_runner x"
    using rec by (auto simp: record_in_def noting_def refs_def x1_def)
  have run: "attempt_bind (x2, v) (\<lambda>x2 _. case priority job of Inl err \<Rightarrow> (x2, Inl err)
      | Inr p \<Rightarrow> (enqueue (pinned_entry env job x2 p) x2, Inr ())) = (x', r)"
    using assms False rec by (simp add: submit_def Let_def x1_def)
  show thesis
  proof (cases "(\<exists>err. v = Inl err) \<or> (\<exists>err. priority job = Inl err)")
    case True
    then have "x' = x2" using run by (auto simp: attempt_bind_def split: sum.splits)
    then show thesis using that(2) False x2 by simp
  next
    case False
    then obtain p where "priority job = Inr p" "v = Inr ()" by (cases v; cases "priority job") auto
    then have "x' = enqueue (pinned_entry env job x2 p) x2" using run by (simp add: attempt_bind_def)
    then show thesis using that(3) [of "pinned_entry env job x2 p"] \<open>\<not> (\<not> vc_on_signals (xe_config x) \<or> rj_id job \<in> xe_submitted x)\<close> x2
      by (simp add: enqueue_def pinned_entry_def refs_def)
  qed
qed

section \<open>No identifier twice\<close>

text \<open>The job under way and the kinds it may have recorded so far.\<close>

definition review_kinds :: "string set" where
  "review_kinds = {''review_job_config_pinned'', ''review_inference_started''}"

definition delivery_kinds :: "string set" where
  "delivery_kinds = {''review_job_config_pinned'', ''review_inference_started'', ''reviewer_decision'', ''would_interrupt''}"

definition active :: "runner \<Rightarrow> (queue_entry \<times> string set) option" where
  "active r = (case r of
      Alive (Reviewing q t ms ns) \<Rightarrow> Some (q, review_kinds)
    | Alive (Delivering q d) \<Rightarrow> Some (q, delivery_kinds)
    | _ \<Rightarrow> None)"

definition stage :: "'s executor \<Rightarrow> string \<Rightarrow> string set" where
  "stage x j =
     (if j \<in> job_of ` set (xe_queue x) then {''review_job_config_pinned''}
      else case active (xe_runner x) of Some (q, K) \<Rightarrow> if job_of q = j then K else UNIV | None \<Rightarrow> UNIV)"

definition pending :: "'s executor \<Rightarrow> string list" where
  "pending x = map job_of (xe_queue x) @ (case active (xe_runner x) of Some (q, _) \<Rightarrow> [job_of q] | None \<Rightarrow> [])"

definition events_ok :: "trace_event list executor \<Rightarrow> bool" where
  "events_ok x \<longleftrightarrow> distinct (refs x) \<and> distinct (pending x) \<and> set (pending x) \<subseteq> xe_submitted x
     \<and> (\<forall>v\<in>set (refs x). \<exists>j k. v = Some (job_ref j k) \<and> plain_kind k \<and> j \<in> xe_submitted x \<and> k \<in> stage x j)"

lemma active_simps [simp]:
  "active NoRunner = None" "active Finished = None" "active (Alive Waiting) = None" "active (start_runner r) = active r"
  "active (Alive (Reviewing q t ms ns)) = Some (q, review_kinds)" "active (Alive (Delivering q d)) = Some (q, delivery_kinds)"
  by (simp_all add: active_def start_runner_def split: runner.split)

lemma idle_active: "idle_end r \<Longrightarrow> r = Inr r' \<Longrightarrow> active r' = None"
  by (auto simp: idle_end_def)

lemma events_grow:
  assumes ok: "events_ok x" and refs: "refs x' = refs x @ map (\<lambda>k. Some (job_ref j k)) ks"
    and ks: "distinct ks" "\<forall>k\<in>set ks. plain_kind k" "set ks \<subseteq> stage x' j" "j \<in> xe_submitted x \<Longrightarrow> set ks \<inter> stage x j = {}"
    and sub: "xe_submitted x \<subseteq> xe_submitted x'" "ks \<noteq> [] \<Longrightarrow> j \<in> xe_submitted x'"
    and pend: "distinct (pending x')" "set (pending x') \<subseteq> xe_submitted x'" and stage: "\<And>i. i \<in> xe_submitted x \<Longrightarrow> stage x i \<subseteq> stage x' i"
  shows "events_ok x'"
proof -
  have old: "\<exists>i k. v = Some (job_ref i k) \<and> plain_kind k \<and> i \<in> xe_submitted x \<and> k \<in> stage x i" if "v \<in> set (refs x)" for v
    using ok that by (auto simp: events_ok_def)
  have "inj_on (\<lambda>k. Some (job_ref j k)) (set ks)" using job_ref_inj(2) ks(2) by (auto simp: inj_on_def)
  then have "distinct (map (\<lambda>k. Some (job_ref j k)) ks)" using ks(1) by (simp add: distinct_map)
  moreover have "Some (job_ref j k) \<notin> set (refs x)" if "k \<in> set ks" for k
  proof
    assume "Some (job_ref j k) \<in> set (refs x)"
    from old [OF this] obtain i k' where i: "job_ref j k = job_ref i k'" "plain_kind k'" "i \<in> xe_submitted x" "k' \<in> stage x i" by auto
    then have "j = i" "k = k'" using job_ref_inj [OF _ i(2) i(1)] ks(2) that by auto
    then show False using i(3,4) ks(4) that by auto
  qed
  ultimately have "distinct (refs x')" using ok by (auto simp: refs events_ok_def)
  moreover have "\<exists>i k. v = Some (job_ref i k) \<and> plain_kind k \<and> i \<in> xe_submitted x' \<and> k \<in> stage x' i" if v: "v \<in> set (refs x')" for v
  proof (cases "v \<in> set (refs x)")
    case True
    then show ?thesis using old sub(1) stage by blast
  next
    case False
    then obtain k where "v = Some (job_ref j k)" "k \<in> set ks" using v by (auto simp: refs)
    moreover from this have "ks \<noteq> []" by auto
    moreover have "plain_kind k \<and> j \<in> xe_submitted x' \<and> k \<in> stage x' j" using ks(2,3) sub(2) calculation by auto
    ultimately show ?thesis by blast
  qed
  ultimately show ?thesis using pend by (simp add: events_ok_def)
qed

text \<open>An operation of the task that was on \<open>q\<close> and is not on it any more, or still.\<close>

lemma next_entry_in: "next_entry q qs \<in> set (q # qs)"
proof (induction qs arbitrary: q)
  case (Cons a qs)
  then show ?case using Cons [of a] Cons [of q] by auto
qed simp

lemma plain_kinds:
  "plain_kind ''review_job_config_pinned''" "plain_kind ''review_inference_started''" "plain_kind ''reviewer_error''"
  "plain_kind ''reviewer_capped''" "plain_kind ''reviewer_decision''" "plain_kind ''would_interrupt''" "plain_kind ''intervention_delivery_error''"
  by (simp_all add: plain_kind_def)

lemma ran_told:
  assumes "told j ks x x'"
  shows "refs (ran (x', r)) = refs x @ map (\<lambda>k. Some (job_ref j k)) ks" "xe_queue (ran (x', r)) = xe_queue x"
    "xe_submitted (ran (x', r)) = xe_submitted x" "xe_runner (ran (x', r)) = (case r of Inl _ \<Rightarrow> Finished | Inr r' \<Rightarrow> r')"
  using assms by (cases r; simp add: ran_def told_def refs_def)+

lemma answer_plain: "set ks \<subseteq> set answer_kinds \<Longrightarrow> \<forall>k\<in>set ks. plain_kind k"
  using plain_kinds by (auto simp: answer_kinds_def)

lemma kinds_apart:
  "set answer_kinds \<inter> review_kinds = {}" "review_kinds \<subseteq> delivery_kinds" "{''reviewer_decision'', ''would_interrupt''} \<subseteq> delivery_kinds"
  "''intervention_delivery_error'' \<notin> delivery_kinds" "{''reviewer_decision'', ''would_interrupt''} \<subseteq> set answer_kinds"
  "''review_inference_started'' \<in> review_kinds" "''review_job_config_pinned'' \<in> review_kinds"
  by (simp_all add: answer_kinds_def review_kinds_def delivery_kinds_def)

lemma answered_events:
  assumes ok: "events_ok x" and r0: "xe_runner x = Alive (Reviewing q t ms ns)" and t: "told (job_of q) ks x x'" and a: "answered q ks r"
  shows "events_ok (ran (x', r))"
proof -
  have act: "active (xe_runner x) = Some (q, review_kinds)" by (simp add: r0 active_def)
  have out: "job_of q \<notin> job_of ` set (xe_queue x)" "distinct (map job_of (xe_queue x))" "job_of q \<in> xe_submitted x"
    "set (map job_of (xe_queue x)) \<subseteq> xe_submitted x" using ok act by (auto simp: events_ok_def pending_def)
  note x' = ran_told [OF t, of r]
  have sub: "set ks \<subseteq> set answer_kinds" using a kinds_apart(5) unfolding answered_def by blast
  have st: "stage x (job_of q) = review_kinds" using out(1) by (simp add: stage_def act)
  have idle_or: "active (xe_runner (ran (x', r))) = None
      \<or> active (xe_runner (ran (x', r))) = Some (q, delivery_kinds)
        \<and> set ks \<subseteq> {''reviewer_decision'', ''would_interrupt''}"
  proof -
    have "idle_end r \<or> (\<exists>d. r = Inr (Alive (Delivering q d))) \<and> set ks \<subseteq> {''reviewer_decision'', ''would_interrupt''}"
      using a unfolding answered_def by blast
    then show ?thesis
  proof (elim conjE disjE exE)
    assume "idle_end r"
    then have "active (xe_runner (ran (x', r))) = None" by (auto simp: x'(4) idle_end_def)
    then show ?thesis ..
  next
    fix d assume "r = Inr (Alive (Delivering q d))" "set ks \<subseteq> {''reviewer_decision'', ''would_interrupt''}"
    then show ?thesis by (simp add: ran_told(4) [OF t])
  qed
  qed
  show ?thesis
  proof (rule events_grow [OF ok x'(1)])
    show "set ks \<subseteq> stage (ran (x', r)) (job_of q)"
      using idle_or out(1) subset_trans [OF _ kinds_apart(3), of "set ks"] by (elim disjE conjE) (simp_all add: stage_def x'(2))
    show "set ks \<inter> stage x (job_of q) = {}" using sub kinds_apart(1) by (auto simp: st)
    show "distinct (pending (ran (x', r)))" "set (pending (ran (x', r))) \<subseteq> xe_submitted (ran (x', r))"
      using idle_or out by (auto simp: pending_def x'(2,3) image_iff)
    show "stage x i \<subseteq> stage (ran (x', r)) i" for i
      using idle_or kinds_apart(2) by (elim disjE conjE) (simp_all add: stage_def x'(2) act)
    show "distinct ks" using a by (simp add: answered_def)
  qed (use out(3) answer_plain [OF sub] in \<open>simp_all add: x'(3)\<close>)
qed

lemma delivered_events:
  assumes ok: "events_ok x" and r0: "xe_runner x = Alive (Delivering q d)" and t: "told (job_of q) ks x x'"
    and a: "idle_end r" "ks = [] \<or> ks = [''intervention_delivery_error'']"
  shows "events_ok (ran (x', r))"
proof -
  have act: "active (xe_runner x) = Some (q, delivery_kinds)" by (simp add: r0 active_def)
  have out: "job_of q \<notin> job_of ` set (xe_queue x)" "distinct (map job_of (xe_queue x))" "job_of q \<in> xe_submitted x"
    "set (map job_of (xe_queue x)) \<subseteq> xe_submitted x" using ok act by (auto simp: events_ok_def pending_def)
  note x' = ran_told [OF t, of r]
  have idle: "active (xe_runner (ran (x', r))) = None" using a(1) by (auto simp: x'(4) idle_end_def)
  show ?thesis
  proof (rule events_grow [OF ok x'(1)])
    show "set ks \<inter> stage x (job_of q) = {}" using a(2) out(1) kinds_apart(4) by (auto simp: stage_def act)
    show "set ks \<subseteq> stage (ran (x', r)) (job_of q)" using out(1) by (auto simp: stage_def x'(2) idle)
    show "stage x i \<subseteq> stage (ran (x', r)) i" for i by (auto simp: stage_def x'(2) idle)
    show "\<forall>k\<in>set ks. plain_kind k" using a(2) plain_kinds by auto
  qed (use a(2) out in \<open>auto simp: x'(2,3) pending_def idle\<close>)
qed

lemma taken_events:
  assumes ok: "events_ok x" and r0: "xe_runner x = Alive Waiting" and q: "q \<in> set (xe_queue x)"
    and t: "told (job_of q) ks (x\<lparr>xe_queue := remove1 q (xe_queue x)\<rparr>) x'" and a: "began q ks r"
  shows "events_ok (ran (x', r))"
proof -
  have out: "distinct (map job_of (xe_queue x))" "set (map job_of (xe_queue x)) \<subseteq> xe_submitted x"
    using ok by (auto simp: events_ok_def pending_def)
  have dist: "distinct (xe_queue x)" using out(1) by (simp add: distinct_map)
  have rest: "job_of ` set (remove1 q (xe_queue x)) = job_of ` set (xe_queue x) - {job_of q}"
    using out(1) q dist by (auto simp: distinct_map set_remove1_eq [OF dist] inj_on_def)
  have rest_distinct: "distinct (map job_of (remove1 q (xe_queue x)))"
    using out(1) by (meson distinct_map distinct_remove1 dist inj_on_subset set_remove1_subset)
  note x' = ran_told [OF t, of r, simplified]
  have refs: "refs (ran (x', r)) = refs x @ map (\<lambda>k. Some (job_ref (job_of q) k)) ks" using x'(1) by (simp add: refs_def)
  have st: "stage x (job_of q) = {''review_job_config_pinned''}" using q by (simp add: stage_def)
  have in_sub: "job_of q \<in> xe_submitted x" using out(2) q by auto
  have kinds: "set ks \<subseteq> {''reviewer_error'', ''reviewer_capped'', ''review_inference_started''}" "distinct ks"
    using a by (auto simp: began_def)
  have act: "active (xe_runner (ran (x', r))) = None
      \<or> active (xe_runner (ran (x', r))) = Some (q, review_kinds) \<and> ks = [''review_inference_started'']"
    using a by (auto simp: began_def idle_end_def ran_told(4) [OF t])
  show ?thesis
  proof (rule events_grow [OF ok refs])
    show "set ks \<subseteq> stage (ran (x', r)) (job_of q)"
      using act kinds_apart(6) by (elim disjE conjE) (simp_all add: stage_def x'(2) rest)
    show "set ks \<inter> stage x (job_of q) = {}" using kinds(1) by (auto simp: st)
    show "\<forall>k\<in>set ks. plain_kind k" using kinds(1) plain_kinds by auto
    show "distinct (pending (ran (x', r)))" "set (pending (ran (x', r))) \<subseteq> xe_submitted (ran (x', r))"
      using act rest rest_distinct out in_sub by (auto simp: pending_def x'(2,3))
    show "stage x i \<subseteq> stage (ran (x', r)) i" for i
    proof (cases "i = job_of q")
      case True
      then show ?thesis using act kinds_apart(7) by (elim disjE conjE) (simp_all add: st stage_def [of "ran (x', r)"] x'(2) rest)
    next
      case False
      then show ?thesis using act by (elim disjE conjE) (auto simp: stage_def x'(2) rest r0)
    qed
  qed (use in_sub kinds(2) in \<open>simp_all add: x'(3)\<close>)
qed

lemma events_kept:
  assumes "events_ok x" "refs x' = refs x" "xe_queue x' = xe_queue x" "xe_submitted x' = xe_submitted x"
    and "active (xe_runner x') = active (xe_runner x) \<or> active (xe_runner x') = None"
  shows "events_ok x'"
proof (rule events_grow [OF assms(1), of x' "[]" "[]"])
  show "distinct (pending x')" "set (pending x') \<subseteq> xe_submitted x'" using assms by (auto simp: events_ok_def pending_def split: option.splits)
  show "stage x i \<subseteq> stage x' i" for i using assms(3,5) by (auto simp: stage_def split: option.splits)
qed (use assms in simp_all)

lemma submitted_events:
  assumes ok: "events_ok x" and run: "submit (noting refuses) env job x = (x', r)"
  shows "events_ok x'"
  using run
proof (cases rule: submit_told)
  case kept
  then show ?thesis using ok by simp
next
  case lost
  have "rj_id job \<notin> set (pending x)" using ok lost(1) by (auto simp: events_ok_def)
  then have out: "rj_id job \<notin> job_of ` set (xe_queue x)" "\<And>q K. active (xe_runner x) = Some (q, K) \<Longrightarrow> job_of q \<noteq> rj_id job"
    by (auto simp: pending_def)
  show ?thesis
  proof (rule events_grow [OF ok, of x' "rj_id job" "[''review_job_config_pinned'']"])
    show "set [''review_job_config_pinned''] \<subseteq> stage x' (rj_id job)"
      using out by (auto simp: stage_def lost(4,5) split: option.split)
    have "pending x' = pending x" by (simp add: pending_def lost(4,5))
    then show "distinct (pending x')" "set (pending x') \<subseteq> xe_submitted x'"
      using ok by (auto simp: events_ok_def lost(3))
    show "stage x i \<subseteq> stage x' i" for i by (simp add: stage_def lost(4,5))
  qed (use lost plain_kinds in auto)
next
  case (queued q)
  have new: "rj_id job \<notin> set (pending x)" using ok queued(1) by (auto simp: events_ok_def)
  have act: "active (xe_runner x') = active (xe_runner x)" by (simp add: queued(6))
  show ?thesis
  proof (rule events_grow [OF ok, of x' "rj_id job" "[''review_job_config_pinned'']"])
    show "set [''review_job_config_pinned''] \<subseteq> stage x' (rj_id job)" by (simp add: stage_def queued(4,5))
    show "distinct (pending x')" "set (pending x') \<subseteq> xe_submitted x'"
      using ok new by (cases "active (xe_runner x)"; auto simp: events_ok_def pending_def act queued(3-5) split: prod.splits)+
    show "stage x i \<subseteq> stage x' i" if "i \<in> xe_submitted x" for i
      using that queued(1) by (auto simp: stage_def queued(4,5) act)
  qed (use queued plain_kinds in auto)
qed

lemma worked_events:
  assumes ok: "events_ok x"
  shows "events_ok (work (noting refuses) env w x)"
proof (cases "work (noting refuses) env w x = x")
  case True
  then show ?thesis using ok by simp
next
  case False
  then consider (take) fresh q qs where "w = TakeJob fresh" "xe_runner x = Alive Waiting" "xe_queue x = q # qs"
    | (answer) fresh outcome q t ms ns where "w = ReviewerAnswers fresh outcome" "xe_runner x = Alive (Reviewing q t ms ns)"
    | (deliver) outcome q d where "w = DeliveryEnds outcome" "xe_runner x = Alive (Delivering q d)"
    by (auto simp: work_def split: wake.splits runner.splits phase.splits list.splits)
  then show ?thesis
  proof cases
    case take
    define best where "best = next_entry q qs"
    obtain x' r where run: "begin_review (noting refuses) env fresh best (x\<lparr>xe_queue := remove1 best (xe_queue x)\<rparr>) = (x', r)" by fastforce
    have "best \<in> set (xe_queue x)" using next_entry_in [of q qs] take(3) by (simp add: best_def)
    from taken_events [OF ok take(2) this] begin_review_told [OF run] have "events_ok (ran (x', r))" by blast
    then show ?thesis using take run by (simp add: work_def Let_def best_def)
  next
    case answer
    obtain x' r where run: "end_review (noting refuses) env fresh outcome q t ms ns x = (x', r)" by fastforce
    from end_review_told [OF run] answered_events [OF ok answer(2)] have "events_ok (ran (x', r))" by blast
    then show ?thesis using answer run by (simp add: work_def)
  next
    case deliver
    obtain x' r where run: "end_delivery (noting refuses) env outcome q x = (x', r)" by fastforce
    from end_delivery_told [OF run] delivered_events [OF ok deliver(2)] have "events_ok (ran (x', r))" by blast
    then show ?thesis using deliver run by (simp add: work_def)
  qed
qed

lemma closed_events:
  assumes ok: "events_ok x"
  shows "events_ok (close_executor (noting refuses) env x)"
proof (cases "\<exists>q t ms ns. xe_runner x = Alive (Reviewing q t ms ns)")
  case True
  then obtain q t ms ns where r: "xe_runner x = Alive (Reviewing q t ms ns)" by blast
  obtain x' res where run: "end_review (noting refuses) env False ReviewCancelled q t ms ns x = (x', res)" by fastforce
  from end_review_told [OF run] answered_events [OF ok r] have "events_ok (ran (x', res))" by blast
  then have "events_ok (x'\<lparr>xe_runner := NoRunner\<rparr>)"
    by (rule events_kept) (cases res; simp add: ran_def refs_def)+
  then show ?thesis by (simp add: close_executor_def r run)
next
  case False
  then have "close_executor (noting refuses) env x = x\<lparr>xe_runner := NoRunner\<rparr>"
    by (auto simp: close_executor_def split: runner.split phase.split)
  then show ?thesis using events_kept [OF ok] by (simp add: refs_def)
qed

lemma moved_events:
  assumes "exec_move (noting refuses) x y" "events_ok x"
  shows "events_ok y"
  using assms(1)
proof (cases rule: exec_move.cases)
  case (configured config generation)
  then show ?thesis using events_kept [OF assms(2)] by (simp add: update_config_def refs_def)
next
  case (rewritten f)
  then show ?thesis using events_kept [OF assms(2)] by (simp add: refs_def)
qed (use assms(2) submitted_events worked_events closed_events in blast)+

lemma new_events: "events_ok (new_executor config generation delivers f [])"
  by (simp add: events_ok_def refs_def pending_def new_executor_def)

end
