(* ===== verification/Executor_Claims.thy ===== *)
theory Executor_Claims
  imports Executor_Events Scheduler_Samples Budget_Samples
begin

text \<open>
  What the review executor promises: distinct event identifiers, no reservation left behind, an
  outcome for every paid review, and what an unreadable ledger costs; with a sample run.
\<close>

section \<open>Outcomes of paid reviews\<close>

definition settled_review :: "trace_event list executor \<Rightarrow> string \<Rightarrow> bool" where
  "settled_review x j \<longleftrightarrow> Some (job_ref j ''reviewer_decision'') \<in> set (refs x) \<or> Some (job_ref j ''reviewer_error'') \<in> set (refs x)"

definition paid_ok :: "trace_event list executor \<Rightarrow> bool" where
  "paid_ok x \<longleftrightarrow> (\<forall>j. Some (job_ref j ''review_inference_started'') \<in> set (refs x) \<longrightarrow>
     settled_review x j \<or> (\<exists>q t. holding (xe_runner x) = Some (q, t) \<and> job_of q = j))"

lemma paid_grow:
  assumes "paid_ok x" "refs x' = refs x @ vs" "\<And>j. Some (job_ref j ''review_inference_started'') \<notin> set vs"
    and "\<And>q t. holding (xe_runner x) = Some (q, t) \<Longrightarrow> settled_review x' (job_of q) \<or> holding (xe_runner x') = Some (q, t)"
  shows "paid_ok x'"
proof -
  have "settled_review x' j" if "settled_review x j" for j using that assms(2) by (auto simp: settled_review_def)
  then show ?thesis using assms unfolding paid_ok_def by (fastforce simp: assms(2))
qed

lemma started_apart:
  assumes "set ks \<subseteq> set answer_kinds"
  shows "Some (job_ref i ''review_inference_started'') \<notin> set (map (\<lambda>k. Some (job_ref j k)) ks)"
proof
  assume "Some (job_ref i ''review_inference_started'') \<in> set (map (\<lambda>k. Some (job_ref j k)) ks)"
  then obtain k where k: "k \<in> set ks" "job_ref i ''review_inference_started'' = job_ref j k" by auto
  then have "''review_inference_started'' = k" using job_ref_inj(2) plain_kinds(2) answer_plain [OF assms] by blast
  then show False using k(1) assms by (auto simp: answer_kinds_def)
qed

lemma answered_paid:
  assumes ok: "paid_ok x" and t: "told (job_of q) ks x x'" and a: "answered q ks (Inr r)" and r0: "xe_runner x = Alive (Reviewing q u ms ns)"
    and x'': "refs x'' = refs x'"
  shows "paid_ok x''"
proof (rule paid_grow [OF ok])
  show grown: "refs x'' = refs x @ map (\<lambda>k. Some (job_ref (job_of q) k)) ks" using t x'' by (simp add: told_def)
  have sub: "set ks \<subseteq> set answer_kinds" using a kinds_apart(5) unfolding answered_def by blast
  show "Some (job_ref j ''review_inference_started'') \<notin> set (map (\<lambda>k. Some (job_ref (job_of q) k)) ks)" for j
    by (rule started_apart [OF sub])
  have "''reviewer_decision'' \<in> set ks \<or> ''reviewer_error'' \<in> set ks" using a by (auto simp: answered_def)
  then have "settled_review x'' (job_of q)" by (auto simp: settled_review_def grown)
  then show "settled_review x'' (job_of q') \<or> holding (xe_runner x'') = Some (q', t')" if "holding (xe_runner x) = Some (q', t')" for q' t'
    using that by (simp add: r0)
qed

lemma worked_paid:
  assumes ok: "paid_ok x" and rel: "reliable (noting refuses)" and slots: "slots_ok_for (xe_runner x) (xe_ledger x) T"
    and env: "clocks_dated env" "draws w \<Longrightarrow> new_token (xv_token env) T (xe_ledger x)"
  shows "paid_ok (work (noting refuses) env w x)"
proof (cases "work (noting refuses) env w x = x")
  case True
  then show ?thesis using ok by simp
next
  case False
  then consider (take) fresh q qs where "w = TakeJob fresh" "xe_runner x = Alive Waiting" "xe_queue x = q # qs"
    | (answer) fresh outcome q t ms ns where "w = ReviewerAnswers fresh outcome" "xe_runner x = Alive (Reviewing q t ms ns)"
    | (deliver) outcome q d where "w = DeliveryEnds outcome" "xe_runner x = Alive (Delivering q d)"
    by (auto simp: work_def split: wake.splits runner.splits phase.splits list.splits)
  then show ?thesis
  proof cases
    case take
    define best where "best = next_entry q qs"
    define y where "y = x\<lparr>xe_queue := remove1 best (xe_queue x)\<rparr>"
    obtain x' r where run: "begin_review (noting refuses) env fresh best y = (x', r)" by fastforce
    have work: "work (noting refuses) env w x = ran (x', r)" using take run by (simp add: work_def Let_def best_def y_def)
    have "readable (xe_ledger y)" "\<forall>t\<in>T. dget (slots_in (xe_ledger y)) t = None" using slots take(2) by (simp_all add: slots_idle y_def)
    from begin_review_slots [OF rel this _ run] env(2) take(1) obtain r' where r': "r = Inr r'" by (auto simp: draws_def y_def)
    obtain ks where ks: "told (job_of best) ks y x'" "began best ks r" using begin_review_told [OF run] by blast
    have refs: "refs (ran (x', r)) = refs x @ map (\<lambda>k. Some (job_ref (job_of best) k)) ks"
      using ran_told(1) [OF ks(1), of r] by (simp add: y_def refs_def)
    show ?thesis
    proof (cases "ks = [''review_inference_started'']")
      case True
      then obtain t ms ns where rv: "r' = Alive (Reviewing best t ms ns)" using ks(2) r' by (auto simp: began_def)
      then have hold: "holding (xe_runner (ran (x', r))) = Some (best, t)" by (simp add: r' ran_parts)
      have "settled_review (ran (x', r)) j \<or> (\<exists>q t. holding (xe_runner (ran (x', r))) = Some (q, t) \<and> job_of q = j)"
        if v: "Some (job_ref j ''review_inference_started'') \<in> set (refs (ran (x', r)))" for j
      proof (cases "Some (job_ref j ''review_inference_started'') \<in> set (refs x)")
        case True
        then have "settled_review x j" using ok take(2) by (auto simp: paid_ok_def)
        then show ?thesis by (auto simp: settled_review_def refs)
      next
        case False
        then have "job_ref j ''review_inference_started'' = job_ref (job_of best) ''review_inference_started''"
          using v by (auto simp: refs \<open>ks = _\<close>)
        then show ?thesis using job_ref_inj(1) [OF plain_kinds(2) plain_kinds(2)] hold by blast
      qed
      then show ?thesis by (simp add: work paid_ok_def)
    next
      case False
      then have "set ks \<subseteq> {''reviewer_error'', ''reviewer_capped''}" using ks(2) by (auto simp: began_def)
      then have "Some (job_ref j ''review_inference_started'') \<notin> set (map (\<lambda>k. Some (job_ref (job_of best) k)) ks)" for j
        using job_ref_inj(2) [OF plain_kinds(2)] plain_kinds(3,4) by fastforce
      then show ?thesis unfolding work using take(2) by (intro paid_grow [OF ok refs]) simp_all
    qed
  next
    case answer
    obtain x' r where run: "end_review (noting refuses) env fresh outcome q t ms ns x = (x', r)" by fastforce
    obtain r' where r': "r = Inr r'" using end_review_ledger [OF rel slots [unfolded answer(2)] env(1) run] by blast
    obtain ks where ks: "told (job_of q) ks x x'" "answered q ks (Inr r')" using end_review_told [OF run] r' by blast
    have "paid_ok (ran (x', r))" by (rule answered_paid [OF ok ks answer(2)]) (simp add: r' ran_parts refs_def)
    then show ?thesis using answer run by (simp add: work_def)
  next
    case deliver
    obtain x' r where run: "end_delivery (noting refuses) env outcome q x = (x', r)" by fastforce
    obtain ks where ks: "told (job_of q) ks x x'" "ks = [] \<or> ks = [''intervention_delivery_error'']" using end_delivery_told [OF run] by blast
    have "set ks \<subseteq> set answer_kinds" using ks(2) by (auto simp: answer_kinds_def)
    then have "paid_ok (ran (x', r))"
      using started_apart deliver(2) by (intro paid_grow [OF ok ran_told(1) [OF ks(1)]]) simp_all
    then show ?thesis using deliver run by (simp add: work_def)
  qed
qed

lemma closed_paid:
  assumes ok: "paid_ok x" and rel: "reliable (noting refuses)" and slots: "slots_ok_for (xe_runner x) (xe_ledger x) T" and "clocks_dated env"
  shows "paid_ok (close_executor (noting refuses) env x)"
proof (cases "\<exists>q t ms ns. xe_runner x = Alive (Reviewing q t ms ns)")
  case True
  then obtain q t ms ns where r: "xe_runner x = Alive (Reviewing q t ms ns)" by blast
  obtain x' res where run: "end_review (noting refuses) env False ReviewCancelled q t ms ns x = (x', res)" by fastforce
  obtain r' where r': "res = Inr r'" using end_review_ledger [OF rel slots [unfolded r] assms(4) run] by blast
  obtain ks where ks: "told (job_of q) ks x x'" "answered q ks (Inr r')" using end_review_told [OF run] r' by blast
  have "paid_ok (x'\<lparr>xe_runner := NoRunner\<rparr>)" by (rule answered_paid [OF ok ks r]) (simp add: refs_def)
  then show ?thesis by (simp add: close_executor_def r run)
next
  case False
  then have "close_executor (noting refuses) env x = x\<lparr>xe_runner := NoRunner\<rparr>" "holding (xe_runner x) = None"
    by (auto simp: close_executor_def holding_def split: runner.split phase.split)
  then show ?thesis using paid_grow [OF ok, of _ "[]"] by (simp add: refs_def)
qed

lemma submitted_paid:
  assumes ok: "paid_ok x" and run: "submit (noting refuses) env job x = (x', r)"
  shows "paid_ok x'"
proof -
  obtain vs where vs: "refs x' = refs x @ vs" "set vs \<subseteq> {Some (job_ref (rj_id job) ''review_job_config_pinned'')}"
    using run by (cases rule: submit_told) auto
  have "Some (job_ref j ''review_inference_started'') \<notin> set vs" for j
    using vs(2) job_ref_inj(2) [OF plain_kinds(2) plain_kinds(1)] by fastforce
  then show ?thesis using submit_parts(2) [OF run] by (intro paid_grow [OF ok vs(1)]) simp_all
qed

lemma run_paid:
  assumes "exec_run (noting refuses) [] x T" "reliable (noting refuses)"
  shows "paid_ok x"
  using assms(1)
proof (induction rule: exec_run.induct)
  case (launched f config generation delivers)
  then show ?case by (simp add: paid_ok_def refs_def new_executor_def)
next
  case (continued x T x' T')
  note slots = run_slots [OF continued(1) assms(2)]
  show ?case using continued(2)
  proof (cases rule: exec_step.cases)
    case (submitting env job r)
    then show ?thesis using submitted_paid [OF continued(3)] by blast
  next
    case (configuring config generation)
    then show ?thesis using paid_grow [OF continued(3), of x' "[]"] by (simp add: update_config_def refs_def)
  next
    case (working env w)
    then show ?thesis using worked_paid [OF continued(3) assms(2) slots] by simp
  next
    case (closing env)
    then show ?thesis using closed_paid [OF continued(3) assms(2) slots] by simp
  next
    case (elsewhere op)
    then show ?thesis using paid_grow [OF continued(3), of x' "[]"] by (simp add: refs_def)
  qed
qed

section \<open>Claims\<close>

text \<open>C23: Every event the executor offers for recording has an identifier of its own, however jobs are submitted,
  refused, answered, delivered, cancelled and restarted and whatever the recorder refuses and the
  ledger holds, so no record of it is ever taken for a repetition.\<close>

theorem executor_events_distinct:
  assumes "exec_moves (noting refuses) (new_executor config generation delivers f []) x"
    and "i < length (xe_sink x)" "j < length (xe_sink x)" "ev_id (xe_sink x ! i) = ev_id (xe_sink x ! j)"
  shows "i = j"
proof -
  have "events_ok x"
    using assms(1)
  proof (induction "new_executor config generation delivers f ([] :: trace_event list)" x rule: exec_moves.induct)
    case still
    then show ?case by (rule new_events)
  next
    case (further y z)
    then show ?case using moved_events by blast
  qed
  then have "distinct (map ev_id (xe_sink x))" by (simp add: events_ok_def refs_def)
  then show ?thesis using assms(2-4) nth_eq_iff_index_eq [of "map ev_id (xe_sink x)" i j] by simp
qed

text \<open>C21: No reservation is left behind: on a ledger only ledger operations change, with a recorder that records,
  a slot the executor reserved is open only while the reviewer of the job it was reserved for is at
  work, through decisions, failures, cancellation and shutdown.\<close>

theorem executor_slots_settled:
  assumes "exec_run put s x T" "reliable put" "t \<in> T" "dget (slots_in (xe_ledger x)) t \<noteq> None"
  shows "\<exists>q ms ns. xe_runner x = Alive (Reviewing q t ms ns)"
proof -
  obtain sl where "dget (slots_in (xe_ledger x)) t = Some sl" using assms(4) by blast
  then have "\<exists>q. holding (xe_runner x) = Some (q, t)" using run_slots [OF assms(1,2)] assms(3) unfolding slots_ok_for_def by blast
  then show ?thesis by (auto simp: holding_def split: runner.splits phase.splits)
qed


text \<open>C33: A paid decision is lost when the ledger cannot be read at the moment it is settled: the exception of the
  fallback charge ends the task before the decision is recorded, whatever the decision and the
  recorder, and the jobs that are queued wait until the next submission.\<close>

theorem unreadable_ledger_loses_decision:
  assumes "xe_runner x = Alive (Reviewing q t ms ns)" "load (xe_ledger x) = Inl (LedgerCorrupt m)"
  shows "work put env (ReviewerAnswers fresh (Decided d n)) x = x\<lparr>xe_runner := Finished\<rparr>
    \<and> work put env' w (x\<lparr>xe_runner := Finished\<rparr>) = x\<lparr>xe_runner := Finished\<rparr>"
proof -
  have "settle (session_of q) (Some t) n (xv_clock env) (xe_ledger x) = (xe_ledger x, Inr None)"
    using assms(2) by (simp add: settle_def)
  moreover have "charge (session_of q) n (xv_clock2 env) (xe_ledger x) = (xe_ledger x, Inl (LedgerCorrupt m))"
    using assms(2) by (simp add: charge_def locked_def)
  ultimately have "end_review put env fresh (Decided d n) q t ms ns x = (x, Inl (LedgerCorrupt m))"
    by (simp add: end_review_def Let_def pay_def attempt_bind_def)
  then have "work put env (ReviewerAnswers fresh (Decided d n)) x = x\<lparr>xe_runner := Finished\<rparr>"
    using assms(1) by (simp add: work_def ran_parts)
  moreover have "work put env' w (x\<lparr>xe_runner := Finished\<rparr>) = x\<lparr>xe_runner := Finished\<rparr>" by (cases w) (simp_all add: work_def)
  ultimately show ?thesis by blast
qed

section \<open>A sample run\<close>

definition sample_config :: reviewer_config where
  "sample_config = \<lparr>vc_model = ''m'', vc_on_signals = True, vc_deliver = False, vc_interrupt = False, vc_per_session = 1, vc_per_day = 5\<rparr>"

definition sample_exec_env :: exec_env where
  "sample_exec_env = \<lparr>xv_time = \<lambda>_. Fin 0, xv_ns = 0, xv_started = 0, xv_clock = noon, xv_clock2 = noon, xv_token = ''t1'',
     xv_text = \<lambda>_. []\<rparr>"

definition paid_job :: reviewer_job where
  "paid_job = sample_job\<lparr>rj_id := ''j'', rj_thread := ThreadId ''s''\<rparr>"

definition records_all :: "trace_event list recorder" where
  "records_all = noting (\<lambda>_ _. None)"

definition first_executor :: "trace_event list executor" where
  "first_executor = new_executor sample_config ''g'' False Absent []"

definition queued_executor :: "trace_event list executor" where
  "queued_executor = fst (submit records_all sample_exec_env paid_job first_executor)"

definition paid_executor :: "trace_event list executor" where
  "paid_executor = work records_all sample_exec_env (TakeJob True) queued_executor"

lemma records_reliable: "reliable (noting (\<lambda>_ _. None))" "reliable records_all"
  by (simp_all add: reliable_def noting_def records_all_def)

lemma paid_priority: "priority paid_job = Inr (Fin 2)"
proof -
  have "rv_severity sample_input = Some (PInt 2)" by code_simp
  moreover have "float_of_int 2 = Inr (Fin 2)" by code_simp
  ultimately show ?thesis by (simp add: priority_def paid_job_def sample_job_def)
qed

definition paid_entry :: queue_entry where
  "paid_entry = \<lparr>qe_priority = Fin 2, qe_sequence = 1, qe_queued = 0, qe_job = paid_job, qe_config = sample_config, qe_generation = ''g''\<rparr>"

lemma queued_facts:
  "xe_queue queued_executor = [paid_entry]" "xe_runner queued_executor = Alive Waiting" "xe_ledger queued_executor = Absent"
  "map ev_id (xe_sink queued_executor) = [Some (job_ref ''j'' ''review_job_config_pinned'')]"
proof -
  have "rj_id paid_job = ''j''" by (simp add: paid_job_def)
  then show "xe_queue queued_executor = [paid_entry]" "xe_runner queued_executor = Alive Waiting" "xe_ledger queued_executor = Absent"
    "map ev_id (xe_sink queued_executor) = [Some (job_ref ''j'' ''review_job_config_pinned'')]"
    by (simp_all add: queued_executor_def submit_def first_executor_def new_executor_def sample_config_def record_in_def records_all_def
        noting_def attempt_bind_def Let_def paid_priority enqueue_def start_runner_def pinned_entry_def paid_entry_def sample_exec_env_def)
qed

lemma paid_session: "session_of paid_entry = ''s''" "vc_per_session (qe_config paid_entry) = 1" "vc_per_day (qe_config paid_entry) = 5"
  "job_of paid_entry = ''j''" "qe_job paid_entry = paid_job"
  by (simp_all add: session_of_def paid_entry_def paid_job_def sample_config_def)

lemma paid_facts:
  "\<exists>ms ns. xe_runner paid_executor = Alive (Reviewing paid_entry ''t1'' ms ns)" "xe_ledger paid_executor = one_slot"
  "map ev_id (xe_sink paid_executor) = [Some (job_ref ''j'' ''review_job_config_pinned''), Some (job_ref ''j'' ''review_inference_started'')]"
proof -
  define y where "y = queued_executor\<lparr>xe_queue := []\<rparr>"
  have env: "xv_clock sample_exec_env = noon" "xv_token sample_exec_env = ''t1''" by (simp_all add: sample_exec_env_def)
  have id: "rj_id paid_job = ''j''" by (simp add: paid_job_def)
  have "begin_review records_all sample_exec_env True paid_entry y
      = granted records_all sample_exec_env paid_entry ''t1'' (y\<lparr>xe_ledger := one_slot\<rparr>)"
    by (simp add: begin_review_def paid_session env queued_facts(3) y_def sample_reserve)
  then have "paid_executor = ran (granted records_all sample_exec_env paid_entry ''t1'' (y\<lparr>xe_ledger := one_slot\<rparr>))"
    by (simp add: paid_executor_def work_def queued_facts(1,2) y_def)
  then obtain p g t ms ns where eq: "paid_executor = y\<lparr>xe_ledger := one_slot,
      xe_sink := xe_sink queued_executor @ [job_event paid_job ''review_inference_started'' p g t],
      xe_runner := Alive (Reviewing paid_entry ''t1'' ms ns)\<rparr>"
    by (simp add: granted_def Let_def tell_def record_in_def records_all_def noting_def attempt_bind_def ran_parts y_def paid_session)
  show "\<exists>ms ns. xe_runner paid_executor = Alive (Reviewing paid_entry ''t1'' ms ns)" "xe_ledger paid_executor = one_slot"
    "map ev_id (xe_sink paid_executor) = [Some (job_ref ''j'' ''review_job_config_pinned''), Some (job_ref ''j'' ''review_inference_started'')]"
    unfolding eq by (simp_all add: queued_facts(4) id)
qed

lemma absent_readable: "readable Absent"
  by (simp add: readable_def load_def)

lemma sample_dated: "clocks_dated sample_exec_env"
  by (simp add: clocks_dated_def dated_def sample_exec_env_def sample_dates)

lemma paid_run: "exec_run records_all [] paid_executor {''t1''}"
proof -
  have "exec_run records_all [] first_executor {}"
    unfolding first_executor_def using absent_readable by (rule launched)
  moreover have "exec_step records_all (first_executor, {}) (queued_executor, {})"
    by (rule submitting [of _ sample_exec_env paid_job _ _ "snd (submit records_all sample_exec_env paid_job first_executor)"])
      (simp add: queued_executor_def)
  ultimately have "exec_run records_all [] queued_executor {}" by (rule continued)
  moreover have "new_token (xv_token sample_exec_env) {} (xe_ledger queued_executor)"
    by (simp add: new_token_def queued_facts(3) empty_view dget_def sample_exec_env_def)
  then have "exec_step records_all (queued_executor, {}) (paid_executor, if draws (TakeJob True) then insert (xv_token sample_exec_env) {} else {})"
    unfolding paid_executor_def using sample_dated by (intro working)
  then have "exec_step records_all (queued_executor, {}) (paid_executor, {''t1''})" by (simp add: draws_def sample_exec_env_def)
  ultimately show ?thesis by (rule continued)
qed

theorem executor_events_distinct_witness:
  "\<exists>x :: trace_event list executor. xe_sink x \<noteq> [] \<and> (\<forall>i < length (xe_sink x). ev_id (xe_sink x ! i) = ev_id (xe_sink x ! 0) \<longrightarrow> i = (0::nat))"
proof -
  have "exec_moves records_all first_executor first_executor" by (rule still)
  then have moves: "exec_moves records_all first_executor queued_executor"
  proof (rule further)
    show "exec_move records_all first_executor queued_executor"
      by (rule submitted [of _ sample_exec_env paid_job _ _ "snd (submit records_all sample_exec_env paid_job first_executor)"])
        (simp add: queued_executor_def)
  qed
  have some: "xe_sink queued_executor \<noteq> []" using queued_facts(4) by auto
  have "i = 0" if "i < length (xe_sink queued_executor)" "ev_id (xe_sink queued_executor ! i) = ev_id (xe_sink queued_executor ! 0)" for i
    using executor_events_distinct [OF moves [unfolded records_all_def first_executor_def] that(1) _ that(2)] some by simp
  then show ?thesis using some by (intro exI [of _ queued_executor]) blast
qed

theorem executor_slots_settled_witness:
  "\<exists>x q ms ns. dget (slots_in (xe_ledger x)) ''t1'' \<noteq> None \<and> xe_runner (x :: trace_event list executor) = Alive (Reviewing q ''t1'' ms ns)"
proof -
  have "dget (slots_in (xe_ledger paid_executor)) ''t1'' \<noteq> None" by (simp add: paid_facts(2) sample_view dget_def)
  then show ?thesis using executor_slots_settled [OF paid_run records_reliable(2), of "''t1''"] by blast
qed


theorem unreadable_ledger_loses_decision_witness:
  "\<exists>x. work records_all sample_exec_env (ReviewerAnswers True (Decided \<lparr>vd_decision = ''nudge'', vd_failure_class = [], vd_reason = [],
       vd_confidence = Fin 1, vd_hypothesis = []\<rparr> 9)) x = x\<lparr>xe_runner := Finished\<rparr> \<and> xe_runner x \<noteq> Finished"
proof -
  obtain ms ns where r: "xe_runner (paid_executor\<lparr>xe_ledger := Unreadable []\<rparr>) = Alive (Reviewing paid_entry ''t1'' ms ns)"
    using paid_facts(1) by auto
  have "\<exists>m. load (xe_ledger (paid_executor\<lparr>xe_ledger := Unreadable []\<rparr>)) = Inl (LedgerCorrupt m)" by (simp add: load_def corrupt_def)
  then show ?thesis using unreadable_ledger_loses_decision [OF r] r by (intro exI [of _ "paid_executor\<lparr>xe_ledger := Unreadable []\<rparr>"]) auto
qed

end
