(* ===== verification/Spec2Isabelle.thy ===== *)
theory Spec2Isabelle
  imports Signal_Samples Scheduler_Samples Budget_Samples Trace_Events Outcomes Runtime_Identity
    Audit_Claims Effects_Claims Ledger_Claims Command_Claims Redact_Claims Hook_Claims Evidence_Claims Ingestion_Claims
    Executor_Claims
begin

text \<open>
  Verification library for Spotter (\<open>src/src/spotter/\<close>), a runtime supervisor for coding agents.

  \<^bold>\<open>The program.\<close> A coding agent runs in a host that tells Spotter what it does, in two ways. The hook
  (\<open>hook.py\<close>) is a short process per tool call: it turns the host's JSON into a trace event, has a
  deterministic gate judge a proposed action, journals event, effect and verdict, and answers with a
  denial or with silence. The daemon receives the notifications of the host's App Server:
  \<open>ingestion.py\<close> normalizes and journals each once, \<open>thread_state.py\<close> reduces the events of a thread
  to an immutable state, \<open>signals.py\<close> derives candidates for intervention from event and state,
  \<open>review_scheduler.py\<close> binds reviewer jobs to the state they were seen in, \<open>review_executor.py\<close> runs
  them against a spending ledger (\<open>budget.py\<close>) and records the outcome. Journals (\<open>snapshot.py\<close>) are
  the only memory: after a crash every index is rebuilt from them.

  \<^bold>\<open>Vocabulary.\<close>

  \<^item> \<open>Spotter_Prelude\<close>: exceptions (\<open>exc\<close>), results (\<open>exc + 'a\<close>, bound with
  \<open>rbind\<close>), operations whose state survives an exception (\<open>attempt\<close>), and insertion-ordered
  dictionaries with their interface \<open>ordered_dict\<close>, interpreted as \<open>dict\<close>.
  \<^item> \<open>Py_Text\<close>, \<open>Py_Value\<close>, \<open>Py_Hash\<close>, \<open>Py_Url\<close>, \<open>Py_Posix\<close>, \<open>Py_Shlex\<close>, \<open>Py_Regex\<close>, \<open>Py_Json\<close>,
  \<open>Calendar\<close>: what the sources use of Python 3.11 and its library: string methods, the values of
  \<open>json\<close>, doubles with correct rounding, SHA-1, SHA-256 and \<open>uuid5\<close>, \<open>urlsplit\<close>, \<open>posixpath\<close>,
  \<open>fnmatch\<close>, \<open>shlex\<close>, a backtracking matcher for \<open>re\<close>, \<open>json\<close> itself, and UTC dates.

  \<^bold>\<open>Components.\<close> Each theory keeps the names of its source where HOL allows.

  \<^item> \<open>Outcomes\<close> (\<open>outcomes.py\<close>), \<open>Runtime_Identity\<close> (\<open>identity.py\<close>: the record \<open>registry\<close> is
  \<open>RuntimeIdentityRegistry\<close>), \<open>Trace_Events\<close> (\<open>trace.py\<close>: \<open>trace_event\<close> is \<open>TraceEvent\<close>).
  \<^item> \<open>Thread_State\<close> (\<open>thread_state.py\<close>): \<open>reduce\<close> is the reducer, the record of the store with
  \<open>observe\<close>, \<open>replay_events\<close> and the rest is \<open>ThreadStateStore\<close>. \<open>Thread_Invariants\<close> and
  \<open>Thread_Store\<close> hold what every reachable state satisfies, the exact reach of invalidated evidence,
  and the refinement of the mutable store to a fold of the reducer (locale \<open>state_store\<close>,
  interpretation \<open>store_api\<close>).
  \<^item> \<open>Signal_Core\<close>, \<open>Signal_Engine\<close> (\<open>signals.py\<close>): the tables of the engine, its rules, \<open>update\<close> and
  hydration. \<open>Signal_Invariants\<close> states the contract of a rule as the locale \<open>signal_rule\<close>;
  \<open>Signal_Rules\<close> and \<open>Signal_Update\<close> interpret it for every rule and compose them;
  \<open>Signal_Paths\<close>, \<open>Signal_Claims\<close>, \<open>Signal_Samples\<close> hold properties and witnesses.
  \<^item> \<open>Reviewer_Input\<close> (\<open>reviewer_input.py\<close>) and \<open>Review_Scheduler\<close> (\<open>review_scheduler.py\<close>), with
  \<open>Scheduler_Claims\<close> and \<open>Scheduler_Samples\<close>: jobs stay bound to the state they were made from.
  \<^item> \<open>Budget\<close> (\<open>budget.py\<close>): the ledger as the contents of its file. \<open>Budget_Claims\<close> states two
  contracts of a shared book as locales (\<open>capped_counter\<close>, \<open>slot_book\<close>) and interprets them on the
  steps of the processes that share the file; \<open>Budget_Samples\<close> has the witnesses.
  \<^item> \<open>Review_Executor\<close> (\<open>review_executor.py\<close>): the asynchronous task as a state with a phase
  (waiting, reviewing with a token, delivering); what lies between two suspensions is one
  operation. \<open>Executor_Slots\<close> has the step relations and the accounting of slots, resting on
  \<open>Budget_Claims\<close>; \<open>Executor_Events\<close> what is recorded; \<open>Executor_Claims\<close> the properties.
  \<^item> \<open>Gates\<close> (\<open>gates.py\<close>), with \<open>Gates_Claims\<close> on paths and \<open>Command_Claims\<close> on commands: a
  declarative reading of the destructive commands and its equivalence with the gate.
  \<^item> \<open>Effects\<close> and \<open>Effect_Ledger\<close> (\<open>effects.py\<close>): the classifier of actions and the ledger of
  external effects, with \<open>Effects_Claims\<close> and \<open>Ledger_Claims\<close>.
  \<^item> \<open>Redact\<close> (\<open>redact.py\<close>) with \<open>Redact_Claims\<close>: the locale \<open>redaction_rule\<close>, interpreted for every
  pattern of the source.
  \<^item> \<open>Audit_State\<close> (\<open>audit.py\<close>) with \<open>Audit_Claims\<close>.
  \<^item> \<open>Journal\<close> (the journal in \<open>snapshot.py\<close>): a file is a list of lines with their lengths, the
  last of which may be cut off; the sidecar is a value. \<open>Journal_Claims\<close> has the step relation with
  torn writes, crashes before the sidecar and lost sidecars, and what survives them.
  \<^item> \<open>Supervision\<close> (\<open>core.py\<close>, \<open>adapters.py\<close>, \<open>codex.py\<close>) and \<open>Hook\<close> (\<open>hook.py\<close>): the boundary
  \<open>AgentAdapter\<close> is the locale \<open>event_sink\<close>, interpreted for the in-memory adapter and, in
  \<open>Hook_Claims\<close>, for the journaling one.
  \<^item> \<open>Ingestion\<close> (\<open>ingestion.py\<close>): \<open>normalize\<close> is \<open>CodexTraceNormalizer\<close>, the record \<open>ingestor\<close> with its
  \<open>indexes\<close> is \<open>AppServerTraceIngestor\<close>. \<open>Ingestion_Invariants\<close> says of every index what it is in
  terms of the journals, \<open>Ingestion_Registry\<close> ties journaled events to the identity registry,
  \<open>Ingestion_World\<close> proves the invariant \<open>good\<close> and that recovery restores it, and
  \<open>Ingestion_Claims\<close> has the histories of notifications, crashes, damage and restarts.
  \<^item> \<open>Evidence_Store\<close> and \<open>Feedback\<close> (\<open>feedback.py\<close>): line-oriented stores as the locale
  \<open>line_store\<close>, interpreted for human feedback; \<open>Json_Roundtrip\<close> proves that what \<open>json.dumps\<close> writes
  is what \<open>json.loads\<close> reads; \<open>Evidence_Claims\<close> has the properties.

  \<^bold>\<open>Bounds and fuel.\<close> The JSON parser runs on fuel, the length of its text; \<open>parse_fuel\<close> and
  \<open>loads_fuel\<close> show that no fuel reads a text this does not read. Recursion over shell scripts is
  bounded by the depth the sources bound it by. All other loops are structural or have a
  termination proof. Integers are unbounded, as in Python; doubles are rounded to 53 bits in the range
  of binary64, without the sign of zero.

  \<^bold>\<open>Arguments of the model.\<close> Clocks, \<open>uuid4\<close>, the user's name, home and scratch directories, the
  snapshot taken of a repository, the answer of the daemon, of a reviewer and of a delivery, the
  start of a process, and the encoded length of a line are arguments. File locks make an operation
  one step. Digests are computed, so nothing is assumed of them, except in \<open>ingest_step\<close>: the
  identifiers of the turns seen are distinct (\<open>no_collision\<close>).

  \<^bold>\<open>Idealisations.\<close> A character is a code point below 256. The details of JSON and of decoding errors
  are not kept in messages. Python's limits on recursion and on the digits of integers are not
  modelled, nor is the zero padding of years before 1000. In \<open>Journal\<close> a line holds the value that was
  written, so the journal's own round trip through text is assumed; a payload is a list of entries,
  and a snapshot that is no string reads as none. An \<open>fnmatch\<close> set with a reversed range before
  \<open>!\<close> is outside the model. A hook invocation that raises yields its error without the part of the
  world it had changed. Thread identifiers contain no path separator.

  \<^bold>\<open>Not modelled.\<close> The git plumbing that takes, restores and pins snapshots, and retention; the audit of
  source shapes in ingestion, whose failures ingestion ignores; prompts and the reviewer's process;
  labels, opportunities, sampling frames and metrics, which report offline on journals; wrong-nudge
  and replay experiments; inventories and registries of files; TOML configuration and platform
  paths; sockets, subprocesses, the daemon's event loop and the command line. These are dominated by
  the file system, processes and user interface; \<open>opportunities.py\<close>, \<open>labels.py\<close> and \<open>sampling.py\<close>
  follow the pattern of \<open>line_store\<close> and would be the next to add.

  \<^bold>\<open>What the theorems show.\<close> The properties are marked C1 to C40 where they are stated. In short: the state
  of a thread is a function of its own events, each taken once (C1, C2); journals read back what
  was recorded through torn writes and crashes, and ingestion resumes from them without losing,
  repeating or misnumbering events; the gate blocks what its rules call destructive and confines
  paths, and the hook denies only that; signals, jobs and reviews stay within their bounds, bound to the
  state they were made for, and spending stays under its caps with no reservation left behind;
  redaction keeps no token; classification errs on the irreversible side. Several theorems show
  defects: two tears a journal does not recover from, a note that makes feedback unreadable, a
  completion refused because its effect hid its outcome, and a paid decision that is lost.
\<close>

end
